(* ===== verification/Prelude.thy ===== *)
theory Prelude
  imports Complex_Main "HOL-Library.AList" "HOL-Library.Product_Lexorder" "HOL-Library.Multiset"
begin

text \<open>
  The vocabulary every component shares: dynamic Python values and dictionaries
  (\<open>dict\<close> keeps insertion order, as Python does), the exceptions the modelled code can
  raise, results that are an exception or a value, decimal rendering of integers,
  the ASCII part of the string methods the code calls, and Python's stable sorts.
  The collections \<open>py_simps\<close> (dictionary and value rules) and \<open>res_simps\<close> (results)
  carry the component proofs.
\<close>

named_theorems py_simps "dynamic values and dictionaries"
named_theorems res_simps "sequencing of results"

section \<open>Dynamic values\<close>

datatype pyval =
    PNone
  | PBool bool
  | PInt int
  | PFloat rat
  | PStr string
  | PList "pyval list"
  | PDict "(string \<times> pyval) list"

type_synonym dict = "(string \<times> pyval) list"
type_synonym uuid = nat
type_synonym time = rat

text \<open>Python's truth test of a value, as \<open>if x\<close>, \<open>and\<close> and \<open>bool(x)\<close> use it.\<close>

fun truthy :: "pyval \<Rightarrow> bool" where
  "truthy PNone = False"
| "truthy (PBool b) = b"
| "truthy (PInt i) = (i \<noteq> 0)"
| "truthy (PFloat r) = (r \<noteq> 0)"
| "truthy (PStr s) = (s \<noteq> [])"
| "truthy (PList xs) = (xs \<noteq> [])"
| "truthy (PDict d) = (d \<noteq> [])"

fun hashable :: "pyval \<Rightarrow> bool" where
  "hashable (PList _) = False"
| "hashable (PDict _) = False"
| "hashable _ = True"

section \<open>Dictionaries in insertion order\<close>

text \<open>
  \<open>d.get(k)\<close> without a default, \<open>d.get(k, v)\<close>, \<open>k in d\<close>, \<open>d[k] = v\<close> (an existing key
  keeps its place, a new one goes to the end) and \<open>{**a, **b}\<close>.
\<close>

definition dget :: "('k \<times> 'v) list \<Rightarrow> 'k \<Rightarrow> 'v option" where
  "dget d k = map_of d k"

definition dget_or :: "('k \<times> 'v) list \<Rightarrow> 'k \<Rightarrow> 'v \<Rightarrow> 'v" where
  "dget_or d k v = (case dget d k of None \<Rightarrow> v | Some x \<Rightarrow> x)"

definition dhas :: "('k \<times> 'v) list \<Rightarrow> 'k \<Rightarrow> bool" where
  "dhas d k \<longleftrightarrow> dget d k \<noteq> None"

definition dset :: "'k \<Rightarrow> 'v \<Rightarrow> ('k \<times> 'v) list \<Rightarrow> ('k \<times> 'v) list" where
  "dset k v d = AList.update k v d"

fun dmerge :: "('k \<times> 'v) list \<Rightarrow> ('k \<times> 'v) list \<Rightarrow> ('k \<times> 'v) list" where
  "dmerge a [] = a"
| "dmerge a ((k, v) # b) = dmerge (dset k v a) b"

definition truthy_opt :: "pyval option \<Rightarrow> bool" where
  "truthy_opt v = (case v of None \<Rightarrow> False | Some x \<Rightarrow> truthy x)"

definition not_none :: "pyval option \<Rightarrow> bool" where
  "not_none v = (case v of None \<Rightarrow> False | Some PNone \<Rightarrow> False | Some _ \<Rightarrow> True)"

lemma dget_dset [simp, py_simps]: "dget (dset k v d) j = (if j = k then Some v else dget d j)"
  by (simp add: dget_def dset_def update_conv')

lemma dget_Nil [simp, py_simps]: "dget [] k = None"
  by (simp add: dget_def)

lemma dget_Cons [simp, py_simps]: "dget ((k, v) # d) j = (if j = k then Some v else dget d j)"
  by (simp add: dget_def)

lemma dhas_dset [simp, py_simps]: "dhas (dset k v d) j \<longleftrightarrow> j = k \<or> dhas d j"
  by (simp add: dhas_def)

lemma dget_or_dset [simp, py_simps]:
  "dget_or (dset k v d) j x = (if j = k then v else dget_or d j x)"
  by (simp add: dget_or_def)

lemma dkeys_dset: "set (map fst (dset k v d)) = insert k (set (map fst d))"
  unfolding dset_def by (simp only: dom_map_of_conv_image_fst [symmetric] set_map update_conv') auto

lemma distinct_dset: "distinct (map fst d) \<Longrightarrow> distinct (map fst (dset k v d))"
  by (simp add: dset_def distinct_update)

lemma dget_dmerge:
  "distinct (map fst b) \<Longrightarrow>
   dget (dmerge a b) k = (case dget b k of None \<Rightarrow> dget a k | Some v \<Rightarrow> Some v)"
proof (induction a b rule: dmerge.induct)
  case (1 a)
  then show ?case by simp
next
  case (2 a j v b)
  have "dget b j = None"
    using "2.prems" by (simp add: dget_def map_of_eq_None_iff)
  then show ?case using 2 by (auto split: option.splits)
qed

text \<open>An optional string as a condition: \<open>None\<close> and \<open>""\<close> are both false.\<close>

definition nonempty :: "string option \<Rightarrow> string option" where
  "nonempty v = (if v = Some [] then None else v)"

section \<open>Exceptions and results\<close>

datatype exn = TypeError | ValueError string | KeyError string | AttributeError | IntegrityError

fun bind_res :: "'e + 'a \<Rightarrow> ('a \<Rightarrow> 'e + 'b) \<Rightarrow> 'e + 'b" where
  "bind_res (Inl e) f = Inl e"
| "bind_res (Inr x) f = f x"

declare bind_res.simps [res_simps]

lemma bind_res_Inr [res_simps]:
  "bind_res r f = Inr y \<longleftrightarrow> (\<exists>x. r = Inr x \<and> f x = Inr y)"
  by (cases r) auto

lemma bind_res_Inl [res_simps]:
  "bind_res r f = Inl e \<longleftrightarrow> r = Inl e \<or> (\<exists>x. r = Inr x \<and> f x = Inl e)"
  by (cases r) auto

text \<open>Python's \<open>x > 0\<close> on a dynamic value: a \<open>TypeError\<close> unless \<open>x\<close> is a number.\<close>

fun gt_zero :: "pyval \<Rightarrow> exn + bool" where
  "gt_zero (PBool b) = Inr b"
| "gt_zero (PInt i) = Inr (i > 0)"
| "gt_zero (PFloat r) = Inr (r > 0)"
| "gt_zero _ = Inl TypeError"

text \<open>\<open>range(n)\<close> as the list it runs over.\<close>

fun py_range :: "pyval \<Rightarrow> exn + nat list" where
  "py_range (PInt n) = Inr [0..<nat n]"
| "py_range (PBool b) = Inr [0..<of_bool b]"
| "py_range _ = Inl TypeError"

text \<open>\<open>len(v)\<close> and iteration over a value, with the \<open>TypeError\<close> of a value that has neither.\<close>

fun py_len :: "pyval \<Rightarrow> exn + nat" where
  "py_len (PStr s) = Inr (length s)"
| "py_len (PList xs) = Inr (length xs)"
| "py_len (PDict d) = Inr (length d)"
| "py_len _ = Inl TypeError"

fun py_iter :: "pyval \<Rightarrow> exn + pyval list" where
  "py_iter (PStr s) = Inr (map (\<lambda>c. PStr [c]) s)"
| "py_iter (PList xs) = Inr xs"
| "py_iter (PDict d) = Inr (map (PStr \<circ> fst) d)"
| "py_iter _ = Inl TypeError"

section \<open>Strings\<close>

text \<open>
  Strings are lists of 8-bit characters. The methods below are Python's on ASCII text:
  \<open>str.lower\<close>, \<open>str.strip\<close> and \<open>str.split\<close> with the default whitespace.
\<close>

definition digit_char :: "nat \<Rightarrow> char" where
  "digit_char d = char_of (48 + d)"

fun str_nat :: "nat \<Rightarrow> string" where
  "str_nat n = (if n < 10 then [digit_char n] else str_nat (n div 10) @ [digit_char (n mod 10)])"

declare str_nat.simps [simp del]

definition digits_val :: "string \<Rightarrow> nat" where
  "digits_val s = foldl (\<lambda>a c. 10 * a + (of_char c - 48)) 0 s"

lemma digits_val_str_nat [simp]: "digits_val (str_nat n) = n"
proof (induction n rule: str_nat.induct)
  case (1 n)
  show ?case
  proof (cases "n < 10")
    case True
    then show ?thesis
      by (simp add: str_nat.simps [of n] digits_val_def digit_char_def)
  next
    case False
    have d: "of_char (digit_char (n mod 10)) - 48 = n mod 10"
      by (simp add: digit_char_def)
    from 1 False have "digits_val (str_nat (n div 10)) = n div 10" by simp
    then show ?thesis using False d
      by (simp add: str_nat.simps [of n] digits_val_def)
  qed
qed

lemma str_nat_inject [simp]: "str_nat a = str_nat b \<longleftrightarrow> a = b"
  by (metis digits_val_str_nat)

definition is_digit :: "char \<Rightarrow> bool" where
  "is_digit c \<longleftrightarrow> (let n = (of_char c :: nat) in 48 \<le> n \<and> n \<le> 57)"

lemma is_digit_digit_char: "n < 10 \<Longrightarrow> is_digit (digit_char n)"
  by (simp add: is_digit_def digit_char_def)

lemma str_nat_digits: "c \<in> set (str_nat n) \<Longrightarrow> is_digit c"
proof (induction n rule: str_nat.induct)
  case (1 n)
  then show ?case
    using is_digit_digit_char [of n] is_digit_digit_char [of "n mod 10"]
    by (cases "n < 10") (auto simp: str_nat.simps [of n])
qed

lemma str_nat_nonempty [simp]: "str_nat n \<noteq> []"
  by (simp add: str_nat.simps [of n])

text \<open>\<open>f"{n:0wd}"\<close>: at least \<open>w\<close> digits, zero-padded on the left.\<close>

definition pad_nat :: "nat \<Rightarrow> nat \<Rightarrow> string" where
  "pad_nat w n = replicate (w - length (str_nat n)) (CHR ''0'') @ str_nat n"

lemma digits_val_zeros: "digits_val (replicate k (CHR ''0'') @ s) = digits_val s"
proof (induction k)
  case 0
  then show ?case by simp
next
  case (Suc k)
  then show ?case by (simp add: digits_val_def)
qed

lemma pad_nat_inject [simp]: "pad_nat w a = pad_nat w b \<longleftrightarrow> a = b"
proof
  assume "pad_nat w a = pad_nat w b"
  then have "digits_val (pad_nat w a) = digits_val (pad_nat w b)" by simp
  then show "a = b" by (simp add: pad_nat_def digits_val_zeros)
qed simp

definition lower_char :: "char \<Rightarrow> char" where
  "lower_char c = (let n = (of_char c :: nat) in if 65 \<le> n \<and> n \<le> 90 then char_of (n + 32) else c)"

definition str_lower :: "string \<Rightarrow> string" where
  "str_lower s = map lower_char s"

definition is_space :: "char \<Rightarrow> bool" where
  "is_space c \<longleftrightarrow> (let n = (of_char c :: nat) in n = 32 \<or> (9 \<le> n \<and> n \<le> 13) \<or> (28 \<le> n \<and> n \<le> 31))"

definition str_strip :: "string \<Rightarrow> string" where
  "str_strip s = rev (dropWhile is_space (rev (dropWhile is_space s)))"

definition str_rstrip :: "string \<Rightarrow> string" where
  "str_rstrip s = rev (dropWhile is_space (rev s))"

fun str_join :: "string \<Rightarrow> string list \<Rightarrow> string" where
  "str_join sep [] = []"
| "str_join sep [x] = x"
| "str_join sep (x # y # zs) = x @ sep @ str_join sep (y # zs)"

text \<open>\<open>len(s.split())\<close>: the maximal runs of non-space characters.\<close>

fun word_count :: "bool \<Rightarrow> string \<Rightarrow> nat" where
  "word_count inside [] = 0"
| "word_count inside (c # s) =
     (if is_space c then word_count False s
      else (if inside then 0 else 1) + word_count True s)"

fun str_contains :: "string \<Rightarrow> string \<Rightarrow> bool" where
  "str_contains pat [] = (pat = [])"
| "str_contains pat (c # s) = (take (length pat) (c # s) = pat \<or> str_contains pat s)"

section \<open>Python's sorts, minima and maxima\<close>

text \<open>
  \<open>sorted(xs, key=f)\<close> is stable; with \<open>reverse=True\<close> it is stable too: equal keys keep
  their order. \<open>min\<close> and \<open>max\<close> with a key return the first extremal element.
\<close>

definition py_sorted :: "('a \<Rightarrow> 'k::linorder) \<Rightarrow> 'a list \<Rightarrow> 'a list" where
  "py_sorted f xs = sort_key f xs"

lemma find_SomeD: "List.find P xs = Some x \<Longrightarrow> x \<in> set xs \<and> P x"
  by (induction xs) (auto split: if_splits)

lemma find_ex: "y \<in> set xs \<Longrightarrow> P y \<Longrightarrow> \<exists>x. List.find P xs = Some x"
  by (induction xs) auto

definition py_sorted_rev :: "('a \<Rightarrow> 'k::linorder) \<Rightarrow> 'a list \<Rightarrow> 'a list" where
  "py_sorted_rev f xs = rev (sort_key f (rev xs))"

fun py_min_from :: "('a \<Rightarrow> 'k::linorder) \<Rightarrow> 'a \<Rightarrow> 'a list \<Rightarrow> 'a" where
  "py_min_from f m [] = m"
| "py_min_from f m (x # xs) = py_min_from f (if f x < f m then x else m) xs"

fun py_max_from :: "('a \<Rightarrow> 'k::linorder) \<Rightarrow> 'a \<Rightarrow> 'a list \<Rightarrow> 'a" where
  "py_max_from f m [] = m"
| "py_max_from f m (x # xs) = py_max_from f (if f m < f x then x else m) xs"

lemma set_py_sorted [simp]: "set (py_sorted f xs) = set xs"
  by (simp add: py_sorted_def)

lemma length_py_sorted [simp]: "length (py_sorted f xs) = length xs"
  by (simp add: py_sorted_def)

lemma sorted_py_sorted: "sorted (map f (py_sorted f xs))"
  by (simp add: py_sorted_def)

lemma mset_py_sorted_rev: "mset (py_sorted_rev f xs) = mset xs"
  by (simp add: py_sorted_rev_def)

lemma set_py_sorted_rev [simp]: "set (py_sorted_rev f xs) = set xs"
  by (simp add: py_sorted_rev_def)

lemma length_py_sorted_rev [simp]: "length (py_sorted_rev f xs) = length xs"
  by (simp add: py_sorted_rev_def)

lemma py_sorted_rev_Nil_iff [simp]: "py_sorted_rev f xs = [] \<longleftrightarrow> xs = []"
  by (metis length_0_conv length_py_sorted_rev)

lemma py_sorted_rev_Nil [simp]: "py_sorted_rev f [] = []"
  by simp

lemma sorted_last_max: "sorted (map f s) \<Longrightarrow> y \<in> set s \<Longrightarrow> f y \<le> f (last s)"
  by (induction s) auto

lemma py_sorted_rev_hd_max:
  assumes "y \<in> set xs"
  shows "f y \<le> f (hd (py_sorted_rev f xs))"
  using sorted_last_max [of f "sort_key f (rev xs)" y] assms
  by (simp add: py_sorted_rev_def hd_rev)

lemma py_min_from_in: "py_min_from f m xs \<in> insert m (set xs)"
  by (induction f m xs rule: py_min_from.induct) (auto split: if_splits)

lemma py_min_from_le: "y \<in> insert m (set xs) \<Longrightarrow> f (py_min_from f m xs) \<le> f y"
proof (induction f m xs arbitrary: y rule: py_min_from.induct)
  case (1 f m)
  then show ?case by simp
next
  case (2 f m x xs)
  have le: "f (py_min_from f m (x # xs)) \<le> f z" if "z \<in> insert (if f x < f m then x else m) (set xs)" for z
    using "2.IH" [OF that] by simp
  have "f (if f x < f m then x else m) \<le> f x" "f (if f x < f m then x else m) \<le> f m" by auto
  with le [OF insertI1] have "f (py_min_from f m (x # xs)) \<le> f x" "f (py_min_from f m (x # xs)) \<le> f m"
    by (blast intro: order_trans)+
  then show ?case using "2.prems" le by auto
qed

lemma py_max_from_in: "py_max_from f m xs \<in> insert m (set xs)"
  by (induction f m xs rule: py_max_from.induct) (auto split: if_splits)

lemma py_max_from_ge: "y \<in> insert m (set xs) \<Longrightarrow> f y \<le> f (py_max_from f m xs)"
proof (induction f m xs arbitrary: y rule: py_max_from.induct)
  case (1 f m)
  then show ?case by simp
next
  case (2 f m x xs)
  have le: "f z \<le> f (py_max_from f m (x # xs))" if "z \<in> insert (if f m < f x then x else m) (set xs)" for z
    using "2.IH" [OF that] by simp
  have "f x \<le> f (if f m < f x then x else m)" "f m \<le> f (if f m < f x then x else m)" by auto
  with le [OF insertI1] have "f x \<le> f (py_max_from f m (x # xs))" "f m \<le> f (py_max_from f m (x # xs))"
    by (blast intro: order_trans)+
  then show ?case using "2.prems" le by auto
qed

end
