(* ===== verification/Models.thy ===== *)
theory Models
  imports Prelude
begin

text \<open>
  The data model of \<open>dalston/common/models.py\<close>, \<open>dalston/common/artifacts.py\<close> and the
  default tables of \<open>dalston/orchestrator\<close>: job and task states, the task record, artifact
  selectors and request bindings with their dictionary form, and retention periods.
\<close>

section \<open>Job and task states\<close>

datatype job_status = JPending | JRunning | JCompleted | JFailed | JCancelling | JCancelled

datatype task_status =
  TPending | TReady | TRunning | TCompleted | TFailed | TSkipped | TCancelled

text \<open>\<open>TERMINAL_TASK_STATES\<close>: note that \<open>CANCELLED\<close> is not among them.\<close>

definition terminal_task_states :: "task_status set" where
  "terminal_task_states = {TCompleted, TSkipped, TFailed}"

lemma terminal_task_states_iff [simp]:
  "s \<in> terminal_task_states \<longleftrightarrow> s = TCompleted \<or> s = TSkipped \<or> s = TFailed"
  by (auto simp: terminal_task_states_def)

section \<open>Tasks\<close>

record task =
  task_id :: uuid
  task_job_id :: uuid
  task_stage :: string
  task_engine_id :: string
  task_state :: task_status
  dependencies :: "uuid list"
  input_bindings :: "pyval list"
  task_config :: dict
  request_uri :: "string option"
  response_uri :: "string option"
  retries :: int
  max_retries :: int
  task_required :: bool
  task_error :: "string option"
  ready_at :: "time option"
  task_started_at :: "time option"
  task_completed_at :: "time option"

definition DEFAULT_TASK_MAX_RETRIES :: int where
  "DEFAULT_TASK_MAX_RETRIES = 2"

definition POST_PROCESSOR_MAX_RETRIES :: int where
  "POST_PROCESSOR_MAX_RETRIES = 2"

definition DEFAULT_PII_CONFIDENCE_THRESHOLD :: rat where
  "DEFAULT_PII_CONFIDENCE_THRESHOLD = 1/2"

definition DEFAULT_PII_BUFFER_MS :: int where
  "DEFAULT_PII_BUFFER_MS = 50"

definition TASK_UNKNOWN_DURATION_TIMEOUT_S :: int where
  "TASK_UNKNOWN_DURATION_TIMEOUT_S = 3600"

definition DEFAULT_ENGINES :: "(string \<times> string) list" where
  "DEFAULT_ENGINES =
     [(''prepare'', ''audio-prepare''),
      (''transcribe'', ''faster-whisper''),
      (''align'', ''phoneme-align''),
      (''diarize'', ''pyannote-4.0''),
      (''pii_detect'', ''pii-presidio''),
      (''audio_redact'', ''audio-redactor'')]"

section \<open>Artifact selectors and request bindings\<close>

record artifact_selector =
  producer_stage :: string
  sel_kind :: string
  sel_channel :: "int option"
  sel_role :: "string option"
  sel_required :: bool

record request_binding =
  slot :: string
  selector :: artifact_selector

record artifact_reference =
  artifact_id :: string
  ref_kind :: string
  storage_locator :: string
  ref_channel :: "int option"
  ref_role :: "string option"
  producer_task_id :: "string option"
  ref_producer_stage :: "string option"

text \<open>\<open>build_task_artifact_id\<close>.\<close>

definition build_task_artifact_id :: "string \<Rightarrow> string \<Rightarrow> string" where
  "build_task_artifact_id tid logical_name = tid @ '':'' @ logical_name"

text \<open>
  The field constraints of the two models (\<open>min_length=1\<close>, \<open>ge=0\<close>), their
  \<open>model_dump(exclude_none=True)\<close>, and \<open>model_validate\<close> on JSON-shaped dictionaries:
  unknown keys are refused (\<open>extra="forbid"\<close>), absent optional keys take their defaults.
  Pydantic's lax coercions (a numeric string for a channel, say) are not modelled.
\<close>

definition valid_selector :: "artifact_selector \<Rightarrow> bool" where
  "valid_selector s \<longleftrightarrow> producer_stage s \<noteq> [] \<and> sel_kind s \<noteq> [] \<and>
     (case sel_channel s of None \<Rightarrow> True | Some c \<Rightarrow> 0 \<le> c)"

definition valid_binding :: "request_binding \<Rightarrow> bool" where
  "valid_binding b \<longleftrightarrow> slot b \<noteq> [] \<and> valid_selector (selector b)"

definition dump_selector :: "artifact_selector \<Rightarrow> pyval" where
  "dump_selector s = PDict
     ([(''producer_stage'', PStr (producer_stage s)), (''kind'', PStr (sel_kind s))]
      @ (case sel_channel s of None \<Rightarrow> [] | Some c \<Rightarrow> [(''channel'', PInt c)])
      @ (case sel_role s of None \<Rightarrow> [] | Some r \<Rightarrow> [(''role'', PStr r)])
      @ [(''required'', PBool (sel_required s))])"

definition dump_binding :: "request_binding \<Rightarrow> pyval" where
  "dump_binding b = PDict [(''slot'', PStr (slot b)), (''selector'', dump_selector (selector b))]"

fun parse_str1 :: "pyval option \<Rightarrow> string option" where
  "parse_str1 (Some (PStr s)) = (if s = [] then None else Some s)"
| "parse_str1 _ = None"

fun parse_opt_nat :: "pyval option \<Rightarrow> int option option" where
  "parse_opt_nat None = Some None"
| "parse_opt_nat (Some PNone) = Some None"
| "parse_opt_nat (Some (PInt c)) = (if 0 \<le> c then Some (Some c) else None)"
| "parse_opt_nat _ = None"

fun parse_opt_str :: "pyval option \<Rightarrow> string option option" where
  "parse_opt_str None = Some None"
| "parse_opt_str (Some PNone) = Some None"
| "parse_opt_str (Some (PStr s)) = Some (Some s)"
| "parse_opt_str _ = None"

fun parse_bool_or :: "bool \<Rightarrow> pyval option \<Rightarrow> bool option" where
  "parse_bool_or b None = Some b"
| "parse_bool_or b (Some (PBool c)) = Some c"
| "parse_bool_or b _ = None"

fun parse_selector :: "pyval \<Rightarrow> artifact_selector option" where
  "parse_selector (PDict d) =
     (if \<forall>k \<in> set (map fst d).
           k \<in> {''producer_stage'', ''kind'', ''channel'', ''role'', ''required''}
      then (case (parse_str1 (dget d ''producer_stage''), parse_str1 (dget d ''kind''),
                  parse_opt_nat (dget d ''channel''), parse_opt_str (dget d ''role''),
                  parse_bool_or True (dget d ''required'')) of
              (Some p, Some k, Some c, Some r, Some q) \<Rightarrow>
                Some \<lparr>producer_stage = p, sel_kind = k, sel_channel = c, sel_role = r,
                      sel_required = q\<rparr>
            | _ \<Rightarrow> None)
      else None)"
| "parse_selector _ = None"

fun parse_binding :: "pyval \<Rightarrow> request_binding option" where
  "parse_binding (PDict d) =
     (if \<forall>k \<in> set (map fst d). k \<in> {''slot'', ''selector''}
      then (case (parse_str1 (dget d ''slot''), dget d ''selector'') of
              (Some s, Some v) \<Rightarrow>
                (case parse_selector v of
                   Some sel \<Rightarrow> Some \<lparr>slot = s, selector = sel\<rparr>
                 | None \<Rightarrow> None)
            | _ \<Rightarrow> None)
      else None)"
| "parse_binding _ = None"

lemma parse_dump_selector [simp]: "valid_selector s \<Longrightarrow> parse_selector (dump_selector s) = Some s"
  by (cases s) (auto simp: valid_selector_def dump_selector_def split: option.splits)

lemma parse_dump_binding [simp]: "valid_binding b \<Longrightarrow> parse_binding (dump_binding b) = Some b"
  by (cases b) (auto simp: valid_binding_def dump_binding_def)

section \<open>Retention\<close>

definition RETENTION_TRANSIENT :: int where "RETENTION_TRANSIENT = 0"

definition RETENTION_PERMANENT :: int where "RETENTION_PERMANENT = -1"

definition RETENTION_MIN_DAYS :: int where "RETENTION_MIN_DAYS = 1"

definition RETENTION_MAX_DAYS :: int where "RETENTION_MAX_DAYS = 3650"

definition SECONDS_PER_DAY :: int where "SECONDS_PER_DAY = 86400"

definition retention_to_ttl_seconds :: "int \<Rightarrow> int option" where
  "retention_to_ttl_seconds days =
     (if days = RETENTION_TRANSIENT then Some 0
      else if days = RETENTION_PERMANENT then None
      else Some (days * SECONDS_PER_DAY))"

definition validate_retention :: "int \<Rightarrow> exn + unit" where
  "validate_retention days =
     (if days = RETENTION_TRANSIENT \<or> days = RETENTION_PERMANENT then Inr ()
      else if days < RETENTION_MIN_DAYS \<or> days > RETENTION_MAX_DAYS
      then Inl (ValueError ''Retention days'') else Inr ())"

definition str_int :: "int \<Rightarrow> string" where
  "str_int i = (if i < 0 then ''-'' @ str_nat (nat (- i)) else str_nat (nat i))"

definition format_retention_display :: "int \<Rightarrow> string" where
  "format_retention_display days =
     (if days = RETENTION_TRANSIENT then ''Transient''
      else if days = RETENTION_PERMANENT then ''Permanent''
      else if days = 1 then ''1 day''
      else str_int days @ '' days'')"

lemmas retention_defs = RETENTION_TRANSIENT_def RETENTION_PERMANENT_def RETENTION_MIN_DAYS_def
  RETENTION_MAX_DAYS_def SECONDS_PER_DAY_def

end
