(* ===== verification/Registry.thy ===== *)
theory Registry
  imports Models
begin

text \<open>
  Engine capabilities (\<open>dalston/engine_sdk/types.py\<close>), the registry of live engine
  instances (\<open>dalston/common/registry.py\<close>) and the static catalog of deployable engines
  (\<open>dalston/orchestrator/catalog.py\<close>). The registry is read through the same three index
  sets the code keeps; a record lapses from the instance table when its key expires, and
  every reader then drops it.
\<close>

section \<open>Capabilities and live instances\<close>

record engine_capabilities =
  caps_engine_id :: string
  caps_version :: string
  caps_stages :: "string list"
  supports_word_timestamps :: bool
  supports_native_streaming :: bool
  model_variants :: "string list option"
  gpu_required :: bool
  gpu_vram_mb :: "int option"
  supports_cpu :: bool
  min_ram_gb :: "int option"
  rtf_gpu :: "rat option"
  rtf_cpu :: "rat option"
  max_concurrency :: "int option"
  includes_diarization :: bool
  supports_language_forcing :: bool

definition default_capabilities :: "string \<Rightarrow> string \<Rightarrow> string list \<Rightarrow> engine_capabilities" where
  "default_capabilities eid version stages =
     \<lparr>caps_engine_id = eid, caps_version = version, caps_stages = stages,
      supports_word_timestamps = False, supports_native_streaming = False,
      model_variants = None, gpu_required = False, gpu_vram_mb = None, supports_cpu = True,
      min_ram_gb = None, rtf_gpu = None, rtf_cpu = None, max_concurrency = None,
      includes_diarization = False, supports_language_forcing = True\<rparr>"

record engine_record =
  instance_id :: string
  engine_id :: string
  engine_stage :: string
  engine_status :: string
  interfaces :: "string list"
  capacity :: int
  active_batch :: int
  active_realtime :: int
  models_loaded :: "string list option"
  last_heartbeat :: "time option"
  capabilities :: "engine_capabilities option"

definition HEARTBEAT_TIMEOUT_SECONDS :: rat where
  "HEARTBEAT_TIMEOUT_SECONDS = 60"

definition available_capacity :: "engine_record \<Rightarrow> int" where
  "available_capacity r = max 0 (capacity r - active_batch r - active_realtime r)"

definition is_available :: "time \<Rightarrow> engine_record \<Rightarrow> bool" where
  "is_available now r =
     (if engine_status r \<in> {''offline'', ''draining''} then False
      else (case last_heartbeat r of
              Some t \<Rightarrow> if now - t \<ge> HEARTBEAT_TIMEOUT_SECONDS then False
                       else available_capacity r > 0
            | None \<Rightarrow> available_capacity r > 0))"

definition is_healthy :: "time \<Rightarrow> engine_record \<Rightarrow> bool" where
  "is_healthy now r =
     (if engine_status r = ''offline'' then False
      else (case last_heartbeat r of
              Some t \<Rightarrow> now - t < HEARTBEAT_TIMEOUT_SECONDS
            | None \<Rightarrow> False))"

definition supports_interface :: "string \<Rightarrow> engine_record \<Rightarrow> bool" where
  "supports_interface i r \<longleftrightarrow> i \<in> set (interfaces r)"

text \<open>With a heartbeat on record, spare capacity implies health.\<close>

lemma is_available_healthy:
  "is_available now r \<Longrightarrow> last_heartbeat r \<noteq> None \<Longrightarrow> is_healthy now r"
  by (auto simp: is_available_def is_healthy_def split: if_splits)

section \<open>The registry\<close>

record registry =
  reg_instance :: "string \<Rightarrow> engine_record option"
  reg_all :: "string list"
  reg_by_engine :: "string \<Rightarrow> string list"
  reg_by_stage :: "string \<Rightarrow> string list"

definition get_all :: "registry \<Rightarrow> engine_record list" where
  "get_all g = List.map_filter (reg_instance g) (reg_all g)"

definition get_by_engine_id :: "registry \<Rightarrow> string \<Rightarrow> engine_record list" where
  "get_by_engine_id g e = List.map_filter (reg_instance g) (reg_by_engine g e)"

definition get_by_stage :: "registry \<Rightarrow> string \<Rightarrow> engine_record list" where
  "get_by_stage g s = List.map_filter (reg_instance g) (reg_by_stage g s)"

definition get_engine :: "time \<Rightarrow> registry \<Rightarrow> string \<Rightarrow> engine_record option" where
  "get_engine now g e =
     (case get_by_engine_id g e of
        [] \<Rightarrow> None
      | r # rs \<Rightarrow>
          (case List.find (is_available now) (r # rs) of
             Some q \<Rightarrow> Some q
           | None \<Rightarrow> Some r))"

definition is_engine_available :: "time \<Rightarrow> registry \<Rightarrow> string \<Rightarrow> bool" where
  "is_engine_available now g e \<longleftrightarrow> (\<exists>r \<in> set (get_by_engine_id g e). is_healthy now r)"

definition model_fits :: "string \<Rightarrow> string option \<Rightarrow> engine_record \<Rightarrow> bool" where
  "model_fits model eid r \<longleftrightarrow>
     (case models_loaded r of Some ms \<Rightarrow> model \<in> set ms | None \<Rightarrow> False)
     \<or> eid = Some (engine_id r)
     \<or> (case capabilities r of
          Some c \<Rightarrow> (case model_variants c of Some vs \<Rightarrow> model \<in> set vs | None \<Rightarrow> False)
        | None \<Rightarrow> False)"

definition get_available ::
  "time \<Rightarrow> registry \<Rightarrow> string option \<Rightarrow> string option \<Rightarrow> string option \<Rightarrow> string option
    \<Rightarrow> string list option \<Rightarrow> engine_record list" where
  "get_available now g stage interface eid model valid_ids =
     (let candidates = (case nonempty stage of
              Some s \<Rightarrow> get_by_stage g s
            | None \<Rightarrow> (case nonempty eid of Some e \<Rightarrow> get_by_engine_id g e | None \<Rightarrow> get_all g));
          available = filter (\<lambda>r. is_available now r
             \<and> (case nonempty interface of Some i \<Rightarrow> supports_interface i r | None \<Rightarrow> True)
             \<and> (case nonempty eid of Some e \<Rightarrow> engine_id r = e | None \<Rightarrow> True)
             \<and> (case valid_ids of Some vs \<Rightarrow> engine_id r \<in> set vs | None \<Rightarrow> True)
             \<and> (case model of Some m \<Rightarrow> model_fits m (nonempty eid) r | None \<Rightarrow> True)) candidates
      in (case nonempty model of
            Some m \<Rightarrow> py_sorted (\<lambda>r. (of_bool (m \<notin> set (case models_loaded r of Some ms \<Rightarrow> ms | None \<Rightarrow> [])) :: nat,
                                  - available_capacity r)) available
          | None \<Rightarrow> py_sorted (\<lambda>r. - available_capacity r) available))"

lemma get_engine_in: "get_engine now g e = Some r \<Longrightarrow> r \<in> set (get_by_engine_id g e)"
  by (auto simp: get_engine_def split: list.splits option.splits if_splits dest: find_SomeD)

lemma get_engine_None_iff: "get_engine now g e = None \<longleftrightarrow> get_by_engine_id g e = []"
  by (auto simp: get_engine_def split: list.splits option.splits)

lemma get_engine_prefers_available:
  assumes "r \<in> set (get_by_engine_id g e)" and "is_available now r"
  shows "\<exists>q. get_engine now g e = Some q \<and> is_available now q"
proof -
  obtain q where q: "List.find (is_available now) (get_by_engine_id g e) = Some q"
    using find_ex [of r _ "is_available now"] assms by blast
  then have "get_engine now g e = Some q"
    using assms by (auto simp: get_engine_def split: list.splits)
  then show ?thesis using find_SomeD [OF q] by blast
qed

section \<open>The catalog\<close>

record catalog_entry =
  cat_engine_id :: string
  cat_image :: string
  cat_capabilities :: engine_capabilities
  execution_profile :: string
  on_demand :: bool

type_synonym catalog = "(string \<times> catalog_entry) list"

definition catalog_get_engine :: "catalog \<Rightarrow> string \<Rightarrow> catalog_entry option" where
  "catalog_get_engine c e = dget c e"

definition get_engines_for_stage :: "catalog \<Rightarrow> string \<Rightarrow> catalog_entry list" where
  "get_engines_for_stage c s = filter (\<lambda>e. s \<in> set (caps_stages (cat_capabilities e))) (map snd c)"

record requirements =
  req_language :: "string option"
  req_streaming :: bool

definition no_requirements :: requirements where
  "no_requirements = \<lparr>req_language = None, req_streaming = False\<rparr>"

definition catalog_matches_requirements :: "engine_capabilities \<Rightarrow> requirements \<Rightarrow> bool" where
  "catalog_matches_requirements caps q = (if req_streaming q \<and> \<not> supports_native_streaming caps then False else True)"

definition find_engines :: "catalog \<Rightarrow> string \<Rightarrow> requirements \<Rightarrow> catalog_entry list" where
  "find_engines c s q =
     filter (\<lambda>e. catalog_matches_requirements (cat_capabilities e) q) (get_engines_for_stage c s)"

lemma find_engines_iff:
  "e \<in> set (find_engines c s q) \<longleftrightarrow>
     e \<in> snd ` set c \<and> s \<in> set (caps_stages (cat_capabilities e))
     \<and> catalog_matches_requirements (cat_capabilities e) q"
  by (auto simp: find_engines_def get_engines_for_stage_def)

end
