(* ===== verification/EngineSelector.thy ===== *)
theory EngineSelector
  imports Registry
begin

text \<open>
  Capability-driven engine selection (\<open>dalston/orchestrator/engine_selector.py\<close>): the
  requirements of a job, the ranking of live engines and of downloaded models, the
  selection of one stage (pinned model, preferred engine, automatic, cold on-demand
  fallback) and the selection for the whole pipeline. The registry, the catalog and the
  rows of the model table are the snapshot \<open>sel_env\<close> the code reads during one selection;
  \<open>se_models = None\<close> is the call without a database session. Log lines, spans and the
  wording of the multi-line \<open>NoCapableEngineError\<close> message are left out; errors keep
  their fields.
\<close>

section \<open>Errors, models, selections\<close>

record model_row =
  model_id :: string
  model_engine_id :: string
  model_stage :: string
  model_status :: string
  model_loaded_id :: string
  model_source :: "string option"
  model_languages :: "string list option"
  model_size_bytes :: "int option"

datatype sel_error =
    NoDownloadedModel string string "string list"
  | ModelSelection string string string "string option" "string option"
  | NoCapableEngine string requirements "engine_record list" "catalog_entry list"
  | SelectorExn exn

record selection =
  sel_engine_id :: string
  sel_caps :: engine_capabilities
  selection_reason :: string
  sel_loaded_model_id :: "string option"
  sel_on_demand :: bool

record pipeline_selection =
  sel_stages :: "(string \<times> selection) list"
  effective_parameters :: dict

record sel_env =
  se_now :: time
  se_registry :: registry
  se_catalog :: catalog
  se_models :: "model_row list option"

definition MODEL_BACKED_STAGES :: "string list" where
  "MODEL_BACKED_STAGES = [''transcribe'', ''diarize'', ''align'', ''pii_detect'']"

definition explain_mismatch :: "time \<Rightarrow> requirements \<Rightarrow> engine_record \<Rightarrow> string" where
  "explain_mismatch now q e =
     (if \<not> is_healthy now e
      then (if engine_status e \<in> {''offline'', ''draining''} then ''status='' @ engine_status e
            else ''heartbeat_stale'')
      else (case capabilities e of
              None \<Rightarrow> ''no capabilities declared''
            | Some c \<Rightarrow> if req_streaming q \<and> \<not> supports_native_streaming c
                       then ''streaming not supported'' else ''unknown''))"

section \<open>Requirements\<close>

text \<open>\<open>parameters.get("language") or parameters.get("language_code")\<close>, then \<open>.lower()\<close>.\<close>

definition extract_requirements :: "dict \<Rightarrow> exn + requirements" where
  "extract_requirements p =
     (let language = (if truthy_opt (dget p ''language'') then dget p ''language''
                      else dget p ''language_code'');
          streaming = truthy_opt (dget p ''streaming'')
      in if truthy_opt language
         then (case language of
                 Some (PStr l) \<Rightarrow>
                   Inr \<lparr>req_language = (if str_lower l \<noteq> ''auto'' then Some l else None),
                        req_streaming = streaming\<rparr>
               | _ \<Rightarrow> Inl AttributeError)
         else Inr \<lparr>req_language = None, req_streaming = streaming\<rparr>)"

definition meets_requirements :: "engine_capabilities \<Rightarrow> requirements \<Rightarrow> bool" where
  "meets_requirements caps q = (if req_streaming q \<and> \<not> supports_native_streaming caps then False else True)"

text \<open>The language a request constrains on: absent, empty and \<open>auto\<close> constrain nothing.\<close>

definition forced_language :: "requirements \<Rightarrow> string option" where
  "forced_language q =
     (case nonempty (req_language q) of
        None \<Rightarrow> None
      | Some l \<Rightarrow> if str_lower l \<noteq> ''auto'' then Some l else None)"

definition speaks :: "string \<Rightarrow> string list \<Rightarrow> bool" where
  "speaks l langs \<longleftrightarrow> str_lower l \<in> set (map str_lower langs)"

section \<open>Ranking\<close>

text \<open>Python compares the score tuples lexicographically.\<close>

datatype engine_score = EngineScore nat nat rat

fun score_key :: "engine_score \<Rightarrow> nat \<times> nat \<times> rat" where
  "score_key (EngineScore a b c) = (a, b, c)"

lemma score_key_inject [simp]: "score_key x = score_key y \<longleftrightarrow> x = y"
  by (cases x; cases y) auto

instantiation engine_score :: linorder
begin

definition less_eq_engine_score :: "engine_score \<Rightarrow> engine_score \<Rightarrow> bool" where
  "x \<le> y \<longleftrightarrow> score_key x \<le> score_key y"

definition less_engine_score :: "engine_score \<Rightarrow> engine_score \<Rightarrow> bool" where
  "x < y \<longleftrightarrow> score_key x < score_key y"

instance
proof
  fix x y z :: engine_score
  show "(x < y) = (x \<le> y \<and> \<not> y \<le> x)"
    unfolding less_eq_engine_score_def less_engine_score_def by (rule less_le_not_le)
  show "x \<le> x" by (simp add: less_eq_engine_score_def)
  show "x \<le> y \<Longrightarrow> y \<le> z \<Longrightarrow> x \<le> z"
    unfolding less_eq_engine_score_def by (rule order_trans)
  show "x \<le> y \<Longrightarrow> y \<le> x \<Longrightarrow> x = y"
    unfolding less_eq_engine_score_def by (metis antisym score_key_inject)
  show "x \<le> y \<or> y \<le> x"
    unfolding less_eq_engine_score_def by (rule linear)
qed

end

text \<open>\<open>x if x else d\<close> for an optional number: both \<open>None\<close> and \<open>0\<close> take the default.\<close>

definition or_num :: "rat option \<Rightarrow> rat \<Rightarrow> rat" where
  "or_num v d = (case v of None \<Rightarrow> d | Some r \<Rightarrow> if r = 0 then d else r)"

definition engine_rank_score :: "engine_record \<Rightarrow> engine_score" where
  "engine_rank_score e =
     (case capabilities e of
        None \<Rightarrow> EngineScore 0 0 (-999)
      | Some caps \<Rightarrow> EngineScore (of_bool (supports_word_timestamps caps))
                                (of_bool (includes_diarization caps))
                                (- or_num (rtf_gpu caps) 999))"

definition rank_capable_engines :: "engine_record list \<Rightarrow> engine_record list" where
  "rank_capable_engines capable = py_sorted_rev engine_rank_score capable"

definition caps_or_default :: "engine_record \<Rightarrow> string \<Rightarrow> engine_capabilities" where
  "caps_or_default e stage =
     (case capabilities e of
        Some c \<Rightarrow> c
      | None \<Rightarrow> default_capabilities (engine_id e) ''unknown'' [stage])"

definition rank_and_select :: "engine_record list \<Rightarrow> selection" where
  "rank_and_select capable =
     (let winner = hd (rank_capable_engines capable);
          reasons = (case capabilities winner of
                       None \<Rightarrow> []
                     | Some c \<Rightarrow> (if supports_word_timestamps c then [''native word timestamps''] else [])
                               @ (if includes_diarization c then [''native diarization''] else []))
                    @ (if 1 < length capable then [''ranked first of '' @ str_nat (length capable)] else []);
          text = str_join '', '' reasons
      in \<lparr>sel_engine_id = engine_id winner,
          sel_caps = caps_or_default winner (engine_stage winner),
          selection_reason = (if text = [] then ''best available'' else text),
          sel_loaded_model_id = None, sel_on_demand = False\<rparr>)"

section \<open>Downloaded models\<close>

definition resolve_loaded_model_id :: "model_row \<Rightarrow> string \<Rightarrow> string" where
  "resolve_loaded_model_id m stage =
     (if stage = ''transcribe'' \<and> model_engine_id m = ''onnx'' then model_loaded_id m
      else if stage = ''transcribe''
      then (case nonempty (model_source m) of Some s \<Rightarrow> s | None \<Rightarrow> model_id m)
      else model_loaded_id m)"

definition language_compatible :: "string \<Rightarrow> model_row \<Rightarrow> bool" where
  "language_compatible l m \<longleftrightarrow> (case model_languages m of None \<Rightarrow> True | Some ls \<Rightarrow> speaks l ls)"

definition score_model :: "requirements \<Rightarrow> model_row \<Rightarrow> nat \<times> int" where
  "score_model q m =
     ((case forced_language q of
         Some l \<Rightarrow> (case model_languages m of
                     None \<Rightarrow> 1
                   | Some ls \<Rightarrow> if ls = [] then 1 else of_bool (speaks l ls))
       | None \<Rightarrow> (case model_languages m of
                   None \<Rightarrow> 2
                 | Some ls \<Rightarrow> if 10 < length ls then 2 else 1)),
      (case model_size_bytes m of None \<Rightarrow> 0 | Some n \<Rightarrow> n))"

definition find_best_downloaded_model ::
  "model_row list \<Rightarrow> string \<Rightarrow> string \<Rightarrow> requirements \<Rightarrow> model_row option" where
  "find_best_downloaded_model rows eid stage q =
     (let models = filter (\<lambda>m. model_engine_id m = eid \<and> model_status m = ''ready''
                              \<and> model_stage m = stage) rows;
          compatible = (case forced_language q of
                          Some l \<Rightarrow> filter (language_compatible l) models
                        | None \<Rightarrow> models)
      in case py_sorted_rev (score_model q) compatible of
           [] \<Rightarrow> None
         | best # _ \<Rightarrow> Some best)"

section \<open>One stage\<close>

definition catalog_on_demand_fallback :: "catalog_entry list \<Rightarrow> string option \<Rightarrow> selection option" where
  "catalog_on_demand_fallback alts eid =
     (case filter (\<lambda>e. on_demand e \<and> (eid = None \<or> Some (cat_engine_id e) = eid)) alts of
        [] \<Rightarrow> None
      | e # es \<Rightarrow>
          (let key = (\<lambda>c. case rtf_gpu (cat_capabilities c) of
                            None \<Rightarrow> (1::nat, 0)
                          | Some r \<Rightarrow> if r = 0 then (1, 0) else (0, r));
               winner = py_min_from key e es
           in Some \<lparr>sel_engine_id = cat_engine_id winner, sel_caps = cat_capabilities winner,
                selection_reason = ''on_demand catalog fallback (no live instance, scale-to-zero)'',
                sel_loaded_model_id = None, sel_on_demand = True\<rparr>))"

text \<open>The user preference names a model row: lines that enforce stage, readiness, a live or
  on-demand engine, and the model's languages.\<close>

definition select_pinned_model ::
  "sel_env \<Rightarrow> string \<Rightarrow> requirements \<Rightarrow> string \<Rightarrow> model_row \<Rightarrow> sel_error + selection" where
  "select_pinned_model env stage q pref m =
     (if model_stage m \<noteq> stage
      then Inl (ModelSelection ''model_stage_mismatch'' stage pref (Some (model_engine_id m))
                 (Some (''model stage is '' @ [CHR 0x27] @ model_stage m @ [CHR 0x27])))
      else if model_status m \<noteq> ''ready''
      then Inl (ModelSelection ''model_not_ready'' stage pref (Some (model_engine_id m))
                 (Some (''status is '' @ [CHR 0x27] @ model_status m @ [CHR 0x27])))
      else
        (let eid = model_engine_id m;
             engine = get_engine (se_now env) (se_registry env) eid;
             cold = (case engine of None \<Rightarrow> True | Some e \<Rightarrow> \<not> is_healthy (se_now env) e);
             entry = catalog_get_engine (se_catalog env) eid;
             fallback_ok = (case entry of None \<Rightarrow> False | Some c \<Rightarrow> on_demand c)
         in if cold \<and> \<not> fallback_ok
            then Inl (ModelSelection ''runtime_unavailable'' stage pref (Some eid) None)
            else
              (let caps = (if cold then map_option cat_capabilities entry
                           else (case engine of None \<Rightarrow> None | Some e \<Rightarrow> capabilities e));
                   refused = (case model_languages m of
                                None \<Rightarrow> False
                              | Some ls \<Rightarrow> (case nonempty (req_language q) of
                                             None \<Rightarrow> False
                                           | Some l \<Rightarrow> \<not> speaks l ls))
               in if refused
                  then Inl (NoCapableEngine stage q (case engine of None \<Rightarrow> [] | Some e \<Rightarrow> [e])
                             (find_engines (se_catalog env) stage q))
                  else Inr \<lparr>sel_engine_id = eid,
                        sel_caps = (case caps of Some c \<Rightarrow> c
                                    | None \<Rightarrow> default_capabilities eid ''unknown'' [stage]),
                        selection_reason = (if cold
                          then ''database model lookup (on_demand catalog fallback, no live instance)''
                          else ''database model lookup''),
                        sel_loaded_model_id = Some (resolve_loaded_model_id m stage),
                        sel_on_demand = cold\<rparr>)))"

text \<open>The user preference names an engine.\<close>

definition select_preferred_engine ::
  "sel_env \<Rightarrow> string \<Rightarrow> requirements \<Rightarrow> string \<Rightarrow> sel_error + selection" where
  "select_preferred_engine env stage q pref =
     (let alts = find_engines (se_catalog env) stage q
      in case get_engine (se_now env) (se_registry env) pref of
           Some e \<Rightarrow>
             if \<not> is_available (se_now env) e
             then (case catalog_on_demand_fallback alts (Some pref) of
                     Some s \<Rightarrow> Inr s
                   | None \<Rightarrow> Inl (NoCapableEngine stage q [] alts))
             else if (case capabilities e of None \<Rightarrow> False | Some c \<Rightarrow> \<not> meets_requirements c q)
             then Inl (NoCapableEngine stage q [e] alts)
             else Inr \<lparr>sel_engine_id = engine_id e, sel_caps = caps_or_default e stage,
                       selection_reason = ''user preference'', sel_loaded_model_id = None,
                       sel_on_demand = False\<rparr>
         | None \<Rightarrow>
             (case catalog_on_demand_fallback alts (Some pref) of
                Some s \<Rightarrow> Inr s
              | None \<Rightarrow> Inl (NoCapableEngine stage q [] alts)))"

text \<open>No preference: live batch engines of the stage, filtered, ranked, and for a
  model-backed stage the first one that has a ready model.\<close>

definition stage_candidates :: "sel_env \<Rightarrow> string \<Rightarrow> engine_record list" where
  "stage_candidates env stage =
     filter (supports_interface ''batch'') (get_by_stage (se_registry env) stage)"

definition capable_engines :: "sel_env \<Rightarrow> string \<Rightarrow> requirements \<Rightarrow> engine_record list" where
  "capable_engines env stage q =
     filter (\<lambda>e. is_healthy (se_now env) e
        \<and> (case capabilities e of None \<Rightarrow> True | Some c \<Rightarrow> meets_requirements c q))
       (stage_candidates env stage)"

definition ranked_engines :: "sel_env \<Rightarrow> string \<Rightarrow> requirements \<Rightarrow> engine_record list" where
  "ranked_engines env stage q =
     (let capable = capable_engines env stage q
      in if length capable = 1 then capable else rank_capable_engines capable)"

fun pick_with_model ::
  "model_row list \<Rightarrow> string \<Rightarrow> requirements \<Rightarrow> nat \<Rightarrow> engine_record list
    \<Rightarrow> (nat \<times> engine_record \<times> model_row) option" where
  "pick_with_model rows stage q i [] = None"
| "pick_with_model rows stage q i (c # cs) =
     (case find_best_downloaded_model rows (engine_id c) stage q of
        None \<Rightarrow> pick_with_model rows stage q (Suc i) cs
      | Some m \<Rightarrow> Some (i, c, m))"

definition select_auto :: "sel_env \<Rightarrow> string \<Rightarrow> requirements \<Rightarrow> sel_error + selection" where
  "select_auto env stage q =
     (let candidates = stage_candidates env stage;
          capable = capable_engines env stage q;
          alts = find_engines (se_catalog env) stage q
      in if capable = []
         then (case catalog_on_demand_fallback alts None of
                 Some s \<Rightarrow> Inr s
               | None \<Rightarrow> Inl (NoCapableEngine stage q candidates alts))
         else
           (let ranked = ranked_engines env stage q;
                reason = (if length capable = 1 then ''only capable engine''
                          else selection_reason (rank_and_select capable));
                result = (\<lambda>e r model. \<lparr>sel_engine_id = engine_id e,
                            sel_caps = caps_or_default e stage, selection_reason = r,
                            sel_loaded_model_id = model, sel_on_demand = False\<rparr>)
            in case (if stage \<in> set MODEL_BACKED_STAGES then se_models env else None) of
                 None \<Rightarrow> Inr (result (hd ranked) reason None)
               | Some rows \<Rightarrow>
                   (case pick_with_model rows stage q 0 ranked of
                      None \<Rightarrow> Inl (NoDownloadedModel (engine_id (hd ranked)) stage (map engine_id ranked))
                    | Some (i, e, m) \<Rightarrow>
                        Inr (result e
                          (if i = 0 then reason
                           else reason @ ''; fallback to engine_id with ready model'')
                          (Some (resolve_loaded_model_id m stage))))))"

definition lookup_model :: "sel_env \<Rightarrow> string \<Rightarrow> model_row option" where
  "lookup_model env pref =
     (case se_models env of None \<Rightarrow> None | Some rows \<Rightarrow> List.find (\<lambda>m. model_id m = pref) rows)"

definition select_engine ::
  "sel_env \<Rightarrow> string \<Rightarrow> requirements \<Rightarrow> string option \<Rightarrow> bool \<Rightarrow> sel_error + selection" where
  "select_engine env stage q user_preference pref_is_model =
     (case nonempty user_preference of
        None \<Rightarrow> select_auto env stage q
      | Some pref \<Rightarrow>
          (case lookup_model env pref of
             Some m \<Rightarrow> select_pinned_model env stage q pref m
           | None \<Rightarrow>
               if pref_is_model
               then Inl (ModelSelection ''model_not_found'' stage pref None None)
               else select_preferred_engine env stage q pref))"

section \<open>The whole pipeline\<close>

definition should_add_alignment :: "dict \<Rightarrow> selection \<Rightarrow> bool" where
  "should_add_alignment p s =
     (let wants = (case dget p ''word_timestamps'' of
                     Some v \<Rightarrow> truthy v
                   | None \<Rightarrow> (case dget p ''timestamps_granularity'' of
                               Some g \<Rightarrow> g = PStr ''word''
                             | None \<Rightarrow> True))
      in wants \<and> \<not> supports_word_timestamps (sel_caps s))"

definition should_add_diarization :: "dict \<Rightarrow> selection \<Rightarrow> bool" where
  "should_add_diarization p s \<longleftrightarrow>
     dget_or p ''speaker_detection'' (PStr ''none'') = PStr ''diarize''
     \<and> \<not> includes_diarization (sel_caps s)"

text \<open>A preference parameter: absent and falsy values are no preference.\<close>

definition preference :: "dict \<Rightarrow> string \<Rightarrow> sel_error + string option" where
  "preference p key =
     (case dget p key of
        Some (PStr s) \<Rightarrow> Inr (nonempty (Some s))
      | Some v \<Rightarrow> if truthy v then Inl (SelectorExn TypeError) else Inr None
      | None \<Rightarrow> Inr None)"

text \<open>The alignment step: a failed automatic choice degrades the job to segment
  timestamps, a failed pinned one is an error.\<close>

definition select_alignment ::
  "sel_env \<Rightarrow> requirements \<Rightarrow> pipeline_selection \<Rightarrow> sel_error + pipeline_selection" where
  "select_alignment env q s =
     (let p = effective_parameters s;
          align_q = \<lparr>req_language = nonempty (req_language q), req_streaming = False\<rparr>;
          degraded = s\<lparr>effective_parameters :=
             dset ''timestamps_granularity'' (PStr ''segment'')
               (dset ''word_timestamps'' (PBool False) p)\<rparr>
      in bind_res (preference p ''model_align'') (\<lambda>pref.
           case select_engine env ''align'' align_q pref True of
             Inr r \<Rightarrow> Inr (s\<lparr>sel_stages := dset ''align'' r (sel_stages s)\<rparr>)
           | Inl e \<Rightarrow>
               (case e of
                  NoDownloadedModel _ _ _ \<Rightarrow> if pref \<noteq> None then Inl e else Inr degraded
                | NoCapableEngine _ _ _ _ \<Rightarrow> if pref \<noteq> None then Inl e else Inr degraded
                | _ \<Rightarrow> Inl e)))"

definition select_stage ::
  "sel_env \<Rightarrow> string \<Rightarrow> requirements \<Rightarrow> string \<Rightarrow> bool \<Rightarrow> pipeline_selection
    \<Rightarrow> sel_error + pipeline_selection" where
  "select_stage env stage q key pref_is_model s =
     bind_res (preference (effective_parameters s) key) (\<lambda>pref.
       bind_res (select_engine env stage q pref pref_is_model) (\<lambda>r.
         Inr (s\<lparr>sel_stages := dset stage r (sel_stages s)\<rparr>)))"

definition transcribe_selection :: "pipeline_selection \<Rightarrow> selection option" where
  "transcribe_selection s = dget (sel_stages s) ''transcribe''"

definition select_pipeline_engines :: "sel_env \<Rightarrow> dict \<Rightarrow> sel_error + pipeline_selection" where
  "select_pipeline_engines env parameters =
     (case extract_requirements parameters of
        Inl x \<Rightarrow> Inl (SelectorExn x)
      | Inr q \<Rightarrow>
          bind_res (select_stage env ''prepare'' no_requirements ''engine_prepare'' False
                      \<lparr>sel_stages = [], effective_parameters = parameters\<rparr>) (\<lambda>s1.
          bind_res (select_stage env ''transcribe'' q ''model_transcribe'' False s1) (\<lambda>s2.
          case transcribe_selection s2 of
            None \<Rightarrow> Inl (SelectorExn (KeyError ''transcribe''))
          | Some t \<Rightarrow>
              bind_res (if should_add_alignment (effective_parameters s2) t
                        then select_alignment env q s2 else Inr s2) (\<lambda>s3.
              bind_res (if should_add_diarization (effective_parameters s3) t
                        then select_stage env ''diarize'' no_requirements ''model_diarize'' False s3
                        else Inr s3) (\<lambda>s4.
              if truthy_opt (dget (effective_parameters s4) ''pii_detection'')
              then bind_res (select_stage env ''pii_detect'' no_requirements ''model_pii_detect'' True s4) (\<lambda>s5.
                   if truthy_opt (dget (effective_parameters s5) ''redact_pii_audio'')
                   then select_stage env ''audio_redact'' no_requirements ''engine_audio_redact'' False s5
                   else Inr s5)
              else Inr s4)))))"

end
