(* ===== verification/SelectorProps.thy ===== *)
theory SelectorProps
  imports EngineSelector
begin

text \<open>
  What engine selection promises. The contract of a ranking (best element first, nothing
  lost) is the locale \<open>best_first\<close>, interpreted by the engine ranking and by the model
  ranking; the properties rest on its facts.
\<close>

section \<open>Rankings\<close>

locale best_first =
  fixes rank :: "'a list \<Rightarrow> 'a list"
    and score :: "'a \<Rightarrow> 'k::linorder"
  assumes set_rank: "set (rank xs) = set xs"
    and sorted_rank: "i \<le> j \<Longrightarrow> j < length (rank xs) \<Longrightarrow> score (rank xs ! j) \<le> score (rank xs ! i)"
begin

lemma rank_Nil_iff: "rank xs = [] \<longleftrightarrow> xs = []"
  using set_rank [of xs] by (metis set_empty)

lemma hd_rank_in: "xs \<noteq> [] \<Longrightarrow> hd (rank xs) \<in> set xs"
  using set_rank [of xs] rank_Nil_iff [of xs] by (metis hd_in_set)

lemma hd_rank_max: "x \<in> set xs \<Longrightarrow> score x \<le> score (hd (rank xs))"
  using set_rank [of xs] sorted_rank [of 0 _ xs]
  by (metis empty_iff hd_conv_nth in_set_conv_nth le0 set_empty)

lemma better_is_earlier:
  "i < length (rank xs) \<Longrightarrow> j < length (rank xs) \<Longrightarrow> score (rank xs ! i) < score (rank xs ! j) \<Longrightarrow> j < i"
  using sorted_rank [of i j xs] by (meson leD not_le_imp_less)

end

lemma py_sorted_rev_antimono:
  assumes "i \<le> j" and "j < length (py_sorted_rev f xs)"
  shows "f (py_sorted_rev f xs ! j) \<le> f (py_sorted_rev f xs ! i)"
proof -
  let ?s = "sort_key f (rev xs)"
  have len: "length ?s = length xs" by simp
  have "sorted (map f ?s)" by simp
  then have "f (?s ! (length xs - Suc j)) \<le> f (?s ! (length xs - Suc i))"
    using assms by (auto simp: sorted_iff_nth_mono)
  then show ?thesis using assms by (simp add: py_sorted_rev_def rev_nth)
qed

interpretation engine_ranking: best_first rank_capable_engines engine_rank_score
  by unfold_locales (auto simp: rank_capable_engines_def intro: py_sorted_rev_antimono)

interpretation model_ranking: best_first "py_sorted_rev (score_model q)" "score_model q" for q
  by unfold_locales (auto intro: py_sorted_rev_antimono)

section \<open>Downloaded models\<close>

definition usable_model :: "model_row list \<Rightarrow> string \<Rightarrow> string \<Rightarrow> requirements \<Rightarrow> model_row \<Rightarrow> bool" where
  "usable_model rows eid stage q m \<longleftrightarrow>
     m \<in> set rows \<and> model_engine_id m = eid \<and> model_status m = ''ready'' \<and> model_stage m = stage
     \<and> (case forced_language q of None \<Rightarrow> True | Some l \<Rightarrow> language_compatible l m)"

lemma find_best_spec:
  "find_best_downloaded_model rows eid stage q =
     (case py_sorted_rev (score_model q) (filter (usable_model rows eid stage q) rows) of
        [] \<Rightarrow> None | b # _ \<Rightarrow> Some b)"
proof -
  have "(case forced_language q of
          Some l \<Rightarrow> filter (language_compatible l)
             (filter (\<lambda>m. model_engine_id m = eid \<and> model_status m = ''ready'' \<and> model_stage m = stage) rows)
        | None \<Rightarrow> filter (\<lambda>m. model_engine_id m = eid \<and> model_status m = ''ready'' \<and> model_stage m = stage) rows)
      = filter (usable_model rows eid stage q) rows"
    by (auto simp: usable_model_def conj_ac intro!: filter_cong split: option.splits)
  then show ?thesis by (simp add: find_best_downloaded_model_def)
qed

lemma find_best_None_iff:
  "find_best_downloaded_model rows eid stage q = None \<longleftrightarrow> (\<forall>m. \<not> usable_model rows eid stage q m)"
proof -
  have "find_best_downloaded_model rows eid stage q = None \<longleftrightarrow>
        filter (usable_model rows eid stage q) rows = []"
    unfolding find_best_spec by (metis list.case_eq_if option.distinct(1) py_sorted_rev_Nil_iff)
  also have "\<dots> \<longleftrightarrow> (\<forall>m. \<not> usable_model rows eid stage q m)"
    by (auto simp: filter_empty_conv usable_model_def)
  finally show ?thesis .
qed

text \<open>The automatic choice of a model for an engine is a ready model of that engine and stage,
  compatible with the requested language, and no usable model scores higher; it fails to
  choose only when there is no usable model at all.\<close>

lemma find_best_downloaded_model_optimal:
  "case find_best_downloaded_model rows eid stage q of
     Some m \<Rightarrow> usable_model rows eid stage q m
        \<and> (\<nexists>m'. usable_model rows eid stage q m' \<and> score_model q m < score_model q m')
   | None \<Rightarrow> (\<nexists>m. usable_model rows eid stage q m)"
proof (cases "find_best_downloaded_model rows eid stage q")
  case None
  then show ?thesis using find_best_None_iff [of rows eid stage q] by simp
next
  case (Some m)
  let ?xs = "filter (usable_model rows eid stage q) rows"
  have ne: "?xs \<noteq> []" and m: "m = hd (py_sorted_rev (score_model q) ?xs)"
    using Some by (auto simp: find_best_spec split: list.splits)
  have "m \<in> set ?xs" unfolding m by (rule model_ranking.hd_rank_in [OF ne])
  moreover have "score_model q m' \<le> score_model q m" if "usable_model rows eid stage q m'" for m'
  proof -
    have "m' \<in> set ?xs" using that by (simp add: usable_model_def)
    then show ?thesis unfolding m by (rule model_ranking.hd_rank_max)
  qed
  ultimately show ?thesis using Some by (auto simp: leD)
qed

section \<open>One stage\<close>

lemma capable_engines_in:
  "e \<in> set (capable_engines env stage q) \<Longrightarrow>
   e \<in> set (get_by_stage (se_registry env) stage) \<and> is_healthy (se_now env) e
   \<and> supports_interface ''batch'' e"
  by (auto simp: capable_engines_def stage_candidates_def)

lemma get_by_stage_live: "e \<in> set (get_by_stage g s) \<Longrightarrow> \<exists>i. reg_instance g i = Some e"
  by (auto simp: get_by_stage_def List.map_filter_def)

lemma get_by_engine_id_live: "e \<in> set (get_by_engine_id g s) \<Longrightarrow> \<exists>i. reg_instance g i = Some e"
  by (auto simp: get_by_engine_id_def List.map_filter_def)

lemma get_engine_live: "get_engine now g s = Some e \<Longrightarrow> \<exists>i. reg_instance g i = Some e"
  by (blast dest: get_engine_in get_by_engine_id_live)

text \<open>The instances a selection can stand for: those whose record names its engine, or that the
  registry's engine index lists under it.\<close>

definition instance_of :: "sel_env \<Rightarrow> string \<Rightarrow> engine_record \<Rightarrow> bool" where
  "instance_of env eid e \<longleftrightarrow> (\<exists>i. reg_instance (se_registry env) i = Some e)
     \<and> (engine_id e = eid \<or> e \<in> set (get_by_engine_id (se_registry env) eid))"

lemma instance_of_stage:
  "e \<in> set (get_by_stage (se_registry env) st) \<Longrightarrow> instance_of env (engine_id e) e"
  by (auto simp: instance_of_def dest: get_by_stage_live)

lemma instance_of_engine:
  "get_engine (se_now env) (se_registry env) eid = Some e \<Longrightarrow>
   instance_of env eid e \<and> instance_of env (engine_id e) e"
  by (auto simp: instance_of_def dest: get_engine_live get_engine_in)

definition serves_live :: "sel_env \<Rightarrow> selection \<Rightarrow> bool" where
  "serves_live env s \<longleftrightarrow> (\<exists>e. instance_of env (sel_engine_id s) e
     \<and> (is_healthy (se_now env) e \<or> is_available (se_now env) e))"

definition serves_cold :: "sel_env \<Rightarrow> selection \<Rightarrow> bool" where
  "serves_cold env s \<longleftrightarrow> (\<exists>k c. (k, c) \<in> set (se_catalog env) \<and> on_demand c
     \<and> sel_engine_id s \<in> {k, cat_engine_id c} \<and> sel_caps s = cat_capabilities c)"

definition served :: "sel_env \<Rightarrow> selection \<Rightarrow> bool" where
  "served env s \<longleftrightarrow> (if sel_on_demand s then serves_cold env s else serves_live env s)"

lemma fallback_served:
  assumes "catalog_on_demand_fallback (find_engines (se_catalog env) stage q) eid = Some s"
  shows "sel_on_demand s \<and> serves_cold env s"
proof -
  let ?f = "filter (\<lambda>e. on_demand e \<and> (eid = None \<or> Some (cat_engine_id e) = eid))
              (find_engines (se_catalog env) stage q)"
  obtain e es where f: "?f = e # es"
    using assms by (auto simp: catalog_on_demand_fallback_def split: list.splits)
  let ?key = "\<lambda>c. case rtf_gpu (cat_capabilities c) of
     None \<Rightarrow> (1::nat, 0) | Some r \<Rightarrow> if r = 0 then (1, 0) else (0, r)"
  define w where "w = py_min_from ?key e es"
  have w: "w \<in> insert e (set es)" unfolding w_def by (rule py_min_from_in)
  have s: "sel_engine_id s = cat_engine_id w" "sel_caps s = cat_capabilities w" "sel_on_demand s"
    using assms f by (auto simp: catalog_on_demand_fallback_def Let_def w_def)
  have "w \<in> set ?f" using w f by simp
  then obtain k where "(k, w) \<in> set (se_catalog env)" "on_demand w"
    by (auto simp: find_engines_iff)
  then show ?thesis using s unfolding serves_cold_def by blast
qed

lemma pinned_served:
  assumes "select_pinned_model env stage q pref m = Inr s"
  shows "served env s"
proof (cases "sel_on_demand s")
  case True
  then have "\<exists>c. catalog_get_engine (se_catalog env) (model_engine_id m) = Some c \<and> on_demand c
     \<and> sel_engine_id s = model_engine_id m \<and> sel_caps s = cat_capabilities c"
    using assms by (auto simp: select_pinned_model_def Let_def split: if_splits option.splits)
  then show ?thesis using True
    by (auto simp: served_def serves_cold_def catalog_get_engine_def dget_def dest!: map_of_SomeD)
next
  case False
  then have "\<exists>e. get_engine (se_now env) (se_registry env) (model_engine_id m) = Some e
     \<and> is_healthy (se_now env) e \<and> sel_engine_id s = model_engine_id m"
    using assms by (auto simp: select_pinned_model_def Let_def split: if_splits option.splits)
  then show ?thesis using False by (auto simp: served_def serves_live_def dest!: instance_of_engine)
qed

lemma preferred_served:
  "select_preferred_engine env stage q pref = Inr s \<Longrightarrow> served env s"
  by (auto simp: select_preferred_engine_def Let_def served_def serves_live_def
      split: if_splits option.splits dest!: fallback_served instance_of_engine)

lemma pick_with_model_spec:
  "pick_with_model rows stage q i cs = Some (j, e, m) \<Longrightarrow>
   i \<le> j \<and> j < i + length cs \<and> e = cs ! (j - i)
   \<and> find_best_downloaded_model rows (engine_id e) stage q = Some m
   \<and> (\<forall>k < j - i. find_best_downloaded_model rows (engine_id (cs ! k)) stage q = None)"
proof (induction rows stage q i cs rule: pick_with_model.induct)
  case (1 rows stage q i)
  then show ?case by simp
next
  case (2 rows stage q i c cs)
  show ?case
  proof (cases "find_best_downloaded_model rows (engine_id c) stage q")
    case None
    from "2.prems" None have "pick_with_model rows stage q (Suc i) cs = Some (j, e, m)" by simp
    note IH = "2.IH" [OF None this]
    from IH have "Suc i \<le> j" by blast
    then have d: "j - i = Suc (j - Suc i)" by arith
    have "find_best_downloaded_model rows (engine_id ((c # cs) ! k)) stage q = None"
      if "k < j - i" for k
      using IH None that by (cases k) auto
    then show ?thesis using IH d by auto
  next
    case (Some m')
    then show ?thesis using 2 by simp
  qed
qed

lemma set_ranked_engines: "set (ranked_engines env stage q) = set (capable_engines env stage q)"
  by (simp add: ranked_engines_def Let_def engine_ranking.set_rank)

lemma ranked_engines_sorted:
  "i \<le> j \<Longrightarrow> j < length (ranked_engines env stage q) \<Longrightarrow>
   engine_rank_score (ranked_engines env stage q ! j) \<le> engine_rank_score (ranked_engines env stage q ! i)"
  by (auto simp: ranked_engines_def Let_def intro: engine_ranking.sorted_rank)

lemma select_auto_Inr:
  assumes "select_auto env stage q = Inr s" and "capable_engines env stage q \<noteq> []"
  shows "\<exists>n < length (ranked_engines env stage q).
     sel_engine_id s = engine_id (ranked_engines env stage q ! n) \<and> \<not> sel_on_demand s
     \<and> (\<forall>rows. se_models env = Some rows \<longrightarrow> stage \<in> set MODEL_BACKED_STAGES \<longrightarrow>
          (\<forall>k < n. find_best_downloaded_model rows (engine_id (ranked_engines env stage q ! k)) stage q = None))
     \<and> (se_models env = None \<or> stage \<notin> set MODEL_BACKED_STAGES \<longrightarrow> n = 0)"
proof -
  let ?r = "ranked_engines env stage q"
  have ne: "?r \<noteq> []" using assms(2) set_ranked_engines by (metis set_empty)
  show ?thesis
  proof (cases "if stage \<in> set MODEL_BACKED_STAGES then se_models env else None")
    case None
    then have "sel_engine_id s = engine_id (?r ! 0) \<and> \<not> sel_on_demand s"
      using assms ne by (auto simp: select_auto_def Let_def hd_conv_nth split: if_splits)
    then show ?thesis using None ne by (auto split: if_splits intro!: exI [of _ 0])
  next
    case (Some rows)
    then obtain n e m where p: "pick_with_model rows stage q 0 ?r = Some (n, e, m)"
      and s: "sel_engine_id s = engine_id e" "\<not> sel_on_demand s"
      using assms by (auto simp: select_auto_def Let_def split: option.splits prod.splits)
    then show ?thesis using pick_with_model_spec [OF p] Some
      by (intro exI [of _ n]) (auto split: if_splits)
  qed
qed

lemma auto_served:
  assumes "select_auto env stage q = Inr s"
  shows "served env s"
proof (cases "capable_engines env stage q = []")
  case True
  then show ?thesis using assms
    by (auto simp: select_auto_def Let_def served_def split: option.splits dest!: fallback_served)
next
  case False
  then obtain n where n: "n < length (ranked_engines env stage q)"
      "sel_engine_id s = engine_id (ranked_engines env stage q ! n)" "\<not> sel_on_demand s"
    using select_auto_Inr [OF assms] by blast
  then have "ranked_engines env stage q ! n \<in> set (capable_engines env stage q)"
    using set_ranked_engines nth_mem by metis
  then show ?thesis using n
    by (auto simp: served_def serves_live_def dest!: capable_engines_in instance_of_stage)
qed

lemma select_engine_served: "select_engine env stage q pref b = Inr s \<Longrightarrow> served env s"
  by (auto simp: select_engine_def split: option.splits if_splits
      intro: auto_served pinned_served preferred_served)

text \<open>C1: whatever engine selection returns for a stage can be served: a live instance that is
  healthy or has capacity backs it (its record names the selected engine or the registry
  indexes it there), or, for a scale-to-zero selection, a catalog entry of that engine
  flagged on-demand with exactly the returned capabilities.\<close>

theorem select_engine_served_or_cold:
  assumes "select_engine env stage q pref b = Inr s"
  shows "(\<not> sel_on_demand s \<and> (\<exists>e. instance_of env (sel_engine_id s) e
            \<and> (is_healthy (se_now env) e \<or> is_available (se_now env) e)))
       \<or> (sel_on_demand s \<and> (\<exists>k c. (k, c) \<in> set (se_catalog env) \<and> on_demand c
            \<and> sel_engine_id s \<in> {k, cat_engine_id c} \<and> sel_caps s = cat_capabilities c))"
  using select_engine_served [OF assms]
  by (simp add: served_def serves_live_def serves_cold_def split: if_splits)

text \<open>The automatic choice is the best engine that can start. It is a capable engine of the stage,
  and every capable engine ranked strictly above it (native timestamps, then native
  diarization, then speed) has no usable model; without a model table nothing ranks
  above it.\<close>

lemma select_auto_optimal:
  assumes "select_engine env stage q None b = Inr s" and "\<not> sel_on_demand s"
  shows "\<exists>w \<in> set (capable_engines env stage q). sel_engine_id s = engine_id w
     \<and> (\<forall>e \<in> set (capable_engines env stage q).
          engine_rank_score w < engine_rank_score e \<longrightarrow>
          (\<exists>rows. se_models env = Some rows \<and> stage \<in> set MODEL_BACKED_STAGES
             \<and> (\<nexists>m. usable_model rows (engine_id e) stage q m)))"
proof -
  let ?r = "ranked_engines env stage q"
  have auto: "select_auto env stage q = Inr s"
    using assms(1) by (simp add: select_engine_def nonempty_def)
  have ne: "capable_engines env stage q \<noteq> []"
    using auto assms(2) by (auto simp: select_auto_def Let_def split: option.splits dest!: fallback_served)
  obtain n where n: "n < length ?r" "sel_engine_id s = engine_id (?r ! n)"
    and models: "\<And>rows k. se_models env = Some rows \<Longrightarrow> stage \<in> set MODEL_BACKED_STAGES \<Longrightarrow> k < n \<Longrightarrow>
       find_best_downloaded_model rows (engine_id (?r ! k)) stage q = None"
    and plain: "se_models env = None \<or> stage \<notin> set MODEL_BACKED_STAGES \<Longrightarrow> n = 0"
    using select_auto_Inr [OF auto ne] by blast
  have better: "\<exists>rows. se_models env = Some rows \<and> stage \<in> set MODEL_BACKED_STAGES
             \<and> (\<nexists>m. usable_model rows (engine_id e) stage q m)"
    if e: "e \<in> set (capable_engines env stage q)"
      and above: "engine_rank_score (?r ! n) < engine_rank_score e" for e
  proof -
    obtain k where k: "k < length ?r" "?r ! k = e"
      using e set_ranked_engines by (metis in_set_conv_nth)
    have "k < n"
      using k n above ranked_engines_sorted [of n k env stage q] by (metis leD not_le_imp_less)
    then obtain rows where "se_models env = Some rows" "stage \<in> set MODEL_BACKED_STAGES"
      using plain by (cases "se_models env") auto
    then show ?thesis using models [OF _ _ \<open>k < n\<close>] k find_best_None_iff by blast
  qed
  have "?r ! n \<in> set (capable_engines env stage q)"
    using n set_ranked_engines nth_mem by metis
  then show ?thesis using n better by blast
qed

text \<open>Pinning a model is strict: a selection for a preference that names a model row uses that
  row's engine and loaded model, and the row is ready, of this stage, and not restricted
  to languages other than the requested one.\<close>

lemma select_pinned_strict:
  assumes "lookup_model env pref = Some m" and "pref \<noteq> []"
    and "select_engine env stage q (Some pref) b = Inr s"
  shows "model_stage m = stage \<and> model_status m = ''ready''
     \<and> sel_engine_id s = model_engine_id m
     \<and> sel_loaded_model_id s = Some (resolve_loaded_model_id m stage)
     \<and> (\<forall>l ls. nonempty (req_language q) = Some l \<longrightarrow> model_languages m = Some ls \<longrightarrow> speaks l ls)"
  using assms
  by (auto simp: select_engine_def nonempty_def select_pinned_model_def Let_def
      split: if_splits option.splits)

section \<open>The pipeline\<close>

lemma select_stage_Inr:
  assumes "select_stage env stage q key b s = Inr s'"
  shows "effective_parameters s' = effective_parameters s
     \<and> (\<exists>r. sel_stages s' = dset stage r (sel_stages s) \<and> served env r)"
  using assms by (auto simp: select_stage_def res_simps intro: select_engine_served)

definition degraded_parameters :: "dict \<Rightarrow> dict" where
  "degraded_parameters p =
     dset ''timestamps_granularity'' (PStr ''segment'') (dset ''word_timestamps'' (PBool False) p)"

lemma select_alignment_Inr:
  assumes "select_alignment env q s = Inr s'"
  shows "(effective_parameters s' = effective_parameters s
          \<and> (\<exists>r. sel_stages s' = dset ''align'' r (sel_stages s) \<and> served env r))
       \<or> (effective_parameters s' = degraded_parameters (effective_parameters s)
          \<and> sel_stages s' = sel_stages s)"
proof -
  obtain pref where pref: "preference (effective_parameters s) ''model_align'' = Inr pref"
    using assms by (auto simp: select_alignment_def Let_def bind_res_Inr)
  let ?call = "select_engine env ''align''
     \<lparr>req_language = nonempty (req_language q), req_streaming = False\<rparr> pref True"
  show ?thesis
  proof (cases ?call)
    case (Inr r)
    then show ?thesis using assms pref select_engine_served [OF Inr]
      by (auto simp: select_alignment_def Let_def bind_res.simps)
  next
    case (Inl e)
    then show ?thesis using assms pref
      by (cases e) (auto simp: select_alignment_def Let_def bind_res.simps degraded_parameters_def split: if_splits)
  qed
qed

lemma degraded_parameters_dget:
  "k \<noteq> ''timestamps_granularity'' \<Longrightarrow> k \<noteq> ''word_timestamps'' \<Longrightarrow>
   dget (degraded_parameters p) k = dget p k"
  by (simp add: degraded_parameters_def)

definition pii_requested :: "dict \<Rightarrow> bool" where
  "pii_requested p \<longleftrightarrow> truthy_opt (dget p ''pii_detection'')"

definition redaction_requested :: "dict \<Rightarrow> bool" where
  "redaction_requested p \<longleftrightarrow> pii_requested p \<and> truthy_opt (dget p ''redact_pii_audio'')"

definition pipeline_ok :: "sel_env \<Rightarrow> dict \<Rightarrow> pipeline_selection \<Rightarrow> bool" where
  "pipeline_ok env p s \<longleftrightarrow>
     (\<exists>t. transcribe_selection s = Some t
        \<and> dhas (sel_stages s) ''prepare''
        \<and> (if dhas (sel_stages s) ''align''
            then should_add_alignment p t \<and> effective_parameters s = p
            else effective_parameters s = (if should_add_alignment p t then degraded_parameters p else p))
        \<and> (dhas (sel_stages s) ''diarize'' \<longleftrightarrow> should_add_diarization p t)
        \<and> (dhas (sel_stages s) ''pii_detect'' \<longleftrightarrow> pii_requested p)
        \<and> (dhas (sel_stages s) ''audio_redact'' \<longleftrightarrow> redaction_requested p)
        \<and> (\<forall>stage r. dget (sel_stages s) stage = Some r \<longrightarrow> served env r))"

lemma select_pipeline_stages:
  assumes "select_pipeline_engines env p = Inr s"
  obtains q s1 s2 t s3 s4 where
    "extract_requirements p = Inr q"
    "select_stage env ''prepare'' no_requirements ''engine_prepare'' False
       \<lparr>sel_stages = [], effective_parameters = p\<rparr> = Inr s1"
    "select_stage env ''transcribe'' q ''model_transcribe'' False s1 = Inr s2"
    "transcribe_selection s2 = Some t"
    "(if should_add_alignment p t then select_alignment env q s2 else Inr s2) = Inr s3"
    "(if should_add_diarization (effective_parameters s3) t
      then select_stage env ''diarize'' no_requirements ''model_diarize'' False s3 else Inr s3) = Inr s4"
    "(if pii_requested (effective_parameters s4)
      then bind_res (select_stage env ''pii_detect'' no_requirements ''model_pii_detect'' True s4) (\<lambda>s5.
             if truthy_opt (dget (effective_parameters s5) ''redact_pii_audio'')
             then select_stage env ''audio_redact'' no_requirements ''engine_audio_redact'' False s5
             else Inr s5)
      else Inr s4) = Inr s"
proof -
  obtain q where q: "extract_requirements p = Inr q"
    using assms by (auto simp: select_pipeline_engines_def split: sum.splits)
  obtain s1 where s1: "select_stage env ''prepare'' no_requirements ''engine_prepare'' False
       \<lparr>sel_stages = [], effective_parameters = p\<rparr> = Inr s1"
    using assms q by (auto simp: select_pipeline_engines_def bind_res_Inr)
  obtain s2 where s2: "select_stage env ''transcribe'' q ''model_transcribe'' False s1 = Inr s2"
    using assms q s1 by (auto simp: select_pipeline_engines_def bind_res_Inr)
  have p2: "effective_parameters s2 = p"
    using select_stage_Inr [OF s1] select_stage_Inr [OF s2] by simp
  obtain t where t: "transcribe_selection s2 = Some t"
    using assms q s1 s2 by (auto simp: select_pipeline_engines_def bind_res_Inr split: option.splits)
  obtain s3 where s3: "(if should_add_alignment p t then select_alignment env q s2 else Inr s2) = Inr s3"
    using assms q s1 s2 t p2 by (auto simp: select_pipeline_engines_def bind_res_Inr)
  obtain s4 where s4: "(if should_add_diarization (effective_parameters s3) t
      then select_stage env ''diarize'' no_requirements ''model_diarize'' False s3 else Inr s3) = Inr s4"
    using assms q s1 s2 t p2 s3 by (auto simp: select_pipeline_engines_def bind_res_Inr)
  have "(if pii_requested (effective_parameters s4)
      then bind_res (select_stage env ''pii_detect'' no_requirements ''model_pii_detect'' True s4) (\<lambda>s5.
             if truthy_opt (dget (effective_parameters s5) ''redact_pii_audio'')
             then select_stage env ''audio_redact'' no_requirements ''engine_audio_redact'' False s5
             else Inr s5)
      else Inr s4) = Inr s"
    using assms by (simp only: select_pipeline_engines_def q s1 s2 t p2 s3 s4 bind_res.simps
        sum.case option.case pii_requested_def)
  then show ?thesis using that q s1 s2 t s3 s4 by blast
qed

lemma select_pii_Inr:
  assumes "(if pii_requested (effective_parameters s4)
      then bind_res (select_stage env ''pii_detect'' no_requirements ''model_pii_detect'' True s4) (\<lambda>s5.
             if truthy_opt (dget (effective_parameters s5) ''redact_pii_audio'')
             then select_stage env ''audio_redact'' no_requirements ''engine_audio_redact'' False s5
             else Inr s5)
      else Inr s4) = Inr s"
  shows "effective_parameters s = effective_parameters s4
      \<and> (if redaction_requested (effective_parameters s4)
         then \<exists>r r'. sel_stages s = dset ''audio_redact'' r' (dset ''pii_detect'' r (sel_stages s4))
                   \<and> served env r \<and> served env r'
         else if pii_requested (effective_parameters s4)
         then \<exists>r. sel_stages s = dset ''pii_detect'' r (sel_stages s4) \<and> served env r
         else sel_stages s = sel_stages s4)"
proof (cases "pii_requested (effective_parameters s4)")
  case False
  then show ?thesis using assms by (simp add: redaction_requested_def)
next
  case True
  then obtain s5 where s5: "select_stage env ''pii_detect'' no_requirements ''model_pii_detect'' True s4 = Inr s5"
    and rest: "(if truthy_opt (dget (effective_parameters s5) ''redact_pii_audio'')
             then select_stage env ''audio_redact'' no_requirements ''engine_audio_redact'' False s5
             else Inr s5) = Inr s"
    using assms by (auto simp: bind_res_Inr)
  note a = select_stage_Inr [OF s5]
  show ?thesis
  proof (cases "truthy_opt (dget (effective_parameters s4) ''redact_pii_audio'')")
    case False
    then show ?thesis using a rest True by (simp add: redaction_requested_def)
  next
    case True
    then have s6: "select_stage env ''audio_redact'' no_requirements ''engine_audio_redact'' False s5 = Inr s"
      using a rest by simp
    obtain r r' where "sel_stages s5 = dset ''pii_detect'' r (sel_stages s4)" "served env r"
        "sel_stages s = dset ''audio_redact'' r' (sel_stages s5)" "served env r'"
      using a select_stage_Inr [OF s6] by blast
    moreover have "redaction_requested (effective_parameters s4)"
      using True \<open>pii_requested _\<close> by (simp add: redaction_requested_def)
    ultimately show ?thesis using a select_stage_Inr [OF s6] by auto
  qed
qed

lemma should_add_diarization_degraded [simp]:
  "should_add_diarization (degraded_parameters p) t = should_add_diarization p t"
  by (simp add: should_add_diarization_def dget_or_def degraded_parameters_dget)

lemma pii_requested_degraded [simp]: "pii_requested (degraded_parameters p) = pii_requested p"
  by (simp add: pii_requested_def degraded_parameters_dget)

lemma redaction_requested_degraded [simp]:
  "redaction_requested (degraded_parameters p) = redaction_requested p"
  by (simp add: redaction_requested_def degraded_parameters_dget)

lemma pipeline_selection_ok:
  assumes "select_pipeline_engines env p = Inr s"
  shows "pipeline_ok env p s"
proof -
  obtain q s1 s2 t s3 s4 where st: "extract_requirements p = Inr q"
    "select_stage env ''prepare'' no_requirements ''engine_prepare'' False
       \<lparr>sel_stages = [], effective_parameters = p\<rparr> = Inr s1"
    "select_stage env ''transcribe'' q ''model_transcribe'' False s1 = Inr s2"
    "transcribe_selection s2 = Some t"
    "(if should_add_alignment p t then select_alignment env q s2 else Inr s2) = Inr s3"
    "(if should_add_diarization (effective_parameters s3) t
      then select_stage env ''diarize'' no_requirements ''model_diarize'' False s3 else Inr s3) = Inr s4"
    "(if pii_requested (effective_parameters s4)
      then bind_res (select_stage env ''pii_detect'' no_requirements ''model_pii_detect'' True s4) (\<lambda>s5.
             if truthy_opt (dget (effective_parameters s5) ''redact_pii_audio'')
             then select_stage env ''audio_redact'' no_requirements ''engine_audio_redact'' False s5
             else Inr s5)
      else Inr s4) = Inr s"
    using select_pipeline_stages [OF assms] by blast
  obtain r1 r2 where
    s2: "effective_parameters s2 = p"
        "sel_stages s2 = dset ''transcribe'' r2 (dset ''prepare'' r1 [])"
        "served env r1" "served env r2"
    using select_stage_Inr [OF st(2)] select_stage_Inr [OF st(3)] by auto
  have s3: "(effective_parameters s3 = p \<and> should_add_alignment p t
              \<and> (\<exists>r. sel_stages s3 = dset ''align'' r (sel_stages s2) \<and> served env r))
      \<or> (effective_parameters s3 = (if should_add_alignment p t then degraded_parameters p else p)
         \<and> sel_stages s3 = sel_stages s2)"
    using st(5) select_alignment_Inr [of env q s2 s3] s2 by (auto split: if_splits)
  then have par: "effective_parameters s3 \<in> {p, degraded_parameters p}" by (auto split: if_splits)
  have s4: "effective_parameters s4 = effective_parameters s3
      \<and> (if should_add_diarization p t
         then \<exists>r. sel_stages s4 = dset ''diarize'' r (sel_stages s3) \<and> served env r
         else sel_stages s4 = sel_stages s3)"
    using st(6) select_stage_Inr [of env "''diarize''" _ _ _ s3 s4] par by (auto split: if_splits)
  have s5: "effective_parameters s = effective_parameters s4
      \<and> (if redaction_requested p
         then \<exists>r r'. sel_stages s = dset ''audio_redact'' r' (dset ''pii_detect'' r (sel_stages s4))
                   \<and> served env r \<and> served env r'
         else if pii_requested p
         then \<exists>r. sel_stages s = dset ''pii_detect'' r (sel_stages s4) \<and> served env r
         else sel_stages s = sel_stages s4)"
    using select_pii_Inr [OF st(7)] s4 par by auto
  have tr: "transcribe_selection s = Some t"
    using st(4) s3 s4 s5 by (auto simp: transcribe_selection_def split: if_splits)
  show ?thesis
    unfolding pipeline_ok_def
  proof (rule exI [of _ t], intro conjI)
    show "transcribe_selection s = Some t" by (rule tr)
    show "dhas (sel_stages s) ''prepare''"
      using s2 s3 s4 s5 by (auto simp: dhas_def split: if_splits)
    show "if dhas (sel_stages s) ''align'' then should_add_alignment p t \<and> effective_parameters s = p
      else effective_parameters s = (if should_add_alignment p t then degraded_parameters p else p)"
      using s2 s3 s4 s5 by (auto simp: dhas_def split: if_splits)
    show "dhas (sel_stages s) ''diarize'' \<longleftrightarrow> should_add_diarization p t"
      using s2 s3 s4 s5 by (auto simp: dhas_def split: if_splits)
    show "dhas (sel_stages s) ''pii_detect'' \<longleftrightarrow> pii_requested p"
      using s2 s3 s4 s5 by (auto simp: dhas_def redaction_requested_def split: if_splits)
    show "dhas (sel_stages s) ''audio_redact'' \<longleftrightarrow> redaction_requested p"
      using s2 s3 s4 s5 by (auto simp: dhas_def split: if_splits)
    show "\<forall>stage r. dget (sel_stages s) stage = Some r \<longrightarrow> served env r"
      using s2 s3 s4 s5 by (auto split: if_splits)
  qed
qed


section \<open>A concrete environment\<close>

text \<open>Two live instances, one ready model, and an on-demand catalog engine: the inputs on which
  the properties above are exercised.\<close>

definition demo_engine :: "string \<Rightarrow> string \<Rightarrow> engine_record" where
  "demo_engine eid stage =
     \<lparr>instance_id = eid, engine_id = eid, engine_stage = stage, engine_status = ''idle'',
      interfaces = [''batch''], capacity = 1, active_batch = 0, active_realtime = 0,
      models_loaded = None, last_heartbeat = Some 95,
      capabilities = Some ((default_capabilities eid ''1'' [stage])
        \<lparr>supports_word_timestamps := True\<rparr>)\<rparr>"

definition demo_registry :: registry where
  "demo_registry =
     \<lparr>reg_instance = (\<lambda>i. if i = ''nemo'' then Some (demo_engine ''nemo'' ''transcribe'')
                         else if i = ''prep'' then Some (demo_engine ''prep'' ''prepare'') else None),
      reg_all = [''nemo'', ''prep''],
      reg_by_engine = (\<lambda>e. [e]),
      reg_by_stage = (\<lambda>s. if s = ''transcribe'' then [''nemo''] else if s = ''prepare'' then [''prep''] else [])\<rparr>"

definition demo_model :: model_row where
  "demo_model = \<lparr>model_id = ''parakeet'', model_engine_id = ''nemo'', model_stage = ''transcribe'',
     model_status = ''ready'', model_loaded_id = ''nvidia/parakeet'', model_source = None,
     model_languages = Some [''EN''], model_size_bytes = Some 600\<rparr>"

definition demo_env :: "model_row list option \<Rightarrow> sel_env" where
  "demo_env rows = \<lparr>se_now = 100, se_registry = demo_registry, se_catalog = [], se_models = rows\<rparr>"

definition demo_selection :: "string \<Rightarrow> string \<Rightarrow> string \<Rightarrow> string option \<Rightarrow> selection" where
  "demo_selection eid stage reason model =
     \<lparr>sel_engine_id = eid,
      sel_caps = (default_capabilities eid ''1'' [stage])\<lparr>supports_word_timestamps := True\<rparr>,
      selection_reason = reason, sel_loaded_model_id = model, sel_on_demand = False\<rparr>"

lemmas demo_defs = demo_env_def demo_registry_def demo_engine_def demo_model_def demo_selection_def
  select_engine_def select_auto_def ranked_engines_def capable_engines_def stage_candidates_def
  get_by_stage_def get_by_engine_id_def get_engine_def supports_interface_def is_healthy_def
  is_available_def available_capacity_def HEARTBEAT_TIMEOUT_SECONDS_def meets_requirements_def
  MODEL_BACKED_STAGES_def caps_or_default_def nonempty_def no_requirements_def

lemma demo_select_transcribe:
  "select_engine (demo_env None) ''transcribe'' no_requirements None False =
     Inr (demo_selection ''nemo'' ''transcribe'' ''only capable engine'' None)"
  by (simp add: demo_defs)

lemma demo_select_prepare:
  "select_engine (demo_env None) ''prepare'' no_requirements None False =
     Inr (demo_selection ''prep'' ''prepare'' ''only capable engine'' None)"
  by (simp add: demo_defs)

theorem select_engine_served_or_cold_witness:
  "\<exists>e. instance_of (demo_env None) ''nemo'' e
     \<and> (is_healthy (se_now (demo_env None)) e \<or> is_available (se_now (demo_env None)) e)"
  using select_engine_served_or_cold [OF demo_select_transcribe] by (simp add: demo_selection_def)

lemma select_auto_optimal_example:
  "\<exists>w \<in> set (capable_engines (demo_env None) ''transcribe'' no_requirements). ''nemo'' = engine_id w"
  using select_auto_optimal [OF demo_select_transcribe] by (auto simp: demo_selection_def)

lemma demo_speaks: "speaks ''en'' [''EN'']"
  by code_simp

lemma demo_select_pinned:
  "select_engine (demo_env (Some [demo_model])) ''transcribe''
      \<lparr>req_language = Some ''en'', req_streaming = False\<rparr> (Some ''parakeet'') False =
   Inr (demo_selection ''nemo'' ''transcribe'' ''database model lookup'' (Some ''parakeet''))"
  by (simp add: demo_defs select_pinned_model_def lookup_model_def resolve_loaded_model_id_def
      demo_speaks Let_def)

lemma select_pinned_strict_example:
  "model_status demo_model = ''ready''
   \<and> sel_loaded_model_id (demo_selection ''nemo'' ''transcribe'' ''database model lookup'' (Some ''parakeet''))
       = Some (resolve_loaded_model_id demo_model ''transcribe'')
   \<and> speaks ''en'' [''EN'']"
proof -
  have "lookup_model (demo_env (Some [demo_model])) ''parakeet'' = Some demo_model"
    by (simp add: lookup_model_def demo_defs)
  from select_pinned_strict [OF this _ demo_select_pinned] show ?thesis
    by (simp add: nonempty_def demo_model_def)
qed


text \<open>A busy engine is treated differently by the two ways of asking for it. With every capable
  instance of an engine at capacity, the automatic choice still selects it (its queue
  absorbs the load), while naming that engine is refused, unless the catalog flags it
  on-demand.\<close>

lemma busy_engine_refused_when_named:
  assumes "capable_engines env stage q = [e]" and "stage \<notin> set MODEL_BACKED_STAGES"
    and "get_by_engine_id (se_registry env) (engine_id e) = [e]"
    and "available_capacity e = 0" and "engine_id e \<noteq> []"
    and "lookup_model env (engine_id e) = None"
    and "\<forall>c \<in> set (find_engines (se_catalog env) stage q). \<not> on_demand c"
  shows "(\<exists>s. select_engine env stage q None False = Inr s \<and> sel_engine_id s = engine_id e)
     \<and> select_engine env stage q (Some (engine_id e)) False
         = Inl (NoCapableEngine stage q [] (find_engines (se_catalog env) stage q))"
proof -
  have fb: "catalog_on_demand_fallback (find_engines (se_catalog env) stage q) (Some (engine_id e)) = None"
    using assms(7) by (auto simp: catalog_on_demand_fallback_def filter_empty_conv split: list.splits)
  have busy: "\<not> is_available (se_now env) e"
    using assms(4) by (auto simp: is_available_def split: option.splits)
  have "get_engine (se_now env) (se_registry env) (engine_id e) = Some e"
    using assms(3) busy by (simp add: get_engine_def)
  then show ?thesis using assms fb busy
    by (auto simp: select_engine_def nonempty_def select_auto_def ranked_engines_def
        select_preferred_engine_def Let_def)
qed

definition demo_busy_env :: sel_env where
  "demo_busy_env = (demo_env None)\<lparr>se_registry := demo_registry
     \<lparr>reg_instance := (\<lambda>i. Some ((demo_engine ''prep'' ''prepare'')\<lparr>active_batch := 1\<rparr>))\<rparr>\<rparr>"

lemma busy_engine_refused_when_named_example:
  "(\<exists>s. select_engine demo_busy_env ''prepare'' no_requirements None False = Inr s
        \<and> sel_engine_id s = ''prep'')
   \<and> select_engine demo_busy_env ''prepare'' no_requirements (Some ''prep'') False
       = Inl (NoCapableEngine ''prepare'' no_requirements [] [])"
proof -
  let ?e = "(demo_engine ''prep'' ''prepare'')\<lparr>active_batch := 1\<rparr>"
  have "capable_engines demo_busy_env ''prepare'' no_requirements = [?e]"
    by (simp add: demo_busy_env_def demo_defs)
  moreover have "get_by_engine_id (se_registry demo_busy_env) (engine_id ?e) = [?e]"
    by (simp add: demo_busy_env_def demo_defs)
  moreover have "available_capacity ?e = 0" by (simp add: demo_defs)
  moreover have "lookup_model demo_busy_env (engine_id ?e) = None"
    by (simp add: demo_busy_env_def lookup_model_def demo_defs)
  moreover have "find_engines (se_catalog demo_busy_env) ''prepare'' no_requirements = []"
    by (simp add: demo_busy_env_def demo_env_def find_engines_def get_engines_for_stage_def)
  moreover have "engine_id ?e = ''prep''" by (simp add: demo_engine_def)
  ultimately show ?thesis
    using busy_engine_refused_when_named [of demo_busy_env "''prepare''" no_requirements ?e]
    by (simp add: MODEL_BACKED_STAGES_def)
qed

end
