(* ===== verification/Dag.thy ===== *)
theory Dag
  imports EngineSelector
begin

text \<open>
  The task graph of a job (\<open>dalston/orchestrator/dag.py\<close>). A job's parameters are the
  dynamic dictionary the API stored, so every check the code makes on them, and the
  \<open>TypeError\<close> a mistyped value causes, is a branch here. \<open>u n\<close> is the \<open>n\<close>-th identifier
  drawn from \<open>uuid4\<close> while the graph is built; tasks appear in the order they are appended.
\<close>

section \<open>Parameters\<close>

definition VALID_TIMESTAMPS_GRANULARITIES :: "string list" where
  "VALID_TIMESTAMPS_GRANULARITIES = [''word'', ''segment'', ''none'']"

definition VALID_SPEAKER_DETECTION_MODES :: "string list" where
  "VALID_SPEAKER_DETECTION_MODES = [''none'', ''diarize'', ''per_channel'']"

definition DEFAULT_TRANSCRIBE_CONFIG :: dict where
  "DEFAULT_TRANSCRIBE_CONFIG =
     [(''language'', PNone), (''beam_size'', PInt 5), (''vad_filter'', PBool True)]"

text \<open>\<open>raw\<close> is the value of \<open>DALSTON_PREPARE_SPEECH_REGIONS\<close>, empty when unset.\<close>

definition speech_regions_enabled :: "string \<Rightarrow> bool" where
  "speech_regions_enabled raw \<longleftrightarrow> str_lower (str_strip raw) \<in> {''1'', ''true'', ''yes'', ''on''}"

text \<open>\<open>v in {...}\<close> for a set of strings: an unhashable \<open>v\<close> raises.\<close>

definition in_str_set :: "pyval \<Rightarrow> string list \<Rightarrow> exn + bool" where
  "in_str_set v xs =
     (if hashable v then Inr (case v of PStr s \<Rightarrow> s \<in> set xs | _ \<Rightarrow> False) else Inl TypeError)"

definition requested_word_timestamps :: "dict \<Rightarrow> exn + bool" where
  "requested_word_timestamps p =
     (case dget p ''word_timestamps'' of
        Some v \<Rightarrow> Inr (truthy v)
      | None \<Rightarrow>
          (case dget p ''timestamps_granularity'' of
             Some g \<Rightarrow> bind_res (in_str_set g VALID_TIMESTAMPS_GRANULARITIES)
                        (\<lambda>known. Inr (if known then g = PStr ''word'' else True))
           | None \<Rightarrow> Inr True))"

definition speaker_mode :: "dict \<Rightarrow> exn + string" where
  "speaker_mode p =
     (let v = dget_or p ''speaker_detection'' (PStr ''none'')
      in bind_res (in_str_set v VALID_SPEAKER_DETECTION_MODES)
           (\<lambda>known. Inr (case v of PStr s \<Rightarrow> if known then s else ''none'' | _ \<Rightarrow> ''none'')))"

text \<open>\<open>p.get(k) is not None and p[k] > 0\<close>, with the value when it holds.\<close>

definition positive_param :: "dict \<Rightarrow> string \<Rightarrow> exn + pyval option" where
  "positive_param p k =
     (case dget p k of
        None \<Rightarrow> Inr None
      | Some v \<Rightarrow> if v = PNone then Inr None
                 else bind_res (gt_zero v) (\<lambda>b. Inr (if b then Some v else None)))"

definition set_opt :: "string \<Rightarrow> pyval option \<Rightarrow> dict \<Rightarrow> dict" where
  "set_opt k v d = (case v of None \<Rightarrow> d | Some x \<Rightarrow> dset k x d)"

definition diarize_config :: "dict \<Rightarrow> exn + dict" where
  "diarize_config p =
     bind_res (positive_param p ''num_speakers'') (\<lambda>n.
       bind_res
         (case n of
            Some v \<Rightarrow> Inr (dset ''max_speakers'' v (dset ''min_speakers'' v []))
          | None \<Rightarrow>
              bind_res (positive_param p ''min_speakers'') (\<lambda>lo.
                bind_res (positive_param p ''max_speakers'') (\<lambda>hi.
                  Inr (set_opt ''max_speakers'' hi (set_opt ''min_speakers'' lo [])))))
         (\<lambda>c. Inr (if truthy_opt (dget p ''exclusive'')
                   then dset ''exclusive'' (PBool True) c else c)))"

definition copy_truthy :: "dict \<Rightarrow> string \<Rightarrow> dict \<Rightarrow> dict" where
  "copy_truthy p k c =
     (case dget p k of None \<Rightarrow> c | Some v \<Rightarrow> if truthy v then dset k v c else c)"

definition base_transcribe_config :: "dict \<Rightarrow> exn + dict" where
  "base_transcribe_config p =
     (case dget p ''transcribe_config'' of
        Some (PDict c) \<Rightarrow> Inr (copy_truthy p ''language'' (dmerge DEFAULT_TRANSCRIBE_CONFIG c))
      | Some _ \<Rightarrow> Inl TypeError
      | None \<Rightarrow>
          Inr [(''language'', dget_or p ''language'' (dget_or DEFAULT_TRANSCRIBE_CONFIG ''language'' PNone)),
               (''beam_size'', dget_or p ''beam_size'' (dget_or DEFAULT_TRANSCRIBE_CONFIG ''beam_size'' PNone)),
               (''vad_filter'', dget_or p ''vad_filter'' (dget_or DEFAULT_TRANSCRIBE_CONFIG ''vad_filter'' PNone))])"

definition transcribe_config :: "dict \<Rightarrow> (string \<times> string) list \<Rightarrow> exn + dict" where
  "transcribe_config p loaded =
     bind_res (base_transcribe_config p) (\<lambda>c0.
       let c1 = copy_truthy p ''task'' c0;
           c2 = copy_truthy p ''prompt'' c1;
           c3 = copy_truthy p ''vocabulary'' c2;
           c4 = set_opt ''temperature'' (dget p ''temperature'') c3;
           c5 = (if not_none (dget p ''chunking_strategy'')
                 then set_opt ''chunking_strategy'' (dget p ''chunking_strategy'') c4 else c4);
           c6 = (if truthy_opt (dget p ''include_transcription_logprobs'')
                 then dset ''include_transcription_logprobs'' (PBool True) c5 else c5)
       in Inr (case dget loaded ''transcribe'' of
                 Some m \<Rightarrow> dset ''loaded_model_id'' (PStr m) c6
               | None \<Rightarrow> c6))"

section \<open>Tasks\<close>

definition audio_input_binding :: "int option \<Rightarrow> pyval list" where
  "audio_input_binding channel =
     [dump_binding \<lparr>slot = ''audio'',
        selector = \<lparr>producer_stage = ''prepare'', sel_kind = ''audio'', sel_channel = channel,
                    sel_role = Some ''prepared'', sel_required = True\<rparr>\<rparr>]"

definition default_engine :: "string \<Rightarrow> string" where
  "default_engine stage = dget_or DEFAULT_ENGINES stage []"

definition engine_for :: "(string \<times> string) list \<Rightarrow> string \<Rightarrow> string" where
  "engine_for engines stage = dget_or engines stage (default_engine stage)"

definition new_task ::
  "uuid \<Rightarrow> uuid \<Rightarrow> string \<Rightarrow> string \<Rightarrow> uuid list \<Rightarrow> pyval list \<Rightarrow> dict \<Rightarrow> string option \<Rightarrow> int \<Rightarrow> bool \<Rightarrow> task" where
  "new_task i job stage eng deps bindings config uri retry_limit req =
     \<lparr>task_id = i, task_job_id = job, task_stage = stage, task_engine_id = eng,
      task_state = TPending, dependencies = deps, input_bindings = bindings,
      task_config = config, request_uri = uri, response_uri = None, retries = 0,
      max_retries = retry_limit, task_required = req, task_error = None, ready_at = None,
      task_started_at = None, task_completed_at = None\<rparr>"

definition with_loaded_model :: "(string \<times> string) list \<Rightarrow> string \<Rightarrow> dict \<Rightarrow> dict" where
  "with_loaded_model loaded stage c =
     (case dget loaded stage of Some m \<Rightarrow> dset ''loaded_model_id'' (PStr m) c | None \<Rightarrow> c)"

definition create_diarize_task ::
  "uuid \<Rightarrow> uuid \<Rightarrow> (string \<times> string) list \<Rightarrow> dict \<Rightarrow> (string \<times> string) list \<Rightarrow> uuid list \<Rightarrow> task" where
  "create_diarize_task i job engines config loaded deps =
     new_task i job ''diarize'' (engine_for engines ''diarize'') deps (audio_input_binding None)
       (with_loaded_model loaded ''diarize'' config) None DEFAULT_TASK_MAX_RETRIES True"

definition channel_stage :: "string \<Rightarrow> nat \<Rightarrow> string" where
  "channel_stage base ch = base @ ''_ch'' @ str_nat ch"

text \<open>The loop over the channels; \<open>tasks\<close> is the list built so far.\<close>

fun per_channel_tasks ::
  "(nat \<Rightarrow> uuid) \<Rightarrow> uuid \<Rightarrow> (string \<times> string) list \<Rightarrow> (string \<times> string) list \<Rightarrow> dict \<Rightarrow> bool \<Rightarrow> uuid
    \<Rightarrow> task list \<Rightarrow> nat list \<Rightarrow> task list" where
  "per_channel_tasks u job engines loaded tcfg align prep tasks [] = tasks"
| "per_channel_tasks u job engines loaded tcfg align prep tasks (ch # chs) =
     (let t = new_task (u (length tasks)) job (channel_stage ''transcribe'' ch)
                (engine_for engines ''transcribe'') [prep]
                (audio_input_binding (Some (int ch)))
                (dset ''channel'' (PInt (int ch)) tcfg) None DEFAULT_TASK_MAX_RETRIES True;
          tasks1 = tasks @ [t];
          a = new_task (u (length tasks1)) job (channel_stage ''align'' ch)
                (engine_for engines ''align'') [task_id t]
                (audio_input_binding (Some (int ch)))
                (with_loaded_model loaded ''align''
                  [(''word_timestamps'', PBool True), (''channel'', PInt (int ch))])
                None DEFAULT_TASK_MAX_RETRIES True
      in per_channel_tasks u job engines loaded tcfg align prep
           (if align then tasks1 @ [a] else tasks1) chs)"

definition prepare_config :: "string \<Rightarrow> string \<Rightarrow> dict" where
  "prepare_config raw_env mode =
     (if speech_regions_enabled raw_env then [(''detect_speech_regions'', PBool True)] else [])
     @ (if mode = ''per_channel'' then [(''split_channels'', PBool True)] else [])"

definition prepare_task ::
  "uuid \<Rightarrow> uuid \<Rightarrow> string \<Rightarrow> (string \<times> string) list \<Rightarrow> dict \<Rightarrow> task" where
  "prepare_task i job audio_uri engines config =
     new_task i job ''prepare'' (engine_for engines ''prepare'') [] [] config (Some audio_uri)
       DEFAULT_TASK_MAX_RETRIES True"

text \<open>The mono graph: \<open>prepare\<close>, \<open>transcribe\<close>, and \<open>align\<close> and \<open>diarize\<close> on demand.\<close>

definition mono_tasks ::
  "(nat \<Rightarrow> uuid) \<Rightarrow> uuid \<Rightarrow> (string \<times> string) list \<Rightarrow> (string \<times> string) list \<Rightarrow> dict \<Rightarrow> dict
    \<Rightarrow> bool \<Rightarrow> bool \<Rightarrow> task \<Rightarrow> task list" where
  "mono_tasks u job engines loaded tcfg dcfg align diarize prep =
     (let t = new_task (u 1) job ''transcribe'' (engine_for engines ''transcribe'')
                [task_id prep] (audio_input_binding None) tcfg None DEFAULT_TASK_MAX_RETRIES True;
          tasks1 = [prep, t];
          a = new_task (u (length tasks1)) job ''align'' (engine_for engines ''align'')
                [task_id t] (audio_input_binding None)
                (with_loaded_model loaded ''align'' [(''word_timestamps'', PBool True)])
                None DEFAULT_TASK_MAX_RETRIES True;
          tasks2 = (if align then tasks1 @ [a] else tasks1);
          d = create_diarize_task (u (length tasks2)) job engines dcfg loaded [task_id prep]
      in if diarize then tasks2 @ [d] else tasks2)"

section \<open>The graph\<close>

definition build_dag_with_engines ::
  "(nat \<Rightarrow> uuid) \<Rightarrow> string \<Rightarrow> uuid \<Rightarrow> string \<Rightarrow> dict \<Rightarrow> (string \<times> string) list \<Rightarrow> bool \<Rightarrow> bool
    \<Rightarrow> string option \<Rightarrow> (string \<times> string) list \<Rightarrow> exn + task list" where
  "build_dag_with_engines u raw_env job audio_uri p engines skip_alignment skip_diarization
      loaded_model_id stage_loaded =
     bind_res (requested_word_timestamps p) (\<lambda>words.
     bind_res (speaker_mode p) (\<lambda>mode.
     bind_res (diarize_config p) (\<lambda>dcfg.
       let loaded = (case loaded_model_id of
                       Some m \<Rightarrow> if dhas stage_loaded ''transcribe'' then stage_loaded
                                else dset ''transcribe'' m stage_loaded
                     | None \<Rightarrow> stage_loaded);
           align = (words \<and> \<not> skip_alignment)
       in bind_res (transcribe_config p loaded) (\<lambda>tcfg.
          let prep = prepare_task (u 0) job audio_uri engines (prepare_config raw_env mode)
          in if mode = ''per_channel''
             then bind_res (py_range (dget_or p ''num_channels'' (PInt 2))) (\<lambda>chs.
                    Inr (per_channel_tasks u job engines loaded tcfg align (task_id prep) [prep] chs))
             else Inr (mono_tasks u job engines loaded tcfg dcfg align
                         (mode = ''diarize'' \<and> \<not> skip_diarization) prep)))))"

text \<open>Tasks of an engine chosen with no live instance wait for the autoscaler.\<close>

definition mark_on_demand :: "string list \<Rightarrow> task \<Rightarrow> task" where
  "mark_on_demand eids t =
     (if task_engine_id t \<in> set eids
      then t\<lparr>task_config := dset ''_on_demand_wait'' (PBool True) (task_config t)\<rparr> else t)"

datatype dag_error = DagSelection sel_error | DagExn exn

definition dag_of_selection ::
  "(nat \<Rightarrow> uuid) \<Rightarrow> string \<Rightarrow> uuid \<Rightarrow> string \<Rightarrow> pipeline_selection \<Rightarrow> dag_error + task list" where
  "dag_of_selection u raw_env job audio_uri s =
     (let stages = sel_stages s;
          engines = map (\<lambda>(k, r). (k, sel_engine_id r)) stages;
          loaded = List.map_filter (\<lambda>(k, r). map_option (Pair k) (sel_loaded_model_id r)) stages;
          cold = map (sel_engine_id \<circ> snd) (filter (\<lambda>(k, r). sel_on_demand r) stages)
      in if \<not> dhas stages ''transcribe'' then Inl (DagExn (KeyError ''transcribe''))
         else (case build_dag_with_engines u raw_env job audio_uri (effective_parameters s) engines
                      (\<not> dhas stages ''align'') (\<not> dhas stages ''diarize'')
                      (dget loaded ''transcribe'') loaded of
                 Inl x \<Rightarrow> Inl (DagExn x)
               | Inr ts \<Rightarrow> Inr (map (mark_on_demand cold) ts)))"

definition build_task_dag ::
  "sel_env \<Rightarrow> (nat \<Rightarrow> uuid) \<Rightarrow> string \<Rightarrow> uuid \<Rightarrow> string \<Rightarrow> dict \<Rightarrow> dag_error + task list" where
  "build_task_dag env u raw_env job audio_uri p =
     (case select_pipeline_engines env p of
        Inl e \<Rightarrow> Inl (DagSelection e)
      | Inr s \<Rightarrow> dag_of_selection u raw_env job audio_uri s)"

end
