(* ===== verification/DagProps.thy ===== *)
theory DagProps
  imports Dag SelectorProps
begin

text \<open>
  The task graphs the builder makes: identifiers and stages are distinct, every dependency
  points at an earlier task, so the list order is a topological order; the stages and edges
  are exactly the pipeline's; and the graph agrees with the engine selection it came from.
\<close>

section \<open>Well-formed graphs\<close>

definition deps_earlier :: "task list \<Rightarrow> bool" where
  "deps_earlier ts \<longleftrightarrow>
     (\<forall>i < length ts. set (dependencies (ts ! i)) \<subseteq> task_id ` set (take i ts))"

definition wf_dag :: "task list \<Rightarrow> bool" where
  "wf_dag ts \<longleftrightarrow> distinct (map task_id ts) \<and> distinct (map task_stage ts) \<and> deps_earlier ts
     \<and> (\<forall>t \<in> set ts. task_state t = TPending \<and> retries t = 0
          \<and> max_retries t = DEFAULT_TASK_MAX_RETRIES \<and> task_required t)"

lemma deps_earlier_Nil [simp]: "deps_earlier []"
  by (simp add: deps_earlier_def)

lemma deps_earlier_snoc [simp]:
  "deps_earlier (ts @ [t]) \<longleftrightarrow> deps_earlier ts \<and> set (dependencies t) \<subseteq> task_id ` set ts"
  by (auto simp: deps_earlier_def nth_append less_Suc_eq)

lemma deps_earlier_snoc2 [simp]:
  "deps_earlier (ts @ [a, b]) \<longleftrightarrow> deps_earlier ts \<and> set (dependencies a) \<subseteq> task_id ` set ts
     \<and> set (dependencies b) \<subseteq> insert (task_id a) (task_id ` set ts)"
  using deps_earlier_snoc [of "ts @ [a]" b] by (simp add: insert_commute)

lemma deps_earlier_single [simp]: "deps_earlier [t] \<longleftrightarrow> dependencies t = []"
  using deps_earlier_snoc [of "[]" t] by simp

lemma new_task_simps [simp]:
  "task_id (new_task i job stage eng deps bindings config uri m req) = i"
  "task_job_id (new_task i job stage eng deps bindings config uri m req) = job"
  "task_stage (new_task i job stage eng deps bindings config uri m req) = stage"
  "task_engine_id (new_task i job stage eng deps bindings config uri m req) = eng"
  "task_state (new_task i job stage eng deps bindings config uri m req) = TPending"
  "dependencies (new_task i job stage eng deps bindings config uri m req) = deps"
  "input_bindings (new_task i job stage eng deps bindings config uri m req) = bindings"
  "task_config (new_task i job stage eng deps bindings config uri m req) = config"
  "retries (new_task i job stage eng deps bindings config uri m req) = 0"
  "max_retries (new_task i job stage eng deps bindings config uri m req) = m"
  "task_required (new_task i job stage eng deps bindings config uri m req) = req"
  by (simp_all add: new_task_def)

lemma mark_on_demand_simps [simp]:
  "task_id (mark_on_demand cold t) = task_id t"
  "task_stage (mark_on_demand cold t) = task_stage t"
  "task_state (mark_on_demand cold t) = task_state t"
  "task_engine_id (mark_on_demand cold t) = task_engine_id t"
  "dependencies (mark_on_demand cold t) = dependencies t"
  "input_bindings (mark_on_demand cold t) = input_bindings t"
  "retries (mark_on_demand cold t) = retries t"
  "max_retries (mark_on_demand cold t) = max_retries t"
  "task_required (mark_on_demand cold t) = task_required t"
  by (simp_all add: mark_on_demand_def)

lemma deps_earlier_mark [simp]: "deps_earlier (map (mark_on_demand cold) ts) = deps_earlier ts"
  by (simp add: deps_earlier_def take_map image_image)

lemma wf_dag_mark [simp]: "wf_dag (map (mark_on_demand cold) ts) = wf_dag ts"
  by (simp add: wf_dag_def comp_def)

lemma stages_mark [simp]: "map task_stage (map (mark_on_demand cold) ts) = map task_stage ts"
  by simp

section \<open>The channel loop\<close>

definition channel_stages :: "bool \<Rightarrow> nat \<Rightarrow> string list" where
  "channel_stages align ch =
     channel_stage ''transcribe'' ch # (if align then [channel_stage ''align'' ch] else [])"

lemma channel_stage_inject [simp]:
  "channel_stage base a = channel_stage base b \<longleftrightarrow> a = b"
  by (simp add: channel_stage_def)

lemma channel_stage_bases [simp]:
  "channel_stage ''transcribe'' a \<noteq> channel_stage ''align'' b"
  "channel_stage ''align'' b \<noteq> channel_stage ''transcribe'' a"
  "channel_stage ''transcribe'' a \<noteq> ''prepare''" "channel_stage ''align'' a \<noteq> ''prepare''"
  "''prepare'' \<noteq> channel_stage ''transcribe'' a" "''prepare'' \<noteq> channel_stage ''align'' a"
  by (simp_all add: channel_stage_def)

lemma per_channel_stages:
  "map task_stage (per_channel_tasks u job engines loaded tcfg align prep tasks chs)
     = map task_stage tasks @ concat (map (channel_stages align) chs)"
  by (induction chs arbitrary: tasks) (auto simp: Let_def channel_stages_def)

lemma per_channel_ids:
  "map task_id tasks = map u [0..<length tasks] \<Longrightarrow>
   map task_id (per_channel_tasks u job engines loaded tcfg align prep tasks chs)
     = map u [0..<length (per_channel_tasks u job engines loaded tcfg align prep tasks chs)]"
  by (induction chs arbitrary: tasks) (auto simp: Let_def)

lemma per_channel_deps:
  "deps_earlier tasks \<Longrightarrow> prep \<in> task_id ` set tasks \<Longrightarrow>
   deps_earlier (per_channel_tasks u job engines loaded tcfg align prep tasks chs)"
proof (induction chs arbitrary: tasks)
  case Nil
  then show ?case by simp
next
  case (Cons ch chs)
  show ?case unfolding per_channel_tasks.simps Let_def
    by (rule Cons.IH) (use Cons.prems in auto)
qed

lemma per_channel_tasks_all:
  assumes "\<forall>t \<in> set tasks. P t"
    and "\<And>i stage eng deps b c. P (new_task i job stage eng deps b c None DEFAULT_TASK_MAX_RETRIES True)"
  shows "\<forall>t \<in> set (per_channel_tasks u job engines loaded tcfg align prep tasks chs). P t"
  using assms(1)
proof (induction chs arbitrary: tasks)
  case Nil
  then show ?case by simp
next
  case (Cons ch chs)
  show ?case unfolding per_channel_tasks.simps Let_def
    by (rule Cons.IH) (use Cons.prems assms(2) in auto)
qed

lemma distinct_channel_stages:
  "distinct chs \<Longrightarrow> distinct (''prepare'' # concat (map (channel_stages align) chs))"
proof (induction chs)
  case Nil
  then show ?case by simp
next
  case (Cons ch chs)
  then show ?case by (auto simp: channel_stages_def split: if_splits)
qed

section \<open>Every graph is well formed\<close>

definition graph_stages :: "string \<Rightarrow> bool \<Rightarrow> bool \<Rightarrow> nat list \<Rightarrow> string list" where
  "graph_stages mode align diarize chs =
     (if mode = ''per_channel''
      then ''prepare'' # concat (map (channel_stages align) chs)
      else [''prepare'', ''transcribe''] @ (if align then [''align''] else [])
           @ (if diarize then [''diarize''] else []))"

lemma build_dag_cases:
  assumes "build_dag_with_engines u raw_env job uri p engines skip_a skip_d m loaded = Inr ts"
  obtains words mode dcfg loaded' tcfg chs where
    "requested_word_timestamps p = Inr words" "speaker_mode p = Inr mode"
    "diarize_config p = Inr dcfg" "transcribe_config p loaded' = Inr tcfg" "distinct chs"
    "mode = ''per_channel'' \<Longrightarrow> py_range (dget_or p ''num_channels'' (PInt 2)) = Inr chs"
    "ts = (if mode = ''per_channel''
           then per_channel_tasks u job engines loaded' tcfg (words \<and> \<not> skip_a) (u 0)
                  [prepare_task (u 0) job uri engines (prepare_config raw_env mode)] chs
           else mono_tasks u job engines loaded' tcfg dcfg (words \<and> \<not> skip_a)
                  (mode = ''diarize'' \<and> \<not> skip_d)
                  (prepare_task (u 0) job uri engines (prepare_config raw_env mode)))"
proof -
  obtain words where w: "requested_word_timestamps p = Inr words"
    using assms by (auto simp: build_dag_with_engines_def bind_res_Inr)
  obtain mode where mo: "speaker_mode p = Inr mode"
    using assms w by (auto simp: build_dag_with_engines_def bind_res_Inr)
  obtain dcfg where d: "diarize_config p = Inr dcfg"
    using assms w mo by (auto simp: build_dag_with_engines_def bind_res_Inr)
  define loaded' where "loaded' = (case m of
      Some i \<Rightarrow> if dhas loaded ''transcribe'' then loaded else dset ''transcribe'' i loaded
    | None \<Rightarrow> loaded)"
  have eq: "bind_res (transcribe_config p loaded') (\<lambda>tcfg.
      let prep = prepare_task (u 0) job uri engines (prepare_config raw_env mode)
      in if mode = ''per_channel''
         then bind_res (py_range (dget_or p ''num_channels'' (PInt 2))) (\<lambda>chs.
                Inr (per_channel_tasks u job engines loaded' tcfg (words \<and> \<not> skip_a) (task_id prep) [prep] chs))
         else Inr (mono_tasks u job engines loaded' tcfg dcfg (words \<and> \<not> skip_a)
                     (mode = ''diarize'' \<and> \<not> skip_d) prep)) = Inr ts"
    using assms by (simp only: build_dag_with_engines_def w mo d bind_res.simps Let_def loaded'_def)
  then obtain tcfg where t: "transcribe_config p loaded' = Inr tcfg"
    by (auto simp: bind_res_Inr)
  have prep: "task_id (prepare_task (u 0) job uri engines c) = u 0" for c
    by (simp add: prepare_task_def)
  show ?thesis
  proof (cases "mode = ''per_channel''")
    case True
    then obtain chs where c: "py_range (dget_or p ''num_channels'' (PInt 2)) = Inr chs"
        "per_channel_tasks u job engines loaded' tcfg (words \<and> \<not> skip_a) (u 0)
           [prepare_task (u 0) job uri engines (prepare_config raw_env mode)] chs = ts"
      using eq t prep by (auto simp: bind_res_Inr Let_def)
    have "distinct chs" using c(1) by (cases "dget_or p ''num_channels'' (PInt 2)") auto
    then show ?thesis using that w mo d t c True by simp
  next
    case False
    then show ?thesis using that [of words mode dcfg loaded' tcfg "[]"] w mo d t eq
      by (simp add: Let_def)
  qed
qed

lemma mono_tasks_wf:
  assumes "inj u" and "prep = prepare_task (u 0) job uri engines c"
  shows "wf_dag (mono_tasks u job engines loaded tcfg dcfg align diarize prep)"
proof -
  have ne: "u i \<noteq> u j" if "i \<noteq> j" for i j using assms(1) that by (meson injD)
  show ?thesis
    unfolding wf_dag_def assms(2)
    by (auto simp: mono_tasks_def prepare_task_def create_diarize_task_def Let_def ne
        deps_earlier_def less_Suc_eq nth_Cons')
qed

lemma per_channel_wf:
  assumes "inj u" and "distinct chs" and "prep = prepare_task (u 0) job uri engines c"
  shows "wf_dag (per_channel_tasks u job engines loaded tcfg align (u 0) [prep] chs)"
proof -
  let ?ts = "per_channel_tasks u job engines loaded tcfg align (u 0) [prep] chs"
  have p: "task_id prep = u 0" "dependencies prep = []" "task_stage prep = ''prepare''"
    using assms(3) by (auto simp: prepare_task_def)
  have "map task_id ?ts = map u [0..<length ?ts]"
    by (rule per_channel_ids) (simp add: p)
  then have "distinct (map task_id ?ts)"
    using inj_on_subset [OF assms(1) subset_UNIV] by (simp add: distinct_map)
  moreover have "distinct (map task_stage ?ts)"
    using distinct_channel_stages [OF assms(2)] by (simp add: per_channel_stages p)
  moreover have "deps_earlier ?ts" by (rule per_channel_deps) (simp_all add: p)
  moreover have "\<forall>t \<in> set ?ts. task_state t = TPending \<and> retries t = 0
          \<and> max_retries t = DEFAULT_TASK_MAX_RETRIES \<and> task_required t"
    by (rule per_channel_tasks_all) (use assms(3) in \<open>auto simp: prepare_task_def\<close>)
  ultimately show ?thesis by (simp add: wf_dag_def)
qed

lemma dag_wf:
  assumes "inj u"
    and "build_dag_with_engines u raw_env job uri p engines skip_a skip_d m loaded = Inr ts"
  shows "wf_dag ts"
  using assms(2)
proof (rule build_dag_cases)
  fix words mode dcfg loaded' tcfg chs
  assume "distinct chs"
    and "ts = (if mode = ''per_channel''
           then per_channel_tasks u job engines loaded' tcfg (words \<and> \<not> skip_a) (u 0)
                  [prepare_task (u 0) job uri engines (prepare_config raw_env mode)] chs
           else mono_tasks u job engines loaded' tcfg dcfg (words \<and> \<not> skip_a)
                  (mode = ''diarize'' \<and> \<not> skip_d)
                  (prepare_task (u 0) job uri engines (prepare_config raw_env mode)))"
  then show "wf_dag ts"
    using mono_tasks_wf [OF assms(1) refl] per_channel_wf [OF assms(1) _ refl] by simp
qed

text \<open>C3: every graph the builder returns is well formed: task identifiers are distinct (given that
  the drawn identifiers are), no stage occurs twice (the database's uniqueness
  constraint), each dependency is an earlier task of the list, so the graph is acyclic and
  the list a topological order, and every task starts pending, required and unretried.\<close>

theorem build_dag_wf:
  assumes "inj u"
    and "build_dag_with_engines u raw_env job uri p engines skip_a skip_d m loaded = Inr ts"
  shows "wf_dag ts"
  using assms by (rule dag_wf)

definition demo_dag :: "dict \<Rightarrow> task list" where
  "demo_dag p = (case build_dag_with_engines id [] 7 ''s3'' p [] False False None [] of
     Inr ts \<Rightarrow> ts | Inl _ \<Rightarrow> [])"

lemma demo_dag_stages: "map task_stage (demo_dag []) = [''prepare'', ''transcribe'', ''align'']"
  by code_simp

lemma demo_graph:
  "build_dag_with_engines id [] 7 ''s3'' [] [] False False None [] = Inr (demo_dag [])"
  using demo_dag_stages by (auto simp: demo_dag_def split: sum.splits)

theorem build_dag_wf_witness: "length (demo_dag []) = 3 \<and> wf_dag (demo_dag [])"
proof
  show "length (demo_dag []) = 3" using arg_cong [OF demo_dag_stages, of length] by simp
  show "wf_dag (demo_dag [])" by (rule build_dag_wf [OF inj_on_id demo_graph])
qed

section \<open>Stages and edges\<close>

lemma dag_stages:
  assumes "build_dag_with_engines u raw_env job uri p engines skip_a skip_d m loaded = Inr ts"
    and "requested_word_timestamps p = Inr words" and "speaker_mode p = Inr mode"
  shows "\<exists>chs. map task_stage ts =
      graph_stages mode (words \<and> \<not> skip_a) (mode = ''diarize'' \<and> \<not> skip_d) chs
    \<and> (mode = ''per_channel'' \<longrightarrow> py_range (dget_or p ''num_channels'' (PInt 2)) = Inr chs)"
  using assms(1)
proof (rule build_dag_cases)
  fix w mo dcfg loaded' tcfg chs
  assume w: "requested_word_timestamps p = Inr w" and mo: "speaker_mode p = Inr mo"
    and c: "mo = ''per_channel'' \<Longrightarrow> py_range (dget_or p ''num_channels'' (PInt 2)) = Inr chs"
    and ts: "ts = (if mo = ''per_channel''
           then per_channel_tasks u job engines loaded' tcfg (w \<and> \<not> skip_a) (u 0)
                  [prepare_task (u 0) job uri engines (prepare_config raw_env mo)] chs
           else mono_tasks u job engines loaded' tcfg dcfg (w \<and> \<not> skip_a)
                  (mo = ''diarize'' \<and> \<not> skip_d)
                  (prepare_task (u 0) job uri engines (prepare_config raw_env mo)))"
  have eq: "w = words" "mo = mode" using w mo assms(2,3) by simp_all
  have "map task_stage ts =
      graph_stages mode (words \<and> \<not> skip_a) (mode = ''diarize'' \<and> \<not> skip_d) chs"
    unfolding ts eq
    by (simp add: graph_stages_def per_channel_stages)
      (simp add: prepare_task_def mono_tasks_def create_diarize_task_def Let_def)
  then show ?thesis using c eq by blast
qed

text \<open>The stages of a graph are decided by the request alone: the channel loop or the mono
  pipeline, with \<open>align\<close> exactly when word timestamps are wanted and not skipped, and
  \<open>diarize\<close> exactly when that mode was asked for and not skipped.\<close>

lemma build_dag_stages:
  assumes "build_dag_with_engines u raw_env job uri p engines skip_a skip_d m loaded = Inr ts"
    and "requested_word_timestamps p = Inr words" and "speaker_mode p = Inr mode"
  shows "\<exists>chs. map task_stage ts =
      graph_stages mode (words \<and> \<not> skip_a) (mode = ''diarize'' \<and> \<not> skip_d) chs
    \<and> (mode = ''per_channel'' \<longrightarrow> py_range (dget_or p ''num_channels'' (PInt 2)) = Inr chs)"
  using assms by (rule dag_stages)

lemma build_dag_stages_example:
  "map task_stage (demo_dag []) = graph_stages ''none'' True False []"
proof -
  have "requested_word_timestamps [] = Inr True" "speaker_mode [] = Inr ''none''"
    by code_simp+
  from build_dag_stages [OF demo_graph this] show ?thesis by (auto simp: graph_stages_def)
qed

text \<open>
  Where a task stands: its pipeline stage \<open>base\<close>, in the mono graph or in a channel, its
  engine, and the task it waits for (none for \<open>prepare\<close>).
\<close>

definition stage_at :: "string \<Rightarrow> nat option \<Rightarrow> string" where
  "stage_at base ch = (case ch of None \<Rightarrow> base | Some c \<Rightarrow> channel_stage base c)"

definition placed :: "(string \<times> string) list \<Rightarrow> task list \<Rightarrow> uuid \<Rightarrow> task \<Rightarrow> bool" where
  "placed engines ts prep t \<longleftrightarrow>
     (task_stage t = ''prepare'' \<and> dependencies t = [] \<and> task_id t = prep
        \<and> task_engine_id t = engine_for engines ''prepare'')
   \<or> (\<exists>ch. task_stage t = stage_at ''transcribe'' ch \<and> dependencies t = [prep]
        \<and> task_engine_id t = engine_for engines ''transcribe'')
   \<or> (\<exists>ch. task_stage t = stage_at ''align'' ch
        \<and> (\<exists>s \<in> set ts. task_stage s = stage_at ''transcribe'' ch \<and> dependencies t = [task_id s])
        \<and> task_engine_id t = engine_for engines ''align'')
   \<or> (task_stage t = ''diarize'' \<and> dependencies t = [prep]
        \<and> task_engine_id t = engine_for engines ''diarize'')"

lemma placed_mono: "placed engines ts prep t \<Longrightarrow> set ts \<subseteq> set ts' \<Longrightarrow> placed engines ts' prep t"
  unfolding placed_def by blast

lemma placed_transcribe:
  "placed engines ts prep (new_task i job (channel_stage ''transcribe'' ch)
     (engine_for engines ''transcribe'') [prep] b c uri n r)"
  by (auto simp: placed_def stage_at_def intro!: exI [of _ "Some ch"])

lemma placed_align:
  "t \<in> set ts \<Longrightarrow> task_stage t = channel_stage ''transcribe'' ch \<Longrightarrow> task_id t = k \<Longrightarrow>
   placed engines ts prep (new_task i job (channel_stage ''align'' ch)
     (engine_for engines ''align'') [k] b c uri n r)"
  unfolding placed_def by (intro disjI2 disjI1 exI [of _ "Some ch"]) (auto simp: stage_at_def)

lemma per_channel_placed:
  assumes "\<forall>t \<in> set tasks. placed engines tasks prep t"
  shows "\<forall>t \<in> set (per_channel_tasks u job engines loaded tcfg align prep tasks chs).
     placed engines (per_channel_tasks u job engines loaded tcfg align prep tasks chs) prep t"
  using assms
proof (induction chs arbitrary: tasks)
  case Nil
  then show ?case by simp
next
  case (Cons ch chs)
  show ?case unfolding per_channel_tasks.simps Let_def
    by (rule Cons.IH)
      (use Cons.prems in \<open>auto intro: placed_transcribe placed_align [OF _ new_task_simps(3) new_task_simps(1)]
          elim!: placed_mono\<close>)
qed

lemma mono_placed:
  assumes "prep = prepare_task (u 0) job uri engines c"
  shows "\<forall>t \<in> set (mono_tasks u job engines loaded tcfg dcfg align diarize prep).
     placed engines (mono_tasks u job engines loaded tcfg dcfg align diarize prep) (u 0) t"
  unfolding assms
  by (auto simp: mono_tasks_def prepare_task_def create_diarize_task_def Let_def placed_def stage_at_def
      intro: exI [of _ None])

lemma build_dag_placed:
  assumes "build_dag_with_engines u raw_env job uri p engines skip_a skip_d m loaded = Inr ts"
  shows "\<forall>t \<in> set ts. placed engines ts (u 0) t"
  using assms
proof (rule build_dag_cases)
  fix words mode dcfg loaded' tcfg chs
  let ?prep = "prepare_task (u 0) job uri engines (prepare_config raw_env mode)"
  assume ts: "ts = (if mode = ''per_channel''
           then per_channel_tasks u job engines loaded' tcfg (words \<and> \<not> skip_a) (u 0) [?prep] chs
           else mono_tasks u job engines loaded' tcfg dcfg (words \<and> \<not> skip_a)
                  (mode = ''diarize'' \<and> \<not> skip_d) ?prep)"
  have "\<forall>t \<in> set [?prep]. placed engines [?prep] (u 0) t"
    by (simp add: placed_def prepare_task_def)
  from per_channel_placed [OF this] mono_placed [OF refl] show ?thesis
    unfolding ts by (simp only: split: if_split) blast
qed

text \<open>C4: the edges are the pipeline's: \<open>prepare\<close> waits for nothing; every transcription waits for
  \<open>prepare\<close> only; each alignment waits for exactly the transcription of its own channel (or
  the only one); \<open>diarize\<close> waits for \<open>prepare\<close> only, so it runs in parallel with
  transcription. Each task runs on the engine named for its stage.\<close>

theorem build_dag_wiring:
  assumes "build_dag_with_engines u raw_env job uri p engines skip_a skip_d m loaded = Inr ts"
    and "t \<in> set ts"
  shows "(task_stage t = ''prepare'' \<and> dependencies t = [] \<and> task_id t = u 0
            \<and> task_engine_id t = engine_for engines ''prepare'')
       \<or> (\<exists>ch. task_stage t = stage_at ''transcribe'' ch \<and> dependencies t = [u 0]
            \<and> task_engine_id t = engine_for engines ''transcribe'')
       \<or> (\<exists>ch. task_stage t = stage_at ''align'' ch
            \<and> (\<exists>s \<in> set ts. task_stage s = stage_at ''transcribe'' ch \<and> dependencies t = [task_id s])
            \<and> task_engine_id t = engine_for engines ''align'')
       \<or> (task_stage t = ''diarize'' \<and> dependencies t = [u 0]
            \<and> task_engine_id t = engine_for engines ''diarize'')"
  using build_dag_placed [OF assms(1)] assms(2) unfolding placed_def by blast

theorem build_dag_wiring_witness:
  "\<exists>s \<in> set (demo_dag []). dependencies (demo_dag [] ! 2) = [task_id s]
     \<and> task_stage s = ''transcribe''"
proof -
  have len: "length (demo_dag []) = 3" using arg_cong [OF demo_dag_stages, of length] by simp
  then have "demo_dag [] ! 2 \<in> set (demo_dag [])" by simp
  moreover have "task_stage (demo_dag [] ! 2) = ''align''"
    using arg_cong [OF demo_dag_stages, of "\<lambda>l. l ! 2"] len by simp
  ultimately show ?thesis
    using build_dag_wiring [OF demo_graph, of "demo_dag [] ! 2"]
    by (auto simp: stage_at_def channel_stage_def split: option.splits)
qed

section \<open>The graph and the selection it comes from\<close>

lemma dget_map_snd: "dget (map (\<lambda>(k, r). (k, f r)) d) k = map_option f (dget d k)"
  by (induction d) auto

lemma dhas_dget: "dhas d k \<longleftrightarrow> (\<exists>v. dget d k = Some v)"
  by (auto simp: dhas_def)

lemma graph_stages_align:
  "stage_at ''align'' ch \<in> set (graph_stages mode align diarize chs) \<Longrightarrow> align"
  by (auto simp: graph_stages_def stage_at_def channel_stages_def channel_stage_def
      split: option.splits if_splits)

lemma graph_stages_diarize:
  "''diarize'' \<in> set (graph_stages mode align diarize chs) \<Longrightarrow> diarize"
  by (auto simp: graph_stages_def channel_stages_def channel_stage_def split: if_splits)

lemma dag_of_selection_Inr:
  assumes "dag_of_selection u raw_env job uri s = Inr ts"
  obtains ts0 where
    "dhas (sel_stages s) ''transcribe''"
    "build_dag_with_engines u raw_env job uri (effective_parameters s)
       (map (\<lambda>(k, r). (k, sel_engine_id r)) (sel_stages s))
       (\<not> dhas (sel_stages s) ''align'') (\<not> dhas (sel_stages s) ''diarize'')
       (dget (List.map_filter (\<lambda>(k, r). map_option (Pair k) (sel_loaded_model_id r)) (sel_stages s)) ''transcribe'')
       (List.map_filter (\<lambda>(k, r). map_option (Pair k) (sel_loaded_model_id r)) (sel_stages s)) = Inr ts0"
    "ts = map (mark_on_demand (map (sel_engine_id \<circ> snd) (filter (\<lambda>(k, r). sel_on_demand r) (sel_stages s)))) ts0"
  using assms by (auto simp: dag_of_selection_def Let_def split: if_splits sum.splits)

lemma requested_wordsE:
  assumes "build_dag_with_engines u raw_env job uri p engines skip_a skip_d m loaded = Inr ts"
  obtains words mode where "requested_word_timestamps p = Inr words" "speaker_mode p = Inr mode"
  using assms by (rule build_dag_cases)

lemma dag_of_selection_engines:
  assumes "dag_of_selection u raw_env job uri s = Inr ts" and "dhas (sel_stages s) ''prepare''"
    and "t \<in> set ts"
  shows "\<exists>base ch r. task_stage t = stage_at base ch \<and> dget (sel_stages s) base = Some r
     \<and> task_engine_id t = sel_engine_id r
     \<and> (sel_on_demand r \<longrightarrow> dget (task_config t) ''_on_demand_wait'' = Some (PBool True))"
proof -
  let ?engines = "map (\<lambda>(k, r). (k, sel_engine_id r)) (sel_stages s)"
  let ?cold = "map (sel_engine_id \<circ> snd) (filter (\<lambda>(k, r). sel_on_demand r) (sel_stages s))"
  obtain ts0 where tr: "dhas (sel_stages s) ''transcribe''"
    and b: "build_dag_with_engines u raw_env job uri (effective_parameters s) ?engines
       (\<not> dhas (sel_stages s) ''align'') (\<not> dhas (sel_stages s) ''diarize'')
       (dget (List.map_filter (\<lambda>(k, r). map_option (Pair k) (sel_loaded_model_id r)) (sel_stages s)) ''transcribe'')
       (List.map_filter (\<lambda>(k, r). map_option (Pair k) (sel_loaded_model_id r)) (sel_stages s)) = Inr ts0"
    and ts: "ts = map (mark_on_demand ?cold) ts0"
    using dag_of_selection_Inr [OF assms(1)] by metis
  obtain t0 where t0: "t0 \<in> set ts0" "t = mark_on_demand ?cold t0" using assms(3) ts by auto
  obtain words mode where wm: "requested_word_timestamps (effective_parameters s) = Inr words"
      "speaker_mode (effective_parameters s) = Inr mode"
    using requested_wordsE [OF b] .
  obtain chs where st: "map task_stage ts0 = graph_stages mode (words \<and> dhas (sel_stages s) ''align'')
      (mode = ''diarize'' \<and> dhas (sel_stages s) ''diarize'') chs"
    using dag_stages [OF b wm] by auto
  have mem: "task_stage t0 \<in> set (graph_stages mode (words \<and> dhas (sel_stages s) ''align'')
      (mode = ''diarize'' \<and> dhas (sel_stages s) ''diarize'') chs)"
    using t0(1) by (metis st image_eqI set_map)
  have "\<exists>base ch. task_stage t0 = stage_at base ch \<and> dhas (sel_stages s) base
      \<and> task_engine_id t0 = engine_for ?engines base"
    using bspec [OF build_dag_placed [OF b] t0(1)] unfolding placed_def
  proof (elim disjE exE conjE)
    fix ch assume "task_stage t0 = stage_at ''align'' ch"
      and e: "task_engine_id t0 = engine_for ?engines ''align''"
    then show ?thesis using graph_stages_align mem by metis
  next
    assume d: "task_stage t0 = ''diarize''" and e: "task_engine_id t0 = engine_for ?engines ''diarize''"
    then have "dhas (sel_stages s) ''diarize''" using graph_stages_diarize mem by metis
    then show ?thesis using d e by (intro exI [of _ "''diarize''"] exI [of _ None]) (simp add: stage_at_def)
  next
    assume d: "task_stage t0 = ''prepare''" and e: "task_engine_id t0 = engine_for ?engines ''prepare''"
    then show ?thesis using assms(2)
      by (intro exI [of _ "''prepare''"] exI [of _ None]) (simp add: stage_at_def)
  qed (use tr in blast)
  then obtain base ch r where b: "task_stage t0 = stage_at base ch" "dget (sel_stages s) base = Some r"
      "task_engine_id t0 = sel_engine_id r"
    by (auto simp: dhas_dget engine_for_def dget_or_def dget_map_snd)
  have "sel_engine_id r \<in> set ?cold" if "sel_on_demand r"
    using b(2) that by (force simp: dget_def dest: map_of_SomeD)
  then show ?thesis using b t0(2) by (auto simp: mark_on_demand_def)
qed

lemma build_task_dag_Inr:
  assumes "build_task_dag env u raw_env job uri p = Inr ts"
  obtains s t where "select_pipeline_engines env p = Inr s"
    "dag_of_selection u raw_env job uri s = Inr ts"
    "pipeline_ok env p s" "transcribe_selection s = Some t" "dhas (sel_stages s) ''prepare''"
proof -
  obtain s where s: "select_pipeline_engines env p = Inr s" "dag_of_selection u raw_env job uri s = Inr ts"
    using assms by (auto simp: build_task_dag_def split: sum.splits)
  then show ?thesis using that pipeline_selection_ok [OF s(1)] unfolding pipeline_ok_def by blast
qed

lemma build_task_dag_wf:
  assumes "inj u" and "build_task_dag env u raw_env job uri p = Inr ts"
  shows "wf_dag ts"
  using build_task_dag_Inr [OF assms(2)] dag_of_selection_Inr dag_wf [OF assms(1)] wf_dag_mark
  by metis

text \<open>Identifiers are drawn from \<open>u\<close>, and every task belongs to the job.\<close>

definition drawn :: "(nat \<Rightarrow> uuid) \<Rightarrow> uuid \<Rightarrow> task \<Rightarrow> bool" where
  "drawn u job t \<longleftrightarrow> task_id t \<in> range u \<and> task_job_id t = job"

lemma per_channel_drawn:
  "\<forall>t \<in> set tasks. drawn u job t \<Longrightarrow>
   \<forall>t \<in> set (per_channel_tasks u job engines loaded tcfg align prep tasks chs). drawn u job t"
proof (induction chs arbitrary: tasks)
  case Nil
  then show ?case by simp
next
  case (Cons ch chs)
  show ?case unfolding per_channel_tasks.simps Let_def
    by (rule Cons.IH) (use Cons.prems in \<open>auto simp: drawn_def\<close>)
qed

lemma build_dag_drawn:
  assumes "build_dag_with_engines u raw_env job uri p engines skip_a skip_d m loaded = Inr ts"
  shows "\<forall>t \<in> set ts. drawn u job t"
  using assms
proof (rule build_dag_cases)
  fix words mode dcfg loaded' tcfg chs
  let ?prep = "prepare_task (u 0) job uri engines (prepare_config raw_env mode)"
  assume ts: "ts = (if mode = ''per_channel''
           then per_channel_tasks u job engines loaded' tcfg (words \<and> \<not> skip_a) (u 0) [?prep] chs
           else mono_tasks u job engines loaded' tcfg dcfg (words \<and> \<not> skip_a)
                  (mode = ''diarize'' \<and> \<not> skip_d) ?prep)"
  have "\<forall>t \<in> set [?prep]. drawn u job t" by (simp add: drawn_def prepare_task_def)
  from per_channel_drawn [OF this] show ?thesis
    unfolding ts by (auto simp: mono_tasks_def create_diarize_task_def prepare_task_def Let_def drawn_def)
qed

lemma build_task_dag_drawn:
  assumes "build_task_dag env u raw_env job uri p = Inr ts"
  shows "\<forall>t \<in> set ts. drawn u job t"
proof -
  obtain s where "dag_of_selection u raw_env job uri s = Inr ts"
    using build_task_dag_Inr [OF assms] by metis
  then show ?thesis
    by (rule dag_of_selection_Inr) (auto dest!: build_dag_drawn simp: drawn_def mark_on_demand_def)
qed

text \<open>C5: the graph of a job agrees with its engine selection. Every task, on whatever channel, runs on
  the engine that was selected for its stage (never on a built-in default), that engine can
  be served, and a task of an engine chosen with no live instance carries the marker that
  makes the scheduler wait for one; and the graph is well formed.\<close>

theorem build_task_dag_engines:
  assumes "inj u" and "build_task_dag env u raw_env job uri p = Inr ts"
  shows "wf_dag ts \<and> (\<exists>s. select_pipeline_engines env p = Inr s \<and> (\<forall>t \<in> set ts.
     \<exists>base ch r. task_stage t = stage_at base ch \<and> dget (sel_stages s) base = Some r
       \<and> task_engine_id t = sel_engine_id r \<and> served env r
       \<and> (sel_on_demand r \<longrightarrow> dget (task_config t) ''_on_demand_wait'' = Some (PBool True))))"
proof -
  obtain s where s: "select_pipeline_engines env p = Inr s"
    "dag_of_selection u raw_env job uri s = Inr ts"
    "pipeline_ok env p s" "dhas (sel_stages s) ''prepare''"
    using build_task_dag_Inr [OF assms(2)] by metis
  have "wf_dag ts" by (rule build_task_dag_wf [OF assms])
  moreover have "\<forall>stage r. dget (sel_stages s) stage = Some r \<longrightarrow> served env r"
    using s(3) unfolding pipeline_ok_def by blast
  ultimately show ?thesis using s(1) dag_of_selection_engines [OF s(2,4)] by meson
qed

definition demo_job_dag :: "dict \<Rightarrow> task list" where
  "demo_job_dag p = (case build_task_dag (demo_env None) id [] 7 ''s3'' p of Inr ts \<Rightarrow> ts | Inl _ \<Rightarrow> [])"

lemma demo_pipeline:
  "select_pipeline_engines (demo_env None) [] =
     Inr \<lparr>sel_stages = [(''prepare'', demo_selection ''prep'' ''prepare'' ''only capable engine'' None),
       (''transcribe'', demo_selection ''nemo'' ''transcribe'' ''only capable engine'' None)],
       effective_parameters = []\<rparr>"
proof -
  have "extract_requirements [] = Inr no_requirements"
    by (simp add: extract_requirements_def truthy_opt_def no_requirements_def)
  then show ?thesis
    by (simp add: select_pipeline_engines_def select_stage_def preference_def bind_res.simps
        demo_select_prepare demo_select_transcribe transcribe_selection_def dset_def
        should_add_alignment_def should_add_diarization_def truthy_opt_def dget_or_def)
      (simp add: demo_selection_def)
qed

lemma demo_job_stages:
  "map task_stage (case dag_of_selection id [] 7 ''s3''
     \<lparr>sel_stages = [(''prepare'', demo_selection ''prep'' ''prepare'' ''only capable engine'' None),
       (''transcribe'', demo_selection ''nemo'' ''transcribe'' ''only capable engine'' None)],
       effective_parameters = []\<rparr> of Inr ts \<Rightarrow> ts | Inl _ \<Rightarrow> []) = [''prepare'', ''transcribe'']"
  by code_simp

lemma demo_job_graph:
  "build_task_dag (demo_env None) id [] 7 ''s3'' [] = Inr (demo_job_dag [])"
  "map task_stage (demo_job_dag []) = [''prepare'', ''transcribe'']"
  using demo_job_stages
  by (auto simp: demo_job_dag_def build_task_dag_def demo_pipeline split: sum.splits)

theorem build_task_dag_engines_witness:
  "wf_dag (demo_job_dag []) \<and> map task_stage (demo_job_dag []) = [''prepare'', ''transcribe'']"
  using build_task_dag_engines [OF inj_on_id demo_job_graph(1)] demo_job_graph(2) by blast

lemma speaker_mode_degraded [simp]: "speaker_mode (degraded_parameters p) = speaker_mode p"
  by (simp add: speaker_mode_def dget_or_def degraded_parameters_dget)

lemma pipeline_ok_words:
  assumes "pipeline_ok env p s" and "dhas (sel_stages s) ''align''"
    and "requested_word_timestamps (effective_parameters s) = Inr words"
  shows words
proof -
  obtain t where "should_add_alignment p t" "effective_parameters s = p"
    using assms(1,2) unfolding pipeline_ok_def by (auto split: if_splits)
  then show ?thesis using assms(3)
    by (auto simp: should_add_alignment_def requested_word_timestamps_def in_str_set_def
        bind_res.simps split: option.splits if_splits)
qed

lemma pipeline_ok_mode:
  assumes "pipeline_ok env p s" and "dhas (sel_stages s) ''diarize''"
  shows "speaker_mode (effective_parameters s) = Inr ''diarize''"
proof -
  obtain t where t: "should_add_diarization p t"
    and e: "effective_parameters s \<in> {p, degraded_parameters p}"
    using assms unfolding pipeline_ok_def by (auto split: if_splits)
  have "speaker_mode p = Inr ''diarize''"
    using t by (simp add: speaker_mode_def should_add_diarization_def in_str_set_def
        VALID_SPEAKER_DETECTION_MODES_def bind_res.simps)
  then show ?thesis using e by auto
qed

text \<open>Without channel splitting, the stages of the graph are exactly the selected stages among
  \<open>prepare\<close>, \<open>transcribe\<close>, \<open>align\<close> and \<open>diarize\<close>, in that order: nothing selected is
  dropped and nothing unselected is added.\<close>

lemma build_task_dag_mono_stages:
  assumes "build_task_dag env u raw_env job uri p = Inr ts"
    and "speaker_mode p \<noteq> Inr ''per_channel''"
  shows "\<exists>s. select_pipeline_engines env p = Inr s \<and>
     map task_stage ts = filter (dhas (sel_stages s)) [''prepare'', ''transcribe'', ''align'', ''diarize'']"
proof -
  obtain s where s: "select_pipeline_engines env p = Inr s"
    "dag_of_selection u raw_env job uri s = Inr ts"
    "pipeline_ok env p s" "dhas (sel_stages s) ''prepare''"
    using build_task_dag_Inr [OF assms(1)] by metis
  from s(2) obtain ts0 engines m loaded where tr: "dhas (sel_stages s) ''transcribe''"
    and b: "build_dag_with_engines u raw_env job uri (effective_parameters s) engines
       (\<not> dhas (sel_stages s) ''align'') (\<not> dhas (sel_stages s) ''diarize'') m loaded = Inr ts0"
    and st: "map task_stage ts = map task_stage ts0"
    by (rule dag_of_selection_Inr) (simp add: stages_mark)
  obtain words mode where wm: "requested_word_timestamps (effective_parameters s) = Inr words"
      "speaker_mode (effective_parameters s) = Inr mode"
    using requested_wordsE [OF b] .
  have "effective_parameters s \<in> {p, degraded_parameters p}"
    using s(3) unfolding pipeline_ok_def by (auto split: if_splits)
  then have "mode \<noteq> ''per_channel''" using wm(2) assms(2) by auto
  then have "map task_stage ts0 = [''prepare'', ''transcribe'']
      @ (if words \<and> dhas (sel_stages s) ''align'' then [''align''] else [])
      @ (if mode = ''diarize'' \<and> dhas (sel_stages s) ''diarize'' then [''diarize''] else [])"
    using dag_stages [OF b wm] by (auto simp: graph_stages_def)
  then show ?thesis
    using s(1,4) tr st wm pipeline_ok_words [OF s(3)] pipeline_ok_mode [OF s(3)]
    by (intro exI [of _ s]) auto
qed

lemma build_task_dag_mono_stages_example:
  "\<exists>s. select_pipeline_engines (demo_env None) [] = Inr s
     \<and> [''prepare'', ''transcribe''] =
        filter (dhas (sel_stages s)) [''prepare'', ''transcribe'', ''align'', ''diarize'']"
proof -
  have "speaker_mode [] \<noteq> Inr ''per_channel''" by code_simp
  from build_task_dag_mono_stages [OF demo_job_graph(1) this] show ?thesis
    by (simp only: demo_job_graph(2))
qed

text \<open>an unrecognised \<open>timestamps_granularity\<close> loses word timestamps. The graph builder falls back
  to word granularity, as its warning says, but the selection compares the raw value with
  \<open>word\<close> and selects no aligner, and the builder then skips alignment: no task of the graph
  aligns, whether or not the transcriber has word timestamps of its own.\<close>

lemma unknown_granularity_never_aligned:
  assumes "dget p ''word_timestamps'' = None"
    and "dget p ''timestamps_granularity'' = Some (PStr g)"
    and "g \<notin> set VALID_TIMESTAMPS_GRANULARITIES"
    and "build_task_dag env u raw_env job uri p = Inr ts"
  shows "requested_word_timestamps p = Inr True
     \<and> (\<forall>t \<in> set ts. \<forall>ch. task_stage t \<noteq> stage_at ''align'' ch)"
proof
  show "requested_word_timestamps p = Inr True"
    using assms(1-3) by (simp add: requested_word_timestamps_def in_str_set_def bind_res.simps)
  obtain s t where s: "dag_of_selection u raw_env job uri s = Inr ts" "pipeline_ok env p s"
    using build_task_dag_Inr [OF assms(4)] by metis
  have "\<not> should_add_alignment p t" for t
    using assms(1-3) by (auto simp: should_add_alignment_def VALID_TIMESTAMPS_GRANULARITIES_def)
  then have no: "\<not> dhas (sel_stages s) ''align''"
    using s(2) unfolding pipeline_ok_def by (auto split: if_splits)
  from s(1) obtain ts0 engines m loaded where
    b: "build_dag_with_engines u raw_env job uri (effective_parameters s) engines
       (\<not> dhas (sel_stages s) ''align'') (\<not> dhas (sel_stages s) ''diarize'') m loaded = Inr ts0"
    and st: "map task_stage ts = map task_stage ts0"
    by (rule dag_of_selection_Inr) (simp add: stages_mark)
  obtain words mode where wm: "requested_word_timestamps (effective_parameters s) = Inr words"
      "speaker_mode (effective_parameters s) = Inr mode"
    using requested_wordsE [OF b] .
  then have "\<exists>chs d. map task_stage ts = graph_stages mode False d chs"
    using dag_stages [OF b wm] no st by auto
  then show "\<forall>t \<in> set ts. \<forall>ch. task_stage t \<noteq> stage_at ''align'' ch"
    using graph_stages_align by (metis image_eqI list.set_map)
qed

definition demo_words_params :: dict where
  "demo_words_params = [(''timestamps_granularity'', PStr ''words'')]"

lemma demo_words_selection:
  "select_pipeline_engines (demo_env None) demo_words_params =
     Inr \<lparr>sel_stages = [(''prepare'', demo_selection ''prep'' ''prepare'' ''only capable engine'' None),
       (''transcribe'', demo_selection ''nemo'' ''transcribe'' ''only capable engine'' None)],
       effective_parameters = demo_words_params\<rparr>"
proof -
  have "extract_requirements demo_words_params = Inr no_requirements"
    by (simp add: extract_requirements_def truthy_opt_def no_requirements_def demo_words_params_def)
  then show ?thesis
    by (simp add: select_pipeline_engines_def select_stage_def preference_def bind_res.simps
        demo_select_prepare demo_select_transcribe transcribe_selection_def dset_def demo_words_params_def
        should_add_alignment_def should_add_diarization_def truthy_opt_def dget_or_def)
qed

lemma demo_words_graph:
  "map task_stage (case dag_of_selection id [] 7 ''s3''
     \<lparr>sel_stages = [(''prepare'', demo_selection ''prep'' ''prepare'' ''only capable engine'' None),
       (''transcribe'', demo_selection ''nemo'' ''transcribe'' ''only capable engine'' None)],
       effective_parameters = demo_words_params\<rparr> of Inr ts \<Rightarrow> ts | Inl _ \<Rightarrow> []) = [''prepare'', ''transcribe'']"
  by code_simp

lemma unknown_granularity_never_aligned_example:
  "requested_word_timestamps demo_words_params = Inr True
   \<and> (\<exists>ts. build_task_dag (demo_env None) id [] 7 ''s3'' demo_words_params = Inr ts \<and> length ts = 2
        \<and> (\<forall>t \<in> set ts. \<forall>ch. task_stage t \<noteq> stage_at ''align'' ch))"
proof -
  obtain ts where ts: "build_task_dag (demo_env None) id [] 7 ''s3'' demo_words_params = Inr ts"
    "map task_stage ts = [''prepare'', ''transcribe'']"
    using demo_words_graph
    by (auto simp: build_task_dag_def demo_words_selection split: sum.splits)
  have "length ts = 2" using arg_cong [OF ts(2), of length] by simp
  moreover have "''words'' \<notin> set VALID_TIMESTAMPS_GRANULARITIES" by code_simp
  ultimately show ?thesis
    using unknown_granularity_never_aligned [OF _ _ _ ts(1), of "''words''"] ts(1)
    by (simp add: demo_words_params_def)
qed

end
