(* ===== verification/World.thy ===== *)
theory World
  imports Dag
begin

text \<open>
  The state the orchestrator works on: the job and task tables of the database, the Redis
  keys it owns (the engine streams with their de-duplication keys and task metadata, the
  concurrency counters with their once-only guards, enrichment hashes, cancellation flags),
  the objects it writes to S3, and the events and metrics it emits, kept as logs. Each
  component reads the outside world through one snapshot \<open>oenv\<close> per handled event. Redis
  keys are modelled within their lifetime: expiry of guards, flags and metadata is not.
\<close>

section \<open>Tables\<close>

record job_stats =
  st_language :: pyval
  st_words :: nat
  st_segments :: nat
  st_speakers :: pyval
  st_characters :: nat

record job_row =
  job_state :: job_status
  job_tenant :: uuid
  job_audio_uri :: string
  job_parameters :: dict
  job_error :: "string option"
  job_started_at :: "time option"
  job_completed_at :: "time option"
  job_audio_format :: "string option"
  job_audio_duration :: "rat option"
  job_audio_sample_rate :: "int option"
  job_audio_channels :: "int option"
  job_audio_bit_depth :: "int option"
  job_result :: "job_stats option"
  job_pii_entities :: "nat option"
  job_pii_audio_uri :: "pyval option"

datatype enrichment_status = EnPending | EnRunning | EnCompleted | EnFailed

section \<open>The queue side of Redis\<close>

record stream_entry =
  msg_queue :: string
  msg_task :: uuid
  msg_job :: uuid
  msg_enqueued_at :: time
  msg_timeout_at :: time

record request_doc =
  rq_task :: uuid
  rq_job :: uuid
  rq_payload :: "dict option"
  rq_previous :: dict
  rq_config :: dict
  rq_bindings :: "request_binding list"
  rq_resolved :: "(string \<times> string) list"
  rq_index :: "(string \<times> artifact_reference) list"

record engine_need =
  need_engine :: string
  need_stage :: string
  need_job :: uuid
  need_task :: uuid
  need_language :: "string option"

text \<open>\<open>dalston:task:retry-enqueue:{task}:{retry}\<close>: the rendering is injective, so the key is the
  pair.\<close>

type_synonym dedupe_key = "uuid \<times> int"

record queues =
  stream :: "stream_entry list"
  dedupe_keys :: "dedupe_key set"
  task_metadata :: "uuid \<Rightarrow> dict"
  metadata_ttl :: "uuid \<Rightarrow> int option"
  waiting_tasks :: "uuid set"
  needs :: "engine_need list"
  requests :: "uuid \<Rightarrow> request_doc option"

section \<open>Everything\<close>

datatype event = JobFailedEvent uuid string | JobCompletedEvent uuid | JobCancelledEvent uuid

datatype metric =
    IncInProgress
  | DecInProgress
  | IncJobs string
  | TaskScheduled string string string
  | TaskFinished string string string
  | JobDuration string pyval time
  | AudioDuration string pyval rat

record world =
  jobs :: "uuid \<Rightarrow> job_row option"
  tasks :: "task list"
  queues_of :: queues
  decremented :: "uuid set"
  counters :: "uuid \<Rightarrow> int"
  enrichments :: "uuid \<Rightarrow> (string \<times> enrichment_status) list"
  cancel_flags :: "uuid set"
  events :: "event list"
  metrics :: "metric list"
  transcripts :: "uuid \<Rightarrow> dict option"
  artifacts_available :: "uuid \<Rightarrow> time option"

text \<open>
  What a handler reads besides the state. \<open>oe_response\<close> is a task's \<open>response.json\<close> (an
  object, or absent), \<open>oe_artifacts\<close> the job's artifact index the engines maintain,
  \<open>oe_config_error\<close> the pydantic check of a stage's configuration
  (\<open>dalston/common/pipeline_types.py\<close>), \<open>oe_assemble\<close> the transcript assembly for the
  gathered outputs, and the \<open>oe_show\<close> functions the text of an exception.
\<close>

record engine_info =
  ei_id :: string
  ei_word_timestamps :: bool
  ei_status :: string

record error_details =
  ed_required :: dict
  ed_engines :: "engine_info list"
  ed_suggestion :: "string option"

datatype queue_error =
    EngineUnavailable string string error_details
  | CatalogInvalid string string string

record assembly =
  as_job :: uuid
  as_outputs :: dict
  as_stages :: "string list"
  as_channels :: "pyval option"
  as_speaker_detection :: pyval
  as_words :: pyval
  as_names :: "pyval option"

record oenv =
  oe_select :: sel_env
  oe_uuid :: "nat \<Rightarrow> uuid"
  oe_speech_env :: string
  oe_unavailable_behavior :: string
  oe_wait_timeout :: int
  oe_stale_timeout :: int
  oe_response :: "uuid \<Rightarrow> dict option"
  oe_artifacts :: "uuid \<Rightarrow> (string \<times> artifact_reference) list"
  oe_config_error :: "string \<Rightarrow> dict \<Rightarrow> exn option"
  oe_assemble :: "assembly \<Rightarrow> exn + dict"
  oe_show_queue :: "queue_error \<Rightarrow> string"
  oe_show_sel :: "sel_error \<Rightarrow> string"
  oe_show_exn :: "exn \<Rightarrow> string"
  oe_uuid_text :: "uuid \<Rightarrow> string"

definition oe_now :: "oenv \<Rightarrow> time" where
  "oe_now env = se_now (oe_select env)"

section \<open>Rows\<close>

definition get_task :: "world \<Rightarrow> uuid \<Rightarrow> task option" where
  "get_task w i = List.find (\<lambda>t. task_id t = i) (tasks w)"

definition job_tasks :: "world \<Rightarrow> uuid \<Rightarrow> task list" where
  "job_tasks w j = filter (\<lambda>t. task_job_id t = j) (tasks w)"

definition upd_task :: "uuid \<Rightarrow> (task \<Rightarrow> task) \<Rightarrow> world \<Rightarrow> world" where
  "upd_task i f w = w\<lparr>tasks := map (\<lambda>t. if task_id t = i then f t else t) (tasks w)\<rparr>"

definition upd_tasks :: "(task \<Rightarrow> bool) \<Rightarrow> (task \<Rightarrow> task) \<Rightarrow> world \<Rightarrow> world" where
  "upd_tasks P f w = w\<lparr>tasks := map (\<lambda>t. if P t then f t else t) (tasks w)\<rparr>"

definition upd_job :: "uuid \<Rightarrow> (job_row \<Rightarrow> job_row) \<Rightarrow> world \<Rightarrow> world" where
  "upd_job j f w = w\<lparr>jobs := (jobs w)(j := map_option f (jobs w j))\<rparr>"

definition emit :: "event \<Rightarrow> world \<Rightarrow> world" where
  "emit e w = w\<lparr>events := events w @ [e]\<rparr>"

definition measure_metric :: "metric \<Rightarrow> world \<Rightarrow> world" where
  "measure_metric m w = w\<lparr>metrics := metrics w @ [m]\<rparr>"

text \<open>The gauge of jobs in progress, read off the log.\<close>

definition in_progress :: "world \<Rightarrow> int" where
  "in_progress w = int (count_list (metrics w) IncInProgress) - int (count_list (metrics w) DecInProgress)"

section \<open>Concurrency counters\<close>

text \<open>\<open>_decrement_concurrent_jobs\<close>: \<open>SET NX\<close> on the job's guard, then \<open>DECR\<close> clamped at zero.\<close>

definition decrement_concurrent_jobs :: "uuid \<Rightarrow> uuid \<Rightarrow> world \<Rightarrow> world" where
  "decrement_concurrent_jobs j tenant w =
     (if j \<in> decremented w then w
      else (let n = counters w tenant - 1
            in w\<lparr>decremented := insert j (decremented w),
                 counters := (counters w)(tenant := (if n < 0 then 0 else n))\<rparr>))"

text \<open>
  A once-only effect: the contract every caller of the guarded decrement relies on. A second
  call changes nothing, calls for different jobs commute in what they mark, and a call
  always leaves its key marked.
\<close>

locale once_only =
  fixes act :: "'k \<Rightarrow> 's \<Rightarrow> 's"
    and mark :: "'s \<Rightarrow> 'k set"
  assumes act_marks: "mark (act k s) = insert k (mark s)"
    and act_marked: "k \<in> mark s \<Longrightarrow> act k s = s"
begin

lemma act_idem: "act k (act k s) = act k s"
  by (rule act_marked) (simp add: act_marks)

lemma acts_mark: "mark (foldr act ks s) = set ks \<union> mark s"
  by (induction ks) (simp_all add: act_marks)

lemma act_after_acts: "k \<in> set ks \<Longrightarrow> act k (foldr act ks s) = foldr act ks s"
  by (rule act_marked) (simp add: acts_mark)

end

interpretation guard: once_only "\<lambda>j. decrement_concurrent_jobs j tenant" decremented for tenant
  by unfold_locales (auto simp: decrement_concurrent_jobs_def Let_def)

lemma decrement_frame [simp]:
  "jobs (decrement_concurrent_jobs j tn w) = jobs w"
  "tasks (decrement_concurrent_jobs j tn w) = tasks w"
  "queues_of (decrement_concurrent_jobs j tn w) = queues_of w"
  "enrichments (decrement_concurrent_jobs j tn w) = enrichments w"
  "cancel_flags (decrement_concurrent_jobs j tn w) = cancel_flags w"
  "events (decrement_concurrent_jobs j tn w) = events w"
  "metrics (decrement_concurrent_jobs j tn w) = metrics w"
  "transcripts (decrement_concurrent_jobs j tn w) = transcripts w"
  "artifacts_available (decrement_concurrent_jobs j tn w) = artifacts_available w"
  "decremented (decrement_concurrent_jobs j tn w) = insert j (decremented w)"
  by (auto simp: decrement_concurrent_jobs_def Let_def)

lemma emit_frame [simp]:
  "jobs (emit e w) = jobs w" "tasks (emit e w) = tasks w" "queues_of (emit e w) = queues_of w"
  "decremented (emit e w) = decremented w" "counters (emit e w) = counters w"
  "enrichments (emit e w) = enrichments w" "cancel_flags (emit e w) = cancel_flags w"
  "metrics (emit e w) = metrics w" "transcripts (emit e w) = transcripts w"
  "artifacts_available (emit e w) = artifacts_available w" "events (emit e w) = events w @ [e]"
  by (simp_all add: emit_def)

lemma measure_metric_frame [simp]:
  "jobs (measure_metric m w) = jobs w" "tasks (measure_metric m w) = tasks w"
  "queues_of (measure_metric m w) = queues_of w" "decremented (measure_metric m w) = decremented w"
  "counters (measure_metric m w) = counters w" "enrichments (measure_metric m w) = enrichments w"
  "cancel_flags (measure_metric m w) = cancel_flags w" "events (measure_metric m w) = events w"
  "transcripts (measure_metric m w) = transcripts w"
  "artifacts_available (measure_metric m w) = artifacts_available w"
  "metrics (measure_metric m w) = metrics w @ [m]"
  by (simp_all add: measure_metric_def)

lemma upd_job_frame [simp]:
  "tasks (upd_job j f w) = tasks w" "queues_of (upd_job j f w) = queues_of w"
  "decremented (upd_job j f w) = decremented w" "counters (upd_job j f w) = counters w"
  "enrichments (upd_job j f w) = enrichments w" "cancel_flags (upd_job j f w) = cancel_flags w"
  "events (upd_job j f w) = events w" "metrics (upd_job j f w) = metrics w"
  "transcripts (upd_job j f w) = transcripts w"
  "artifacts_available (upd_job j f w) = artifacts_available w"
  "jobs (upd_job j f w) i = (if i = j then map_option f (jobs w j) else jobs w i)"
  by (simp_all add: upd_job_def)

lemma upd_task_frame [simp]:
  "jobs (upd_task i f w) = jobs w" "queues_of (upd_task i f w) = queues_of w"
  "decremented (upd_task i f w) = decremented w" "counters (upd_task i f w) = counters w"
  "enrichments (upd_task i f w) = enrichments w" "cancel_flags (upd_task i f w) = cancel_flags w"
  "events (upd_task i f w) = events w" "metrics (upd_task i f w) = metrics w"
  "transcripts (upd_task i f w) = transcripts w"
  "artifacts_available (upd_task i f w) = artifacts_available w"
  by (simp_all add: upd_task_def)

lemma upd_tasks_frame [simp]:
  "jobs (upd_tasks P f w) = jobs w" "queues_of (upd_tasks P f w) = queues_of w"
  "decremented (upd_tasks P f w) = decremented w" "counters (upd_tasks P f w) = counters w"
  "enrichments (upd_tasks P f w) = enrichments w" "cancel_flags (upd_tasks P f w) = cancel_flags w"
  "events (upd_tasks P f w) = events w" "metrics (upd_tasks P f w) = metrics w"
  "transcripts (upd_tasks P f w) = transcripts w"
  "artifacts_available (upd_tasks P f w) = artifacts_available w"
  by (simp_all add: upd_tasks_def)

section \<open>The task table as a keyed store\<close>

text \<open>
  Reads see the last write of a row: the laws of a table with a primary key. An update keeps
  the key, and a lookup after it sees the updated row.
\<close>

locale keyed_table =
  fixes lookup :: "'s \<Rightarrow> 'k \<Rightarrow> 'r option"
    and update :: "'k \<Rightarrow> ('r \<Rightarrow> 'r) \<Rightarrow> 's \<Rightarrow> 's"
    and ok :: "'k \<Rightarrow> ('r \<Rightarrow> 'r) \<Rightarrow> bool"
  assumes lookup_update: "ok k f \<Longrightarrow> lookup (update k f s) k = map_option f (lookup s k)"
    and lookup_other: "ok k f \<Longrightarrow> j \<noteq> k \<Longrightarrow> lookup (update k f s) j = lookup s j"
begin

lemma update_absent: "ok k f \<Longrightarrow> lookup s k = None \<Longrightarrow> lookup (update k f s) = lookup s"
  by (rule ext) (metis lookup_other lookup_update option.map_disc_iff)

lemma lookup_update_twice:
  "ok k f \<Longrightarrow> ok k g \<Longrightarrow> lookup (update k g (update k f s)) k = map_option (g \<circ> f) (lookup s k)"
  by (simp add: lookup_update option.map_comp)

end

definition keeps_id :: "uuid \<Rightarrow> (task \<Rightarrow> task) \<Rightarrow> bool" where
  "keeps_id i f \<longleftrightarrow> (\<forall>t. task_id (f t) = task_id t)"

lemma find_map_id:
  assumes "keeps_id i f"
  shows "List.find (\<lambda>t. task_id t = j) (map (\<lambda>t. if task_id t = i then f t else t) xs)
     = (if j = i then map_option f (List.find (\<lambda>t. task_id t = j) xs)
        else List.find (\<lambda>t. task_id t = j) xs)"
  using assms by (induction xs) (auto simp: keeps_id_def)

interpretation task_table: keyed_table get_task upd_task keeps_id
  by unfold_locales (simp_all add: get_task_def upd_task_def find_map_id)

interpretation job_table: keyed_table jobs upd_job "\<lambda>_ _. True"
  by unfold_locales simp_all

end
