(* ===== verification/Scheduler.thy ===== *)
theory Scheduler
  imports World
begin

text \<open>
  Queueing a task for its engine (\<open>dalston/orchestrator/scheduler.py\<close>, with the error
  details of \<open>dalston/orchestrator/exceptions.py\<close> and the two ways of adding to a stream of
  \<open>dalston/common/streams.py\<close>): timeouts, artifact bindings, the request document, and the
  whole of \<open>queue_task\<close>, every exit included. A raised exception keeps the effects that
  came before it, as in the code.
\<close>

section \<open>Error details\<close>

definition build_engine_info :: "catalog_entry \<Rightarrow> string list \<Rightarrow> string list \<Rightarrow> engine_info" where
  "build_engine_info e running unhealthy =
     \<lparr>ei_id = cat_engine_id e,
      ei_word_timestamps = supports_word_timestamps (cat_capabilities e),
      ei_status = (if cat_engine_id e \<in> set running then ''running''
                   else if cat_engine_id e \<in> set unhealthy then ''unhealthy'' else ''available'')\<rparr>"

definition build_engine_suggestion :: "string \<Rightarrow> engine_info list \<Rightarrow> string option" where
  "build_engine_suggestion stage engines =
     (if engines = []
      then Some (''No engines configured for stage '' @ [CHR 0x27] @ stage @ [CHR 0x27]
                 @ ''. Check your deployment.'')
      else (case filter (\<lambda>e. ei_status e \<noteq> ''running'') engines of
              [] \<Rightarrow> None
            | not_running \<Rightarrow> Some (''Start '' @ str_join '', '' (map ei_id (take 2 not_running)))))"

definition build_error_details ::
  "time \<Rightarrow> registry \<Rightarrow> catalog \<Rightarrow> string \<Rightarrow> pyval option \<Rightarrow> pyval option \<Rightarrow> error_details" where
  "build_error_details now g c stage language words =
     (let running = map engine_id (filter (is_available now) (get_all g));
          unhealthy = map engine_id (filter (\<lambda>e. \<not> is_available now e) (get_all g));
          available = map (\<lambda>e. build_engine_info e running unhealthy) (get_engines_for_stage c stage)
      in \<lparr>ed_required = [(''stage'', PStr stage)]
            @ (case language of Some l \<Rightarrow> if truthy l then [(''language'', l)] else [] | None \<Rightarrow> [])
            @ (case words of Some v \<Rightarrow> if v = PNone then [] else [(''word_timestamps'', v)] | None \<Rightarrow> []),
          ed_engines = available,
          ed_suggestion = build_engine_suggestion stage available\<rparr>)"

section \<open>Timeouts\<close>

definition MIN_TIMEOUT_S :: int where "MIN_TIMEOUT_S = 60"

definition DEFAULT_RTF :: rat where "DEFAULT_RTF = 1"

definition TIMEOUT_SAFETY_FACTOR :: rat where "TIMEOUT_SAFETY_FACTOR = 3"

definition calculate_task_timeout :: "rat option \<Rightarrow> rat option \<Rightarrow> rat option \<Rightarrow> bool \<Rightarrow> int" where
  "calculate_task_timeout duration gpu cpu use_gpu =
     (case duration of
        None \<Rightarrow> TASK_UNKNOWN_DURATION_TIMEOUT_S
      | Some d \<Rightarrow>
          if d \<le> 0 then TASK_UNKNOWN_DURATION_TIMEOUT_S
          else (let rtf = (if use_gpu \<and> gpu \<noteq> None then gpu
                           else if cpu \<noteq> None then cpu else if gpu \<noteq> None then gpu else None);
                    r = (case rtf of None \<Rightarrow> DEFAULT_RTF | Some r \<Rightarrow> if r \<le> 0 then DEFAULT_RTF else r)
                in max \<lfloor>d * r * TIMEOUT_SAFETY_FACTOR\<rfloor> MIN_TIMEOUT_S))"

text \<open>The duration comes from a dynamic dictionary: comparing a non-number raises.\<close>

fun as_number :: "pyval \<Rightarrow> exn + rat option" where
  "as_number PNone = Inr None"
| "as_number (PBool b) = Inr (Some (of_bool b))"
| "as_number (PInt i) = Inr (Some (of_int i))"
| "as_number (PFloat r) = Inr (Some r)"
| "as_number _ = Inl TypeError"

section \<open>Artifact bindings\<close>

definition matches_selector :: "artifact_reference \<Rightarrow> artifact_selector \<Rightarrow> bool" where
  "matches_selector r s \<longleftrightarrow>
     (if ref_producer_stage r \<noteq> Some (producer_stage s) then False
      else if ref_kind r \<noteq> sel_kind s then False
      else if sel_channel s \<noteq> None \<and> ref_channel r \<noteq> sel_channel s then False
      else if sel_role s \<noteq> None \<and> ref_role r \<noteq> sel_role s then False
      else True)"

fun resolve_input_bindings ::
  "(string \<times> artifact_reference) list \<Rightarrow> request_binding list \<Rightarrow> (string \<times> string) list
    \<Rightarrow> exn + (string \<times> string) list" where
  "resolve_input_bindings index [] resolved = Inr resolved"
| "resolve_input_bindings index (b # bs) resolved =
     (case List.find (\<lambda>(i, r). matches_selector r (selector b)) index of
        None \<Rightarrow> if sel_required (selector b) then Inl (ValueError ''Required artifact binding missing'')
                else resolve_input_bindings index bs resolved
      | Some (i, r) \<Rightarrow> resolve_input_bindings index bs (dset (slot b) i resolved))"

section \<open>The request document\<close>

text \<open>\<open>s.rsplit("_ch", 1)[0] if "_ch" in s else s\<close>: cut at the last occurrence.\<close>

fun cut_last :: "string \<Rightarrow> string \<Rightarrow> string option" where
  "cut_last pat [] = (if pat = [] then Some [] else None)"
| "cut_last pat (c # s) =
     (case cut_last pat s of
        Some r \<Rightarrow> Some (c # r)
      | None \<Rightarrow> if take (length pat) (c # s) = pat then Some [] else None)"

definition base_stage :: "string \<Rightarrow> string" where
  "base_stage stage = (case cut_last ''_ch'' stage of Some b \<Rightarrow> b | None \<Rightarrow> stage)"

text \<open>\<open>AudioMedia(artifact_id=..., **audio_metadata)\<close> with its field constraints.\<close>

definition audio_media :: "string \<Rightarrow> dict \<Rightarrow> exn + dict" where
  "audio_media aid m =
     (if set (map fst m) \<subseteq> {''format'', ''duration'', ''sample_rate'', ''channels'', ''bit_depth''}
      then (case (dget m ''format'', dget m ''duration'', dget m ''sample_rate'', dget m ''channels'',
                  dget_or m ''bit_depth'' PNone) of
              (Some (PStr f), Some (PFloat d), Some (PInt r), Some (PInt c), b) \<Rightarrow>
                if 0 \<le> d \<and> 0 < r \<and> 1 \<le> c \<and> (case b of PNone \<Rightarrow> True | PInt _ \<Rightarrow> True | _ \<Rightarrow> False)
                then Inr ([(''artifact_id'', PStr aid), (''format'', PStr f), (''duration'', PFloat d),
                           (''sample_rate'', PInt r), (''channels'', PInt c)]
                          @ (if b = PNone then [] else [(''bit_depth'', b)]))
                else Inl (ValueError ''AudioMedia'')
            | _ \<Rightarrow> Inl (ValueError ''AudioMedia''))
      else Inl (ValueError ''AudioMedia''))"

fun parse_bindings :: "pyval list \<Rightarrow> exn + request_binding list" where
  "parse_bindings [] = Inr []"
| "parse_bindings (v # vs) =
     (case parse_binding v of
        None \<Rightarrow> Inl (ValueError ''RequestBinding'')
      | Some b \<Rightarrow> bind_res (parse_bindings vs) (\<lambda>bs. Inr (b # bs)))"

definition source_artifact :: "string \<Rightarrow> string \<Rightarrow> artifact_reference" where
  "source_artifact aid uri =
     \<lparr>artifact_id = aid, ref_kind = ''audio'', storage_locator = uri, ref_channel = None,
      ref_role = Some ''source'', producer_task_id = None, ref_producer_stage = Some ''gateway''\<rparr>"

definition write_task_request ::
  "oenv \<Rightarrow> task \<Rightarrow> dict \<Rightarrow> dict option \<Rightarrow> exn + request_doc" where
  "write_task_request env t previous audio =
     bind_res (parse_bindings (input_bindings t)) (\<lambda>bindings.
       let index = oe_artifacts env (task_job_id t);
           aid = oe_uuid_text env (task_job_id t) @ '':source:audio'';
           config = filter (\<lambda>(k, v). k \<noteq> ''request_bindings'') (task_config t)
       in bind_res
            (if task_stage t = ''prepare''
             then (case nonempty (request_uri t) of
                     None \<Rightarrow> Inl (ValueError ''prepare task missing request_uri'')
                   | Some uri \<Rightarrow>
                       (let index' = dset aid (source_artifact aid uri) index
                        in case audio of
                             Some (kv # m) \<Rightarrow> bind_res (audio_media aid (kv # m))
                               (\<lambda>media. Inr (index', [(''audio'', aid)], Some [(''media'', PDict media)]))
                           | _ \<Rightarrow> Inr (index', [(''audio'', aid)], None)))
             else bind_res (resolve_input_bindings index bindings [])
                    (\<lambda>resolved. Inr (index, resolved, None)))
            (\<lambda>(index', resolved, payload).
              case oe_config_error env (base_stage (task_stage t)) config of
                Some x \<Rightarrow> Inl x
              | None \<Rightarrow> Inr \<lparr>rq_task = task_id t, rq_job = task_job_id t, rq_payload = payload,
                          rq_previous = previous, rq_config = config, rq_bindings = bindings,
                          rq_resolved = resolved, rq_index = index'\<rparr>))"

section \<open>Streams\<close>

text \<open>\<open>add_task\<close> returns the message id, here the position in the log; \<open>add_task_once\<close> sets the
  de-duplication key and appends in one script, or does nothing when the key is set.\<close>

definition add_task :: "time \<Rightarrow> string \<Rightarrow> uuid \<Rightarrow> uuid \<Rightarrow> int \<Rightarrow> queues \<Rightarrow> queues \<times> nat" where
  "add_task now stage t j timeout q =
     (q\<lparr>stream := stream q @ [\<lparr>msg_queue = stage, msg_task = t, msg_job = j, msg_enqueued_at = now,
                               msg_timeout_at = now + of_int timeout\<rparr>]\<rparr>,
      length (stream q))"

definition add_task_once ::
  "time \<Rightarrow> string \<Rightarrow> uuid \<Rightarrow> uuid \<Rightarrow> int \<Rightarrow> dedupe_key \<Rightarrow> queues \<Rightarrow> queues \<times> nat option" where
  "add_task_once now stage t j timeout key q =
     (if key \<in> dedupe_keys q then (q, None)
      else (let (q', n) = add_task now stage t j timeout (q\<lparr>dedupe_keys := insert key (dedupe_keys q)\<rparr>)
            in (q', Some n)))"

definition hset :: "uuid \<Rightarrow> dict \<Rightarrow> queues \<Rightarrow> queues" where
  "hset t kvs q = q\<lparr>task_metadata := (task_metadata q)(t := dmerge (task_metadata q t) kvs)\<rparr>"

section \<open>Queueing\<close>

datatype queue_outcome = Queued | AlreadyQueued | QueueFailed queue_error | QueueRaised exn

definition with_config_bindings :: "task \<Rightarrow> task" where
  "with_config_bindings t =
     (if input_bindings t = []
      then (case dget (task_config t) ''request_bindings'' of
              Some (PList vs) \<Rightarrow> t\<lparr>input_bindings := vs\<rparr>
            | _ \<Rightarrow> t)
      else t)"

text \<open>The language of the configuration, with \<open>auto\<close> and falsy values read as none.\<close>

definition task_language :: "dict \<Rightarrow> exn + pyval option" where
  "task_language c =
     (case dget c ''language'' of
        None \<Rightarrow> Inr None
      | Some v \<Rightarrow> if truthy v
                 then (case v of PStr l \<Rightarrow> Inr (if str_lower l = ''auto'' then None else Some v)
                       | _ \<Rightarrow> Inl AttributeError)
                 else Inr (Some v))"

definition wait_policy :: "oenv \<Rightarrow> dict \<Rightarrow> string \<times> int" where
  "wait_policy env c =
     (if truthy_opt (dget c ''_on_demand_wait'') then (''wait'', oe_stale_timeout env)
      else (oe_unavailable_behavior env, oe_wait_timeout env))"

definition queue_metadata ::
  "oenv \<Rightarrow> task \<Rightarrow> catalog_entry option \<Rightarrow> bool \<Rightarrow> int \<Rightarrow> dict" where
  "queue_metadata env t entry waiting timeout =
     [(''job_id'', PInt (int (task_job_id t))), (''stage'', PStr (task_stage t)),
      (''engine_id'', PStr (task_engine_id t)), (''queue_id'', PStr (task_engine_id t)),
      (''execution_profile'', PStr (case entry of Some e \<Rightarrow> execution_profile e | None \<Rightarrow> ''container'')),
      (''enqueued_at'', PFloat (oe_now env))]
     @ (if waiting
        then [(''waiting_for_engine'', PStr ''true''), (''wait_enqueued_at'', PFloat (oe_now env)),
              (''wait_timeout_s'', PInt timeout),
              (''wait_deadline_at'', PFloat (oe_now env + of_int timeout))]
        else [])"

definition audio_duration_of :: "dict \<Rightarrow> dict option \<Rightarrow> pyval" where
  "audio_duration_of c audio =
     (case (case audio of None \<Rightarrow> None | Some m \<Rightarrow> dget m ''duration'') of
        Some v \<Rightarrow> v
      | None \<Rightarrow> dget_or c ''audio_duration'' PNone)"

definition metadata_ttl_of :: "int \<Rightarrow> int \<Rightarrow> int" where
  "metadata_ttl_of base_timeout retry_limit =
     base_timeout * (if retry_limit \<noteq> 0 then retry_limit + 1 else 1) + 3600"

text \<open>The metadata hash, with the waiting set when the engine is not there yet.\<close>

definition start_queues :: "oenv \<Rightarrow> task \<Rightarrow> catalog_entry option \<Rightarrow> bool \<Rightarrow> int \<Rightarrow> queues \<Rightarrow> queues" where
  "start_queues env t entry waiting wait_s q0 =
     (let q1 = hset (task_id t) (queue_metadata env t entry waiting wait_s) q0
      in if waiting then q1\<lparr>waiting_tasks := insert (task_id t) (waiting_tasks q1)\<rparr> else q1)"

text \<open>The two ways onto the stream: once per de-duplication key, or always.\<close>

definition deliver :: "oenv \<Rightarrow> task \<Rightarrow> int \<Rightarrow> dedupe_key option \<Rightarrow> queues \<Rightarrow> queues \<times> nat option" where
  "deliver env t base key q =
     (case key of
        Some k \<Rightarrow> add_task_once (oe_now env) (task_engine_id t) (task_id t) (task_job_id t) base k q
      | None \<Rightarrow> (let (q', n) = add_task (oe_now env) (task_engine_id t) (task_id t) (task_job_id t) base q
                 in (q', Some n)))"

text \<open>The part after the task's availability is settled: metadata, request, stream.\<close>

definition enqueue ::
  "oenv \<Rightarrow> task \<Rightarrow> catalog_entry option \<Rightarrow> bool \<Rightarrow> int \<Rightarrow> dict \<Rightarrow> dict option \<Rightarrow> dedupe_key option
    \<Rightarrow> queues \<Rightarrow> queues \<times> queue_outcome" where
  "enqueue env t entry waiting wait_s previous audio key q0 =
     (let q2 = start_queues env t entry waiting wait_s q0
      in case as_number (audio_duration_of (task_config t) audio) of
           Inl x \<Rightarrow> (q2, QueueRaised x)
         | Inr duration \<Rightarrow>
             (let base = calculate_task_timeout duration
                           (Option.bind (map_option cat_capabilities entry) rtf_gpu)
                           (Option.bind (map_option cat_capabilities entry) rtf_cpu) True
                         + (if waiting then wait_s else 0);
                  q3 = q2\<lparr>metadata_ttl :=
                         (metadata_ttl q2)(task_id t := Some (metadata_ttl_of base (max_retries t)))\<rparr>
              in case write_task_request env t previous audio of
                   Inl x \<Rightarrow> (q3, QueueRaised x)
                 | Inr r \<Rightarrow>
                     (let q5 = hset (task_id t)
                                 [(''request_bindings_json'', PList (map dump_binding (rq_bindings r))),
                                  (''resolved_artifact_ids_json'',
                                   PDict (map (\<lambda>(k, v). (k, PStr v)) (rq_resolved r)))]
                                 (q3\<lparr>requests := (requests q3)(task_id t := Some r)\<rparr>)
                      in case deliver env t base key q5 of
                           (q6, None) \<Rightarrow> (q6, AlreadyQueued)
                         | (q6, Some n) \<Rightarrow> (hset (task_id t) [(''stream_message_id'', PInt (int n))] q6, Queued))))"

definition queue_task ::
  "oenv \<Rightarrow> task \<Rightarrow> dict \<Rightarrow> dict option \<Rightarrow> dedupe_key option \<Rightarrow> queues \<Rightarrow> queues \<times> queue_outcome" where
  "queue_task env t0 previous audio key q =
     (let t = with_config_bindings t0;
          sel = oe_select env
      in case task_language (task_config t) of
           Inl x \<Rightarrow> (q, QueueRaised x)
         | Inr language \<Rightarrow>
             (let entry = catalog_get_engine (se_catalog sel) (task_engine_id t);
                  profile = map_option execution_profile entry;
                  (behavior, wait_s) = wait_policy env (task_config t)
              in if profile \<noteq> None \<and> profile \<noteq> Some ''container''
                 then (q, QueueFailed (CatalogInvalid (task_stage t) (task_engine_id t) (the profile)))
                 else if is_engine_available (se_now sel) (se_registry sel) (task_engine_id t)
                 then enqueue env t entry False wait_s previous audio key q
                 else if behavior = ''fail_fast''
                 then (q, QueueFailed (EngineUnavailable (task_engine_id t) (task_stage t)
                            (build_error_details (se_now sel) (se_registry sel) (se_catalog sel)
                               (task_stage t) language (dget (task_config t) ''word_timestamps''))))
                 else enqueue env t entry True wait_s previous audio key
                        (q\<lparr>needs := needs q @ [\<lparr>need_engine = task_engine_id t, need_stage = task_stage t,
                              need_job = task_job_id t, need_task = task_id t,
                              need_language = (case language of Some (PStr l) \<Rightarrow> nonempty (Some l) | _ \<Rightarrow> None)\<rparr>]\<rparr>)))"

end
