(* ===== verification/SchedulerProps.thy ===== *)
theory SchedulerProps
  imports Scheduler DagProps
begin

text \<open>
  What queueing a task does on every exit, what binding resolution returns, bounds on
  timeouts, and the channel suffixes of per-channel stages.
\<close>

section \<open>Timeouts\<close>

lemma calculate_task_timeout_min: "MIN_TIMEOUT_S \<le> calculate_task_timeout d gpu cpu b"
  by (auto simp: calculate_task_timeout_def MIN_TIMEOUT_S_def TASK_UNKNOWN_DURATION_TIMEOUT_S_def Let_def
      split: option.split)

definition effective_rtf :: "rat option \<Rightarrow> rat option \<Rightarrow> bool \<Rightarrow> rat" where
  "effective_rtf gpu cpu use_gpu =
     (let first = (if use_gpu then gpu else cpu); second = (if use_gpu then cpu else gpu);
          rtf = (case first of Some r \<Rightarrow> Some r | None \<Rightarrow> second)
      in case rtf of Some r \<Rightarrow> if 0 < r then r else 1 | None \<Rightarrow> 1)"

text \<open>The timeout of a task of known duration is three times the expected processing time,
  rounded down, and never under a minute; the expectation uses the engine's GPU factor when
  it has one, else its CPU factor, else real time. It never decreases with the duration, and
  an unknown duration gets an hour.\<close>

lemma calculate_task_timeout_spec:
  "(0 < d \<longrightarrow> calculate_task_timeout (Some d) gpu cpu True = max \<lfloor>3 * (d * effective_rtf gpu cpu True)\<rfloor> 60)
   \<and> (0 < d \<and> d \<le> d' \<longrightarrow> calculate_task_timeout (Some d) gpu cpu b \<le> calculate_task_timeout (Some d') gpu cpu b)
   \<and> calculate_task_timeout None gpu cpu b = 3600
   \<and> 60 \<le> calculate_task_timeout duration gpu cpu b"
proof -
  have pos: "0 < (case rtf of None \<Rightarrow> DEFAULT_RTF | Some r \<Rightarrow> if r \<le> 0 then DEFAULT_RTF else r)" for rtf
    by (simp add: DEFAULT_RTF_def split: option.split)
  have mono: "max \<lfloor>d * r * TIMEOUT_SAFETY_FACTOR\<rfloor> MIN_TIMEOUT_S \<le> max \<lfloor>d' * r * TIMEOUT_SAFETY_FACTOR\<rfloor> MIN_TIMEOUT_S"
    if "0 < r" "d \<le> d'" for r
  proof -
    have "d * r * TIMEOUT_SAFETY_FACTOR \<le> d' * r * TIMEOUT_SAFETY_FACTOR"
      using that by (simp add: TIMEOUT_SAFETY_FACTOR_def)
    then show ?thesis by (meson floor_mono max.mono order_refl)
  qed
  have "0 < d \<longrightarrow> calculate_task_timeout (Some d) gpu cpu True = max \<lfloor>3 * (d * effective_rtf gpu cpu True)\<rfloor> 60"
    by (auto simp: calculate_task_timeout_def effective_rtf_def Let_def DEFAULT_RTF_def MIN_TIMEOUT_S_def
        TIMEOUT_SAFETY_FACTOR_def mult.commute split: option.split)
  moreover have "0 < d \<and> d \<le> d' \<longrightarrow> calculate_task_timeout (Some d) gpu cpu b \<le> calculate_task_timeout (Some d') gpu cpu b"
    using mono [OF pos] by (auto simp: calculate_task_timeout_def Let_def)
  ultimately show ?thesis using calculate_task_timeout_min [of duration gpu cpu b]
    by (simp add: MIN_TIMEOUT_S_def) (simp add: calculate_task_timeout_def TASK_UNKNOWN_DURATION_TIMEOUT_S_def)
qed

lemma calculate_task_timeout_spec_example:
  "calculate_task_timeout (Some 3600) (Some (1/20)) None True = 540
   \<and> calculate_task_timeout (Some 60) (Some (1/20)) None True \<le> calculate_task_timeout (Some 3600) (Some (1/20)) None True"
  using calculate_task_timeout_spec [of 3600 "Some (1/20)" None 3600 True None]
    calculate_task_timeout_spec [of 60 "Some (1/20)" None 3600 True None]
  by (simp add: effective_rtf_def)

section \<open>Bindings\<close>

definition first_match :: "(string \<times> artifact_reference) list \<Rightarrow> request_binding \<Rightarrow> string option" where
  "first_match index b = map_option fst (List.find (\<lambda>(i, r). matches_selector r (selector b)) index)"

lemma resolve_step:
  "resolve_input_bindings index (b # bs) acc =
     (case first_match index b of
        None \<Rightarrow> if sel_required (selector b) then Inl (ValueError ''Required artifact binding missing'')
                else resolve_input_bindings index bs acc
      | Some i \<Rightarrow> resolve_input_bindings index bs (dset (slot b) i acc))"
  by (auto simp: first_match_def split: option.split)

declare resolve_input_bindings.simps(2) [simp del]

lemma resolve_ok:
  "resolve_input_bindings index bs acc = Inr r \<Longrightarrow> distinct (map slot bs) \<Longrightarrow>
   (\<forall>k. k \<notin> slot ` set bs \<longrightarrow> dget r k = dget acc k)
   \<and> (\<forall>b \<in> set bs. dget r (slot b) =
        (case first_match index b of Some i \<Rightarrow> Some i | None \<Rightarrow> dget acc (slot b)))"
proof (induction bs arbitrary: acc)
  case Nil
  then show ?case by simp
next
  case (Cons b bs)
  have nb: "slot b \<notin> slot ` set bs" and d: "distinct (map slot bs)" using Cons.prems(2) by auto
  show ?case
  proof (cases "first_match index b")
    case None
    then have "resolve_input_bindings index bs acc = Inr r"
      using Cons.prems(1) by (simp add: resolve_step split: if_splits)
    from Cons.IH [OF this d] show ?thesis using None nb by auto
  next
    case (Some i)
    then have "resolve_input_bindings index bs (dset (slot b) i acc) = Inr r"
      using Cons.prems(1) by (simp add: resolve_step)
    moreover have "slot x \<noteq> slot b" if "x \<in> set bs" for x using nb that by (metis image_eqI)
    ultimately show ?thesis using Some nb Cons.IH [OF _ d]
      by (auto split: option.split)
  qed
qed

lemma resolve_error_iff:
  "(\<exists>x. resolve_input_bindings index bs acc = Inl x) \<longleftrightarrow>
   (\<exists>b \<in> set bs. sel_required (selector b) \<and> first_match index b = None)"
proof (induction bs arbitrary: acc)
  case Nil
  then show ?case by simp
next
  case (Cons b bs)
  then show ?case by (auto simp: resolve_step split: option.split)
qed

text \<open>Binding resolution fails exactly when a required binding has no matching artifact; otherwise
  each slot holds the first artifact of the job's index that matches its selector, and
  optional slots without a match are absent.\<close>

lemma resolve_input_bindings_correct:
  assumes "distinct (map slot bs)"
  shows "case resolve_input_bindings index bs [] of
      Inl x \<Rightarrow> (\<exists>b \<in> set bs. sel_required (selector b) \<and> first_match index b = None)
    | Inr r \<Rightarrow> (\<forall>b \<in> set bs. sel_required (selector b) \<longrightarrow> first_match index b \<noteq> None)
        \<and> (\<forall>b \<in> set bs. dget r (slot b) = first_match index b)
        \<and> (\<forall>k. k \<notin> slot ` set bs \<longrightarrow> dget r k = None)"
proof (cases "resolve_input_bindings index bs []")
  case (Inl x)
  then show ?thesis using resolve_error_iff [of index bs "[]"] by auto
next
  case (Inr r)
  have no: "\<not> (\<exists>b \<in> set bs. sel_required (selector b) \<and> first_match index b = None)"
    using resolve_error_iff [of index bs "[]"] Inr by simp
  have "dget r (slot b) = first_match index b" if "b \<in> set bs" for b
    using resolve_ok [OF Inr assms] that by (cases "first_match index b") auto
  then show ?thesis using no resolve_ok [OF Inr assms] Inr by auto
qed

definition demo_binding :: request_binding where
  "demo_binding = \<lparr>slot = ''audio'', selector = \<lparr>producer_stage = ''prepare'', sel_kind = ''audio'',
     sel_channel = Some 1, sel_role = None, sel_required = True\<rparr>\<rparr>"

definition demo_index :: "(string \<times> artifact_reference) list" where
  "demo_index = map (\<lambda>c. (str_nat c, \<lparr>artifact_id = str_nat c, ref_kind = ''audio'',
     storage_locator = ''s3'', ref_channel = Some (int c), ref_role = None, producer_task_id = None,
     ref_producer_stage = Some ''prepare''\<rparr>)) [0, 1]"

lemma resolve_input_bindings_correct_example:
  "resolve_input_bindings demo_index [demo_binding] [] = Inr [(''audio'', ''1'')]
   \<and> first_match demo_index demo_binding = Some ''1''"
proof -
  have r: "resolve_input_bindings demo_index [demo_binding] [] = Inr [(''audio'', ''1'')]" by code_simp
  then show ?thesis using resolve_input_bindings_correct [of "[demo_binding]" demo_index]
    by (simp add: demo_binding_def)
qed

text \<open>A selector with a channel only ever selects that channel.\<close>

lemma first_match_channel:
  "first_match index b = Some i \<Longrightarrow> sel_channel (selector b) = Some c \<Longrightarrow>
   \<exists>r. (i, r) \<in> set index \<and> ref_channel r = Some c \<and> ref_producer_stage r = Some (producer_stage (selector b))
      \<and> ref_kind r = sel_kind (selector b)"
  by (auto simp: first_match_def matches_selector_def dest!: find_SomeD split: if_splits)

section \<open>Channel suffixes\<close>

lemma suffix_chars: "\<not> is_digit (CHR ''_'')" "\<not> is_digit (CHR ''c'')" "\<not> is_digit (CHR ''h'')"
  by code_simp+

lemma cut_last_append: "cut_last pat s = Some r \<Longrightarrow> cut_last pat (p @ s) = Some (p @ r)"
  by (induction p) auto

lemma cut_last_digits:
  "(\<And>c. c \<in> set ds \<Longrightarrow> is_digit c) \<Longrightarrow> cut_last ''_ch'' ds = None"
proof (induction ds)
  case Nil
  then show ?case by simp
next
  case (Cons d ds)
  have "d \<noteq> CHR ''_''" using Cons.prems [of d] suffix_chars by auto
  then show ?case using Cons by simp
qed

lemma cut_last_suffix:
  assumes "\<And>c. c \<in> set ds \<Longrightarrow> is_digit c"
  shows "cut_last ''_ch'' (''_ch'' @ ds) = Some []"
  using cut_last_digits [OF assms] by simp

lemma base_stage_channel [simp]: "base_stage (channel_stage b n) = b"
  using cut_last_append [OF cut_last_suffix, of "str_nat n" b] str_nat_digits
  by (simp add: base_stage_def channel_stage_def)

section \<open>Queueing\<close>

text \<open>What an attempt leaves in the streams and the de-duplication keys, by its outcome.\<close>

definition message_for :: "oenv \<Rightarrow> task \<Rightarrow> stream_entry \<Rightarrow> bool" where
  "message_for env t m \<longleftrightarrow> msg_queue m = task_engine_id t \<and> msg_task m = task_id t
     \<and> msg_job m = task_job_id t \<and> msg_enqueued_at m = oe_now env
     \<and> oe_now env + of_int MIN_TIMEOUT_S \<le> msg_timeout_at m"

definition queue_effect ::
  "oenv \<Rightarrow> task \<Rightarrow> dedupe_key option \<Rightarrow> queues \<Rightarrow> queues \<Rightarrow> queue_outcome \<Rightarrow> bool" where
  "queue_effect env t key q q' r \<longleftrightarrow>
     (case r of
        Queued \<Rightarrow> (\<exists>m. stream q' = stream q @ [m] \<and> message_for env t m)
          \<and> (\<exists>d. requests q' (task_id t) = Some d \<and> rq_task d = task_id t)
          \<and> (case key of None \<Rightarrow> dedupe_keys q' = dedupe_keys q
              | Some k \<Rightarrow> k \<notin> dedupe_keys q \<and> dedupe_keys q' = insert k (dedupe_keys q))
      | AlreadyQueued \<Rightarrow> (\<exists>k. key = Some k \<and> k \<in> dedupe_keys q)
          \<and> stream q' = stream q \<and> dedupe_keys q' = dedupe_keys q
      | QueueRaised x \<Rightarrow> stream q' = stream q \<and> dedupe_keys q' = dedupe_keys q
      | QueueFailed e \<Rightarrow> q' = q)"

lemma hset_simps [simp]:
  "stream (hset t kvs q) = stream q" "dedupe_keys (hset t kvs q) = dedupe_keys q"
  "requests (hset t kvs q) = requests q" "waiting_tasks (hset t kvs q) = waiting_tasks q"
  "needs (hset t kvs q) = needs q"
  by (simp_all add: hset_def)

lemma write_task_request_id:
  "write_task_request env t prev audio = Inr d \<Longrightarrow> rq_task d = task_id t"
  by (auto simp: write_task_request_def Let_def bind_res_Inr split: option.splits list.splits if_splits)

lemma deliver_cases:
  assumes "deliver env t base key q = (q', msg)" and "MIN_TIMEOUT_S \<le> base"
  shows "requests q' = requests q \<and> waiting_tasks q' = waiting_tasks q \<and> needs q' = needs q \<and>
     (case msg of
        Some n \<Rightarrow> (\<exists>m. stream q' = stream q @ [m] \<and> message_for env t m)
          \<and> (case key of None \<Rightarrow> dedupe_keys q' = dedupe_keys q
              | Some k \<Rightarrow> k \<notin> dedupe_keys q \<and> dedupe_keys q' = insert k (dedupe_keys q))
      | None \<Rightarrow> (\<exists>k. key = Some k \<and> k \<in> dedupe_keys q) \<and> q' = q)"
  using assms
  by (cases key)
    (auto simp: deliver_def add_task_def add_task_once_def message_for_def Let_def split: if_splits)

lemma start_queues_simps [simp]:
  "stream (start_queues env t entry waiting s q) = stream q"
  "dedupe_keys (start_queues env t entry waiting s q) = dedupe_keys q"
  "waiting_tasks (start_queues env t entry waiting s q) =
     (if waiting then insert (task_id t) (waiting_tasks q) else waiting_tasks q)"
  by (simp_all add: start_queues_def Let_def)

lemma enqueue_effect:
  assumes "enqueue env t entry waiting wait_s previous audio key q = (q', r)" and "0 \<le> wait_s \<or> \<not> waiting"
  shows "queue_effect env t key q q' r \<and> (\<forall>e. r \<noteq> QueueFailed e)
     \<and> waiting_tasks q' = (if waiting then insert (task_id t) (waiting_tasks q) else waiting_tasks q)"
proof -
  let ?q2 = "start_queues env t entry waiting wait_s q"
  show ?thesis
  proof (cases "as_number (audio_duration_of (task_config t) audio)")
    case (Inl x)
    then show ?thesis using assms(1) by (auto simp: enqueue_def Let_def queue_effect_def)
  next
    case dur: (Inr duration)
    let ?base = "calculate_task_timeout duration
                   (Option.bind (map_option cat_capabilities entry) rtf_gpu)
                   (Option.bind (map_option cat_capabilities entry) rtf_cpu) True
                 + (if waiting then wait_s else 0)"
    let ?q3 = "?q2\<lparr>metadata_ttl := (metadata_ttl ?q2)(task_id t := Some (metadata_ttl_of ?base (max_retries t)))\<rparr>"
    have base: "MIN_TIMEOUT_S \<le> ?base"
      using calculate_task_timeout_min [of duration] assms(2) by (auto intro: add_increasing2)
    show ?thesis
    proof (cases "write_task_request env t previous audio")
      case (Inl x)
      then show ?thesis using assms(1) dur by (auto simp: enqueue_def Let_def queue_effect_def)
    next
      case (Inr d)
      define q5 where "q5 = hset (task_id t)
                   [(''request_bindings_json'', PList (map dump_binding (rq_bindings d))),
                    (''resolved_artifact_ids_json'', PDict (map (\<lambda>(k, v). (k, PStr v)) (rq_resolved d)))]
                   (?q3\<lparr>requests := (requests ?q3)(task_id t := Some d)\<rparr>)"
      have f5: "stream q5 = stream q" "dedupe_keys q5 = dedupe_keys q" "requests q5 (task_id t) = Some d"
        "waiting_tasks q5 = (if waiting then insert (task_id t) (waiting_tasks q) else waiting_tasks q)"
        by (simp_all add: q5_def)
      obtain q6 msg where dl: "deliver env t ?base key q5 = (q6, msg)" by (metis surj_pair)
      have res: "(q', r) = (case msg of None \<Rightarrow> (q6, AlreadyQueued)
          | Some n \<Rightarrow> (hset (task_id t) [(''stream_message_id'', PInt (int n))] q6, Queued))"
        using assms(1) dur Inr dl by (simp add: enqueue_def Let_def q5_def split: option.splits)
      show ?thesis
        using res deliver_cases [OF dl base, unfolded f5] write_task_request_id [OF Inr] f5
        by (cases msg; cases key) (auto simp: queue_effect_def)
    qed
  qed
qed

lemma with_config_bindings_simps [simp]:
  "task_id (with_config_bindings t) = task_id t" "task_job_id (with_config_bindings t) = task_job_id t"
  "task_stage (with_config_bindings t) = task_stage t"
  "task_engine_id (with_config_bindings t) = task_engine_id t"
  "task_config (with_config_bindings t) = task_config t"
  by (simp_all add: with_config_bindings_def split: option.split pyval.split)

lemma queue_effect_bindings [simp]:
  "queue_effect env (with_config_bindings t) key q q' r = queue_effect env t key q q' r"
  by (cases r) (simp_all add: queue_effect_def message_for_def)

definition live_engine :: "oenv \<Rightarrow> task \<Rightarrow> bool" where
  "live_engine env t = is_engine_available (oe_now env) (se_registry (oe_select env)) (task_engine_id t)"

lemma queue_task_cases:
  assumes "queue_task env t previous audio key q = (q', r)"
  obtains (language) x where "r = QueueRaised x" "q' = q"
  | (profile) p where "r = QueueFailed (CatalogInvalid (task_stage t) (task_engine_id t) p)" "p \<noteq> ''container''" "q' = q"
  | (unavailable) d where "r = QueueFailed (EngineUnavailable (task_engine_id t) (task_stage t) d)"
      "\<not> live_engine env t" "fst (wait_policy env (task_config t)) = ''fail_fast''" "q' = q"
  | (live) entry where "live_engine env t"
      "enqueue env (with_config_bindings t) entry False (snd (wait_policy env (task_config t))) previous audio key q = (q', r)"
  | (waiting) entry q1 where "\<not> live_engine env t" "stream q1 = stream q" "dedupe_keys q1 = dedupe_keys q"
      "waiting_tasks q1 = waiting_tasks q"
      "enqueue env (with_config_bindings t) entry True (snd (wait_policy env (task_config t))) previous audio key q1 = (q', r)"
proof (cases "task_language (task_config t)")
  case (Inl x)
  then show ?thesis using assms language by (auto simp: queue_task_def Let_def)
next
  case (Inr lang)
  let ?entry = "catalog_get_engine (se_catalog (oe_select env)) (task_engine_id t)"
  obtain behavior wait_s where wp: "wait_policy env (task_config t) = (behavior, wait_s)"
    by (metis surj_pair)
  show ?thesis
  proof (cases "map_option execution_profile ?entry \<noteq> None \<and> map_option execution_profile ?entry \<noteq> Some ''container''")
    case True
    then show ?thesis using assms profile Inr wp by (auto simp: queue_task_def Let_def)
  next
    case ok: False
    show ?thesis
    proof (cases "live_engine env t")
      case True
      then show ?thesis using assms live Inr wp ok
        by (auto simp: queue_task_def Let_def live_engine_def oe_now_def split: if_splits)
    next
      case False
      show ?thesis
      proof (cases "behavior = ''fail_fast''")
        case True
        then show ?thesis using assms unavailable Inr wp ok False
          by (auto simp: queue_task_def Let_def live_engine_def oe_now_def split: if_splits)
      next
        case wait: False
        let ?need = "\<lparr>need_engine = task_engine_id t, need_stage = task_stage t, need_job = task_job_id t,
           need_task = task_id t,
           need_language = (case lang of Some (PStr l) \<Rightarrow> nonempty (Some l) | _ \<Rightarrow> None)\<rparr>"
        have "enqueue env (with_config_bindings t) ?entry True wait_s previous audio key
            (q\<lparr>needs := needs q @ [?need]\<rparr>) = (q', r)"
          using assms Inr wp ok False wait
          by (auto simp: queue_task_def Let_def live_engine_def oe_now_def split: if_splits)
        then show ?thesis using waiting [of "q\<lparr>needs := needs q @ [?need]\<rparr>" ?entry] False wp by simp
      qed
    qed
  qed
qed

lemma wait_policy_nonneg:
  "0 \<le> oe_wait_timeout env \<Longrightarrow> 0 \<le> oe_stale_timeout env \<Longrightarrow> 0 \<le> snd (wait_policy env c)"
  by (simp add: wait_policy_def)

lemma queue_task_summary:
  assumes "0 \<le> oe_wait_timeout env" and "0 \<le> oe_stale_timeout env"
    and "queue_task env t previous audio key q = (q', r)"
  shows "queue_effect env t key q q' r \<and> (\<forall>e. r = QueueFailed e \<longrightarrow>
       (\<exists>p. e = CatalogInvalid (task_stage t) (task_engine_id t) p \<and> p \<noteq> ''container'')
     \<or> (\<exists>d. e = EngineUnavailable (task_engine_id t) (task_stage t) d) \<and> \<not> live_engine env t
         \<and> fst (wait_policy env (task_config t)) = ''fail_fast'')"
  using assms(3)
proof (cases rule: queue_task_cases)
  case (live entry)
  then show ?thesis using enqueue_effect [OF live(2)] by auto
next
  case (waiting entry q1)
  have "queue_effect env t key q1 q' r \<and> (\<forall>e. r \<noteq> QueueFailed e)"
    using enqueue_effect [OF waiting(5)] wait_policy_nonneg [OF assms(1,2)] by auto
  then show ?thesis using waiting(2,3) by (cases r; cases key) (auto simp: queue_effect_def)
qed (auto simp: queue_effect_def)

text \<open>Every attempt to queue a task ends in one of four ways, and the streams show which. Success
  appends exactly one message, to the stream of the task's engine, for this task and job,
  with a deadline at least a minute away, after the request document was written, and claims
  the de-duplication key if one was given. A duplicate key appends nothing. An engine error
  leaves the queues untouched, and happens only for an engine that is not a container engine
  or, in fail-fast mode, has no healthy instance. A raised exception appends nothing.\<close>

lemma queue_task_effect:
  assumes "0 \<le> oe_wait_timeout env" and "0 \<le> oe_stale_timeout env"
    and "queue_task env t previous audio key q = (q', r)"
  shows "case r of
        Queued \<Rightarrow> (\<exists>m. stream q' = stream q @ [m] \<and> message_for env t m)
          \<and> (\<exists>d. requests q' (task_id t) = Some d \<and> rq_task d = task_id t)
          \<and> (case key of None \<Rightarrow> dedupe_keys q' = dedupe_keys q
              | Some k \<Rightarrow> k \<notin> dedupe_keys q \<and> dedupe_keys q' = insert k (dedupe_keys q))
      | AlreadyQueued \<Rightarrow> (\<exists>k. key = Some k \<and> k \<in> dedupe_keys q)
          \<and> stream q' = stream q \<and> dedupe_keys q' = dedupe_keys q
      | QueueRaised x \<Rightarrow> stream q' = stream q \<and> dedupe_keys q' = dedupe_keys q
      | QueueFailed e \<Rightarrow> q' = q \<and>
          ((\<exists>p. e = CatalogInvalid (task_stage t) (task_engine_id t) p \<and> p \<noteq> ''container'')
         \<or> (\<exists>d. e = EngineUnavailable (task_engine_id t) (task_stage t) d) \<and> \<not> live_engine env t
             \<and> fst (wait_policy env (task_config t)) = ''fail_fast'')"
  using queue_task_summary [OF assms] by (cases r) (simp_all add: queue_effect_def)

definition empty_queues :: queues where
  "empty_queues = \<lparr>stream = [], dedupe_keys = {}, task_metadata = (\<lambda>_. []), metadata_ttl = (\<lambda>_. None),
     waiting_tasks = {}, needs = [], requests = (\<lambda>_. None)\<rparr>"

definition demo_queue_env :: "string \<Rightarrow> oenv" where
  "demo_queue_env behavior =
     \<lparr>oe_select = \<lparr>se_now = 100, se_registry = \<lparr>reg_instance = (\<lambda>_. None), reg_all = [],
          reg_by_engine = (\<lambda>_. []), reg_by_stage = (\<lambda>_. [])\<rparr>, se_catalog = [], se_models = None\<rparr>,
      oe_uuid = id, oe_speech_env = [], oe_unavailable_behavior = behavior, oe_wait_timeout = 300,
      oe_stale_timeout = 1800, oe_response = (\<lambda>_. None), oe_artifacts = (\<lambda>_. []),
      oe_config_error = (\<lambda>_ _. None), oe_assemble = (\<lambda>_. Inr []), oe_show_queue = (\<lambda>_. []),
      oe_show_sel = (\<lambda>_. []), oe_show_exn = (\<lambda>_. []), oe_uuid_text = str_nat\<rparr>"

definition demo_task :: task where
  "demo_task = new_task 5 7 ''prepare'' ''prep'' [] [] [] (Some ''s3://in'') 2 True"

lemma queue_task_effect_example:
  "case queue_task (demo_queue_env ''fail_fast'') demo_task [] None None empty_queues of
     (q, r) \<Rightarrow> \<exists>d. r = QueueFailed (EngineUnavailable ''prep'' ''prepare'' d)"
proof -
  let ?env = "demo_queue_env ''fail_fast''"
  obtain q r where q: "queue_task ?env demo_task [] None None empty_queues = (q, r)" by (metis surj_pair)
  have e: "0 \<le> oe_wait_timeout ?env" "0 \<le> oe_stale_timeout ?env" by (simp_all add: demo_queue_env_def)
  have "case snd (queue_task ?env demo_task [] None None empty_queues) of
      QueueFailed e \<Rightarrow> (case e of EngineUnavailable _ _ _ \<Rightarrow> True | _ \<Rightarrow> False) | _ \<Rightarrow> False" by code_simp
  then obtain a b d where r: "r = QueueFailed (EngineUnavailable a b d)"
    using q by (auto split: queue_outcome.splits queue_error.splits)
  have "a = ''prep''" "b = ''prepare''"
    using queue_task_effect [OF e q] r by (simp_all add: demo_task_def new_task_def)
  then show ?thesis using q r by simp
qed

end
