(* ===== verification/PostProcessor.thy ===== *)
theory PostProcessor
  imports Scheduler
begin

text \<open>
  Summary statistics of a transcript (\<open>dalston/orchestrator/stats.py\<close>) and the enrichments
  scheduled after a job's core pipeline (\<open>dalston/orchestrator/post_processor.py\<close>): PII
  detection and audio redaction tasks, their tracking hash, and the patch of the transcript
  with their results. \<open>strip_channel\<close> and \<open>gather_previous_responses\<close> are the parts of
  \<open>handlers.py\<close> this module calls.
\<close>

section \<open>Statistics\<close>

definition extract_stats_from_transcript :: "dict \<Rightarrow> exn + job_stats" where
  "extract_stats_from_transcript tr =
     bind_res (py_len (dget_or tr ''segments'' (PList []))) (\<lambda>segments.
     bind_res (py_len (dget_or tr ''speakers'' (PList []))) (\<lambda>speakers.
       case dget_or tr ''metadata'' (PDict []) of
         PDict meta \<Rightarrow>
           (let raw = dget_or meta ''speaker_count'' (PInt (int speakers));
                text = dget_or tr ''text'' (PStr [])
            in bind_res (gt_zero raw) (\<lambda>some.
               bind_res (if truthy text
                         then (case text of PStr s \<Rightarrow> Inr (word_count False s, length (str_strip s))
                               | _ \<Rightarrow> Inl AttributeError)
                         else Inr (0, 0)) (\<lambda>(words, chars).
                 Inr \<lparr>st_language = (if words > 0 then dget_or meta ''language'' PNone else PNone),
                      st_words = words, st_segments = segments,
                      st_speakers = (if some then raw else PNone), st_characters = chars\<rparr>)))
       | _ \<Rightarrow> Inl AttributeError))"

section \<open>Outputs of dependencies\<close>

text \<open>\<open>re.sub(r"_ch\d+$", "", stage)\<close>.\<close>

definition strip_channel :: "string \<Rightarrow> string" where
  "strip_channel s =
     (let digits = takeWhile is_digit (rev s);
          rest = dropWhile is_digit (rev s)
      in if digits \<noteq> [] \<and> take 3 rest = ''hc_'' then rev (drop 3 rest) else s)"

text \<open>\<open>output and "data" in output\<close>, then \<open>output["data"]\<close>.\<close>

definition response_data :: "oenv \<Rightarrow> uuid \<Rightarrow> pyval option" where
  "response_data env i =
     (case oe_response env i of None \<Rightarrow> None | Some d \<Rightarrow> dget d ''data'')"

definition add_response :: "string \<Rightarrow> pyval \<Rightarrow> dict \<Rightarrow> dict" where
  "add_response stage v d =
     (let d1 = dset stage v d; b = strip_channel stage
      in if b \<noteq> stage then dset b v d1 else d1)"

fun gather_previous_responses :: "oenv \<Rightarrow> task list \<Rightarrow> dict \<Rightarrow> uuid list \<Rightarrow> dict" where
  "gather_previous_responses env all acc [] = acc"
| "gather_previous_responses env all acc (i # is) =
     (case List.find (\<lambda>t. task_id t = i) all of
        None \<Rightarrow> gather_previous_responses env all acc is
      | Some t \<Rightarrow>
          (case response_data env i of
             None \<Rightarrow> gather_previous_responses env all acc is
           | Some v \<Rightarrow> gather_previous_responses env all (add_response (task_stage t) v acc) is))"

section \<open>Building the enrichment tasks\<close>

definition VALID_PII_REDACTION_MODES :: "string list" where
  "VALID_PII_REDACTION_MODES = [''silence'', ''beep'']"

definition needs_post_processing :: "dict \<Rightarrow> bool" where
  "needs_post_processing params = truthy_opt (dget params ''pii_detection'')"

definition is_post_processing_task :: "task \<Rightarrow> bool" where
  "is_post_processing_task t = truthy_opt (dget (task_config t) ''post_processing'')"

definition pii_detect_task :: "uuid \<Rightarrow> uuid \<Rightarrow> dict \<Rightarrow> (string \<times> pyval) list \<Rightarrow> task" where
  "pii_detect_task i job params loaded =
     new_task i job ''pii_detect'' (default_engine ''pii_detect'') [] []
       (set_opt ''loaded_model_id'' (dget loaded ''pii_detect'')
         [(''entity_types'', dget_or params ''pii_entity_types'' PNone),
          (''confidence_threshold'', dget_or params ''pii_confidence_threshold''
             (PFloat DEFAULT_PII_CONFIDENCE_THRESHOLD)),
          (''post_processing'', PBool True)])
       None POST_PROCESSOR_MAX_RETRIES False"

definition audio_redact_task :: "uuid \<Rightarrow> uuid \<Rightarrow> uuid \<Rightarrow> pyval \<Rightarrow> dict \<Rightarrow> task" where
  "audio_redact_task i job pii mode params =
     new_task i job ''audio_redact'' (default_engine ''audio_redact'') [pii]
       (audio_input_binding None)
       [(''redaction_mode'', mode),
        (''buffer_ms'', dget_or params ''pii_buffer_ms'' (PInt DEFAULT_PII_BUFFER_MS)),
        (''post_processing'', PBool True)]
       None POST_PROCESSOR_MAX_RETRIES False"

definition build_post_processing_tasks ::
  "(nat \<Rightarrow> uuid) \<Rightarrow> uuid \<Rightarrow> dict \<Rightarrow> (string \<times> pyval) list \<Rightarrow> exn + task list" where
  "build_post_processing_tasks u job params loaded =
     (let pii = pii_detect_task (u 0) job params loaded
      in if truthy_opt (dget params ''redact_pii_audio'')
         then (let mode = dget_or params ''pii_redaction_mode'' (PStr ''silence'')
               in bind_res (in_str_set mode VALID_PII_REDACTION_MODES) (\<lambda>known.
                    Inr [pii, audio_redact_task (u 1) job (task_id pii)
                                (if known then mode else PStr ''silence'') params]))
         else Inr [pii])"

section \<open>Scheduling them\<close>

text \<open>The persisted row keeps the bindings under \<open>config["input_bindings"]\<close>; the table has no
  column for them.\<close>

definition enrichment_row :: "task \<Rightarrow> task" where
  "enrichment_row t =
     t\<lparr>task_config := (if input_bindings t = [] then task_config t
                      else dset ''input_bindings'' (PList (input_bindings t)) (task_config t)),
       input_bindings := []\<rparr>"

definition set_enrichments :: "uuid \<Rightarrow> (string \<times> enrichment_status) list \<Rightarrow> world \<Rightarrow> world" where
  "set_enrichments j kvs w =
     w\<lparr>enrichments := (enrichments w)(j := dmerge (enrichments w j) kvs)\<rparr>"

definition mark_enrichment_status :: "uuid \<Rightarrow> string \<Rightarrow> enrichment_status \<Rightarrow> world \<Rightarrow> world" where
  "mark_enrichment_status j stage s w = set_enrichments j [(stage, s)] w"

definition check_post_processing_completion :: "uuid \<Rightarrow> world \<Rightarrow> bool" where
  "check_post_processing_completion j w \<longleftrightarrow>
     (\<forall>(stage, s) \<in> set (enrichments w j). s = EnCompleted \<or> s = EnFailed)"

definition pii_inputs :: "task list \<Rightarrow> uuid list" where
  "pii_inputs all = map task_id (filter (\<lambda>t.
     strip_channel (task_stage t) \<in> {''transcribe'', ''align'', ''diarize''}
     \<and> task_state t = TCompleted) all)"

text \<open>
  Persisting fails as a whole when a stage already exists for the job. Afterwards the first
  task is made ready and queued; if that raises, its enrichment is marked failed. The caller
  logs whatever escapes, so only the state is returned.
\<close>

definition schedule_post_processing :: "oenv \<Rightarrow> uuid \<Rightarrow> dict \<Rightarrow> world \<Rightarrow> world" where
  "schedule_post_processing env j params w =
     (let model = dget params ''model_pii_detect'';
          loaded = (if truthy_opt model then [(''pii_detect'', the model)] else [])
      in case build_post_processing_tasks (oe_uuid env) j params loaded of
           Inl x \<Rightarrow> w
         | Inr ts \<Rightarrow>
             (if \<exists>t \<in> set ts. task_stage t \<in> set (map task_stage (job_tasks w j)) then w
              else
                (let first = hd ts;
                     w1 = w\<lparr>tasks := tasks w @ map enrichment_row ts\<rparr>;
                     w2 = set_enrichments j (map (\<lambda>t. (task_stage t, EnPending)) ts) w1;
                     w3 = upd_task (task_id first) (\<lambda>t. t\<lparr>task_state := TReady\<rparr>) w2;
                     all = job_tasks w3 j;
                     (q, r) = queue_task env first
                                (gather_previous_responses env all [] (pii_inputs all)) None None
                                (queues_of w3);
                     w4 = w3\<lparr>queues_of := q\<rparr>
                 in case r of
                      Queued \<Rightarrow> w4
                    | AlreadyQueued \<Rightarrow> w4
                    | _ \<Rightarrow> mark_enrichment_status j (task_stage first) EnFailed w4)))"

section \<open>Patching the transcript\<close>

definition enrichment_result :: "string \<Rightarrow> task list \<Rightarrow> task option" where
  "enrichment_result stage all = List.find (\<lambda>t. task_stage t = stage
     \<and> is_post_processing_task t \<and> task_state t = TCompleted) all"

definition redact_keys :: "string list" where
  "redact_keys = [''redaction_map'', ''redacted_audio_artifact_id'', ''entities_redacted'']"

text \<open>The keys copied from the redaction output; \<open>k in v\<close> and \<open>v[k]\<close> of a non-dictionary fail
  as in Python.\<close>

fun redact_fields :: "pyval \<Rightarrow> exn + dict" where
  "redact_fields (PDict d) =
     Inr (List.map_filter (\<lambda>k. map_option (Pair k) (dget d k)) redact_keys)"
| "redact_fields (PStr s) = (if \<exists>k \<in> set redact_keys. str_contains k s then Inl TypeError else Inr [])"
| "redact_fields (PList xs) = (if \<exists>k \<in> set redact_keys. PStr k \<in> set xs then Inl TypeError else Inr [])"
| "redact_fields _ = Inl TypeError"

definition pii_metadata :: "string \<Rightarrow> dict \<Rightarrow> pyval \<Rightarrow> exn + (dict \<times> nat)" where
  "pii_metadata eng pii redact =
     bind_res (py_len (dget_or pii ''pii_entities'' (PList []))) (\<lambda>n.
       let m = [(''detection_engine'', PStr eng), (''entities_detected'', PInt (int n))]
       in if truthy redact
          then bind_res (redact_fields redact) (\<lambda>kvs.
                 Inr (dmerge (dset ''audio_redacted'' (PBool True) m) kvs, n))
          else Inr (m, n))"

definition update_transcript_with_pii :: "oenv \<Rightarrow> uuid \<Rightarrow> world \<Rightarrow> world" where
  "update_transcript_with_pii env j w =
     (let all = job_tasks w j
      in case enrichment_result ''pii_detect'' all of
           None \<Rightarrow> w
         | Some t \<Rightarrow>
             (case response_data env (task_id t) of
                Some (PDict pii) \<Rightarrow>
                  (let redact = (case enrichment_result ''audio_redact'' all of
                                   None \<Rightarrow> PDict []
                                 | Some r \<Rightarrow> (case response_data env (task_id r) of
                                              None \<Rightarrow> PDict [] | Some v \<Rightarrow> v))
                   in case (transcripts w j, pii_metadata (task_engine_id t) pii redact) of
                        (Some tr, Inr (m, n)) \<Rightarrow>
                          (let tr1 = set_opt ''redacted_text'' (dget pii ''redacted_text'') tr;
                               tr2 = set_opt ''pii_entities'' (dget pii ''pii_entities'') tr1;
                               tr3 = dset ''pii_metadata'' (PDict m) tr2
                           in upd_job j (\<lambda>job. job\<lparr>job_pii_entities := Some n,
                                job_pii_audio_uri :=
                                  (case dget m ''redacted_audio_artifact_id'' of
                                     Some v \<Rightarrow> Some v | None \<Rightarrow> job_pii_audio_uri job)\<rparr>)
                                (w\<lparr>transcripts := (transcripts w)(j := Some tr3)\<rparr>))
                      | _ \<Rightarrow> w)
              | _ \<Rightarrow> w))"

end
