(* ===== verification/Handlers.thy ===== *)
theory Handlers
  imports PostProcessor
begin

text \<open>
  The event handlers of \<open>dalston/orchestrator/handlers.py\<close>, each as a function from the
  state to the state it leaves, together with the exception it lets escape, if any. A
  handler runs to its end or to that exception: interleavings of two handlers inside one
  another are not modelled, sequences of handled events are. Also the gateway's two entry
  points that change the same rows: job submission and \<open>cancel_job\<close>.
\<close>

type_synonym handled = "world \<times> exn option"

definition retry_enqueue_dedupe_key :: "uuid \<Rightarrow> int \<Rightarrow> dedupe_key" where
  "retry_enqueue_dedupe_key i n = (i, n)"

definition engine_profile :: "oenv \<Rightarrow> string \<Rightarrow> string" where
  "engine_profile env e =
     (case catalog_get_engine (se_catalog (oe_select env)) e of
        None \<Rightarrow> ''unknown'' | Some c \<Rightarrow> execution_profile c)"

definition is_non_retryable_task_error :: "string \<Rightarrow> bool" where
  "is_non_retryable_task_error err =
     (let lowered = str_lower err
      in if \<not> str_contains ''is not found or cannot be loaded'' lowered then False
         else list_ex (\<lambda>m. str_contains m lowered)
                [''libcublas'', ''libcudnn'', ''libcuda'', ''libnvrtc''])"

text \<open>\<open>a or b\<close> on optional text.\<close>

definition or_text :: "string option \<Rightarrow> string \<Rightarrow> string" where
  "or_text v d = (case nonempty v of Some s \<Rightarrow> s | None \<Rightarrow> d)"

section \<open>Failing a job\<close>

definition fail_job :: "oenv \<Rightarrow> uuid \<Rightarrow> string \<Rightarrow> world \<Rightarrow> world" where
  "fail_job env j err w =
     upd_job j (\<lambda>r. r\<lparr>job_state := JFailed, job_error := Some err,
                   job_completed_at := Some (oe_now env)\<rparr>) w"

text \<open>Failing a job on the spot: mark the row, release the slot, publish.\<close>

definition fail_job_now :: "oenv \<Rightarrow> uuid \<Rightarrow> uuid \<Rightarrow> string \<Rightarrow> world \<Rightarrow> world" where
  "fail_job_now env j tenant err w =
     emit (JobFailedEvent j err) (decrement_concurrent_jobs j tenant (fail_job env j err w))"

definition ensure_job_failed_side_effects :: "oenv \<Rightarrow> string \<Rightarrow> uuid \<Rightarrow> string \<Rightarrow> world \<Rightarrow> world" where
  "ensure_job_failed_side_effects env stage j err w =
     (case jobs w j of
        None \<Rightarrow> w
      | Some job \<Rightarrow>
          (let fresh = (job_state job \<noteq> JFailed \<and> job_state job \<noteq> JCancelled);
               text = ''Task '' @ stage @ '' failed: '' @ err;
               w1 = (if fresh
                     then (let w0 = fail_job env j text w;
                               w0' = (if job_started_at job \<noteq> None
                                      then measure_metric DecInProgress w0 else w0)
                           in measure_metric (IncJobs ''failed'') w0')
                     else w);
               shown = (if fresh then text else or_text (job_error job) err)
           in emit (JobFailedEvent j shown) (decrement_concurrent_jobs j (job_tenant job) w1)))"

section \<open>job.created\<close>

definition audio_metadata_of :: "job_row \<Rightarrow> dict option" where
  "audio_metadata_of job =
     (case job_audio_format job of
        None \<Rightarrow> None
      | Some f \<Rightarrow> Some
          [(''format'', PStr f),
           (''duration'', case job_audio_duration job of None \<Rightarrow> PNone | Some d \<Rightarrow> PFloat d),
           (''sample_rate'', case job_audio_sample_rate job of None \<Rightarrow> PNone | Some n \<Rightarrow> PInt n),
           (''channels'', case job_audio_channels job of None \<Rightarrow> PNone | Some n \<Rightarrow> PInt n),
           (''bit_depth'', case job_audio_bit_depth job of None \<Rightarrow> PNone | Some n \<Rightarrow> PInt n)])"

definition pipeline_row :: "task \<Rightarrow> task" where
  "pipeline_row t =
     t\<lparr>task_config := (if input_bindings t = [] then task_config t
                      else dset ''request_bindings'' (PList (input_bindings t)) (task_config t)),
       input_bindings := []\<rparr>"

fun queue_initial_tasks ::
  "oenv \<Rightarrow> uuid \<Rightarrow> uuid \<Rightarrow> dict option \<Rightarrow> world \<Rightarrow> task list \<Rightarrow> handled" where
  "queue_initial_tasks env j tenant audio w [] = (w, None)"
| "queue_initial_tasks env j tenant audio w (t # ts) =
     (if dependencies t \<noteq> [] then queue_initial_tasks env j tenant audio w ts
      else
        (let w1 = upd_task (task_id t) (\<lambda>r. r\<lparr>task_state := TReady, ready_at := Some (oe_now env)\<rparr>) w;
             (q, r) = queue_task env t [] (if task_stage t = ''prepare'' then audio else None) None
                        (queues_of w1);
             w2 = w1\<lparr>queues_of := q\<rparr>
         in case r of
              QueueRaised x \<Rightarrow> (w2, Some x)
            | QueueFailed e \<Rightarrow>
                (let text = oe_show_queue env e;
                     w3 = decrement_concurrent_jobs j tenant (fail_job env j text w2);
                     w4 = measure_metric (IncJobs ''failed'') (measure_metric DecInProgress w3)
                 in (emit (JobFailedEvent j text) w4, None))
            | _ \<Rightarrow> queue_initial_tasks env j tenant audio
                    (measure_metric (TaskScheduled (task_engine_id t) (task_stage t)
                       (engine_profile env (task_engine_id t))) w2) ts))"

definition handle_job_created :: "oenv \<Rightarrow> uuid \<Rightarrow> world \<Rightarrow> handled" where
  "handle_job_created env j w =
     (case jobs w j of
        None \<Rightarrow> (w, None)
      | Some job \<Rightarrow>
          if job_state job = JCancelling \<or> job_state job = JCancelled then (w, None)
          else if job_state job = JRunning then (w, None)
          else if job_tasks w j \<noteq> [] then (w, None)
          else
            (case build_task_dag (oe_select env) (oe_uuid env) (oe_speech_env env) j
                    (job_audio_uri job) (job_parameters job) of
               Inl (DagExn x) \<Rightarrow> (w, Some x)
             | Inl (DagSelection (SelectorExn x)) \<Rightarrow> (w, Some x)
             | Inl (DagSelection e) \<Rightarrow>
                 (fail_job_now env j (job_tenant job) (oe_show_sel env e) w, None)
             | Inr ts \<Rightarrow>
                 (if \<not> distinct (map task_stage ts) then (w, None)
                  else
                    (let w1 = w\<lparr>tasks := tasks w @ map pipeline_row ts\<rparr>;
                         w2 = upd_job j (\<lambda>r. r\<lparr>job_state := JRunning,
                                job_started_at := Some (oe_now env)\<rparr>) w1;
                         w3 = measure_metric IncInProgress w2
                     in queue_initial_tasks env j (job_tenant job) (audio_metadata_of job) w3 ts))))"

section \<open>task.started\<close>

text \<open>One conditional update: the claim succeeds only on a \<open>READY\<close> row.\<close>

definition handle_task_started :: "oenv \<Rightarrow> uuid \<Rightarrow> world \<Rightarrow> world" where
  "handle_task_started env i w =
     upd_tasks (\<lambda>t. task_id t = i \<and> task_state t = TReady)
       (\<lambda>t. t\<lparr>task_state := TRunning, task_started_at := Some (oe_now env)\<rparr>) w"

section \<open>Completing a job\<close>

fun unpack_stages :: "dict \<Rightarrow> pyval list \<Rightarrow> dict \<times> string list \<Rightarrow> exn + (dict \<times> string list)" where
  "unpack_stages d [] acc = Inr acc"
| "unpack_stages d (v # vs) (outs, done) =
     (case v of
        PStr k \<Rightarrow>
          (case dget d k of
             Some x \<Rightarrow> unpack_stages d vs
                        (dset k x outs, if k \<in> set done then done else done @ [k])
           | None \<Rightarrow> unpack_stages d vs (outs, done))
      | _ \<Rightarrow> if hashable v then unpack_stages d vs (outs, done) else Inl TypeError)"

fun gather_stage_outputs ::
  "oenv \<Rightarrow> task list \<Rightarrow> dict \<times> string list \<Rightarrow> exn + (dict \<times> string list)" where
  "gather_stage_outputs env [] acc = Inr acc"
| "gather_stage_outputs env (t # ts) (outs, done) =
     (if task_state t \<noteq> TCompleted then gather_stage_outputs env ts (outs, done)
      else (case response_data env (task_id t) of
              None \<Rightarrow> gather_stage_outputs env ts (outs, done)
            | Some v \<Rightarrow>
                (case (case v of PDict d \<Rightarrow> map_option (Pair d) (dget d ''stages_completed'') | _ \<Rightarrow> None) of
                   Some (d, ks) \<Rightarrow> bind_res (bind_res (py_iter ks) (\<lambda>l. unpack_stages d l (outs, done)))
                                    (gather_stage_outputs env ts)
                 | None \<Rightarrow> gather_stage_outputs env ts
                             (dset (task_stage t) v outs, done @ [task_stage t]))))"

definition assembly_of :: "uuid \<Rightarrow> dict \<Rightarrow> dict \<Rightarrow> string list \<Rightarrow> assembly" where
  "assembly_of j params outs stages =
     (let sd = dget_or params ''speaker_detection'' (PStr ''none'')
      in \<lparr>as_job = j, as_outputs = outs, as_stages = stages,
          as_channels = (if sd = PStr ''per_channel''
                         then Some (dget_or params ''num_channels'' (PInt 2)) else None),
          as_speaker_detection = sd,
          as_words = (case dget params ''timestamps_granularity'' of
                        Some g \<Rightarrow> PBool (g = PStr ''word'')
                      | None \<Rightarrow> dget_or params ''word_timestamps'' (PBool True)),
          as_names = dget params ''known_speaker_names''\<rparr>)"

definition assemble_linear_transcript :: "oenv \<Rightarrow> uuid \<Rightarrow> dict \<Rightarrow> task list \<Rightarrow> exn + dict" where
  "assemble_linear_transcript env j params all =
     bind_res (gather_stage_outputs env all ([], [])) (\<lambda>(outs, stages).
       oe_assemble env (assembly_of j params outs stages))"

definition populate_job_result_stats :: "dict \<Rightarrow> job_row \<Rightarrow> job_row" where
  "populate_job_result_stats tr job =
     (case extract_stats_from_transcript tr of
        Inl x \<Rightarrow> job
      | Inr s \<Rightarrow> job\<lparr>job_result := Some s\<rparr>)"

definition completion_metrics :: "oenv \<Rightarrow> job_row \<Rightarrow> task list \<Rightarrow> metric list" where
  "completion_metrics env job pipeline =
     (case job_started_at job of
        None \<Rightarrow> []
      | Some t0 \<Rightarrow>
          (let eng = (case List.find (\<lambda>t. task_stage t = ''transcribe'') pipeline of
                        Some t \<Rightarrow> task_engine_id t | None \<Rightarrow> []);
               model = dget_or (job_parameters job) ''model'' (PStr [])
           in JobDuration eng model (oe_now env - t0)
              # (case job_audio_duration job of
                   None \<Rightarrow> []
                 | Some d \<Rightarrow> if d > 0 then [AudioDuration eng model d] else [])))"

text \<open>The outcome of a finished pipeline: the row it leaves and the transcript it stores.\<close>

definition job_outcome :: "oenv \<Rightarrow> uuid \<Rightarrow> job_row \<Rightarrow> task list \<Rightarrow> bool \<Rightarrow> job_row \<times> dict option" where
  "job_outcome env j job all any_failed =
     (if any_failed
      then (job\<lparr>job_state := JFailed,
              job_error := Some (or_text (job_error job) ''One or more required tasks failed'')\<rparr>, None)
      else (case assemble_linear_transcript env j (job_parameters job) all of
              Inl x \<Rightarrow> (job\<lparr>job_state := JFailed,
                         job_error := Some (''Transcript assembly failed: '' @ oe_show_exn env x)\<rparr>, None)
            | Inr tr \<Rightarrow> (populate_job_result_stats tr (job\<lparr>job_state := JCompleted\<rparr>), Some tr)))"

text \<open>Storing the outcome: transcript, metrics, row, artifacts, slot, event.\<close>

definition finalise_job ::
  "oenv \<Rightarrow> uuid \<Rightarrow> job_row \<Rightarrow> job_row \<Rightarrow> dict option \<Rightarrow> task list \<Rightarrow> world \<Rightarrow> world" where
  "finalise_job env j job job1 tr pipeline w =
     (let failed = (job_state job1 = JFailed);
          w1 = (case tr of None \<Rightarrow> w | Some x \<Rightarrow> w\<lparr>transcripts := (transcripts w)(j := Some x)\<rparr>);
          w2 = (if job_started_at job \<noteq> None then measure_metric DecInProgress w1 else w1);
          w3 = (if failed then measure_metric (IncJobs ''failed'') w2
                else fold measure_metric (completion_metrics env job pipeline)
                       (measure_metric (IncJobs ''completed'') w2));
          w4 = upd_job j (\<lambda>_. job1\<lparr>job_completed_at := Some (oe_now env)\<rparr>)
                 (w3\<lparr>artifacts_available := (artifacts_available w3)(j := Some (oe_now env))\<rparr>)
      in emit (if failed then JobFailedEvent j (or_text (job_error job1) ''Unknown error'')
               else JobCompletedEvent j)
           (decrement_concurrent_jobs j (job_tenant job) w4))"

definition check_job_completion :: "oenv \<Rightarrow> uuid \<Rightarrow> world \<Rightarrow> world" where
  "check_job_completion env j w =
     (let all = job_tasks w j;
          pipeline = filter (\<lambda>t. \<not> is_post_processing_task t) all
      in if \<not> (\<forall>t \<in> set pipeline. task_state t \<in> terminal_task_states) then w
         else
           (let any_failed = (\<exists>t \<in> set pipeline. task_state t = TFailed \<and> task_required t)
            in case jobs w j of
                 None \<Rightarrow> w
               | Some job \<Rightarrow>
                   if job_state job \<in> {JCompleted, JFailed, JCancelled} then w
                   else
                     (let (job1, tr) = job_outcome env j job all any_failed;
                          w1 = finalise_job env j job job1 tr pipeline w
                      in if \<not> any_failed \<and> needs_post_processing (job_parameters job)
                         then schedule_post_processing env j (job_parameters job) w1
                         else w1)))"

section \<open>Cancellation\<close>

definition check_job_cancellation_complete :: "oenv \<Rightarrow> uuid \<Rightarrow> world \<Rightarrow> world" where
  "check_job_cancellation_complete env j w =
     (case jobs w j of
        None \<Rightarrow> w
      | Some job \<Rightarrow>
          if job_state job \<noteq> JCancelling then w
          else if \<exists>t \<in> set (job_tasks w j). task_state t = TRunning then w
          else
            (let w1 = upd_job j (\<lambda>r. r\<lparr>job_state := JCancelled,
                                job_completed_at := Some (oe_now env)\<rparr>) w;
                 w2 = decrement_concurrent_jobs j (job_tenant job) w1;
                 w3 = measure_metric (IncJobs ''cancelled'') w2;
                 w4 = (if job_started_at job \<noteq> None then measure_metric DecInProgress w3 else w3)
             in emit (JobCancelledEvent j) w4))"

definition handle_job_cancel_requested :: "oenv \<Rightarrow> uuid \<Rightarrow> world \<Rightarrow> world" where
  "handle_job_cancel_requested env j w =
     (let w1 = w\<lparr>cancel_flags := insert j (cancel_flags w)\<rparr>;
          w2 = upd_tasks (\<lambda>t. task_job_id t = j \<and> (task_state t = TPending \<or> task_state t = TReady))
                 (\<lambda>t. t\<lparr>task_state := TCancelled\<rparr>) w1
      in check_job_cancellation_complete env j w2)"

section \<open>task.completed\<close>

text \<open>The duration reported by the prepare stage: \<open>data["channel_files"][0]["duration"]\<close>, with the
  exceptions of every other shape.\<close>

fun first_item :: "pyval \<Rightarrow> exn + pyval option" where
  "first_item (PList (x # _)) = Inr (Some x)"
| "first_item (PStr (c # _)) = Inr (Some (PStr [c]))"
| "first_item (PDict (_ # _)) = Inl (KeyError ''0'')"
| "first_item v = (if truthy v then Inl TypeError else Inr None)"

fun duration_in :: "pyval \<Rightarrow> exn + pyval option" where
  "duration_in (PDict d) = Inr (dget d ''duration'')"
| "duration_in (PStr s) = (if str_contains ''duration'' s then Inl TypeError else Inr None)"
| "duration_in (PList xs) = (if PStr ''duration'' \<in> set xs then Inl TypeError else Inr None)"
| "duration_in _ = Inl TypeError"

fun prepared_duration :: "pyval \<Rightarrow> exn + pyval option" where
  "prepared_duration (PDict d) =
     bind_res (first_item (dget_or d ''channel_files'' (PList []))) (\<lambda>x.
       case x of None \<Rightarrow> Inr None | Some v \<Rightarrow> duration_in v)"
| "prepared_duration _ = Inl AttributeError"

definition update_audio_duration :: "oenv \<Rightarrow> task \<Rightarrow> world \<Rightarrow> handled" where
  "update_audio_duration env t w =
     (if task_stage t \<noteq> ''prepare'' then (w, None)
      else (case jobs w (task_job_id t) of
              None \<Rightarrow> (w, None)
            | Some job \<Rightarrow>
                if job_audio_duration job \<noteq> None then (w, None)
                else (case response_data env (task_id t) of
                        None \<Rightarrow> (w, None)
                      | Some data \<Rightarrow>
                          (case prepared_duration data of
                             Inl x \<Rightarrow> (w, Some x)
                           | Inr None \<Rightarrow> (w, None)
                           | Inr (Some v) \<Rightarrow>
                               (case as_number v of
                                  Inl x \<Rightarrow> (w, Some x)
                                | Inr d \<Rightarrow> (upd_job (task_job_id t)
                                             (\<lambda>r. r\<lparr>job_audio_duration := d\<rparr>) w, None))))))"

text \<open>Marking the task: first completion changes the row, a replay leaves it.\<close>

definition mark_task_completed :: "oenv \<Rightarrow> task \<Rightarrow> world \<Rightarrow> world" where
  "mark_task_completed env t w =
     (if task_state t = TCompleted \<or> task_state t = TSkipped then w
      else measure_metric (TaskFinished (task_engine_id t) ''success'' (engine_profile env (task_engine_id t)))
             (upd_task (task_id t) (\<lambda>r. r\<lparr>task_state := TCompleted, task_error := None,
                task_completed_at := Some (oe_now env)\<rparr>) w))"

definition track_enrichment :: "oenv \<Rightarrow> task \<Rightarrow> world \<Rightarrow> world" where
  "track_enrichment env t w =
     (if is_post_processing_task t \<and> task_state t = TCompleted
      then (let w1 = mark_enrichment_status (task_job_id t) (task_stage t) EnCompleted w
            in if check_post_processing_completion (task_job_id t) w1
               then update_transcript_with_pii env (task_job_id t) w1 else w1)
      else w)"

datatype loop = Continue world | Stop world "exn option"

text \<open>Claiming one dependent, by the conditional update \<open>PENDING\<close> to \<open>READY\<close> of its current row,
  and queueing it with the outputs of its dependencies.\<close>

definition claim_ready :: "oenv \<Rightarrow> task \<Rightarrow> task" where
  "claim_ready env r = r\<lparr>task_state := TReady, ready_at := Some (oe_now env)\<rparr>"

definition queue_dependent :: "oenv \<Rightarrow> task list \<Rightarrow> task \<Rightarrow> world \<Rightarrow> world \<times> queue_outcome" where
  "queue_dependent env snapshot cur w =
     (let w1 = upd_task (task_id cur) (claim_ready env) w;
          (q, r) = queue_task env (claim_ready env cur)
                     (gather_previous_responses env snapshot [] (dependencies cur)) None None
                     (queues_of w1)
      in (w1\<lparr>queues_of := q\<rparr>, r))"

definition scheduled_metric :: "oenv \<Rightarrow> task \<Rightarrow> metric" where
  "scheduled_metric env t =
     TaskScheduled (task_engine_id t) (task_stage t) (engine_profile env (task_engine_id t))"

text \<open>The loop over the snapshot of the job's tasks.\<close>

fun queue_dependents ::
  "oenv \<Rightarrow> uuid \<Rightarrow> task list \<Rightarrow> uuid set \<Rightarrow> world \<Rightarrow> task list \<Rightarrow> loop" where
  "queue_dependents env j snapshot completed w [] = Continue w"
| "queue_dependents env j snapshot completed w (d # ds) =
     (if task_state d \<noteq> TPending \<or> \<not> set (dependencies d) \<subseteq> completed
      then queue_dependents env j snapshot completed w ds
      else
        (case get_task w (task_id d) of
           None \<Rightarrow> queue_dependents env j snapshot completed w ds
         | Some cur \<Rightarrow>
             if task_state cur \<noteq> TPending then queue_dependents env j snapshot completed w ds
             else
               (case queue_dependent env snapshot cur w of
                  (w2, QueueRaised x) \<Rightarrow> Stop w2 (Some x)
                | (w2, QueueFailed e) \<Rightarrow>
                    (case jobs w2 j of
                       None \<Rightarrow> Stop w2 None
                     | Some job \<Rightarrow> Stop (fail_job_now env j (job_tenant job) (oe_show_queue env e) w2) None)
                | (w2, _) \<Rightarrow> queue_dependents env j snapshot completed
                              (measure_metric (scheduled_metric env cur) w2) ds)))"

definition completed_ids :: "task list \<Rightarrow> uuid set" where
  "completed_ids ts = task_id ` set (filter (\<lambda>t. task_state t = TCompleted) ts)"

text \<open>Dependents, cancellation and completion, after the task's own row is settled.\<close>

definition advance_job :: "oenv \<Rightarrow> uuid \<Rightarrow> world \<Rightarrow> handled" where
  "advance_job env j w =
     (let all = job_tasks w j
      in if map_option job_state (jobs w j) = Some JCancelling
         then (check_job_cancellation_complete env j
                 (upd_tasks (\<lambda>t. task_job_id t = j \<and> task_state t = TPending)
                    (\<lambda>t. t\<lparr>task_state := TCancelled\<rparr>) w), None)
         else (case queue_dependents env j all (completed_ids all) w all of
                 Stop w' x \<Rightarrow> (w', x)
               | Continue w' \<Rightarrow> (check_job_completion env j w', None)))"

definition handle_task_completed :: "oenv \<Rightarrow> uuid \<Rightarrow> world \<Rightarrow> handled" where
  "handle_task_completed env i w =
     (case get_task w i of
        None \<Rightarrow> (w, None)
      | Some t0 \<Rightarrow>
          (let w1 = mark_task_completed env t0 w
           in case get_task w1 i of
                None \<Rightarrow> (w1, None)
              | Some t \<Rightarrow>
                  (case update_audio_duration env t (track_enrichment env t w1) of
                     (w2, Some x) \<Rightarrow> (w2, Some x)
                   | (w2, None) \<Rightarrow> advance_job env (task_job_id t) w2)))"

section \<open>task.failed and task.wait_timeout\<close>

text \<open>A queue attempt of a retry: on an engine error the task, then the job, fails.\<close>

definition queue_retry :: "oenv \<Rightarrow> uuid \<Rightarrow> world \<Rightarrow> handled" where
  "queue_retry env i w =
     (case get_task w i of
        None \<Rightarrow> (w, None)
      | Some t \<Rightarrow>
          (let (q, r) = queue_task env t
                 (gather_previous_responses env (job_tasks w (task_job_id t)) [] (dependencies t)) None
                 (Some (retry_enqueue_dedupe_key i (retries t))) (queues_of w);
               w1 = w\<lparr>queues_of := q\<rparr>
           in case r of
                QueueRaised x \<Rightarrow> (w1, Some x)
              | QueueFailed e \<Rightarrow>
                  (let text = oe_show_queue env e
                   in (ensure_job_failed_side_effects env (task_stage t) (task_job_id t) text
                         (upd_task i (\<lambda>r. r\<lparr>task_state := TFailed, task_error := Some text\<rparr>) w1), None))
              | _ \<Rightarrow> (w1, None)))"

definition handle_task_failed :: "oenv \<Rightarrow> uuid \<Rightarrow> string \<Rightarrow> world \<Rightarrow> handled" where
  "handle_task_failed env i err w =
     (case get_task w i of
        None \<Rightarrow> (w, None)
      | Some t \<Rightarrow>
          (case task_state t of
             TSkipped \<Rightarrow> handle_task_completed env i w
           | TFailed \<Rightarrow> (ensure_job_failed_side_effects env (task_stage t) (task_job_id t)
                          (or_text (task_error t) err) w, None)
           | TReady \<Rightarrow> queue_retry env i w
           | TRunning \<Rightarrow>
               if \<not> is_non_retryable_task_error err \<and> retries t < max_retries t
               then queue_retry env i (upd_task i (\<lambda>r. r\<lparr>retries := retries r + 1,
                      task_state := TReady, ready_at := Some (oe_now env), task_error := Some err\<rparr>) w)
               else if \<not> task_required t
               then (let w1 = upd_task i (\<lambda>r. r\<lparr>task_state := TSkipped, task_error := Some err\<rparr>) w;
                         w2 = (if is_post_processing_task t
                               then mark_enrichment_status (task_job_id t) (task_stage t) EnFailed w1
                               else w1)
                     in handle_task_completed env i w2)
               else (ensure_job_failed_side_effects env (task_stage t) (task_job_id t) err
                       (measure_metric (TaskFinished (task_engine_id t) ''failure''
                            (engine_profile env (task_engine_id t)))
                         (upd_task i (\<lambda>r. r\<lparr>task_state := TFailed, task_error := Some err\<rparr>) w)), None)
           | _ \<Rightarrow> (w, None)))"

definition handle_task_wait_timeout :: "oenv \<Rightarrow> uuid \<Rightarrow> string \<Rightarrow> world \<Rightarrow> handled" where
  "handle_task_wait_timeout env i err w =
     (case get_task w i of
        None \<Rightarrow> (w, None)
      | Some t \<Rightarrow>
          if task_state t = TSkipped then handle_task_completed env i w
          else if task_state t = TFailed
          then (ensure_job_failed_side_effects env (task_stage t) (task_job_id t)
                  (or_text (task_error t) err) w, None)
          else if task_state t \<noteq> TReady \<and> task_state t \<noteq> TPending then (w, None)
          else if \<not> task_required t
          then handle_task_completed env i
                 (upd_task i (\<lambda>r. r\<lparr>task_state := TSkipped, task_error := Some err,
                    task_completed_at := Some (oe_now env)\<rparr>) w)
          else (ensure_job_failed_side_effects env (task_stage t) (task_job_id t) err
                  (measure_metric (TaskFinished (task_engine_id t) ''failure''
                       (engine_profile env (task_engine_id t)))
                    (upd_task i (\<lambda>r. r\<lparr>task_state := TFailed, task_error := Some err,
                       task_completed_at := Some (oe_now env)\<rparr>) w)), None))"

section \<open>The gateway's side\<close>

text \<open>Submission: the new row, then \<open>increment_concurrent_jobs\<close> of the rate limiter.\<close>

definition increment_concurrent_jobs :: "uuid \<Rightarrow> world \<Rightarrow> world" where
  "increment_concurrent_jobs tenant w =
     w\<lparr>counters := (counters w)(tenant := counters w tenant + 1)\<rparr>"

definition submit_job :: "uuid \<Rightarrow> job_row \<Rightarrow> world \<Rightarrow> world" where
  "submit_job j r w =
     increment_concurrent_jobs (job_tenant r) (w\<lparr>jobs := (jobs w)(j := Some r)\<rparr>)"

text \<open>
  \<open>cancel_job\<close> of \<open>gateway/services/jobs.py\<close>: it refuses a job that is not pending or
  running, cancels the tasks not yet running and sets the job's state by whether any is; the
  route then releases the slot when the job is cancelled at once.
\<close>

definition cancel_job :: "oenv \<Rightarrow> uuid \<Rightarrow> world \<Rightarrow> exn + (world \<times> job_status \<times> nat) option" where
  "cancel_job env j w =
     (case jobs w j of
        None \<Rightarrow> Inr None
      | Some job \<Rightarrow>
          if job_state job \<noteq> JPending \<and> job_state job \<noteq> JRunning
          then Inl (ValueError ''Cannot cancel job'')
          else
            (let running = length (filter (\<lambda>t. task_state t = TRunning) (job_tasks w j));
                 w1 = upd_tasks (\<lambda>t. task_job_id t = j \<and> (task_state t = TPending \<or> task_state t = TReady))
                        (\<lambda>t. t\<lparr>task_state := TCancelled\<rparr>) w
             in if running > 0
                then Inr (Some (upd_job j (\<lambda>r. r\<lparr>job_state := JCancelling\<rparr>) w1, JCancelling, running))
                else Inr (Some (upd_job j (\<lambda>r. r\<lparr>job_state := JCancelled,
                                   job_completed_at := Some (oe_now env)\<rparr>) w1, JCancelled, running))))"

definition cancel_route :: "oenv \<Rightarrow> uuid \<Rightarrow> uuid \<Rightarrow> world \<Rightarrow> world" where
  "cancel_route env j tenant w =
     (case cancel_job env j w of
        Inr (Some (w', s, n)) \<Rightarrow>
          if s = JCancelled then decrement_concurrent_jobs j tenant w' else w'
      | _ \<Rightarrow> w)"

end
