(* ===== verification/QueueGrowth.thy ===== *)
theory QueueGrowth
  imports Handlers SchedulerProps
begin

text \<open>
  How queueing a task changes the streams: at most one message, for that task, is appended, and
  the metadata hashes keep the fields that queueing does not write. A change of the queues with
  this property, for a task whose row is ready, is what the effects of the handlers allow.
\<close>

definition kept_fields :: "string list" where
  "kept_fields = [''blocked_reason'', ''timeout_at'']"

definition same_fields :: "queues \<Rightarrow> queues \<Rightarrow> bool" where
  "same_fields q q' \<longleftrightarrow> (\<forall>i. \<forall>k \<in> set kept_fields.
     dget (task_metadata q' i) k = dget (task_metadata q i) k)"

definition appends :: "uuid \<Rightarrow> uuid \<Rightarrow> queues \<Rightarrow> queues \<Rightarrow> bool" where
  "appends i j q q' \<longleftrightarrow> same_fields q q' \<and> (stream q' = stream q
     \<or> (\<exists>m. stream q' = stream q @ [m] \<and> msg_task m = i \<and> msg_job m = j))"

lemma same_fields_refl [simp]: "same_fields q q"
  by (simp add: same_fields_def)

lemma same_fields_trans: "same_fields a b \<Longrightarrow> same_fields b c \<Longrightarrow> same_fields a c"
  by (simp add: same_fields_def)

lemma same_fields_upd [simp]:
  "same_fields q (q1\<lparr>waiting_tasks := a\<rparr>) = same_fields q q1"
  "same_fields q (q1\<lparr>metadata_ttl := b\<rparr>) = same_fields q q1"
  "same_fields q (q1\<lparr>requests := c\<rparr>) = same_fields q q1"
  "same_fields q (q1\<lparr>needs := d\<rparr>) = same_fields q q1"
  by (simp_all add: same_fields_def)

lemma dget_dmerge_none: "dget b k = None \<Longrightarrow> dget (dmerge a b) k = dget a k"
  by (induction a b rule: dmerge.induct) (auto split: if_splits)

lemma same_fields_hset:
  "\<forall>k \<in> set kept_fields. dget kvs k = None \<Longrightarrow> same_fields q (hset i kvs q)"
  by (simp add: same_fields_def hset_def dget_dmerge_none)

lemma dget_append_none: "dget a k = None \<Longrightarrow> dget (a @ b) k = dget b k"
  by (simp add: dget_def map_add_def map_of_append split: option.splits)

lemma start_queues_fields: "same_fields q (start_queues env t entry waiting wait_s q)"
proof -
  have "\<forall>k \<in> set kept_fields. dget (queue_metadata env t entry waiting wait_s) k = None" for waiting
    by (auto simp: kept_fields_def queue_metadata_def)
  from same_fields_hset [OF this] show ?thesis
    by (simp add: start_queues_def Let_def)
qed

lemma deliver_appends: "deliver env t base key q = (q', n) \<Longrightarrow> appends (task_id t) (task_job_id t) q q'"
  by (auto simp: deliver_def add_task_def add_task_once_def appends_def Let_def same_fields_def
      split: option.splits if_splits)

lemma appends_after: "same_fields q q1 \<Longrightarrow> stream q1 = stream q \<Longrightarrow> appends i j q1 q2 \<Longrightarrow> appends i j q q2"
  by (auto simp: appends_def intro: same_fields_trans)

lemma appends_same: "same_fields q q1 \<Longrightarrow> stream q1 = stream q \<Longrightarrow> appends i j q q1"
  by (simp add: appends_def)

lemma appends_then: "appends i j q q1 \<Longrightarrow> same_fields q1 q2 \<Longrightarrow> stream q2 = stream q1 \<Longrightarrow> appends i j q q2"
  by (auto simp: appends_def intro: same_fields_trans)

lemma enqueue_appends:
  assumes "enqueue env t entry waiting wait_s previous audio key q = (q', r)"
  shows "appends (task_id t) (task_job_id t) q q'"
proof -
  let ?q2 = "start_queues env t entry waiting wait_s q"
  have s2: "same_fields q ?q2" "stream ?q2 = stream q" by (simp_all add: start_queues_fields)
  show ?thesis
  proof (cases "as_number (audio_duration_of (task_config t) audio)")
    case (Inl x)
    then show ?thesis using assms s2 by (auto simp: enqueue_def Let_def intro: appends_same)
  next
    case (Inr duration)
    let ?base = "calculate_task_timeout duration
                   (Option.bind (map_option cat_capabilities entry) rtf_gpu)
                   (Option.bind (map_option cat_capabilities entry) rtf_cpu) True
                 + (if waiting then wait_s else 0)"
    let ?q3 = "?q2\<lparr>metadata_ttl := (metadata_ttl ?q2)(task_id t := Some (metadata_ttl_of ?base (max_retries t)))\<rparr>"
    have s3: "same_fields q ?q3" "stream ?q3 = stream q"
      using s2 by simp_all
    show ?thesis
    proof (cases "write_task_request env t previous audio")
      case (Inl x)
      then show ?thesis using assms Inr s3 by (auto simp: enqueue_def Let_def intro: appends_same)
    next
      case req: (Inr d)
      let ?kvs = "[(''request_bindings_json'', PList (map dump_binding (rq_bindings d))),
                   (''resolved_artifact_ids_json'', PDict (map (\<lambda>(k, v). (k, PStr v)) (rq_resolved d)))]"
      let ?q4 = "?q3\<lparr>requests := (requests ?q3)(task_id t := Some d)\<rparr>"
      let ?q5 = "hset (task_id t) ?kvs ?q4"
      have "same_fields ?q4 ?q5" by (rule same_fields_hset) (simp add: kept_fields_def)
      then have s5: "same_fields q ?q5" "stream ?q5 = stream q"
        using same_fields_trans [of q ?q4] s3 by simp_all
      obtain q6 n where d: "deliver env t ?base key ?q5 = (q6, n)" by (metis surj_pair)
      have a: "appends (task_id t) (task_job_id t) q q6"
        by (rule appends_after [OF s5 deliver_appends [OF d]])
      have "same_fields q6 (hset (task_id t) [(''stream_message_id'', PInt (int k))] q6)" for k
        by (rule same_fields_hset) (simp add: kept_fields_def)
      then have "appends (task_id t) (task_job_id t) q (hset (task_id t) [(''stream_message_id'', PInt (int k))] q6)" for k
        by (rule appends_then [OF a]) simp
      then show ?thesis
        using assms Inr req d a by (cases n) (auto simp: enqueue_def Let_def)
    qed
  qed
qed

lemma with_config_bindings_ids [simp]:
  "task_id (with_config_bindings t) = task_id t" "task_job_id (with_config_bindings t) = task_job_id t"
  by (auto simp: with_config_bindings_def split: option.splits pyval.splits)

lemma queue_task_appends:
  assumes "queue_task env t previous audio key q = (q', r)"
  shows "appends (task_id t) (task_job_id t) q q'"
proof -
  have go: "appends (task_id t) (task_job_id t) q q1"
    if "enqueue env (with_config_bindings t) e b s previous audio key q0 = (q1, r)" "same_fields q q0"
      "stream q0 = stream q" for e b s q0 q1 r
    using appends_after [OF that(2,3) enqueue_appends [OF that(1)]] by simp
  show ?thesis
    using assms unfolding queue_task_def Let_def
    by (auto split: sum.splits prod.splits if_splits intro: appends_same go)
qed

text \<open>The guard of an effect on the queues.\<close>

definition queue_grows :: "world \<Rightarrow> queues \<Rightarrow> bool" where
  "queue_grows w q \<longleftrightarrow> same_fields (queues_of w) q
     \<and> (\<exists>new. stream q = stream (queues_of w) @ new
         \<and> (\<forall>m \<in> set new. \<exists>t. get_task w (msg_task m) = Some t \<and> task_job_id t = msg_job m \<and> task_state t = TReady))"

lemma appends_grows:
  assumes "appends i j (queues_of w) q" and "get_task w i = Some t" and "task_job_id t = j" and "task_state t = TReady"
  shows "queue_grows w q"
  using assms by (force simp: queue_grows_def appends_def)

end
