(* ===== verification/Effects.thy ===== *)
theory Effects
  imports QueueGrowth
begin

text \<open>
  The handlers as sequences of atomic effects. \<open>effect\<close> is the step relation of single
  commits and single Redis commands, each with the guard under which the code performs it;
  every handler run is a finite sequence of effects (the refinement lemmas at the end), so
  an invariant of effects holds after every handler and also at every point where a handler
  may crash between two of them.
\<close>

section \<open>Changes of one row\<close>

text \<open>What no update touches, and an update that also sets the state.\<close>

definition same_row :: "task \<Rightarrow> task \<Rightarrow> bool" where
  "same_row t t' \<longleftrightarrow> task_id t' = task_id t \<and> task_job_id t' = task_job_id t
     \<and> task_stage t' = task_stage t \<and> task_engine_id t' = task_engine_id t
     \<and> dependencies t' = dependencies t \<and> task_config t' = task_config t
     \<and> max_retries t' = max_retries t \<and> task_required t' = task_required t"

definition moves_to :: "task_status \<Rightarrow> int \<Rightarrow> (task \<Rightarrow> task) \<Rightarrow> bool" where
  "moves_to s n f \<longleftrightarrow> (\<forall>t. same_row t (f t) \<and> task_state (f t) = s \<and> retries (f t) = retries t + n)"

definition keeps_outcome :: "(job_row \<Rightarrow> job_row) \<Rightarrow> bool" where
  "keeps_outcome f \<longleftrightarrow> (\<forall>r. job_state (f r) = job_state r \<and> job_tenant (f r) = job_tenant r)"

definition sets_job :: "job_status \<Rightarrow> (job_row \<Rightarrow> job_row) \<Rightarrow> bool" where
  "sets_job s f \<longleftrightarrow> (\<forall>r. job_state (f r) = s \<and> job_tenant (f r) = job_tenant r)"

definition pipeline_tasks :: "world \<Rightarrow> uuid \<Rightarrow> task list" where
  "pipeline_tasks w j = filter (\<lambda>t. \<not> is_post_processing_task t) (job_tasks w j)"

definition pipeline_done :: "world \<Rightarrow> uuid \<Rightarrow> bool" where
  "pipeline_done w j \<longleftrightarrow> (\<forall>t \<in> set (pipeline_tasks w j). task_state t \<in> terminal_task_states
     \<and> \<not> (task_state t = TFailed \<and> task_required t))"

text \<open>Rows a handler adds: new identifiers, pending, unretried.\<close>

definition new_rows :: "world \<Rightarrow> uuid \<Rightarrow> task list \<Rightarrow> bool" where
  "new_rows w j rows \<longleftrightarrow> distinct (map task_id rows) \<and> task_id ` set rows \<inter> task_id ` set (tasks w) = {}
     \<and> (\<forall>t \<in> set rows. task_job_id t = j \<and> task_state t = TPending \<and> retries t = 0 \<and> 0 \<le> max_retries t)"

section \<open>Atomic effects\<close>

inductive effect :: "world \<Rightarrow> world \<Rightarrow> bool" where
  queued: "queue_grows w q \<Longrightarrow> effect w (w\<lparr>queues_of := q\<rparr>)"
| emitted: "effect w (emit e w)"
| measured: "effect w (measure_metric m w)"
| tracked: "effect w (set_enrichments j kvs w)"
| flagged: "effect w (w\<lparr>cancel_flags := insert j (cancel_flags w)\<rparr>)"
| available: "effect w (w\<lparr>artifacts_available := a\<rparr>)"
| released: "jobs w j = Some r \<Longrightarrow> effect w (decrement_concurrent_jobs j (job_tenant r) w)"
| claimed: "get_task w i = Some t \<Longrightarrow> task_state t = TPending \<Longrightarrow>
    set (dependencies t) \<subseteq> completed_ids (tasks w) \<Longrightarrow> moves_to TReady 0 f \<Longrightarrow>
    effect w (upd_task i f w)"
| started: "moves_to TRunning 0 f \<Longrightarrow>
    effect w (upd_tasks (\<lambda>t. task_id t = i \<and> task_state t = TReady) f w)"
| completed: "get_task w i = Some t \<Longrightarrow> task_state t \<notin> {TCompleted, TSkipped} \<Longrightarrow>
    moves_to TCompleted 0 f \<Longrightarrow> effect w (upd_task i f w)"
| retried: "get_task w i = Some t \<Longrightarrow> task_state t = TRunning \<Longrightarrow> retries t < max_retries t \<Longrightarrow>
    moves_to TReady 1 f \<Longrightarrow> effect w (upd_task i f w)"
| skipped: "get_task w i = Some t \<Longrightarrow> task_state t \<in> {TPending, TReady, TRunning} \<Longrightarrow>
    \<not> task_required t \<Longrightarrow> moves_to TSkipped 0 f \<Longrightarrow> effect w (upd_task i f w)"
| failed: "get_task w i = Some t \<Longrightarrow> task_state t \<in> {TPending, TReady, TRunning} \<Longrightarrow>
    moves_to TFailed 0 f \<Longrightarrow> effect w (upd_task i f w)"
| dropped: "moves_to TCancelled 0 f \<Longrightarrow>
    (\<And>t. P t \<Longrightarrow> task_job_id t = j \<and> task_state t \<in> {TPending, TReady}) \<Longrightarrow>
    effect w (upd_tasks P f w)"
| noted: "keeps_outcome f \<Longrightarrow> effect w (upd_job j f w)"
| stored: "jobs w j = Some r \<Longrightarrow> job_state r \<noteq> JCompleted \<Longrightarrow>
    effect w (w\<lparr>transcripts := (transcripts w)(j := Some tr)\<rparr>)"
| patched: "transcripts w j = Some tr \<Longrightarrow>
    effect w (w\<lparr>transcripts := (transcripts w)(j := Some tr')\<rparr>)"
| job_ran: "jobs w j = Some r \<Longrightarrow> job_tasks w j = [] \<Longrightarrow> new_rows w j rows \<Longrightarrow> sets_job JRunning f \<Longrightarrow>
    effect w (upd_job j f (w\<lparr>tasks := tasks w @ rows\<rparr>))"
| job_failed: "sets_job JFailed f \<Longrightarrow> effect w (upd_job j f w)"
| job_cancelling: "sets_job JCancelling f \<Longrightarrow> effect w (upd_job j f w)"
| job_cancelled: "sets_job JCancelled f \<Longrightarrow> effect w (upd_job j f w)"
| job_completed: "pipeline_done w j \<Longrightarrow> transcripts w j \<noteq> None \<Longrightarrow> sets_job JCompleted f \<Longrightarrow>
    effect w (upd_job j f w)"
| enrichment_rows: "new_rows w j rows \<Longrightarrow> (\<forall>t \<in> set rows. is_post_processing_task t) \<Longrightarrow>
    effect w (w\<lparr>tasks := tasks w @ rows\<rparr>)"
| submitted: "jobs w j = None \<Longrightarrow> job_state r = JPending \<Longrightarrow> effect w (submit_job j r w)"

abbreviation effects :: "world \<Rightarrow> world \<Rightarrow> bool" where
  "effects \<equiv> effect\<^sup>*\<^sup>*"

lemma effects_refl [intro!, simp]: "effects w w" by simp

lemma effects_step: "effects w w1 \<Longrightarrow> effect w1 w2 \<Longrightarrow> effects w w2"
  by (rule rtranclp.rtrancl_into_rtrancl)

lemma effects_trans: "effects w w1 \<Longrightarrow> effects w1 w2 \<Longrightarrow> effects w w2"
  by (rule rtranclp_trans)

lemma moves_to_keeps_id [simp]: "moves_to s n f \<Longrightarrow> keeps_id i f"
  by (simp add: moves_to_def keeps_id_def same_row_def)

section \<open>Every handler is a sequence of effects\<close>

text \<open>Closing a goal backwards: peel off the last effect.\<close>

lemma effects_emit: "effects w w1 \<Longrightarrow> effects w (emit e w1)"
  by (rule effects_step [OF _ emitted])

lemma effects_metric: "effects w w1 \<Longrightarrow> effects w (measure_metric m w1)"
  by (rule effects_step [OF _ measured])

lemma effects_metrics: "effects w w1 \<Longrightarrow> effects w (fold measure_metric ms w1)"
  by (induction ms arbitrary: w1) (auto intro: effects_metric)

lemma effects_queue: "effects w w1 \<Longrightarrow> queue_grows w1 q \<Longrightarrow> effects w (w1\<lparr>queues_of := q\<rparr>)"
  by (rule effects_step [OF _ queued])

lemma effects_track: "effects w w1 \<Longrightarrow> effects w (set_enrichments j kvs w1)"
  by (rule effects_step [OF _ tracked])

lemma effects_mark: "effects w w1 \<Longrightarrow> effects w (mark_enrichment_status j s e w1)"
  unfolding mark_enrichment_status_def by (rule effects_track)

lemma effects_release:
  "effects w w1 \<Longrightarrow> jobs w1 j = Some r \<Longrightarrow> tn = job_tenant r \<Longrightarrow>
   effects w (decrement_concurrent_jobs j tn w1)"
  using effects_step [OF _ released] by blast

lemma effects_fail_job: "effects w w1 \<Longrightarrow> effects w (fail_job env j err w1)"
  unfolding fail_job_def by (rule effects_step [OF _ job_failed]) (simp_all add: sets_job_def)

lemmas effects_intros = effects_emit effects_metric effects_metrics effects_track
  effects_mark effects_fail_job

lemma fail_job_jobs [simp]:
  "jobs (fail_job env j err w) j = map_option (\<lambda>r. r\<lparr>job_state := JFailed, job_error := Some err,
      job_completed_at := Some (oe_now env)\<rparr>) (jobs w j)"
  by (simp add: fail_job_def)

lemma effects_fail_now:
  assumes "effects w w1" and "jobs w1 j = Some r"
  shows "effects w (fail_job_now env j (job_tenant r) err w1)"
  unfolding fail_job_now_def
  by (intro effects_emit effects_release [where r = "r\<lparr>job_state := JFailed, job_error := Some err,
      job_completed_at := Some (oe_now env)\<rparr>"] effects_fail_job assms(1)) (simp_all add: assms(2))

lemma effects_ensure_failed:
  assumes "effects w w1"
  shows "effects w (ensure_job_failed_side_effects env stage j err w1)"
proof (cases "jobs w1 j")
  case None
  then show ?thesis using assms by (simp add: ensure_job_failed_side_effects_def)
next
  case (Some r)
  let ?r = "r\<lparr>job_state := JFailed, job_error := Some (''Task '' @ stage @ '' failed: '' @ err),
      job_completed_at := Some (oe_now env)\<rparr>"
  show ?thesis
  proof (cases "job_state r \<noteq> JFailed \<and> job_state r \<noteq> JCancelled")
    case True
    show ?thesis unfolding ensure_job_failed_side_effects_def Let_def
      by (auto simp: Some True assms intro!: effects_intros effects_release [where r = ?r])
  next
    case False
    show ?thesis unfolding ensure_job_failed_side_effects_def Let_def
      using False by (auto simp: Some assms intro!: effects_intros effects_release [where r = r])
  qed
qed

lemma get_task_upd [simp]: "keeps_id i f \<Longrightarrow>
   get_task (upd_task i f w) j = (if j = i then map_option f (get_task w i) else get_task w j)"
  by (simp add: task_table.lookup_update task_table.lookup_other)

lemma get_task_Some: "get_task w i = Some t \<Longrightarrow> t \<in> set (tasks w) \<and> task_id t = i"
  by (auto simp: get_task_def dest: find_SomeD)

lemma get_task_queues [simp]: "get_task (w\<lparr>queues_of := q\<rparr>) i = get_task w i"
  by (simp add: get_task_def)

lemma moves_to_update:
  "moves_to TReady 0 (\<lambda>r. r\<lparr>task_state := TReady, ready_at := a\<rparr>)"
  "moves_to TReady 0 (\<lambda>r. r\<lparr>task_state := TReady\<rparr>)"
  "moves_to TReady 1 (\<lambda>r. r\<lparr>retries := retries r + 1, task_state := TReady, ready_at := a, task_error := e\<rparr>)"
  "moves_to TRunning 0 (\<lambda>t. t\<lparr>task_state := TRunning, task_started_at := a\<rparr>)"
  "moves_to TCompleted 0 (\<lambda>r. r\<lparr>task_state := TCompleted, task_error := e, task_completed_at := a\<rparr>)"
  "moves_to TSkipped 0 (\<lambda>r. r\<lparr>task_state := TSkipped, task_error := e\<rparr>)"
  "moves_to TSkipped 0 (\<lambda>r. r\<lparr>task_state := TSkipped, task_error := e, task_completed_at := a\<rparr>)"
  "moves_to TFailed 0 (\<lambda>r. r\<lparr>task_state := TFailed, task_error := e\<rparr>)"
  "moves_to TFailed 0 (\<lambda>r. r\<lparr>task_state := TFailed, task_error := e, task_completed_at := a\<rparr>)"
  "moves_to TCancelled 0 (\<lambda>t. t\<lparr>task_state := TCancelled\<rparr>)"
  by (simp_all add: moves_to_def same_row_def)

declare moves_to_update [simp]

lemma effects_cancel_complete:
  assumes "effects w w1"
  shows "effects w (check_job_cancellation_complete env j w1)"
proof (cases "jobs w1 j")
  case None
  then show ?thesis using assms by (simp add: check_job_cancellation_complete_def)
next
  case (Some r)
  let ?f = "\<lambda>r. r\<lparr>job_state := JCancelled, job_completed_at := Some (oe_now env)\<rparr>"
  have "effects w (upd_job j ?f w1)"
    by (rule effects_step [OF assms job_cancelled]) (simp add: sets_job_def)
  then show ?thesis
    unfolding check_job_cancellation_complete_def Let_def
    by (auto simp: Some assms intro!: effects_intros effects_release [where r = "?f r"])
qed

lemma handle_job_cancel_requested_effects: "effects w (handle_job_cancel_requested env j w)"
  unfolding handle_job_cancel_requested_def Let_def
  by (rule effects_cancel_complete, rule effects_step [OF effects_step [OF effects_refl flagged]
        dropped [where j = j]]) auto

lemma handle_task_started_effects: "effects w (handle_task_started env i w)"
  unfolding handle_task_started_def by (rule effects_step [OF effects_refl started]) simp

section \<open>Post-processing and completion\<close>

definition fresh_ids :: "oenv \<Rightarrow> world \<Rightarrow> bool" where
  "fresh_ids env w \<longleftrightarrow> inj (oe_uuid env) \<and> range (oe_uuid env) \<inter> task_id ` set (tasks w) = {}"

lemma enrichment_row_simps [simp]:
  "task_id (enrichment_row t) = task_id t" "task_job_id (enrichment_row t) = task_job_id t"
  "task_state (enrichment_row t) = task_state t" "retries (enrichment_row t) = retries t"
  "max_retries (enrichment_row t) = max_retries t" "dependencies (enrichment_row t) = dependencies t"
  "task_stage (enrichment_row t) = task_stage t" "task_required (enrichment_row t) = task_required t"
  by (simp_all add: enrichment_row_def)

lemma pipeline_row_simps [simp]:
  "task_id (pipeline_row t) = task_id t" "task_job_id (pipeline_row t) = task_job_id t"
  "task_state (pipeline_row t) = task_state t" "retries (pipeline_row t) = retries t"
  "max_retries (pipeline_row t) = max_retries t" "dependencies (pipeline_row t) = dependencies t"
  "task_stage (pipeline_row t) = task_stage t" "task_required (pipeline_row t) = task_required t"
  by (simp_all add: pipeline_row_def)

text \<open>The tasks post-processing builds, whatever the parameters.\<close>

lemma build_post_cases:
  assumes "build_post_processing_tasks u j params loaded = Inr ts"
  shows "\<exists>rest. ts = pii_detect_task (u 0) j params loaded # rest
     \<and> (rest = [] \<or> (\<exists>mode. rest = [audio_redact_task (u 1) j (u 0) mode params]))"
  using assms
  by (auto simp: build_post_processing_tasks_def Let_def bind_res_Inr pii_detect_task_def split: if_splits)

lemma post_task_simps [simp]:
  "task_id (pii_detect_task i j params loaded) = i"
  "task_job_id (pii_detect_task i j params loaded) = j"
  "task_state (pii_detect_task i j params loaded) = TPending"
  "dependencies (pii_detect_task i j params loaded) = []"
  "task_stage (pii_detect_task i j params loaded) = ''pii_detect''"
  "retries (pii_detect_task i j params loaded) = 0"
  "max_retries (pii_detect_task i j params loaded) = POST_PROCESSOR_MAX_RETRIES"
  "\<not> task_required (pii_detect_task i j params loaded)"
  "task_id (audio_redact_task i j pii mode params) = i"
  "task_job_id (audio_redact_task i j pii mode params) = j"
  "task_state (audio_redact_task i j pii mode params) = TPending"
  "dependencies (audio_redact_task i j pii mode params) = [pii]"
  "task_stage (audio_redact_task i j pii mode params) = ''audio_redact''"
  "retries (audio_redact_task i j pii mode params) = 0"
  "max_retries (audio_redact_task i j pii mode params) = POST_PROCESSOR_MAX_RETRIES"
  "\<not> task_required (audio_redact_task i j pii mode params)"
  by (simp_all add: pii_detect_task_def audio_redact_task_def)

lemma post_rows_post [simp]:
  "is_post_processing_task (enrichment_row (pii_detect_task i j params loaded))"
  "is_post_processing_task (enrichment_row (audio_redact_task i j pii mode params))"
  by (simp_all add: is_post_processing_task_def enrichment_row_def pii_detect_task_def
      audio_redact_task_def set_opt_def truthy_opt_def split: option.splits)

lemma new_post_rows:
  assumes "build_post_processing_tasks (oe_uuid env) j params loaded = Inr ts" and "fresh_ids env w"
  shows "new_rows w j (map enrichment_row ts) \<and> (\<forall>t \<in> set (map enrichment_row ts). is_post_processing_task t)"
proof -
  have ne: "oe_uuid env 0 \<noteq> oe_uuid env 1"
    using assms(2) by (auto simp: fresh_ids_def dest: injD)
  have fresh: False if "oe_uuid env n = task_id t" "t \<in> set (tasks w)" for n t
    using assms(2) that by (force simp: fresh_ids_def)
  show ?thesis
    using build_post_cases [OF assms(1)] ne
    by (auto simp: new_rows_def POST_PROCESSOR_MAX_RETRIES_def) (use fresh in blast)+
qed

lemma find_append:
  "List.find P (xs @ ys) = (case List.find P xs of None \<Rightarrow> List.find P ys | Some x \<Rightarrow> Some x)"
  by (induction xs) auto

lemma find_distinct:
  "distinct (map task_id rows) \<Longrightarrow> t \<in> set rows \<Longrightarrow> List.find (\<lambda>r. task_id r = task_id t) rows = Some t"
  by (induction rows) (auto simp: image_iff)

lemma get_task_new:
  assumes "new_rows w j rows" and "t \<in> set rows" and "tasks w' = tasks w @ rows"
  shows "get_task w' (task_id t) = Some t"
proof -
  have "List.find (\<lambda>r. task_id r = task_id t) (tasks w) = None"
    using assms(1,2) by (auto simp: new_rows_def find_None_iff)
  then show ?thesis
    using assms find_distinct [of rows t] by (simp add: get_task_def find_append new_rows_def)
qed

lemma tasks_set_enrichments [simp]:
  "tasks (set_enrichments j kvs w) = tasks w" "jobs (set_enrichments j kvs w) = jobs w"
  "transcripts (set_enrichments j kvs w) = transcripts w" "queues_of (set_enrichments j kvs w) = queues_of w"
  "decremented (set_enrichments j kvs w) = decremented w" "counters (set_enrichments j kvs w) = counters w"
  "events (set_enrichments j kvs w) = events w" "metrics (set_enrichments j kvs w) = metrics w"
  "tasks (mark_enrichment_status j st e w) = tasks w" "jobs (mark_enrichment_status j st e w) = jobs w"
  "transcripts (mark_enrichment_status j st e w) = transcripts w"
  "queues_of (mark_enrichment_status j st e w) = queues_of w"
  "decremented (mark_enrichment_status j st e w) = decremented w"
  "counters (mark_enrichment_status j st e w) = counters w"
  "events (mark_enrichment_status j st e w) = events w"
  "metrics (mark_enrichment_status j st e w) = metrics w"
  by (simp_all add: set_enrichments_def mark_enrichment_status_def)

lemma get_task_enrichments [simp]:
  "get_task (set_enrichments j kvs w) i = get_task w i"
  "get_task (mark_enrichment_status j st e w) i = get_task w i"
  by (simp_all add: get_task_def)

lemma effects_schedule:
  assumes "effects w w1" and "fresh_ids env w1"
  shows "effects w (schedule_post_processing env j params w1)"
proof -
  let ?loaded = "if truthy_opt (dget params ''model_pii_detect'')
     then [(''pii_detect'', the (dget params ''model_pii_detect''))] else []"
  show ?thesis
  proof (cases "build_post_processing_tasks (oe_uuid env) j params ?loaded")
    case (Inl x)
    then show ?thesis using assms(1) by (simp add: schedule_post_processing_def Let_def)
  next
    case (Inr ts)
    note new = new_post_rows [OF Inr assms(2)]
    let ?w2 = "set_enrichments j (map (\<lambda>t. (task_stage t, EnPending)) ts)
        (w1\<lparr>tasks := tasks w1 @ map enrichment_row ts\<rparr>)"
    let ?f = "\<lambda>t. t\<lparr>task_state := TReady\<rparr>"
    have e2: "effects w ?w2"
      using new by (intro effects_track effects_step [OF assms(1) enrichment_rows]) auto
    obtain rest where ts: "ts = pii_detect_task (oe_uuid env 0) j params ?loaded # rest"
      using build_post_cases [OF Inr] by blast
    have "get_task ?w2 (task_id (hd ts)) = Some (enrichment_row (hd ts))"
      using get_task_new [OF conjunct1 [OF new], of "enrichment_row (hd ts)" ?w2] ts by simp
    then have e3: "effects w (upd_task (task_id (hd ts)) ?f ?w2)"
      by (rule effects_step [OF e2 claimed]) (simp_all add: ts)
    let ?w3 = "upd_task (task_id (hd ts)) ?f ?w2"
    have hd3: "get_task ?w3 (task_id (hd ts)) = Some (?f (enrichment_row (hd ts)))"
      using get_task_new [OF conjunct1 [OF new], of "enrichment_row (hd ts)" ?w2] ts
      by (simp add: keeps_id_def)
    have grows: "queue_grows ?w3 q"
      if "queue_task env (hd ts) prev None None (queues_of ?w3) = (q, r)" for prev q r
      by (rule appends_grows [OF queue_task_appends [OF that] hd3]) (simp_all add: ts)
    show ?thesis
      unfolding schedule_post_processing_def Let_def Inr sum.case
      using e3 assms(1) by (auto split: prod.split queue_outcome.split intro!: effects_intros effects_queue grows)
  qed
qed

lemma effects_update_transcript:
  assumes "effects w w1"
  shows "effects w (update_transcript_with_pii env j w1)"
proof -
  have "effects w (upd_job j f (w1\<lparr>transcripts := (transcripts w1)(j := Some tr')\<rparr>))"
    if "transcripts w1 j = Some tr" "keeps_outcome f" for f tr tr'
    using effects_step [OF effects_step [OF assms patched [OF that(1)]] noted [OF that(2)]] .
  then show ?thesis
    using assms
    by (auto simp: update_transcript_with_pii_def Let_def keeps_outcome_def
        split: option.split pyval.split sum.split prod.split)
qed

lemma effects_track_enrichment: "effects w w1 \<Longrightarrow> effects w (track_enrichment env t w1)"
  by (auto simp: track_enrichment_def Let_def intro!: effects_update_transcript effects_mark)

lemma effects_update_duration:
  "effects w w1 \<Longrightarrow> effects w (fst (update_audio_duration env t w1))"
  by (auto simp: update_audio_duration_def keeps_outcome_def intro: effects_step [OF _ noted]
      split: option.splits sum.splits)

lemma fold_metric_frame [simp]:
  "jobs (fold measure_metric ms w) = jobs w" "tasks (fold measure_metric ms w) = tasks w"
  "transcripts (fold measure_metric ms w) = transcripts w"
  "decremented (fold measure_metric ms w) = decremented w"
  "counters (fold measure_metric ms w) = counters w"
  "artifacts_available (fold measure_metric ms w) = artifacts_available w"
  "queues_of (fold measure_metric ms w) = queues_of w"
  "events (fold measure_metric ms w) = events w"
  by (induction ms arbitrary: w) auto

lemma pipeline_tasks_frame:
  "tasks w' = tasks w \<Longrightarrow> pipeline_tasks w' j = pipeline_tasks w j"
  by (simp add: pipeline_tasks_def job_tasks_def)

lemma populate_stats_simps [simp]:
  "job_state (populate_job_result_stats tr r) = job_state r"
  "job_tenant (populate_job_result_stats tr r) = job_tenant r"
  by (simp_all add: populate_job_result_stats_def split: sum.splits)

lemma job_outcome_cases:
  assumes "job_outcome env j job all any_failed = (job1, tr)"
  shows "job_tenant job1 = job_tenant job
     \<and> ((job_state job1 = JFailed \<and> tr = None) \<or> (job_state job1 = JCompleted \<and> \<not> any_failed \<and> tr \<noteq> None))"
  using assms by (auto simp: job_outcome_def split: if_splits sum.splits)

definition any_failed :: "world \<Rightarrow> uuid \<Rightarrow> bool" where
  "any_failed w j \<longleftrightarrow> (\<exists>t \<in> set (pipeline_tasks w j). task_state t = TFailed \<and> task_required t)"

definition all_terminal :: "world \<Rightarrow> uuid \<Rightarrow> bool" where
  "all_terminal w j \<longleftrightarrow> (\<forall>t \<in> set (pipeline_tasks w j). task_state t \<in> terminal_task_states)"

text \<open>The completion check by cases.\<close>

lemma check_job_completion_eq:
  "check_job_completion env j w =
     (if \<not> all_terminal w j then w
      else (case jobs w j of
              None \<Rightarrow> w
            | Some job \<Rightarrow>
                if job_state job \<in> {JCompleted, JFailed, JCancelled} then w
                else (case job_outcome env j job (job_tasks w j) (any_failed w j) of (job1, tr) \<Rightarrow>
                       let w1 = finalise_job env j job job1 tr (pipeline_tasks w j) w
                       in if \<not> any_failed w j \<and> needs_post_processing (job_parameters job)
                          then schedule_post_processing env j (job_parameters job) w1 else w1)))"
  by (simp only: check_job_completion_def all_terminal_def any_failed_def pipeline_tasks_def Let_def)

lemma check_job_completion_cases:
  obtains (idle) "check_job_completion env j w = w"
  | (finish) job job1 tr where
      "jobs w j = Some job" "job_state job \<notin> {JCompleted, JFailed, JCancelled}" "all_terminal w j"
      "job_outcome env j job (job_tasks w j) (any_failed w j) = (job1, tr)"
      "check_job_completion env j w =
         (if \<not> any_failed w j \<and> needs_post_processing (job_parameters job)
          then schedule_post_processing env j (job_parameters job)
                 (finalise_job env j job job1 tr (pipeline_tasks w j) w)
          else finalise_job env j job job1 tr (pipeline_tasks w j) w)"
proof (cases "all_terminal w j \<and> (\<exists>job. jobs w j = Some job \<and> job_state job \<notin> {JCompleted, JFailed, JCancelled})")
  case False
  then show ?thesis using idle by (auto simp: check_job_completion_eq split: option.split)
next
  case True
  then obtain job where j: "all_terminal w j" "jobs w j = Some job"
      "job_state job \<notin> {JCompleted, JFailed, JCancelled}" by blast
  obtain job1 tr where o: "job_outcome env j job (job_tasks w j) (any_failed w j) = (job1, tr)"
    by (metis surj_pair)
  show ?thesis
    by (rule finish [OF j(2,3,1) o]) (simp only: check_job_completion_eq j o if_False not_True_eq_False
        option.case prod.case Let_def)
qed

lemma finalise_job_frame [simp]:
  "tasks (finalise_job env j job job1 tr ps w) = tasks w"
  "queues_of (finalise_job env j job job1 tr ps w) = queues_of w"
  "jobs (finalise_job env j job job1 tr ps w) i = (if i = j
     then map_option (\<lambda>_. job1\<lparr>job_completed_at := Some (oe_now env)\<rparr>) (jobs w j) else jobs w i)"
  "decremented (finalise_job env j job job1 tr ps w) = insert j (decremented w)"
  "transcripts (finalise_job env j job job1 tr ps w) = (case tr of None \<Rightarrow> transcripts w
     | Some x \<Rightarrow> (transcripts w)(j := Some x))"
  by (simp_all add: finalise_job_def Let_def split: option.split)

lemma effects_finalise:
  assumes "effects w w1" and "jobs w1 j = Some job" and "job_state job \<noteq> JCompleted"
    and "job_outcome env j job all (any_failed w1 j) = (job1, tr)" and "all_terminal w1 j"
  shows "effects w (finalise_job env j job job1 tr ps w1)"
proof -
  note o = job_outcome_cases [OF assms(4)]
  let ?w1 = "case tr of None \<Rightarrow> w1 | Some x \<Rightarrow> w1\<lparr>transcripts := (transcripts w1)(j := Some x)\<rparr>"
  have e1: "effects w ?w1"
    using effects_step [OF assms(1) stored [OF assms(2,3)]] assms(1) by (auto split: option.split)
  define w3 where "w3 = (let w2 = (if job_started_at job \<noteq> None then measure_metric DecInProgress ?w1 else ?w1)
     in if job_state job1 = JFailed then measure_metric (IncJobs ''failed'') w2
        else fold measure_metric (completion_metrics env job ps) (measure_metric (IncJobs ''completed'') w2))"
  have e3: "effects w w3" unfolding w3_def Let_def using e1 by (auto intro!: effects_intros)
  have f3: "jobs w3 = jobs w1" "tasks w3 = tasks w1" "transcripts w3 = transcripts ?w1"
    unfolding w3_def Let_def by (auto split: option.split)
  let ?w4 = "w3\<lparr>artifacts_available := (artifacts_available w3)(j := Some (oe_now env))\<rparr>"
  let ?f = "\<lambda>_. job1\<lparr>job_completed_at := Some (oe_now env)\<rparr>"
  have e4: "effects w ?w4" by (rule effects_step [OF e3 available])
  let ?g = "\<lambda>r. if job_tenant r = job_tenant job then ?f r else r\<lparr>job_state := job_state job1\<rparr>"
  have g: "upd_job j ?g ?w4 = upd_job j ?f ?w4"
    using assms(2) f3 by (simp add: upd_job_def)
  have e5: "effects w (upd_job j ?g ?w4)"
  proof (cases "job_state job1 = JFailed")
    case True
    then have "sets_job JFailed ?g" using o by (simp add: sets_job_def)
    then show ?thesis by (rule effects_step [OF e4 job_failed])
  next
    case False
    then have c: "job_state job1 = JCompleted" "\<not> any_failed w1 j" "tr \<noteq> None" using o by auto
    have "pipeline_tasks ?w4 j = pipeline_tasks w1 j" using f3 by (intro pipeline_tasks_frame) simp
    then have "pipeline_done ?w4 j"
      using c(2) assms(5) by (auto simp: pipeline_done_def any_failed_def all_terminal_def)
    moreover have "transcripts ?w4 j \<noteq> None" using c(3) f3 by auto
    moreover have "sets_job JCompleted ?g" using c o by (simp add: sets_job_def)
    ultimately show ?thesis by (rule effects_step [OF e4 job_completed])
  qed
  have e6: "effects w (decrement_concurrent_jobs j (job_tenant job) (upd_job j ?f ?w4))"
    by (rule effects_release [OF e5 [unfolded g], of _ "?f job"]) (use assms(2) f3 o in auto)
  show ?thesis
    unfolding finalise_job_def Let_def
    by (rule effects_emit) (use e6 in \<open>simp only: w3_def Let_def\<close>)
qed

lemma effects_check_completion:
  assumes "effects w w1" and "fresh_ids env w1"
  shows "effects w (check_job_completion env j w1)"
proof (cases rule: check_job_completion_cases [of env j w1])
  case idle
  then show ?thesis using assms by simp
next
  case (finish job job1 tr)
  have e: "effects w (finalise_job env j job job1 tr (pipeline_tasks w1 j) w1)"
    by (rule effects_finalise [OF assms(1) finish(1) _ finish(4,3)]) (use finish(2) in auto)
  show ?thesis
    unfolding finish(5) using e assms(2)
    by (auto intro!: effects_schedule simp: fresh_ids_def)
qed

section \<open>Advancing a job\<close>

definition ids :: "world \<Rightarrow> uuid list" where
  "ids w = map task_id (tasks w)"

lemma fresh_ids_cong: "ids w' = ids w \<Longrightarrow> fresh_ids env w' = fresh_ids env w"
  unfolding fresh_ids_def ids_def by (metis set_map)

lemma ids_upd_task [simp]: "keeps_id i f \<Longrightarrow> ids (upd_task i f w) = ids w"
  by (simp add: ids_def upd_task_def keeps_id_def)

lemma ids_frame [simp]:
  "ids (emit e w) = ids w" "ids (measure_metric m w) = ids w" "ids (upd_job j g w) = ids w"
  "ids (w\<lparr>queues_of := q\<rparr>) = ids w" "ids (decrement_concurrent_jobs j tn w) = ids w"
  "ids (set_enrichments j kvs w) = ids w" "ids (mark_enrichment_status j st en w) = ids w"
  "ids (w\<lparr>transcripts := tr\<rparr>) = ids w"
  by (simp_all add: ids_def)

lemma completed_ids_upd:
  assumes "get_task w i = Some t" and "task_state t \<noteq> TCompleted" and "distinct (ids w)" and "keeps_id i f"
  shows "completed_ids (tasks w) \<subseteq> completed_ids (tasks (upd_task i f w))"
proof
  fix k assume "k \<in> completed_ids (tasks w)"
  then obtain r where r: "r \<in> set (tasks w)" "task_state r = TCompleted" "k = task_id r"
    by (auto simp: completed_ids_def)
  have "r = t" if "task_id r = i"
    using that r(1) get_task_Some [OF assms(1)] assms(3)
    by (auto simp: ids_def distinct_map dest: inj_onD)
  then have "task_id r \<noteq> i" using r(2) assms(2) by auto
  then have "r \<in> set (tasks (upd_task i f w))"
    using r(1) by (auto simp: upd_task_def intro!: image_eqI [of _ _ r])
  then show "k \<in> completed_ids (tasks (upd_task i f w))"
    using r by (auto simp: completed_ids_def)
qed

fun loop_state :: "loop \<Rightarrow> world" where
  "loop_state (Continue w) = w"
| "loop_state (Stop w x) = w"

text \<open>One turn of the loop, by what it finds in the table.\<close>

lemma queue_dependents_skip:
  assumes "task_state d \<noteq> TPending \<or> \<not> set (dependencies d) \<subseteq> completed
     \<or> (\<forall>cur. get_task w (task_id d) = Some cur \<longrightarrow> task_state cur \<noteq> TPending)"
  shows "queue_dependents env j snap completed w (d # ds) = queue_dependents env j snap completed w ds"
proof (cases "get_task w (task_id d)")
  case None
  then show ?thesis by (simp only: queue_dependents.simps option.case if_cancel)
next
  case (Some cur)
  then have "task_state d \<noteq> TPending \<or> \<not> set (dependencies d) \<subseteq> completed \<or> task_state cur \<noteq> TPending"
    using assms by blast
  then show ?thesis by (simp only: queue_dependents.simps Some option.case split: if_split) blast
qed

lemma queue_dependents_turn:
  assumes "task_state d = TPending" and "set (dependencies d) \<subseteq> completed"
    and "get_task w (task_id d) = Some cur" and "task_state cur = TPending"
    and "queue_dependent env snap cur w = (w2, r)"
  shows "queue_dependents env j snap completed w (d # ds) = (case r of
        QueueRaised x \<Rightarrow> Stop w2 (Some x)
      | QueueFailed e \<Rightarrow> (case jobs w2 j of None \<Rightarrow> Stop w2 None
          | Some job \<Rightarrow> Stop (fail_job_now env j (job_tenant job) (oe_show_queue env e) w2) None)
      | _ \<Rightarrow> queue_dependents env j snap completed (measure_metric (scheduled_metric env cur) w2) ds)"
  by (cases r) (simp_all only: queue_dependents.simps assms option.case prod.case queue_outcome.case
      if_False simp_thms not_True_eq_False)

lemma claim_ready_simps [simp]:
  "moves_to TReady 0 (claim_ready env)" "keeps_id i (claim_ready env)"
  "task_id (claim_ready env t) = task_id t" "task_state (claim_ready env t) = TReady"
  "dependencies (claim_ready env t) = dependencies t"
  by (simp_all add: claim_ready_def [abs_def] keeps_id_def)

lemma queue_dependent_state:
  assumes "queue_dependent env snap cur w = (w2, r)"
  obtains q where "w2 = (upd_task (task_id cur) (claim_ready env) w)\<lparr>queues_of := q\<rparr>"
    and "appends (task_id cur) (task_job_id cur) (queues_of w) q"
  using assms queue_task_appends [of env "claim_ready env cur"]
  by (fastforce simp: queue_dependent_def Let_def claim_ready_def split: prod.splits)

text \<open>What the loop keeps: it only claims rows, replaces the queues, counts, and fails the job.\<close>

lemma queue_dependents_keeps:
  assumes "P w" and "\<And>w i q. P w \<Longrightarrow> P ((upd_task i (claim_ready env) w)\<lparr>queues_of := q\<rparr>)"
    and "\<And>w m. P w \<Longrightarrow> P (measure_metric m w)"
    and "\<And>w tn err. P w \<Longrightarrow> P (fail_job_now env j tn err w)"
  shows "P (loop_state (queue_dependents env j snap completed w ds))"
  using assms(1)
proof (induction ds arbitrary: w)
  case Nil
  then show ?case by simp
next
  case (Cons d ds)
  show ?case
  proof (cases "task_state d \<noteq> TPending \<or> \<not> set (dependencies d) \<subseteq> completed
      \<or> (\<forall>cur. get_task w (task_id d) = Some cur \<longrightarrow> task_state cur \<noteq> TPending)")
    case True
    show ?thesis unfolding queue_dependents_skip [OF True] by (rule Cons.IH [OF Cons.prems])
  next
    case False
    then obtain cur where cur: "get_task w (task_id d) = Some cur" "task_state cur = TPending"
      and d: "task_state d = TPending" "set (dependencies d) \<subseteq> completed" by blast
    obtain w2 r where q: "queue_dependent env snap cur w = (w2, r)" by (metis surj_pair)
    have w2: "P w2" using queue_dependent_state [OF q] assms(2) [OF Cons.prems] by metis
    show ?thesis
      unfolding queue_dependents_turn [OF d cur q]
      using Cons.IH [OF assms(3) [OF w2]] w2 assms(4) [OF w2] by (cases r; cases "jobs w2 j") simp_all
  qed
qed

text \<open>What the loop needs of the state it runs in, kept by every turn.\<close>

definition loop_ok :: "uuid set \<Rightarrow> task list \<Rightarrow> world \<Rightarrow> bool" where
  "loop_ok completed ds w \<longleftrightarrow> distinct (ids w) \<and> completed \<subseteq> completed_ids (tasks w)
     \<and> (\<forall>d \<in> set ds. \<forall>cur. get_task w (task_id d) = Some cur \<longrightarrow> dependencies cur = dependencies d)"

lemma loop_ok_Cons: "loop_ok completed (d # ds) w \<Longrightarrow> loop_ok completed ds w"
  by (simp add: loop_ok_def)

lemma loop_ok_turn:
  assumes ok: "loop_ok completed (d # ds) w" and cur: "get_task w i = Some cur" "task_state cur = TPending"
  shows "loop_ok completed ds (measure_metric m ((upd_task i (claim_ready env) w)\<lparr>queues_of := q\<rparr>))"
proof -
  let ?w1 = "upd_task i (claim_ready env) w"
  have "completed \<subseteq> completed_ids (tasks ?w1)"
    using ok completed_ids_upd [OF cur(1), of "claim_ready env"] cur(2) by (auto simp: loop_ok_def)
  moreover have "dependencies c = dependencies x" if "x \<in> set ds" "get_task ?w1 (task_id x) = Some c" for x c
    using that ok cur(1) by (auto simp: loop_ok_def split: if_splits)
  moreover have "get_task (measure_metric m (?w1\<lparr>queues_of := q\<rparr>)) k = get_task ?w1 k" for k
    by (simp add: get_task_def)
  ultimately show ?thesis using ok by (simp add: loop_ok_def)
qed

lemma queue_dependents_effects:
  assumes "effects w0 w" and "loop_ok completed ds w"
  shows "effects w0 (loop_state (queue_dependents env j snap completed w ds))
     \<and> ids (loop_state (queue_dependents env j snap completed w ds)) = ids w"
  using assms
proof (induction ds arbitrary: w)
  case Nil
  then show ?case by simp
next
  case (Cons d ds)
  show ?case
  proof (cases "task_state d \<noteq> TPending \<or> \<not> set (dependencies d) \<subseteq> completed
      \<or> (\<forall>cur. get_task w (task_id d) = Some cur \<longrightarrow> task_state cur \<noteq> TPending)")
    case True
    show ?thesis unfolding queue_dependents_skip [OF True]
      by (rule Cons.IH [OF Cons.prems(1) loop_ok_Cons [OF Cons.prems(2)]])
  next
    case False
    then obtain cur where cur: "get_task w (task_id d) = Some cur" "task_state cur = TPending"
      and d: "task_state d = TPending" "set (dependencies d) \<subseteq> completed" by blast
    have id: "task_id cur = task_id d" using get_task_Some [OF cur(1)] by simp
    have deps: "set (dependencies cur) \<subseteq> completed_ids (tasks w)"
      using Cons.prems(2) cur(1) d(2) by (auto simp: loop_ok_def)
    obtain w2 r where q: "queue_dependent env snap cur w = (w2, r)" by (metis surj_pair)
    obtain q where w2: "w2 = (upd_task (task_id d) (claim_ready env) w)\<lparr>queues_of := q\<rparr>"
      and app: "appends (task_id d) (task_job_id cur) (queues_of w) q"
      using queue_dependent_state [OF q] id by metis
    have "queue_grows (upd_task (task_id d) (claim_ready env) w) q"
      by (rule appends_grows [where t = "claim_ready env cur" and i = "task_id d" and j = "task_job_id cur"])
        (use app cur(1) in \<open>simp_all add: claim_ready_def\<close>)
    then have e2: "effects w0 w2" unfolding w2
      by (rule effects_queue [rotated], rule_tac effects_step [OF Cons.prems(1) claimed [OF cur deps]]) simp
    have i2: "ids w2 = ids w" by (simp add: w2)
    let ?w3 = "measure_metric (scheduled_metric env cur) w2"
    have "loop_ok completed ds ?w3" unfolding w2 by (rule loop_ok_turn [OF Cons.prems(2) cur])
    from Cons.IH [OF effects_metric [OF e2] this] i2
    have again: "effects w0 (loop_state (queue_dependents env j snap completed ?w3 ds))
       \<and> ids (loop_state (queue_dependents env j snap completed ?w3 ds)) = ids w" by simp
    have failing: "effects w0 (fail_job_now env j (job_tenant job) err w2)
       \<and> ids (fail_job_now env j (job_tenant job) err w2) = ids w" if "jobs w2 j = Some job" for job err
      using effects_fail_now [OF e2 that] i2 by (simp add: fail_job_now_def fail_job_def)
    show ?thesis
      unfolding queue_dependents_turn [OF d cur q]
      using again failing e2 i2 by (cases r; cases "jobs w2 j") simp_all
  qed
qed

lemma get_task_distinct:
  "distinct (ids w) \<Longrightarrow> t \<in> set (tasks w) \<Longrightarrow> get_task w (task_id t) = Some t"
  by (simp add: get_task_def ids_def find_distinct)

lemma loop_ok_start:
  assumes "distinct (ids w)"
  shows "loop_ok (completed_ids (job_tasks w j)) (job_tasks w j) w"
  using assms get_task_distinct [OF assms]
  by (auto simp: loop_ok_def completed_ids_def job_tasks_def)

lemma effects_advance:
  assumes "effects w0 w" and "distinct (ids w)" and "fresh_ids env w"
  shows "effects w0 (fst (advance_job env j w))"
proof (cases "map_option job_state (jobs w j) = Some JCancelling")
  case True
  have "effects w0 (upd_tasks (\<lambda>t. task_job_id t = j \<and> task_state t = TPending)
      (\<lambda>t. t\<lparr>task_state := TCancelled\<rparr>) w)"
    by (rule effects_step [OF assms(1) dropped [where j = j]]) auto
  then show ?thesis using True by (simp add: advance_job_def effects_cancel_complete)
next
  case False
  note q = queue_dependents_effects [OF assms(1) loop_ok_start [OF assms(2)],
      of env j "job_tasks w j" j]
  show ?thesis
  proof (cases "queue_dependents env j (job_tasks w j) (completed_ids (job_tasks w j)) w (job_tasks w j)")
    case (Continue w')
    then have "effects w0 w'" "ids w' = ids w" using q by auto
    then have "effects w0 (check_job_completion env j w')"
      using effects_check_completion fresh_ids_cong assms(3) by blast
    moreover have "advance_job env j w = (check_job_completion env j w', None)"
      using False Continue by (simp only: advance_job_def Let_def if_False loop.case)
    ultimately show ?thesis by simp
  next
    case (Stop w' x)
    then have "advance_job env j w = (w', x)"
      using False by (simp only: advance_job_def Let_def if_False loop.case)
    then show ?thesis using q Stop by simp
  qed
qed

lemma ids_update_transcript [simp]: "ids (update_transcript_with_pii env j w) = ids w"
  by (simp add: update_transcript_with_pii_def Let_def split: option.split pyval.split sum.split prod.split)

lemma ids_track [simp]: "ids (track_enrichment env t w) = ids w"
  by (simp add: track_enrichment_def Let_def)

lemma ids_duration [simp]: "ids (fst (update_audio_duration env t w)) = ids w"
  by (simp add: update_audio_duration_def split: option.split sum.split)

lemma ids_mark_completed [simp]: "ids (mark_task_completed env t w) = ids w"
  by (simp add: mark_task_completed_def keeps_id_def)

lemma effects_mark_completed:
  assumes "effects w0 w" and "get_task w i = Some t"
  shows "effects w0 (mark_task_completed env t w)"
proof -
  have id: "task_id t = i" using get_task_Some [OF assms(2)] by simp
  show ?thesis unfolding mark_task_completed_def id
    using assms by (auto intro!: effects_metric effects_step [OF assms(1) completed])
qed

lemma handle_task_completed_effects:
  assumes "effects w0 w" and "distinct (ids w)" and "fresh_ids env w"
  shows "effects w0 (fst (handle_task_completed env i w))"
proof (cases "get_task w i")
  case None
  then show ?thesis using assms(1) by (simp add: handle_task_completed_def)
next
  case (Some t0)
  let ?w1 = "mark_task_completed env t0 w"
  have e1: "effects w0 ?w1" by (rule effects_mark_completed [OF assms(1) Some])
  show ?thesis
  proof (cases "get_task ?w1 i")
    case None
    then show ?thesis using e1 Some by (simp add: handle_task_completed_def Let_def)
  next
    case t: (Some t)
    obtain w2 x where u: "update_audio_duration env t (track_enrichment env t ?w1) = (w2, x)"
      by (metis surj_pair)
    have e2: "effects w0 w2"
      using effects_update_duration [OF effects_track_enrichment [OF e1]] u by (metis fst_conv)
    have i2: "ids w2 = ids w"
      using ids_duration [of env t "track_enrichment env t ?w1"] u by simp
    have "effects w0 (fst (advance_job env (task_job_id t) w2))"
      by (rule effects_advance [OF e2]) (use assms i2 fresh_ids_cong [OF i2] in simp_all)
    moreover have "handle_task_completed env i w =
        (case x of Some y \<Rightarrow> (w2, Some y) | None \<Rightarrow> advance_job env (task_job_id t) w2)"
      by (cases x) (simp_all only: handle_task_completed_def Some t u Let_def option.case prod.case)
    ultimately show ?thesis using e2 by (cases x) simp_all
  qed
qed

lemma effects_queue_retry:
  assumes "effects w0 w" and "get_task w i = Some t" and "task_state t = TReady"
  shows "effects w0 (fst (queue_retry env i w))"
proof -
  obtain q r where q: "queue_task env t
      (gather_previous_responses env (job_tasks w (task_job_id t)) [] (dependencies t)) None
      (Some (retry_enqueue_dedupe_key i (retries t))) (queues_of w) = (q, r)"
    by (metis surj_pair)
  let ?w1 = "w\<lparr>queues_of := q\<rparr>"
  have e1: "effects w0 ?w1"
    by (rule effects_queue [OF assms(1) appends_grows [OF queue_task_appends [OF q]]])
      (use assms get_task_Some [OF assms(2)] in simp_all)
  have "effects w0 (upd_task i (\<lambda>r. r\<lparr>task_state := TFailed, task_error := Some msg\<rparr>) ?w1)" for msg
    by (rule effects_step [OF e1 failed [where t = t]]) (use assms in simp_all)
  from effects_ensure_failed [OF this] show ?thesis
    using e1 assms(2) q by (cases r) (auto simp: queue_retry_def Let_def)
qed

lemma keeps_id_moves: "moves_to s n f \<Longrightarrow> ids (upd_task i f w) = ids w"
  by simp

lemma handle_task_failed_effects:
  assumes "distinct (ids w)" and "fresh_ids env w"
  shows "effects w (fst (handle_task_failed env i err w))"
proof (cases "get_task w i")
  case None
  then show ?thesis by (simp add: handle_task_failed_def)
next
  case (Some t)
  show ?thesis
  proof (cases "task_state t")
    case TReady
    then show ?thesis using effects_queue_retry [OF effects_refl Some TReady]
      by (simp add: handle_task_failed_def Some)
  next
    case TRunning
    let ?retry = "\<lambda>r. r\<lparr>retries := retries r + 1, task_state := TReady,
       ready_at := Some (oe_now env), task_error := Some err\<rparr>"
    let ?skip = "\<lambda>r. r\<lparr>task_state := TSkipped, task_error := Some err\<rparr>"
    let ?fail = "\<lambda>r. r\<lparr>task_state := TFailed, task_error := Some err\<rparr>"
    have retry: "effects w (fst (queue_retry env i (upd_task i ?retry w)))" if "retries t < max_retries t"
    proof (rule effects_queue_retry)
      show "effects w (upd_task i ?retry w)"
        by (rule effects_step [OF effects_refl retried [OF Some TRunning that]]) simp
      show "get_task (upd_task i ?retry w) i = Some (?retry t)"
        using Some by (simp add: keeps_id_def)
    qed simp
    have skip: "effects w (upd_task i ?skip w)" if "\<not> task_required t"
      by (rule effects_step [OF effects_refl skipped [OF Some _ that]]) (simp_all add: TRunning)
    have done_skip: "effects w (fst (handle_task_completed env i
        (if b then mark_enrichment_status j st s (upd_task i ?skip w) else upd_task i ?skip w)))"
      if "\<not> task_required t" for b j st s
    proof -
      have k: "keeps_id i ?skip" by (simp add: keeps_id_def)
      show ?thesis
        by (rule handle_task_completed_effects)
          (use skip [OF that] assms k fresh_ids_cong [of "upd_task i ?skip w" w]
             fresh_ids_cong [of "mark_enrichment_status j st s (upd_task i ?skip w)" w]
           in \<open>simp_all add: effects_mark\<close>)
    qed
    have fail: "effects w (upd_task i ?fail w)"
      by (rule effects_step [OF effects_refl failed [OF Some]]) (simp_all add: TRunning)
    show ?thesis
      using retry done_skip effects_ensure_failed [OF effects_metric [OF fail]]
      by (simp add: handle_task_failed_def Some TRunning Let_def)
  qed (use handle_task_completed_effects [OF effects_refl assms] effects_ensure_failed [OF effects_refl]
      in \<open>simp_all add: handle_task_failed_def Some\<close>)
qed

lemma handle_task_wait_timeout_effects:
  assumes "distinct (ids w)" and "fresh_ids env w"
  shows "effects w (fst (handle_task_wait_timeout env i err w))"
proof (cases "get_task w i")
  case None
  then show ?thesis by (simp add: handle_task_wait_timeout_def)
next
  case (Some t)
  let ?skip = "\<lambda>r. r\<lparr>task_state := TSkipped, task_error := Some err, task_completed_at := Some (oe_now env)\<rparr>"
  let ?fail = "\<lambda>r. r\<lparr>task_state := TFailed, task_error := Some err, task_completed_at := Some (oe_now env)\<rparr>"
  have skip: "effects w (fst (handle_task_completed env i (upd_task i ?skip w)))"
    if "task_state t \<in> {TPending, TReady}" "\<not> task_required t"
  proof (rule handle_task_completed_effects)
    show "effects w (upd_task i ?skip w)"
      by (rule effects_step [OF effects_refl skipped [OF Some _ that(2)]]) (use that(1) in auto)
    show "distinct (ids (upd_task i ?skip w))" using assms(1) by (simp add: keeps_id_def)
    show "fresh_ids env (upd_task i ?skip w)"
      using assms(2) fresh_ids_cong [of "upd_task i ?skip w" w] by (simp add: keeps_id_def)
  qed
  have fail: "effects w (upd_task i ?fail w)" if "task_state t \<in> {TPending, TReady}"
    by (rule effects_step [OF effects_refl failed [OF Some]]) (use that in auto)
  show ?thesis
  proof (cases "task_state t")
    case TPending
    then show ?thesis using skip effects_ensure_failed [OF effects_metric [OF fail]]
      by (simp add: handle_task_wait_timeout_def Some)
  next
    case TReady
    then show ?thesis using skip effects_ensure_failed [OF effects_metric [OF fail]]
      by (simp add: handle_task_wait_timeout_def Some)
  qed (use handle_task_completed_effects [OF effects_refl assms] effects_ensure_failed [OF effects_refl]
      in \<open>simp_all add: handle_task_wait_timeout_def Some\<close>)
qed

section \<open>Creating a job's tasks\<close>

definition waiting_rows :: "task list \<Rightarrow> world \<Rightarrow> bool" where
  "waiting_rows ts w \<longleftrightarrow> distinct (map task_id ts) \<and> (\<forall>t \<in> set ts. \<exists>r. get_task w (task_id t) = Some r
     \<and> task_state r = TPending \<and> dependencies r = dependencies t \<and> task_job_id r = task_job_id t)"

lemma waiting_rows_other:
  assumes "waiting_rows (t # ts) w" and "keeps_id (task_id t) f"
    and "\<And>k. get_task w' k = get_task (upd_task (task_id t) f w) k"
  shows "waiting_rows ts w'"
proof -
  have "get_task w' (task_id x) = get_task w (task_id x)" if "x \<in> set ts" for x
  proof -
    have "task_id x \<noteq> task_id t" using assms(1) that by (auto simp: waiting_rows_def image_iff)
    then show ?thesis using assms(2,3) by simp
  qed
  then show ?thesis using assms(1) by (simp add: waiting_rows_def)
qed

lemma queue_initial_effects:
  assumes "effects w0 w" and "waiting_rows ts w" and "map_option job_tenant (jobs w j) = Some tenant"
  shows "effects w0 (fst (queue_initial_tasks env j tenant audio w ts))"
  using assms
proof (induction ts arbitrary: w)
  case Nil
  then show ?case by simp
next
  case (Cons t ts)
  show ?case
  proof (cases "dependencies t = []")
    case False
    then show ?thesis using Cons.IH [OF Cons.prems(1) _ Cons.prems(3)] Cons.prems(2)
      by (simp add: waiting_rows_def)
  next
    case True
    let ?f = "\<lambda>r. r\<lparr>task_state := TReady, ready_at := Some (oe_now env)\<rparr>"
    let ?w1 = "upd_task (task_id t) ?f w"
    obtain row where row: "get_task w (task_id t) = Some row" "task_state row = TPending"
        "dependencies row = []" and job_id: "task_job_id row = task_job_id t"
      using Cons.prems(2) True by (auto simp: waiting_rows_def)
    have e1: "effects w0 ?w1"
      by (rule effects_step [OF Cons.prems(1) claimed [OF row(1,2)]]) (simp_all add: row)
    obtain q r where q: "queue_task env t [] (if task_stage t = ''prepare'' then audio else None) None
        (queues_of ?w1) = (q, r)" by (metis surj_pair)
    let ?w2 = "?w1\<lparr>queues_of := q\<rparr>"
    have e2: "effects w0 ?w2"
      by (rule effects_queue [OF e1 appends_grows [where t = "?f row", OF queue_task_appends [OF q]]])
        (use row job_id in \<open>simp_all add: keeps_id_def\<close>)
    obtain job where job: "jobs w j = Some job" "job_tenant job = tenant"
      using Cons.prems(3) by auto
    have fail: "effects w0 (decrement_concurrent_jobs j tenant (fail_job env j err ?w2))" for err
      by (rule effects_release [OF effects_fail_job [OF e2]]) (use job in auto)
    let ?w3 = "measure_metric (TaskScheduled (task_engine_id t) (task_stage t)
                       (engine_profile env (task_engine_id t))) ?w2"
    have "waiting_rows ts ?w3"
      by (rule waiting_rows_other [OF Cons.prems(2), of ?f]) (simp_all add: keeps_id_def get_task_def)
    then have again: "effects w0 (fst (queue_initial_tasks env j tenant audio ?w3 ts))"
      using Cons.IH [OF effects_metric [OF e2]] Cons.prems(3) by simp
    show ?thesis
      using True q again e2 fail
      by (cases r) (simp_all add: Let_def effects_emit effects_metric)
  qed
qed

lemma find_map_row:
  "(\<And>t. task_id (g t) = task_id t) \<Longrightarrow>
   List.find (\<lambda>t. task_id t = i) (map g ts) = map_option g (List.find (\<lambda>t. task_id t = i) ts)"
  by (induction ts) auto

lemma handle_job_created_effects:
  assumes "fresh_ids env w"
  shows "effects w (fst (handle_job_created env j w))"
proof (cases "jobs w j")
  case None
  then show ?thesis by (simp add: handle_job_created_def)
next
  case (Some job)
  show ?thesis
  proof (cases "job_state job \<in> {JCancelling, JCancelled, JRunning} \<or> job_tasks w j \<noteq> []")
    case True
    then show ?thesis by (auto simp: handle_job_created_def Some)
  next
    case go: False
    let ?dag = "build_task_dag (oe_select env) (oe_uuid env) (oe_speech_env env) j
                    (job_audio_uri job) (job_parameters job)"
    show ?thesis
    proof (cases ?dag)
      case (Inl e)
      have "effects w (fail_job_now env j (job_tenant job) err w)" for err
        by (rule effects_fail_now [OF effects_refl Some])
      then show ?thesis using go Inl
        by (auto simp: handle_job_created_def Some split: dag_error.split sel_error.split)
    next
      case (Inr ts)
      note wf = build_task_dag_wf [OF conjunct1 [OF assms [unfolded fresh_ids_def]] Inr]
      note dr = build_task_dag_drawn [OF Inr]
      have disj: "task_id ` set ts \<inter> task_id ` set (tasks w) = {}"
        using dr assms by (force simp: drawn_def fresh_ids_def)
      have new: "new_rows w j (map pipeline_row ts)"
        using wf dr disj
        by (auto simp: new_rows_def wf_dag_def drawn_def comp_def image_image DEFAULT_TASK_MAX_RETRIES_def)
      let ?f = "\<lambda>r. r\<lparr>job_state := JRunning, job_started_at := Some (oe_now env)\<rparr>"
      let ?w2 = "upd_job j ?f (w\<lparr>tasks := tasks w @ map pipeline_row ts\<rparr>)"
      have e2: "effects w ?w2"
        by (rule effects_step [OF effects_refl job_ran [OF Some _ new]]) (use go in \<open>auto simp: sets_job_def\<close>)
      have row: "get_task ?w2 (task_id t) = Some (pipeline_row t)" if "t \<in> set ts" for t
        using get_task_new [OF new, of "pipeline_row t" ?w2] that by simp
      have "waiting_rows ts (measure_metric IncInProgress ?w2)"
        using row wf by (auto simp: waiting_rows_def wf_dag_def get_task_def)
      from queue_initial_effects [OF effects_metric [OF e2] this, of j "job_tenant job" env
          "audio_metadata_of job"]
      have e: "effects w (fst (queue_initial_tasks env j (job_tenant job) (audio_metadata_of job)
          (measure_metric IncInProgress ?w2) ts))" by (simp add: Some)
      have "distinct (map task_stage ts)" using wf by (simp add: wf_dag_def)
      then show ?thesis using go Inr e by (simp add: handle_job_created_def Some Let_def)
    qed
  qed
qed

section \<open>The gateway\<close>

lemma cancel_route_effects:
  assumes "\<And>r. jobs w j = Some r \<Longrightarrow> tenant = job_tenant r"
  shows "effects w (cancel_route env j tenant w)"
proof (cases "\<exists>job. jobs w j = Some job \<and> job_state job \<in> {JPending, JRunning}")
  case False
  then show ?thesis by (auto simp: cancel_route_def cancel_job_def split: option.split)
next
  case True
  then obtain job where job: "jobs w j = Some job" "job_state job = JPending \<or> job_state job = JRunning"
    by auto
  let ?w1 = "upd_tasks (\<lambda>t. task_job_id t = j \<and> (task_state t = TPending \<or> task_state t = TReady))
                        (\<lambda>t. t\<lparr>task_state := TCancelled\<rparr>) w"
  let ?c = "\<lambda>r. r\<lparr>job_state := JCancelled, job_completed_at := Some (oe_now env)\<rparr>"
  have e1: "effects w ?w1" by (rule effects_step [OF effects_refl dropped [where j = j]]) auto
  have "effects w (upd_job j (\<lambda>r. r\<lparr>job_state := JCancelling\<rparr>) ?w1)"
    by (rule effects_step [OF e1 job_cancelling]) (simp add: sets_job_def)
  moreover have "effects w (upd_job j ?c ?w1)"
    by (rule effects_step [OF e1 job_cancelled]) (simp add: sets_job_def)
  then have "effects w (decrement_concurrent_jobs j tenant (upd_job j ?c ?w1))"
    by (rule effects_release [where r = "?c job"]) (use job assms in auto)
  ultimately show ?thesis using job by (auto simp: cancel_route_def cancel_job_def Let_def)
qed

end
