(* ===== verification/Invariants.thy ===== *)
theory Invariants
  imports Effects
begin

text \<open>
  What holds in every state the orchestrator can reach, at the granularity of single effects:
  the lifecycle of a task, readiness only after its dependencies, bounded retries, finished
  states that stay finished, what a completed job guarantees, and the exact meaning of the
  concurrency counter. Reachability is over whole handlers, the gateway's two entry points
  and crashes between effects.
\<close>

section \<open>The lifecycle of a task\<close>

text \<open>The moves of one row, given the set of completed tasks.\<close>

definition legal :: "uuid set \<Rightarrow> task \<Rightarrow> task \<Rightarrow> bool" where
  "legal done t t' \<longleftrightarrow> t' = t \<or> (same_row t t' \<and>
     (case (task_state t, task_state t') of
        (TPending, TReady) \<Rightarrow> set (dependencies t) \<subseteq> done \<and> retries t' = retries t
      | (TReady, TRunning) \<Rightarrow> retries t' = retries t
      | (TRunning, TReady) \<Rightarrow> retries t' = retries t + 1 \<and> retries t < max_retries t
      | (s, TCompleted) \<Rightarrow> s \<noteq> TCompleted \<and> s \<noteq> TSkipped \<and> retries t' = retries t
      | (s, TSkipped) \<Rightarrow> s \<in> {TPending, TReady, TRunning} \<and> \<not> task_required t \<and> retries t' = retries t
      | (s, TFailed) \<Rightarrow> s \<in> {TPending, TReady, TRunning} \<and> retries t' = retries t
      | (s, TCancelled) \<Rightarrow> s \<in> {TPending, TReady} \<and> retries t' = retries t
      | _ \<Rightarrow> False))"

lemma legal_refl [simp]: "legal done t t"
  by (simp add: legal_def)

lemma legal_same_row: "legal done t t' \<Longrightarrow> same_row t t'"
  by (auto simp: legal_def same_row_def)

lemma legal_ready:
  "legal done t t' \<Longrightarrow> task_state t' \<in> {TReady, TRunning} \<Longrightarrow>
   task_state t \<in> {TReady, TRunning} \<or> set (dependencies t) \<subseteq> done"
  by (auto simp: legal_def split: task_status.splits)

lemma legal_retries:
  "legal done t t' \<Longrightarrow> retries t \<le> max_retries t \<Longrightarrow> retries t \<le> retries t' \<and> retries t' \<le> max_retries t'"
  by (auto simp: legal_def same_row_def split: task_status.splits)

lemma legal_final:
  "legal done t t' \<Longrightarrow> task_state t \<in> {TCompleted, TSkipped} \<Longrightarrow> t' = t"
  by (auto simp: legal_def split: task_status.splits)

lemma legal_terminal:
  "legal done t t' \<Longrightarrow> task_state t \<in> terminal_task_states \<Longrightarrow>
   t' = t \<or> task_state t' = TCompleted"
  by (auto simp: legal_def split: task_status.splits)

definition moved :: "uuid \<Rightarrow> (task \<Rightarrow> task) \<Rightarrow> task \<Rightarrow> task" where
  "moved i f t = (if task_id t = i then f t else t)"

lemma tasks_upd_task: "tasks (upd_task i f w) = map (moved i f) (tasks w)"
  by (simp add: upd_task_def moved_def)

text \<open>Every effect maps the table row by row along legal moves and may append new rows.\<close>

definition table_step :: "world \<Rightarrow> world \<Rightarrow> bool" where
  "table_step w w' \<longleftrightarrow> (\<exists>g rows. tasks w' = map g (tasks w) @ rows
     \<and> (\<forall>t \<in> set (tasks w). legal (completed_ids (tasks w)) t (g t))
     \<and> (rows = [] \<or> (\<exists>j. new_rows w j rows)))"

lemma table_stepI:
  "tasks w' = map g (tasks w) \<Longrightarrow> (\<And>t. t \<in> set (tasks w) \<Longrightarrow> legal (completed_ids (tasks w)) t (g t)) \<Longrightarrow>
   table_step w w'"
  unfolding table_step_def by (intro exI [of _ g] exI [of _ "[]"]) auto

lemma table_step_same: "tasks w' = tasks w \<Longrightarrow> table_step w w'"
  by (rule table_stepI [of _ id]) simp_all

lemma table_step_rows: "tasks w' = tasks w @ rows \<Longrightarrow> new_rows w j rows \<Longrightarrow> table_step w w'"
  unfolding table_step_def by (intro exI [of _ id] exI [of _ rows]) auto

lemma table_step_move:
  assumes "distinct (ids w)" and "get_task w i = Some t" and "legal (completed_ids (tasks w)) t (f t)"
  shows "table_step w (upd_task i f w)"
proof (rule table_stepI [OF tasks_upd_task])
  fix r assume r: "r \<in> set (tasks w)"
  have "r = t" if "task_id r = i"
    using that r get_task_Some [OF assms(2)] assms(1) by (auto simp: ids_def distinct_map dest: inj_onD)
  then show "legal (completed_ids (tasks w)) r (moved i f r)" using assms(3) by (auto simp: moved_def)
qed

lemma moves_legal:
  assumes "moves_to s n f"
  shows "task_state t = TPending \<Longrightarrow> set (dependencies t) \<subseteq> done \<Longrightarrow> s = TReady \<Longrightarrow> n = 0 \<Longrightarrow> legal done t (f t)"
    and "task_state t = TReady \<Longrightarrow> s = TRunning \<Longrightarrow> n = 0 \<Longrightarrow> legal done t (f t)"
    and "task_state t = TRunning \<Longrightarrow> retries t < max_retries t \<Longrightarrow> s = TReady \<Longrightarrow> n = 1 \<Longrightarrow> legal done t (f t)"
    and "task_state t \<notin> {TCompleted, TSkipped} \<Longrightarrow> s = TCompleted \<Longrightarrow> n = 0 \<Longrightarrow> legal done t (f t)"
    and "task_state t \<in> {TPending, TReady, TRunning} \<Longrightarrow> \<not> task_required t \<Longrightarrow> s = TSkipped \<Longrightarrow> n = 0 \<Longrightarrow> legal done t (f t)"
    and "task_state t \<in> {TPending, TReady, TRunning} \<Longrightarrow> s = TFailed \<Longrightarrow> n = 0 \<Longrightarrow> legal done t (f t)"
    and "task_state t \<in> {TPending, TReady} \<Longrightarrow> s = TCancelled \<Longrightarrow> n = 0 \<Longrightarrow> legal done t (f t)"
  using assms by (auto simp: legal_def moves_to_def split: task_status.splits)

lemma submit_job_simps [simp]:
  "tasks (submit_job j r w) = tasks w" "decremented (submit_job j r w) = decremented w"
  "transcripts (submit_job j r w) = transcripts w" "jobs (submit_job j r w) = (jobs w)(j := Some r)"
  "counters (submit_job j r w) = (counters w)(job_tenant r := counters w (job_tenant r) + 1)"
  by (simp_all add: submit_job_def increment_concurrent_jobs_def)

lemma effect_table:
  assumes "effect w w'" and "distinct (ids w)"
  shows "table_step w w'"
  using assms
proof (induction rule: effect.induct)
  case (claimed w i t f)
  then show ?case by (intro table_step_move moves_legal(1)) simp_all
next
  case (started f w i)
  show ?case
    by (rule table_stepI [of _ "\<lambda>t. if task_id t = i \<and> task_state t = TReady then f t else t"])
      (use started moves_legal(2) in \<open>auto simp: upd_tasks_def\<close>)
next
  case (completed w i t f)
  then show ?case by (intro table_step_move moves_legal(4)) simp_all
next
  case (retried w i t f)
  then show ?case by (intro table_step_move moves_legal(3)) simp_all
next
  case (skipped w i t f)
  then show ?case by (intro table_step_move moves_legal(5)) simp_all
next
  case (failed w i t f)
  then show ?case by (intro table_step_move moves_legal(6)) simp_all
next
  case (dropped f P j w)
  show ?case
    by (rule table_stepI [of _ "\<lambda>t. if P t then f t else t"])
      (use dropped moves_legal(7) in \<open>auto simp: upd_tasks_def\<close>)
next
  case (job_ran w j r rows f)
  then show ?case by (intro table_step_rows [of _ _ rows]) simp_all
next
  case (enrichment_rows w j rows)
  then show ?case by (intro table_step_rows [of _ _ rows]) simp_all
qed (simp_all add: table_step_same)

section \<open>The table invariant\<close>

definition inv_tasks :: "world \<Rightarrow> bool" where
  "inv_tasks w \<longleftrightarrow> distinct (ids w) \<and> (\<forall>t \<in> set (tasks w).
     (task_state t \<in> {TReady, TRunning} \<longrightarrow> set (dependencies t) \<subseteq> completed_ids (tasks w))
     \<and> 0 \<le> retries t \<and> retries t \<le> max_retries t)"

lemma completed_ids_map:
  assumes "\<And>t. t \<in> set ts \<Longrightarrow> legal done t (g t)"
  shows "completed_ids ts \<subseteq> completed_ids (map g ts @ rows)"
proof
  fix i assume "i \<in> completed_ids ts"
  then obtain t where t: "t \<in> set ts" "task_state t = TCompleted" "i = task_id t"
    by (auto simp: completed_ids_def)
  then have "g t = t" using legal_final [OF assms] by simp
  then show "i \<in> completed_ids (map g ts @ rows)"
    using t by (auto simp: completed_ids_def intro!: image_eqI [of _ _ t])
qed

lemma inv_tasks_step:
  assumes "table_step w w'" and "inv_tasks w"
  shows "inv_tasks w'"
proof -
  obtain g rows where g: "tasks w' = map g (tasks w) @ rows"
      "\<And>t. t \<in> set (tasks w) \<Longrightarrow> legal (completed_ids (tasks w)) t (g t)"
    and rows: "rows = [] \<or> (\<exists>j. new_rows w j rows)"
    using assms(1) unfolding table_step_def by metis
  have same: "same_row t (g t)" if "t \<in> set (tasks w)" for t by (rule legal_same_row [OF g(2) [OF that]])
  have grow: "completed_ids (tasks w) \<subseteq> completed_ids (tasks w')"
    unfolding g(1) by (rule completed_ids_map [OF g(2)])
  have id: "map task_id (map g (tasks w)) = ids w"
    using same by (simp add: ids_def same_row_def)
  have "distinct (ids w')"
  proof -
    have "set (ids w) \<inter> task_id ` set rows = {}"
      using rows by (auto simp: new_rows_def ids_def)
    then have "distinct (ids w @ map task_id rows)"
      using assms(2) rows by (auto simp: inv_tasks_def new_rows_def)
    moreover have "ids w' = ids w @ map task_id rows"
      using id by (simp only: ids_def [of w'] g(1) map_append)
    ultimately show ?thesis by simp
  qed
  moreover have "(task_state t' \<in> {TReady, TRunning} \<longrightarrow> set (dependencies t') \<subseteq> completed_ids (tasks w'))
     \<and> 0 \<le> retries t' \<and> retries t' \<le> max_retries t'" if mem: "t' \<in> set (tasks w')" for t'
  proof (cases "t' \<in> set rows")
    case True
    then show ?thesis using rows by (auto simp: new_rows_def)
  next
    case False
    then obtain t where t: "t \<in> set (tasks w)" "t' = g t" using mem g(1) by auto
    note I = assms(2) [unfolded inv_tasks_def, THEN conjunct2, rule_format, OF t(1)]
    have "dependencies t' = dependencies t" using same [OF t(1)] t(2) by (simp add: same_row_def)
    then show ?thesis
      using I grow legal_ready [OF g(2) [OF t(1)]] legal_retries [OF g(2) [OF t(1)]] t(2) by auto
  qed
  ultimately show ?thesis by (simp add: inv_tasks_def)
qed

lemma inv_tasks_effect: "effect w w' \<Longrightarrow> inv_tasks w \<Longrightarrow> inv_tasks w'"
  using inv_tasks_step effect_table by (auto simp: inv_tasks_def)

lemma inv_tasks_effects: "effects w w' \<Longrightarrow> inv_tasks w \<Longrightarrow> inv_tasks w'"
  by (induction rule: rtranclp_induct) (auto intro: inv_tasks_effect)

lemma get_task_map:
  assumes "\<And>t. task_id (g t) = task_id t"
  shows "List.find (\<lambda>t. task_id t = i) (map g ts @ rows) =
     (case List.find (\<lambda>t. task_id t = i) ts of None \<Rightarrow> List.find (\<lambda>t. task_id t = i) rows | Some t \<Rightarrow> Some (g t))"
  using assms by (induction ts) auto

lemma table_step_row:
  assumes "table_step w w'" and "t \<in> set (tasks w)"
  shows "\<exists>t' \<in> set (tasks w'). task_id t' = task_id t \<and> legal (completed_ids (tasks w)) t t'"
proof -
  obtain g rows where g: "tasks w' = map g (tasks w) @ rows"
      "\<forall>t \<in> set (tasks w). legal (completed_ids (tasks w)) t (g t)"
    using assms(1) unfolding table_step_def by metis
  then have "legal (completed_ids (tasks w)) t (g t)" using assms(2) by blast
  moreover from this have "task_id (g t) = task_id t" using legal_same_row by (auto simp: same_row_def)
  ultimately show ?thesis using g(1) assms(2) by (intro bexI [of _ "g t"]) auto
qed

text \<open>A finished row never changes again.\<close>

lemma final_rows_effects:
  assumes "effects w w'" and "inv_tasks w" and "t \<in> set (tasks w)"
    and "task_state t \<in> {TCompleted, TSkipped}"
  shows "t \<in> set (tasks w')"
  using assms(1)
proof (induction rule: rtranclp_induct)
  case base
  then show ?case by (rule assms(3))
next
  case (step w1 w2)
  have "inv_tasks w1" using inv_tasks_effects [OF step.hyps(1) assms(2)] .
  then have "table_step w1 w2" using effect_table [OF step.hyps(2)] by (simp add: inv_tasks_def)
  then obtain t' where "t' \<in> set (tasks w2)" "legal (completed_ids (tasks w1)) t t'"
    using table_step_row [OF _ step.IH] by blast
  then show ?case using legal_final [OF _ assms(4)] by blast
qed

section \<open>What a completed job guarantees\<close>

definition inv_jobs :: "world \<Rightarrow> bool" where
  "inv_jobs w \<longleftrightarrow> (\<forall>j r. jobs w j = Some r \<longrightarrow> job_state r = JCompleted \<longrightarrow>
     pipeline_done w j \<and> transcripts w j \<noteq> None)"

lemma pipeline_done_map:
  assumes "tasks w' = map g (tasks w) @ rows" and "\<And>t. t \<in> set (tasks w) \<Longrightarrow> legal done t (g t)"
    and "\<And>t. t \<in> set rows \<Longrightarrow> task_job_id t = j \<Longrightarrow> is_post_processing_task t"
    and "pipeline_done w j"
  shows "pipeline_done w' j"
  unfolding pipeline_done_def
proof (intro ballI)
  fix t' assume "t' \<in> set (pipeline_tasks w' j)"
  then have t': "t' \<in> set (tasks w')" "task_job_id t' = j" "\<not> is_post_processing_task t'"
    by (auto simp: pipeline_tasks_def job_tasks_def)
  then obtain t where t: "t \<in> set (tasks w)" "t' = g t" using assms(1,3) by auto
  have same: "same_row t t'" using legal_same_row [OF assms(2) [OF t(1)]] t(2) by simp
  then have "t \<in> set (pipeline_tasks w j)"
    using t(1) t' by (auto simp: pipeline_tasks_def job_tasks_def same_row_def is_post_processing_task_def)
  then have "task_state t \<in> terminal_task_states \<and> \<not> (task_state t = TFailed \<and> task_required t)"
    using assms(4) by (simp add: pipeline_done_def)
  then show "task_state t' \<in> terminal_task_states \<and> \<not> (task_state t' = TFailed \<and> task_required t')"
    using legal_terminal [OF assms(2) [OF t(1)]] t(2) by auto
qed

lemma pipeline_done_same: "tasks w' = tasks w \<Longrightarrow> pipeline_done w' j = pipeline_done w j"
  by (simp add: pipeline_done_def pipeline_tasks_def job_tasks_def)

text \<open>Effects on tasks leave the job rows and transcripts alone, so a step that only appends
  enrichment rows keeps every completed pipeline.\<close>

lemma inv_jobs_table:
  assumes "table_step w w'" and "inv_jobs w" and "jobs w' = jobs w" and "transcripts w' = transcripts w"
    and "\<And>t. t \<in> set (tasks w') \<Longrightarrow> task_id t \<notin> task_id ` set (tasks w) \<Longrightarrow> is_post_processing_task t"
  shows "inv_jobs w'"
proof -
  obtain g rows where g: "tasks w' = map g (tasks w) @ rows"
      "\<And>t. t \<in> set (tasks w) \<Longrightarrow> legal (completed_ids (tasks w)) t (g t)"
    and rows: "rows = [] \<or> (\<exists>j. new_rows w j rows)"
    using assms(1) unfolding table_step_def by metis
  have "is_post_processing_task t" if "t \<in> set rows" for t
    using that rows g(1) by (intro assms(5)) (auto simp: new_rows_def)
  then show ?thesis
    using assms(2-4) pipeline_done_map [OF g] by (auto simp: inv_jobs_def)
qed

lemma inv_jobs_frame:
  assumes "inv_jobs w" and "tasks w' = tasks w"
    and "\<And>j r. jobs w' j = Some r \<Longrightarrow> job_state r = JCompleted \<Longrightarrow>
       (\<exists>r0. jobs w j = Some r0 \<and> job_state r0 = JCompleted) \<or> pipeline_done w j \<and> transcripts w j \<noteq> None"
    and "\<And>j. transcripts w j \<noteq> None \<Longrightarrow> transcripts w' j \<noteq> None"
  shows "inv_jobs w'"
  using assms pipeline_done_same [OF assms(2)] unfolding inv_jobs_def by metis

lemma upd_same_ids:
  "moves_to s n f \<Longrightarrow> t \<in> set (tasks (upd_task i f w)) \<Longrightarrow> task_id t \<in> task_id ` set (tasks w)"
  "moves_to s n f \<Longrightarrow> t \<in> set (tasks (upd_tasks P f w)) \<Longrightarrow> task_id t \<in> task_id ` set (tasks w)"
  by (auto simp: upd_task_def upd_tasks_def moves_to_def same_row_def)

lemma inv_jobs_effect:
  assumes "effect w w'" and "distinct (ids w)" and "inv_jobs w"
  shows "inv_jobs w'"
  using assms(1) effect_table [OF assms(1,2)] assms(3)
proof (induction rule: effect.induct)
  case (claimed w i t f)
  show ?case by (rule inv_jobs_table [OF claimed.prems]) (use upd_same_ids(1) [OF claimed.hyps(4)] in auto)
next
  case (started f w i)
  show ?case by (rule inv_jobs_table [OF started.prems]) (use upd_same_ids(2) [OF started.hyps] in auto)
next
  case (completed w i t f)
  show ?case by (rule inv_jobs_table [OF completed.prems]) (use upd_same_ids(1) [OF completed.hyps(3)] in auto)
next
  case (retried w i t f)
  show ?case by (rule inv_jobs_table [OF retried.prems]) (use upd_same_ids(1) [OF retried.hyps(4)] in auto)
next
  case (skipped w i t f)
  show ?case by (rule inv_jobs_table [OF skipped.prems]) (use upd_same_ids(1) [OF skipped.hyps(4)] in auto)
next
  case (failed w i t f)
  show ?case by (rule inv_jobs_table [OF failed.prems]) (use upd_same_ids(1) [OF failed.hyps(3)] in auto)
next
  case (dropped f P j w)
  show ?case by (rule inv_jobs_table [OF dropped.prems]) (use upd_same_ids(2) [OF dropped.hyps(1)] in auto)
next
  case (enrichment_rows w j rows)
  show ?case by (rule inv_jobs_table [OF enrichment_rows.prems]) (use enrichment_rows.hyps in auto)
next
  case (job_ran w j r rows f)
  have same: "pipeline_done (upd_job j f (w\<lparr>tasks := tasks w @ rows\<rparr>)) k = pipeline_done w k" if "k \<noteq> j" for k
  proof -
    have "filter (\<lambda>t. task_job_id t = k) rows = []"
      using job_ran.hyps(3) that by (auto simp: new_rows_def filter_empty_conv)
    then show ?thesis by (simp add: pipeline_done_def pipeline_tasks_def job_tasks_def)
  qed
  show ?case
    using job_ran.prems(2) job_ran.hyps(4) same by (auto simp: inv_jobs_def sets_job_def)
next
  case (noted f w j)
  show ?case by (rule inv_jobs_frame [OF noted.prems(2)]) (use noted in \<open>auto simp: keeps_outcome_def split: if_splits\<close>)
next
  case (stored w j r tr)
  show ?case by (rule inv_jobs_frame [OF stored.prems(2)]) auto
next
  case (patched w j tr tr')
  show ?case by (rule inv_jobs_frame [OF patched.prems(2)]) auto
next
  case (job_failed f w j)
  show ?case by (rule inv_jobs_frame [OF job_failed.prems(2)]) (use job_failed in \<open>auto simp: sets_job_def split: if_splits\<close>)
next
  case (job_cancelling f w j)
  show ?case by (rule inv_jobs_frame [OF job_cancelling.prems(2)]) (use job_cancelling in \<open>auto simp: sets_job_def split: if_splits\<close>)
next
  case (job_cancelled f w j)
  show ?case by (rule inv_jobs_frame [OF job_cancelled.prems(2)]) (use job_cancelled in \<open>auto simp: sets_job_def split: if_splits\<close>)
next
  case (job_completed w j f)
  show ?case by (rule inv_jobs_frame [OF job_completed.prems(2)]) (use job_completed in \<open>auto simp: sets_job_def split: if_splits\<close>)
next
  case (submitted w j r)
  show ?case by (rule inv_jobs_frame [OF submitted.prems(2)]) (use submitted in \<open>auto split: if_splits\<close>)
qed (auto intro: inv_jobs_frame)

section \<open>What the concurrency counter counts\<close>

definition unreleased :: "world \<Rightarrow> uuid \<Rightarrow> uuid set" where
  "unreleased w tenant = {j. \<exists>r. jobs w j = Some r \<and> job_tenant r = tenant \<and> j \<notin> decremented w}"

definition inv_counters :: "world \<Rightarrow> bool" where
  "inv_counters w \<longleftrightarrow> finite (dom (jobs w)) \<and> decremented w \<subseteq> dom (jobs w)
     \<and> (\<forall>tenant. counters w tenant = int (card (unreleased w tenant)))"

lemma finite_unreleased: "inv_counters w \<Longrightarrow> finite (unreleased w tenant)"
  by (rule finite_subset [of _ "dom (jobs w)"]) (auto simp: inv_counters_def unreleased_def)

lemma inv_counters_frame:
  assumes "inv_counters w" and "decremented w' = decremented w" and "counters w' = counters w"
    and "\<And>j. map_option job_tenant (jobs w' j) = map_option job_tenant (jobs w j)"
  shows "inv_counters w'"
proof -
  have "unreleased w' tenant = unreleased w tenant" for tenant
    using assms(4) unfolding unreleased_def assms(2) by (metis (no_types, opaque_lifting) map_option_eq_Some)
  moreover have "dom (jobs w') = dom (jobs w)"
    using assms(4) by (auto simp: dom_def) (metis map_option_is_None option.exhaust)+
  ultimately show ?thesis using assms(1-3) by (simp add: inv_counters_def)
qed

lemma inv_counters_release:
  assumes "inv_counters w" and "jobs w j = Some r"
  shows "inv_counters (decrement_concurrent_jobs j (job_tenant r) w)"
proof (cases "j \<in> decremented w")
  case True
  then show ?thesis using assms(1) by (simp add: decrement_concurrent_jobs_def)
next
  case False
  let ?w = "decrement_concurrent_jobs j (job_tenant r) w"
  have mem: "j \<in> unreleased w (job_tenant r)" using assms(2) False by (simp add: unreleased_def)
  have own: "unreleased ?w (job_tenant r) = unreleased w (job_tenant r) - {j}"
    using assms(2) by (auto simp: unreleased_def)
  have other: "unreleased ?w tn = unreleased w tn" if "tn \<noteq> job_tenant r" for tn
    using assms(2) that by (auto simp: unreleased_def)
  have fin: "finite (unreleased w (job_tenant r))" by (rule finite_unreleased [OF assms(1)])
  have pos: "0 < card (unreleased w (job_tenant r))" using mem fin by (auto simp: card_gt_0_iff)
  have "counters ?w tn = int (card (unreleased ?w tn))" for tn
    using assms(1) False own other fin mem pos
    by (cases "tn = job_tenant r")
      (auto simp: decrement_concurrent_jobs_def Let_def inv_counters_def of_nat_diff)
  then show ?thesis using assms by (auto simp: inv_counters_def)
qed

lemma inv_counters_submit:
  assumes "inv_counters w" and "jobs w j = None"
  shows "inv_counters (submit_job j r w)" (is "inv_counters ?w")
proof -
  have new: "j \<notin> decremented w" using assms by (auto simp: inv_counters_def)
  have own: "unreleased ?w (job_tenant r) = insert j (unreleased w (job_tenant r))"
    using assms(2) new by (auto simp: unreleased_def submit_job_simps split: if_splits)
  have other: "unreleased ?w tn = unreleased w tn" if "tn \<noteq> job_tenant r" for tn
    using assms(2) that by (auto simp: unreleased_def submit_job_simps split: if_splits)
  have "j \<notin> unreleased w (job_tenant r)" using assms(2) by (simp add: unreleased_def)
  then have "counters ?w tn = int (card (unreleased ?w tn))" for tn
    using assms(1) own other finite_unreleased [OF assms(1)]
    by (cases "tn = job_tenant r") (auto simp: inv_counters_def submit_job_simps)
  moreover have "finite (dom (jobs ?w))" "decremented ?w \<subseteq> dom (jobs ?w)"
    using assms(1) by (auto simp: inv_counters_def submit_job_simps)
  ultimately show ?thesis unfolding inv_counters_def by blast
qed

lemma inv_counters_job:
  assumes "inv_counters w" and "\<And>r. job_tenant (f r) = job_tenant r"
  shows "inv_counters (upd_job j f w)"
  by (rule inv_counters_frame [OF assms(1)]) (simp_all add: option.map_comp comp_def assms(2))

lemma inv_counters_same:
  "inv_counters w \<Longrightarrow> decremented w' = decremented w \<Longrightarrow> counters w' = counters w \<Longrightarrow>
   jobs w' = jobs w \<Longrightarrow> inv_counters w'"
  by (rule inv_counters_frame) simp_all

lemma inv_counters_effect: "effect w w' \<Longrightarrow> inv_counters w \<Longrightarrow> inv_counters w'"
proof (induction rule: effect.induct)
  case (released w j r)
  then show ?case by (intro inv_counters_release)
next
  case (submitted w j r)
  then show ?case by (intro inv_counters_submit)
next
  case (noted f w j)
  then show ?case by (intro inv_counters_job) (simp_all add: keeps_outcome_def)
next
  case (job_ran w j r rows f)
  have "inv_counters (w\<lparr>tasks := tasks w @ rows\<rparr>)"
    by (rule inv_counters_same [OF job_ran.prems]) simp_all
  then show ?case using job_ran.hyps(4) by (intro inv_counters_job) (simp_all add: sets_job_def)
next
  case (job_failed f w j)
  then show ?case by (intro inv_counters_job) (simp_all add: sets_job_def)
next
  case (job_cancelling f w j)
  then show ?case by (intro inv_counters_job) (simp_all add: sets_job_def)
next
  case (job_cancelled f w j)
  then show ?case by (intro inv_counters_job) (simp_all add: sets_job_def)
next
  case (job_completed w j f)
  then show ?case by (intro inv_counters_job) (simp_all add: sets_job_def)
qed (rule inv_counters_same, assumption, simp_all)+

section \<open>Reachable states\<close>

definition empty_world :: world where
  "empty_world = \<lparr>jobs = (\<lambda>_. None), tasks = [],
     queues_of = \<lparr>stream = [], dedupe_keys = {}, task_metadata = (\<lambda>_. []), metadata_ttl = (\<lambda>_. None),
       waiting_tasks = {}, needs = [], requests = (\<lambda>_. None)\<rparr>,
     decremented = {}, counters = (\<lambda>_. 0), enrichments = (\<lambda>_. []), cancel_flags = {}, events = [],
     metrics = [], transcripts = (\<lambda>_. None), artifacts_available = (\<lambda>_. None)\<rparr>"

text \<open>Any sequence of submissions, cancellations and events, handled one at a time; every event
  handler draws identifiers no row uses (the promise of \<open>uuid4\<close>).\<close>

inductive reachable :: "world \<Rightarrow> bool" where
  start: "reachable empty_world"
| submit: "reachable w \<Longrightarrow> jobs w j = None \<Longrightarrow> job_state r = JPending \<Longrightarrow> reachable (submit_job j r w)"
| cancel: "reachable w \<Longrightarrow> jobs w j = Some r \<Longrightarrow> reachable (cancel_route env j (job_tenant r) w)"
| created: "reachable w \<Longrightarrow> fresh_ids env w \<Longrightarrow> reachable (fst (handle_job_created env j w))"
| task_started: "reachable w \<Longrightarrow> reachable (handle_task_started env i w)"
| task_completed: "reachable w \<Longrightarrow> fresh_ids env w \<Longrightarrow> reachable (fst (handle_task_completed env i w))"
| task_failed: "reachable w \<Longrightarrow> fresh_ids env w \<Longrightarrow> reachable (fst (handle_task_failed env i err w))"
| task_wait_timeout: "reachable w \<Longrightarrow> fresh_ids env w \<Longrightarrow>
    reachable (fst (handle_task_wait_timeout env i err w))"
| cancel_requested: "reachable w \<Longrightarrow> reachable (handle_job_cancel_requested env j w)"

definition inv_all :: "world \<Rightarrow> bool" where
  "inv_all w \<longleftrightarrow> inv_tasks w \<and> inv_jobs w \<and> inv_counters w"

lemma inv_all_distinct: "inv_all w \<Longrightarrow> distinct (ids w)"
  by (simp add: inv_all_def inv_tasks_def)

lemma inv_all_effect: "effect w w' \<Longrightarrow> inv_all w \<Longrightarrow> inv_all w'"
  using inv_tasks_effect inv_jobs_effect inv_counters_effect inv_all_distinct
  by (auto simp: inv_all_def)

lemma inv_all_effects: "effects w w' \<Longrightarrow> inv_all w \<Longrightarrow> inv_all w'"
  by (induction rule: rtranclp_induct) (auto intro: inv_all_effect)

lemma inv_all_empty: "inv_all empty_world"
  by (simp add: inv_all_def inv_tasks_def inv_jobs_def inv_counters_def unreleased_def empty_world_def ids_def)

lemma reachable_inv: "reachable w \<Longrightarrow> inv_all w"
proof (induction rule: reachable.induct)
  case start
  show ?case by (rule inv_all_empty)
next
  case (submit w j r)
  then show ?case using inv_all_effect [OF submitted] by blast
next
  case (cancel w j r env)
  have "effects w (cancel_route env j (job_tenant r) w)"
    by (rule cancel_route_effects) (use cancel.hyps(2) in simp)
  then show ?case using cancel.IH inv_all_effects by blast
next
  case (created w env j)
  then show ?case using inv_all_effects [OF handle_job_created_effects] by blast
next
  case (task_started w env i)
  then show ?case using inv_all_effects [OF handle_task_started_effects] by blast
next
  case (task_completed w env i)
  then show ?case
    using inv_all_effects [OF handle_task_completed_effects [OF effects_refl inv_all_distinct]] by blast
next
  case (task_failed w env i err)
  then show ?case using inv_all_effects [OF handle_task_failed_effects [OF inv_all_distinct]] by blast
next
  case (task_wait_timeout w env i err)
  then show ?case using inv_all_effects [OF handle_task_wait_timeout_effects [OF inv_all_distinct]] by blast
next
  case (cancel_requested w env j)
  then show ?case using inv_all_effects [OF handle_job_cancel_requested_effects] by blast
qed

end
