(* ===== verification/Demo.thy ===== *)
theory Demo
  imports Invariants SelectorProps
begin

text \<open>
  A concrete orchestrator for the witnesses: one tenant, one job, the engines of the demo
  catalog, and the states its handlers leave one event after another. All of it evaluates.
\<close>

definition demo_artifacts :: "(string \<times> artifact_reference) list" where
  "demo_artifacts = [(''prepared'', \<lparr>artifact_id = ''prepared'', ref_kind = ''audio'',
     storage_locator = ''s3://audio/prepared'', ref_channel = None, ref_role = Some ''prepared'',
     producer_task_id = Some ''100'', ref_producer_stage = Some ''prepare''\<rparr>)]"

definition demo_responses :: "uuid \<Rightarrow> dict option" where
  "demo_responses i =
     (if i = 100 then Some [(''data'', PDict [(''channel_files'', PList [PDict [(''duration'', PFloat 60)]])])]
      else if i = 101 then Some [(''data'', PDict [(''text'', PStr ''hello world'')])]
      else None)"

definition demo_oenv :: "nat \<Rightarrow> oenv" where
  "demo_oenv n =
     \<lparr>oe_select = demo_env None, oe_uuid = (\<lambda>i. n + i), oe_speech_env = [],
      oe_unavailable_behavior = ''fail_fast'', oe_wait_timeout = 300, oe_stale_timeout = 1800,
      oe_response = demo_responses, oe_artifacts = (\<lambda>_. demo_artifacts),
      oe_config_error = (\<lambda>_ _. None),
      oe_assemble = (\<lambda>a. Inr [(''text'', PStr ''hello world''), (''segments'', PList [PNone]),
         (''stages'', PList (map PStr (as_stages a)))]),
      oe_show_queue = (\<lambda>_. ''engine unavailable''), oe_show_sel = (\<lambda>_. ''no engine''),
      oe_show_exn = (\<lambda>_. ''error''), oe_uuid_text = str_nat\<rparr>"

text \<open>The same orchestrator when every engine instance has gone, and with the enrichment
  engines up.\<close>

definition demo_down :: "nat \<Rightarrow> oenv" where
  "demo_down n = (demo_oenv n)\<lparr>oe_select := (demo_env None)\<lparr>se_registry :=
     demo_registry\<lparr>reg_instance := (\<lambda>_. None)\<rparr>\<rparr>\<rparr>"

definition demo_rich :: "nat \<Rightarrow> oenv" where
  "demo_rich n = (demo_oenv n)\<lparr>oe_select := (demo_env None)\<lparr>se_registry :=
     demo_registry\<lparr>reg_instance := (\<lambda>i. if i = ''nemo'' then Some (demo_engine ''nemo'' ''transcribe'')
       else if i = ''prep'' then Some (demo_engine ''prep'' ''prepare'')
       else Some (demo_engine i i)),
     reg_by_stage := (\<lambda>s. if s = ''transcribe'' then [''nemo''] else if s = ''prepare'' then [''prep''] else [s])\<rparr>\<rparr>\<rparr>"

definition demo_job :: "dict \<Rightarrow> job_row" where
  "demo_job params = \<lparr>job_state = JPending, job_tenant = 3, job_audio_uri = ''s3://in'',
     job_parameters = params, job_error = None, job_started_at = None, job_completed_at = None,
     job_audio_format = None, job_audio_duration = None, job_audio_sample_rate = Some 16000,
     job_audio_channels = Some 1, job_audio_bit_depth = None, job_result = None,
     job_pii_entities = None, job_pii_audio_uri = None\<rparr>"

definition demo_submitted :: "dict \<Rightarrow> world" where
  "demo_submitted params = submit_job 7 (demo_job params) empty_world"

definition demo_created :: "(nat \<Rightarrow> oenv) \<Rightarrow> dict \<Rightarrow> world" where
  "demo_created f params = fst (handle_job_created (f 100) 7 (demo_submitted params))"

definition demo_prepared :: "(nat \<Rightarrow> oenv) \<Rightarrow> dict \<Rightarrow> world" where
  "demo_prepared f params = fst (handle_task_completed (f 200) 100
     (handle_task_started (f 150) 100 (demo_created f params)))"

definition demo_done :: "(nat \<Rightarrow> oenv) \<Rightarrow> dict \<Rightarrow> world" where
  "demo_done f params = fst (handle_task_completed (f 300) 101
     (handle_task_started (f 250) 101 (demo_prepared f params)))"

end
