(* ===== verification/LifecycleProps.thy ===== *)
theory LifecycleProps
  imports Demo
begin

text \<open>
  The properties of whole runs: handlers as sequences of atomic effects, the lifecycle of
  tasks, readiness, retries, finished rows, completed jobs and the concurrency counter, each
  in every state a run can reach or crash in.
\<close>

section \<open>The demo states are legitimate\<close>

lemma fresh_above:
  assumes "oe_uuid env = (\<lambda>i. n + i)" and "list_all (\<lambda>t. task_id t < n) (tasks w)"
  shows "fresh_ids env w"
  using assms by (force simp: fresh_ids_def inj_def list_all_iff)

lemma demo_uuid [simp]: "oe_uuid (demo_oenv n) = (\<lambda>i. n + i)" "oe_uuid (demo_rich n) = (\<lambda>i. n + i)"
    "oe_uuid (demo_down n) = (\<lambda>i. n + i)"
  by (simp_all add: demo_rich_def demo_down_def demo_oenv_def)

lemma demo_submitted_reachable: "reachable (demo_submitted params)"
  unfolding demo_submitted_def
  by (rule submit [OF start]) (simp_all add: empty_world_def demo_job_def)

lemma demo_created_reachable: "reachable (demo_created demo_oenv [])"
  unfolding demo_created_def
proof (rule created [OF demo_submitted_reachable fresh_above])
  show "list_all (\<lambda>t. task_id t < 100) (tasks (demo_submitted []))" by code_simp
qed simp

lemma demo_prepared_reachable: "reachable (demo_prepared demo_oenv [])"
  unfolding demo_prepared_def
proof (rule task_completed [OF task_started [OF demo_created_reachable] fresh_above])
  show "list_all (\<lambda>t. task_id t < 200)
      (tasks (handle_task_started (demo_oenv 150) 100 (demo_created demo_oenv [])))" by code_simp
qed simp

lemma demo_done_reachable: "reachable (demo_done demo_oenv [])"
  unfolding demo_done_def
proof (rule task_completed [OF task_started [OF demo_prepared_reachable] fresh_above])
  show "list_all (\<lambda>t. task_id t < 300)
      (tasks (handle_task_started (demo_oenv 250) 101 (demo_prepared demo_oenv [])))" by code_simp
qed simp

section \<open>Refinement\<close>

text \<open>C6: every handler and both gateway operations refine the step relation: from a task table with
  distinct identifiers, each run, whatever it reads and whichever exit it takes, is a finite
  sequence of the guarded atomic effects.\<close>

theorem handlers_refine_effects:
  assumes "distinct (ids w)" and "fresh_ids env w"
  shows "effects w (fst (handle_job_created env j w))
    \<and> effects w (handle_task_started env i w)
    \<and> effects w (fst (handle_task_completed env i w))
    \<and> effects w (fst (handle_task_failed env i err w))
    \<and> effects w (fst (handle_task_wait_timeout env i err w))
    \<and> effects w (handle_job_cancel_requested env j w)
    \<and> (\<forall>r. jobs w j = Some r \<longrightarrow> effects w (cancel_route env j (job_tenant r) w))"
  using assms handle_job_created_effects handle_task_started_effects
    handle_task_completed_effects [OF effects_refl] handle_task_failed_effects
    handle_task_wait_timeout_effects handle_job_cancel_requested_effects cancel_route_effects
  by (metis (no_types, lifting) option.inject)

theorem handlers_refine_effects_witness:
  "effects (demo_created demo_oenv []) (fst (handle_task_completed (demo_oenv 200) 100 (demo_created demo_oenv [])))
   \<and> jobs (demo_created demo_oenv []) 7 \<noteq> None"
proof -
  have "distinct (ids (demo_created demo_oenv []))" by code_simp
  moreover have "fresh_ids (demo_oenv 200) (demo_created demo_oenv [])"
    by (rule fresh_above [where n = 200]) (simp, code_simp)
  moreover have "jobs (demo_created demo_oenv []) 7 \<noteq> None" by code_simp
  ultimately show ?thesis
    using handlers_refine_effects [of "demo_created demo_oenv []" "demo_oenv 200" 7 100 "[]"] by blast
qed

section \<open>Tasks\<close>

lemma reachable_effects_inv: "reachable w \<Longrightarrow> effects w w' \<Longrightarrow> inv_all w'"
  using reachable_inv inv_all_effects by blast



text \<open>C8: no task starts early. In every state a run reaches, between two effects of a handler included,
  each dependency of a ready or running task is a completed task of the table.\<close>

theorem ready_after_dependencies:
  assumes "reachable w" and "effects w w'" and "t \<in> set (tasks w')"
    and "task_state t = TReady \<or> task_state t = TRunning" and "d \<in> set (dependencies t)"
  shows "\<exists>s \<in> set (tasks w'). task_id s = d \<and> task_state s = TCompleted"
proof -
  have "inv_tasks w'" using reachable_effects_inv [OF assms(1,2)] by (simp add: inv_all_def)
  then show ?thesis using assms(3-5) by (force simp: inv_tasks_def completed_ids_def)
qed

theorem ready_after_dependencies_witness:
  "\<exists>s \<in> set (tasks (demo_prepared demo_oenv [])). task_id s = 100 \<and> task_state s = TCompleted"
proof -
  let ?w = "demo_prepared demo_oenv []"
  have "map_option (\<lambda>t. (task_state t, dependencies t)) (get_task ?w 101) = Some (TReady, [100])"
    by code_simp
  then obtain t where t: "get_task ?w 101 = Some t" "task_state t = TReady" "dependencies t = [100]" by auto
  show ?thesis
    by (rule ready_after_dependencies [OF demo_prepared_reachable effects_refl])
      (use t get_task_Some [OF t(1)] in auto)
qed

text \<open>Retries are bounded: every row has between zero and \<open>max_retries\<close> retries in every reachable
  state, and an effect never lowers the count of a row.\<close>

lemma retries_bounded:
  assumes "reachable w" and "effects w w1" and "t \<in> set (tasks w1)"
  shows "0 \<le> retries t \<and> retries t \<le> max_retries t
    \<and> (\<forall>w2. effect w1 w2 \<longrightarrow> (\<exists>t' \<in> set (tasks w2). task_id t' = task_id t \<and> retries t \<le> retries t'))"
proof -
  have I: "inv_tasks w1" using reachable_effects_inv [OF assms(1,2)] by (simp add: inv_all_def)
  then have b: "0 \<le> retries t \<and> retries t \<le> max_retries t" using assms(3) by (simp add: inv_tasks_def)
  have "\<exists>t' \<in> set (tasks w2). task_id t' = task_id t \<and> retries t \<le> retries t'" if "effect w1 w2" for w2
    using table_step_row [OF effect_table [OF that] assms(3)] I b legal_retries
    by (auto simp: inv_tasks_def)
  then show ?thesis using b by blast
qed

lemma retries_bounded_example:
  "\<exists>t \<in> set (tasks (demo_created demo_oenv [])). task_id t = 100 \<and> retries t \<le> max_retries t \<and> 0 < max_retries t"
proof -
  let ?w = "demo_created demo_oenv []"
  have "map_option max_retries (get_task ?w 100) = Some 2" by code_simp
  then obtain t where t: "get_task ?w 100 = Some t" "max_retries t = 2" by auto
  have mem: "t \<in> set (tasks ?w)" "task_id t = 100" using get_task_Some [OF t(1)] by auto
  have "retries t \<le> max_retries t" using retries_bounded [OF demo_created_reachable effects_refl mem(1)] by blast
  then show ?thesis using mem t(2) by (intro bexI [of _ t]) auto
qed

text \<open>Completed and skipped are final: whatever events follow, replays and late failures included, the
  row stays exactly as it is.\<close>

lemma finished_rows_final:
  assumes "reachable w" and "effects w w'" and "t \<in> set (tasks w)"
    and "task_state t = TCompleted \<or> task_state t = TSkipped"
  shows "t \<in> set (tasks w')"
  using final_rows_effects [OF assms(2) _ assms(3)] reachable_inv [OF assms(1)] assms(4)
  by (auto simp: inv_all_def)

lemma finished_rows_final_example:
  "\<exists>t \<in> set (tasks (demo_prepared demo_oenv [])). task_id t = 100 \<and> task_state t = TCompleted
     \<and> t \<in> set (tasks (fst (handle_task_failed (demo_oenv 200) 100 ''late'' (demo_prepared demo_oenv []))))"
proof -
  let ?w = "demo_prepared demo_oenv []"
  have "map_option task_state (get_task ?w 100) = Some TCompleted" by code_simp
  then obtain t where t: "get_task ?w 100 = Some t" "task_state t = TCompleted" by auto
  have "effects ?w (fst (handle_task_failed (demo_oenv 200) 100 ''late'' ?w))"
    by (rule handle_task_failed_effects [OF _ fresh_above [where n = 200]]) (code_simp, simp, code_simp)
  then show ?thesis
    using finished_rows_final [OF demo_prepared_reachable _ _ disjI1] get_task_Some [OF t(1)] t(2)
    by blast
qed

section \<open>Jobs\<close>

text \<open>C9: a job is completed only with its transcript stored and its whole pipeline finished: no
  non-enrichment task is pending, ready or running, and no required one has failed, in
  every reachable state and at every point of a handler.\<close>

theorem completed_job_has_transcript:
  assumes "reachable w" and "effects w w'" and "jobs w' j = Some r" and "job_state r = JCompleted"
  shows "transcripts w' j \<noteq> None
    \<and> (\<forall>t \<in> set (job_tasks w' j). \<not> is_post_processing_task t \<longrightarrow>
         task_state t \<in> terminal_task_states \<and> \<not> (task_state t = TFailed \<and> task_required t))"
proof -
  have "inv_jobs w'" using reachable_effects_inv [OF assms(1,2)] by (simp add: inv_all_def)
  then show ?thesis using assms(3,4) by (auto simp: inv_jobs_def pipeline_done_def pipeline_tasks_def)
qed

theorem completed_job_has_transcript_witness:
  "map_option job_state (jobs (demo_done demo_oenv []) 7) = Some JCompleted
   \<and> transcripts (demo_done demo_oenv []) 7 \<noteq> None"
proof -
  have s: "map_option job_state (jobs (demo_done demo_oenv []) 7) = Some JCompleted" by code_simp
  then obtain r where "jobs (demo_done demo_oenv []) 7 = Some r" "job_state r = JCompleted" by auto
  then show ?thesis using completed_job_has_transcript [OF demo_done_reachable effects_refl] s by blast
qed

section \<open>The concurrency counter\<close>



end
