(* ===== verification/SlotProps.thy ===== *)
theory SlotProps
  imports LifecycleProps
begin

text \<open>
  No job keeps its concurrency slot after it has ended: every handler that leaves a job
  completed, failed or cancelled has released its slot.
\<close>

abbreviation ended :: "job_row \<Rightarrow> bool" where
  "ended r \<equiv> job_state r \<in> {JCompleted, JFailed, JCancelled}"

definition released_but :: "uuid set \<Rightarrow> world \<Rightarrow> bool" where
  "released_but S w \<longleftrightarrow> (\<forall>j r. jobs w j = Some r \<longrightarrow> ended r \<longrightarrow> j \<in> S \<or> j \<in> decremented w)"

abbreviation all_released :: "world \<Rightarrow> bool" where
  "all_released \<equiv> released_but {}"

lemma released_frame [simp]:
  "released_but S (emit e w) = released_but S w"
  "released_but S (measure_metric m w) = released_but S w"
  "released_but S (upd_task i f w) = released_but S w"
  "released_but S (upd_tasks P f w) = released_but S w"
  "released_but S (w\<lparr>queues_of := q\<rparr>) = released_but S w"
  "released_but S (w\<lparr>tasks := ts\<rparr>) = released_but S w"
  "released_but S (w\<lparr>transcripts := tr\<rparr>) = released_but S w"
  "released_but S (w\<lparr>cancel_flags := cf\<rparr>) = released_but S w"
  "released_but S (w\<lparr>artifacts_available := a\<rparr>) = released_but S w"
  "released_but S (set_enrichments j kvs w) = released_but S w"
  "released_but S (mark_enrichment_status j s st w) = released_but S w"
  by (simp_all add: released_but_def set_enrichments_def mark_enrichment_status_def)

lemma released_metrics [simp]: "released_but S (fold measure_metric ms w) = released_but S w"
  by (induction ms arbitrary: w) simp_all

lemma released_upd: "released_but {} w \<Longrightarrow> released_but {j} (upd_job j f w)"
  by (auto simp: released_but_def)

lemma released_keep: "released_but {} w \<Longrightarrow> (\<And>r. job_state (f r) = job_state r) \<Longrightarrow> released_but {} (upd_job j f w)"
  by (auto simp: released_but_def)

lemma released_active:
  "released_but {} w \<Longrightarrow> (\<And>r. \<not> ended (f r)) \<Longrightarrow> released_but {} (upd_job j f w)"
  by (auto simp: released_but_def)

lemma released_decrement: "released_but {j} w \<Longrightarrow> released_but {} (decrement_concurrent_jobs j tn w)"
  by (auto simp: released_but_def)

lemma released_more: "released_but {} w \<Longrightarrow> released_but {j} w"
  by (auto simp: released_but_def)

lemma released_fail_job: "all_released w \<Longrightarrow> released_but {j} (fail_job env j err w)"
  unfolding fail_job_def by (rule released_upd)

lemma released_fail_now: "all_released w \<Longrightarrow> all_released (fail_job_now env j tn err w)"
  unfolding fail_job_now_def by (simp add: released_decrement released_fail_job)

lemma released_ensure: "all_released w \<Longrightarrow> all_released (ensure_job_failed_side_effects env stage j err w)"
  by (auto simp: ensure_job_failed_side_effects_def Let_def released_more split: option.split
      intro!: released_decrement released_fail_job)

lemma released_cancel_complete: "all_released w \<Longrightarrow> all_released (check_job_cancellation_complete env j w)"
  by (auto simp: check_job_cancellation_complete_def Let_def split: option.split
      intro!: released_decrement released_upd)

lemma released_schedule: "all_released w \<Longrightarrow> all_released (schedule_post_processing env j params w)"
  by (auto simp: schedule_post_processing_def Let_def split: option.split sum.split prod.split queue_outcome.split)

lemma released_finalise: "all_released w \<Longrightarrow> all_released (finalise_job env j job job1 tr ps w)"
  by (simp add: released_but_def)

lemma released_completion: "all_released w \<Longrightarrow> all_released (check_job_completion env j w)"
  by (cases rule: check_job_completion_cases [of env j w])
    (auto intro: released_finalise released_schedule)

lemma released_dependents:
  "all_released w \<Longrightarrow> all_released (loop_state (queue_dependents env j snap completed w ds))"
  by (rule queue_dependents_keeps) (simp_all add: released_fail_now)

lemma released_advance: "all_released w \<Longrightarrow> all_released (fst (advance_job env j w))"
  using released_dependents [of w env j "job_tasks w j" "completed_ids (job_tasks w j)" "job_tasks w j"]
  by (auto simp: advance_job_def Let_def released_cancel_complete released_completion split: loop.split)

lemma released_track: "all_released w \<Longrightarrow> all_released (track_enrichment env t w)"
  by (auto simp: track_enrichment_def update_transcript_with_pii_def Let_def
      split: option.split pyval.split sum.split intro!: released_keep)

lemma released_duration: "all_released w \<Longrightarrow> all_released (fst (update_audio_duration env t w))"
  by (auto simp: update_audio_duration_def split: option.split sum.split intro!: released_keep)

lemma released_mark_completed: "all_released w \<Longrightarrow> all_released (mark_task_completed env t w)"
  by (simp add: mark_task_completed_def)

lemma released_task_completed: "all_released w \<Longrightarrow> all_released (fst (handle_task_completed env i w))"
proof (cases "get_task w i")
  case None
  then show "all_released w \<Longrightarrow> ?thesis" by (simp add: handle_task_completed_def)
next
  case (Some t0)
  let ?w1 = "mark_task_completed env t0 w"
  assume "all_released w"
  then have w1: "all_released ?w1" by (rule released_mark_completed)
  show ?thesis
  proof (cases "get_task ?w1 i")
    case None
    then show ?thesis using Some w1 by (simp add: handle_task_completed_def)
  next
    case (Some t)
    obtain w2 x where u: "update_audio_duration env t (track_enrichment env t ?w1) = (w2, x)"
      by (metis surj_pair)
    have "all_released w2" using released_duration [OF released_track [OF w1]] u by (metis fst_conv)
    then show ?thesis using Some \<open>get_task w i = Some t0\<close> u released_advance
      by (cases x) (simp_all add: handle_task_completed_def)
  qed
qed

lemma released_queue_retry: "all_released w \<Longrightarrow> all_released (fst (queue_retry env i w))"
  by (auto simp: queue_retry_def Let_def released_ensure split: option.split prod.split queue_outcome.split)

lemma released_task_failed: "all_released w \<Longrightarrow> all_released (fst (handle_task_failed env i err w))"
  by (auto simp: handle_task_failed_def Let_def released_ensure released_queue_retry released_task_completed
      split: option.split task_status.split)

lemma released_wait_timeout: "all_released w \<Longrightarrow> all_released (fst (handle_task_wait_timeout env i err w))"
  by (auto simp: handle_task_wait_timeout_def Let_def released_ensure released_task_completed
      split: option.split)

lemma released_initial:
  "all_released w \<Longrightarrow> all_released (fst (queue_initial_tasks env j tn audio w ts))"
  by (induction ts arbitrary: w)
    (auto simp: Let_def split: prod.split queue_outcome.split intro!: released_decrement released_fail_job)

lemma released_job_created: "all_released w \<Longrightarrow> all_released (fst (handle_job_created env j w))"
  by (auto simp: handle_job_created_def Let_def split: option.split sum.split dag_error.split sel_error.split
      intro!: released_initial released_fail_now released_active)

lemma released_cancel_requested: "all_released w \<Longrightarrow> all_released (handle_job_cancel_requested env j w)"
  by (simp add: handle_job_cancel_requested_def Let_def released_cancel_complete)

lemma released_cancel_route: "all_released w \<Longrightarrow> all_released (cancel_route env j tn w)"
  by (auto simp: cancel_route_def cancel_job_def Let_def split: option.split sum.split
      intro!: released_decrement released_upd released_active)

lemma released_submit: "all_released w \<Longrightarrow> job_state r = JPending \<Longrightarrow> all_released (submit_job j r w)"
  by (auto simp: released_but_def submit_job_simps)

lemma reachable_released: "reachable w \<Longrightarrow> all_released w"
proof (induction rule: reachable.induct)
  case start
  show ?case by (simp add: released_but_def empty_world_def)
qed (simp_all add: released_submit released_cancel_route released_job_created released_task_completed
    released_task_failed released_wait_timeout released_cancel_requested handle_task_started_def)

section \<open>Properties\<close>

text \<open>A job that has ended holds no slot: after every handler run each completed, failed or cancelled
  job has been released, so the counter of a tenant never exceeds the number of its jobs that
  are pending, running or being cancelled.\<close>

lemma ended_jobs_hold_no_slot:
  assumes "reachable w"
  shows "(\<forall>j r. jobs w j = Some r \<longrightarrow> job_state r \<in> {JCompleted, JFailed, JCancelled} \<longrightarrow> j \<in> decremented w)
    \<and> counters w tenant \<le> int (card {j. \<exists>r. jobs w j = Some r \<and> job_tenant r = tenant
          \<and> job_state r \<in> {JPending, JRunning, JCancelling}})"
proof -
  have rel: "j \<in> decremented w" if "jobs w j = Some r" "ended r" for j r
    using reachable_released [OF assms] that by (auto simp: released_but_def)
  have I: "inv_counters w" using reachable_inv [OF assms] by (simp add: inv_all_def)
  let ?active = "{j. \<exists>r. jobs w j = Some r \<and> job_tenant r = tenant \<and> job_state r \<in> {JPending, JRunning, JCancelling}}"
  have "?active \<subseteq> dom (jobs w)" by auto
  then have fin: "finite ?active" using I finite_subset by (auto simp: inv_counters_def)
  have "unreleased w tenant \<subseteq> ?active"
  proof
    fix j assume "j \<in> unreleased w tenant"
    then obtain r where r: "jobs w j = Some r" "job_tenant r = tenant" "j \<notin> decremented w"
      by (auto simp: unreleased_def)
    then have "\<not> ended r" using rel by blast
    then have "job_state r \<in> {JPending, JRunning, JCancelling}" by (cases "job_state r") simp_all
    then show "j \<in> ?active" using r by blast
  qed
  then have "card (unreleased w tenant) \<le> card ?active" by (rule card_mono [OF fin])
  then show ?thesis using I rel by (simp add: inv_counters_def)
qed

definition demo_refused :: world where
  "demo_refused = fst (handle_job_created (demo_down 100) 7 (demo_submitted []))"

lemma ended_jobs_hold_no_slot_example:
  "map_option job_state (jobs demo_refused 7) = Some JFailed \<and> 7 \<in> decremented demo_refused
   \<and> counters demo_refused 3 \<le> 0"
proof -
  have r: "reachable demo_refused" unfolding demo_refused_def
    by (rule created [OF demo_submitted_reachable fresh_above [where n = 100]]) (simp, code_simp)
  have s: "map_option job_state (jobs demo_refused 7) = Some JFailed" by code_simp
  have c: "counters demo_refused 3 = 0" by code_simp
  obtain row where "jobs demo_refused 7 = Some row" "job_state row = JFailed" using s by auto
  then have "7 \<in> decremented demo_refused" using ended_jobs_hold_no_slot [OF r] by blast
  then show ?thesis using s c by simp
qed

text \<open>The gateway publishes \<open>job.created\<close> before it counts the job. When the orchestrator fails
  the job in between, its release meets a counter at zero, is clamped, and the increment that
  follows is never undone: every later release of the job is a no-op, and the tenant keeps one
  slot taken by no job.\<close>

lemma late_increment_leaks_slot:
  assumes "counters w tenant = 0" and "j \<notin> decremented w"
  shows "counters (increment_concurrent_jobs tenant (fail_job_now env j tenant err w)) tenant = 1
    \<and> decrement_concurrent_jobs j tn (increment_concurrent_jobs tenant (fail_job_now env j tenant err w))
        = increment_concurrent_jobs tenant (fail_job_now env j tenant err w)"
  using assms
  by (simp add: increment_concurrent_jobs_def fail_job_now_def fail_job_def emit_def upd_job_def
      decrement_concurrent_jobs_def Let_def)

lemma late_increment_leaks_slot_example:
  "counters (increment_concurrent_jobs 3 (fail_job_now (demo_oenv 0) 7 3 ''no engine''
     (empty_world\<lparr>jobs := [7 \<mapsto> demo_job []]\<rparr>))) 3 = 1"
  using late_increment_leaks_slot [of "empty_world\<lparr>jobs := [7 \<mapsto> demo_job []]\<rparr>" 3 7 "demo_oenv 0" "''no engine''"]
  by (simp add: empty_world_def)

end
