(* ===== verification/HandlerProps.thy ===== *)
theory HandlerProps
  imports LifecycleProps SchedulerProps
begin

text \<open>
  What single handler runs do: which dependents a completion queues, why a job's graph
  cannot get stuck, replays of failure events, the outcome of a finished pipeline, the first
  run of a job, and cancellation.
\<close>

section \<open>Queueing dependents\<close>

definition ready_now :: "uuid set \<Rightarrow> task \<Rightarrow> bool" where
  "ready_now completed t \<longleftrightarrow> task_state t = TPending \<and> set (dependencies t) \<subseteq> completed"

lemma message_for_claim [simp]: "message_for env (claim_ready env' t) m = message_for env t m"
  by (simp add: message_for_def claim_ready_def)

lemma queue_dependent_queued:
  assumes "0 \<le> oe_wait_timeout env" and "0 \<le> oe_stale_timeout env"
    and "queue_dependent env snap d w = (w2, r)" and "\<nexists>x. r = QueueRaised x" and "\<nexists>e. r = QueueFailed e"
  shows "tasks w2 = map (\<lambda>t. if task_id t = task_id d then claim_ready env t else t) (tasks w)
    \<and> jobs w2 = jobs w \<and> dedupe_keys (queues_of w2) = dedupe_keys (queues_of w)
    \<and> (\<exists>m. stream (queues_of w2) = stream (queues_of w) @ [m] \<and> message_for env d m)"
proof -
  obtain q where q: "queue_task env (claim_ready env d)
      (gather_previous_responses env snap [] (dependencies d)) None None (queues_of w) = (q, r)"
    and w2: "w2 = (upd_task (task_id d) (claim_ready env) w)\<lparr>queues_of := q\<rparr>"
    using assms(3) by (auto simp: queue_dependent_def Let_def split: prod.splits)
  have "queue_effect env (claim_ready env d) None (queues_of w) q r"
    using queue_task_summary [OF assms(1,2) q] by blast
  then have "\<exists>m. stream q = stream (queues_of w) @ [m] \<and> message_for env d m"
    "dedupe_keys q = dedupe_keys (queues_of w)"
    using assms(4,5) by (cases r; auto simp: queue_effect_def)+
  then show ?thesis by (simp add: w2 upd_task_def)
qed

lemma get_task_other_claim:
  assumes "tasks w2 = map (\<lambda>t. if task_id t = i then claim_ready env t else t) (tasks w)" and "k \<noteq> i"
  shows "get_task w2 k = get_task w k"
proof -
  have "get_task w2 k = get_task (upd_task i (claim_ready env) w) k"
    by (simp add: get_task_def upd_task_def assms(1))
  also have "\<dots> = get_task w k" by (rule task_table.lookup_other) (simp_all add: assms(2) keeps_id_def claim_ready_def)
  finally show ?thesis .
qed

lemma queue_dependents_exact:
  assumes "0 \<le> oe_wait_timeout env" and "0 \<le> oe_stale_timeout env"
    and "queue_dependents env j snap completed w ds = Continue w'"
    and "distinct (map task_id ds)" and "\<And>d. d \<in> set ds \<Longrightarrow> get_task w (task_id d) = Some d"
  shows "tasks w' = map (\<lambda>t. if task_id t \<in> task_id ` set (filter (ready_now completed) ds)
        then claim_ready env t else t) (tasks w)
    \<and> jobs w' = jobs w \<and> dedupe_keys (queues_of w') = dedupe_keys (queues_of w)
    \<and> (\<exists>ms. stream (queues_of w') = stream (queues_of w) @ ms
        \<and> list_all2 (message_for env) (filter (ready_now completed) ds) ms)"
  using assms(3-5)
proof (induction ds arbitrary: w)
  case Nil
  then show ?case by simp
next
  case (Cons d ds)
  have d: "get_task w (task_id d) = Some d" using Cons.prems(3) by simp
  have nd: "task_id d \<notin> task_id ` set ds" and dist: "distinct (map task_id ds)" using Cons.prems(2) by auto
  show ?case
  proof (cases "ready_now completed d")
    case False
    then have skip: "queue_dependents env j snap completed w (d # ds) = queue_dependents env j snap completed w ds"
      using queue_dependents_skip [of d completed w env j snap ds] by (simp add: ready_now_def)
    show ?thesis
      using Cons.IH [OF Cons.prems(1) [unfolded skip] dist] Cons.prems(3) False by simp
  next
    case True
    then have r: "task_state d = TPending" "set (dependencies d) \<subseteq> completed" by (auto simp: ready_now_def)
    obtain w2 r where q: "queue_dependent env snap d w = (w2, r)" by (metis surj_pair)
    let ?w3 = "measure_metric (scheduled_metric env d) w2"
    have go: "queue_dependents env j snap completed ?w3 ds = Continue w'"
      and ok: "\<nexists>x. r = QueueRaised x" "\<nexists>e. r = QueueFailed e"
      using Cons.prems(1) unfolding queue_dependents_turn [OF r d r(1) q]
      by (cases r; simp split: option.splits)+
    note one = queue_dependent_queued [OF assms(1,2) q ok]
    have "get_task ?w3 (task_id t) = Some t" if "t \<in> set ds" for t
      using get_task_other_claim [of ?w3 "task_id d" env w "task_id t"] one that nd Cons.prems(3)
      by (metis image_eqI list.set_intros(2) measure_metric_frame(2))
    note rest = Cons.IH [OF go dist this]
    have "tasks w' = map (\<lambda>t. if task_id t \<in> task_id ` set (filter (ready_now completed) (d # ds))
        then claim_ready env t else t) (tasks w)"
      using rest one True nd by (auto simp: claim_ready_def)
    then show ?thesis using rest one True by auto
  qed
qed

lemma job_tasks_get: "distinct (ids w) \<Longrightarrow> t \<in> set (job_tasks w j) \<Longrightarrow> get_task w (task_id t) = Some t"
  by (rule get_task_distinct) (auto simp: job_tasks_def)

lemma distinct_job_tasks: "distinct (ids w) \<Longrightarrow> distinct (map task_id (job_tasks w j))"
  by (simp add: ids_def job_tasks_def distinct_map_filter)

lemma dependents_exact:
  assumes "0 \<le> oe_wait_timeout env" and "0 \<le> oe_stale_timeout env" and "distinct (ids w)"
    and "queue_dependents env j (job_tasks w j) (completed_ids (job_tasks w j)) w (job_tasks w j) = Continue w'"
  shows "tasks w' = map (\<lambda>t. if task_job_id t = j \<and> ready_now (completed_ids (job_tasks w j)) t
        then claim_ready env t else t) (tasks w)
    \<and> jobs w' = jobs w \<and> dedupe_keys (queues_of w') = dedupe_keys (queues_of w)
    \<and> (\<exists>ms. stream (queues_of w') = stream (queues_of w) @ ms
        \<and> list_all2 (message_for env) (filter (ready_now (completed_ids (job_tasks w j))) (job_tasks w j)) ms)"
proof -
  let ?r = "ready_now (completed_ids (job_tasks w j))"
  have "(task_id t \<in> task_id ` set (filter ?r (job_tasks w j))) = (task_job_id t = j \<and> ?r t)"
    if "t \<in> set (tasks w)" for t
    using that assms(3) by (auto simp: ids_def distinct_map job_tasks_def dest: inj_onD)
  then show ?thesis
    using queue_dependents_exact [OF assms(1,2,4) distinct_job_tasks [OF assms(3)] job_tasks_get [OF assms(3)]]
    by (auto cong: map_cong)
qed

text \<open>C11: a completion event queues exactly the tasks it enables. When the loop over the dependents runs to
  its end, the rows of the job that were pending with all their dependencies completed are
  claimed, every other row is untouched, and the streams gain exactly one message for each of
  them, in order, to the stream of its engine.\<close>

theorem dependents_queued_exactly:
  assumes "0 \<le> oe_wait_timeout env" and "0 \<le> oe_stale_timeout env" and "distinct (ids w)"
    and "queue_dependents env j (job_tasks w j) (completed_ids (job_tasks w j)) w (job_tasks w j) = Continue w'"
  shows "tasks w' = map (\<lambda>t. if task_job_id t = j \<and> task_state t = TPending
          \<and> set (dependencies t) \<subseteq> completed_ids (job_tasks w j) then claim_ready env t else t) (tasks w)
    \<and> (\<exists>ms. stream (queues_of w') = stream (queues_of w) @ ms
        \<and> list_all2 (message_for env) (filter (\<lambda>t. task_state t = TPending
             \<and> set (dependencies t) \<subseteq> completed_ids (job_tasks w j)) (job_tasks w j)) ms)"
  using dependents_exact [OF assms] by (simp add: ready_now_def [abs_def])

theorem dependents_queued_exactly_witness:
  "let w = mark_task_completed (demo_oenv 200) (the (get_task (demo_created demo_oenv []) 100)) (demo_created demo_oenv []);
       ds = job_tasks w 7
   in case queue_dependents (demo_oenv 200) 7 ds (completed_ids ds) w ds of
        Continue w' \<Rightarrow> (\<exists>ms. stream (queues_of w') = stream (queues_of w) @ ms \<and> length ms = 1)
      | Stop _ _ \<Rightarrow> False"
proof -
  let ?w = "mark_task_completed (demo_oenv 200) (the (get_task (demo_created demo_oenv []) 100)) (demo_created demo_oenv [])"
  let ?ds = "job_tasks ?w 7"
  have c: "case queue_dependents (demo_oenv 200) 7 ?ds (completed_ids ?ds) ?w ?ds of Continue _ \<Rightarrow> True | Stop _ _ \<Rightarrow> False"
    by code_simp
  have n: "length (filter (\<lambda>t. task_state t = TPending \<and> set (dependencies t) \<subseteq> completed_ids ?ds) ?ds) = 1"
    by code_simp
  have i: "distinct (ids ?w)" by code_simp
  have e: "0 \<le> oe_wait_timeout (demo_oenv 200)" "0 \<le> oe_stale_timeout (demo_oenv 200)"
    by (simp_all add: demo_oenv_def)
  from c obtain w' where w': "queue_dependents (demo_oenv 200) 7 ?ds (completed_ids ?ds) ?w ?ds = Continue w'"
    by (auto split: loop.splits)
  obtain ms where "stream (queues_of w') = stream (queues_of ?w) @ ms"
    "list_all2 (message_for (demo_oenv 200)) (filter (\<lambda>t. task_state t = TPending
       \<and> set (dependencies t) \<subseteq> completed_ids ?ds) ?ds) ms"
    using dependents_queued_exactly [OF e i w'] by blast
  then show ?thesis using w' n by (auto simp: Let_def dest: list_all2_lengthD)
qed

lemma deps_earlier_split: "deps_earlier (xs @ t # ys) \<Longrightarrow> set (dependencies t) \<subseteq> task_id ` set xs"
  unfolding deps_earlier_def by (drule spec [of _ "length xs"]) simp

text \<open>The first unfinished task of an ordered graph: everything it waits for is completed.\<close>

lemma some_task_active:
  assumes "deps_earlier ts" and "t \<in> set ts" and "task_state t \<noteq> TCompleted"
    and "\<And>t. t \<in> set ts \<Longrightarrow> task_state t \<in> {TPending, TReady, TRunning, TCompleted}"
  shows "\<exists>s \<in> set ts. ready_now (completed_ids ts) s \<or> task_state s \<in> {TReady, TRunning}"
proof -
  obtain xs s ys where s: "ts = xs @ s # ys" "task_state s \<noteq> TCompleted"
      "\<forall>x \<in> set xs. task_state x = TCompleted"
    using split_list_first_prop [of ts "\<lambda>t. task_state t \<noteq> TCompleted"] assms(2,3) by blast
  have mem: "s \<in> set ts" "set xs \<subseteq> set ts" using s(1) by auto
  have "task_id ` set xs \<subseteq> completed_ids ts"
    using s(3) mem(2) by (auto simp: completed_ids_def)
  then have "set (dependencies s) \<subseteq> completed_ids ts"
    using deps_earlier_split assms(1) unfolding s(1) by blast
  then show ?thesis using assms(4) [OF mem(1)] s(2) mem(1) by (auto simp: ready_now_def)
qed



section \<open>Replayed failures\<close>

text \<open>Whether a task can be queued does not depend on the queues; a key already set stops delivery.\<close>

lemma enqueue_again:
  assumes "enqueue env t entry waiting wait_s prev audio (Some k) q = (q', r)" and "r = Queued \<or> r = AlreadyQueued"
    and "k \<in> dedupe_keys q2"
  shows "\<exists>q2'. enqueue env t entry waiting wait_s prev audio (Some k) q2 = (q2', AlreadyQueued)"
  using assms
  by (auto simp: enqueue_def Let_def deliver_def add_task_once_def split: sum.splits prod.splits option.splits)

lemma queue_task_again:
  assumes "queue_task env t prev audio (Some k) q = (q', r)" and "r = Queued \<or> r = AlreadyQueued"
    and "k \<in> dedupe_keys q2"
  shows "\<exists>q2'. queue_task env t prev audio (Some k) q2 = (q2', AlreadyQueued)"
proof -
  obtain behavior wait_s where wp: "wait_policy env (task_config (with_config_bindings t)) = (behavior, wait_s)"
    by (metis surj_pair)
  have again: "\<exists>q2'. enqueue env (with_config_bindings t) entry waiting wait_s prev audio (Some k) q1' = (q2', AlreadyQueued)"
    if "enqueue env (with_config_bindings t) entry waiting wait_s prev audio (Some k) q1 = (q', r)"
      and "k \<in> dedupe_keys q1'" for entry waiting q1 q1'
    using enqueue_again [OF that(1) assms(2) that(2)] .
  let ?entry = "catalog_get_engine (se_catalog (oe_select env)) (task_engine_id t)"
  let ?live = "is_engine_available (se_now (oe_select env)) (se_registry (oe_select env)) (task_engine_id t)"
  obtain lang where lang: "task_language (task_config t) = Inr lang"
    using assms(1,2) by (cases "task_language (task_config t)") (auto simp: queue_task_def Let_def)
  have ok: "?entry = None \<or> (\<exists>e. ?entry = Some e \<and> execution_profile e = ''container'')"
    using assms(1,2) lang wp by (cases ?entry) (auto simp: queue_task_def Let_def split: if_splits)
  define waiting_for :: "queues \<Rightarrow> queues" where "waiting_for = (\<lambda>q. q\<lparr>needs := needs q @ [\<lparr>need_engine = task_engine_id t,
     need_stage = task_stage t, need_job = task_job_id t, need_task = task_id t,
     need_language = (case lang of Some (PStr l) \<Rightarrow> nonempty (Some l) | _ \<Rightarrow> None)\<rparr>]\<rparr>)"
  have eq: "queue_task env t prev audio (Some k) q0 =
      (if ?live then enqueue env (with_config_bindings t) ?entry False wait_s prev audio (Some k) q0
       else if behavior = ''fail_fast'' then (q0, snd (queue_task env t prev audio (Some k) q0))
       else enqueue env (with_config_bindings t) ?entry True wait_s prev audio (Some k) (waiting_for q0))" for q0
    using lang wp ok by (cases ?entry) (auto simp: queue_task_def Let_def waiting_for_def)
  have failed: "\<exists>e. snd (queue_task env t prev audio (Some k) q0) = QueueFailed e"
    if "\<not> ?live" "behavior = ''fail_fast''" for q0
    using lang wp ok that by (cases ?entry) (auto simp: queue_task_def Let_def)
  have keys: "k \<in> dedupe_keys (waiting_for q2)" using assms(3) by (simp add: waiting_for_def)
  show ?thesis
  proof (cases ?live)
    case True
    have "enqueue env (with_config_bindings t) ?entry False wait_s prev audio (Some k) q = (q', r)"
      using eq [of q] assms(1) True by simp
    from again [OF this assms(3)] show ?thesis using eq [of q2] True by simp
  next
    case False
    then have wait: "behavior \<noteq> ''fail_fast''" using failed [of q] assms(1,2) by auto
    have "enqueue env (with_config_bindings t) ?entry True wait_s prev audio (Some k) (waiting_for q) = (q', r)"
      using eq [of q] assms(1) False wait by simp
    from again [OF this keys] show ?thesis using eq [of q2] False wait by simp
  qed
qed

lemma queue_retry_cases:
  assumes "get_task w i = Some t" and "task_state t = TReady" and "queue_retry env i w = (w1, None)"
    and "map_option task_state (get_task w1 i) = Some TReady"
  obtains q r where "w1 = w\<lparr>queues_of := q\<rparr>" "r = Queued \<or> r = AlreadyQueued"
    "queue_task env t (gather_previous_responses env (job_tasks w (task_job_id t)) [] (dependencies t)) None
       (Some (retry_enqueue_dedupe_key i (retries t))) (queues_of w) = (q, r)"
proof -
  obtain q r where q: "queue_task env t (gather_previous_responses env (job_tasks w (task_job_id t)) []
      (dependencies t)) None (Some (retry_enqueue_dedupe_key i (retries t))) (queues_of w) = (q, r)"
    by (metis surj_pair)
  have failed: "get_task (ensure_job_failed_side_effects env stage j err w0) i = get_task w0 i" for stage j err w0
    by (simp add: ensure_job_failed_side_effects_def get_task_def Let_def fail_job_def split: option.split)
  have keeps: "keeps_id i (\<lambda>r. r\<lparr>task_state := TFailed, task_error := e\<rparr>)" for e by (simp add: keeps_id_def)
  have "r = Queued \<or> r = AlreadyQueued"
  proof (cases r)
    case (QueueFailed e)
    then have "map_option task_state (get_task w1 i) = Some TFailed"
      using assms(1,3) q by (auto simp: queue_retry_def Let_def failed keeps)
    then show ?thesis using assms(4) by simp
  qed (use assms(1,3) q in \<open>auto simp: queue_retry_def Let_def\<close>)
  moreover from this have "w1 = w\<lparr>queues_of := q\<rparr>"
    using assms(1,3) q by (auto simp: queue_retry_def Let_def)
  ultimately show ?thesis using that q by blast
qed

lemma job_tasks_queues [simp]: "job_tasks (w\<lparr>queues_of := q\<rparr>) j = job_tasks w j"
  by (simp add: job_tasks_def)

lemma queue_retry_replay:
  assumes "0 \<le> oe_wait_timeout env" and "0 \<le> oe_stale_timeout env"
    and "get_task w i = Some t" and "task_state t = TReady" and "queue_retry env i w = (w1, None)"
    and "map_option task_state (get_task w1 i) = Some TReady"
  shows "\<exists>q. queue_retry env i w1 = (w1\<lparr>queues_of := q\<rparr>, None)
      \<and> stream q = stream (queues_of w1) \<and> dedupe_keys q = dedupe_keys (queues_of w1)"
proof -
  let ?k = "retry_enqueue_dedupe_key i (retries t)"
  obtain q r where w1: "w1 = w\<lparr>queues_of := q\<rparr>" and r: "r = Queued \<or> r = AlreadyQueued"
    and q: "queue_task env t (gather_previous_responses env (job_tasks w (task_job_id t)) [] (dependencies t)) None
       (Some ?k) (queues_of w) = (q, r)"
    by (rule queue_retry_cases [OF assms(3-6)])
  have "?k \<in> dedupe_keys q"
    using queue_task_summary [OF assms(1,2) q] r by (auto simp: queue_effect_def)
  from queue_task_again [OF q r this] obtain q2 where
    q2: "queue_task env t (gather_previous_responses env (job_tasks w (task_job_id t)) [] (dependencies t)) None
       (Some ?k) q = (q2, AlreadyQueued)" by blast
  have "stream q2 = stream q \<and> dedupe_keys q2 = dedupe_keys q"
    using queue_task_summary [OF assms(1,2) q2] by (auto simp: queue_effect_def)
  moreover have "queue_retry env i w1 = (w1\<lparr>queues_of := q2\<rparr>, None)"
    using assms(3) q2 by (simp add: queue_retry_def w1)
  ultimately show ?thesis by (auto simp: w1)
qed



end
