(* ===== verification/CompletionProps.thy ===== *)
theory CompletionProps
  imports LifecycleProps SchedulerProps
begin

text \<open>
  How jobs begin and end: the first run of a job, the verdict on a finished pipeline, and
  the two ways a cancellation takes effect.
\<close>

section \<open>The first run\<close>

definition is_root :: "task \<Rightarrow> bool" where
  "is_root t \<longleftrightarrow> dependencies t = []"

lemma queue_initial_exact:
  assumes "0 \<le> oe_wait_timeout env" and "0 \<le> oe_stale_timeout env"
    and "queue_initial_tasks env j tn audio w ts = (w', None)"
    and "map_option job_state (jobs w j) \<noteq> None"
    and "map_option job_state (jobs w' j) \<noteq> Some JFailed"
  shows "tasks w' = map (\<lambda>t. if task_id t \<in> task_id ` set (filter is_root ts)
        then t\<lparr>task_state := TReady, ready_at := Some (oe_now env)\<rparr> else t) (tasks w)
    \<and> jobs w' = jobs w
    \<and> (\<exists>ms. stream (queues_of w') = stream (queues_of w) @ ms
        \<and> list_all2 (message_for env) (filter is_root ts) ms)"
  using assms(3-5)
proof (induction ts arbitrary: w)
  case Nil
  then show ?case by simp
next
  case (Cons t ts)
  show ?case
  proof (cases "is_root t")
    case False
    then have "queue_initial_tasks env j tn audio w (t # ts) = queue_initial_tasks env j tn audio w ts"
      by (simp add: is_root_def)
    with Cons.IH [of w] Cons.prems False show ?thesis by simp
  next
    case True
    let ?w1 = "upd_task (task_id t) (\<lambda>r. r\<lparr>task_state := TReady, ready_at := Some (oe_now env)\<rparr>) w"
    obtain q r where q: "queue_task env t [] (if task_stage t = ''prepare'' then audio else None) None
        (queues_of ?w1) = (q, r)" by (metis surj_pair)
    let ?w2 = "?w1\<lparr>queues_of := q\<rparr>"
    let ?w3 = "measure_metric (TaskScheduled (task_engine_id t) (task_stage t)
       (engine_profile env (task_engine_id t))) ?w2"
    have eff: "queue_effect env t None (queues_of w) q r"
      using queue_task_summary [OF assms(1,2) q] by simp
    have ok: "r = Queued \<or> r = AlreadyQueued"
      using Cons.prems q True
      by (cases r) (auto simp: is_root_def Let_def fail_job_def emit_def upd_job_def
          decrement_concurrent_jobs_def split: if_splits)
    then have rest: "queue_initial_tasks env j tn audio ?w3 ts = (w', None)"
      using Cons.prems(1) q True by (auto simp: is_root_def Let_def)
    obtain m where m: "stream q = stream (queues_of w) @ [m]" "message_for env t m"
      using eff ok by (auto simp: queue_effect_def)
    have "tasks ?w3 = map (\<lambda>r. if task_id r = task_id t
        then r\<lparr>task_state := TReady, ready_at := Some (oe_now env)\<rparr> else r) (tasks w)"
      by (simp add: upd_task_def)
    then show ?thesis
      using Cons.IH [OF rest] Cons.prems(2,3) True m by auto
  qed
qed

text \<open>The first run of a job writes its whole graph and starts exactly its roots. If the job is left
  running, the task table grew by the graph's tasks, in order and with their bindings stored in
  the configuration, the tasks without dependencies are ready and all others pending, and the
  streams gain exactly one message per ready task. The rows of other jobs stay as they were.\<close>

lemma job_created_starts_roots:
  assumes "0 \<le> oe_wait_timeout env" and "0 \<le> oe_stale_timeout env" and "fresh_ids env w"
    and "jobs w j = Some job" and "job_state job = JPending" and "job_tasks w j = []"
    and "build_task_dag (oe_select env) (oe_uuid env) (oe_speech_env env) j (job_audio_uri job)
           (job_parameters job) = Inr ts"
    and "handle_job_created env j w = (w', None)" and "map_option job_state (jobs w' j) = Some JRunning"
  shows "tasks w' = tasks w @ map (\<lambda>t. if dependencies t = [] then (pipeline_row t)
            \<lparr>task_state := TReady, ready_at := Some (oe_now env)\<rparr> else pipeline_row t) ts
    \<and> (\<exists>ms. stream (queues_of w') = stream (queues_of w) @ ms
        \<and> list_all2 (message_for env) (filter (\<lambda>t. dependencies t = []) ts) ms)"
proof -
  let ?w1 = "w\<lparr>tasks := tasks w @ map pipeline_row ts\<rparr>"
  let ?w3 = "measure_metric IncInProgress (upd_job j (\<lambda>r. r\<lparr>job_state := JRunning,
     job_started_at := Some (oe_now env)\<rparr>) ?w1)"
  have inj: "inj (oe_uuid env)" using assms(3) by (simp add: fresh_ids_def)
  have wf: "wf_dag ts" by (rule build_task_dag_wf [OF inj assms(7)])
  have run: "queue_initial_tasks env j (job_tenant job) (audio_metadata_of job) ?w3 ts = (w', None)"
    using assms(4-8) wf by (simp add: handle_job_created_def wf_dag_def Let_def)
  have old: "task_id t \<notin> task_id ` set ts" if "t \<in> set (tasks w)" for t
  proof
    assume "task_id t \<in> task_id ` set ts"
    then have "task_id t \<in> range (oe_uuid env)"
      using build_task_dag_drawn [OF assms(7)] by (auto simp: drawn_def)
    then show False using assms(3) that by (auto simp: fresh_ids_def)
  qed
  have roots: "(task_id t \<in> task_id ` set (filter is_root ts)) = is_root t" if "t \<in> set ts" for t
    using wf that by (auto simp: wf_dag_def distinct_map dest: inj_onD)
  have "map_option job_state (jobs ?w3 j) \<noteq> None" using assms(4) by simp
  note exact = queue_initial_exact [OF assms(1,2) run this]
  have "tasks w' = tasks w @ map (\<lambda>t. if is_root t then (pipeline_row t)
            \<lparr>task_state := TReady, ready_at := Some (oe_now env)\<rparr> else pipeline_row t) ts"
  proof -
    have "map (\<lambda>t. if task_id t \<in> task_id ` set (filter is_root ts)
        then t\<lparr>task_state := TReady, ready_at := Some (oe_now env)\<rparr> else t) (tasks w) = tasks w"
      using old by (intro map_idI) auto
    then show ?thesis using exact assms(9) roots by (auto simp: comp_def)
  qed
  then show ?thesis using exact assms(9) by (simp add: is_root_def [abs_def])
qed

lemma job_created_starts_roots_example:
  "map task_state (tasks (demo_created demo_oenv [])) = [TReady, TPending]
   \<and> length (stream (queues_of (demo_created demo_oenv []))) = 1"
proof -
  let ?w = "demo_submitted []" and ?env = "demo_oenv 100"
  let ?b = "build_task_dag (oe_select ?env) (oe_uuid ?env) (oe_speech_env ?env) 7 (job_audio_uri (demo_job []))
     (job_parameters (demo_job []))"
  have e: "0 \<le> oe_wait_timeout ?env" "0 \<le> oe_stale_timeout ?env" by (simp_all add: demo_oenv_def)
  have f: "fresh_ids ?env ?w" by (rule fresh_above [where n = 100]) (simp, code_simp)
  have j: "jobs ?w 7 = Some (demo_job [])" by (simp add: demo_submitted_def)
  have p: "job_state (demo_job []) = JPending" by (simp add: demo_job_def)
  have n: "job_tasks ?w 7 = []" by code_simp
  have b: "case ?b of Inr ts \<Rightarrow> map (\<lambda>t. (task_state t, dependencies t)) ts = [(TPending, []), (TPending, [100])]
      | Inl _ \<Rightarrow> False" by code_simp
  then obtain ts where ts: "?b = Inr ts" "map (\<lambda>t. (task_state t, dependencies t)) ts = [(TPending, []), (TPending, [100])]"
    by (auto split: sum.splits)
  have "snd (handle_job_created ?env 7 ?w) = None" by code_simp
  then have h: "handle_job_created ?env 7 ?w = (demo_created demo_oenv [], None)"
    by (simp add: demo_created_def prod_eq_iff)
  have r: "map_option job_state (jobs (demo_created demo_oenv []) 7) = Some JRunning" by code_simp
  have t0: "tasks ?w = []" "stream (queues_of ?w) = []"
    by (simp_all add: demo_submitted_def empty_world_def submit_job_def increment_concurrent_jobs_def)
  from ts(2) obtain a b where ab: "ts = [a, b]" "dependencies a = []" "dependencies b = [100]"
      "task_state b = TPending" by (auto simp: map_eq_Cons_conv)
  show ?thesis
    using job_created_starts_roots [OF e f j p n ts(1) h r] unfolding ab(1) t0
    by (auto simp: ab(2-4) dest: list_all2_lengthD)
qed

section \<open>The verdict\<close>

lemma schedule_frame [simp]:
  "jobs (schedule_post_processing env j params w) = jobs w"
  "transcripts (schedule_post_processing env j params w) = transcripts w"
  "decremented (schedule_post_processing env j params w) = decremented w"
  "counters (schedule_post_processing env j params w) = counters w"
  "events (schedule_post_processing env j params w) = events w"
  "metrics (schedule_post_processing env j params w) = metrics w"
  by (auto simp: schedule_post_processing_def Let_def split: option.split sum.split prod.split queue_outcome.split)

lemma finalise_events [simp]:
  "events (finalise_job env j job job1 tr ps w) = events w
     @ [if job_state job1 = JFailed then JobFailedEvent j (or_text (job_error job1) ''Unknown error'')
        else JobCompletedEvent j]"
  by (simp add: finalise_job_def Let_def split: option.split)

text \<open>C14: the verdict on a job that has not ended. While a pipeline task is unfinished nothing changes.
  When all are finished the job ends at once: failed if a required task failed; otherwise
  completed with exactly the assembled transcript, or failed, with no transcript stored, if
  assembly raises. In every case the slot is released and exactly one event is published.\<close>

theorem job_verdict:
  assumes "jobs w j = Some job" and "job_state job \<notin> {JCompleted, JFailed, JCancelled}"
  shows "let w' = check_job_completion env j w;
             pipeline = filter (\<lambda>t. \<not> is_post_processing_task t) (job_tasks w j);
             ended = (\<lambda>s. map_option job_state (jobs w' j) = Some s \<and> j \<in> decremented w')
         in if \<exists>t \<in> set pipeline. task_state t \<notin> terminal_task_states then w' = w
            else if \<exists>t \<in> set pipeline. task_state t = TFailed \<and> task_required t
            then ended JFailed \<and> transcripts w' = transcripts w
               \<and> (\<exists>text. events w' = events w @ [JobFailedEvent j text])
            else (case assemble_linear_transcript env j (job_parameters job) (job_tasks w j) of
                    Inr tr \<Rightarrow> ended JCompleted \<and> transcripts w' = (transcripts w)(j := Some tr)
                      \<and> events w' = events w @ [JobCompletedEvent j]
                  | Inl x \<Rightarrow> ended JFailed \<and> transcripts w' = transcripts w
                      \<and> (\<exists>text. events w' = events w @ [JobFailedEvent j text]))"
proof (cases "all_terminal w j")
  case False
  then show ?thesis by (auto simp: check_job_completion_eq all_terminal_def pipeline_tasks_def)
next
  case True
  obtain job1 tr where o: "job_outcome env j job (job_tasks w j) (any_failed w j) = (job1, tr)"
    by (metis surj_pair)
  define w1 where "w1 = finalise_job env j job job1 tr (pipeline_tasks w j) w"
  have w': "check_job_completion env j w = w1
      \<or> check_job_completion env j w = schedule_post_processing env j (job_parameters job) w1"
    using assms True o by (auto simp: check_job_completion_eq w1_def Let_def)
  have frame: "jobs (check_job_completion env j w) = jobs w1"
      "transcripts (check_job_completion env j w) = transcripts w1"
      "decremented (check_job_completion env j w) = decremented w1"
      "events (check_job_completion env j w) = events w1"
    using w' by auto
  have fin: "\<not> (\<exists>t \<in> set (filter (\<lambda>t. \<not> is_post_processing_task t) (job_tasks w j)). task_state t \<notin> terminal_task_states)"
    using True by (auto simp: all_terminal_def pipeline_tasks_def)
  have failed: "any_failed w j \<longleftrightarrow> (\<exists>t \<in> set (filter (\<lambda>t. \<not> is_post_processing_task t) (job_tasks w j)).
      task_state t = TFailed \<and> task_required t)"
    by (simp add: any_failed_def pipeline_tasks_def)
  show ?thesis
    unfolding Let_def frame if_not_P [OF fin] failed [symmetric]
    using o assms(1)
    by (auto simp: w1_def job_outcome_def split: if_splits sum.splits)
qed

theorem job_verdict_witness:
  "map_option job_state (jobs (check_job_completion (demo_oenv 300) 7 (demo_created demo_oenv [])) 7) = Some JRunning
   \<and> check_job_completion (demo_oenv 300) 7 (demo_created demo_oenv []) = demo_created demo_oenv []"
proof -
  let ?w = "demo_created demo_oenv []"
  have s: "map_option job_state (jobs ?w 7) = Some JRunning" by code_simp
  then obtain job where j: "jobs ?w 7 = Some job" "job_state job = JRunning" by auto
  have "list_ex (\<lambda>t. task_state t \<notin> terminal_task_states)
      (filter (\<lambda>t. \<not> is_post_processing_task t) (job_tasks ?w 7))" by code_simp
  then have p: "\<exists>t \<in> set (filter (\<lambda>t. \<not> is_post_processing_task t) (job_tasks ?w 7)). task_state t \<notin> terminal_task_states"
    by (simp only: list_ex_iff)
  have "check_job_completion (demo_oenv 300) 7 ?w = ?w"
    using job_verdict [OF j(1), of "demo_oenv 300"] j(2) unfolding Let_def if_P [OF p] by simp
  then show ?thesis using s by simp
qed

section \<open>Cancellation\<close>

lemma cancel_complete_cases:
  assumes "jobs w j = Some job"
  shows "check_job_cancellation_complete env j w = w \<and> (job_state job \<noteq> JCancelling
      \<or> (\<exists>t \<in> set (job_tasks w j). task_state t = TRunning))
    \<or> map_option job_state (jobs (check_job_cancellation_complete env j w) j) = Some JCancelled
      \<and> tasks (check_job_cancellation_complete env j w) = tasks w
      \<and> j \<in> decremented (check_job_cancellation_complete env j w)
      \<and> events (check_job_cancellation_complete env j w) = events w @ [JobCancelledEvent j]
      \<and> job_state job = JCancelling \<and> \<not> (\<exists>t \<in> set (job_tasks w j). task_state t = TRunning)"
  using assms by (auto simp: check_job_cancellation_complete_def Let_def)

definition cancel_row :: "uuid \<Rightarrow> task \<Rightarrow> task" where
  "cancel_row j t = (if task_job_id t = j \<and> (task_state t = TPending \<or> task_state t = TReady)
     then t\<lparr>task_state := TCancelled\<rparr> else t)"

lemma cancel_row_simps [simp]:
  "task_job_id (cancel_row j t) = task_job_id t"
  "task_state (cancel_row j t) = TRunning \<longleftrightarrow> task_state t = TRunning"
  by (auto simp: cancel_row_def)

text \<open>A cancellation request cancels every pending or ready task of the job and no other row; the job
  being cancelled ends, with its slot released and one event, exactly when none of its tasks
  is running, and a job in any other state keeps it.\<close>

lemma cancellation_request:
  assumes "jobs w j = Some job" and "handle_job_cancel_requested env j w = w'"
  shows "tasks w' = map (cancel_row j) (tasks w) \<and> j \<in> cancel_flags w'
    \<and> (if job_state job = JCancelling \<and> (\<forall>t \<in> set (job_tasks w j). task_state t \<noteq> TRunning)
       then map_option job_state (jobs w' j) = Some JCancelled \<and> j \<in> decremented w'
          \<and> events w' = events w @ [JobCancelledEvent j]
       else jobs w' = jobs w \<and> events w' = events w \<and> decremented w' = decremented w)"
proof -
  define w2 where "w2 = upd_tasks (\<lambda>t. task_job_id t = j \<and> (task_state t = TPending \<or> task_state t = TReady))
     (\<lambda>t. t\<lparr>task_state := TCancelled\<rparr>) (w\<lparr>cancel_flags := insert j (cancel_flags w)\<rparr>)"
  define w3 where "w3 = check_job_cancellation_complete env j w2"
  have w2: "tasks w2 = map (cancel_row j) (tasks w)" "jobs w2 = jobs w" "events w2 = events w"
      "decremented w2 = decremented w" "cancel_flags w2 = insert j (cancel_flags w)"
    by (simp_all add: w2_def upd_tasks_def cancel_row_def)
  have running: "(\<exists>t \<in> set (job_tasks w2 j). task_state t = TRunning)
      = (\<exists>t \<in> set (job_tasks w j). task_state t = TRunning)"
    unfolding job_tasks_def w2(1) by (simp add: filter_map comp_def)
  have flags: "cancel_flags w3 = insert j (cancel_flags w)"
    using assms(1) w2 by (simp add: w3_def check_job_cancellation_complete_def Let_def)
  have job: "jobs w2 j = Some job" using assms(1) w2 by simp
  have w': "w' = w3"
    using assms(2) by (simp add: handle_job_cancel_requested_def Let_def w2_def w3_def)
  show ?thesis
    using cancel_complete_cases [OF job, of env] unfolding running w' flags w3_def [symmetric]
    by (elim disjE conjE; simp add: w2)
qed

lemma cancellation_request_example:
  "let w = demo_created demo_oenv []
   in map task_state (tasks w) = [TReady, TPending]
      \<and> tasks (handle_job_cancel_requested (demo_oenv 200) 7 w) = map (cancel_row 7) (tasks w)"
proof -
  let ?w = "demo_created demo_oenv []"
  have "map task_state (tasks ?w) = [TReady, TPending]" by code_simp
  moreover have "jobs ?w 7 \<noteq> None" by code_simp
  then obtain job where "jobs ?w 7 = Some job" by blast
  ultimately show ?thesis using cancellation_request [OF _ refl, of ?w 7 job "demo_oenv 200"] unfolding Let_def by blast
qed

text \<open>a cancellation that takes effect at once is silent. When no task is running, the route marks the
  job cancelled and releases its slot; the request event that follows finds it no longer
  being cancelled, so \<open>job.cancelled\<close> is never published, no outcome is counted, and the gauge
  of jobs in progress keeps a job that had started.\<close>

lemma immediate_cancel_silent:
  assumes "jobs w j = Some job" and "job_state job = JPending \<or> job_state job = JRunning"
    and "\<forall>t \<in> set (job_tasks w j). task_state t \<noteq> TRunning"
  shows "let w1 = cancel_route env j tn w; w2 = handle_job_cancel_requested env' j w1
         in map_option job_state (jobs w2 j) = Some JCancelled \<and> j \<in> decremented w2
            \<and> events w2 = events w \<and> metrics w2 = metrics w"
proof -
  have none: "filter (\<lambda>t. task_state t = TRunning) (job_tasks w j) = []"
    using assms(3) by (simp add: filter_empty_conv)
  define w1 where "w1 = cancel_route env j tn w"
  have w1: "map_option job_state (jobs w1 j) = Some JCancelled" "j \<in> decremented w1"
      "events w1 = events w" "metrics w1 = metrics w"
    using assms(1,2) none by (auto simp: w1_def cancel_route_def cancel_job_def Let_def)
  then obtain job1 where "jobs w1 j = Some job1" "job_state job1 = JCancelled" by auto
  then have "check_job_cancellation_complete env' j (upd_tasks P f (w1\<lparr>cancel_flags := c\<rparr>))
      = upd_tasks P f (w1\<lparr>cancel_flags := c\<rparr>)" for P f c
    by (simp add: check_job_cancellation_complete_def)
  then show ?thesis using w1 by (simp add: Let_def handle_job_cancel_requested_def w1_def [symmetric])
qed

lemma immediate_cancel_silent_example:
  "let w = demo_created demo_oenv [];
       w2 = handle_job_cancel_requested (demo_oenv 200) 7 (cancel_route (demo_oenv 200) 7 3 w)
   in map_option job_state (jobs w2 7) = Some JCancelled \<and> events w2 = events w
      \<and> in_progress w = 1 \<and> in_progress w2 = 1"
proof -
  let ?w = "demo_created demo_oenv []"
  have s: "map_option job_state (jobs ?w 7) = Some JRunning" by code_simp
  then obtain job where j: "jobs ?w 7 = Some job" "job_state job = JPending \<or> job_state job = JRunning" by auto
  have "list_all (\<lambda>t. task_state t \<noteq> TRunning) (job_tasks ?w 7)" by code_simp
  then have n: "\<forall>t \<in> set (job_tasks ?w 7). task_state t \<noteq> TRunning" by (simp only: list_all_iff)
  have g: "in_progress ?w = 1" by code_simp
  show ?thesis
    using immediate_cancel_silent [OF j n, of "demo_oenv 200" 3 "demo_oenv 200"] g
    by (simp add: Let_def in_progress_def)
qed

section \<open>Engines lost on the way\<close>

lemma queue_dependents_stop:
  assumes "queue_dependents env j snap completed w ds = Stop w' None" and "jobs w j = Some job"
  shows "map_option job_state (jobs w' j) = Some JFailed \<and> in_progress w' = in_progress w
    \<and> j \<in> decremented w'"
  using assms
proof (induction ds arbitrary: w)
  case Nil
  then show ?case by simp
next
  case (Cons d ds)
  show ?case
  proof (cases "task_state d \<noteq> TPending \<or> \<not> set (dependencies d) \<subseteq> completed
      \<or> (\<forall>cur. get_task w (task_id d) = Some cur \<longrightarrow> task_state cur \<noteq> TPending)")
    case True
    show ?thesis using Cons.IH Cons.prems unfolding queue_dependents_skip [OF True] by blast
  next
    case False
    then obtain cur where cur: "get_task w (task_id d) = Some cur" "task_state cur = TPending"
      and d: "task_state d = TPending" "set (dependencies d) \<subseteq> completed" by blast
    obtain w2 r where q: "queue_dependent env snap cur w = (w2, r)" by (metis surj_pair)
    obtain q where "w2 = (upd_task (task_id cur) (claim_ready env) w)\<lparr>queues_of := q\<rparr>"
      using queue_dependent_state [OF q] by metis
    then have w2: "jobs w2 = jobs w" "metrics w2 = metrics w" by simp_all
    let ?w3 = "measure_metric (scheduled_metric env cur) w2"
    have go: "map_option job_state (jobs w' j) = Some JFailed \<and> in_progress w' = in_progress w
        \<and> j \<in> decremented w'" if "queue_dependents env j snap completed ?w3 ds = Stop w' None"
      using Cons.IH [OF that] Cons.prems(2) w2 by (simp add: in_progress_def scheduled_metric_def)
    note turn = Cons.prems(1) [unfolded queue_dependents_turn [OF d cur q]]
    show ?thesis
    proof (cases r)
      case (QueueFailed e)
      then show ?thesis
        using turn Cons.prems(2) w2 by (auto simp: fail_job_now_def in_progress_def fail_job_def)
    next
      case (QueueRaised x)
      then show ?thesis using turn by simp
    qed (use turn go in simp_all)
  qed
qed

text \<open>a job that fails because a later stage's engine is gone is failed, released and announced, but the
  gauge of jobs in progress keeps it: this path, unlike the first queueing of the job, never
  decrements the gauge.\<close>

lemma dependent_failure_keeps_gauge:
  assumes "jobs w j = Some job"
    and "queue_dependents env j (job_tasks w j) (completed_ids (job_tasks w j)) w (job_tasks w j) = Stop w' None"
  shows "map_option job_state (jobs w' j) = Some JFailed \<and> j \<in> decremented w'
    \<and> in_progress w' = in_progress w"
  using queue_dependents_stop [OF assms(2,1)] by simp

lemma dependent_failure_keeps_gauge_example:
  "let w = mark_task_completed (demo_down 200) (the (get_task (demo_created demo_oenv []) 100)) (demo_created demo_oenv []);
       ds = job_tasks w 7
   in case queue_dependents (demo_down 200) 7 ds (completed_ids ds) w ds of
        Stop w' _ \<Rightarrow> map_option job_state (jobs w' 7) = Some JFailed \<and> in_progress w' = 1
      | Continue _ \<Rightarrow> False"
proof -
  let ?w = "mark_task_completed (demo_down 200) (the (get_task (demo_created demo_oenv []) 100)) (demo_created demo_oenv [])"
  let ?ds = "job_tasks ?w 7"
  have "case queue_dependents (demo_down 200) 7 ?ds (completed_ids ?ds) ?w ?ds of
      Stop _ x \<Rightarrow> x = None | Continue _ \<Rightarrow> False" by code_simp
  then obtain w' where w': "queue_dependents (demo_down 200) 7 ?ds (completed_ids ?ds) ?w ?ds = Stop w' None"
    by (auto split: loop.splits)
  have "jobs ?w 7 \<noteq> None" by code_simp
  then obtain job where j: "jobs ?w 7 = Some job" by blast
  have g: "in_progress ?w = 1" by code_simp
  have "map_option job_state (jobs w' 7) = Some JFailed \<and> in_progress w' = 1"
    using dependent_failure_keeps_gauge [OF j w'] g by simp
  then show ?thesis unfolding Let_def w' loop.case .
qed

end
