(* ===== verification/EnrichmentProps.thy ===== *)
theory EnrichmentProps
  imports LifecycleProps SchedulerProps
begin

text \<open>
  Enrichments (PII detection and audio redaction) against the rest of the machine: bindings
  kept or lost between the builder and the queue, tasks waiting for a skipped one, results
  that never reach the transcript, and completed jobs that an enrichment fails.
\<close>

section \<open>Bindings between the builder and the queue\<close>



text \<open>The bindings of an enrichment do not: they are stored under \<open>input_bindings\<close>, which the queue
  never reads, so the redaction task built with an audio binding is queued with none, and
  its request resolves no artifact.\<close>

lemma enrichment_bindings_lost:
  shows "input_bindings (audio_redact_task i j pii mode params) \<noteq> []
    \<and> input_bindings (with_config_bindings (enrichment_row (audio_redact_task i j pii mode params))) = []
    \<and> (write_task_request env (with_config_bindings (enrichment_row (audio_redact_task i j pii mode params)))
         previous audio = Inr d \<longrightarrow> rq_bindings d = [] \<and> rq_resolved d = [])"
proof -
  let ?t = "with_config_bindings (enrichment_row (audio_redact_task i j pii mode params))"
  have b: "input_bindings (audio_redact_task i j pii mode params) = audio_input_binding None"
    by (simp add: audio_redact_task_def new_task_def)
  have ne: "audio_input_binding None \<noteq> []" by (simp add: audio_input_binding_def)
  have none: "input_bindings ?t = []"
    by (simp add: with_config_bindings_def enrichment_row_def b ne audio_redact_task_def new_task_def
        split: option.split)
  have s: "task_stage ?t = ''audio_redact''" by simp
  have "rq_bindings d = [] \<and> rq_resolved d = []" if "write_task_request env ?t previous audio = Inr d"
    using that unfolding write_task_request_def none s
    by (auto simp: Let_def bind_res_Inr split: option.splits)
  then show ?thesis using b ne none by simp
qed

lemma enrichment_bindings_lost_example:
  "case write_task_request (demo_oenv 0)
     (with_config_bindings (enrichment_row (audio_redact_task 2 7 1 (PStr ''silence'') []))) [] None of
     Inr d \<Rightarrow> rq_resolved d = [] \<and> rq_index d = demo_artifacts | Inl _ \<Rightarrow> False"
proof -
  let ?r = "write_task_request (demo_oenv 0)
     (with_config_bindings (enrichment_row (audio_redact_task 2 7 1 (PStr ''silence'') []))) [] None"
  have "case ?r of Inr d \<Rightarrow> map fst (rq_index d) = [''prepared''] | Inl _ \<Rightarrow> False" by code_simp
  then obtain d where d: "?r = Inr d" by (auto split: sum.splits)
  then have "rq_index d = demo_artifacts"
    by (auto simp: write_task_request_def Let_def bind_res_Inr demo_oenv_def split: option.splits)
  then show ?thesis
    using enrichment_bindings_lost [of 2 7 1 "PStr ''silence''" "[]" "demo_oenv 0" "[]" None d] d by simp
qed

section \<open>Waiting for a skipped task\<close>

lemma reachable_effects: "reachable w \<Longrightarrow> effects empty_world w"
proof (induction rule: reachable.induct)
  case (submit w j r)
  then show ?case using effects_step [OF _ submitted] by blast
next
  case (cancel w j r env)
  have "effects w (cancel_route env j (job_tenant r) w)"
    by (rule cancel_route_effects) (use cancel.hyps(2) in simp)
  then show ?case using cancel.IH effects_trans by blast
next
  case (created w env j)
  then show ?case using effects_trans [OF _ handle_job_created_effects] by blast
next
  case (task_started w env i)
  then show ?case using effects_trans [OF _ handle_task_started_effects] by blast
next
  case (task_completed w env i)
  then show ?case using handle_task_completed_effects reachable_inv inv_all_distinct by blast
next
  case (task_failed w env i err)
  then show ?case
    using effects_trans [OF _ handle_task_failed_effects] reachable_inv inv_all_distinct by blast
next
  case (task_wait_timeout w env i err)
  then show ?case
    using effects_trans [OF _ handle_task_wait_timeout_effects] reachable_inv inv_all_distinct by blast
next
  case (cancel_requested w env j)
  then show ?case using effects_trans [OF _ handle_job_cancel_requested_effects] by blast
qed simp

text \<open>a skipped task never satisfies a dependency. Once a row is skipped, no task that depends on it is
  ever ready or running again, in any state any run reaches from there. The failure handler's
  comment promises the opposite.\<close>

lemma skipped_dependency_blocks:
  assumes "effects empty_world w" and "s \<in> set (tasks w)" and "task_state s = TSkipped" and "effects w w'"
    and "t \<in> set (tasks w')" and "task_id s \<in> set (dependencies t)"
  shows "task_state t \<noteq> TReady \<and> task_state t \<noteq> TRunning"
proof (rule ccontr)
  assume "\<not> ?thesis"
  then have active: "task_state t \<in> {TReady, TRunning}" by auto
  have w: "inv_tasks w" using inv_all_effects [OF assms(1) inv_all_empty] by (simp add: inv_all_def)
  have I: "inv_tasks w'" by (rule inv_tasks_effects [OF assms(4) w])
  have s: "s \<in> set (tasks w')" using final_rows_effects [OF assms(4) w assms(2)] assms(3) by simp
  from I active assms(5,6) obtain c where c: "c \<in> set (tasks w')" "task_id c = task_id s" "task_state c = TCompleted"
    by (force simp: inv_tasks_def completed_ids_def)
  have "c = s" using I s c(1,2) by (auto simp: inv_tasks_def ids_def distinct_map dest: inj_onD)
  then show False using c(3) assms(3) by simp
qed

definition demo_rows :: "task list" where
  "demo_rows = [enrichment_row (pii_detect_task 1 7 [] []),
     enrichment_row (audio_redact_task 2 7 1 (PStr ''silence'') [])]"

definition demo_skipped :: world where
  "demo_skipped = upd_task 1 (\<lambda>r. r\<lparr>task_state := TSkipped, task_error := None\<rparr>)
     (empty_world\<lparr>tasks := demo_rows\<rparr>)"

lemma demo_skipped_effects: "effects empty_world demo_skipped"
proof -
  let ?w = "empty_world\<lparr>tasks := demo_rows\<rparr>"
  have "new_rows empty_world 7 demo_rows"
    by (simp add: new_rows_def demo_rows_def empty_world_def POST_PROCESSOR_MAX_RETRIES_def)
  then have "effect empty_world (empty_world\<lparr>tasks := tasks empty_world @ demo_rows\<rparr>)"
    by (rule enrichment_rows) (simp add: demo_rows_def)
  then have "effect empty_world ?w" by (simp add: empty_world_def)
  moreover have "get_task ?w 1 = Some (enrichment_row (pii_detect_task 1 7 [] []))"
    by (simp add: get_task_def demo_rows_def)
  from skipped [OF this] have "effect ?w demo_skipped" unfolding demo_skipped_def by simp
  ultimately show ?thesis by (rule effects_step [OF effects_step [OF effects_refl]])
qed

lemma skipped_dependency_blocks_example:
  "\<exists>t \<in> set (tasks demo_skipped). task_stage t = ''audio_redact'' \<and> task_state t = TPending
     \<and> task_state t \<noteq> TReady \<and> task_state t \<noteq> TRunning"
proof -
  let ?s = "(enrichment_row (pii_detect_task 1 7 [] []))\<lparr>task_state := TSkipped, task_error := None\<rparr>"
  let ?t = "enrichment_row (audio_redact_task 2 7 1 (PStr ''silence'') [])"
  have t: "tasks demo_skipped = [?s, ?t]"
    by (simp add: demo_skipped_def upd_task_def demo_rows_def)
  have "task_state ?t \<noteq> TReady \<and> task_state ?t \<noteq> TRunning"
    by (rule skipped_dependency_blocks [OF demo_skipped_effects, of ?s demo_skipped ?t]) (simp_all add: t)
  then show ?thesis using t by simp
qed

section \<open>Enrichments of a job that has ended\<close>

lemma queue_dependents_frame:
  "transcripts (loop_state (queue_dependents env j snap completed w ds)) = transcripts w
   \<and> enrichments (loop_state (queue_dependents env j snap completed w ds)) = enrichments w"
  by (rule queue_dependents_keeps [where P = "\<lambda>w'. transcripts w' = transcripts w \<and> enrichments w' = enrichments w"])
    (simp_all add: fail_job_now_def fail_job_def)

lemma cancel_complete_frame [simp]:
  "transcripts (check_job_cancellation_complete env j w) = transcripts w"
  "enrichments (check_job_cancellation_complete env j w) = enrichments w"
  by (simp_all add: check_job_cancellation_complete_def Let_def split: option.split)

lemma queue_dependents_ended:
  assumes "map_option job_state (jobs w j) = Some s" and "s \<in> {JCompleted, JFailed, JCancelled}"
  shows "\<exists>s' \<in> {JCompleted, JFailed, JCancelled}. map_option job_state
     (jobs (loop_state (queue_dependents env j snap completed w ds)) j) = Some s'"
  by (rule queue_dependents_keeps [where P = "\<lambda>w'. \<exists>s' \<in> {JCompleted, JFailed, JCancelled}.
      map_option job_state (jobs w' j) = Some s'"])
    (use assms in \<open>auto simp: fail_job_now_def fail_job_def\<close>)

lemma completion_ended:
  "jobs w j = Some r \<Longrightarrow> job_state r \<in> {JCompleted, JFailed, JCancelled} \<Longrightarrow> check_job_completion env j w = w"
  by (simp only: check_job_completion_eq option.case if_True if_cancel)

lemma advance_ended:
  assumes "map_option job_state (jobs w j) = Some s" and "s \<in> {JCompleted, JFailed, JCancelled}"
  shows "transcripts (fst (advance_job env j w)) = transcripts w
    \<and> enrichments (fst (advance_job env j w)) = enrichments w"
proof -
  let ?loop = "queue_dependents env j (job_tasks w j) (completed_ids (job_tasks w j)) w (job_tasks w j)"
  note frame = queue_dependents_frame [of env j "job_tasks w j" "completed_ids (job_tasks w j)" w "job_tasks w j"]
  obtain s' where s': "s' \<in> {JCompleted, JFailed, JCancelled}"
      "map_option job_state (jobs (loop_state ?loop) j) = Some s'"
    by (rule bexE [OF queue_dependents_ended [OF assms]])
  then obtain r where "jobs (loop_state ?loop) j = Some r" "job_state r \<in> {JCompleted, JFailed, JCancelled}"
    by auto
  then have idle: "check_job_completion env j (loop_state ?loop) = loop_state ?loop"
    by (rule completion_ended)
  show ?thesis
  proof (cases ?loop)
    case (Continue w')
    then show ?thesis using frame idle by (simp add: advance_job_def Let_def)
  next
    case (Stop w' x)
    then show ?thesis using frame by (simp add: advance_job_def Let_def)
  qed
qed

text \<open>A skipped enrichment only advances the job: no tracking, no patch.\<close>

lemma skipped_completed:
  assumes "get_task w i = Some t" and "task_state t = TSkipped" and "task_stage t \<noteq> ''prepare''"
  shows "handle_task_completed env i w = advance_job env (task_job_id t) w"
  using assms by (simp add: handle_task_completed_def mark_task_completed_def track_enrichment_def
      update_audio_duration_def)

lemma keeps_id_update [simp]:
  "keeps_id i (\<lambda>r. r\<lparr>task_state := a, task_error := b\<rparr>)"
  "keeps_id i (\<lambda>r. r\<lparr>task_state := a, task_error := b, task_completed_at := c\<rparr>)"
  by (simp_all add: keeps_id_def)

lemma get_task_mark [simp]: "get_task (mark_enrichment_status j s e w) i = get_task w i"
  by (simp add: get_task_def)

definition demo_enriched :: "task_status \<Rightarrow> int \<Rightarrow> world" where
  "demo_enriched s n = empty_world\<lparr>jobs := [7 \<mapsto> (demo_job [])\<lparr>job_state := JCompleted\<rparr>],
     tasks := [(enrichment_row (audio_redact_task 2 7 1 (PStr ''silence'') []))\<lparr>task_state := s, retries := n\<rparr>],
     enrichments := (\<lambda>_. [(''pii_detect'', EnCompleted), (''audio_redact'', EnPending)]),
     transcripts := [7 \<mapsto> []]\<rparr>"

lemma demo_enriched_row:
  "get_task (demo_enriched s n) 2
     = Some ((enrichment_row (audio_redact_task 2 7 1 (PStr ''silence'') []))\<lparr>task_state := s, retries := n\<rparr>)"
  "jobs (demo_enriched s n) 7 = Some ((demo_job [])\<lparr>job_state := JCompleted\<rparr>)"
  "enrichments (demo_enriched s n) 7 = [(''pii_detect'', EnCompleted), (''audio_redact'', EnPending)]"
  "transcripts (demo_enriched s n) = [7 \<mapsto> []]"
  by (simp_all add: demo_enriched_def get_task_def)

text \<open>Results of a finished enrichment can be lost. When the last enrichment of a completed job
  gives up (an optional task out of retries), its tracking entry becomes failed, so nothing is
  pending any more, but the transcript stays as it was: it is patched only by a completion
  event of an enrichment, and the detection results completed before are never merged.\<close>

lemma failed_enrichment_never_patches:
  assumes "get_task w i = Some t" and "task_state t = TRunning" and "is_post_processing_task t"
    and "task_stage t \<noteq> ''prepare''" and "\<not> task_required t" and "max_retries t \<le> retries t"
    and "map_option job_state (jobs w (task_job_id t)) = Some JCompleted"
  shows "transcripts (fst (handle_task_failed env i err w)) = transcripts w
    \<and> enrichments (fst (handle_task_failed env i err w)) (task_job_id t)
        = dmerge (enrichments w (task_job_id t)) [(task_stage t, EnFailed)]"
proof -
  let ?f = "\<lambda>r. r\<lparr>task_state := TSkipped, task_error := Some err\<rparr>"
  let ?w2 = "mark_enrichment_status (task_job_id t) (task_stage t) EnFailed (upd_task i ?f w)"
  have t2: "get_task ?w2 i = Some (?f t)" using assms(1) by simp
  have "fst (handle_task_failed env i err w) = fst (advance_job env (task_job_id t) ?w2)"
    using assms skipped_completed [OF t2] by (simp add: handle_task_failed_def)
  moreover have "map_option job_state (jobs ?w2 (task_job_id t)) = Some JCompleted" using assms(7) by simp
  ultimately show ?thesis
    using advance_ended [of ?w2 "task_job_id t" JCompleted env]
    by (simp add: mark_enrichment_status_def set_enrichments_def)
qed

lemma failed_enrichment_never_patches_example:
  "let w' = fst (handle_task_failed (demo_oenv 9) 2 ''oom'' (demo_enriched TRunning POST_PROCESSOR_MAX_RETRIES))
   in transcripts w' = [7 \<mapsto> []] \<and> check_post_processing_completion 7 w'"
proof -
  let ?t = "(enrichment_row (audio_redact_task 2 7 1 (PStr ''silence'') []))
     \<lparr>task_state := TRunning, retries := POST_PROCESSOR_MAX_RETRIES\<rparr>"
  have post: "is_post_processing_task ?t"
    using post_rows_post(2) [of 2 7 1 "PStr ''silence''" "[]"] by (simp add: is_post_processing_task_def)
  have d: "dset ''audio_redact'' EnFailed [(''pii_detect'', EnCompleted), (''audio_redact'', EnPending)]
      = [(''pii_detect'', EnCompleted), (''audio_redact'', EnFailed)]" by code_simp
  show ?thesis
    using failed_enrichment_never_patches [OF demo_enriched_row(1) _ post, of "demo_oenv 9" "''oom''"]
    by (simp add: Let_def demo_enriched_row d check_post_processing_completion_def)
qed

text \<open>an enrichment whose engine never comes is skipped without a word to its tracking entry: the
  hash keeps saying pending, so post-processing of that job never counts as finished.\<close>

lemma timed_out_enrichment_stays_pending:
  assumes "get_task w i = Some t" and "task_state t = TReady \<or> task_state t = TPending"
    and "task_stage t \<noteq> ''prepare''" and "\<not> task_required t"
    and "map_option job_state (jobs w (task_job_id t)) = Some JCompleted"
    and "(task_stage t, EnPending) \<in> set (enrichments w (task_job_id t))"
  shows "enrichments (fst (handle_task_wait_timeout env i err w)) = enrichments w
    \<and> \<not> check_post_processing_completion (task_job_id t) (fst (handle_task_wait_timeout env i err w))"
proof -
  let ?f = "\<lambda>r. r\<lparr>task_state := TSkipped, task_error := Some err, task_completed_at := Some (oe_now env)\<rparr>"
  let ?w1 = "upd_task i ?f w"
  have t1: "get_task ?w1 i = Some (?f t)" using assms(1) by simp
  have "fst (handle_task_wait_timeout env i err w) = fst (advance_job env (task_job_id t) ?w1)"
    using assms(1-4) skipped_completed [OF t1] by (auto simp: handle_task_wait_timeout_def)
  then have "enrichments (fst (handle_task_wait_timeout env i err w)) = enrichments w"
    using advance_ended [of ?w1 "task_job_id t" JCompleted env] assms(5) by simp
  then show ?thesis using assms(6) by (force simp: check_post_processing_completion_def)
qed

lemma timed_out_enrichment_stays_pending_example:
  "\<not> check_post_processing_completion 7
      (fst (handle_task_wait_timeout (demo_oenv 9) 2 ''no engine'' (demo_enriched TReady 0)))"
  using timed_out_enrichment_stays_pending [OF demo_enriched_row(1) [of TReady 0], of "demo_oenv 9" "''no engine''"]
  by (simp add: demo_enriched_row)

text \<open>An optional enrichment can fail a job that is already completed: when it fails once and its
  engine is gone by the time of the retry, the error path treats it as required, and the
  job, its transcript stored and its completion announced, becomes failed.\<close>

lemma enrichment_retry_fails_completed_job:
  assumes "get_task w i = Some t" and "task_state t = TRunning" and "\<not> task_required t"
    and "\<not> is_non_retryable_task_error err" and "retries t < max_retries t"
    and "jobs w (task_job_id t) = Some job" and "job_state job = JCompleted"
    and "catalog_get_engine (se_catalog (oe_select env)) (task_engine_id t) = None"
    and "\<not> live_engine env t" and "fst (wait_policy env (task_config t)) = ''fail_fast''"
    and "dget (task_config t) ''language'' = None"
  shows "map_option job_state (jobs (fst (handle_task_failed env i err w)) (task_job_id t)) = Some JFailed
    \<and> transcripts (fst (handle_task_failed env i err w)) = transcripts w"
proof -
  let ?f = "\<lambda>r. r\<lparr>retries := retries r + 1, task_state := TReady, ready_at := Some (oe_now env), task_error := Some err\<rparr>"
  let ?w0 = "upd_task i ?f w"
  have keeps: "keeps_id i ?f" by (simp add: keeps_id_def)
  have t0: "get_task ?w0 i = Some (?f t)" using assms(1) keeps by simp
  have live: "\<not> is_engine_available (se_now (oe_select env)) (se_registry (oe_select env)) (task_engine_id t)"
    using assms(9) by (simp add: live_engine_def oe_now_def)
  obtain behavior wait_s where wp: "wait_policy env (task_config t) = (behavior, wait_s)" "behavior = ''fail_fast''"
    using assms(10) by (metis prod.collapse)
  have "\<exists>e. queue_task env (?f t) previous None key q = (q, QueueFailed e)" for previous key q
    using assms(8,11) live wp by (simp add: queue_task_def Let_def task_language_def with_config_bindings_def
        split: option.split pyval.split)
  then obtain e where e: "queue_task env (?f t) (gather_previous_responses env (job_tasks ?w0 (task_job_id t)) []
      (dependencies t)) None (Some (retry_enqueue_dedupe_key i (retries t + 1))) (queues_of ?w0) = (queues_of ?w0, QueueFailed e)"
    by blast
  have "handle_task_failed env i err w = queue_retry env i ?w0"
    using assms(1,2,4,5) by (simp add: handle_task_failed_def)
  then show ?thesis
    using t0 e assms(6,7) by (simp add: queue_retry_def ensure_job_failed_side_effects_def Let_def fail_job_def)
qed

lemma enrichment_retry_fails_completed_job_example:
  "map_option job_state (jobs (fst (handle_task_failed (demo_down 9) 2 ''oom'' (demo_enriched TRunning 0))) 7) = Some JFailed"
proof -
  let ?t = "(enrichment_row (audio_redact_task 2 7 1 (PStr ''silence'') []))\<lparr>task_state := TRunning, retries := 0\<rparr>"
  have c: "catalog_get_engine (se_catalog (oe_select (demo_down 9))) (task_engine_id ?t) = None"
    "\<not> live_engine (demo_down 9) ?t" "fst (wait_policy (demo_down 9) (task_config ?t)) = ''fail_fast''"
    "dget (task_config ?t) ''language'' = None" "\<not> is_non_retryable_task_error ''oom''"
    by code_simp+
  have r: "retries ?t < max_retries ?t" by (simp add: POST_PROCESSOR_MAX_RETRIES_def)
  show ?thesis
    using enrichment_retry_fails_completed_job [OF demo_enriched_row(1) _ _ c(5) r _ _ c(1-4)]
    by (simp add: demo_enriched_row)
qed

end
