(* ===== verification/Turns.thy ===== *)
theory Turns
  imports Prelude
begin

text \<open>
  Speaker turns (\<open>dalston/common/transcript.py\<close>): smoothing out micro-turns, merging
  neighbours, and finding the speaker of a span, of a moment and of the windows of a
  segment. Times in seconds are rational numbers, so the arithmetic is exact. A turn may
  end before it starts: the schema only asks both times to be non-negative.
\<close>

record speaker_turn =
  turn_speaker :: string
  turn_start :: rat
  turn_end :: rat
  turn_confidence :: "rat option"
  turn_overlapping :: "string list option"

definition MIN_TURN_DURATION_S :: rat where "MIN_TURN_DURATION_S = 1/4"

definition turn_key :: "speaker_turn \<Rightarrow> rat \<times> rat" where
  "turn_key t = (turn_start t, turn_end t)"

definition duration :: "speaker_turn \<Rightarrow> rat" where
  "duration t = turn_end t - turn_start t"

section \<open>Merging neighbours\<close>

fun merge_turns_from :: "speaker_turn \<Rightarrow> speaker_turn list \<Rightarrow> speaker_turn list" where
  "merge_turns_from prev [] = [prev]"
| "merge_turns_from prev (t # ts) =
     (if turn_speaker t = turn_speaker prev \<and> turn_start t \<le> turn_end prev
      then merge_turns_from (prev\<lparr>turn_end := max (turn_end prev) (turn_end t)\<rparr>) ts
      else prev # merge_turns_from t ts)"

definition merge_adjacent_turns :: "speaker_turn list \<Rightarrow> speaker_turn list" where
  "merge_adjacent_turns turns = (case turns of [] \<Rightarrow> [] | t # ts \<Rightarrow> merge_turns_from t ts)"

section \<open>Smoothing\<close>

text \<open>
  A slot is a sorted turn with the mark whether it is kept. A kept slot holds the current,
  possibly extended, turn: \<open>kept[kept_by_orig_idx[i]]\<close>. An absorbed slot keeps the
  micro-turn.
\<close>

type_synonym slots = "(bool \<times> speaker_turn) list"

definition turn_overlap :: "speaker_turn \<Rightarrow> speaker_turn \<Rightarrow> rat" where
  "turn_overlap a b = max 0 (min (turn_end a) (turn_end b) - max (turn_start a) (turn_start b))"

definition kept_before :: "slots \<Rightarrow> nat \<Rightarrow> nat option" where
  "kept_before ss i = List.find (\<lambda>p. fst (ss ! p)) (rev [0..<i])"

definition kept_after :: "slots \<Rightarrow> nat \<Rightarrow> nat option" where
  "kept_after ss i = List.find (\<lambda>n. fst (ss ! n)) [Suc i..<length ss]"

definition absorb_target :: "slots \<Rightarrow> nat \<Rightarrow> nat option" where
  "absorb_target ss i =
     (let micro = snd (ss ! i)
      in case (kept_before ss i, kept_after ss i) of
           (Some p, Some n) \<Rightarrow>
             (let prev = snd (ss ! p); nxt = snd (ss ! n);
                  ov_prev = turn_overlap prev micro; ov_nxt = turn_overlap nxt micro
              in if ov_prev > ov_nxt then Some p
                 else if ov_nxt > ov_prev then Some n
                 else if duration prev \<ge> duration nxt then Some p else Some n)
         | (Some p, None) \<Rightarrow> Some p
         | (None, Some n) \<Rightarrow> Some n
         | (None, None) \<Rightarrow> None)"

definition extend_turn :: "speaker_turn \<Rightarrow> speaker_turn \<Rightarrow> speaker_turn" where
  "extend_turn target micro =
     target\<lparr>turn_start := min (turn_start target) (turn_start micro),
            turn_end := max (turn_end target) (turn_end micro)\<rparr>"

definition absorb_at :: "slots \<Rightarrow> nat \<Rightarrow> slots" where
  "absorb_at ss i =
     (case absorb_target ss i of
        None \<Rightarrow> ss
      | Some k \<Rightarrow> ss[k := (True, extend_turn (snd (ss ! k)) (snd (ss ! i)))])"

text \<open>The marks: long turns are kept; when there is none, the first longest one is.\<close>

definition longest_index :: "speaker_turn list \<Rightarrow> nat" where
  "longest_index ts = py_max_from (\<lambda>i. duration (ts ! i)) 0 [1..<length ts]"

definition mark_slots :: "rat \<Rightarrow> speaker_turn list \<Rightarrow> slots" where
  "mark_slots min_d ts =
     (if \<exists>t \<in> set ts. duration t \<ge> min_d then map (\<lambda>t. (duration t \<ge> min_d, t)) ts
      else map (\<lambda>i. (i = longest_index ts, ts ! i)) [0..<length ts])"

definition absorb_all :: "slots \<Rightarrow> slots" where
  "absorb_all ss = foldl absorb_at ss (filter (\<lambda>i. \<not> fst (ss ! i)) [0..<length ss])"

definition smooth_diarization_turns :: "rat \<Rightarrow> speaker_turn list \<Rightarrow> speaker_turn list" where
  "smooth_diarization_turns min_d turns =
     (if turns = [] \<or> min_d \<le> 0 then turns
      else (let ts = py_sorted turn_key turns
            in if \<forall>t \<in> set ts. duration t \<ge> min_d then merge_adjacent_turns ts
               else merge_adjacent_turns
                      (py_sorted turn_key (map snd (filter fst (absorb_all (mark_slots min_d ts)))))))"

section \<open>Speakers of spans and moments\<close>

definition span_overlap :: "rat \<Rightarrow> rat \<Rightarrow> speaker_turn \<Rightarrow> rat" where
  "span_overlap s e t = max 0 (min e (turn_end t) - max s (turn_start t))"

fun overlap_from :: "rat \<Rightarrow> rat \<Rightarrow> string option \<times> rat \<Rightarrow> speaker_turn list \<Rightarrow> string option \<times> rat" where
  "overlap_from s e best [] = best"
| "overlap_from s e (sp, ov) (t # ts) =
     overlap_from s e
       (if span_overlap s e t > ov then (Some (turn_speaker t), span_overlap s e t) else (sp, ov)) ts"

definition find_speaker_by_overlap :: "rat \<Rightarrow> rat \<Rightarrow> speaker_turn list \<Rightarrow> string option" where
  "find_speaker_by_overlap s e turns = fst (overlap_from s e (None, 0) turns)"

fun nearest_from :: "rat \<Rightarrow> (string \<times> rat) option \<Rightarrow> speaker_turn list \<Rightarrow> string option" where
  "nearest_from m best [] = map_option fst best"
| "nearest_from m best (t # ts) =
     (if turn_start t \<le> m \<and> m \<le> turn_end t then Some (turn_speaker t)
      else
        (let d = (if m < turn_start t then turn_start t - m else m - turn_end t)
         in nearest_from m
              (case best of
                 None \<Rightarrow> Some (turn_speaker t, d)
               | Some (sp, d0) \<Rightarrow> if d < d0 then Some (turn_speaker t, d) else best) ts))"

definition find_nearest_turn_speaker :: "rat \<Rightarrow> speaker_turn list \<Rightarrow> string option" where
  "find_nearest_turn_speaker m turns = nearest_from m None turns"

definition find_start_turn_speaker :: "rat \<Rightarrow> speaker_turn list \<Rightarrow> string option" where
  "find_start_turn_speaker m turns =
     map_option turn_speaker (List.find (\<lambda>t. turn_start t \<le> m \<and> m \<le> turn_end t) turns)"

section \<open>Windows\<close>

type_synonym window = "rat \<times> rat \<times> string option"

definition segment_boundaries :: "rat \<Rightarrow> rat \<Rightarrow> speaker_turn list \<Rightarrow> rat list" where
  "segment_boundaries s e turns =
     sort (remdups (s # e # concat (map (\<lambda>t.
       if turn_end t \<le> s \<or> turn_start t \<ge> e then []
       else [max s (turn_start t), min e (turn_end t)]) turns)))"

text \<open>Appending a window, or stretching the last one of the same speaker.\<close>

definition push_window :: "window list \<Rightarrow> window \<Rightarrow> window list" where
  "push_window ws w =
     (case w of (a, b, sp) \<Rightarrow>
        if ws \<noteq> [] \<and> snd (snd (last ws)) = sp then butlast ws @ [(fst (last ws), b, sp)]
        else ws @ [(a, b, sp)])"

fun windows_between :: "speaker_turn list \<Rightarrow> window list \<Rightarrow> rat list \<Rightarrow> window list" where
  "windows_between turns ws (a # b # bs) =
     (if b \<le> a then windows_between turns ws (b # bs)
      else windows_between turns (push_window ws (a, b, find_speaker_by_overlap a b turns)) (b # bs))"
| "windows_between turns ws _ = ws"

definition build_speaker_windows :: "rat \<Rightarrow> rat \<Rightarrow> speaker_turn list \<Rightarrow> window list" where
  "build_speaker_windows s e turns =
     (if e \<le> s then [] else windows_between turns [] (segment_boundaries s e turns))"

end
