(* ===== verification/Splitting.thy ===== *)
theory Splitting
  imports Turns
begin

text \<open>
  Giving words to speakers and cutting segments where the speaker changes
  (\<open>dalston/common/transcript.py\<close>): word assignment, runs of one speaker, absorbing runs
  that are too short, spreading the text of a segment without words over its windows, and
  the choice between these for one segment. A split part is the dictionary with the keys
  \<open>start\<close>, \<open>end\<close>, \<open>text\<close>, \<open>speaker\<close> and \<open>words\<close> the code builds.
\<close>

record timed_word =
  w_text :: string
  w_start :: rat
  w_end :: rat
  w_confidence :: "rat option"
  w_characters :: pyval
  w_phonemes :: pyval
  w_method :: "string option"
  w_language :: "string option"

record part =
  p_start :: rat
  p_end :: rat
  p_text :: string
  p_speaker :: "string option"
  p_words :: "timed_word list option"

definition MIN_SEGMENT_WORDS :: nat where "MIN_SEGMENT_WORDS = 2"

definition word_key :: "timed_word \<Rightarrow> rat \<times> rat" where
  "word_key w = (w_start w, w_end w)"

text \<open>\<open>s.split()\<close>: the maximal runs of non-space characters. \<open>run\<close> is the run read so far.\<close>

fun split_from :: "string \<Rightarrow> string \<Rightarrow> string list" where
  "split_from run [] = (if run = [] then [] else [run])"
| "split_from run (c # s) =
     (if is_space c then (if run = [] then split_from [] s else run # split_from [] s)
      else split_from (run @ [c]) s)"

definition py_split :: "string \<Rightarrow> string list" where
  "py_split s = split_from [] s"

section \<open>The speaker of a word\<close>

definition is_sentence_ending :: "string \<Rightarrow> bool" where
  "is_sentence_ending text =
     (let s = str_rstrip text in s \<noteq> [] \<and> last s \<in> {CHR ''.'', CHR ''!'', CHR ''?''})"

definition overlap_or_nearest :: "timed_word \<Rightarrow> speaker_turn list \<Rightarrow> string option" where
  "overlap_or_nearest w turns =
     (case find_speaker_by_overlap (w_start w) (w_end w) turns of
        Some sp \<Rightarrow> Some sp
      | None \<Rightarrow> find_nearest_turn_speaker ((w_start w + w_end w) / 2) turns)"

definition assign_speaker_to_word :: "timed_word \<Rightarrow> speaker_turn list \<Rightarrow> string option" where
  "assign_speaker_to_word w turns =
     (if turns = [] then None
      else if w_end w < w_start w then None
      else if w_end w = w_start w then find_nearest_turn_speaker (w_start w) turns
      else if is_sentence_ending (w_text w)
      then (case find_start_turn_speaker (w_start w) turns of
              Some sp \<Rightarrow> Some sp
            | None \<Rightarrow> overlap_or_nearest w turns)
      else overlap_or_nearest w turns)"

section \<open>Runs of one speaker\<close>

definition words_text :: "timed_word list \<Rightarrow> string" where
  "words_text ws = str_join '' '' (filter (\<lambda>t. t \<noteq> []) (map (\<lambda>w. str_strip (w_text w)) ws))"

definition close_run :: "part list \<Rightarrow> string option \<Rightarrow> timed_word list \<Rightarrow> part list" where
  "close_run parts sp run =
     (if run \<noteq> [] \<and> words_text run \<noteq> []
      then parts @ [\<lparr>p_start = w_start (hd run), p_end = max (w_end (last run)) (w_start (last run)),
                     p_text = words_text run, p_speaker = sp, p_words = Some run\<rparr>]
      else parts)"

fun speaker_runs :: "speaker_turn list \<Rightarrow> part list \<Rightarrow> string option \<Rightarrow> timed_word list
    \<Rightarrow> timed_word list \<Rightarrow> part list" where
  "speaker_runs turns parts cur run [] = close_run parts cur run"
| "speaker_runs turns parts cur run (w # ws) =
     (if w_end w < w_start w then speaker_runs turns parts cur run ws
      else (let sp = assign_speaker_to_word w turns
            in if run \<noteq> [] \<and> sp \<noteq> cur then speaker_runs turns (close_run parts cur run) sp [w] ws
               else speaker_runs turns parts sp (run @ [w]) ws))"

definition split_words_by_speaker :: "timed_word list \<Rightarrow> speaker_turn list \<Rightarrow> part list" where
  "split_words_by_speaker ws turns =
     (if ws = [] then [] else speaker_runs turns [] None [] (py_sorted word_key ws))"

section \<open>Absorbing short parts\<close>

text \<open>\<open>part.get("words") or []\<close> and \<open>len(part.get("words") or part["text"].split())\<close>.\<close>

definition part_words :: "part \<Rightarrow> timed_word list" where
  "part_words p = (case p_words p of None \<Rightarrow> [] | Some ws \<Rightarrow> ws)"

definition part_word_count :: "part \<Rightarrow> nat" where
  "part_word_count p = (if part_words p \<noteq> [] then length (part_words p) else length (py_split (p_text p)))"

definition merge_target :: "part list \<Rightarrow> nat \<Rightarrow> nat option" where
  "merge_target ps i =
     (if i > 0 \<and> i < length ps - 1
      then Some (if part_word_count (ps ! (i - 1)) \<ge> part_word_count (ps ! (i + 1)) then i - 1 else i + 1)
      else if i > 0 then Some (i - 1)
      else if i < length ps - 1 then Some (i + 1)
      else None)"

definition combine_parts :: "part \<Rightarrow> part \<Rightarrow> bool \<Rightarrow> part" where
  "combine_parts t s target_first =
     (let ws = (if target_first then part_words t @ part_words s else part_words s @ part_words t);
          text = (if target_first then str_strip (p_text t @ '' '' @ p_text s)
                  else str_strip (p_text s @ '' '' @ p_text t))
      in \<lparr>p_start = (if target_first then p_start t else min (p_start s) (p_start t)),
          p_end = (if target_first then max (p_end s) (p_end t) else p_end t),
          p_text = text, p_speaker = p_speaker t,
          p_words = (if ws = [] then None else Some ws)\<rparr>)"

definition absorb_part :: "part list \<Rightarrow> nat \<Rightarrow> nat \<Rightarrow> part list" where
  "absorb_part ps i k =
     (let ps' = ps[k := combine_parts (ps ! k) (ps ! i) (k < i)]
      in take i ps' @ drop (Suc i) ps')"

definition first_short :: "nat \<Rightarrow> part list \<Rightarrow> nat option" where
  "first_short m ps =
     List.find (\<lambda>i. part_word_count (ps ! i) < m \<and> merge_target ps i \<noteq> None) [0..<length ps]"

text \<open>The \<open>while changed\<close> loop: each round absorbs the first short part and starts over.\<close>

lemma first_short_less: "first_short m ps = Some i \<Longrightarrow> i < length ps"
  by (auto simp: first_short_def find_Some_iff)

lemma length_absorb_part: "i < length ps \<Longrightarrow> length (absorb_part ps i k) < length ps"
  by (simp add: absorb_part_def Let_def)

function merge_short_loop :: "nat \<Rightarrow> part list \<Rightarrow> part list" where
  "merge_short_loop m ps =
     (case first_short m ps of
        None \<Rightarrow> ps
      | Some i \<Rightarrow> merge_short_loop m (absorb_part ps i (the (merge_target ps i))))"
  by auto
termination
  by (relation "measure (length \<circ> snd)") (simp_all add: first_short_less length_absorb_part)

declare merge_short_loop.simps [simp del]

definition merge_short_splits :: "nat \<Rightarrow> part list \<Rightarrow> part list" where
  "merge_short_splits m ps = (if length ps \<le> 1 \<or> m \<le> 1 then ps else merge_short_loop m ps)"

section \<open>Text without words\<close>

function advance_window :: "rat \<Rightarrow> window list \<Rightarrow> nat \<Rightarrow> nat" where
  "advance_window mid ws k =
     (if k < length ws - 1 \<and> mid \<ge> fst (snd (ws ! k)) then advance_window mid ws (Suc k) else k)"
  by auto
termination
  by (relation "measure (\<lambda>(_, ws, k). length ws - k)") auto

declare advance_window.simps [simp del]

text \<open>\<open>fill_buckets\<close> is the loop over the tokens, from number \<open>i\<close> of \<open>n\<close>, with its window.\<close>

fun fill_buckets :: "rat \<Rightarrow> rat \<Rightarrow> window list \<Rightarrow> nat \<Rightarrow> nat \<Rightarrow> nat \<Rightarrow> string list list
    \<Rightarrow> string list \<Rightarrow> string list list" where
  "fill_buckets s dur ws n i k buckets [] = buckets"
| "fill_buckets s dur ws n i k buckets (t # ts) =
     (let mid = s + dur * ((of_nat i + 1/2) / of_nat n);
          k' = advance_window mid ws k
      in fill_buckets s dur ws n (Suc i) k' (buckets[k' := buckets ! k' @ [t]]) ts)"

definition split_text_across_windows :: "string \<Rightarrow> rat \<Rightarrow> rat \<Rightarrow> window list \<Rightarrow> string list" where
  "split_text_across_windows text s e ws =
     (if ws = [] then []
      else (let tokens = py_split text
            in if tokens = [] then replicate (length ws) []
               else if length ws = 1 then [str_join '' '' tokens]
               else if e - s \<le> 0 then str_join '' '' tokens # replicate (length ws - 1) []
               else map (str_join '' '')
                      (fill_buckets s (e - s) ws (length tokens) 0 0 (replicate (length ws) []) tokens)))"

section \<open>One segment\<close>

text \<open>Windows nobody speaks in go to the nearest turn; equal neighbours are joined again.\<close>

fun resolve_windows :: "speaker_turn list \<Rightarrow> window list \<Rightarrow> window list \<Rightarrow> window list" where
  "resolve_windows turns acc [] = acc"
| "resolve_windows turns acc ((a, b, sp) # ws) =
     resolve_windows turns
       (push_window acc (a, b, (case sp of Some x \<Rightarrow> Some x
                                | None \<Rightarrow> find_nearest_turn_speaker ((a + b) / 2) turns))) ws"

definition window_parts :: "window list \<Rightarrow> string list \<Rightarrow> part list" where
  "window_parts ws texts =
     map (\<lambda>((a, b, sp), t). \<lparr>p_start = a, p_end = b, p_text = t, p_speaker = sp, p_words = None\<rparr>)
       (zip ws texts)"

definition whole_part :: "rat \<Rightarrow> rat \<Rightarrow> string \<Rightarrow> string option \<Rightarrow> timed_word list option \<Rightarrow> part" where
  "whole_part s e text sp ws = \<lparr>p_start = s, p_end = e, p_text = text, p_speaker = sp, p_words = ws\<rparr>"

definition split_segment_by_diarization ::
    "rat \<Rightarrow> rat \<Rightarrow> string \<Rightarrow> timed_word list option \<Rightarrow> speaker_turn list \<Rightarrow> part list" where
  "split_segment_by_diarization s e text ws turns =
     (if turns = [] then [whole_part s e text None ws]
      else
        (let windows = build_speaker_windows s e turns
         in if windows = [] then [whole_part s e text (find_speaker_by_overlap s e turns) ws]
            else if length windows = 1 then [whole_part s e text (snd (snd (hd windows))) ws]
            else
              (let by_words = (case ws of None \<Rightarrow> [] | Some l \<Rightarrow> split_words_by_speaker l turns)
               in if by_words \<noteq> [] then merge_short_splits MIN_SEGMENT_WORDS by_words
                  else
                    (let resolved = resolve_windows turns [] windows;
                         parts = window_parts resolved (split_text_across_windows text s e resolved)
                     in if parts \<noteq> [] then parts
                        else [whole_part s e text (find_speaker_by_overlap s e turns) ws]))))"

end
