(* ===== verification/Assembly.thy ===== *)
theory Assembly
  imports Splitting
begin

text \<open>
  Assembling the transcript of a job from the outputs of its stages
  (\<open>dalston/common/transcript.py\<close>), mono and per channel: choosing the segment source,
  building the merged segments, labelling speakers, and the warning about speech nobody
  transcribed. Pydantic is a parameter: \<open>assembly_env\<close> holds the \<open>model_validate\<close> functions
  and the check of constructed responses. Log lines are left out.
\<close>

section \<open>Stage outputs\<close>

record transcript_word =
  tw_text :: string
  tw_start :: rat
  tw_end :: rat
  tw_confidence :: "rat option"
  tw_method :: string
  tw_language :: "string option"
  tw_characters :: pyval
  tw_phonemes :: pyval
  tw_metadata :: dict

datatype any_word = AWord timed_word | ATWord transcript_word | ADict dict

record transcript_segment =
  ts_start :: rat
  ts_end :: rat
  ts_text :: string
  ts_words :: "any_word list option"
  ts_language :: "string option"
  ts_confidence :: "rat option"
  ts_metadata :: dict

record decoder_fields =
  d_tokens :: pyval
  d_temperature :: pyval
  d_confidence :: pyval
  d_avg_logprob :: pyval
  d_compression_ratio :: pyval
  d_no_speech_prob :: pyval

record segment =
  sg_start :: rat
  sg_end :: rat
  sg_text :: string
  sg_words :: "any_word list option"
  sg_language :: "string option"
  sg_decoder :: decoder_fields

datatype any_segment = ATSegment transcript_segment | ASegment segment

record language_info =
  li_code :: string
  li_confidence :: rat
  li_primary :: bool

datatype warning = WText string | WChannel nat warning | WMissed rat "(rat \<times> rat) list"

record transcript =
  tr_segments :: "transcript_segment list"
  tr_warnings :: "string list"

record align_response =
  al_segments :: "segment list"
  al_word_timestamps :: bool
  al_skipped :: bool
  al_warnings :: "string list"

record diarize_response =
  di_turns :: "speaker_turn list"
  di_speakers :: "string list"
  di_skipped :: bool
  di_warnings :: "string list"

record merged_segment =
  m_id :: string
  m_start :: rat
  m_end :: rat
  m_text :: string
  m_speaker :: "string option"
  m_language :: "string option"
  m_words :: "timed_word list option"
  m_decoder :: decoder_fields

record speaker =
  spk_id :: string
  spk_label :: pyval
  spk_channel :: "int option"

record metadata =
  md_duration :: pyval
  md_channels :: pyval
  md_sample_rate :: pyval
  md_language :: pyval
  md_language_confidence :: pyval
  md_language_source :: pyval
  md_languages :: "language_info list option"
  md_word_timestamps :: bool
  md_words_requested :: pyval
  md_detection :: string
  md_speaker_count :: pyval
  md_created_at :: string
  md_stages :: "string list"
  md_warnings :: "warning list"

record merge_response =
  r_job_id :: string
  r_metadata :: metadata
  r_text :: pyval
  r_speakers :: "speaker list"
  r_segments :: "merged_segment list"

record assembly_env =
  parse_transcript :: "pyval \<Rightarrow> exn + transcript"
  parse_align :: "pyval \<Rightarrow> align_response option"
  parse_diarize :: "pyval \<Rightarrow> diarize_response option"
  parse_turn :: "dict \<Rightarrow> speaker_turn option"
  parse_word :: "dict \<Rightarrow> timed_word option"
  parse_language :: "dict \<Rightarrow> language_info option"
  check_segment :: "merged_segment \<Rightarrow> exn + merged_segment"
  check_response :: "merge_response \<Rightarrow> exn + merge_response"
  float_of_str :: "string \<Rightarrow> rat option"
  round3 :: "pyval \<Rightarrow> exn + pyval"
  now_text :: string

text \<open>\<open>outputs.get(stage, {})\<close> used as a dictionary.\<close>

definition as_dict :: "pyval \<Rightarrow> exn + dict" where
  "as_dict v = (case v of PDict d \<Rightarrow> Inr d | _ \<Rightarrow> Inl AttributeError)"

section \<open>Words and segment fields\<close>

definition word_of_transcript_word :: "transcript_word \<Rightarrow> timed_word" where
  "word_of_transcript_word w =
     \<lparr>w_text = tw_text w, w_start = tw_start w, w_end = tw_end w, w_confidence = tw_confidence w,
      w_characters = PNone, w_phonemes = PNone, w_method = Some (tw_method w),
      w_language = tw_language w\<rparr>"

definition normalize_words :: "assembly_env \<Rightarrow> any_word list \<Rightarrow> timed_word list" where
  "normalize_words env ws = concat (map (\<lambda>w. case w of
       AWord x \<Rightarrow> [x] | ATWord x \<Rightarrow> []
     | ADict d \<Rightarrow> (case parse_word env d of None \<Rightarrow> [] | Some x \<Rightarrow> [x])) ws)"

definition normalize_transcript_words :: "assembly_env \<Rightarrow> any_word list \<Rightarrow> timed_word list" where
  "normalize_transcript_words env ws = concat (map (\<lambda>w. case w of
       AWord x \<Rightarrow> [x] | ATWord x \<Rightarrow> [word_of_transcript_word x]
     | ADict d \<Rightarrow> (case parse_word env d of None \<Rightarrow> [] | Some x \<Rightarrow> [x])) ws)"

definition metadata_decoder :: "dict \<Rightarrow> decoder_fields" where
  "metadata_decoder md =
     \<lparr>d_tokens = dget_or md ''tokens'' PNone, d_temperature = dget_or md ''temperature'' PNone,
      d_confidence = dget_or md ''confidence'' PNone, d_avg_logprob = dget_or md ''avg_logprob'' PNone,
      d_compression_ratio = dget_or md ''compression_ratio'' PNone,
      d_no_speech_prob = dget_or md ''no_speech_prob'' PNone\<rparr>"

record segment_fields =
  f_start :: rat
  f_end :: rat
  f_text :: string
  f_words :: "timed_word list option"
  f_language :: "string option"
  f_decoder :: decoder_fields

definition extract_segment_fields :: "assembly_env \<Rightarrow> any_segment \<Rightarrow> segment_fields" where
  "extract_segment_fields env seg =
     (case seg of
        ATSegment s \<Rightarrow>
          \<lparr>f_start = ts_start s, f_end = ts_end s, f_text = ts_text s,
           f_words = (case ts_words s of None \<Rightarrow> None | Some [] \<Rightarrow> None
                      | Some ws \<Rightarrow> Some (normalize_transcript_words env ws)),
           f_language = ts_language s, f_decoder = metadata_decoder (ts_metadata s)\<rparr>
      | ASegment s \<Rightarrow>
          \<lparr>f_start = sg_start s, f_end = sg_end s, f_text = sg_text s,
           f_words = (case sg_words s of None \<Rightarrow> None | Some [] \<Rightarrow> None
                      | Some ws \<Rightarrow> Some (normalize_words env ws)),
           f_language = sg_language s, f_decoder = sg_decoder s\<rparr>)"

text \<open>\<open>tokens if isinstance(tokens, list) else None\<close>.\<close>

definition list_tokens :: "decoder_fields \<Rightarrow> decoder_fields" where
  "list_tokens d = d\<lparr>d_tokens := (case d_tokens d of PList l \<Rightarrow> PList l | _ \<Rightarrow> PNone)\<rparr>"

definition segment_id :: "nat \<Rightarrow> string" where
  "segment_id n = ''seg_'' @ pad_nat 3 n"

definition speaker_id :: "nat \<Rightarrow> string" where
  "speaker_id ch = ''SPEAKER_'' @ pad_nat 2 ch"

section \<open>Building the merged segments\<close>

definition merged_of_part :: "bool \<Rightarrow> segment_fields \<Rightarrow> nat \<Rightarrow> part \<Rightarrow> merged_segment" where
  "merged_of_part word_ts f n p =
     \<lparr>m_id = segment_id n, m_start = p_start p, m_end = p_end p, m_text = p_text p,
      m_speaker = p_speaker p, m_language = f_language f,
      m_words = (if word_ts \<and> part_words p \<noteq> [] then Some (part_words p) else None),
      m_decoder = list_tokens (f_decoder f)\<rparr>"

fun add_parts :: "assembly_env \<Rightarrow> bool \<Rightarrow> segment_fields \<Rightarrow> merged_segment list \<Rightarrow> part list
    \<Rightarrow> exn + merged_segment list" where
  "add_parts env word_ts f segs [] = Inr segs"
| "add_parts env word_ts f segs (p # ps) =
     bind_res (check_segment env (merged_of_part word_ts f (length segs) p))
       (\<lambda>s. add_parts env word_ts f (segs @ [s]) ps)"

fun build_merged_segments :: "assembly_env \<Rightarrow> speaker_turn list \<Rightarrow> bool \<Rightarrow> merged_segment list
    \<Rightarrow> any_segment list \<Rightarrow> exn + merged_segment list" where
  "build_merged_segments env turns word_ts segs [] = Inr segs"
| "build_merged_segments env turns word_ts segs (s # ss) =
     (let f = extract_segment_fields env s
      in bind_res (add_parts env word_ts f segs
                     (split_segment_by_diarization (f_start f) (f_end f) (f_text f) (f_words f) turns))
           (\<lambda>segs'. build_merged_segments env turns word_ts segs' ss))"

section \<open>Sources\<close>

definition select_segments :: "align_response option \<Rightarrow> transcript \<Rightarrow> any_segment list \<times> bool \<times> warning list" where
  "select_segments al tr =
     (case al of
        Some a \<Rightarrow>
          (let ws = map WText (tr_warnings tr) @ map WText (al_warnings a)
           in if al_skipped a then (map ATSegment (tr_segments tr), False, ws)
              else (map ASegment (al_segments a), al_word_timestamps a, ws))
      | None \<Rightarrow> (map ATSegment (tr_segments tr),
                 (\<exists>s \<in> set (tr_segments tr). ts_words s \<noteq> None \<and> ts_words s \<noteq> Some []),
                 map WText (tr_warnings tr)))"

definition extract_transcribe_data ::
    "assembly_env \<Rightarrow> dict \<Rightarrow> pyval \<times> pyval \<times> pyval \<times> language_info list option" where
  "extract_transcribe_data env d =
     (dget_or d ''text'' (PStr []), dget_or d ''language'' (PStr ''und''),
      dget_or d ''language_confidence'' PNone,
      (case dget d ''languages'' of
         Some (PList l) \<Rightarrow>
           (let parsed = concat (map (\<lambda>v. case v of
                 PDict e \<Rightarrow> (case parse_language env e of None \<Rightarrow> [] | Some li \<Rightarrow> [li]) | _ \<Rightarrow> []) l)
            in if parsed = [] then None else Some parsed)
       | _ \<Rightarrow> None))"

definition extract_audio_metadata :: "pyval \<Rightarrow> exn + (pyval \<times> pyval \<times> pyval)" where
  "extract_audio_metadata prepare =
     (if \<not> truthy prepare then Inr (PFloat 0, PInt 1, PInt 16000)
      else bind_res (as_dict prepare) (\<lambda>d.
        let triple = (\<lambda>m ch. (dget_or m ''duration'' (PFloat 0), ch, dget_or m ''sample_rate'' (PInt 16000)));
            flat = triple d (dget_or d ''channels'' (PInt 1))
        in case dget d ''source_media'' of
             Some (PDict m) \<Rightarrow> Inr (triple m (dget_or m ''channels'' (PInt 1)))
           | _ \<Rightarrow>
               (case dget_or d ''channel_files'' (PList []) of
                  PList (PDict f # fs) \<Rightarrow>
                    Inr (triple f (if truthy_opt (dget d ''split_channels'') \<and> fs \<noteq> []
                                   then PInt (int (Suc (length fs)))
                                   else dget_or f ''channels'' (PInt 1)))
                | PDict (_ # _) \<Rightarrow> Inl (KeyError ''0'')
                | PInt n \<Rightarrow> if n = 0 then Inr flat else Inl TypeError
                | PBool b \<Rightarrow> if b then Inl TypeError else Inr flat
                | PFloat r \<Rightarrow> if r = 0 then Inr flat else Inl TypeError
                | _ \<Rightarrow> Inr flat)))"

definition extract_diarization ::
    "assembly_env \<Rightarrow> diarize_response option \<Rightarrow> pyval option \<Rightarrow> pyval
     \<Rightarrow> exn + (speaker_turn list \<times> string list \<times> warning list)" where
  "extract_diarization env resp raw sd =
     (if sd \<noteq> PStr ''diarize'' then Inr ([], [], [])
      else (case resp of
              Some r \<Rightarrow> (if di_skipped r then Inr ([], [], map WText (di_warnings r))
                         else Inr (di_turns r, di_speakers r, []))
            | None \<Rightarrow>
                (case raw of
                   None \<Rightarrow> Inr ([], [], [])
                 | Some PNone \<Rightarrow> Inr ([], [], [])
                 | Some v \<Rightarrow>
                     bind_res (as_dict v) (\<lambda>d.
                     bind_res (py_iter (dget_or d ''turns'' (PList []))) (\<lambda>ts.
                       Inr (concat (map (\<lambda>t. case t of
                              PDict e \<Rightarrow> (case parse_turn env e of None \<Rightarrow> [] | Some x \<Rightarrow> [x]) | _ \<Rightarrow> []) ts),
                            (case dget_or d ''speakers'' (PList []) of
                               PList l \<Rightarrow> concat (map (\<lambda>s. case s of PStr x \<Rightarrow> [x] | _ \<Rightarrow> []) l)
                             | _ \<Rightarrow> []), []))))))"

definition build_speakers :: "string list \<Rightarrow> speaker list" where
  "build_speakers ids = map (\<lambda>i. \<lparr>spk_id = i, spk_label = PNone, spk_channel = None\<rparr>) ids"

fun apply_known_speaker_names :: "speaker list \<Rightarrow> pyval list \<Rightarrow> speaker list" where
  "apply_known_speaker_names (s # ss) (n # ns) = s\<lparr>spk_label := n\<rparr> # apply_known_speaker_names ss ns"
| "apply_known_speaker_names ss _ = ss"

text \<open>\<open>isinstance(known_speaker_names, list) and known_speaker_names\<close>.\<close>

definition label_speakers :: "pyval option \<Rightarrow> speaker list \<Rightarrow> speaker list" where
  "label_speakers names ss =
     (case names of Some (PList ns) \<Rightarrow> apply_known_speaker_names ss ns | _ \<Rightarrow> ss)"

definition infer_pipeline_stages :: "pyval option \<Rightarrow> pyval option \<Rightarrow> pyval \<Rightarrow> string list" where
  "infer_pipeline_stages al di sd =
     [''prepare'', ''transcribe''] @ (if not_none al then [''align''] else [])
     @ (if not_none di \<and> sd = PStr ''diarize'' then [''diarize''] else [])"

definition determine_terminal_stage :: "string \<Rightarrow> bool \<Rightarrow> bool \<Rightarrow> string" where
  "determine_terminal_stage sd has_align has_diarize =
     (if has_diarize \<and> sd = ''diarize'' then ''diarize''
      else if has_align then ''align'' else ''transcribe'')"

section \<open>Missed speech\<close>

definition MISSED_SPEECH_TOLERANCE_S :: rat where "MISSED_SPEECH_TOLERANCE_S = 1"
definition MISSED_SPEECH_MIN_REGION_S :: rat where "MISSED_SPEECH_MIN_REGION_S = 1/4"
definition MISSED_SPEECH_MIN_TOTAL_S :: rat where "MISSED_SPEECH_MIN_TOTAL_S = 3"
definition MISSED_SPEECH_MIN_FRACTION :: rat where "MISSED_SPEECH_MIN_FRACTION = 1/10"

fun merge_spans :: "rat \<times> rat \<Rightarrow> (rat \<times> rat) list \<Rightarrow> (rat \<times> rat) list" where
  "merge_spans (a, b) [] = [(a, b)]"
| "merge_spans (a, b) ((c, d) # xs) =
     (if c \<le> b then merge_spans (a, max b d) xs else (a, b) # merge_spans (c, d) xs)"

definition expand :: "rat \<Rightarrow> merged_segment \<Rightarrow> rat \<times> rat" where
  "expand tol s = (max 0 (m_start s - tol), m_end s + tol)"

definition covered_spans :: "rat \<Rightarrow> merged_segment list \<Rightarrow> (rat \<times> rat) list" where
  "covered_spans tol segs =
     (case py_sorted (\<lambda>x. x) (map (expand tol) segs) of [] \<Rightarrow> [] | x # xs \<Rightarrow> merge_spans x xs)"

definition last_gap :: "rat \<Rightarrow> rat \<Rightarrow> (rat \<times> rat) list" where
  "last_gap cursor rend = (if rend - cursor \<ge> MISSED_SPEECH_MIN_REGION_S then [(cursor, rend)] else [])"

fun region_gaps :: "rat \<Rightarrow> rat \<Rightarrow> (rat \<times> rat) list \<Rightarrow> (rat \<times> rat) list" where
  "region_gaps cursor rend [] = last_gap cursor rend"
| "region_gaps cursor rend ((a, b) # xs) =
     (if b \<le> cursor then region_gaps cursor rend xs
      else if a \<ge> rend then last_gap cursor rend
      else
        (let gap = (if a > cursor \<and> a - cursor \<ge> MISSED_SPEECH_MIN_REGION_S then [(cursor, min a rend)] else []);
             cursor' = max cursor (min b rend)
         in gap @ (if cursor' \<ge> rend then last_gap cursor' rend else region_gaps cursor' rend xs)))"

text \<open>\<open>float(region.get(key, 0.0))\<close>; \<open>None\<close> when it raises \<open>TypeError\<close> or \<open>ValueError\<close>.\<close>

definition py_float :: "assembly_env \<Rightarrow> pyval \<Rightarrow> rat option" where
  "py_float env v = (case v of
     PInt i \<Rightarrow> Some (of_int i) | PFloat r \<Rightarrow> Some r | PBool b \<Rightarrow> Some (of_bool b)
   | PStr s \<Rightarrow> float_of_str env s | _ \<Rightarrow> None)"

definition region_bounds :: "assembly_env \<Rightarrow> dict \<Rightarrow> (rat \<times> rat) option" where
  "region_bounds env r =
     (case (py_float env (dget_or r ''start'' (PFloat 0)), py_float env (dget_or r ''end'' (PFloat 0))) of
        (Some a, Some b) \<Rightarrow> Some (a, b) | _ \<Rightarrow> None)"

definition compute_missed_speech :: "assembly_env \<Rightarrow> dict list \<Rightarrow> merged_segment list \<Rightarrow> (rat \<times> rat) list" where
  "compute_missed_speech env regions segs =
     concat (map (\<lambda>r. case region_bounds env r of
         None \<Rightarrow> []
       | Some (a, b) \<Rightarrow> region_gaps a b (covered_spans MISSED_SPEECH_TOLERANCE_S segs)) regions)"

definition total_speech :: "assembly_env \<Rightarrow> dict list \<Rightarrow> rat" where
  "total_speech env regions =
     sum_list (map (\<lambda>r. case region_bounds env r of None \<Rightarrow> 0 | Some (a, b) \<Rightarrow> max 0 (b - a)) regions)"

text \<open>The spans are kept as numbers; the code prints the total and the first five of them.\<close>

definition missed_speech_warning :: "assembly_env \<Rightarrow> pyval \<Rightarrow> merged_segment list \<Rightarrow> exn + warning list" where
  "missed_speech_warning env prepare segs =
     bind_res (if truthy prepare then as_dict prepare else Inr []) (\<lambda>d.
       case dget d ''speech_regions'' of
         Some (PList (r # rs)) \<Rightarrow>
           (let valid = concat (map (\<lambda>v. case v of PDict e \<Rightarrow> [e] | _ \<Rightarrow> []) (r # rs));
                total = total_speech env valid;
                missed = compute_missed_speech env valid segs;
                missed_total = sum_list (map (\<lambda>(a, b). b - a) missed)
            in if total \<le> 0 then Inr []
               else if missed_total \<ge> MISSED_SPEECH_MIN_TOTAL_S
                       \<and> missed_total \<ge> MISSED_SPEECH_MIN_FRACTION * total
               then Inr [WMissed missed_total missed] else Inr [])
       | _ \<Rightarrow> Inr [])"

section \<open>Mono transcripts\<close>

definition parse_if_truthy :: "(pyval \<Rightarrow> 'a option) \<Rightarrow> pyval option \<Rightarrow> 'a option" where
  "parse_if_truthy parse v = (case v of Some x \<Rightarrow> if truthy x then parse x else None | None \<Rightarrow> None)"

definition SpeakerDetectionMode :: "pyval \<Rightarrow> exn + string" where
  "SpeakerDetectionMode v =
     (case v of PStr s \<Rightarrow> if s \<in> {''none'', ''diarize'', ''per_channel''} then Inr s else Inl (ValueError s)
      | _ \<Rightarrow> Inl (ValueError ''SpeakerDetectionMode''))"

definition rounded_confidence :: "assembly_env \<Rightarrow> pyval \<Rightarrow> exn + pyval" where
  "rounded_confidence env v = (if v = PNone then Inr PNone else round3 env v)"

definition parsed_transcribe :: "assembly_env \<Rightarrow> string \<Rightarrow> pyval \<Rightarrow> exn + (dict \<times> transcript)" where
  "parsed_transcribe env key v =
     bind_res (as_dict v) (\<lambda>d.
       if d = [] then Inl (ValueError (''Missing stage output '' @ key))
       else bind_res (parse_transcript env (PDict d)) (\<lambda>tr. Inr (d, tr)))"

definition assemble_transcript ::
    "assembly_env \<Rightarrow> string \<Rightarrow> dict \<Rightarrow> pyval \<Rightarrow> pyval \<Rightarrow> pyval option \<Rightarrow> string list option
     \<Rightarrow> exn + merge_response" where
  "assemble_transcript env job outputs sd words_requested names stages =
     (let prepare = dget_or outputs ''prepare'' (PDict []);
          align = dget outputs ''align''; diarize = dget outputs ''diarize''
      in bind_res (extract_audio_metadata prepare) (\<lambda>(duration, channels, rate).
         bind_res (parsed_transcribe env ''transcribe'' (dget_or outputs ''transcribe'' (PDict []))) (\<lambda>(d, tr).
         let (text, language, confidence, languages) = extract_transcribe_data env d;
             (source, word_ts, warnings) = select_segments (parse_if_truthy (parse_align env) align) tr
         in bind_res (extract_diarization env (parse_if_truthy (parse_diarize env) diarize) diarize sd)
              (\<lambda>(turns, ids, diarize_warnings).
            bind_res (build_merged_segments env (smooth_diarization_turns MIN_TURN_DURATION_S turns) word_ts [] source)
              (\<lambda>segments.
            bind_res (missed_speech_warning env prepare segments) (\<lambda>missed.
            bind_res (rounded_confidence env confidence) (\<lambda>conf.
            bind_res (SpeakerDetectionMode sd) (\<lambda>mode.
              let speakers = label_speakers names (build_speakers ids)
              in check_response env
                \<lparr>r_job_id = job,
                 r_metadata =
                   \<lparr>md_duration = duration, md_channels = channels, md_sample_rate = rate,
                    md_language = language, md_language_confidence = conf,
                    md_language_source = dget_or d ''language_source'' PNone, md_languages = languages,
                    md_word_timestamps = word_ts, md_words_requested = words_requested, md_detection = mode,
                    md_speaker_count = PInt (int (length speakers)), md_created_at = now_text env,
                    md_stages = (case stages of Some l \<Rightarrow> l | None \<Rightarrow> infer_pipeline_stages align diarize sd),
                    md_warnings = warnings @ diarize_warnings @ missed\<rparr>,
                 r_text = text, r_speakers = speakers, r_segments = segments\<rparr>))))))))"

section \<open>Per-channel transcripts\<close>

record channel_segment =
  cs_fields :: segment_fields
  cs_channel :: nat
  cs_word_ts :: bool

record channel_state =
  ca_segments :: "channel_segment list"
  ca_word_ts :: bool
  ca_warnings :: "warning list"
  ca_language :: pyval
  ca_confidence :: pyval
  ca_source :: pyval
  ca_languages :: "(string \<times> language_info) list"

definition merge_language :: "(string \<times> language_info) list \<Rightarrow> language_info \<Rightarrow> (string \<times> language_info) list" where
  "merge_language ls li =
     (case dget ls (li_code li) of
        None \<Rightarrow> dset (li_code li) li ls
      | Some old \<Rightarrow> if li_confidence li > li_confidence old then dset (li_code li) li ls else ls)"

definition channel_step :: "assembly_env \<Rightarrow> dict \<Rightarrow> nat \<Rightarrow> channel_state \<Rightarrow> exn + channel_state" where
  "channel_step env outputs ch st =
     (let key = ''transcribe_ch'' @ str_nat ch
      in if \<not> truthy (dget_or outputs key (PDict [])) then Inl (ValueError (''Missing stage output '' @ key))
         else bind_res (parsed_transcribe env key (dget_or outputs key (PDict []))) (\<lambda>(d, tr).
           let (_, _, _, languages) = extract_transcribe_data env d;
               (source, word_ts, warnings) =
                 select_segments (parse_if_truthy (parse_align env) (dget outputs (''align_ch'' @ str_nat ch))) tr
           in Inr (st\<lparr>
                ca_segments := ca_segments st @ map (\<lambda>s. \<lparr>cs_fields = extract_segment_fields env s,
                                                        cs_channel = ch, cs_word_ts = word_ts\<rparr>) source,
                ca_word_ts := ca_word_ts st \<or> word_ts,
                ca_warnings := ca_warnings st @ map (WChannel ch) warnings,
                ca_language := (if ch = 0 then dget_or d ''language'' (PStr ''und'') else ca_language st),
                ca_confidence := (if ch = 0 then dget_or d ''language_confidence'' PNone else ca_confidence st),
                ca_source := (if ch = 0 then dget_or d ''language_source'' PNone else ca_source st),
                ca_languages := foldl merge_language (ca_languages st)
                                  (case languages of None \<Rightarrow> [] | Some l \<Rightarrow> l)\<rparr>)))"

fun channel_steps :: "assembly_env \<Rightarrow> dict \<Rightarrow> nat list \<Rightarrow> channel_state \<Rightarrow> exn + channel_state" where
  "channel_steps env outputs [] st = Inr st"
| "channel_steps env outputs (ch # chs) st =
     bind_res (channel_step env outputs ch st) (channel_steps env outputs chs)"

definition merged_of_channel :: "nat \<Rightarrow> channel_segment \<Rightarrow> merged_segment" where
  "merged_of_channel n c =
     (let f = cs_fields c
      in \<lparr>m_id = segment_id n, m_start = f_start f, m_end = f_end f, m_text = f_text f,
          m_speaker = Some (speaker_id (cs_channel c)), m_language = f_language f,
          m_words = (if cs_word_ts c \<and> f_words f \<noteq> Some [] then f_words f else None),
          m_decoder = list_tokens (f_decoder f)\<rparr>)"

fun build_channel_segments :: "assembly_env \<Rightarrow> nat \<Rightarrow> channel_segment list \<Rightarrow> exn + merged_segment list" where
  "build_channel_segments env n [] = Inr []"
| "build_channel_segments env n (c # cs) =
     bind_res (check_segment env (merged_of_channel n c)) (\<lambda>s.
     bind_res (build_channel_segments env (Suc n) cs) (\<lambda>ss. Inr (s # ss)))"

definition interleave :: "channel_segment list \<Rightarrow> channel_segment list" where
  "interleave cs = py_sorted (\<lambda>c. f_start (cs_fields c)) cs"

definition joined_text :: "merged_segment list \<Rightarrow> string" where
  "joined_text segs = str_join '' '' (filter (\<lambda>t. t \<noteq> []) (map (\<lambda>s. str_strip (m_text s)) segs))"

definition initial_channel_state :: channel_state where
  "initial_channel_state =
     \<lparr>ca_segments = [], ca_word_ts = False, ca_warnings = [], ca_language = PStr ''und'',
      ca_confidence = PNone, ca_source = PNone, ca_languages = []\<rparr>"

definition assemble_per_channel_transcript ::
    "assembly_env \<Rightarrow> string \<Rightarrow> dict \<Rightarrow> pyval \<Rightarrow> pyval \<Rightarrow> pyval option \<Rightarrow> string list option
     \<Rightarrow> exn + merge_response" where
  "assemble_per_channel_transcript env job outputs channel_count words_requested names stages =
     (let prepare = dget_or outputs ''prepare'' (PDict [])
      in bind_res (extract_audio_metadata prepare) (\<lambda>(duration, channels, rate).
         bind_res (py_range channel_count) (\<lambda>chs.
         bind_res (channel_steps env outputs chs initial_channel_state) (\<lambda>st.
         bind_res (build_channel_segments env 0 (interleave (ca_segments st))) (\<lambda>segments.
         bind_res (missed_speech_warning env prepare segments) (\<lambda>missed.
         bind_res (rounded_confidence env (ca_confidence st)) (\<lambda>conf.
           let speakers = label_speakers names
                 (map (\<lambda>ch. \<lparr>spk_id = speaker_id ch, spk_label = PNone, spk_channel = Some (int ch)\<rparr>) chs)
           in check_response env
                \<lparr>r_job_id = job,
                 r_metadata =
                   \<lparr>md_duration = duration, md_channels = (if truthy channels then channels else channel_count),
                    md_sample_rate = rate, md_language = ca_language st, md_language_confidence = conf,
                    md_language_source = ca_source st,
                    md_languages = (if ca_languages st = [] then None
                                    else Some (py_sorted_rev li_confidence (map snd (ca_languages st)))),
                    md_word_timestamps = ca_word_ts st, md_words_requested = words_requested,
                    md_detection = ''per_channel'', md_speaker_count = channel_count, md_created_at = now_text env,
                    md_stages = (case stages of Some l \<Rightarrow> l | None \<Rightarrow> []),
                    md_warnings = ca_warnings st @ missed\<rparr>,
                 r_text = PStr (joined_text segments), r_speakers = speakers, r_segments = segments\<rparr>)))))))"

end
