(* ===== verification/TurnProps.thy ===== *)
theory TurnProps
  imports Turns
begin

text \<open>
  Smoothing never loses a moment of speech and leaves no micro-turn; the speaker of a span is
  the one that overlaps it most; the windows of a segment partition it.
\<close>

section \<open>Coverage\<close>

definition holds_at :: "rat \<Rightarrow> speaker_turn \<Rightarrow> bool" where
  "holds_at x t \<longleftrightarrow> turn_start t \<le> x \<and> x \<le> turn_end t"

definition covered :: "speaker_turn list \<Rightarrow> rat \<Rightarrow> bool" where
  "covered ts x \<longleftrightarrow> (\<exists>t \<in> set ts. holds_at x t)"

text \<open>Who speaks when, as a relation.\<close>

definition speaks :: "speaker_turn list \<Rightarrow> string \<Rightarrow> rat \<Rightarrow> bool" where
  "speaks ts sp x \<longleftrightarrow> (\<exists>t \<in> set ts. turn_speaker t = sp \<and> holds_at x t)"

lemma covered_speaks: "covered ts x \<longleftrightarrow> (\<exists>sp. speaks ts sp x)"
  by (auto simp: covered_def speaks_def)

lemma speaks_simps [simp]:
  "\<not> speaks [] sp x"
  "speaks (t # ts) sp x \<longleftrightarrow> turn_speaker t = sp \<and> holds_at x t \<or> speaks ts sp x"
  by (auto simp: speaks_def)

lemma py_sorted_Nil_iff [simp]: "py_sorted f xs = [] \<longleftrightarrow> xs = []"
  by (metis length_0_conv length_py_sorted)

lemma merge_from_keep:
  "\<not> (turn_speaker t = turn_speaker prev \<and> turn_start t \<le> turn_end prev) \<Longrightarrow>
   merge_turns_from prev (t # ts) = prev # merge_turns_from t ts"
  by (rule trans [OF merge_turns_from.simps(2) if_not_P])

lemma merge_from_speaks:
  "\<forall>t \<in> set ts. turn_start prev \<le> turn_start t \<Longrightarrow> sorted (map turn_start ts) \<Longrightarrow>
   speaks (merge_turns_from prev ts) sp x \<longleftrightarrow> speaks (prev # ts) sp x"
proof (induction prev ts rule: merge_turns_from.induct)
  case (1 prev)
  then show ?case by simp
next
  case (2 prev t ts)
  show ?case
  proof (cases "turn_speaker t = turn_speaker prev \<and> turn_start t \<le> turn_end prev")
    case True
    then show ?thesis using 2 by (auto simp: holds_at_def max_def)
  next
    case False
    then show ?thesis using 2 by auto
  qed
qed

lemma merge_adjacent_speaks:
  "sorted (map turn_start ts) \<Longrightarrow> speaks (merge_adjacent_turns ts) sp x \<longleftrightarrow> speaks ts sp x"
  by (cases ts) (simp_all add: merge_adjacent_turns_def merge_from_speaks)

fun separated :: "speaker_turn list \<Rightarrow> bool" where
  "separated (a # b # ts) \<longleftrightarrow> (turn_speaker b \<noteq> turn_speaker a \<or> turn_end a < turn_start b) \<and> separated (b # ts)"
| "separated _ \<longleftrightarrow> True"

lemma merge_from_head:
  "\<exists>t ts'. merge_turns_from prev ts = t # ts' \<and> turn_speaker t = turn_speaker prev
     \<and> turn_start t = turn_start prev \<and> turn_end prev \<le> turn_end t"
  by (induction prev ts rule: merge_turns_from.induct) fastforce+

lemma merge_from_separated:
  "separated (merge_turns_from prev ts)"
proof (induction prev ts rule: merge_turns_from.induct)
  case (2 prev t ts)
  obtain t' ts' where "merge_turns_from t ts = t' # ts'" "turn_speaker t' = turn_speaker t" "turn_start t' = turn_start t"
    using merge_from_head [of t ts] by blast
  then show ?case using 2 by auto
qed simp

lemma merge_adjacent_separated: "separated (merge_adjacent_turns ts)"
  by (simp add: merge_adjacent_turns_def merge_from_separated split: list.split)

lemma merge_from_elems:
  "t \<in> set (merge_turns_from prev ts) \<Longrightarrow>
   \<exists>t0 \<in> set (prev # ts). turn_speaker t = turn_speaker t0 \<and> turn_start t = turn_start t0 \<and> turn_end t0 \<le> turn_end t"
proof (induction prev ts rule: merge_turns_from.induct)
  case (2 prev t1 ts)
  show ?case
  proof (cases "turn_speaker t1 = turn_speaker prev \<and> turn_start t1 \<le> turn_end prev")
    case True
    let ?p = "prev\<lparr>turn_end := max (turn_end prev) (turn_end t1)\<rparr>"
    have "t \<in> set (merge_turns_from ?p ts)" using "2.prems" True by simp
    then obtain t0 where t0: "t0 \<in> set (?p # ts)" "turn_speaker t = turn_speaker t0"
        "turn_start t = turn_start t0" "turn_end t0 \<le> turn_end t"
      using "2.IH"(1) [OF True] by blast
    show ?thesis
    proof (cases "t0 = ?p")
      case True
      then show ?thesis using t0 by simp
    next
      case False
      then have "t0 \<in> set ts" using t0(1) by simp
      then show ?thesis using t0(2-4) by auto
    qed
  next
    case False
    then have "t = prev \<or> t \<in> set (merge_turns_from t1 ts)" using "2.prems" by (simp add: merge_from_keep [OF False] del: merge_turns_from.simps)
    then show ?thesis using "2.IH"(2) [OF False] by auto
  qed
qed simp

lemma merge_adjacent_elems:
  "t \<in> set (merge_adjacent_turns ts) \<Longrightarrow>
   \<exists>t0 \<in> set ts. turn_speaker t = turn_speaker t0 \<and> turn_start t = turn_start t0 \<and> turn_end t0 \<le> turn_end t"
  using merge_from_elems by (auto simp: merge_adjacent_turns_def split: list.splits)

lemma merge_from_sorted:
  "sorted (map turn_start (prev # ts)) \<Longrightarrow> sorted (map turn_start (merge_turns_from prev ts))"
proof (induction prev ts rule: merge_turns_from.induct)
  case (2 prev t ts)
  show ?case
  proof (cases "turn_speaker t = turn_speaker prev \<and> turn_start t \<le> turn_end prev")
    case True
    then show ?thesis using "2.IH"(1) "2.prems" by simp
  next
    case False
    have le: "\<forall>z \<in> set (t # ts). turn_start prev \<le> turn_start z" using "2.prems" by auto
    have "turn_start prev \<le> turn_start y" if y: "y \<in> set (merge_turns_from t ts)" for y
    proof -
      obtain t0 where "t0 \<in> set (t # ts)" "turn_start y = turn_start t0"
        using merge_from_elems [OF y] by blast
      then show ?thesis using le by metis
    qed
    moreover have "sorted (map turn_start (merge_turns_from t ts))"
      using "2.IH"(2) [OF False] "2.prems" by simp
    ultimately have "sorted (map turn_start (prev # merge_turns_from t ts))" by simp
    then show ?thesis by (simp only: merge_from_keep [OF False])
  qed
qed simp

lemma merge_adjacent_sorted:
  "sorted (map turn_start ts) \<Longrightarrow> sorted (map turn_start (merge_adjacent_turns ts))"
  by (auto simp: merge_adjacent_turns_def intro: merge_from_sorted split: list.split)

lemma merge_adjacent_single: "length ts = 1 \<Longrightarrow> length (merge_adjacent_turns ts) = 1"
  by (cases ts) (simp_all add: merge_adjacent_turns_def)

lemma sorted_by_start: "sorted (map turn_start (py_sorted turn_key ts))"
proof -
  have "sorted (map turn_key (py_sorted turn_key ts))" by (rule sorted_py_sorted)
  then have "sorted (map fst (map turn_key (py_sorted turn_key ts)))"
    by (auto simp: sorted_map turn_key_def elim!: sorted_wrt_mono_rel [rotated])
  then show ?thesis by (simp add: comp_def turn_key_def)
qed

section \<open>Absorbing micro-turns\<close>

definition wider :: "speaker_turn \<Rightarrow> speaker_turn \<Rightarrow> bool" where
  "wider t t' \<longleftrightarrow> turn_start t' \<le> turn_start t \<and> turn_end t \<le> turn_end t'"

lemma wider_holds: "wider t t' \<Longrightarrow> holds_at x t \<Longrightarrow> holds_at x t'"
  by (auto simp: wider_def holds_at_def)

lemma wider_duration: "wider t t' \<Longrightarrow> duration t \<le> duration t'"
  by (simp add: wider_def duration_def)

lemma wider_trans: "wider a b \<Longrightarrow> wider b c \<Longrightarrow> wider a c"
  by (auto simp: wider_def)

lemma wider_refl [simp]: "wider t t"
  by (simp add: wider_def)

lemma wider_extend [simp]: "wider t (extend_turn t m)" "wider m (extend_turn t m)"
  by (simp_all add: wider_def extend_turn_def)

text \<open>Marks stay, kept turns only grow and keep their speaker, absorbed ones stay.\<close>

definition grows :: "slots \<Rightarrow> slots \<Rightarrow> bool" where
  "grows ss ss' \<longleftrightarrow> length ss' = length ss \<and> (\<forall>i < length ss. fst (ss' ! i) = fst (ss ! i)
     \<and> turn_speaker (snd (ss' ! i)) = turn_speaker (snd (ss ! i))
     \<and> wider (snd (ss ! i)) (snd (ss' ! i)) \<and> (\<not> fst (ss ! i) \<longrightarrow> ss' ! i = ss ! i))"

lemma grows_refl [simp]: "grows ss ss"
  by (simp add: grows_def)

lemma growsD:
  assumes "grows ss ss'" and "i < length ss"
  shows "fst (ss' ! i) = fst (ss ! i)" "turn_speaker (snd (ss' ! i)) = turn_speaker (snd (ss ! i))"
    "wider (snd (ss ! i)) (snd (ss' ! i))" "\<not> fst (ss ! i) \<Longrightarrow> ss' ! i = ss ! i" "i < length ss'"
  using assms by (auto simp: grows_def)

lemma grows_trans:
  assumes "grows a b" and "grows b c"
  shows "grows a c"
proof -
  have l: "length b = length a" "length c = length b" using assms by (simp_all add: grows_def)
  have "fst (c ! i) = fst (a ! i) \<and> turn_speaker (snd (c ! i)) = turn_speaker (snd (a ! i))
     \<and> wider (snd (a ! i)) (snd (c ! i)) \<and> (\<not> fst (a ! i) \<longrightarrow> c ! i = a ! i)" if i: "i < length a" for i
    using growsD [OF assms(1) i] growsD [OF assms(2), of i] l i wider_trans by auto
  then show ?thesis using l by (simp add: grows_def)
qed

lemma kept_before_Some: "kept_before ss i = Some k \<Longrightarrow> k < i \<and> fst (ss ! k)"
  by (auto simp: kept_before_def dest!: find_SomeD)

lemma kept_after_Some: "kept_after ss i = Some k \<Longrightarrow> i < k \<and> k < length ss \<and> fst (ss ! k)"
  by (auto simp: kept_after_def dest!: find_SomeD)

lemma absorb_target_Some:
  "absorb_target ss i = Some k \<Longrightarrow> i < length ss \<Longrightarrow> k < length ss \<and> fst (ss ! k)"
  using kept_before_Some [of ss i] kept_after_Some [of ss i]
  by (auto simp: absorb_target_def Let_def split: option.splits if_splits)

lemma absorb_target_ex:
  assumes "k < length ss" and "fst (ss ! k)" and "\<not> fst (ss ! i)"
  shows "absorb_target ss i \<noteq> None"
proof -
  have "k \<noteq> i" using assms(2,3) by blast
  then have "kept_before ss i \<noteq> None \<or> kept_after ss i \<noteq> None"
    using assms(1,2) find_ex [of k "rev [0..<i]" "\<lambda>p. fst (ss ! p)"]
      find_ex [of k "[Suc i..<length ss]" "\<lambda>p. fst (ss ! p)"]
    by (cases "k < i") (auto simp: kept_before_def kept_after_def)
  then show ?thesis by (auto simp: absorb_target_def Let_def split: option.split)
qed

lemma absorb_at_grows: "i < length ss \<Longrightarrow> grows ss (absorb_at ss i)"
  using absorb_target_Some [of ss i]
  by (auto simp: absorb_at_def grows_def nth_list_update extend_turn_def wider_def split: option.split)

definition inside :: "speaker_turn \<Rightarrow> slots \<Rightarrow> bool" where
  "inside t ss \<longleftrightarrow> (\<exists>k < length ss. fst (ss ! k) \<and> wider t (snd (ss ! k)))"

lemma inside_grows:
  assumes "inside t ss" and "grows ss ss'"
  shows "inside t ss'"
proof -
  obtain k where k: "k < length ss" "fst (ss ! k)" "wider t (snd (ss ! k))"
    using assms(1) by (auto simp: inside_def)
  then show ?thesis using growsD [OF assms(2) k(1)] wider_trans [OF k(3)] by (auto simp: inside_def)
qed

lemma absorb_at_inside:
  assumes "i < length ss" and "\<not> fst (ss ! i)" and "k < length ss" and "fst (ss ! k)"
  shows "inside (snd (ss ! i)) (absorb_at ss i)"
proof -
  obtain m where m: "absorb_target ss i = Some m" using absorb_target_ex [OF assms(3,4,2)] by blast
  then show ?thesis using absorb_target_Some [OF m assms(1)]
    by (auto simp: inside_def absorb_at_def intro!: exI [of _ m])
qed

lemma absorb_fold:
  assumes "\<forall>i \<in> set is. i < length ss \<and> \<not> fst (ss ! i)" and "\<exists>k < length ss. fst (ss ! k)"
  shows "grows ss (foldl absorb_at ss is) \<and> (\<forall>i \<in> set is. inside (snd (ss ! i)) (foldl absorb_at ss is))"
  using assms
proof (induction "is" arbitrary: ss)
  case Nil
  then show ?case by simp
next
  case (Cons i "is")
  let ?s1 = "absorb_at ss i"
  have i: "i < length ss" "\<not> fst (ss ! i)" using Cons.prems(1) by auto
  have g: "grows ss ?s1" by (rule absorb_at_grows [OF i(1)])
  have in1: "inside (snd (ss ! i)) ?s1" using absorb_at_inside [OF i] Cons.prems(2) by blast
  have step: "\<forall>j \<in> set is. j < length ?s1 \<and> \<not> fst (?s1 ! j)" "\<exists>k < length ?s1. fst (?s1 ! k)"
    using Cons.prems g by (auto simp: grows_def)
  have same: "snd (?s1 ! j) = snd (ss ! j)" if "j \<in> set is" for j
    using Cons.prems(1) g that by (auto simp: grows_def)
  note IH = Cons.IH [OF step]
  show ?case using IH grows_trans [OF g] inside_grows [OF in1] same by auto
qed

section \<open>Smoothing\<close>

lemma longest_index_less: "ts \<noteq> [] \<Longrightarrow> longest_index ts < length ts"
  using py_max_from_in [of "\<lambda>i. duration (ts ! i)" 0 "[1..<length ts]"] by (auto simp: longest_index_def)

lemma mark_slots_simps:
  "length (mark_slots d ts) = length ts" "i < length ts \<Longrightarrow> snd (mark_slots d ts ! i) = ts ! i"
  by (simp_all add: mark_slots_def)

lemma mark_slots_some:
  assumes "ts \<noteq> []"
  shows "\<exists>k < length (mark_slots d ts). fst (mark_slots d ts ! k)"
proof (cases "\<exists>t \<in> set ts. duration t \<ge> d")
  case True
  then obtain k where "k < length ts" "duration (ts ! k) \<ge> d" by (auto simp: in_set_conv_nth)
  then show ?thesis using True by (auto simp: mark_slots_def)
next
  case False
  then show ?thesis using longest_index_less [OF assms] by (auto simp: mark_slots_def)
qed

lemma absorb_all_facts:
  assumes "ts \<noteq> []"
  shows "grows (mark_slots d ts) (absorb_all (mark_slots d ts))
    \<and> (\<forall>t \<in> set ts. inside t (absorb_all (mark_slots d ts)))"
proof -
  let ?ss = "mark_slots d ts" and ?is = "filter (\<lambda>i. \<not> fst (mark_slots d ts ! i)) [0..<length (mark_slots d ts)]"
  have fold: "grows ?ss (absorb_all ?ss) \<and> (\<forall>i \<in> set ?is. inside (snd (?ss ! i)) (absorb_all ?ss))"
    unfolding absorb_all_def by (rule absorb_fold [OF _ mark_slots_some [OF assms]]) auto
  have "inside (ts ! i) (absorb_all ?ss)" if i: "i < length ts" for i
  proof (cases "fst (?ss ! i)")
    case True
    then have "inside (snd (?ss ! i)) ?ss" using i by (auto simp: inside_def mark_slots_simps)
    then show ?thesis using inside_grows fold i by (simp add: mark_slots_simps)
  next
    case False
    then have "i \<in> set ?is" using i by (simp add: mark_slots_simps)
    then show ?thesis using fold i by (metis mark_slots_simps(2))
  qed
  then show ?thesis using fold by (auto simp: in_set_conv_nth)
qed

definition absorbed_turns :: "rat \<Rightarrow> speaker_turn list \<Rightarrow> speaker_turn list" where
  "absorbed_turns d ts = map snd (filter fst (absorb_all (mark_slots d ts)))"

lemma absorbed_cover:
  assumes "t \<in> set ts"
  shows "\<exists>t' \<in> set (absorbed_turns d ts). wider t t'"
proof -
  have "ts \<noteq> []" using assms by auto
  then have "inside t (absorb_all (mark_slots d ts))" using absorb_all_facts assms by blast
  then obtain k where k: "k < length (absorb_all (mark_slots d ts))" "fst (absorb_all (mark_slots d ts) ! k)"
      "wider t (snd (absorb_all (mark_slots d ts) ! k))"
    unfolding inside_def by blast
  have "absorb_all (mark_slots d ts) ! k \<in> set (filter fst (absorb_all (mark_slots d ts)))"
    using k(1,2) by simp
  then show ?thesis unfolding absorbed_turns_def set_map using k(3) by blast
qed

lemma absorbed_from:
  assumes "t' \<in> set (absorbed_turns d ts)"
  shows "\<exists>i < length ts. fst (mark_slots d ts ! i) \<and> wider (ts ! i) t' \<and> turn_speaker t' = turn_speaker (ts ! i)"
proof -
  have ne: "ts \<noteq> []" using assms by (auto simp: absorbed_turns_def absorb_all_def mark_slots_def)
  have g: "grows (mark_slots d ts) (absorb_all (mark_slots d ts))" using absorb_all_facts [OF ne] by blast
  obtain i where i: "i < length (absorb_all (mark_slots d ts))" "fst (absorb_all (mark_slots d ts) ! i)"
      "t' = snd (absorb_all (mark_slots d ts) ! i)"
    using assms by (auto simp: absorbed_turns_def in_set_conv_nth)
  have "i < length ts" using i(1) g by (simp add: grows_def mark_slots_simps)
  then show ?thesis using growsD [OF g, of i] i by (auto simp: mark_slots_simps intro!: exI [of _ i])
qed

lemma absorbed_single:
  assumes "ts \<noteq> []" and "\<forall>t \<in> set ts. \<not> d \<le> duration t"
  shows "length (absorbed_turns d ts) = 1"
proof -
  have g: "grows (mark_slots d ts) (absorb_all (mark_slots d ts))" using absorb_all_facts [OF assms(1)] by blast
  then have "map fst (absorb_all (mark_slots d ts)) = map fst (mark_slots d ts)"
    by (auto simp: grows_def intro!: nth_equalityI)
  moreover have count: "length (filter fst ss) = length (filter id (map fst ss))" for ss :: slots
    by (simp add: filter_map comp_def)
  ultimately have "length (absorbed_turns d ts) = length (filter id (map fst (mark_slots d ts)))"
    unfolding absorbed_turns_def length_map count [of "absorb_all (mark_slots d ts)"] by simp
  also have "map fst (mark_slots d ts) = map (\<lambda>i. i = longest_index ts) [0..<length ts]"
    using assms(2) by (auto simp: mark_slots_def)
  also have "length (filter id \<dots>) = length (filter (\<lambda>i. i = longest_index ts) [0..<length ts])"
    by (simp add: filter_map comp_def)
  also have "\<dots> = card {i. i = longest_index ts \<and> i < length ts}"
    by (simp add: distinct_length_filter Int_def)
  also have "{i. i = longest_index ts \<and> i < length ts} = {longest_index ts}"
    using longest_index_less [OF assms(1)] by auto
  also have "card \<dots> = 1" by simp
  finally show ?thesis .
qed

lemma absorbed_long:
  assumes "t \<in> set ts" and "d \<le> duration t"
  shows "\<exists>t' \<in> set (absorbed_turns d ts). wider t t' \<and> turn_speaker t' = turn_speaker t"
proof -
  obtain i where i: "i < length ts" "t = ts ! i" using assms(1) by (auto simp: in_set_conv_nth)
  have "ts \<noteq> []" using assms(1) by auto
  then have g: "grows (mark_slots d ts) (absorb_all (mark_slots d ts))" using absorb_all_facts by blast
  have "fst (mark_slots d ts ! i)" using assms i by (auto simp: mark_slots_def)
  then have k: "fst (absorb_all (mark_slots d ts) ! i)" "i < length (absorb_all (mark_slots d ts))"
      "wider t (snd (absorb_all (mark_slots d ts) ! i))"
      "turn_speaker (snd (absorb_all (mark_slots d ts) ! i)) = turn_speaker t"
    using growsD [OF g, of i] i by (simp_all add: mark_slots_simps)
  have "absorb_all (mark_slots d ts) ! i \<in> set (filter fst (absorb_all (mark_slots d ts)))"
    using k(1,2) by simp
  then show ?thesis unfolding absorbed_turns_def set_map using k(3,4) by blast
qed

text \<open>What the final merge works on.\<close>

definition smoothing_base :: "rat \<Rightarrow> speaker_turn list \<Rightarrow> speaker_turn list" where
  "smoothing_base d turns =
     (if \<forall>t \<in> set turns. d \<le> duration t then turns else absorbed_turns d (py_sorted turn_key turns))"

lemma smooth_as_merge:
  "0 < d \<Longrightarrow> smooth_diarization_turns d turns = merge_adjacent_turns (py_sorted turn_key (smoothing_base d turns))"
  by (cases "turns = []")
    (auto simp: smooth_diarization_turns_def smoothing_base_def absorbed_turns_def Let_def merge_adjacent_turns_def
      py_sorted_def)

lemma smooth_speaks:
  "0 < d \<Longrightarrow> speaks (smooth_diarization_turns d turns) sp x \<longleftrightarrow> speaks (smoothing_base d turns) sp x"
  using merge_adjacent_speaks [OF sorted_by_start, of "smoothing_base d turns" sp x]
  by (simp add: smooth_as_merge speaks_def)

lemma smoothing_base_cover:
  assumes "t \<in> set turns"
  shows "\<exists>t' \<in> set (smoothing_base d turns). wider t t' \<and> (d \<le> duration t \<longrightarrow> turn_speaker t' = turn_speaker t)"
proof (cases "\<forall>t \<in> set turns. d \<le> duration t")
  case True
  then show ?thesis using assms by (auto simp: smoothing_base_def intro: wider_refl)
next
  case False
  have "t \<in> set (py_sorted turn_key turns)" using assms by simp
  then show ?thesis
    using absorbed_long [of t "py_sorted turn_key turns" d] absorbed_cover [of t "py_sorted turn_key turns" d] False
    by (cases "d \<le> duration t") (auto simp: smoothing_base_def)
qed

lemma smoothing_base_from:
  assumes "t' \<in> set (smoothing_base d turns)"
  shows "\<exists>t \<in> set turns. wider t t' \<and> turn_speaker t' = turn_speaker t \<and>
    (d \<le> duration t' \<or> length (smoothing_base d turns) = 1)"
proof (cases "\<forall>t \<in> set turns. d \<le> duration t")
  case True
  then show ?thesis using assms by (auto simp: smoothing_base_def intro: wider_refl)
next
  case False
  let ?ts = "py_sorted turn_key turns"
  have t': "t' \<in> set (absorbed_turns d ?ts)" using assms False by (simp add: smoothing_base_def)
  obtain i where i: "i < length ?ts" "fst (mark_slots d ?ts ! i)" "wider (?ts ! i) t'"
      "turn_speaker t' = turn_speaker (?ts ! i)"
    using absorbed_from [OF t'] by blast
  have mem: "?ts ! i \<in> set turns" using nth_mem [OF i(1)] by simp
  have "d \<le> duration t' \<or> length (smoothing_base d turns) = 1"
  proof (cases "\<exists>t \<in> set turns. d \<le> duration t")
    case True
    then have "d \<le> duration (?ts ! i)" using i(1,2) by (simp add: mark_slots_def)
    then show ?thesis using wider_duration [OF i(3)] by simp
  next
    case none: False
    have "?ts \<noteq> []" using i(1) by auto
    then have "length (absorbed_turns d ?ts) = 1" using absorbed_single none by simp
    then show ?thesis unfolding smoothing_base_def if_not_P [OF False] by simp
  qed
  then show ?thesis using i mem by blast
qed

lemma smooth_elem:
  assumes "0 < d" and "t \<in> set (smooth_diarization_turns d turns)"
  shows "\<exists>t0 \<in> set (smoothing_base d turns). turn_speaker t = turn_speaker t0 \<and> duration t0 \<le> duration t"
  using merge_adjacent_elems [of t "py_sorted turn_key (smoothing_base d turns)"] assms
  by (auto simp: smooth_as_merge [OF assms(1)] duration_def)

lemma smooth_speakers:
  assumes "0 < d"
  shows "turn_speaker ` set (smooth_diarization_turns d turns) \<subseteq> turn_speaker ` set turns"
  using smooth_elem [OF assms] smoothing_base_from by (fastforce simp: image_iff)

text \<open>C16: Smoothing the diarization loses no speech: every moment covered by a turn stays covered, and
  what a long enough turn says stays attributed to its speaker; no speaker is made up; the result is ordered by
  start, no two consecutive turns of one speaker touch, and every turn lasts at least the minimum unless a
  single turn is all that is left. When there is no micro-turn, who speaks when does not change at all.\<close>

theorem smooth_diarization_turns_safe:
  fixes d x :: rat and turns :: "speaker_turn list" and sp :: string
  assumes "0 < d"
  defines "out \<equiv> smooth_diarization_turns d turns"
  shows "(covered turns x \<longrightarrow> covered out x)
    \<and> (\<forall>t \<in> set turns. d \<le> duration t \<longrightarrow> holds_at x t \<longrightarrow> speaks out (turn_speaker t) x)
    \<and> turn_speaker ` set out \<subseteq> turn_speaker ` set turns
    \<and> sorted (map turn_start out) \<and> separated out
    \<and> ((\<forall>t \<in> set out. d \<le> duration t) \<or> length out = 1)
    \<and> ((\<forall>t \<in> set turns. d \<le> duration t) \<longrightarrow> speaks out sp x = speaks turns sp x)"
proof (intro conjI)
  have sp: "speaks out sp x = speaks (smoothing_base d turns) sp x" for sp x
    unfolding out_def by (rule smooth_speaks [OF assms(1)])
  show "covered turns x \<longrightarrow> covered out x"
    using smoothing_base_cover [of _ turns d] wider_holds unfolding covered_speaks sp by (fastforce simp: speaks_def)
  show "\<forall>t \<in> set turns. d \<le> duration t \<longrightarrow> holds_at x t \<longrightarrow> speaks out (turn_speaker t) x"
    using smoothing_base_cover [of _ turns d] wider_holds unfolding sp by (fastforce simp: speaks_def)
  show "turn_speaker ` set out \<subseteq> turn_speaker ` set turns"
    unfolding out_def by (rule smooth_speakers [OF assms(1)])
  show "sorted (map turn_start out)"
    by (simp add: out_def smooth_as_merge [OF assms(1)] merge_adjacent_sorted sorted_by_start)
  show "separated out"
    by (simp add: out_def smooth_as_merge [OF assms(1)] merge_adjacent_separated)
  show "(\<forall>t \<in> set out. d \<le> duration t) \<or> length out = 1"
  proof (cases "length (smoothing_base d turns) = 1")
    case True
    then show ?thesis by (simp add: out_def smooth_as_merge [OF assms(1)] merge_adjacent_single)
  next
    case False
    have "d \<le> duration t" if t: "t \<in> set out" for t
      using smooth_elem [OF assms(1) t [unfolded out_def]] smoothing_base_from [of _ d turns] False by force
    then show ?thesis by blast
  qed
  show "(\<forall>t \<in> set turns. d \<le> duration t) \<longrightarrow> speaks out sp x = speaks turns sp x"
    by (simp add: sp smoothing_base_def)
qed

theorem smooth_diarization_turns_safe_witness:
  "covered (smooth_diarization_turns (1/4)
     [\<lparr>turn_speaker = ''A'', turn_start = 0, turn_end = 2, turn_confidence = None, turn_overlapping = None\<rparr>,
      \<lparr>turn_speaker = ''B'', turn_start = 2, turn_end = 21/10, turn_confidence = None, turn_overlapping = None\<rparr>])
     (41/20)"
  using smooth_diarization_turns_safe [of "1/4"
     "[\<lparr>turn_speaker = ''A'', turn_start = 0, turn_end = 2, turn_confidence = None, turn_overlapping = None\<rparr>,
      \<lparr>turn_speaker = ''B'', turn_start = 2, turn_end = 21/10, turn_confidence = None, turn_overlapping = None\<rparr>]"
     "41/20" "''A''"]
  by (simp add: covered_def [of "_ # _"] holds_at_def)

section \<open>The speaker of a span\<close>

definition best_overlap :: "rat \<Rightarrow> rat \<Rightarrow> string option \<Rightarrow> rat \<Rightarrow> speaker_turn list \<Rightarrow> bool" where
  "best_overlap s e r ov ts \<longleftrightarrow> (\<forall>t \<in> set ts. span_overlap s e t \<le> ov)
     \<and> (\<forall>sp. r = Some sp \<longrightarrow> (\<exists>t \<in> set ts. turn_speaker t = sp \<and> span_overlap s e t = ov \<and> 0 < ov))
     \<and> (r = None \<longrightarrow> ov = 0)"

lemma overlap_from_best:
  "best_overlap s e sp ov seen \<Longrightarrow> 0 \<le> ov \<Longrightarrow>
   best_overlap s e (fst (overlap_from s e (sp, ov) ts)) (snd (overlap_from s e (sp, ov) ts)) (seen @ ts)"
proof (induction ts arbitrary: sp ov seen)
  case Nil
  then show ?case by simp
next
  case (Cons t ts)
  let ?new = "if span_overlap s e t > ov then (Some (turn_speaker t), span_overlap s e t) else (sp, ov)"
  have "best_overlap s e (fst ?new) (snd ?new) (seen @ [t])" "0 \<le> snd ?new"
    using Cons.prems by (auto simp: best_overlap_def)
  from Cons.IH [OF this] show ?case by (simp add: prod.case_eq_if)
qed

text \<open>The speaker of a span is one whose turn overlaps the span the most, by a positive amount; there is
  none exactly when no turn overlaps the span.\<close>

lemma find_speaker_by_overlap_max:
  "case find_speaker_by_overlap s e turns of
     Some sp \<Rightarrow> (\<exists>t \<in> set turns. turn_speaker t = sp \<and> 0 < span_overlap s e t
                  \<and> (\<forall>t' \<in> set turns. span_overlap s e t' \<le> span_overlap s e t))
   | None \<Rightarrow> (\<forall>t \<in> set turns. span_overlap s e t = 0)"
proof -
  have "best_overlap s e None 0 []" by (simp add: best_overlap_def)
  from overlap_from_best [OF this, of turns]
  have b: "best_overlap s e (find_speaker_by_overlap s e turns) (snd (overlap_from s e (None, 0) turns)) turns"
    by (simp add: find_speaker_by_overlap_def)
  have nonneg: "0 \<le> span_overlap s e t" for t by (simp add: span_overlap_def)
  show ?thesis
  proof (cases "find_speaker_by_overlap s e turns")
    case None
    then show ?thesis using b nonneg by (auto simp: best_overlap_def intro: antisym)
  next
    case (Some sp)
    then obtain t where "t \<in> set turns" "turn_speaker t = sp" "0 < span_overlap s e t"
        "\<forall>t' \<in> set turns. span_overlap s e t' \<le> span_overlap s e t"
      using b by (auto simp: best_overlap_def)
    then show ?thesis using Some by auto
  qed
qed

section \<open>The nearest turn\<close>

definition turn_distance :: "rat \<Rightarrow> speaker_turn \<Rightarrow> rat" where
  "turn_distance m t = (if holds_at m t then 0 else if m < turn_start t then turn_start t - m else m - turn_end t)"

lemma turn_distance_nonneg: "0 \<le> turn_distance m t"
  by (auto simp: turn_distance_def holds_at_def)

lemma nearest_from_best:
  assumes "\<And>sp d. best = Some (sp, d) \<Longrightarrow> \<exists>t \<in> set seen. turn_speaker t = sp \<and> turn_distance m t = d"
    and "\<And>sp d t. best = Some (sp, d) \<Longrightarrow> t \<in> set seen \<Longrightarrow> d \<le> turn_distance m t"
    and "best = None \<Longrightarrow> seen = []"
  shows "case nearest_from m best ts of
      None \<Rightarrow> seen @ ts = []
    | Some sp \<Rightarrow> \<exists>t \<in> set (seen @ ts). turn_speaker t = sp \<and> (\<forall>t' \<in> set (seen @ ts). turn_distance m t \<le> turn_distance m t')"
  using assms
proof (induction ts arbitrary: best seen)
  case Nil
  then show ?case by (cases best) fastforce+
next
  case (Cons t ts)
  show ?case
  proof (cases "holds_at m t")
    case True
    then have "turn_distance m t = 0" by (simp add: turn_distance_def)
    then show ?thesis using True turn_distance_nonneg by (auto simp: holds_at_def)
  next
    case False
    let ?d = "turn_distance m t"
    let ?new = "case best of None \<Rightarrow> Some (turn_speaker t, ?d)
        | Some (sp, d0) \<Rightarrow> if ?d < d0 then Some (turn_speaker t, ?d) else best"
    have d: "?d = (if m < turn_start t then turn_start t - m else m - turn_end t)"
      using False by (simp add: turn_distance_def)
    have step: "nearest_from m best (t # ts) = nearest_from m ?new ts"
      unfolding d nearest_from.simps Let_def using False by (simp add: holds_at_def)
    have a: "\<exists>u \<in> set (seen @ [t]). turn_speaker u = sp \<and> turn_distance m u = d" if "?new = Some (sp, d)" for sp d
      using that Cons.prems(1) by (auto split: option.splits if_splits)
    have b: "d \<le> turn_distance m u" if "?new = Some (sp, d)" "u \<in> set (seen @ [t])" for sp d u
      using that Cons.prems(2,3) by (force split: option.splits if_splits)
    have c: "seen @ [t] = []" if "?new = None" using that by (auto split: option.splits if_splits)
    show ?thesis using Cons.IH [of ?new "seen @ [t]", OF a b c] unfolding step append_assoc append.simps .
  qed
qed

text \<open>The nearest-turn fallback always answers when there is a turn, with the speaker of a turn at the
  least distance from the moment.\<close>

lemma find_nearest_turn_speaker_min:
  "case find_nearest_turn_speaker m turns of
     None \<Rightarrow> turns = []
   | Some sp \<Rightarrow> \<exists>t \<in> set turns. turn_speaker t = sp \<and> (\<forall>t' \<in> set turns. turn_distance m t \<le> turn_distance m t')"
  using nearest_from_best [of None "[]" m turns] unfolding append_Nil find_nearest_turn_speaker_def by simp

section \<open>The windows of a segment\<close>

text \<open>A list of windows that follow each other from one moment to another.\<close>

fun partitions :: "rat \<Rightarrow> rat \<Rightarrow> window list \<Rightarrow> bool" where
  "partitions s e [] \<longleftrightarrow> s = e"
| "partitions s e ((a, b, sp) # ws) \<longleftrightarrow> a = s \<and> a < b \<and> partitions b e ws"

lemma partitions_snoc: "partitions s e (ws @ [(a, b, sp)]) \<longleftrightarrow> partitions s a ws \<and> a < b \<and> b = e"
  by (induction s a ws rule: partitions.induct) auto

text \<open>The speaker of the first turn open at a moment.\<close>

definition open_speaker :: "speaker_turn list \<Rightarrow> rat \<Rightarrow> string option" where
  "open_speaker turns x = map_option turn_speaker (List.find (\<lambda>t. turn_start t < x \<and> x < turn_end t) turns)"

lemma overlap_from_settled:
  "\<forall>t \<in> set ts. span_overlap p q t \<le> ov \<Longrightarrow> overlap_from p q (sp, ov) ts = (sp, ov)"
  by (induction ts) auto

lemma overlap_two_valued:
  assumes "p < q" and "\<forall>t \<in> set ts. span_overlap p q t = (if P t then q - p else 0)"
  shows "fst (overlap_from p q (None, 0) ts) = map_option turn_speaker (List.find P ts)"
  using assms(2)
proof (induction ts)
  case (Cons t ts)
  then show ?case
    using assms(1) overlap_from_settled [of ts p q "q - p" "Some (turn_speaker t)"] by (cases "P t") simp_all
qed simp

lemma boundary_mem:
  "t \<in> set turns \<Longrightarrow> s < turn_end t \<Longrightarrow> turn_start t < e \<Longrightarrow>
   max s (turn_start t) \<in> set (segment_boundaries s e turns) \<and> min e (turn_end t) \<in> set (segment_boundaries s e turns)"
  by (auto simp: segment_boundaries_def not_le)

lemma atomic_overlap:
  assumes "s \<le> p" and "p < x" and "x < q" and "q \<le> e" and "t \<in> set turns"
    and "\<forall>y \<in> set (segment_boundaries s e turns). y \<le> p \<or> q \<le> y"
  shows "span_overlap p q t = (if turn_start t < x \<and> x < turn_end t then q - p else 0)"
proof (cases "s < turn_end t \<and> turn_start t < e")
  case True
  then have b: "max s (turn_start t) \<le> p \<or> q \<le> max s (turn_start t)" "min e (turn_end t) \<le> p \<or> q \<le> min e (turn_end t)"
    using boundary_mem [OF assms(5)] assms(6) by blast+
  have st: "turn_start t \<le> p \<or> q \<le> turn_start t" using b(1) assms(1-4) by (auto simp: max_def split: if_splits)
  have en: "turn_end t \<le> p \<or> q \<le> turn_end t" using b(2) assms(1-4) by (auto simp: min_def split: if_splits)
  show ?thesis using st en assms(2,3) by (auto simp: span_overlap_def min_def max_def)
next
  case False
  then have "turn_end t \<le> p \<or> q \<le> turn_start t" using assms(1-4) by auto
  then show ?thesis using assms(2,3) by (auto simp: span_overlap_def min_def max_def)
qed

lemma atomic_speaker:
  assumes "s \<le> p" and "p < x" and "x < q" and "q \<le> e"
    and "\<forall>y \<in> set (segment_boundaries s e turns). y \<le> p \<or> q \<le> y"
  shows "find_speaker_by_overlap p q turns = open_speaker turns x"
  unfolding find_speaker_by_overlap_def open_speaker_def
  using atomic_overlap [OF assms(1-4) _ assms(5)] assms(2,3)
  by (intro overlap_two_valued) auto

definition well_spoken :: "speaker_turn list \<Rightarrow> rat set \<Rightarrow> window list \<Rightarrow> bool" where
  "well_spoken turns B ws \<longleftrightarrow>
     (\<forall>(a, b, sp) \<in> set ws. \<forall>x. a < x \<and> x < b \<and> x \<notin> B \<longrightarrow> sp = open_speaker turns x)"

fun alternating :: "window list \<Rightarrow> bool" where
  "alternating ((a, b, sp) # (c, d, sq) # ws) \<longleftrightarrow> sp \<noteq> sq \<and> alternating ((c, d, sq) # ws)"
| "alternating _ \<longleftrightarrow> True"

lemma alternating_snoc2:
  "alternating (ws @ [(a, b, sp), (c, d, sq)]) \<longleftrightarrow> alternating (ws @ [(a, b, sp)]) \<and> sp \<noteq> sq"
  by (induction ws rule: alternating.induct) auto

lemma alternating_last: "alternating (ws @ [(a, b, sp)]) \<Longrightarrow> alternating (ws @ [(c, d, sp)])"
  by (induction ws rule: alternating.induct) auto

lemma push_window_ok:
  assumes "partitions s a ws" and "a < b" and "a \<in> B" and "well_spoken turns B ws" and "alternating ws"
    and "\<And>x. a < x \<Longrightarrow> x < b \<Longrightarrow> sp = open_speaker turns x"
  shows "partitions s b (push_window ws (a, b, sp)) \<and> well_spoken turns B (push_window ws (a, b, sp))
    \<and> alternating (push_window ws (a, b, sp))"
proof (cases "ws \<noteq> [] \<and> snd (snd (last ws)) = sp")
  case True
  then obtain us c d where ws: "ws = us @ [(c, d, sp)]"
    by (metis append_butlast_last_id prod.collapse)
  have d: "d = a" "partitions s c us" "c < d" using assms(1) by (auto simp: ws partitions_snoc)
  have old: "sp = open_speaker turns x" if "c < x" "x < a" "x \<notin> B" for x
    using that assms(4) d(1) by (simp add: ws well_spoken_def)
  have "sp = open_speaker turns x" if "c < x" "x < b" "x \<notin> B" for x
  proof (cases "x < a")
    case False
    then have "a < x" using that(3) assms(3) by (metis linorder_neqE)
    then show ?thesis using assms(6) that(2) by blast
  qed (use old that in blast)
  then have "well_spoken turns B (us @ [(c, b, sp)])" using assms(4) unfolding ws well_spoken_def by simp
  moreover have "partitions s b (us @ [(c, b, sp)])" using d assms(2) by (simp add: partitions_snoc)
  moreover have "alternating (us @ [(c, b, sp)])" using alternating_last assms(5) ws by blast
  ultimately show ?thesis by (simp add: push_window_def ws)
next
  case False
  have "alternating (ws @ [(a, b, sp)])"
  proof (cases ws rule: rev_exhaust)
    case (snoc us w)
    then show ?thesis using False assms(5) by (cases w) (simp add: alternating_snoc2)
  qed simp
  moreover have "well_spoken turns B (ws @ [(a, b, sp)])" using assms(4,6) by (auto simp: well_spoken_def)
  moreover have "partitions s b (ws @ [(a, b, sp)])" using assms(1,2) by (simp add: partitions_snoc)
  ultimately show ?thesis using False by (auto simp: push_window_def)
qed

lemma windows_between_ok:
  assumes "sorted (a # bs)" and "distinct (a # bs)" and "set (a # bs) \<subseteq> set (segment_boundaries s e turns)"
    and "\<forall>y \<in> set (segment_boundaries s e turns). y \<le> a \<or> y \<in> set bs"
    and "\<forall>y \<in> set (segment_boundaries s e turns). s \<le> y \<and> y \<le> e"
    and "partitions s a ws" and "well_spoken turns (set (segment_boundaries s e turns)) ws" and "alternating ws"
  shows "partitions s (last (a # bs)) (windows_between turns ws (a # bs))
    \<and> well_spoken turns (set (segment_boundaries s e turns)) (windows_between turns ws (a # bs))
    \<and> alternating (windows_between turns ws (a # bs))"
  using assms
proof (induction bs arbitrary: a ws)
  case Nil
  then show ?case by simp
next
  case (Cons b bs)
  let ?B = "segment_boundaries s e turns" and ?ws = "push_window ws (a, b, find_speaker_by_overlap a b turns)"
  have ab: "a < b" using Cons.prems(1,2) by simp
  have gap: "\<forall>y \<in> set ?B. y \<le> a \<or> b \<le> y" using Cons.prems(1,4) by auto
  have se: "s \<le> a" "b \<le> e" "a \<in> set ?B" using Cons.prems(3,5) by auto
  have sp: "find_speaker_by_overlap a b turns = open_speaker turns x" if "a < x" "x < b" for x
    using atomic_speaker [OF se(1) that se(2) gap] .
  note pushed = push_window_ok [OF Cons.prems(6) ab se(3) Cons.prems(7,8) sp]
  have "\<forall>y \<in> set ?B. y \<le> b \<or> y \<in> set bs" using Cons.prems(4) ab by auto
  then show ?case
    using Cons.IH [of b ?ws] pushed Cons.prems(1-3,5) ab by simp
qed

lemma sorted_le_last: "sorted xs \<Longrightarrow> y \<in> set xs \<Longrightarrow> y \<le> last xs"
  by (induction xs) auto

lemma boundaries_within:
  "s < e \<Longrightarrow> y \<in> set (segment_boundaries s e turns) \<Longrightarrow> s \<le> y \<and> y \<le> e"
  by (auto simp: segment_boundaries_def split: if_splits)

lemma speaker_windows_ok:
  assumes "s < e"
  shows "partitions s e (build_speaker_windows s e turns) \<and> alternating (build_speaker_windows s e turns)
    \<and> well_spoken turns (set (segment_boundaries s e turns)) (build_speaker_windows s e turns)"
proof -
  let ?B = "segment_boundaries s e turns"
  have B: "sorted ?B" "distinct ?B" "s \<in> set ?B" "e \<in> set ?B"
    unfolding segment_boundaries_def set_sort set_remdups distinct_sort by simp_all
  have within: "\<forall>y \<in> set ?B. s \<le> y \<and> y \<le> e" using boundaries_within [OF assms] by blast
  obtain a bs where ab: "?B = a # bs" using B(3) by (cases ?B) auto
  have first: "a = s" using B(1,3) within unfolding ab by (auto intro: antisym)
  have "last ?B \<in> set ?B" by (rule last_in_set) (simp add: ab)
  then have final: "last (a # bs) = e" using sorted_le_last [OF B(1,4)] within unfolding ab by (auto intro: antisym)
  have "partitions s (last (a # bs)) (windows_between turns [] (a # bs))
    \<and> well_spoken turns (set ?B) (windows_between turns [] (a # bs)) \<and> alternating (windows_between turns [] (a # bs))"
    by (rule windows_between_ok) (use B within first ab in \<open>auto simp: well_spoken_def\<close>)
  then show ?thesis using assms unfolding build_speaker_windows_def final ab by simp
qed

text \<open>The windows of a segment partition it from its start to its end, neighbours have different
  speakers, and at every moment that is not a turn boundary the window's speaker is the one of the first turn,
  in the order of the list, that is open then, and nobody exactly when no turn is open.\<close>

lemma build_speaker_windows_partition:
  assumes "s < e"
  shows "partitions s e (build_speaker_windows s e turns) \<and> alternating (build_speaker_windows s e turns)
    \<and> (\<forall>(a, b, sp) \<in> set (build_speaker_windows s e turns). \<forall>x. a < x \<and> x < b
          \<and> x \<notin> set (segment_boundaries s e turns) \<longrightarrow> sp = open_speaker turns x)"
  using speaker_windows_ok [OF assms, of turns] by (simp add: well_spoken_def)

lemma build_speaker_windows_partition_example:
  "partitions 0 3 (build_speaker_windows 0 3
     [\<lparr>turn_speaker = ''A'', turn_start = 0, turn_end = 2, turn_confidence = None, turn_overlapping = None\<rparr>])"
  using build_speaker_windows_partition [of 0 3
     "[\<lparr>turn_speaker = ''A'', turn_start = 0, turn_end = 2, turn_confidence = None, turn_overlapping = None\<rparr>]"]
  by simp

end
