(* ===== verification/SplitProps.thy ===== *)
theory SplitProps
  imports Splitting TurnProps
begin

text \<open>
  Cutting a segment where the speaker changes loses no word and no token, gives every part
  the speaker of its words, and leaves no part that is too short.
\<close>

section \<open>Strings\<close>

lemma str_join_Nil_iff: "\<forall>x \<in> set xs. x \<noteq> [] \<Longrightarrow> str_join sep xs = [] \<longleftrightarrow> xs = []"
  by (cases "(sep, xs)" rule: str_join.cases) auto

lemma split_from_word: "\<forall>c \<in> set t. \<not> is_space c \<Longrightarrow> split_from run (t @ s) = split_from (run @ t) s"
  by (induction t arbitrary: run) auto

definition token :: "string \<Rightarrow> bool" where
  "token t \<longleftrightarrow> t \<noteq> [] \<and> (\<forall>c \<in> set t. \<not> is_space c)"

lemma split_from_tokens: "\<forall>c \<in> set run. \<not> is_space c \<Longrightarrow> t \<in> set (split_from run s) \<Longrightarrow> token t"
proof (induction run s rule: split_from.induct)
  case (1 run)
  then show ?case by (cases "run = []") (simp_all add: token_def)
next
  case (2 run c s)
  show ?case
  proof (cases "is_space c")
    case True
    then show ?thesis using 2 by (cases "run = []") (auto simp: token_def)
  next
    case False
    then show ?thesis using 2 by simp
  qed
qed

lemma py_split_tokens: "t \<in> set (py_split s) \<Longrightarrow> token t"
  using split_from_tokens [of "[]"] by (simp add: py_split_def)

lemma space_is_space [simp]: "is_space (CHR '' '')"
  by (simp add: is_space_def)

lemma py_split_join: "\<forall>t \<in> set ts. token t \<Longrightarrow> py_split (str_join '' '' ts) = ts"
proof (induction "'' ''" ts rule: str_join.induct)
  case (2 x)
  then show ?case using split_from_word [of x "[]" "[]"] by (simp add: py_split_def token_def)
next
  case (3 x y zs)
  then show ?case using split_from_word [of x "[]"] by (simp add: py_split_def token_def)
qed (simp add: py_split_def)

section \<open>Runs of one speaker\<close>

definition spoken :: "timed_word \<Rightarrow> bool" where
  "spoken w \<longleftrightarrow> str_strip (w_text w) \<noteq> []"

definition all_words :: "part list \<Rightarrow> timed_word list" where
  "all_words ps = concat (map part_words ps)"

lemma all_words_simps [simp]:
  "all_words [] = []" "all_words (p # ps) = part_words p @ all_words ps" "all_words (ps @ qs) = all_words ps @ all_words qs"
  by (simp_all add: all_words_def)

lemma words_text_Nil: "words_text run = [] \<longleftrightarrow> filter spoken run = []"
proof -
  have "words_text run = [] \<longleftrightarrow> filter (\<lambda>t. t \<noteq> []) (map (\<lambda>w. str_strip (w_text w)) run) = []"
    unfolding words_text_def by (rule str_join_Nil_iff) simp
  then show ?thesis by (auto simp: filter_empty_conv spoken_def)
qed

lemma close_run_words:
  "filter spoken (all_words (close_run parts sp run)) = filter spoken (all_words parts) @ filter spoken run"
  by (auto simp: close_run_def words_text_Nil part_words_def)

lemma speaker_runs_words:
  "filter spoken (all_words (speaker_runs turns parts cur run ws)) =
   filter spoken (all_words parts) @ filter spoken run @ filter (\<lambda>w. spoken w \<and> w_start w \<le> w_end w) ws"
proof (induction turns parts cur run ws rule: speaker_runs.induct)
  case (2 turns parts cur run w ws)
  then show ?case by (simp add: close_run_words Let_def not_less)
qed (simp add: close_run_words)

text \<open>A part made of the words of one speaker.\<close>

definition one_speaker :: "speaker_turn list \<Rightarrow> part \<Rightarrow> bool" where
  "one_speaker turns p \<longleftrightarrow> part_words p \<noteq> [] \<and> p_start p \<le> p_end p \<and> p_text p = words_text (part_words p)
     \<and> (\<forall>w \<in> set (part_words p). assign_speaker_to_word w turns = p_speaker p \<and> w_start w \<le> w_end w)"

lemma close_run_one_speaker:
  assumes "\<forall>p \<in> set parts. one_speaker turns p"
    and "\<forall>w \<in> set run. assign_speaker_to_word w turns = cur \<and> w_start w \<le> w_end w"
    and "sorted (map w_start run)"
  shows "\<forall>p \<in> set (close_run parts cur run). one_speaker turns p"
proof (cases run)
  case (Cons w ws)
  have "w_start (hd run) \<le> w_start (last run)" using assms(3) Cons by simp
  then show ?thesis using assms(1,2) Cons by (auto simp: close_run_def one_speaker_def part_words_def max_def)
qed (use assms in \<open>simp add: close_run_def\<close>)

lemma speaker_runs_one_speaker:
  assumes "\<forall>p \<in> set parts. one_speaker turns p"
    and "\<forall>w \<in> set run. assign_speaker_to_word w turns = cur \<and> w_start w \<le> w_end w"
    and "sorted (map w_start (run @ ws))"
  shows "\<forall>p \<in> set (speaker_runs turns parts cur run ws). one_speaker turns p"
  using assms
proof (induction turns parts cur run ws rule: speaker_runs.induct)
  case (1 turns parts cur run)
  then show ?case using close_run_one_speaker by simp
next
  case (2 turns parts cur run w ws)
  let ?sp = "assign_speaker_to_word w turns"
  have srt: "sorted (map w_start run)" "sorted (map w_start (run @ ws))" "sorted (map w_start ([w] @ ws))"
    using "2.prems"(3) by (auto simp: sorted_append)
  show ?case
  proof (cases "w_end w < w_start w")
    case True
    then show ?thesis using "2.IH"(1) [OF True "2.prems"(1,2) srt(2)] by simp
  next
    case False
    note w = False
    have w_ok: "\<forall>u \<in> set [w]. assign_speaker_to_word u turns = ?sp \<and> w_start u \<le> w_end u" using False by simp
    show ?thesis
    proof (cases "run \<noteq> [] \<and> ?sp \<noteq> cur")
      case True
      have "\<forall>p \<in> set (speaker_runs turns (close_run parts cur run) ?sp [w] ws). one_speaker turns p"
        by (rule "2.IH"(2) [OF w refl True close_run_one_speaker [OF "2.prems"(1,2) srt(1)] w_ok srt(3)])
      then show ?thesis unfolding speaker_runs.simps(2) Let_def if_not_P [OF w] if_P [OF True] .
    next
      case False
      have run: "\<forall>u \<in> set (run @ [w]). assign_speaker_to_word u turns = ?sp \<and> w_start u \<le> w_end u"
      proof (cases "run = []")
        case True
        then show ?thesis using w_ok by simp
      next
        case nonempty: False
        then have "?sp = cur" using False by blast
        then show ?thesis using "2.prems"(2) w_ok by (metis Un_iff set_append)
      qed
      have "\<forall>p \<in> set (speaker_runs turns parts ?sp (run @ [w]) ws). one_speaker turns p"
        by (rule "2.IH"(3) [OF w refl False "2.prems"(1) run]) (use "2.prems"(3) in simp)
      then show ?thesis unfolding speaker_runs.simps(2) Let_def if_not_P [OF w] if_not_P [OF False] .
    qed
  qed
qed

lemma sorted_by_word_start: "sorted (map w_start (py_sorted word_key ws))"
proof -
  have "sorted (map word_key (py_sorted word_key ws))" by (rule sorted_py_sorted)
  then have "sorted (map fst (map word_key (py_sorted word_key ws)))"
    by (auto simp: sorted_map word_key_def elim!: sorted_wrt_mono_rel [rotated])
  then show ?thesis by (simp add: comp_def word_key_def)
qed

text \<open>Splitting words at speaker changes keeps every word that has text and does not end before it
  starts, in order of time, in exactly one part; every part holds only words of its speaker, its text is theirs,
  and it does not end before it starts.\<close>

lemma split_words_by_speaker_lossless:
  "filter spoken (all_words (split_words_by_speaker ws turns)) =
     filter (\<lambda>w. spoken w \<and> w_start w \<le> w_end w) (py_sorted word_key ws)
   \<and> (\<forall>p \<in> set (split_words_by_speaker ws turns). one_speaker turns p)"
  using speaker_runs_words [of turns "[]" None "[]" "py_sorted word_key ws"]
    speaker_runs_one_speaker [of "[]" turns "[]" None "py_sorted word_key ws"] sorted_by_word_start [of ws]
  by (simp add: split_words_by_speaker_def py_sorted_def)

section \<open>Short parts\<close>

lemma part_words_combine [simp]:
  "part_words (combine_parts t s b) = (if b then part_words t @ part_words s else part_words s @ part_words t)"
  by (auto simp: combine_parts_def part_words_def Let_def)

lemma combine_speaker [simp]: "p_speaker (combine_parts t s b) = p_speaker t"
  by (simp add: combine_parts_def Let_def)

lemma absorb_part_cases:
  assumes "i < length ps" and "merge_target ps i = Some k"
  obtains as bs t s where "ps = as @ [t, s] @ bs" "absorb_part ps i k = as @ [combine_parts t s True] @ bs"
    | as bs t s where "ps = as @ [s, t] @ bs" "absorb_part ps i k = as @ [combine_parts t s False] @ bs"
proof -
  have k: "k = i - 1 \<and> i > 0 \<or> k = i + 1 \<and> i + 1 < length ps"
    using assms(2) by (auto simp: merge_target_def split: if_splits)
  show thesis
  proof (cases "k < i")
    case True
    then have i: "i = Suc k" using k by auto
    have "ps = take k ps @ [ps ! k, ps ! i] @ drop (Suc i) ps"
      using assms(1) i by (metis Cons_nth_drop_Suc Suc_lessD append_Cons append_Nil append_take_drop_id)
    moreover have "absorb_part ps i k = take k ps @ [combine_parts (ps ! k) (ps ! i) True] @ drop (Suc i) ps"
      using assms(1) i by (simp add: absorb_part_def Let_def take_Suc_conv_app_nth)
    ultimately show thesis by (rule that(1))
  next
    case False
    then have i: "k = Suc i" "k < length ps" using k by auto
    have "ps = take i ps @ [ps ! i, ps ! k] @ drop (Suc k) ps"
      using i by (metis Cons_nth_drop_Suc Suc_lessD append_Cons append_Nil append_take_drop_id)
    moreover have "absorb_part ps i k = take i ps @ [combine_parts (ps ! k) (ps ! i) False] @ drop (Suc k) ps"
      using i by (simp add: absorb_part_def Let_def drop_update_swap Cons_nth_drop_Suc [symmetric])
    ultimately show thesis by (rule that(2))
  qed
qed

lemma absorb_part_facts:
  assumes "i < length ps" and "merge_target ps i = Some k"
  shows "all_words (absorb_part ps i k) = all_words ps"
    and "p_speaker ` set (absorb_part ps i k) \<subseteq> p_speaker ` set ps"
    and "absorb_part ps i k \<noteq> []"
  by (rule absorb_part_cases [OF assms]; auto)+

lemma first_short_target: "first_short m ps = Some i \<Longrightarrow> \<exists>k. merge_target ps i = Some k"
  by (auto simp: first_short_def find_Some_iff)

lemma merge_short_loop_facts:
  "all_words (merge_short_loop m ps) = all_words ps
   \<and> p_speaker ` set (merge_short_loop m ps) \<subseteq> p_speaker ` set ps
   \<and> (ps \<noteq> [] \<longrightarrow> merge_short_loop m ps \<noteq> [])
   \<and> first_short m (merge_short_loop m ps) = None"
proof (induction m ps rule: merge_short_loop.induct)
  case (1 m ps)
  show ?case
  proof (cases "first_short m ps")
    case None
    then show ?thesis by (simp add: merge_short_loop.simps [of m ps])
  next
    case (Some i)
    obtain k where k: "merge_target ps i = Some k" using first_short_target [OF Some] by blast
    note facts = absorb_part_facts [OF first_short_less [OF Some] k]
    have step: "merge_short_loop m ps = merge_short_loop m (absorb_part ps i k)"
      using Some k by (simp add: merge_short_loop.simps [of m ps])
    have IH: "all_words (merge_short_loop m (absorb_part ps i k)) = all_words (absorb_part ps i k)
        \<and> p_speaker ` set (merge_short_loop m (absorb_part ps i k)) \<subseteq> p_speaker ` set (absorb_part ps i k)
        \<and> (absorb_part ps i k \<noteq> [] \<longrightarrow> merge_short_loop m (absorb_part ps i k) \<noteq> [])
        \<and> first_short m (merge_short_loop m (absorb_part ps i k)) = None"
      using 1 [OF Some] k by simp
    show ?thesis unfolding step using IH facts by (metis subset_trans)
  qed
qed

lemma no_short_left:
  assumes "first_short m ps = None" and "1 < length ps" and "p \<in> set ps"
  shows "m \<le> part_word_count p"
proof -
  obtain i where i: "i < length ps" "p = ps ! i" using assms(3) by (auto simp: in_set_conv_nth)
  then have "merge_target ps i \<noteq> None" using assms(2) by (auto simp: merge_target_def)
  moreover have "\<not> (part_word_count (ps ! i) < m \<and> merge_target ps i \<noteq> None)"
    using assms(1) i(1) by (auto simp: first_short_def find_None_iff)
  ultimately show ?thesis using i(2) by auto
qed

lemma merge_short_splits_facts:
  "all_words (merge_short_splits m ps) = all_words ps
   \<and> p_speaker ` set (merge_short_splits m ps) \<subseteq> p_speaker ` set ps
   \<and> (ps \<noteq> [] \<longrightarrow> merge_short_splits m ps \<noteq> [])
   \<and> (m \<le> 1 \<or> length (merge_short_splits m ps) \<le> 1 \<or> (\<forall>p \<in> set (merge_short_splits m ps). m \<le> part_word_count p))"
proof (cases "length ps \<le> 1 \<or> m \<le> 1")
  case True
  then show ?thesis by (auto simp: merge_short_splits_def)
next
  case False
  have "\<forall>p \<in> set (merge_short_loop m ps). m \<le> part_word_count p" if "\<not> length (merge_short_loop m ps) \<le> 1"
    using no_short_left [of m "merge_short_loop m ps"] merge_short_loop_facts [of m ps] that by simp
  then show ?thesis using merge_short_loop_facts [of m ps] False by (auto simp: merge_short_splits_def)
qed

section \<open>Text without words\<close>

lemma advance_window_bounds: "k < length ws \<Longrightarrow> k \<le> advance_window mid ws k \<and> advance_window mid ws k < length ws"
proof (induction mid ws k rule: advance_window.induct)
  case (1 mid ws k)
  show ?case
  proof (cases "k < length ws - 1 \<and> mid \<ge> fst (snd (ws ! k))")
    case True
    then have "Suc k < length ws" by auto
    then show ?thesis using 1(1) [OF True] True by (simp add: advance_window.simps [of mid ws k])
  next
    case False
    then show ?thesis using 1(2) by (simp only: advance_window.simps [of mid ws k] if_not_P [OF False]) simp
  qed
qed

lemma concat_extend:
  assumes "k < length bs" and "\<forall>j. k < j \<and> j < length bs \<longrightarrow> bs ! j = []"
  shows "concat (bs[k := bs ! k @ [t]]) = concat bs @ [t]"
proof -
  have tail: "concat (drop (Suc k) bs) = []" using assms(2) by (auto simp: in_set_conv_nth)
  have "concat bs = concat (take k bs @ bs ! k # drop (Suc k) bs)"
    using id_take_nth_drop [OF assms(1)] by simp
  then have "concat bs = concat (take k bs) @ bs ! k" using tail by simp
  moreover have "concat (bs[k := bs ! k @ [t]]) = concat (take k bs) @ bs ! k @ [t]"
    unfolding upd_conv_take_nth_drop [OF assms(1)] using tail by simp
  ultimately show ?thesis by simp
qed

lemma fill_buckets_concat:
  assumes "k < length ws" and "length bs = length ws" and "\<forall>j. k < j \<and> j < length bs \<longrightarrow> bs ! j = []"
  shows "concat (fill_buckets s dur ws n i k bs ts) = concat bs @ ts
    \<and> length (fill_buckets s dur ws n i k bs ts) = length ws"
  using assms
proof (induction ts arbitrary: i k bs)
  case (Cons t ts)
  let ?k = "advance_window (s + dur * ((of_nat i + 1/2) / of_nat n)) ws k"
  let ?bs = "bs[?k := bs ! ?k @ [t]]"
  have k: "k \<le> ?k" "?k < length ws" using advance_window_bounds [OF Cons.prems(1)] by auto
  have "concat ?bs = concat bs @ [t]" using concat_extend [of ?k bs t] k Cons.prems(2,3) by simp
  moreover have "\<forall>j. ?k < j \<and> j < length ?bs \<longrightarrow> ?bs ! j = []" using k Cons.prems(3) by simp
  ultimately show ?case using Cons.IH [of ?k ?bs "Suc i"] k(2) Cons.prems(2) by (simp add: Let_def)
qed simp

text \<open>Spreading a text over windows gives one text per window and loses, adds or reorders no token.\<close>

lemma split_text_tokens:
  assumes "ws \<noteq> []"
  shows "length (split_text_across_windows text s e ws) = length ws
    \<and> concat (map py_split (split_text_across_windows text s e ws)) = py_split text"
proof -
  let ?ts = "py_split text" and ?n = "length (py_split text)"
  have tok: "\<forall>t \<in> set ?ts. token t" using py_split_tokens by blast
  have empty: "py_split [] = []" by (simp add: py_split_def)
  have zeros: "concat (map py_split (replicate m [])) = []" for m by (induction m) (simp_all add: empty)
  let ?bs = "fill_buckets s (e - s) ws ?n 0 0 (replicate (length ws) []) ?ts"
  have fill: "concat ?bs = ?ts \<and> length ?bs = length ws"
    using fill_buckets_concat [of 0 ws "replicate (length ws) []" s "e - s" ?n 0 ?ts] assms by simp
  have "map py_split (map (str_join '' '') ?bs) = ?bs"
  proof -
    have "py_split (str_join '' '' b) = b" if "b \<in> set ?bs" for b
      using that fill tok by (intro py_split_join) (metis UN_I set_concat)
    then show ?thesis by (simp add: map_idI)
  qed
  then have spread: "concat (map py_split (map (str_join '' '') ?bs)) = ?ts" using fill by simp
  show ?thesis
    using assms spread fill py_split_join [OF tok]
    by (auto simp: split_text_across_windows_def Let_def zeros empty)
qed

section \<open>One segment\<close>

lemma push_window_facts:
  assumes "partitions s a acc" and "a < b" and "\<forall>w \<in> set acc. snd (snd w) \<in> S" and "sp \<in> S"
  shows "partitions s b (push_window acc (a, b, sp)) \<and> push_window acc (a, b, sp) \<noteq> []
    \<and> (\<forall>w \<in> set (push_window acc (a, b, sp)). snd (snd w) \<in> S)"
proof (cases acc rule: rev_exhaust)
  case (snoc us w)
  obtain c d q where w: "w = (c, d, q)" by (cases w)
  have "partitions s b ((us @ [(c, d, q)]) @ [(a, b, sp)])"
    using assms(1,2) unfolding snoc w partitions_snoc by simp
  then show ?thesis using assms by (auto simp: snoc w push_window_def partitions_snoc)
qed (use assms in \<open>simp add: push_window_def\<close>)

definition turn_speakers :: "speaker_turn list \<Rightarrow> string option set" where
  "turn_speakers turns = Some ` turn_speaker ` set turns"

lemma nearest_speaker: "turns \<noteq> [] \<Longrightarrow> find_nearest_turn_speaker m turns \<in> turn_speakers turns"
  using find_nearest_turn_speaker_min [of turns m]
  by (auto simp: turn_speakers_def split: option.splits)

lemma overlap_speaker: "find_speaker_by_overlap s e turns = Some sp \<Longrightarrow> Some sp \<in> turn_speakers turns"
  using find_speaker_by_overlap_max [of turns s e] by (auto simp: turn_speakers_def)

lemma start_speaker: "find_start_turn_speaker m turns = Some sp \<Longrightarrow> Some sp \<in> turn_speakers turns"
  by (auto simp: find_start_turn_speaker_def turn_speakers_def dest: find_SomeD)

lemma assigned_speaker:
  assumes "turns \<noteq> []" and "w_start w \<le> w_end w"
  shows "assign_speaker_to_word w turns \<in> turn_speakers turns"
proof -
  have "overlap_or_nearest w turns \<in> turn_speakers turns"
    using overlap_speaker nearest_speaker [OF assms(1)] by (auto simp: overlap_or_nearest_def split: option.split)
  then show ?thesis
    using assms nearest_speaker [OF assms(1)] start_speaker
    by (auto simp: assign_speaker_to_word_def split: option.split)
qed

lemma resolve_windows_ok:
  assumes "partitions s a acc" and "partitions a e ws" and "turns \<noteq> []"
    and "\<forall>w \<in> set acc. snd (snd w) \<in> turn_speakers turns"
    and "\<forall>w \<in> set ws. snd (snd w) = None \<or> snd (snd w) \<in> turn_speakers turns" and "acc \<noteq> [] \<or> ws \<noteq> []"
  shows "partitions s e (resolve_windows turns acc ws) \<and> resolve_windows turns acc ws \<noteq> []
    \<and> (\<forall>w \<in> set (resolve_windows turns acc ws). snd (snd w) \<in> turn_speakers turns)"
  using assms
proof (induction turns acc ws arbitrary: a rule: resolve_windows.induct)
  case (1 turns acc)
  then show ?case by simp
next
  case (2 turns acc c b sp ws)
  let ?sp = "case sp of Some x \<Rightarrow> Some x | None \<Rightarrow> find_nearest_turn_speaker ((c + b) / 2) turns"
  have c: "c = a" "a < b" "partitions b e ws" using "2.prems"(2) by simp_all
  have "?sp \<in> turn_speakers turns"
    using nearest_speaker [OF "2.prems"(3)] "2.prems"(5) by (cases sp) auto
  then have "partitions s b (push_window acc (c, b, ?sp)) \<and> push_window acc (c, b, ?sp) \<noteq> []
      \<and> (\<forall>w \<in> set (push_window acc (c, b, ?sp)). snd (snd w) \<in> turn_speakers turns)"
    unfolding c(1) by (rule push_window_facts [OF "2.prems"(1) c(2) "2.prems"(4)])
  then show ?case using "2.IH" [OF _ c(3) "2.prems"(3)] "2.prems"(5) by simp
qed

definition part_window :: "part \<Rightarrow> window" where
  "part_window p = (p_start p, p_end p, p_speaker p)"

lemma window_parts_facts:
  assumes "length ts = length ws"
  shows "map part_window (window_parts ws ts) = ws" "map p_text (window_parts ws ts) = ts"
    "all_words (window_parts ws ts) = []" "length (window_parts ws ts) = length ws"
proof -
  have "map part_window (window_parts ws ts) = map fst (zip ws ts)"
    by (auto simp: window_parts_def part_window_def)
  then show "map part_window (window_parts ws ts) = ws" using assms by simp
  have "map p_text (window_parts ws ts) = map snd (zip ws ts)" by (auto simp: window_parts_def)
  then show "map p_text (window_parts ws ts) = ts" using assms by simp
  show "all_words (window_parts ws ts) = []" by (auto simp: all_words_def window_parts_def part_words_def)
  show "length (window_parts ws ts) = length ws" using assms by (simp add: window_parts_def)
qed

text \<open>The two ways a segment of several windows is cut.\<close>

definition cut_by_words :: "timed_word list \<Rightarrow> speaker_turn list \<Rightarrow> part list" where
  "cut_by_words l turns = merge_short_splits MIN_SEGMENT_WORDS (split_words_by_speaker l turns)"

definition cut_by_windows :: "rat \<Rightarrow> rat \<Rightarrow> string \<Rightarrow> speaker_turn list \<Rightarrow> part list" where
  "cut_by_windows s e text turns =
     (let resolved = resolve_windows turns [] (build_speaker_windows s e turns)
      in window_parts resolved (split_text_across_windows text s e resolved))"

lemma cut_by_words_ok:
  assumes "turns \<noteq> []" and "split_words_by_speaker l turns \<noteq> []"
  shows "filter spoken (all_words (cut_by_words l turns)) = filter (\<lambda>w. spoken w \<and> w_start w \<le> w_end w) (py_sorted word_key l)"
    and "\<forall>p \<in> set (cut_by_words l turns). p_speaker p \<in> turn_speakers turns"
    and "length (cut_by_words l turns) \<le> 1 \<or> (\<forall>p \<in> set (cut_by_words l turns). 2 \<le> part_word_count p)"
    and "cut_by_words l turns \<noteq> []"
proof -
  let ?ps = "split_words_by_speaker l turns"
  note ok = merge_short_splits_facts [of MIN_SEGMENT_WORDS ?ps] and split = split_words_by_speaker_lossless [of l turns]
  show "filter spoken (all_words (cut_by_words l turns)) = filter (\<lambda>w. spoken w \<and> w_start w \<le> w_end w) (py_sorted word_key l)"
    using ok split by (simp add: cut_by_words_def)
  have sp: "p_speaker p \<in> turn_speakers turns" if p: "p \<in> set ?ps" for p
  proof -
    have one: "one_speaker turns p" using split p by blast
    then obtain w where "w \<in> set (part_words p)" unfolding one_speaker_def by (meson list.set_sel(1))
    then have "assign_speaker_to_word w turns = p_speaker p" "w_start w \<le> w_end w"
      using one by (simp_all add: one_speaker_def)
    then show ?thesis using assigned_speaker [OF assms(1), of w] by simp
  qed
  show "\<forall>p \<in> set (cut_by_words l turns). p_speaker p \<in> turn_speakers turns"
  proof
    fix p
    assume "p \<in> set (cut_by_words l turns)"
    then have "p_speaker p \<in> p_speaker ` set ?ps"
      using ok unfolding cut_by_words_def by (meson imageI subsetD)
    then obtain q where "q \<in> set ?ps" "p_speaker p = p_speaker q" by (elim imageE)
    then show "p_speaker p \<in> turn_speakers turns" using sp [of q] by simp
  qed
  show "length (cut_by_words l turns) \<le> 1 \<or> (\<forall>p \<in> set (cut_by_words l turns). 2 \<le> part_word_count p)"
    using ok by (auto simp: cut_by_words_def MIN_SEGMENT_WORDS_def)
  show "cut_by_words l turns \<noteq> []" using ok assms(2) by (simp add: cut_by_words_def)
qed

lemma push_window_in: "w \<in> set (push_window acc x) \<Longrightarrow> snd (snd w) = snd (snd x) \<or> w \<in> set acc"
  by (cases x) (auto simp: push_window_def split: if_splits dest: in_set_butlastD)

lemma windows_between_speakers:
  "\<forall>w \<in> set ws. snd (snd w) = None \<or> snd (snd w) \<in> turn_speakers turns \<Longrightarrow>
   \<forall>w \<in> set (windows_between turns ws bs). snd (snd w) = None \<or> snd (snd w) \<in> turn_speakers turns"
proof (induction turns ws bs rule: windows_between.induct)
  case (1 turns ws a b bs)
  let ?ws = "push_window ws (a, b, find_speaker_by_overlap a b turns)"
  have new: "\<forall>w \<in> set ?ws. snd (snd w) = None \<or> snd (snd w) \<in> turn_speakers turns"
  proof
    fix w
    assume "w \<in> set ?ws"
    then have "snd (snd w) = find_speaker_by_overlap a b turns \<or> w \<in> set ws"
      using push_window_in by fastforce
    then show "snd (snd w) = None \<or> snd (snd w) \<in> turn_speakers turns"
      using "1.prems" overlap_speaker [of a b turns] by (cases "find_speaker_by_overlap a b turns") auto
  qed
  show ?case
  proof (cases "b \<le> a")
    case True
    then show ?thesis using "1.IH"(1) "1.prems" by simp
  next
    case False
    then show ?thesis using "1.IH"(2) [OF False new] by simp
  qed
qed simp_all

lemma windows_speakers:
  "\<forall>w \<in> set (build_speaker_windows s e turns). snd (snd w) = None \<or> snd (snd w) \<in> turn_speakers turns"
  using windows_between_speakers [of "[]" turns] by (simp add: build_speaker_windows_def)

lemma cut_by_windows_ok:
  assumes "s < e" and "turns \<noteq> []"
  shows "partitions s e (map part_window (cut_by_windows s e text turns))"
    and "concat (map (py_split \<circ> p_text) (cut_by_windows s e text turns)) = py_split text"
    and "\<forall>p \<in> set (cut_by_windows s e text turns). p_speaker p \<in> turn_speakers turns"
    and "cut_by_windows s e text turns \<noteq> []"
proof -
  let ?ws = "build_speaker_windows s e turns"
  let ?r = "resolve_windows turns [] ?ws"
  have part: "partitions s e ?ws" using speaker_windows_ok [OF assms(1)] by blast
  then have ne: "?ws \<noteq> []" using assms(1) by auto
  have speakers: "\<forall>w \<in> set ?ws. snd (snd w) = None \<or> snd (snd w) \<in> turn_speakers turns"
    by (rule windows_speakers)
  have r: "partitions s e ?r \<and> ?r \<noteq> [] \<and> (\<forall>w \<in> set ?r. snd (snd w) \<in> turn_speakers turns)"
    by (rule resolve_windows_ok [OF _ part assms(2) _ speakers]) (use ne in simp_all)
  then have ne_r: "?r \<noteq> []" by blast
  note texts = split_text_tokens [OF ne_r, of "text" s e]
  note facts = window_parts_facts [OF conjunct1 [OF texts]]
  have cut: "cut_by_windows s e text turns = window_parts ?r (split_text_across_windows text s e ?r)"
    by (simp add: cut_by_windows_def Let_def)
  show "partitions s e (map part_window (cut_by_windows s e text turns))"
    unfolding cut facts(1) using r by blast
  show "concat (map (py_split \<circ> p_text) (cut_by_windows s e text turns)) = py_split text"
    unfolding cut map_map [symmetric] facts(2) using texts by blast
  show "cut_by_windows s e text turns \<noteq> []"
    using facts(4) ne_r unfolding cut by (metis length_0_conv)
  have "part_window p \<in> set ?r" if "p \<in> set (cut_by_windows s e text turns)" for p
    using that facts(1) unfolding cut by (metis image_eqI set_map)
  then show "\<forall>p \<in> set (cut_by_windows s e text turns). p_speaker p \<in> turn_speakers turns"
    using r by (fastforce simp: part_window_def)
qed

lemma segment_cases:
  assumes "s < e" and "turns \<noteq> []"
  obtains sp where "split_segment_by_diarization s e text ws turns = [whole_part s e text sp ws]"
      "sp \<in> insert None (turn_speakers turns)"
  | l where "ws = Some l" "split_words_by_speaker l turns \<noteq> []"
      "split_segment_by_diarization s e text ws turns = cut_by_words l turns"
  | "\<forall>l. ws = Some l \<longrightarrow> split_words_by_speaker l turns = []"
      "split_segment_by_diarization s e text ws turns = cut_by_windows s e text turns"
proof -
  have ne: "build_speaker_windows s e turns \<noteq> []"
    using speaker_windows_ok [OF assms(1), of turns] assms(1) by auto
  show thesis
  proof (cases "length (build_speaker_windows s e turns) = 1")
    case True
    then have "hd (build_speaker_windows s e turns) \<in> set (build_speaker_windows s e turns)" using ne by simp
    then have "snd (snd (hd (build_speaker_windows s e turns))) \<in> insert None (turn_speakers turns)"
      using windows_speakers [of s e turns] by blast
    then show thesis using that(1) True assms ne by (simp add: split_segment_by_diarization_def Let_def)
  next
    case False
    then show thesis
      using that(2,3) cut_by_windows_ok(4) [OF assms] assms ne
      by (cases ws) (auto simp: split_segment_by_diarization_def cut_by_windows_def cut_by_words_def Let_def)
  qed
qed

text \<open>Whatever way a segment takes, words that have text and do not end before they start stay.\<close>

definition timed :: "timed_word \<Rightarrow> bool" where
  "timed w \<longleftrightarrow> spoken w \<and> w_start w \<le> w_end w"

lemma filter_timed_spoken: "filter timed (filter spoken ws) = filter timed ws"
  by (simp add: timed_def [abs_def] conj_commute cong: conj_cong)

lemma cut_by_windows_no_words: "all_words (cut_by_windows s e text turns) = []"
  unfolding cut_by_windows_def Let_def by (auto simp: all_words_def window_parts_def part_words_def)

lemma uncut_words_timed:
  assumes "split_words_by_speaker l turns = []"
  shows "filter timed l = []"
proof -
  have "filter timed (py_sorted word_key l) = []"
    using split_words_by_speaker_lossless [of l turns] assms by (simp add: timed_def [abs_def])
  then show ?thesis by (simp add: filter_empty_conv)
qed

lemma cut_words_timed:
  assumes "turns \<noteq> []" and "split_words_by_speaker l turns \<noteq> []"
  shows "filter timed (all_words (cut_by_words l turns)) = filter timed (py_sorted word_key l)"
proof -
  have "filter timed (all_words (cut_by_words l turns)) = filter timed (filter spoken (all_words (cut_by_words l turns)))"
    by (simp only: filter_timed_spoken)
  also have "\<dots> = filter timed (py_sorted word_key l)"
    unfolding cut_by_words_ok(1) [OF assms] by (simp add: timed_def [abs_def] conj_commute cong: conj_cong)
  finally show ?thesis .
qed

lemma mset_filter_sorted: "mset (filter P (py_sorted k l)) = mset (filter P l)"
  by (simp add: py_sorted_def)

lemma segment_words_kept:
  "mset (filter timed (all_words (split_segment_by_diarization s e text ws turns)))
   = mset (filter timed (case ws of None \<Rightarrow> [] | Some l \<Rightarrow> l))"
proof (cases "s < e \<and> turns \<noteq> []")
  case False
  then show ?thesis
    by (auto simp: split_segment_by_diarization_def build_speaker_windows_def whole_part_def part_words_def Let_def)
next
  case True
  show ?thesis
  proof (rule segment_cases [OF conjunct1 [OF True] conjunct2 [OF True], of "text" ws])
    fix l
    assume "ws = Some l" and ne: "split_words_by_speaker l turns \<noteq> []"
      and "split_segment_by_diarization s e text ws turns = cut_by_words l turns"
    then show ?thesis using cut_words_timed [OF conjunct2 [OF True] ne] mset_filter_sorted by simp
  next
    assume none: "\<forall>l. ws = Some l \<longrightarrow> split_words_by_speaker l turns = []"
      and "split_segment_by_diarization s e text ws turns = cut_by_windows s e text turns"
    then show ?thesis using uncut_words_timed by (cases ws) (simp_all add: cut_by_windows_no_words)
  qed (simp add: whole_part_def part_words_def)
qed

text \<open>Cutting a segment by speaker loses nothing and blames nobody else. At least one part comes out; when
  several do, each has the speaker of a diarization turn. A segment without words keeps all its tokens in order
  and its parts partition its time span; one with words keeps every word that has text and does not end before
  it starts, in order of time when it is cut, and parts cut by words have at least two words or are alone.\<close>

lemma split_segment_by_diarization_ok:
  fixes body :: string and ws :: "timed_word list option"
  assumes "s < e" and "turns \<noteq> []"
  defines "ps \<equiv> split_segment_by_diarization s e body ws turns"
  shows "ps \<noteq> []
    \<and> (1 < length ps \<longrightarrow> (\<forall>p \<in> set ps. p_speaker p \<in> turn_speakers turns))
    \<and> (ws = None \<longrightarrow> partitions s e (map part_window ps) \<and> concat (map (py_split \<circ> p_text) ps) = py_split body)
    \<and> (\<forall>l. ws = Some l \<longrightarrow> mset (filter timed (all_words ps)) = mset (filter timed l)
        \<and> (1 < length ps \<longrightarrow> filter timed (all_words ps) = filter timed (py_sorted word_key l)
             \<and> (filter timed l \<noteq> [] \<longrightarrow> (\<forall>p \<in> set ps. 2 \<le> part_word_count p))))"
proof (rule segment_cases [OF assms(1,2), of body ws])
  fix sp
  assume "split_segment_by_diarization s e body ws turns = [whole_part s e body sp ws]"
  then have "ps = [whole_part s e body sp ws]" by (simp add: ps_def)
  then show ?thesis using assms(1) by (auto simp: whole_part_def part_window_def part_words_def)
next
  fix l
  assume l: "ws = Some l" "split_words_by_speaker l turns \<noteq> []"
    and "split_segment_by_diarization s e body ws turns = cut_by_words l turns"
  then have ps: "ps = cut_by_words l turns" by (simp add: ps_def)
  note ok = cut_by_words_ok [OF assms(2) l(2)]
  have many: "1 < length ps \<longrightarrow> (\<forall>p \<in> set ps. 2 \<le> part_word_count p)" using ok(3) unfolding ps by linarith
  have kept: "mset (filter timed (all_words ps)) = mset (filter timed l)"
    using segment_words_kept [of s e body ws turns] l(1) by (simp add: ps_def)
  show ?thesis using ok(2,4) l(1) cut_words_timed [OF assms(2) l(2)] kept many unfolding ps by blast
next
  assume none: "\<forall>l. ws = Some l \<longrightarrow> split_words_by_speaker l turns = []"
    and "split_segment_by_diarization s e body ws turns = cut_by_windows s e body turns"
  then have ps: "ps = cut_by_windows s e body turns" by (simp add: ps_def)
  have gone: "filter timed l = []" if "ws = Some l" for l
    using uncut_words_timed none that by blast
  then have "filter timed (py_sorted word_key l) = []" if "ws = Some l" for l
    using that by (simp add: filter_empty_conv)
  then show ?thesis
    using cut_by_windows_ok [OF assms(1,2), of body] gone by (simp add: ps cut_by_windows_no_words)
qed

lemma split_segment_by_diarization_ok_example:
  "concat (map (py_split \<circ> p_text) (split_segment_by_diarization 0 4 ''so it goes on'' None
     [\<lparr>turn_speaker = ''A'', turn_start = 0, turn_end = 2, turn_confidence = None, turn_overlapping = None\<rparr>,
      \<lparr>turn_speaker = ''B'', turn_start = 2, turn_end = 4, turn_confidence = None, turn_overlapping = None\<rparr>]))
   = py_split ''so it goes on''"
  using split_segment_by_diarization_ok [of 0 4
     "[\<lparr>turn_speaker = ''A'', turn_start = 0, turn_end = 2, turn_confidence = None, turn_overlapping = None\<rparr>,
      \<lparr>turn_speaker = ''B'', turn_start = 2, turn_end = 4, turn_confidence = None, turn_overlapping = None\<rparr>]"
     "''so it goes on''" None] by simp

text \<open>Absorbing short parts ends on every list of parts, with parts of at least the minimum number of words
  each unless a single part remains; it loses, adds and reorders no word and makes up no speaker.\<close>

lemma merge_short_splits_ok:
  "all_words (merge_short_splits m ps) = all_words ps
   \<and> p_speaker ` set (merge_short_splits m ps) \<subseteq> p_speaker ` set ps
   \<and> (m \<le> 1 \<or> length (merge_short_splits m ps) \<le> 1 \<or> (\<forall>p \<in> set (merge_short_splits m ps). m \<le> part_word_count p))"
  using merge_short_splits_facts [of m ps] by simp

definition demo_parts :: "part list" where
  "demo_parts = [\<lparr>p_start = 0, p_end = 1, p_text = ''well'', p_speaker = Some ''A'', p_words = None\<rparr>,
     \<lparr>p_start = 1, p_end = 3, p_text = ''that is it'', p_speaker = Some ''B'', p_words = None\<rparr>]"

lemma merge_short_splits_ok_example:
  "all_words (merge_short_splits 2 demo_parts) = all_words demo_parts
   \<and> (length (merge_short_splits 2 demo_parts) \<le> 1 \<or> (\<forall>p \<in> set (merge_short_splits 2 demo_parts). 2 \<le> part_word_count p))"
  using merge_short_splits_ok [of 2 demo_parts] by simp

end
