(* ===== verification/AssemblyProps.thy ===== *)
theory AssemblyProps
  imports Assembly SplitProps
begin

text \<open>
  What the assembled transcript guarantees: numbered segments, no word of the sources lost,
  channels interleaved by time, and a report of untranscribed speech that is sound and
  complete up to the smallest gap it looks at.
\<close>

section \<open>Missed speech\<close>

fun apart :: "(rat \<times> rat) list \<Rightarrow> bool" where
  "apart ((a, b) # (c, d) # xs) \<longleftrightarrow> b < c \<and> apart ((c, d) # xs)"
| "apart _ \<longleftrightarrow> True"

definition proper :: "(rat \<times> rat) list \<Rightarrow> bool" where
  "proper xs \<longleftrightarrow> (\<forall>(a, b) \<in> set xs. a \<le> b)"

lemma proper_simps [simp]: "proper []" "proper ((a, b) # xs) \<longleftrightarrow> a \<le> b \<and> proper xs"
  by (simp_all add: proper_def)

lemma apart_later:
  "apart ((a, b) # xs) \<Longrightarrow> proper ((a, b) # xs) \<Longrightarrow> (c, d) \<in> set xs \<Longrightarrow> b < c"
proof (induction xs arbitrary: a b)
  case (Cons x xs)
  obtain a' b' where x: "x = (a', b')" by (cases x)
  show ?case
  proof (cases "(c, d) = x")
    case True
    then show ?thesis using Cons.prems(1) x by simp
  next
    case False
    then have "b' < c" using Cons.IH [of a' b'] Cons.prems x by auto
    then show ?thesis using Cons.prems(1,2) x by auto
  qed
qed simp

lemma merge_spans_hd: "\<exists>b' ys. merge_spans (a, b) xs = (a, b') # ys"
  by (induction "(a, b)" xs arbitrary: b rule: merge_spans.induct) auto

lemma merge_spans_ok:
  "sorted (map fst ((a, b) # xs)) \<Longrightarrow> proper ((a, b) # xs) \<Longrightarrow>
   apart (merge_spans (a, b) xs) \<and> proper (merge_spans (a, b) xs)"
proof (induction "(a, b)" xs arbitrary: a b rule: merge_spans.induct)
  case (2 a b c d xs)
  show ?case
  proof (cases "c \<le> b")
    case True
    then show ?thesis using 2 by auto
  next
    case False
    obtain e ys where "merge_spans (c, d) xs = (c, e) # ys" using merge_spans_hd by blast
    then show ?thesis using 2 False by auto
  qed
qed simp

lemma merge_spans_top: "\<exists>(u, v) \<in> set (merge_spans (a, b) xs). u \<le> a \<and> b \<le> v"
proof (induction "(a, b)" xs arbitrary: a b rule: merge_spans.induct)
  case (2 a b c d xs)
  show ?case
  proof (cases "c \<le> b")
    case True
    then show ?thesis using "2.hyps"(1) [OF True] by auto
  next
    case False
    then show ?thesis by auto
  qed
qed simp

lemma merge_spans_contain:
  "sorted (map fst ((a, b) # xs)) \<Longrightarrow> (c, d) \<in> set ((a, b) # xs) \<Longrightarrow>
   \<exists>(u, v) \<in> set (merge_spans (a, b) xs). u \<le> c \<and> d \<le> v"
proof (induction "(a, b)" xs arbitrary: a b rule: merge_spans.induct)
  case (2 a b c' d' xs)
  show ?case
  proof (cases "c' \<le> b")
    case True
    have top: "\<exists>(u, v) \<in> set (merge_spans (a, max b d') xs). u \<le> a \<and> max b d' \<le> v"
      by (rule merge_spans_top)
    have "a \<le> c'" using "2.prems"(1) by simp
    consider "(c, d) = (a, b) \<or> (c, d) = (c', d')" | "(c, d) \<in> set xs" using "2.prems"(2) by auto
    then have "\<exists>(u, v) \<in> set (merge_spans (a, max b d') xs). u \<le> c \<and> d \<le> v"
    proof cases
      case 1
      then have "a \<le> c" "d \<le> max b d'" using \<open>a \<le> c'\<close> by auto
      then show ?thesis using top by (metis (mono_tags, lifting) case_prodE case_prodI2 case_prod_conv order_trans)
    next
      case 2
      then show ?thesis using "2.hyps"(1) [OF True] "2.prems"(1) by simp
    qed
    then show ?thesis using True by simp
  next
    case False
    then show ?thesis using "2.hyps"(2) [OF False] "2.prems" by auto
  qed
qed simp

lemma merge_spans_avoid:
  assumes "x \<le> y" and "\<forall>(c, d) \<in> set ((a, b) # xs). d < x \<or> y < c" and "sorted (map fst ((a, b) # xs))"
  shows "\<forall>(c, d) \<in> set (merge_spans (a, b) xs). d < x \<or> y < c"
  using assms(2,3)
proof (induction "(a, b)" xs arbitrary: a b rule: merge_spans.induct)
  case (2 a b c d xs)
  show ?case
  proof (cases "c \<le> b")
    case True
    have "max b d < x \<or> y < a" using "2.prems" True assms(1) by auto
    then show ?thesis using "2.hyps"(1) [OF True] "2.prems" True by auto
  next
    case False
    then show ?thesis using "2.hyps"(2) [OF False] "2.prems" by auto
  qed
qed simp

lemma region_gaps_sound:
  "apart xs \<Longrightarrow> proper xs \<Longrightarrow> (u, v) \<in> set (region_gaps c r xs) \<Longrightarrow>
   c \<le> u \<and> v \<le> r \<and> MISSED_SPEECH_MIN_REGION_S \<le> v - u \<and> (\<forall>(a, b) \<in> set xs. b \<le> u \<or> v \<le> a)"
proof (induction c r xs rule: region_gaps.induct)
  case (1 c r)
  then show ?case by (auto simp: last_gap_def split: if_splits)
next
  case (2 c r a b xs)
  have tail: "apart xs" "proper xs" using "2.prems"(1,2) by (cases xs; auto)+
  have later: "b < a'" if "(a', b') \<in> set xs" for a' b' using apart_later "2.prems"(1,2) that by blast
  have ab: "a \<le> b" using "2.prems"(2) by simp
  consider "b \<le> c" | "\<not> b \<le> c" "r \<le> a" | "\<not> b \<le> c" "\<not> r \<le> a" by blast
  then show ?case
  proof cases
    case 1
    then show ?thesis using "2.IH"(1) [OF _ tail] "2.prems"(3) by force
  next
    case 2
    then have uv: "u = c" "v = r" "MISSED_SPEECH_MIN_REGION_S \<le> r - c"
      using "2.prems"(3) by (auto simp: last_gap_def split: if_splits)
    have "r \<le> a'" if "(a', b') \<in> set xs" for a' b' using later [OF that] ab 2 by simp
    then show ?thesis using uv 2 by auto
  next
    case 3
    let ?c = "max c (min b r)"
    consider "(u, v) = (c, min a r)" "c < a" "MISSED_SPEECH_MIN_REGION_S \<le> a - c"
      | "(u, v) \<in> set (if ?c \<ge> r then last_gap ?c r else region_gaps ?c r xs)"
    proof -
      have "region_gaps c r ((a, b) # xs) =
          (if c < a \<and> MISSED_SPEECH_MIN_REGION_S \<le> a - c then [(c, min a r)] else [])
          @ (if ?c \<ge> r then last_gap ?c r else region_gaps ?c r xs)"
        using 3 by (simp add: Let_def)
      then have "(u, v) \<in> set (if c < a \<and> MISSED_SPEECH_MIN_REGION_S \<le> a - c then [(c, min a r)] else [])
          \<or> (u, v) \<in> set (if ?c \<ge> r then last_gap ?c r else region_gaps ?c r xs)"
        using "2.prems"(3) by (metis Un_iff set_append)
      then show thesis
      proof
        assume "(u, v) \<in> set (if c < a \<and> MISSED_SPEECH_MIN_REGION_S \<le> a - c then [(c, min a r)] else [])"
        then have "(u, v) = (c, min a r) \<and> c < a \<and> MISSED_SPEECH_MIN_REGION_S \<le> a - c"
          by (cases "c < a \<and> MISSED_SPEECH_MIN_REGION_S \<le> a - c") simp_all
        then show thesis using that(1) by blast
      qed (rule that(2))
    qed
    then show ?thesis
    proof cases
      case 1
      then have "u = c" "v = a" using 3 by auto
      then show ?thesis using 1 3 later ab by fastforce
    next
      case new: 2
      have pos: "0 < MISSED_SPEECH_MIN_REGION_S" by (simp add: MISSED_SPEECH_MIN_REGION_S_def)
      have lt: "\<not> r \<le> ?c"
      proof
        assume "r \<le> ?c"
        then show False using new pos by (auto simp: last_gap_def split: if_splits)
      qed
      then have "?c = b" using 3 by auto
      moreover have "(u, v) \<in> set (region_gaps ?c r xs)" using new unfolding if_not_P [OF lt] .
      ultimately show ?thesis using "2.IH"(2) [OF _ _ refl refl lt tail] 3 by force
    qed
  qed
qed

lemma region_gaps_complete:
  "c \<le> x \<Longrightarrow> y \<le> r \<Longrightarrow> MISSED_SPEECH_MIN_REGION_S \<le> y - x \<Longrightarrow> \<forall>(a, b) \<in> set xs. b < x \<or> y < a \<Longrightarrow>
   \<exists>(u, v) \<in> set (region_gaps c r xs). u \<le> x \<and> y \<le> v"
proof (induction c r xs rule: region_gaps.induct)
  case (1 c r)
  then show ?case by (auto simp: last_gap_def)
next
  case (2 c r a b xs)
  have xy: "x < y" using "2.prems"(3) by (simp add: MISSED_SPEECH_MIN_REGION_S_def)
  have rest: "\<forall>(a, b) \<in> set xs. b < x \<or> y < a" using "2.prems"(4) by simp
  consider "b \<le> c" | "\<not> b \<le> c" "r \<le> a" | "\<not> b \<le> c" "\<not> r \<le> a" "b < x" | "\<not> b \<le> c" "\<not> r \<le> a" "y < a"
    using "2.prems"(4) by auto
  then show ?case
  proof cases
    case 1
    then show ?thesis using "2.IH"(1) [OF 1 "2.prems"(1-3) rest] by simp
  next
    case 2
    then show ?thesis using "2.prems" by (auto simp: last_gap_def)
  next
    case 3
    let ?c = "max c (min b r)"
    have c: "?c \<le> x" "\<not> r \<le> ?c" using 3 "2.prems"(1,2) xy by auto
    have "\<exists>(u, v) \<in> set (region_gaps ?c r xs). u \<le> x \<and> y \<le> v"
      by (rule "2.IH"(2) [OF 3(1,2) refl refl c(2) c(1) "2.prems"(2,3) rest])
    then show ?thesis using 3 c(2) by (auto simp: Let_def)
  next
    case 4
    then have "c < a" "MISSED_SPEECH_MIN_REGION_S \<le> a - c" using "2.prems"(1,3) xy by auto
    then show ?thesis using 4 "2.prems"(1,2) by (auto simp: Let_def)
  qed
qed

definition sensible :: "merged_segment \<Rightarrow> bool" where
  "sensible s \<longleftrightarrow> m_start s \<le> m_end s \<and> 0 \<le> m_end s"

lemma sorted_lex_fst: "sorted xs \<Longrightarrow> sorted (map fst xs)"
  by (induction xs) (auto simp: less_eq_prod_def)

lemma covered_spans_ok:
  assumes "\<forall>s \<in> set segs. sensible s" and "0 \<le> tol"
  shows "apart (covered_spans tol segs) \<and> proper (covered_spans tol segs)
    \<and> (\<forall>s \<in> set segs. \<exists>(u, v) \<in> set (covered_spans tol segs). u \<le> fst (expand tol s) \<and> snd (expand tol s) \<le> v)
    \<and> (\<forall>x y. x \<le> y \<and> (\<forall>s \<in> set segs. snd (expand tol s) < x \<or> y < fst (expand tol s)) \<longrightarrow>
         (\<forall>(a, b) \<in> set (covered_spans tol segs). b < x \<or> y < a))"
proof (cases "py_sorted (\<lambda>x. x) (map (expand tol) segs)")
  case Nil
  then have "segs = []" by (metis Nil_is_map_conv length_0_conv length_py_sorted)
  then show ?thesis by (simp add: covered_spans_def py_sorted_def)
next
  case (Cons p xs)
  obtain a b where p: "p = (a, b)" by (cases p)
  have set: "set ((a, b) # xs) = expand tol ` set segs" using Cons p by (metis set_map set_py_sorted)
  have spans: "covered_spans tol segs = merge_spans (a, b) xs" using Cons p by (simp add: covered_spans_def)
  have "sorted (map (\<lambda>x. x) (py_sorted (\<lambda>x. x) (map (expand tol) segs)))" by (rule sorted_py_sorted)
  then have "sorted ((a, b) # xs)" using Cons p by simp
  then have srt: "sorted (map fst ((a, b) # xs))" by (rule sorted_lex_fst)
  have prp: "proper ((a, b) # xs)"
    unfolding proper_def set using assms by (auto simp: expand_def sensible_def)
  have "\<exists>(u, v) \<in> set (merge_spans (a, b) xs). u \<le> fst (expand tol s) \<and> snd (expand tol s) \<le> v" if "s \<in> set segs" for s
    using merge_spans_contain [OF srt, of "fst (expand tol s)" "snd (expand tol s)"] that set by auto
  moreover have "\<forall>(c, d) \<in> set (merge_spans (a, b) xs). d < x \<or> y < c"
    if "x \<le> y" "\<forall>s \<in> set segs. snd (expand tol s) < x \<or> y < fst (expand tol s)" for x y
    using that(2) set by (intro merge_spans_avoid [OF that(1) _ srt]) (auto simp: image_iff)
  ultimately show ?thesis using merge_spans_ok [OF srt prp] unfolding spans by blast
qed

text \<open>The report of untranscribed speech is sound and complete: each reported span lies in a detected
  region, lasts at least a quarter of a second and is at least a second away from every transcribed segment; and
  each stretch of a region that long and that far from all segments lies in a reported span.\<close>

lemma compute_missed_speech_exact:
  fixes env :: assembly_env and regions :: "dict list" and segs :: "merged_segment list"
  assumes "\<forall>s \<in> set segs. sensible s"
  defines "missed \<equiv> set (compute_missed_speech env regions segs)"
  shows "(\<forall>(u, v) \<in> missed. MISSED_SPEECH_MIN_REGION_S \<le> v - u
      \<and> (\<exists>r \<in> set regions. \<exists>a b. region_bounds env r = Some (a, b) \<and> a \<le> u \<and> v \<le> b)
      \<and> (\<forall>s \<in> set segs. m_end s + 1 \<le> u \<or> v \<le> max 0 (m_start s - 1)))
    \<and> (\<forall>r \<in> set regions. \<forall>a b x y. region_bounds env r = Some (a, b) \<and> a \<le> x \<and> y \<le> b
        \<and> MISSED_SPEECH_MIN_REGION_S \<le> y - x \<and> (\<forall>s \<in> set segs. m_end s + 1 < x \<or> y < max 0 (m_start s - 1))
        \<longrightarrow> (\<exists>(u, v) \<in> missed. u \<le> x \<and> y \<le> v))"
proof (intro conjI ballI)
  let ?spans = "covered_spans 1 segs"
  have tol: "MISSED_SPEECH_TOLERANCE_S = 1" by (simp add: MISSED_SPEECH_TOLERANCE_S_def)
  note ok = covered_spans_ok [OF assms(1), of 1]
  fix w
  assume "w \<in> missed"
  then obtain r where r: "r \<in> set regions"
      "w \<in> set (case region_bounds env r of None \<Rightarrow> [] | Some (a, b) \<Rightarrow> region_gaps a b ?spans)"
    by (auto simp: missed_def compute_missed_speech_def tol)
  obtain a b where ab: "region_bounds env r = Some (a, b)" using r(2) by (cases "region_bounds env r") auto
  obtain u v where uv: "w = (u, v)" by (cases w)
  note w = uv r(1) ab r(2) [unfolded uv ab option.case prod.case]
  have gap: "a \<le> u \<and> v \<le> b \<and> MISSED_SPEECH_MIN_REGION_S \<le> v - u \<and> (\<forall>(a, b) \<in> set ?spans. b \<le> u \<or> v \<le> a)"
    by (rule region_gaps_sound [OF _ _ w(4)]) (use ok in simp_all)
  have "m_end s + 1 \<le> u \<or> v \<le> max 0 (m_start s - 1)" if s: "s \<in> set segs" for s
  proof -
    obtain p q where "(p, q) \<in> set ?spans" "p \<le> max 0 (m_start s - 1)" "m_end s + 1 \<le> q"
      using ok s by (fastforce simp: expand_def)
    then show ?thesis using gap by fastforce
  qed
  then show "case w of (u, v) \<Rightarrow> MISSED_SPEECH_MIN_REGION_S \<le> v - u
      \<and> (\<exists>r \<in> set regions. \<exists>a b. region_bounds env r = Some (a, b) \<and> a \<le> u \<and> v \<le> b)
      \<and> (\<forall>s \<in> set segs. m_end s + 1 \<le> u \<or> v \<le> max 0 (m_start s - 1))"
    using w gap by blast
next
  let ?spans = "covered_spans 1 segs"
  note ok = covered_spans_ok [OF assms(1), of 1]
  fix r
  assume r: "r \<in> set regions"
  show "\<forall>a b x y. region_bounds env r = Some (a, b) \<and> a \<le> x \<and> y \<le> b
        \<and> MISSED_SPEECH_MIN_REGION_S \<le> y - x \<and> (\<forall>s \<in> set segs. m_end s + 1 < x \<or> y < max 0 (m_start s - 1))
        \<longrightarrow> (\<exists>(u, v) \<in> missed. u \<le> x \<and> y \<le> v)"
  proof (intro allI impI)
    fix a b x y
    assume h: "region_bounds env r = Some (a, b) \<and> a \<le> x \<and> y \<le> b
        \<and> MISSED_SPEECH_MIN_REGION_S \<le> y - x \<and> (\<forall>s \<in> set segs. m_end s + 1 < x \<or> y < max 0 (m_start s - 1))"
    then have "x \<le> y" by (simp add: MISSED_SPEECH_MIN_REGION_S_def)
    then have "\<forall>(a, b) \<in> set ?spans. b < x \<or> y < a" using ok h by (simp add: expand_def)
    then obtain u v where "(u, v) \<in> set (region_gaps a b ?spans)" "u \<le> x" "y \<le> v"
      using region_gaps_complete [of a x y b ?spans] h by blast
    then show "\<exists>(u, v) \<in> missed. u \<le> x \<and> y \<le> v"
      using r h by (force simp: missed_def compute_missed_speech_def MISSED_SPEECH_TOLERANCE_S_def)
  qed
qed

definition demo_decoder :: decoder_fields where
  "demo_decoder = metadata_decoder []"

definition demo_segment :: merged_segment where
  "demo_segment = \<lparr>m_id = segment_id 0, m_start = 0, m_end = 1, m_text = ''hello'', m_speaker = None,
     m_language = None, m_words = None, m_decoder = demo_decoder\<rparr>"

definition demo_assembly :: assembly_env where
  "demo_assembly =
     \<lparr>parse_transcript = \<lambda>_. Inr \<lparr>tr_segments =
          [\<lparr>ts_start = 0, ts_end = 2, ts_text = ''hello there'',
            ts_words = Some [ATWord \<lparr>tw_text = ''hello'', tw_start = 0, tw_end = 1, tw_confidence = None,
                               tw_method = ''unknown'', tw_language = None, tw_characters = PNone,
                               tw_phonemes = PNone, tw_metadata = []\<rparr>],
            ts_language = None, ts_confidence = None, ts_metadata = []\<rparr>], tr_warnings = []\<rparr>,
      parse_align = \<lambda>_. None, parse_diarize = \<lambda>_. None, parse_turn = \<lambda>_. None,
      parse_word = \<lambda>_. None, parse_language = \<lambda>_. None, check_segment = Inr, check_response = Inr,
      float_of_str = \<lambda>_. None, round3 = Inr, now_text = ''now''\<rparr>"

lemma compute_missed_speech_exact_example:
  "\<exists>(u, v) \<in> set (compute_missed_speech demo_assembly [[(''start'', PInt 0), (''end'', PInt 10)]] [demo_segment]).
     u \<le> 3 \<and> 9 \<le> v"
proof -
  have "\<forall>s \<in> set [demo_segment]. sensible s" by (simp add: sensible_def demo_segment_def)
  note exact = compute_missed_speech_exact [OF this, of demo_assembly "[[(''start'', PInt 0), (''end'', PInt 10)]]", THEN conjunct2]
  have "region_bounds demo_assembly [(''start'', PInt 0), (''end'', PInt 10)] = Some (0, 10)"
    by (simp add: region_bounds_def py_float_def dget_or_def)
  then show ?thesis
    using exact by (force simp: demo_segment_def MISSED_SPEECH_MIN_REGION_S_def)
qed

section \<open>Merged segments\<close>

text \<open>What checking a response keeps of a segment: everything but the decoder fields it may coerce.\<close>

definition shape :: "merged_segment \<Rightarrow> string \<times> rat \<times> rat \<times> string \<times> string option \<times> timed_word list option" where
  "shape s = (m_id s, m_start s, m_end s, m_text s, m_speaker s, m_words s)"

definition check_keeps :: "assembly_env \<Rightarrow> bool" where
  "check_keeps env \<longleftrightarrow> (\<forall>s s'. check_segment env s = Inr s' \<longrightarrow> shape s' = shape s)
     \<and> (\<forall>r r'. check_response env r = Inr r' \<longrightarrow> map shape (r_segments r') = map shape (r_segments r)
          \<and> r_speakers r' = r_speakers r)"

lemma check_keepsD:
  assumes "check_keeps env"
  shows "check_segment env s = Inr s' \<Longrightarrow> shape s' = shape s"
    and "check_response env r = Inr r' \<Longrightarrow> map shape (r_segments r') = map shape (r_segments r)"
    and "check_response env r = Inr r' \<Longrightarrow> r_speakers r' = r_speakers r"
  using assms by (simp_all add: check_keeps_def)

definition opt_words :: "timed_word list option \<Rightarrow> timed_word list" where
  "opt_words ws = (case ws of None \<Rightarrow> [] | Some l \<Rightarrow> l)"

definition shape_words :: "string \<times> rat \<times> rat \<times> string \<times> string option \<times> timed_word list option \<Rightarrow> timed_word list" where
  "shape_words s = opt_words (snd (snd (snd (snd (snd s)))))"

definition merged_words :: "merged_segment list \<Rightarrow> timed_word list" where
  "merged_words segs = concat (map (\<lambda>s. opt_words (m_words s)) segs)"

definition source_words :: "assembly_env \<Rightarrow> any_segment list \<Rightarrow> timed_word list" where
  "source_words env src = concat (map (\<lambda>s. opt_words (f_words (extract_segment_fields env s))) src)"

definition numbered :: "merged_segment list \<Rightarrow> bool" where
  "numbered segs \<longleftrightarrow> map m_id segs = map segment_id [0..<length segs]"

lemma shape_facts:
  assumes "map shape xs = map shape ys"
  shows "map m_id xs = map m_id ys" "map m_start xs = map m_start ys" "map m_speaker xs = map m_speaker ys"
    "merged_words xs = merged_words ys" "length xs = length ys"
proof -
  show "map m_id xs = map m_id ys" "map m_start xs = map m_start ys" "map m_speaker xs = map m_speaker ys"
    using arg_cong [OF assms, of "map fst"] arg_cong [OF assms, of "map (fst \<circ> snd)"]
      arg_cong [OF assms, of "map (fst \<circ> snd \<circ> snd \<circ> snd \<circ> snd)"]
    by (simp_all add: comp_def shape_def)
  have "concat (map shape_words (map shape xs)) = concat (map shape_words (map shape ys))" using assms by simp
  then show "merged_words xs = merged_words ys"
    by (simp add: merged_words_def shape_words_def shape_def comp_def)
  show "length xs = length ys" using assms by (metis length_map)
qed

lemma shape_speaker_words:
  assumes "map shape xs = map shape ys"
  shows "merged_words (filter (\<lambda>s. m_speaker s = k) xs) = merged_words (filter (\<lambda>s. m_speaker s = k) ys)"
proof -
  have "merged_words (filter (\<lambda>s. m_speaker s = k) zs)
      = concat (map shape_words (filter (\<lambda>q. fst (snd (snd (snd (snd q)))) = k) (map shape zs)))" for zs
    by (simp add: merged_words_def filter_map comp_def shape_words_def shape_def)
  then show ?thesis using assms by simp
qed

definition parts_of :: "assembly_env \<Rightarrow> speaker_turn list \<Rightarrow> any_segment \<Rightarrow> part list" where
  "parts_of env turns s =
     (let f = extract_segment_fields env s
      in split_segment_by_diarization (f_start f) (f_end f) (f_text f) (f_words f) turns)"

lemma numbered_snoc: "numbered segs \<Longrightarrow> m_id s = segment_id (length segs) \<Longrightarrow> numbered (segs @ [s])"
  by (simp add: numbered_def)

lemma merged_words_append [simp]: "merged_words (xs @ ys) = merged_words xs @ merged_words ys"
  by (simp add: merged_words_def)

lemma add_parts_facts:
  assumes "check_keeps env" and "add_parts env word_ts f segs ps = Inr out" and "numbered segs"
  shows "numbered out \<and> merged_words out = merged_words segs @ (if word_ts then all_words ps else [])
    \<and> m_speaker ` set out = m_speaker ` set segs \<union> p_speaker ` set ps"
  using assms(2,3)
proof (induction ps arbitrary: segs)
  case (Cons p ps)
  obtain s where s: "check_segment env (merged_of_part word_ts f (length segs) p) = Inr s"
      "add_parts env word_ts f (segs @ [s]) ps = Inr out"
    using Cons.prems(1) by (auto simp: res_simps)
  have sh: "shape s = shape (merged_of_part word_ts f (length segs) p)" by (rule check_keepsD(1) [OF assms(1) s(1)])
  then have "m_id s = segment_id (length segs)" "m_speaker s = p_speaker p"
      "merged_words [s] = (if word_ts then part_words p else [])"
    by (auto simp: shape_def merged_of_part_def merged_words_def opt_words_def split: option.split)
  then show ?case using Cons.IH [OF s(2) numbered_snoc] Cons.prems(2) by auto
qed simp

lemma build_merged_facts:
  assumes "check_keeps env" and "build_merged_segments env turns word_ts segs src = Inr out" and "numbered segs"
  shows "numbered out
    \<and> merged_words out = merged_words segs @ (if word_ts then concat (map (\<lambda>s. all_words (parts_of env turns s)) src) else [])
    \<and> m_speaker ` set out = m_speaker ` set segs \<union> (\<Union>s \<in> set src. p_speaker ` set (parts_of env turns s))"
  using assms(2,3)
proof (induction src arbitrary: segs)
  case (Cons s src)
  obtain segs' where "add_parts env word_ts (extract_segment_fields env s) segs (parts_of env turns s) = Inr segs'"
      and rest: "build_merged_segments env turns word_ts segs' src = Inr out"
    using Cons.prems(1) by (auto simp: res_simps Let_def parts_of_def)
  note facts = add_parts_facts [OF assms(1) this(1) Cons.prems(2)]
  show ?case using Cons.IH [OF rest] facts by auto
qed simp

lemma parts_of_words:
  "mset (filter timed (concat (map (\<lambda>s. all_words (parts_of env turns s)) src))) = mset (filter timed (source_words env src))"
proof (induction src)
  case (Cons s src)
  have "mset (filter timed (all_words (parts_of env turns s)))
      = mset (filter timed (opt_words (f_words (extract_segment_fields env s))))"
    unfolding parts_of_def Let_def opt_words_def by (rule segment_words_kept)
  then show ?case using Cons.IH by (simp add: source_words_def)
qed (simp add: source_words_def)

lemma whole_part_speaker [simp]: "p_speaker (whole_part s e t sp ws) = sp"
  by (simp add: whole_part_def)

lemma overlap_speaker_or_none: "find_speaker_by_overlap s e turns \<in> insert None (turn_speakers turns)"
  using overlap_speaker [of s e turns] by (cases "find_speaker_by_overlap s e turns") auto

lemma segment_speakers:
  assumes "p \<in> set (split_segment_by_diarization s e body ws turns)"
  shows "p_speaker p \<in> insert None (turn_speakers turns)"
proof (cases "s < e \<and> turns \<noteq> []")
  case False
  then show ?thesis
    using assms overlap_speaker_or_none [of s e turns]
    by (auto simp: split_segment_by_diarization_def build_speaker_windows_def Let_def split: if_splits)
next
  case True
  show ?thesis
  proof (rule segment_cases [OF conjunct1 [OF True] conjunct2 [OF True], of body ws])
    fix sp
    assume "split_segment_by_diarization s e body ws turns = [whole_part s e body sp ws]"
      and "sp \<in> insert None (turn_speakers turns)"
    then show ?thesis using assms by simp
  next
    fix l
    assume l: "split_words_by_speaker l turns \<noteq> []"
      and "split_segment_by_diarization s e body ws turns = cut_by_words l turns"
    then show ?thesis using assms cut_by_words_ok(2) [OF conjunct2 [OF True] l] by simp
  next
    assume "split_segment_by_diarization s e body ws turns = cut_by_windows s e body turns"
    then show ?thesis using assms cut_by_windows_ok(3) [OF conjunct1 [OF True] conjunct2 [OF True]] by simp
  qed
qed

text \<open>The confidence field of a transcript segment never reaches the merged segment.\<close>

lemma segment_confidence_ignored:
  "extract_segment_fields env (ATSegment (s\<lparr>ts_confidence := c\<rparr>)) = extract_segment_fields env (ATSegment s)"
  by (simp add: extract_segment_fields_def)

section \<open>Mono transcripts\<close>

text \<open>What a successful assembly went through.\<close>

lemma assemble_transcript_steps:
  assumes "assemble_transcript env job outputs sd wr names stages = Inr r"
  obtains d tr turns ids dw segs raw where
    "parsed_transcribe env ''transcribe'' (dget_or outputs ''transcribe'' (PDict [])) = Inr (d, tr)"
    "extract_diarization env (parse_if_truthy (parse_diarize env) (dget outputs ''diarize'')) (dget outputs ''diarize'') sd
       = Inr (turns, ids, dw)"
    "build_merged_segments env (smooth_diarization_turns MIN_TURN_DURATION_S turns)
       (fst (snd (select_segments (parse_if_truthy (parse_align env) (dget outputs ''align'')) tr))) []
       (fst (select_segments (parse_if_truthy (parse_align env) (dget outputs ''align'')) tr)) = Inr segs"
    "check_response env raw = Inr r" "r_segments raw = segs"
    "r_speakers raw = label_speakers names (build_speakers ids)"
proof -
  obtain m where "extract_audio_metadata (dget_or outputs ''prepare'' (PDict [])) = Inr m"
    using assms by (auto simp: assemble_transcript_def res_simps Let_def)
  obtain d tr where d: "parsed_transcribe env ''transcribe'' (dget_or outputs ''transcribe'' (PDict [])) = Inr (d, tr)"
    using assms by (auto simp: assemble_transcript_def res_simps Let_def)
  obtain body lang conf langs where x: "extract_transcribe_data env d = (body, lang, conf, langs)"
    by (cases "extract_transcribe_data env d")
  obtain src word_ts ws where sel: "select_segments (parse_if_truthy (parse_align env) (dget outputs ''align'')) tr
      = (src, word_ts, ws)"
    by (cases "select_segments (parse_if_truthy (parse_align env) (dget outputs ''align'')) tr")
  show thesis
    using assms d x sel that
    by (auto simp: assemble_transcript_def res_simps Let_def)
qed

lemma assembled_words:
  assumes "check_keeps env" and "build_merged_segments env turns word_ts [] src = Inr segs"
  shows "numbered segs"
    and "mset (filter timed (merged_words segs)) = (if word_ts then mset (filter timed (source_words env src)) else {#})"
    and "m_speaker ` set segs \<subseteq> insert None (turn_speakers turns)"
proof -
  have start: "numbered []" by (simp add: numbered_def)
  note facts = build_merged_facts [OF assms(1,2) start]
  show "numbered segs" using facts by blast
  have words: "merged_words segs = (if word_ts then concat (map (\<lambda>s. all_words (parts_of env turns s)) src) else [])"
    using facts by (simp add: merged_words_def)
  show "mset (filter timed (merged_words segs)) = (if word_ts then mset (filter timed (source_words env src)) else {#})"
  proof (cases word_ts)
    case True
    then have "merged_words segs = concat (map (\<lambda>s. all_words (parts_of env turns s)) src)" using words by simp
    then show ?thesis using parts_of_words [of env turns src] True by presburger
  qed (use words in simp)
  have "p_speaker ` set (parts_of env turns s) \<subseteq> insert None (turn_speakers turns)" for s
    unfolding parts_of_def Let_def by (intro image_subsetI) (rule segment_speakers)
  then have "(\<Union>s \<in> set src. p_speaker ` set (parts_of env turns s)) \<subseteq> insert None (turn_speakers turns)"
    by (rule UN_least)
  then show "m_speaker ` set segs \<subseteq> insert None (turn_speakers turns)" using facts by simp
qed

text \<open>C15: An assembled mono transcript numbers its segments in order, keeps every word of the chosen segment
  source that has text and does not end before it starts (when word timestamps are available, otherwise it has
  no words), and names no speaker the diarization did not.\<close>

theorem assemble_transcript_ok:
  assumes "check_keeps env" and "assemble_transcript env job outputs sd wr names stages = Inr r"
  shows "numbered (r_segments r)
    \<and> (\<exists>d tr. parsed_transcribe env ''transcribe'' (dget_or outputs ''transcribe'' (PDict [])) = Inr (d, tr)
         \<and> (case select_segments (parse_if_truthy (parse_align env) (dget outputs ''align'')) tr of (src, word_ts, _) \<Rightarrow>
              mset (filter timed (merged_words (r_segments r)))
                = (if word_ts then mset (filter timed (source_words env src)) else {#})))
    \<and> (\<exists>turns ids ws. extract_diarization env (parse_if_truthy (parse_diarize env) (dget outputs ''diarize''))
           (dget outputs ''diarize'') sd = Inr (turns, ids, ws)
         \<and> m_speaker ` set (r_segments r) \<subseteq> insert None (turn_speakers turns))"
proof (rule assemble_transcript_steps [OF assms(2)])
  fix d tr turns ids dw segs raw
  let ?sel = "select_segments (parse_if_truthy (parse_align env) (dget outputs ''align'')) tr"
  assume tr: "parsed_transcribe env ''transcribe'' (dget_or outputs ''transcribe'' (PDict [])) = Inr (d, tr)"
    and di: "extract_diarization env (parse_if_truthy (parse_diarize env) (dget outputs ''diarize'')) (dget outputs ''diarize'') sd
       = Inr (turns, ids, dw)"
    and build: "build_merged_segments env (smooth_diarization_turns MIN_TURN_DURATION_S turns) (fst (snd ?sel)) []
       (fst ?sel) = Inr segs"
    and raw: "check_response env raw = Inr r" "r_segments raw = segs"
  note facts = assembled_words [OF assms(1) build]
  have shapes: "map shape (r_segments r) = map shape segs" using check_keepsD(2) [OF assms(1) raw(1)] raw(2) by simp
  note same = shape_facts [OF shapes]
  have "numbered (r_segments r)" using facts(1) same by (simp add: numbered_def)
  moreover have "case ?sel of (src, word_ts, _) \<Rightarrow> mset (filter timed (merged_words (r_segments r)))
      = (if word_ts then mset (filter timed (source_words env src)) else {#})"
    using facts(2) unfolding same(4) by (simp only: prod.case_eq_if)
  moreover have "\<exists>turns ids ws. extract_diarization env (parse_if_truthy (parse_diarize env) (dget outputs ''diarize''))
           (dget outputs ''diarize'') sd = Inr (turns, ids, ws)
         \<and> m_speaker ` set (r_segments r) \<subseteq> insert None (turn_speakers turns)"
  proof -
    have "m_speaker ` set (r_segments r) = m_speaker ` set segs" using same(3) by (metis set_map)
    moreover have "turn_speakers (smooth_diarization_turns MIN_TURN_DURATION_S turns) \<subseteq> turn_speakers turns"
      unfolding turn_speakers_def by (intro image_mono smooth_speakers) (simp add: MIN_TURN_DURATION_S_def)
    ultimately have "m_speaker ` set (r_segments r) \<subseteq> insert None (turn_speakers turns)"
      using facts(3) by (metis insert_mono subset_trans)
    then show ?thesis using di by blast
  qed
  ultimately show ?thesis by (intro conjI exI [of _ d] exI [of _ tr] tr)
qed

section \<open>Per-channel transcripts\<close>

definition channel_source :: "assembly_env \<Rightarrow> dict \<Rightarrow> nat \<Rightarrow> transcript \<Rightarrow> any_segment list \<times> bool \<times> warning list" where
  "channel_source env outputs ch tr =
     select_segments (parse_if_truthy (parse_align env) (dget outputs (''align_ch'' @ str_nat ch))) tr"

definition channel_transcript :: "assembly_env \<Rightarrow> dict \<Rightarrow> nat \<Rightarrow> exn + (dict \<times> transcript)" where
  "channel_transcript env outputs ch =
     parsed_transcribe env (''transcribe_ch'' @ str_nat ch) (dget_or outputs (''transcribe_ch'' @ str_nat ch) (PDict []))"

definition channel_part :: "assembly_env \<Rightarrow> dict \<Rightarrow> nat \<Rightarrow> channel_segment list" where
  "channel_part env outputs ch =
     (case channel_transcript env outputs ch of
        Inl x \<Rightarrow> []
      | Inr (d, tr) \<Rightarrow> (case channel_source env outputs ch tr of (src, word_ts, ws) \<Rightarrow>
          map (\<lambda>s. \<lparr>cs_fields = extract_segment_fields env s, cs_channel = ch, cs_word_ts = word_ts\<rparr>) src))"

lemma channel_step_part:
  assumes "channel_step env outputs ch st = Inr st'"
  shows "(\<exists>d tr. channel_transcript env outputs ch = Inr (d, tr))
    \<and> ca_segments st' = ca_segments st @ channel_part env outputs ch"
proof -
  obtain d tr where tr: "channel_transcript env outputs ch = Inr (d, tr)"
    using assms by (auto simp: channel_step_def channel_transcript_def res_simps Let_def split: if_splits)
  obtain a b c e where x: "extract_transcribe_data env d = (a, b, c, e)" by (cases "extract_transcribe_data env d")
  obtain src word_ts ws where src: "channel_source env outputs ch tr = (src, word_ts, ws)"
    by (cases "channel_source env outputs ch tr")
  show ?thesis
    using assms tr x src unfolding channel_step_def channel_part_def channel_transcript_def channel_source_def
    by (auto simp: Let_def split: if_splits)
qed

lemma channel_steps_parts:
  "channel_steps env outputs chs st = Inr st' \<Longrightarrow>
   (\<forall>ch \<in> set chs. \<exists>d tr. channel_transcript env outputs ch = Inr (d, tr))
   \<and> ca_segments st' = ca_segments st @ concat (map (channel_part env outputs) chs)"
proof (induction chs arbitrary: st)
  case (Cons ch chs)
  then obtain st1 where "channel_step env outputs ch st = Inr st1" "channel_steps env outputs chs st1 = Inr st'"
    by (auto simp: res_simps)
  then show ?case using channel_step_part [of env outputs ch st st1] Cons.IH [of st1] by simp
qed simp

lemma channel_part_channel: "c \<in> set (channel_part env outputs ch) \<Longrightarrow> cs_channel c = ch"
  by (auto simp: channel_part_def split: sum.splits prod.splits)

lemma filter_channel:
  "filter (\<lambda>c. cs_channel c = ch) (concat (map (channel_part env outputs) [0..<n]))
   = (if ch < n then channel_part env outputs ch else [])"
proof (induction n)
  case (Suc n)
  have "filter (\<lambda>c. cs_channel c = ch) (channel_part env outputs n) = (if ch = n then channel_part env outputs n else [])"
    using channel_part_channel [of _ env outputs n] by (auto simp: filter_empty_conv filter_id_conv)
  then show ?case using Suc by auto
qed simp

lemma speaker_id_inject [simp]: "speaker_id a = speaker_id b \<longleftrightarrow> a = b"
  by (simp add: speaker_id_def)

definition channel_words :: "channel_segment \<Rightarrow> timed_word list" where
  "channel_words c = (if cs_word_ts c then opt_words (f_words (cs_fields c)) else [])"

lemma build_channel_facts:
  assumes "check_keeps env"
  shows "build_channel_segments env n cs = Inr segs \<Longrightarrow>
    map m_id segs = map segment_id [n..<n + length segs]
    \<and> map m_start segs = map (\<lambda>c. f_start (cs_fields c)) cs
    \<and> map m_speaker segs = map (\<lambda>c. Some (speaker_id (cs_channel c))) cs
    \<and> merged_words (filter (\<lambda>s. m_speaker s = Some (speaker_id ch)) segs)
        = concat (map channel_words (filter (\<lambda>c. cs_channel c = ch) cs))"
proof (induction cs arbitrary: n segs)
  case Nil
  then show ?case by (simp add: merged_words_def)
next
  case (Cons c cs)
  obtain s ss where s: "check_segment env (merged_of_channel n c) = Inr s" "build_channel_segments env (Suc n) cs = Inr ss"
      "segs = s # ss"
    using Cons.prems by (auto simp: res_simps)
  have "shape s = shape (merged_of_channel n c)" by (rule check_keepsD(1) [OF assms s(1)])
  then have sh: "m_id s = segment_id n" "m_start s = f_start (cs_fields c)" "m_speaker s = Some (speaker_id (cs_channel c))"
      "opt_words (m_words s) = channel_words c"
    by (auto simp: shape_def merged_of_channel_def channel_words_def opt_words_def Let_def split: option.split)
  have range: "[n..<n + length (s # ss)] = n # [Suc n..<Suc n + length ss]"
    using upt_conv_Cons [of n "n + length (s # ss)"] by (simp del: upt_Suc)
  show ?case
    using Cons.IH [OF s(2)] sh unfolding s(3) range by (simp add: merged_words_def)
qed

lemma mset_concat_map: "mset xs = mset ys \<Longrightarrow> mset (concat (map f xs)) = mset (concat (map f ys))"
  by (metis mset_concat mset_map sum_mset_sum_list)

lemma label_speakers_ids: "map spk_id (label_speakers names ss) = map spk_id ss"
proof -
  have "map spk_id (apply_known_speaker_names ss ns) = map spk_id ss" for ns
    by (induction ss ns rule: apply_known_speaker_names.induct) simp_all
  then show ?thesis by (simp add: label_speakers_def split: option.split pyval.split)
qed

lemma per_channel_steps:
  assumes "assemble_per_channel_transcript env job outputs (PInt (int n)) wr names stages = Inr r"
  obtains st segs raw where "channel_steps env outputs [0..<n] initial_channel_state = Inr st"
    "build_channel_segments env 0 (interleave (ca_segments st)) = Inr segs"
    "check_response env raw = Inr r" "r_segments raw = segs"
    "map spk_id (r_speakers raw) = map speaker_id [0..<n]"
proof -
  obtain m where "extract_audio_metadata (dget_or outputs ''prepare'' (PDict [])) = Inr m"
    using assms by (auto simp: assemble_per_channel_transcript_def res_simps Let_def)
  show thesis
    using assms that
    by (auto simp: assemble_per_channel_transcript_def res_simps Let_def label_speakers_ids comp_def)
qed

text \<open>An assembled per-channel transcript interleaves the channels by start time and numbers the segments;
  its speakers are one per channel, each segment belongs to one of them, and the words of a channel are exactly
  those of its chosen segment source when it has word timestamps, and none otherwise.\<close>

lemma assemble_per_channel_ok:
  assumes "check_keeps env"
    and "assemble_per_channel_transcript env job outputs (PInt (int n)) wr names stages = Inr r"
  shows "numbered (r_segments r) \<and> sorted (map m_start (r_segments r))
    \<and> map spk_id (r_speakers r) = map speaker_id [0..<n]
    \<and> m_speaker ` set (r_segments r) \<subseteq> Some ` set (map spk_id (r_speakers r))
    \<and> (\<forall>ch < n. \<exists>d tr. channel_transcript env outputs ch = Inr (d, tr)
         \<and> (case channel_source env outputs ch tr of (src, word_ts, _) \<Rightarrow>
              mset (merged_words (filter (\<lambda>s. m_speaker s = Some (speaker_id ch)) (r_segments r)))
                = (if word_ts then mset (source_words env src) else {#})))"
proof (rule per_channel_steps [OF assms(2)])
  fix st segs raw
  assume st: "channel_steps env outputs [0..<n] initial_channel_state = Inr st"
    and build: "build_channel_segments env 0 (interleave (ca_segments st)) = Inr segs"
    and raw: "check_response env raw = Inr r" "r_segments raw = segs" "map spk_id (r_speakers raw) = map speaker_id [0..<n]"
  have parts: "ca_segments st = concat (map (channel_part env outputs) [0..<n])"
      "\<forall>ch < n. \<exists>d tr. channel_transcript env outputs ch = Inr (d, tr)"
    using channel_steps_parts [OF st] by (auto simp: initial_channel_state_def)
  have shapes: "map shape (r_segments r) = map shape segs" using check_keepsD(2) [OF assms(1) raw(1)] raw(2) by simp
  note same = shape_facts [OF shapes]
  have speakers: "map spk_id (r_speakers r) = map speaker_id [0..<n]" using check_keepsD(3) [OF assms(1) raw(1)] raw(3) by simp
  note facts = build_channel_facts [OF assms(1) build]
  have "numbered (r_segments r)" using facts same by (simp add: numbered_def)
  moreover have "sorted (map m_start (r_segments r))"
    using facts same(2) sorted_py_sorted [of "\<lambda>c. f_start (cs_fields c)" "ca_segments st"] by (simp add: interleave_def)
  moreover have "m_speaker ` set (r_segments r) \<subseteq> Some ` set (map spk_id (r_speakers r))"
  proof -
    have "cs_channel c < n" if "c \<in> set (ca_segments st)" for c
      using that channel_part_channel unfolding parts(1) by fastforce
    moreover have "m_speaker ` set (r_segments r) = (\<lambda>c. Some (speaker_id (cs_channel c))) ` set (ca_segments st)"
      using facts same(3) by (metis interleave_def set_map set_py_sorted)
    ultimately show ?thesis unfolding speakers by auto
  qed
  moreover have "\<exists>d tr. channel_transcript env outputs ch = Inr (d, tr)
         \<and> (case channel_source env outputs ch tr of (src, word_ts, _) \<Rightarrow>
              mset (merged_words (filter (\<lambda>s. m_speaker s = Some (speaker_id ch)) (r_segments r)))
                = (if word_ts then mset (source_words env src) else {#}))" if ch: "ch < n" for ch
  proof -
    obtain d tr where tr: "channel_transcript env outputs ch = Inr (d, tr)" using parts(2) ch by blast
    obtain src word_ts ws where src: "channel_source env outputs ch tr = (src, word_ts, ws)"
      by (cases "channel_source env outputs ch tr")
    have "mset (filter (\<lambda>c. cs_channel c = ch) (interleave (ca_segments st))) = mset (channel_part env outputs ch)"
      unfolding interleave_def mset_filter_sorted unfolding parts(1) filter_channel using ch by simp
    then have "mset (merged_words (filter (\<lambda>s. m_speaker s = Some (speaker_id ch)) segs))
        = mset (concat (map channel_words (channel_part env outputs ch)))"
      using facts mset_concat_map by metis
    also have "concat (map channel_words (channel_part env outputs ch)) = (if word_ts then source_words env src else [])"
      by (simp add: channel_part_def tr src comp_def channel_words_def source_words_def)
    finally show ?thesis using tr src shape_speaker_words [OF shapes] by simp
  qed
  ultimately show ?thesis using speakers by blast
qed

lemma demo_check_keeps: "check_keeps demo_assembly"
  by (simp add: check_keeps_def demo_assembly_def)

definition demo_outputs :: dict where
  "demo_outputs = [(''transcribe'', PDict [(''text'', PStr ''hello there'')]),
     (''transcribe_ch0'', PDict [(''text'', PStr ''hello there'')])]"

theorem assemble_transcript_ok_witness:
  "\<exists>r. assemble_transcript demo_assembly ''job'' demo_outputs (PStr ''none'') (PBool True) None None = Inr r
     \<and> numbered (r_segments r) \<and> m_speaker ` set (r_segments r) \<subseteq> {None}"
proof -
  have "\<not> isl (assemble_transcript demo_assembly ''job'' demo_outputs (PStr ''none'') (PBool True) None None)"
    by code_simp
  then obtain r where r: "assemble_transcript demo_assembly ''job'' demo_outputs (PStr ''none'') (PBool True) None None = Inr r"
    by (metis sum.collapse(2))
  then show ?thesis
    using assemble_transcript_ok [OF demo_check_keeps r]
    by (auto simp: extract_diarization_def turn_speakers_def)
qed

lemma assemble_per_channel_ok_example:
  "\<exists>r. assemble_per_channel_transcript demo_assembly ''job'' demo_outputs (PInt (int 1)) (PBool True) None None = Inr r
     \<and> numbered (r_segments r) \<and> map spk_id (r_speakers r) = [speaker_id 0]"
proof -
  have "\<not> isl (assemble_per_channel_transcript demo_assembly ''job'' demo_outputs (PInt (int 1)) (PBool True) None None)"
    by code_simp
  then obtain r where r: "assemble_per_channel_transcript demo_assembly ''job'' demo_outputs (PInt (int 1)) (PBool True) None None = Inr r"
    by (metis sum.collapse(2))
  then show ?thesis using assemble_per_channel_ok [OF demo_check_keeps r] by simp
qed

end
