(* ===== verification/Sessions.thy ===== *)
theory Sessions
  imports Registry
begin

text \<open>
  Live sessions on realtime workers: allocation and release
  (\<open>dalston/orchestrator/session_allocator.py\<close>), worker health and orphaned sessions
  (\<open>session_health.py\<close>) and the capacity summary (\<open>session_coordinator.py\<close>). The state is
  what Redis holds: a counter and a session set per instance, the index of instances, the
  index of active sessions, and the session records, which lapse. Worker capacity comes from
  the registry; the counters are the allocator's own.
\<close>

record session_record =
  sr_instance :: "string option"
  sr_status :: string
  sr_language :: string
  sr_model :: string
  sr_client_ip :: string
  sr_started_at :: time

record rt_state =
  rt_counter :: "string \<Rightarrow> int"
  rt_sessions :: "string \<Rightarrow> string set"
  rt_instances :: "string list"
  rt_active :: "string list"
  rt_records :: "string \<Rightarrow> session_record option"

record allocation =
  al_instance :: string
  al_session :: string
  al_engine_id :: string

definition empty_rt :: rt_state where
  "empty_rt = \<lparr>rt_counter = \<lambda>_. 0, rt_sessions = \<lambda>_. {}, rt_instances = [], rt_active = [],
     rt_records = \<lambda>_. None\<rparr>"

text \<open>\<open>SADD\<close> and \<open>SREM\<close> on an index, whose members are enumerated in some order.\<close>

definition set_add :: "'a \<Rightarrow> 'a list \<Rightarrow> 'a list" where
  "set_add x xs = (if x \<in> set xs then xs else xs @ [x])"

definition set_del :: "'a \<Rightarrow> 'a list \<Rightarrow> 'a list" where
  "set_del x xs = filter (\<lambda>y. y \<noteq> x) xs"

text \<open>\<open>HINCRBY\<close> on the counter of an instance, with the new value.\<close>

definition incr_counter :: "string \<Rightarrow> int \<Rightarrow> rt_state \<Rightarrow> rt_state \<times> int" where
  "incr_counter i d st = (st\<lparr>rt_counter := (rt_counter st)(i := rt_counter st i + d)\<rparr>, rt_counter st i + d)"

section \<open>Allocation\<close>

record request =
  rq_language :: string
  rq_model :: "string option"
  rq_client_ip :: string
  rq_now :: time

definition create_session :: "request \<Rightarrow> string \<Rightarrow> string \<Rightarrow> rt_state \<Rightarrow> rt_state" where
  "create_session rq sid inst st =
     st\<lparr>rt_records := (rt_records st)(sid \<mapsto>
        \<lparr>sr_instance = Some inst, sr_status = ''active'', sr_language = rq_language rq,
         sr_model = (case rq_model rq of Some m \<Rightarrow> m | None \<Rightarrow> []), sr_client_ip = rq_client_ip rq,
         sr_started_at = rq_now rq\<rparr>)\<rparr>"

definition commit_session :: "request \<Rightarrow> string \<Rightarrow> engine_record \<Rightarrow> rt_state \<Rightarrow> rt_state" where
  "commit_session rq sid w st =
     (let st1 = create_session rq sid (instance_id w) st
      in st1\<lparr>rt_sessions := (rt_sessions st1)(instance_id w := insert sid (rt_sessions st1 (instance_id w))),
             rt_instances := set_add (instance_id w) (rt_instances st1),
             rt_active := set_add sid (rt_active st1)\<rparr>)"

text \<open>One worker after another, each with a fresh session identifier: reserve, then keep or roll back.\<close>

fun acquire_from_list :: "request \<Rightarrow> (nat \<Rightarrow> string) \<Rightarrow> nat \<Rightarrow> engine_record list \<Rightarrow> rt_state
    \<Rightarrow> rt_state \<times> allocation option" where
  "acquire_from_list rq fresh n [] st = (st, None)"
| "acquire_from_list rq fresh n (w # ws) st =
     (let (st1, new_count) = incr_counter (instance_id w) 1 st
      in if new_count \<le> capacity w
         then (commit_session rq (fresh n) w st1,
               Some \<lparr>al_instance = instance_id w, al_session = fresh n, al_engine_id = engine_id w\<rparr>)
         else acquire_from_list rq fresh (Suc n) ws (fst (incr_counter (instance_id w) (-1) st1)))"

definition acquire_worker :: "request \<Rightarrow> (nat \<Rightarrow> string) \<Rightarrow> registry \<Rightarrow> string option \<Rightarrow> string list option
    \<Rightarrow> rt_state \<Rightarrow> rt_state \<times> allocation option" where
  "acquire_worker rq fresh g eid valid_ids st =
     (case get_available (rq_now rq) g None (Some ''realtime'') eid (rq_model rq) valid_ids of
        [] \<Rightarrow> (st, None)
      | w # ws \<Rightarrow>
          (let (st1, new_count) = incr_counter (instance_id w) 1 st
           in if new_count > capacity w
              then (let st2 = fst (incr_counter (instance_id w) (-1) st1)
                    in if ws \<noteq> [] then acquire_from_list rq fresh 1 ws st2 else (st2, None))
              else (commit_session rq (fresh 0) w st1,
                    Some \<lparr>al_instance = instance_id w, al_session = fresh 0, al_engine_id = engine_id w\<rparr>)))"

section \<open>Release and lookup\<close>

definition release_worker :: "string \<Rightarrow> rt_state \<Rightarrow> rt_state \<times> session_record option" where
  "release_worker sid st =
     (case rt_records st sid of
        None \<Rightarrow> (st, None)
      | Some r \<Rightarrow>
          (case nonempty (sr_instance r) of
             None \<Rightarrow> (st, None)
           | Some i \<Rightarrow>
               (let st1 = fst (incr_counter i (-1) st)
                in (st1\<lparr>rt_sessions := (rt_sessions st1)(i := rt_sessions st1 i - {sid}),
                        rt_active := set_del sid (rt_active st1),
                        rt_records := (rt_records st1)(sid \<mapsto> r\<lparr>sr_status := ''ended''\<rparr>)\<rparr>,
                    Some (r\<lparr>sr_status := ''ended''\<rparr>)))))"

definition get_session :: "string \<Rightarrow> rt_state \<Rightarrow> session_record option" where
  "get_session sid st = rt_records st sid"

text \<open>The time to live of a record runs out; extending it keeps the record as it is.\<close>

definition lapse_session :: "string \<Rightarrow> rt_state \<Rightarrow> rt_state" where
  "lapse_session sid st = st\<lparr>rt_records := (rt_records st)(sid := None)\<rparr>"

section \<open>Orphaned sessions\<close>

definition clean_instance :: "string \<Rightarrow> string \<Rightarrow> rt_state \<Rightarrow> rt_state" where
  "clean_instance sid i st =
     (let (st1, n) = incr_counter i (-1) st;
          st2 = (if n < 0 then st1\<lparr>rt_counter := (rt_counter st1)(i := 0)\<rparr> else st1)
      in st2\<lparr>rt_sessions := (rt_sessions st2)(i := rt_sessions st2 i - {sid})\<rparr>)"

definition clean_orphan :: "string \<Rightarrow> rt_state \<Rightarrow> rt_state" where
  "clean_orphan sid st =
     (let st1 = (case List.find (\<lambda>i. sid \<in> rt_sessions st i) (rt_instances st) of
                   None \<Rightarrow> st | Some i \<Rightarrow> clean_instance sid i st)
      in st1\<lparr>rt_active := set_del sid (rt_active st1)\<rparr>)"

fun clean_orphans :: "string list \<Rightarrow> rt_state \<Rightarrow> rt_state \<times> nat" where
  "clean_orphans [] st = (st, 0)"
| "clean_orphans (sid # sids) st =
     (if rt_records st sid \<noteq> None then clean_orphans sids st
      else (let (st', n) = clean_orphans sids (clean_orphan sid st) in (st', Suc n)))"

definition reconcile_orphaned_sessions :: "rt_state \<Rightarrow> rt_state \<times> nat" where
  "reconcile_orphaned_sessions st = clean_orphans (rt_active st) st"

section \<open>Worker health\<close>

definition REALTIME_HEARTBEAT_TIMEOUT :: rat where "REALTIME_HEARTBEAT_TIMEOUT = 30"

definition realtime_workers :: "registry \<Rightarrow> engine_record list" where
  "realtime_workers g = filter (supports_interface ''realtime'') (get_all g)"

definition stale_worker :: "time \<Rightarrow> engine_record \<Rightarrow> bool" where
  "stale_worker now w \<longleftrightarrow> engine_status w \<noteq> ''offline''
     \<and> (case last_heartbeat w of None \<Rightarrow> False | Some t \<Rightarrow> now - t > REALTIME_HEARTBEAT_TIMEOUT)"

text \<open>\<open>mark_instance_offline\<close> on a live record.\<close>

definition mark_offline :: "string \<Rightarrow> registry \<Rightarrow> registry" where
  "mark_offline i g = g\<lparr>reg_instance := (reg_instance g)(i :=
     map_option (\<lambda>r. r\<lparr>engine_status := ''offline''\<rparr>) (reg_instance g i))\<rparr>"

text \<open>
  The registry afterwards, the offline notices (instance and the sessions it had), and the
  number of workers counted healthy.
\<close>

definition check_workers :: "time \<Rightarrow> rt_state \<Rightarrow> registry \<Rightarrow> registry \<times> (string \<times> string set) list \<times> nat" where
  "check_workers now st g =
     (let ws = realtime_workers g;
          stale = map instance_id (filter (stale_worker now) ws);
          fresh = filter (\<lambda>w. engine_status w \<noteq> ''offline'' \<and> last_heartbeat w \<noteq> None \<and> \<not> stale_worker now w) ws
      in (foldl (\<lambda>g i. mark_offline i g) g stale, map (\<lambda>i. (i, rt_sessions st i)) stale, length fresh))"

record capacity_info =
  total_capacity :: int
  used_capacity :: int
  free_capacity :: int
  worker_count :: nat
  ready_workers :: nat

definition get_capacity :: "registry \<Rightarrow> capacity_info" where
  "get_capacity g =
     (let ws = realtime_workers g;
          total = sum_list (map capacity ws); used = sum_list (map active_realtime ws)
      in \<lparr>total_capacity = total, used_capacity = used, free_capacity = total - used,
          worker_count = length ws,
          ready_workers = length (filter (\<lambda>w. engine_status w \<in> {''ready'', ''busy''}) ws)\<rparr>)"

end
