(* ===== verification/SessionProps.thy ===== *)
theory SessionProps
  imports Sessions
begin

text \<open>
  Live sessions under concurrency: allocations by several gateways interleave between the
  reservation of a slot and its confirmation, with releases, lapsing records and the cleaning
  of orphans. Counters stay exact and no worker holds more sessions than its capacity.
\<close>

section \<open>Interleaved steps\<close>

text \<open>A configuration is the shared state and the reservations not yet kept or rolled back.\<close>

type_synonym config = "rt_state \<times> (string \<times> int) multiset"

definition unused :: "string \<Rightarrow> rt_state \<Rightarrow> bool" where
  "unused sid st \<longleftrightarrow> rt_records st sid = None \<and> (\<forall>i. sid \<notin> rt_sessions st i) \<and> sid \<notin> set (rt_active st)"

inductive rt_step :: "(string \<Rightarrow> int) \<Rightarrow> config \<Rightarrow> config \<Rightarrow> bool" for cap where
  reserve: "i \<noteq> [] \<Longrightarrow> rt_step cap (st, ps) (fst (incr_counter i 1 st), add_mset (i, snd (incr_counter i 1 st)) ps)"
| keep: "n \<le> capacity w \<Longrightarrow> capacity w = cap (instance_id w) \<Longrightarrow> unused sid st \<Longrightarrow>
    rt_step cap (st, add_mset (instance_id w, n) ps) (commit_session rq sid w st, ps)"
| rollback: "cap i < n \<Longrightarrow> rt_step cap (st, add_mset (i, n) ps) (fst (incr_counter i (-1) st), ps)"
| release: "rt_records st sid = Some r \<Longrightarrow> sr_status r = ''active'' \<Longrightarrow>
    rt_step cap (st, ps) (fst (release_worker sid st), ps)"
| lapse: "rt_step cap (st, ps) (lapse_session sid st, ps)"
| orphan: "sid \<in> set (rt_active st) \<Longrightarrow> rt_records st sid = None \<Longrightarrow> rt_step cap (st, ps) (clean_orphan sid st, ps)"

inductive rt_reachable :: "(string \<Rightarrow> int) \<Rightarrow> config \<Rightarrow> bool" for cap where
  init: "rt_reachable cap (empty_rt, {#})"
| step: "rt_reachable cap c \<Longrightarrow> rt_step cap c c' \<Longrightarrow> rt_reachable cap c'"

section \<open>The invariant\<close>

definition reserved :: "string \<Rightarrow> (string \<times> int) multiset \<Rightarrow> nat" where
  "reserved i ps = size (filter_mset (\<lambda>p. fst p = i) ps)"

definition granted :: "(string \<Rightarrow> int) \<Rightarrow> string \<Rightarrow> (string \<times> int) multiset \<Rightarrow> nat" where
  "granted cap i ps = size (filter_mset (\<lambda>p. fst p = i \<and> snd p \<le> cap i) ps)"

definition counted_at :: "(string \<Rightarrow> int) \<Rightarrow> rt_state \<Rightarrow> (string \<times> int) multiset \<Rightarrow> string \<Rightarrow> bool" where
  "counted_at cap st ps i \<longleftrightarrow> finite (rt_sessions st i)
     \<and> rt_counter st i = int (card (rt_sessions st i)) + int (reserved i ps)
     \<and> int (card (rt_sessions st i)) + int (granted cap i ps) \<le> max 0 (cap i)"

definition counted :: "(string \<Rightarrow> int) \<Rightarrow> config \<Rightarrow> bool" where
  "counted cap c \<longleftrightarrow> (\<forall>i. counted_at cap (fst c) (snd c) i)"

definition indexed :: "rt_state \<Rightarrow> bool" where
  "indexed st \<longleftrightarrow> (\<forall>i j sid. sid \<in> rt_sessions st i \<longrightarrow> sid \<in> rt_sessions st j \<longrightarrow> i = j)
     \<and> (\<forall>i sid. sid \<in> rt_sessions st i \<longrightarrow> i \<in> set (rt_instances st) \<and> sid \<in> set (rt_active st))
     \<and> (\<forall>sid \<in> set (rt_active st). \<exists>i. sid \<in> rt_sessions st i) \<and> distinct (rt_active st)"

definition recorded :: "rt_state \<Rightarrow> bool" where
  "recorded st \<longleftrightarrow> (\<forall>sid r. rt_records st sid = Some r \<longrightarrow>
     (\<exists>i. i \<noteq> [] \<and> sr_instance r = Some i \<and> (sr_status r = ''active'' \<longrightarrow> sid \<in> rt_sessions st i)))"

definition rt_inv :: "(string \<Rightarrow> int) \<Rightarrow> config \<Rightarrow> bool" where
  "rt_inv cap c \<longleftrightarrow> counted cap c \<and> indexed (fst c) \<and> recorded (fst c) \<and> (\<forall>p \<in># snd c. fst p \<noteq> [])"

lemma countedD: "counted cap (st, ps) \<Longrightarrow> counted_at cap st ps i"
  by (simp add: counted_def)

lemma countedI: "(\<And>i. counted_at cap st ps i) \<Longrightarrow> counted cap (st, ps)"
  by (simp add: counted_def)

lemma rt_invD:
  assumes "rt_inv cap (st, ps)"
  shows "counted cap (st, ps)" "indexed st" "recorded st"
  using assms by (simp_all add: rt_inv_def)

lemma recordedD:
  "recorded st \<Longrightarrow> rt_records st sid = Some r \<Longrightarrow> sr_status r = ''active'' \<Longrightarrow>
   \<exists>i. i \<noteq> [] \<and> sr_instance r = Some i \<and> sid \<in> rt_sessions st i"
  unfolding recorded_def by blast

lemma reserved_add [simp]: "reserved i (add_mset p ps) = (if fst p = i then Suc (reserved i ps) else reserved i ps)"
  by (simp add: reserved_def)

lemma granted_add [simp]:
  "granted cap i (add_mset p ps) = (if fst p = i \<and> snd p \<le> cap i then Suc (granted cap i ps) else granted cap i ps)"
  by (simp add: granted_def)

lemma granted_le: "granted cap i ps \<le> reserved i ps"
  by (induction ps) (auto simp: granted_def reserved_def)

lemma set_add_mem [simp]: "set (set_add x xs) = insert x (set xs)"
  by (auto simp: set_add_def)

lemma set_del_mem [simp]: "set (set_del x xs) = set xs - {x}"
  by (auto simp: set_del_def)

lemma set_add_distinct [simp]: "distinct (set_add x xs) \<longleftrightarrow> distinct xs"
  by (simp add: set_add_def)

lemma set_del_distinct [simp]: "distinct xs \<Longrightarrow> distinct (set_del x xs)"
  by (simp add: set_del_def)

lemma incr_counter_simps [simp]:
  "rt_counter (fst (incr_counter i d st)) = (rt_counter st)(i := rt_counter st i + d)"
  "rt_sessions (fst (incr_counter i d st)) = rt_sessions st"
  "rt_instances (fst (incr_counter i d st)) = rt_instances st"
  "rt_active (fst (incr_counter i d st)) = rt_active st"
  "rt_records (fst (incr_counter i d st)) = rt_records st"
  "snd (incr_counter i d st) = rt_counter st i + d"
  by (simp_all add: incr_counter_def)

lemma commit_session_simps [simp]:
  "rt_counter (commit_session rq sid w st) = rt_counter st"
  "rt_sessions (commit_session rq sid w st) = (rt_sessions st)(instance_id w := insert sid (rt_sessions st (instance_id w)))"
  "rt_instances (commit_session rq sid w st) = set_add (instance_id w) (rt_instances st)"
  "rt_active (commit_session rq sid w st) = set_add sid (rt_active st)"
  "rt_records (commit_session rq sid w st) sid' = (if sid' = sid then Some
     \<lparr>sr_instance = Some (instance_id w), sr_status = ''active'', sr_language = rq_language rq,
      sr_model = (case rq_model rq of Some m \<Rightarrow> m | None \<Rightarrow> []), sr_client_ip = rq_client_ip rq,
      sr_started_at = rq_now rq\<rparr> else rt_records st sid')"
  by (simp_all add: commit_session_def create_session_def Let_def)

text \<open>Taking a session out of its instance, by release or by cleaning an orphan, is one change of state.\<close>

definition drop_session :: "string \<Rightarrow> string \<Rightarrow> rt_state \<Rightarrow> rt_state" where
  "drop_session sid i st =
     st\<lparr>rt_counter := (rt_counter st)(i := rt_counter st i - 1),
        rt_sessions := (rt_sessions st)(i := rt_sessions st i - {sid}), rt_active := set_del sid (rt_active st)\<rparr>"

lemma release_drop:
  assumes "rt_records st sid = Some r" and "sr_instance r = Some i" and "i \<noteq> []"
  shows "fst (release_worker sid st)
    = (drop_session sid i st)\<lparr>rt_records := (rt_records st)(sid \<mapsto> r\<lparr>sr_status := ''ended''\<rparr>)\<rparr>"
  using assms by (simp add: release_worker_def nonempty_def drop_session_def incr_counter_def Let_def)

lemma orphan_drop:
  assumes "indexed st" and "counted cap (st, ps)" and "sid \<in> rt_sessions st i"
  shows "clean_orphan sid st = drop_session sid i st"
proof -
  have ex: "\<exists>j \<in> set (rt_instances st). sid \<in> rt_sessions st j" using assms(1,3) by (auto simp: indexed_def)
  then obtain j where j: "List.find (\<lambda>i. sid \<in> rt_sessions st i) (rt_instances st) = Some j"
    using find_ex [of _ "rt_instances st" "\<lambda>i. sid \<in> rt_sessions st i"] by blast
  then have "sid \<in> rt_sessions st j" using find_SomeD [OF j] by blast
  then have "j = i" using assms(1,3) by (auto simp: indexed_def)
  moreover have "0 < card (rt_sessions st i)" using countedD [OF assms(2), of i] assms(3) by (auto simp: counted_at_def card_gt_0_iff)
  then have "1 \<le> rt_counter st i" using countedD [OF assms(2), of i] by (simp add: counted_at_def)
  ultimately show ?thesis
    using j by (simp add: clean_orphan_def clean_instance_def drop_session_def incr_counter_def Let_def)
qed

lemma drop_session_counted:
  assumes "counted cap (st, ps)" and "sid \<in> rt_sessions st i"
  shows "counted cap (drop_session sid i st, ps)"
proof -
  have i: "counted_at cap st ps i" by (rule countedD [OF assms(1)])
  then have fin: "finite (rt_sessions st i)" by (simp add: counted_at_def)
  then have "card (rt_sessions st i) = Suc (card (rt_sessions st i - {sid}))"
    using assms(2) by (metis card_Suc_Diff1)
  then have "counted_at cap (drop_session sid i st) ps i"
    using i fin by (simp add: counted_at_def drop_session_def)
  moreover have "counted_at cap (drop_session sid i st) ps j" if "j \<noteq> i" for j
    using countedD [OF assms(1), of j] that by (simp add: counted_at_def drop_session_def)
  ultimately show ?thesis by (intro countedI) metis
qed

lemma drop_session_indexed:
  assumes "indexed st" and "sid \<in> rt_sessions st i"
  shows "indexed (drop_session sid i st)"
  using assms unfolding indexed_def drop_session_def by (auto; metis)

lemma records_frame [simp]:
  "counted cap (st\<lparr>rt_records := f\<rparr>, ps) = counted cap (st, ps)"
  "indexed (st\<lparr>rt_records := f\<rparr>) = indexed st"
  by (simp_all add: counted_def counted_at_def indexed_def)

lemma recorded_release:
  assumes "recorded st" and "rt_records st sid = Some r" and "sr_instance r = Some i" and "i \<noteq> []"
  shows "recorded ((drop_session sid i st)\<lparr>rt_records := (rt_records st)(sid \<mapsto> r\<lparr>sr_status := ''ended''\<rparr>)\<rparr>)"
  unfolding recorded_def
proof (intro allI impI)
  fix sid' r'
  let ?st = "(drop_session sid i st)\<lparr>rt_records := (rt_records st)(sid \<mapsto> r\<lparr>sr_status := ''ended''\<rparr>)\<rparr>"
  assume r': "rt_records ?st sid' = Some r'"
  show "\<exists>j. j \<noteq> [] \<and> sr_instance r' = Some j \<and> (sr_status r' = ''active'' \<longrightarrow> sid' \<in> rt_sessions ?st j)"
  proof (cases "sid' = sid")
    case True
    then have "r' = r\<lparr>sr_status := ''ended''\<rparr>" using r' by simp
    then show ?thesis using assms(3,4) by simp
  next
    case False
    then have "rt_records st sid' = Some r'" using r' by simp
    then obtain j where "j \<noteq> []" "sr_instance r' = Some j" "sr_status r' = ''active'' \<longrightarrow> sid' \<in> rt_sessions st j"
      using assms(1) unfolding recorded_def by blast
    then show ?thesis using False by (auto simp: drop_session_def)
  qed
qed

lemma recorded_drop:
  assumes "recorded st" and "rt_records st sid = None"
  shows "recorded (drop_session sid i st)"
  unfolding recorded_def
proof (intro allI impI)
  fix sid' r
  assume "rt_records (drop_session sid i st) sid' = Some r"
  then have r: "rt_records st sid' = Some r" "sid' \<noteq> sid" using assms(2) by (auto simp: drop_session_def)
  then obtain j where "j \<noteq> []" "sr_instance r = Some j" "sr_status r = ''active'' \<longrightarrow> sid' \<in> rt_sessions st j"
    using assms(1) unfolding recorded_def by blast
  then show "\<exists>j. j \<noteq> [] \<and> sr_instance r = Some j \<and> (sr_status r = ''active'' \<longrightarrow> sid' \<in> rt_sessions (drop_session sid i st) j)"
    using r(2) by (auto simp: drop_session_def)
qed

lemma counted_incr:
  assumes "counted cap (st, ps)"
  shows "counted cap (fst (incr_counter i 1 st), add_mset (i, snd (incr_counter i 1 st)) ps)"
proof (rule countedI)
  fix j
  have c: "counted_at cap st ps j" by (rule countedD [OF assms])
  have "granted cap j ps \<le> reserved j ps" by (rule granted_le)
  then show "counted_at cap (fst (incr_counter i 1 st)) (add_mset (i, snd (incr_counter i 1 st)) ps) j"
    using c by (cases "j = i") (auto simp: counted_at_def)
qed

lemma counted_keep:
  assumes "counted cap (st, add_mset (instance_id w, n) ps)" and "n \<le> cap (instance_id w)" and "unused sid st"
  shows "counted cap (commit_session rq sid w st, ps)"
proof (rule countedI)
  fix j
  show "counted_at cap (commit_session rq sid w st) ps j"
    using countedD [OF assms(1), of j] assms(2,3) by (cases "j = instance_id w") (auto simp: counted_at_def unused_def)
qed

lemma counted_rollback:
  assumes "counted cap (st, add_mset (i, n) ps)" and "cap i < n"
  shows "counted cap (fst (incr_counter i (-1) st), ps)"
proof (rule countedI)
  fix j
  show "counted_at cap (fst (incr_counter i (-1) st)) ps j"
    using countedD [OF assms(1), of j] assms(2) by (cases "j = i") (auto simp: counted_at_def)
qed

lemma indexed_keep: "indexed st \<Longrightarrow> unused sid st \<Longrightarrow> indexed (commit_session rq sid w st)"
  unfolding indexed_def unused_def by (auto split: if_splits; metis)

lemma rt_step_inv:
  assumes "rt_step cap c c'" and "rt_inv cap c"
  shows "rt_inv cap c'"
  using assms
proof (induction rule: rt_step.induct)
  case (reserve i st ps)
  then have "counted cap (fst (incr_counter i 1 st), add_mset (i, snd (incr_counter i 1 st)) ps)"
    by (intro counted_incr) (simp add: rt_inv_def)
  then show ?case using reserve by (simp add: rt_inv_def indexed_def recorded_def)
next
  case (keep n w sid st ps rq)
  then have inv: "counted cap (st, add_mset (instance_id w, n) ps)" "indexed st" "recorded st"
      "instance_id w \<noteq> []" "\<forall>p \<in># ps. fst p \<noteq> []"
    by (simp_all add: rt_inv_def)
  have "n \<le> cap (instance_id w)" using keep(1,2) by simp
  then have c: "counted cap (commit_session rq sid w st, ps)" by (rule counted_keep [OF inv(1) _ keep(3)])
  have i: "indexed (commit_session rq sid w st)" by (rule indexed_keep [OF inv(2) keep(3)])
  have "recorded (commit_session rq sid w st)"
    unfolding recorded_def
  proof (intro allI impI)
    fix sid' r
    assume r: "rt_records (commit_session rq sid w st) sid' = Some r"
    show "\<exists>i. i \<noteq> [] \<and> sr_instance r = Some i
        \<and> (sr_status r = ''active'' \<longrightarrow> sid' \<in> rt_sessions (commit_session rq sid w st) i)"
    proof (cases "sid' = sid")
      case True
      then have "sr_instance r = Some (instance_id w)" using r by (auto simp del: option.case)
      then show ?thesis using inv(4) True by simp
    next
      case False
      then have "rt_records st sid' = Some r" using r by simp
      then obtain i where "i \<noteq> []" "sr_instance r = Some i" "sr_status r = ''active'' \<longrightarrow> sid' \<in> rt_sessions st i"
        using inv(3) unfolding recorded_def by blast
      then show ?thesis by auto
    qed
  qed
  then show ?case using c i inv(5) by (simp add: rt_inv_def)
next
  case (rollback i n st ps)
  then have "counted cap (st, add_mset (i, n) ps)" by (simp add: rt_inv_def)
  then have "counted cap (fst (incr_counter i (-1) st), ps)" by (rule counted_rollback) (rule rollback(1))
  then show ?case using rollback by (simp add: rt_inv_def indexed_def recorded_def)
next
  case (release st sid r ps)
  obtain i where i: "i \<noteq> []" "sr_instance r = Some i" "sid \<in> rt_sessions st i"
    using recordedD [OF rt_invD(3) [OF release(3)] release(1,2)] by blast
  note inv = rt_invD [OF release(3)] and drop = release_drop [OF release(1) i(2,1)]
  show ?case
    using drop_session_counted [OF inv(1) i(3)] drop_session_indexed [OF inv(2) i(3)]
      recorded_release [OF inv(3) release(1) i(2,1)] release(3)
    unfolding drop by (simp add: rt_inv_def)
next
  case (lapse st ps sid)
  then show ?case by (auto simp: rt_inv_def counted_def counted_at_def indexed_def recorded_def lapse_session_def)
next
  case (orphan sid st ps)
  then obtain i where i: "sid \<in> rt_sessions st i" by (auto simp: rt_inv_def indexed_def)
  have d: "clean_orphan sid st = drop_session sid i st"
    by (rule orphan_drop [OF rt_invD(2,1) [OF orphan(3)] i])
  note inv = rt_invD [OF orphan(3)]
  show ?case
    using drop_session_counted [OF inv(1) i] drop_session_indexed [OF inv(2) i]
      recorded_drop [OF inv(3) orphan(2)] orphan(3)
    unfolding d by (simp add: rt_inv_def)
qed

lemma rt_reachable_inv: "rt_reachable cap c \<Longrightarrow> rt_inv cap c"
proof (induction rule: rt_reachable.induct)
  case init
  then show ?case by (simp add: rt_inv_def counted_def counted_at_def indexed_def recorded_def empty_rt_def reserved_def granted_def)
qed (rule rt_step_inv)


section \<open>The allocator on these steps\<close>

lemma incr_undo [simp]: "fst (incr_counter i (-1) (fst (incr_counter i 1 st))) = st"
  by (simp add: incr_counter_def)

text \<open>Allocation by first fit, without reservations.\<close>

definition has_room :: "rt_state \<Rightarrow> engine_record \<Rightarrow> bool" where
  "has_room st w \<longleftrightarrow> rt_counter st (instance_id w) + 1 \<le> capacity w"

lemma acquire_from_list_first_fit:
  "acquire_from_list rq fresh n ws st =
     (case List.find (has_room st) ws of
        None \<Rightarrow> (st, None)
      | Some w \<Rightarrow> (let k = n + length (takeWhile (\<lambda>w. \<not> has_room st w) ws)
                  in (commit_session rq (fresh k) w (fst (incr_counter (instance_id w) 1 st)),
                      Some \<lparr>al_instance = instance_id w, al_session = fresh k, al_engine_id = engine_id w\<rparr>)))"
proof (induction ws arbitrary: n)
  case (Cons w ws)
  show ?case
  proof (cases "has_room st w")
    case True
    then show ?thesis by (simp add: has_room_def prod.case_eq_if Let_def)
  next
    case False
    then have step: "acquire_from_list rq fresh n (w # ws) st = acquire_from_list rq fresh (Suc n) ws st"
      by (simp add: has_room_def prod.case_eq_if not_le)
    show ?thesis unfolding step Cons.IH [of "Suc n"] using False by (simp add: Let_def split: option.split)
  qed
qed simp

lemma acquire_worker_fits:
  "let ws = get_available (rq_now rq) g None (Some ''realtime'') eid (rq_model rq) valid_ids
   in case List.find (has_room st) ws of
        None \<Rightarrow> acquire_worker rq fresh g eid valid_ids st = (st, None)
      | Some w \<Rightarrow> (\<exists>k. acquire_worker rq fresh g eid valid_ids st =
          (commit_session rq (fresh k) w (fst (incr_counter (instance_id w) 1 st)),
           Some \<lparr>al_instance = instance_id w, al_session = fresh k, al_engine_id = engine_id w\<rparr>))"
proof -
  let ?ws = "get_available (rq_now rq) g None (Some ''realtime'') eid (rq_model rq) valid_ids"
  show ?thesis
  proof (cases ?ws)
    case Nil
    then show ?thesis by (simp add: acquire_worker_def)
  next
    case (Cons w ws)
    show ?thesis
    proof (cases "has_room st w")
      case True
      then show ?thesis using Cons by (auto simp: acquire_worker_def has_room_def prod.case_eq_if Let_def)
    next
      case False
      then have "acquire_worker rq fresh g eid valid_ids st = acquire_from_list rq fresh 1 ws st"
        using Cons by (cases ws) (simp_all add: acquire_worker_def has_room_def prod.case_eq_if Let_def)
      then show ?thesis unfolding acquire_from_list_first_fit
        using Cons False by (auto simp: Let_def split: option.split)
    qed
  qed
qed

text \<open>Allocation is first fit over the available workers in the registry's order, least loaded first: it
  reserves a slot on the first worker whose counter is below its capacity, and the workers tried before it are
  left exactly as they were; when there is none, nothing changes at all.\<close>

lemma acquire_worker_first_fit:
  "case List.find (has_room st) (get_available (rq_now rq) g None (Some ''realtime'') eid (rq_model rq) valid_ids) of
     None \<Rightarrow> acquire_worker rq fresh g eid valid_ids st = (st, None)
   | Some w \<Rightarrow> has_room st w \<and> w \<in> set (get_available (rq_now rq) g None (Some ''realtime'') eid (rq_model rq) valid_ids)
       \<and> (\<exists>k. acquire_worker rq fresh g eid valid_ids st =
          (commit_session rq (fresh k) w (fst (incr_counter (instance_id w) 1 st)),
           Some \<lparr>al_instance = instance_id w, al_session = fresh k, al_engine_id = engine_id w\<rparr>))"
  using acquire_worker_fits [where rq = rq and g = g and eid = eid and valid_ids = valid_ids and st = st and fresh = fresh]
  by (auto simp: Let_def split: option.splits dest: find_SomeD)

text \<open>A whole allocation that meets no other gateway is a run of the interleaved steps.\<close>

lemma first_fit_steps:
  assumes "capacity w = cap (instance_id w)" and "has_room st w" and "instance_id w \<noteq> []" and "unused sid st"
  shows "(rt_step cap)\<^sup>*\<^sup>* (st, ps) (commit_session rq sid w (fst (incr_counter (instance_id w) 1 st)), ps)"
proof -
  let ?i = "instance_id w" and ?st = "fst (incr_counter (instance_id w) 1 st)"
  let ?n = "snd (incr_counter (instance_id w) 1 st)"
  have "rt_step cap (st, ps) (?st, add_mset (?i, ?n) ps)" by (rule rt_step.reserve [OF assms(3)])
  moreover have "rt_step cap (?st, add_mset (?i, ?n) ps) (commit_session rq sid w ?st, ps)"
    by (rule rt_step.keep) (use assms in \<open>auto simp: has_room_def unused_def\<close>)
  ultimately show ?thesis by (meson converse_rtranclp_into_rtranclp r_into_rtranclp)
qed

lemma acquire_worker_steps:
  assumes "\<forall>w \<in> set (get_available (rq_now rq) g None (Some ''realtime'') eid (rq_model rq) valid_ids).
      capacity w = cap (instance_id w) \<and> instance_id w \<noteq> []"
    and "\<forall>k. unused (fresh k) st"
  shows "(rt_step cap)\<^sup>*\<^sup>* (st, ps) (fst (acquire_worker rq fresh g eid valid_ids st), ps)"
proof -
  let ?ws = "get_available (rq_now rq) g None (Some ''realtime'') eid (rq_model rq) valid_ids"
  note fit = acquire_worker_fits [where rq = rq and g = g and eid = eid and valid_ids = valid_ids and st = st and fresh = fresh, unfolded Let_def]
  show ?thesis
  proof (cases "List.find (has_room st) ?ws")
    case None
    then show ?thesis using fit by simp
  next
    case (Some w)
    then obtain k where k: "fst (acquire_worker rq fresh g eid valid_ids st)
        = commit_session rq (fresh k) w (fst (incr_counter (instance_id w) 1 st))"
      using fit by auto
    have "w \<in> set ?ws" "has_room st w" using find_SomeD [OF Some] by auto
    then show ?thesis unfolding k using assms by (intro first_fit_steps) auto
  qed
qed

lemma clean_orphan_facts:
  assumes "rt_inv cap (st, ps)" and "sid \<in> set (rt_active st)" and "rt_records st sid = None"
  shows "rt_inv cap (clean_orphan sid st, ps)" "rt_records (clean_orphan sid st) = rt_records st"
    "rt_active (clean_orphan sid st) = set_del sid (rt_active st)"
proof -
  show "rt_inv cap (clean_orphan sid st, ps)" by (rule rt_step_inv [OF rt_step.orphan [OF assms(2,3)] assms(1)])
  obtain i where i: "sid \<in> rt_sessions st i" using assms(1,2) by (auto simp: rt_inv_def indexed_def)
  then have "clean_orphan sid st = drop_session sid i st"
    by (rule orphan_drop [OF rt_invD(2,1) [OF assms(1)]])
  then show "rt_records (clean_orphan sid st) = rt_records st"
      "rt_active (clean_orphan sid st) = set_del sid (rt_active st)"
    by (simp_all add: drop_session_def)
qed

lemma clean_orphans_facts:
  assumes "rt_inv cap (st, ps)" and "set sids \<subseteq> set (rt_active st)" and "distinct sids"
  shows "(rt_step cap)\<^sup>*\<^sup>* (st, ps) (fst (clean_orphans sids st), ps)
    \<and> set (rt_active (fst (clean_orphans sids st))) = set (rt_active st) - {sid \<in> set sids. rt_records st sid = None}
    \<and> rt_records (fst (clean_orphans sids st)) = rt_records st"
  using assms
proof (induction sids arbitrary: st)
  case (Cons sid sids)
  show ?case
  proof (cases "rt_records st sid")
    case None
    have sid: "sid \<in> set (rt_active st)" using Cons.prems(2) by simp
    note facts = clean_orphan_facts [OF Cons.prems(1) sid None]
    have "set sids \<subseteq> set (rt_active (clean_orphan sid st))" using facts(3) Cons.prems(2,3) by auto
    from Cons.IH [OF facts(1) this] Cons.prems(3)
    have IH: "(rt_step cap)\<^sup>*\<^sup>* (clean_orphan sid st, ps) (fst (clean_orphans sids (clean_orphan sid st)), ps)
        \<and> set (rt_active (fst (clean_orphans sids (clean_orphan sid st))))
            = set (rt_active st) - {sid} - {sid \<in> set sids. rt_records st sid = None}
        \<and> rt_records (fst (clean_orphans sids (clean_orphan sid st))) = rt_records st"
      by (simp add: facts)
    have "rt_step cap (st, ps) (clean_orphan sid st, ps)" by (rule rt_step.orphan [OF sid None])
    then have "(rt_step cap)\<^sup>*\<^sup>* (st, ps) (fst (clean_orphans sids (clean_orphan sid st)), ps)"
      using IH by (meson converse_rtranclp_into_rtranclp)
    then show ?thesis using IH None by (auto simp: prod.case_eq_if)
  next
    case (Some r)
    then show ?thesis using Cons.IH [OF Cons.prems(1)] Cons.prems(2,3) by auto
  qed
qed simp

text \<open>The operations refine the interleaved steps: an allocation whose identifiers are unused, a release of an
  active session, and a sweep over the orphans are runs of them; and after a sweep the active sessions are
  exactly those that had a live record, so every slot of a crashed gateway is free again.\<close>

lemma session_operations_refine:
  assumes "rt_reachable cap (st, ps)"
  shows "((\<forall>w \<in> set (get_available (rq_now rq) g None (Some ''realtime'') eid (rq_model rq) valid_ids).
          capacity w = cap (instance_id w) \<and> instance_id w \<noteq> []) \<and> (\<forall>k. unused (fresh k) st)
        \<longrightarrow> (rt_step cap)\<^sup>*\<^sup>* (st, ps) (fst (acquire_worker rq fresh g eid valid_ids st), ps))
    \<and> (\<forall>sid r. rt_records st sid = Some r \<and> sr_status r = ''active''
        \<longrightarrow> rt_step cap (st, ps) (fst (release_worker sid st), ps))
    \<and> (rt_step cap)\<^sup>*\<^sup>* (st, ps) (fst (reconcile_orphaned_sessions st), ps)
    \<and> set (rt_active (fst (reconcile_orphaned_sessions st))) = {sid \<in> set (rt_active st). rt_records st sid \<noteq> None}"
proof -
  have inv: "rt_inv cap (st, ps)" by (rule rt_reachable_inv [OF assms])
  then have "distinct (rt_active st)" by (simp add: rt_inv_def indexed_def)
  note sweep = clean_orphans_facts [OF inv subset_refl this]
  have "set (rt_active (fst (reconcile_orphaned_sessions st))) = {sid \<in> set (rt_active st). rt_records st sid \<noteq> None}"
  proof -
    have "set (rt_active st) - {sid \<in> set (rt_active st). rt_records st sid = None}
        = {sid \<in> set (rt_active st). rt_records st sid \<noteq> None}" by auto
    then show ?thesis unfolding reconcile_orphaned_sessions_def using sweep by simp
  qed
  moreover have "(rt_step cap)\<^sup>*\<^sup>* (st, ps) (fst (reconcile_orphaned_sessions st), ps)"
    using sweep by (simp add: reconcile_orphaned_sessions_def)
  moreover have "\<forall>sid r. rt_records st sid = Some r \<and> sr_status r = ''active''
      \<longrightarrow> rt_step cap (st, ps) (fst (release_worker sid st), ps)"
    by (auto intro: rt_step.release)
  moreover have "(\<forall>w \<in> set (get_available (rq_now rq) g None (Some ''realtime'') eid (rq_model rq) valid_ids).
          capacity w = cap (instance_id w) \<and> instance_id w \<noteq> []) \<and> (\<forall>k. unused (fresh k) st)
        \<longrightarrow> (rt_step cap)\<^sup>*\<^sup>* (st, ps) (fst (acquire_worker rq fresh g eid valid_ids st), ps)"
    by (intro impI acquire_worker_steps) simp_all
  ultimately show ?thesis by (intro conjI)
qed

section \<open>A worker with one slot\<close>

definition demo_worker :: engine_record where
  "demo_worker =
     \<lparr>instance_id = ''rt-1'', engine_id = ''e'', engine_stage = ''transcribe'', engine_status = ''ready'',
      interfaces = [''realtime''], capacity = 1, active_batch = 0, active_realtime = 0,
      models_loaded = None, last_heartbeat = None, capabilities = None\<rparr>"

definition demo_request :: request where
  "demo_request = \<lparr>rq_language = ''en'', rq_model = None, rq_client_ip = ''10.0.0.1'', rq_now = 0\<rparr>"

definition demo_taken :: rt_state where
  "demo_taken = commit_session demo_request ''sess_1'' demo_worker (fst (incr_counter ''rt-1'' 1 empty_rt))"

lemma demo_taken_reachable: "rt_reachable (\<lambda>_. 1) (demo_taken, {#})"
proof -
  let ?st = "fst (incr_counter ''rt-1'' 1 empty_rt)"
  have n: "snd (incr_counter ''rt-1'' 1 empty_rt) = 1" by (simp add: empty_rt_def)
  have "rt_step (\<lambda>_. 1) (empty_rt, {#}) (?st, add_mset (instance_id demo_worker, 1) {#})"
    using rt_step.reserve [of "''rt-1''" "\<lambda>_. 1" empty_rt "{#}"] n by (simp add: demo_worker_def)
  moreover have "rt_step (\<lambda>_. 1) (?st, add_mset (instance_id demo_worker, 1) {#}) (demo_taken, {#})"
    unfolding demo_taken_def by (rule rt_step.keep) (simp_all add: demo_worker_def unused_def empty_rt_def)
  ultimately show ?thesis by (meson rt_reachable.intros)
qed


lemma session_operations_refine_example:
  "(rt_step (\<lambda>_. 1))\<^sup>*\<^sup>* (lapse_session ''sess_1'' demo_taken, {#})
     (fst (reconcile_orphaned_sessions (lapse_session ''sess_1'' demo_taken)), {#})
   \<and> rt_active (fst (reconcile_orphaned_sessions (lapse_session ''sess_1'' demo_taken))) = []"
proof -
  have r: "rt_reachable (\<lambda>_. 1) (lapse_session ''sess_1'' demo_taken, {#})"
    by (rule rt_reachable.step [OF demo_taken_reachable rt_step.lapse])
  have "rt_active (lapse_session ''sess_1'' demo_taken) = [''sess_1'']"
    by (simp add: lapse_session_def demo_taken_def empty_rt_def set_add_def)
  moreover have "rt_records (lapse_session ''sess_1'' demo_taken) ''sess_1'' = None"
    by (simp add: lapse_session_def)
  moreover note ops = session_operations_refine [OF r, THEN conjunct2, THEN conjunct2]
  ultimately have "set (rt_active (fst (reconcile_orphaned_sessions (lapse_session ''sess_1'' demo_taken)))) = {}"
    by simp
  then show ?thesis using ops [THEN conjunct1] by simp
qed

end
