(* ===== verification/Rounding.thy ===== *)
theory Rounding
  imports Prelude
begin

text \<open>
  Python's \<open>round\<close> on exact numbers: ties go to the even neighbour. \<open>round(x, 3)\<close> puts a
  time on the grid of milliseconds and leaves a time of the grid as it is.
\<close>

definition py_round :: "rat \<Rightarrow> int" where
  "py_round x =
     (let f = \<lfloor>x\<rfloor>; d = x - of_int f
      in if d < 1/2 then f else if d > 1/2 then f + 1 else if even f then f else f + 1)"

definition round_ms :: "rat \<Rightarrow> rat" where
  "round_ms x = of_int (py_round (x * 1000)) / 1000"

definition on_grid :: "rat \<Rightarrow> rat \<Rightarrow> bool" where
  "on_grid u x \<longleftrightarrow> (\<exists>k. x = of_int k * u)"

abbreviation ms :: rat where "ms \<equiv> 1/1000"

lemma py_round_of_int [simp]: "py_round (of_int k) = k"
  by (simp add: py_round_def)

lemma py_round_cases: "py_round x = \<lfloor>x\<rfloor> \<and> x - of_int \<lfloor>x\<rfloor> \<le> 1/2 \<or> py_round x = \<lfloor>x\<rfloor> + 1 \<and> 1/2 \<le> x - of_int \<lfloor>x\<rfloor>"
  by (simp add: py_round_def Let_def)

lemma py_round_half: "of_int (py_round x) \<le> x + 1/2" "x - 1/2 \<le> of_int (py_round x)"
proof -
  have a: "of_int \<lfloor>x\<rfloor> \<le> x" "x < of_int \<lfloor>x\<rfloor> + 1" by linarith+
  then show "of_int (py_round x) \<le> x + 1/2"
    using py_round_cases [of x] by (elim disjE conjE; simp; linarith)
  show "x - 1/2 \<le> of_int (py_round x)"
    using a py_round_cases [of x] by (elim disjE conjE; simp; linarith)
qed

lemma py_round_mono: assumes "x \<le> y" shows "py_round x \<le> py_round y"
proof (rule ccontr)
  assume "\<not> py_round x \<le> py_round y"
  then have lt: "py_round y + 1 \<le> py_round x" by simp
  then have "of_int (py_round y + 1) \<le> (of_int (py_round x) :: rat)" by (simp only: of_int_le_iff)
  then have "of_int (py_round y) + 1 \<le> (of_int (py_round x) :: rat)" by simp
  with py_round_half(1) [of x] py_round_half(2) [of y] assms
  have xy: "x = y" by linarith
  with lt show False by simp
qed

lemma py_round_le_of_int: "x \<le> of_int k \<Longrightarrow> py_round x \<le> k"
  using py_round_mono [of x "of_int k"] by simp

lemma py_round_ge_of_int: "of_int k \<le> x \<Longrightarrow> k \<le> py_round x"
  using py_round_mono [of "of_int k" x] by simp

lemma on_grid_ms: "on_grid ms x \<longleftrightarrow> (\<exists>k. x * 1000 = of_int k)"
  unfolding on_grid_def by (intro iff_exI) auto

lemma round_ms_grid [simp]: "on_grid ms x \<Longrightarrow> round_ms x = x"
  unfolding on_grid_ms round_ms_def by (elim exE) (simp add: field_simps)

lemma round_ms_on_grid [simp]: "on_grid ms (round_ms x)"
  by (auto simp: on_grid_ms round_ms_def)

lemma round_ms_mono: "x \<le> y \<Longrightarrow> round_ms x \<le> round_ms y"
  by (simp add: round_ms_def py_round_mono divide_right_mono)

lemma round_ms_le: "on_grid ms y \<Longrightarrow> x \<le> y \<Longrightarrow> round_ms x \<le> y"
  using round_ms_mono [of x y] by simp

lemma round_ms_ge: "on_grid ms y \<Longrightarrow> y \<le> x \<Longrightarrow> y \<le> round_ms x"
  using round_ms_mono [of y x] by simp

lemma on_grid_add [simp]: "on_grid u x \<Longrightarrow> on_grid u y \<Longrightarrow> on_grid u (x + y)"
  unfolding on_grid_def by (metis distrib_right of_int_add)

lemma on_grid_diff [simp]: "on_grid u x \<Longrightarrow> on_grid u y \<Longrightarrow> on_grid u (x - y)"
  unfolding on_grid_def by (metis left_diff_distrib of_int_diff)

lemma on_grid_max [simp]: "on_grid u x \<Longrightarrow> on_grid u y \<Longrightarrow> on_grid u (max x y)"
  by (simp add: max_def)

lemma on_grid_min [simp]: "on_grid u x \<Longrightarrow> on_grid u y \<Longrightarrow> on_grid u (min x y)"
  by (simp add: min_def)

text \<open>A midpoint of two grid times that lies past a half is past the rounded half.\<close>

lemma round_ms_mid:
  assumes "on_grid ms a" "on_grid ms b" "on_grid ms c" "on_grid ms d"
    and "(a + b) / 2 < (c + d) / 2"
  shows "round_ms ((a + b) / 2) \<le> (c + d) / 2" and "(a + b) / 2 \<le> round_ms ((c + d) / 2)"
proof -
  obtain i j k l where g: "a * 1000 = of_int i" "b * 1000 = of_int j" "c * 1000 = of_int k" "d * 1000 = of_int l"
    using assms(1-4) unfolding on_grid_ms by blast
  have e: "(a + b) / 2 * 1000 = of_int (i + j) / 2" "(c + d) / 2 * 1000 = of_int (k + l) / 2"
    using g by (simp_all add: field_simps)
  have "of_int (i + j) < (of_int (k + l) :: rat)" using assms(5) g by (simp add: field_simps)
  then have lt: "i + j + 1 \<le> k + l" by linarith
  have "of_int (i + j + 1) \<le> (of_int (k + l) :: rat)" using lt by (simp only: of_int_le_iff)
  then have "of_int (i + j) + 1 \<le> (of_int (k + l) :: rat)" by simp
  then have "(of_int (i + j) + 1) / 2 \<le> (of_int (k + l) :: rat) / 2" by (rule divide_right_mono) simp
  then have half: "of_int (i + j) / 2 + 1/2 \<le> (of_int (k + l) / 2 :: rat)" by (simp only: add_divide_distrib)
  have "of_int (py_round ((a + b) / 2 * 1000)) \<le> (c + d) / 2 * 1000"
    using py_round_half(1) [of "(a + b) / 2 * 1000"] half e by linarith
  then show "round_ms ((a + b) / 2) \<le> (c + d) / 2" by (simp add: round_ms_def)
  have "(a + b) / 2 * 1000 \<le> of_int (py_round ((c + d) / 2 * 1000))"
    using py_round_half(2) [of "(c + d) / 2 * 1000"] half e by linarith
  then show "(a + b) / 2 \<le> round_ms ((c + d) / 2)" by (simp add: round_ms_def)
qed

end
