(* ===== verification/Chunking.thy ===== *)
theory Chunking
  imports Turns Rounding "HOL-Library.List_Lexorder" "HOL-Library.Char_ord"
begin

text \<open>
  Diarization of long audio (\<open>dalston/engine_sdk/diarize_chunking.py\<close>): planning overlapping
  chunks, linking the speakers of the chunks, merging their turns into one timeline, the
  overlap statistics, and the engine's loop that halves the chunk size when a pass fails
  (\<open>engines/stt-diarize/pyannote-4.0/engine.py\<close>). The diarization model, its embeddings
  and the clustering are parameters. A loop that may not end is a partial function whose
  value is then \<open>None\<close>.
\<close>

definition DEFAULT_OVERLAP_S :: rat where "DEFAULT_OVERLAP_S = 30"
definition DEFAULT_MIN_CHUNK_S :: rat where "DEFAULT_MIN_CHUNK_S = 60"

section \<open>Planning the chunks\<close>

text \<open>The end of the chunk that starts at \<open>start\<close>; the tail is taken in when it is short.\<close>

definition chunk_end :: "rat \<Rightarrow> rat \<Rightarrow> rat \<Rightarrow> rat \<Rightarrow> rat \<Rightarrow> rat" where
  "chunk_end dur max_chunk ov min_chunk start =
     (let end = min (start + max_chunk) dur;
          next_start = start + (max_chunk - ov);
          next_chunk_len = dur - next_start;
          extended_len = dur - start
      in if end < dur \<and> 0 < next_chunk_len \<and> next_chunk_len < min_chunk
           \<and> extended_len \<le> max_chunk + min_chunk
         then dur else end)"

partial_function (option) boundaries_loop ::
  "rat \<Rightarrow> rat \<Rightarrow> rat \<Rightarrow> rat \<Rightarrow> rat \<Rightarrow> (rat \<times> rat) list \<Rightarrow> (rat \<times> rat) list option" where
  "boundaries_loop dur max_chunk ov min_chunk start acc =
     (if start < dur
      then (let e = chunk_end dur max_chunk ov min_chunk start
            in if e \<ge> dur then Some (acc @ [(start, e)])
               else boundaries_loop dur max_chunk ov min_chunk (start + (max_chunk - ov)) (acc @ [(start, e)]))
      else Some acc)"

definition compute_chunk_boundaries :: "rat \<Rightarrow> rat \<Rightarrow> rat \<Rightarrow> rat \<Rightarrow> (rat \<times> rat) list option" where
  "compute_chunk_boundaries dur max_chunk ov min_chunk =
     (if dur \<le> max_chunk then Some [(0, dur)]
      else boundaries_loop dur max_chunk ov min_chunk 0 [])"

section \<open>Linking the speakers of the chunks\<close>

record 'e chunk_result =
  ck_index :: nat
  ck_start :: rat
  ck_end :: rat
  ck_speakers :: "string list"
  ck_turns :: "speaker_turn list"
  ck_embeddings :: "(string \<times> 'e) list"

type_synonym label_maps = "(nat \<times> (string \<times> string) list) list"

definition speaker_name :: "nat \<Rightarrow> string" where
  "speaker_name n = ''SPEAKER_'' @ pad_nat 2 n"

definition identity_maps :: "'e chunk_result list \<Rightarrow> label_maps" where
  "identity_maps crs = dmerge [] (map (\<lambda>c. (ck_index c, dmerge [] (map (\<lambda>s. (s, s)) (ck_speakers c)))) crs)"

definition provenance :: "'e chunk_result list \<Rightarrow> (nat \<times> string) list" where
  "provenance crs = concat (map (\<lambda>c. map (\<lambda>(s, e). (ck_index c, s)) (ck_embeddings c)) crs)"

definition all_centroids :: "'e chunk_result list \<Rightarrow> 'e list" where
  "all_centroids crs = concat (map (\<lambda>c. map snd (ck_embeddings c)) crs)"

text \<open>Clusters are named by the order of their first appearance.\<close>

fun assign_names :: "int list \<Rightarrow> (nat \<times> string) list \<Rightarrow> (int \<times> string) list \<Rightarrow> label_maps \<Rightarrow> label_maps" where
  "assign_names (cluster # ls) ((idx, local) # prov) names maps =
     (let names' = (if dhas names cluster then names else dset cluster (speaker_name (length names)) names);
          g = dget_or names' cluster []
      in assign_names ls prov names' (dset idx (dset local g (dget_or maps idx [])) maps))"
| "assign_names _ _ names maps = maps"

text \<open>
  The clustering is the third party's: the labels it gives to the centroids, or nothing when
  it raises.
\<close>

definition link_speakers :: "('e list \<Rightarrow> int list option) \<Rightarrow> 'e chunk_result list \<Rightarrow> label_maps" where
  "link_speakers cluster crs =
     (if length (all_centroids crs) < 2 then identity_maps crs
      else (case cluster (all_centroids crs) of
              None \<Rightarrow> identity_maps crs
            | Some labels \<Rightarrow>
                assign_names labels (provenance crs) []
                  (dmerge [] (map (\<lambda>c. (ck_index c, [])) crs))))"

section \<open>Merging the turns\<close>

type_synonym tagged_turn = "speaker_turn \<times> nat"

definition seams :: "'e chunk_result list \<Rightarrow> rat \<Rightarrow> rat list" where
  "seams crs ov =
     map (\<lambda>i. round_ms ((ck_start (crs ! Suc i) + min (ck_end (crs ! i)) (ck_start (crs ! Suc i) + ov)) / 2))
       [0..<length crs - 1]"

definition chunk_range :: "'e chunk_result list \<Rightarrow> rat \<Rightarrow> nat \<Rightarrow> rat \<times> rat" where
  "chunk_range crs ov i =
     ((if i > 0 then seams crs ov ! (i - 1) else ck_start (crs ! i)),
      (if i < length (seams crs ov) then seams crs ov ! i else ck_end (crs ! i)))"

definition chunk_range_map :: "'e chunk_result list \<Rightarrow> rat \<Rightarrow> (nat \<times> (rat \<times> rat)) list" where
  "chunk_range_map crs ov = dmerge [] (map (\<lambda>i. (ck_index (crs ! i), chunk_range crs ov i)) [0..<length crs])"

definition trim_turn :: "rat \<times> rat \<Rightarrow> tagged_turn \<Rightarrow> tagged_turn list" where
  "trim_turn rng tt =
     (let (range_start, range_end) = rng; t = fst tt;
          turn_mid = (turn_start t + turn_end t) / 2
      in if range_start \<le> turn_mid \<and> turn_mid \<le> range_end
         then (let s = max (turn_start t) range_start; e = min (turn_end t) range_end
               in if e > s
                  then [(\<lparr>turn_speaker = turn_speaker t, turn_start = round_ms s, turn_end = round_ms e,
                          turn_confidence = turn_confidence t, turn_overlapping = None\<rparr>, snd tt)]
                  else [])
         else [])"

definition resolve_overlaps :: "'e chunk_result list \<Rightarrow> tagged_turn list \<Rightarrow> rat \<Rightarrow> tagged_turn list" where
  "resolve_overlaps crs tagged ov =
     (let ranges = chunk_range_map crs ov
      in concat (map (\<lambda>tt. case dget ranges (snd tt) of None \<Rightarrow> [tt] | Some rng \<Rightarrow> trim_turn rng tt) tagged))"

definition globalise :: "label_maps \<Rightarrow> 'e chunk_result \<Rightarrow> speaker_turn \<Rightarrow> tagged_turn" where
  "globalise maps c t =
     (\<lparr>turn_speaker = dget_or (dget_or maps (ck_index c) []) (turn_speaker t) (turn_speaker t),
       turn_start = round_ms (turn_start t + ck_start c), turn_end = round_ms (turn_end t + ck_start c),
       turn_confidence = turn_confidence t, turn_overlapping = None\<rparr>, ck_index c)"

definition tagged_turns :: "'e chunk_result list \<Rightarrow> label_maps \<Rightarrow> tagged_turn list" where
  "tagged_turns crs maps = concat (map (\<lambda>c. map (globalise maps c) (ck_turns c)) crs)"

definition merge_chunks :: "'e chunk_result list \<Rightarrow> label_maps \<Rightarrow> rat \<Rightarrow> string list \<times> speaker_turn list" where
  "merge_chunks crs maps ov =
     (let tagged = tagged_turns crs maps;
          tagged' = (if length crs > 1 \<and> ov > 0 then resolve_overlaps crs tagged ov else tagged);
          turns = py_sorted turn_key (map fst tagged')
      in (sort (remdups (map turn_speaker turns)), turns))"

section \<open>Overlap statistics\<close>

text \<open>The sweep over the starts and ends: (active, overlap, speech, previous time).\<close>

type_synonym sweep = "int \<times> rat \<times> rat \<times> rat"

definition sweep_events :: "speaker_turn list \<Rightarrow> (rat \<times> int) list" where
  "sweep_events turns = sort (concat (map (\<lambda>t. [(turn_start t, 1), (turn_end t, -1)]) turns))"

fun sweep_from :: "sweep \<Rightarrow> (rat \<times> int) list \<Rightarrow> sweep" where
  "sweep_from st [] = st"
| "sweep_from (active, ov, speech, prev) ((time, delta) # es) =
     (let dt = time - prev;
          ov' = (if time > prev \<and> active \<ge> 2 then ov + dt else ov);
          speech' = (if time > prev \<and> active \<ge> 1 then speech + dt else speech)
      in sweep_from (active + delta, ov', speech', time) es)"

definition overlap_stats_from_turns :: "speaker_turn list \<Rightarrow> rat \<times> rat" where
  "overlap_stats_from_turns turns =
     (if turns = [] then (0, 0)
      else (case sweep_from (0, 0, 0, 0) (sweep_events turns) of
              (_, ov, speech, _) \<Rightarrow> (ov, if speech > 0 then ov / speech else 0)))"

section \<open>A whole pass, and the engine's loop over chunk sizes\<close>

datatype diarize_error = ExtractFailed nat | AllChunksFailed | UnboundTurns

text \<open>
  What a pass calls: cutting a chunk out of the file (it may fail), and the model with the
  conversion of its result and the embeddings of its speakers, nothing when one of them
  raises.
\<close>

record 'e diarize_env =
  de_extract :: "nat \<Rightarrow> rat \<Rightarrow> rat \<Rightarrow> bool"
  de_diarize :: "nat \<Rightarrow> rat \<Rightarrow> rat \<Rightarrow> (string list \<times> speaker_turn list \<times> (string \<times> 'e) list) option"
  de_cluster :: "'e list \<Rightarrow> int list option"

fun diarize_chunks :: "'e diarize_env \<Rightarrow> nat \<Rightarrow> (rat \<times> rat) list \<Rightarrow> diarize_error + 'e chunk_result list" where
  "diarize_chunks env i [] = Inr []"
| "diarize_chunks env i ((s, e) # bs) =
     (if \<not> de_extract env i s e then Inl (ExtractFailed i)
      else bind_res (diarize_chunks env (Suc i) bs) (\<lambda>rest.
        Inr ((case de_diarize env i s e of
                None \<Rightarrow> []
              | Some (speakers, turns, embs) \<Rightarrow>
                  [\<lparr>ck_index = i, ck_start = s, ck_end = e, ck_speakers = speakers, ck_turns = turns,
                    ck_embeddings = embs\<rparr>]) @ rest)))"

definition run_chunked_diarization ::
  "'e diarize_env \<Rightarrow> rat \<Rightarrow> rat \<Rightarrow> rat \<Rightarrow> (diarize_error + string list \<times> speaker_turn list) option" where
  "run_chunked_diarization env dur max_chunk ov =
     (case compute_chunk_boundaries dur max_chunk ov DEFAULT_MIN_CHUNK_S of
        None \<Rightarrow> None
      | Some bs \<Rightarrow>
          Some (bind_res (diarize_chunks env 0 bs) (\<lambda>crs.
            if crs = [] then Inl AllChunksFailed
            else Inr (merge_chunks crs (link_speakers (de_cluster env) crs) ov))))"

partial_function (option) diarize_backoff ::
  "'e diarize_env \<Rightarrow> rat \<Rightarrow> rat \<Rightarrow> (diarize_error + string list \<times> speaker_turn list) option" where
  "diarize_backoff env dur max_chunk =
     (if max_chunk \<ge> 30
      then (case run_chunked_diarization env dur max_chunk DEFAULT_OVERLAP_S of
              None \<Rightarrow> None
            | Some r \<Rightarrow>
                if r = Inl AllChunksFailed \<and> max_chunk > 30
                then diarize_backoff env dur (max 30 (max_chunk / 2))
                else Some r)
      else Some (Inl UnboundTurns))"

end
