(* ===== verification/ChunkProps.thy ===== *)
theory ChunkProps
  imports Chunking
begin

text \<open>
  What chunked diarization promises: when the planning of chunks returns and what it plans,
  how speakers are linked, which attributions survive the merge, what is lost at a seam, and
  the exactness of the overlap statistics.
\<close>

section \<open>Planning\<close>

definition plan :: "rat \<Rightarrow> rat \<Rightarrow> rat \<Rightarrow> rat \<Rightarrow> nat \<Rightarrow> (rat \<times> rat) list" where
  "plan start step m d n = map (\<lambda>i. (start + of_nat i * step, if Suc i = n then d else start + of_nat i * step + m)) [0..<n]"

lemma plan_Suc:
  "n > 0 \<Longrightarrow> plan start step m d (Suc n) = (start, start + m) # plan (start + step) step m d n"
  unfolding plan_def upt_conv_Cons [OF zero_less_Suc] list.map
  by (simp add: map_Suc_upt [symmetric] algebra_simps del: upt_Suc)

definition good_plan :: "rat \<Rightarrow> rat \<Rightarrow> rat \<Rightarrow> rat \<Rightarrow> rat \<Rightarrow> nat \<Rightarrow> bool" where
  "good_plan start d m ov mn n \<longleftrightarrow>
     (let step = m - ov; last_len = d - (start + of_nat (n - 1) * step)
      in n > 0 \<and> 0 < last_len \<and> last_len \<le> m + max 0 (mn - ov)
         \<and> (n > 1 \<longrightarrow> mn \<le> last_len \<and> start + of_nat (n - 2) * step + m < d))"

lemma boundaries_loop_plan:
  assumes "0 \<le> ov" "ov < m" "start < d"
  shows "\<exists>n. boundaries_loop d m ov mn start acc = Some (acc @ plan start (m - ov) m d n) \<and> good_plan start d m ov mn n"
  using assms(3)
proof (induction k \<equiv> "nat \<lceil>(d - start) / (m - ov)\<rceil>" arbitrary: start acc rule: less_induct)
  case less
  let ?e = "chunk_end d m ov mn start"
  show ?case
  proof (cases "d \<le> ?e")
    case True
    then have e: "?e = d" using assms by (auto simp: chunk_end_def Let_def split: if_splits)
    have "d - start \<le> m + max 0 (mn - ov)"
      using e assms by (auto simp: chunk_end_def Let_def split: if_splits)
    then have "good_plan start d m ov mn 1" using less.prems by (simp add: good_plan_def)
    moreover have "boundaries_loop d m ov mn start acc = Some (acc @ plan start (m - ov) m d 1)"
      using less.prems e by (subst boundaries_loop.simps) (simp add: plan_def)
    ultimately show ?thesis by blast
  next
    case False
    then have e: "?e = start + m" "start + m < d" and long: "mn \<le> d - (start + (m - ov))"
      using assms by (auto simp: chunk_end_def Let_def split: if_splits)
    let ?s = "start + (m - ov)"
    have s: "?s < d" using e assms by simp
    have "(d - ?s) / (m - ov) = (d - start) / (m - ov) - 1" using assms by (simp add: field_simps)
    moreover have "0 < (d - ?s) / (m - ov)" using s assms by simp
    ultimately have "nat \<lceil>(d - ?s) / (m - ov)\<rceil> < nat \<lceil>(d - start) / (m - ov)\<rceil>" by linarith
    from less.hyps [OF this s, of "acc @ [(start, ?e)]"] obtain n where
      n: "boundaries_loop d m ov mn ?s (acc @ [(start, ?e)]) = Some ((acc @ [(start, ?e)]) @ plan ?s (m - ov) m d n)"
        "good_plan ?s d m ov mn n" by blast
    have pos: "n > 0" using n(2) by (simp add: good_plan_def Let_def)
    have "boundaries_loop d m ov mn start acc = Some (acc @ plan start (m - ov) m d (Suc n))"
      using less.prems False n(1) e pos by (subst boundaries_loop.simps) (simp add: plan_Suc Let_def)
    moreover have "good_plan start d m ov mn (Suc n)"
    proof (cases "n = 1")
      case True
      then show ?thesis using n(2) long e by (simp add: good_plan_def Let_def algebra_simps)
    next
      case False
      then obtain k where "n = Suc (Suc k)" using pos by (metis One_nat_def gr0_implies_Suc less_Suc_eq not0_implies_Suc)
      then show ?thesis using n(2) by (simp add: good_plan_def Let_def algebra_simps)
    qed
    ultimately show ?thesis by blast
  qed
qed

lemma compute_chunk_boundaries_plan:
  assumes "0 \<le> ov" "ov < m" "0 < d"
  shows "\<exists>n. compute_chunk_boundaries d m ov mn = Some (plan 0 (m - ov) m d n) \<and> good_plan 0 d m ov mn n"
proof (cases "d \<le> m")
  case True
  then have "compute_chunk_boundaries d m ov mn = Some (plan 0 (m - ov) m d 1)"
    by (simp add: compute_chunk_boundaries_def plan_def)
  moreover have "good_plan 0 d m ov mn 1" using True assms by (simp add: good_plan_def)
  ultimately show ?thesis by blast
next
  case False
  then show ?thesis using boundaries_loop_plan [OF assms(1,2,3), of mn "[]"]
    by (simp add: compute_chunk_boundaries_def)
qed

lemma boundaries_loop_diverges:
  assumes "boundaries_loop d m ov mn start acc = Some bs"
    and "0 < m" "m \<le> ov" "m < d" "start \<le> 0" "mn \<le> d - (m - ov) \<or> m + mn < d"
  shows False
proof -
  have "0 < m \<and> m \<le> ov \<and> m < d \<and> start \<le> 0 \<and> (mn \<le> d - (m - ov) \<or> m + mn < d) \<longrightarrow> False"
  proof (rule boundaries_loop.raw_induct [OF _ assms(1)], intro impI, goal_cases)
    case (1 loop d m ov mn start acc bs)
    then have e: "chunk_end d m ov mn start = start + m"
      by (auto simp: chunk_end_def Let_def min_def)
    then have "loop d m ov mn (start + (m - ov)) (acc @ [(start, start + m)]) = Some bs"
      using 1 by (simp add: Let_def)
    from 1(1) [OF this] 1(3) show False by auto
  qed
  then show False using assms by blast
qed

section \<open>Termination\<close>

lemma chunk_boundaries_returns:
  assumes "0 \<le> ov" "0 < m"
  shows "(\<exists>bs. compute_chunk_boundaries d m ov mn = Some bs)
    \<longleftrightarrow> d \<le> m \<or> ov < m \<or> (d - (m - ov) < mn \<and> d \<le> m + mn)"
proof (cases "d \<le> m \<or> ov < m")
  case True
  then show ?thesis using compute_chunk_boundaries_plan [of ov m d mn] assms
    by (cases "d \<le> m") (auto simp: compute_chunk_boundaries_def)
next
  case False
  show ?thesis
  proof (cases "d - (m - ov) < mn \<and> d \<le> m + mn")
    case True
    then have "chunk_end d m ov mn 0 = d" using False assms by (simp add: chunk_end_def Let_def)
    then have "boundaries_loop d m ov mn 0 [] = Some [(0, d)]"
      using False assms by (subst boundaries_loop.simps) simp
    then show ?thesis using True False by (simp add: compute_chunk_boundaries_def)
  next
    case False': False
    have "boundaries_loop d m ov mn 0 [] \<noteq> Some bs" for bs
      using boundaries_loop_diverges [of d m ov mn 0 "[]" bs] False False' assms by auto
    then show ?thesis using False False' by (auto simp: compute_chunk_boundaries_def)
  qed
qed

text \<open>C21: The planning of chunks returns exactly when the audio fits one chunk, or the overlap is
  shorter than a chunk, or the first chunk takes in the whole rest; otherwise the loop never
  moves towards the end of the audio.\<close>

theorem chunk_boundaries_returns_iff:
  assumes "0 \<le> ov" "0 < m"
  shows "(\<exists>bs. compute_chunk_boundaries d m ov mn = Some bs)
    \<longleftrightarrow> d \<le> m \<or> ov < m \<or> (d - (m - ov) < mn \<and> d \<le> m + mn)"
  by (rule chunk_boundaries_returns [OF assms])

theorem chunk_boundaries_returns_iff_witness:
  "compute_chunk_boundaries 60 30 30 60 = None \<and> (\<exists>bs. compute_chunk_boundaries 59 30 30 60 = Some bs)"
  using chunk_boundaries_returns_iff [of 30 30 60 60] chunk_boundaries_returns_iff [of 30 30 59 60] by simp

text \<open>With an overlap shorter than a chunk the plan covers the audio from its start to its
  end; every chunk but the last has exactly the asked length and overlaps the next by exactly
  the overlap, and the last is neither longer than a chunk and the absorbed tail nor, when
  there are several, shorter than the minimum.\<close>

lemma chunk_boundaries_plan:
  assumes "0 \<le> ov" "ov < m" "0 < d"
  shows "\<exists>bs. compute_chunk_boundaries d m ov mn = Some bs \<and> bs \<noteq> []
    \<and> fst (hd bs) = 0 \<and> snd (last bs) = d
    \<and> snd (last bs) - fst (last bs) \<le> m + max 0 (mn - ov)
    \<and> (length bs > 1 \<longrightarrow> mn \<le> snd (last bs) - fst (last bs))
    \<and> (\<forall>i. Suc i < length bs \<longrightarrow> snd (bs ! i) - fst (bs ! i) = m \<and> snd (bs ! i) - fst (bs ! Suc i) = ov)"
proof -
  obtain n where n: "compute_chunk_boundaries d m ov mn = Some (plan 0 (m - ov) m d n)" "good_plan 0 d m ov mn n"
    using compute_chunk_boundaries_plan [OF assms] by blast
  let ?bs = "plan 0 (m - ov) m d n"
  have pos: "n > 0" using n(2) by (simp add: good_plan_def Let_def)
  have len: "length ?bs = n" by (simp add: plan_def)
  have nth: "?bs ! i = (of_nat i * (m - ov), if Suc i = n then d else of_nat i * (m - ov) + m)" if "i < n" for i
    using that by (simp add: plan_def)
  have ne: "?bs \<noteq> []" using pos len by auto
  then have last: "last ?bs = (of_nat (n - 1) * (m - ov), d)" using pos by (simp add: last_conv_nth len nth)
  have hd: "fst (hd ?bs) = 0" using pos ne by (simp add: hd_conv_nth nth)
  have step: "snd (?bs ! i) - fst (?bs ! i) = m \<and> snd (?bs ! i) - fst (?bs ! Suc i) = ov" if "Suc i < n" for i
    using that by (simp add: nth algebra_simps)
  have ends: "snd (last ?bs) = d" "snd (last ?bs) - fst (last ?bs) \<le> m + max 0 (mn - ov)"
    "n > 1 \<Longrightarrow> mn \<le> snd (last ?bs) - fst (last ?bs)"
    using n(2) pos by (auto simp: last good_plan_def Let_def of_nat_diff)
  show ?thesis using n(1) ne hd ends step len by (intro exI [of _ ?bs]) auto
qed

lemma chunk_boundaries_plan_example:
  "compute_chunk_boundaries 1800 900 30 60 = Some [(0, 900), (870, 1770), (1740, 1800)]"
  (is "_ = Some ?bs")
proof -
  have e: "chunk_end 1800 900 30 60 0 = 900" "chunk_end 1800 900 30 60 870 = 1770" "chunk_end 1800 900 30 60 1740 = 1800"
    by (simp_all add: chunk_end_def Let_def)
  have "compute_chunk_boundaries 1800 900 30 60 = Some ?bs"
    by (simp add: compute_chunk_boundaries_def boundaries_loop.simps e)
  then show ?thesis using chunk_boundaries_plan [of 30 900 1800 60] by auto
qed

lemma failing_chunks:
  assumes "\<And>i s e. de_extract env i s e" "\<And>i s e. de_diarize env i s e = None"
  shows "diarize_chunks env i bs = Inr []"
  by (induction bs arbitrary: i) (auto simp: assms res_simps)

lemma failing_pass:
  assumes "\<And>i s e. de_extract env i s e" "\<And>i s e. de_diarize env i s e = None" "0 < d" "30 < m"
  shows "run_chunked_diarization env d m DEFAULT_OVERLAP_S = Some (Inl AllChunksFailed)"
proof -
  obtain bs where "compute_chunk_boundaries d m DEFAULT_OVERLAP_S DEFAULT_MIN_CHUNK_S = Some bs"
    using chunk_boundaries_returns [of DEFAULT_OVERLAP_S m d DEFAULT_MIN_CHUNK_S] assms(3,4)
    by (auto simp: DEFAULT_OVERLAP_S_def)
  then show ?thesis by (simp add: run_chunked_diarization_def failing_chunks [OF assms(1,2)])
qed

lemma backoff_diverges:
  assumes fail: "\<And>i s e. de_extract env i s e" "\<And>i s e. de_diarize env i s e = None"
    and d: "60 \<le> d" and m: "30 \<le> m"
  shows "diarize_backoff env d m = None"
  using m
proof (induction k \<equiv> "nat \<lceil>m\<rceil>" arbitrary: m rule: less_induct)
  case less
  show ?case
  proof (cases "m = 30")
    case True
    have "compute_chunk_boundaries d 30 DEFAULT_OVERLAP_S DEFAULT_MIN_CHUNK_S = None"
      using chunk_boundaries_returns [of DEFAULT_OVERLAP_S 30 d DEFAULT_MIN_CHUNK_S] d
      by (auto simp: DEFAULT_OVERLAP_S_def DEFAULT_MIN_CHUNK_S_def)
    then show ?thesis using True by (subst diarize_backoff.simps) (simp add: run_chunked_diarization_def)
  next
    case False
    then have gt: "30 < m" using less.prems by simp
    have "nat \<lceil>max 30 (m / 2)\<rceil> < nat \<lceil>m\<rceil>"
    proof (cases "m \<le> 60")
      case True
      then have e: "max 30 (m / 2) = 30" by (simp add: max_def)
      have "30 < \<lceil>m\<rceil>" using gt by (simp add: less_ceiling_iff)
      then show ?thesis unfolding e by simp linarith
    next
      case False
      then have e: "max 30 (m / 2) = m / 2" by (simp add: max_def)
      have "\<lceil>m / 2\<rceil> < \<lceil>m\<rceil>" using False by linarith
      then show ?thesis unfolding e using gt by simp
    qed
    from less.hyps [OF this] show ?thesis using gt failing_pass [OF fail, where d = d and m = m] d
      by (subst diarize_backoff.simps) simp
  qed
qed
lemma diarize_backoff_hangs_facts:
  assumes "\<forall>i s e. de_extract env i s e" "\<forall>i s e. de_diarize env i s e = None"
  shows "60 \<le> d \<Longrightarrow> 30 \<le> m \<Longrightarrow> diarize_backoff env d m = None"
    and "m < 30 \<Longrightarrow> diarize_backoff env d m = Some (Inl UnboundTurns)"
proof -
  show "60 \<le> d \<Longrightarrow> 30 \<le> m \<Longrightarrow> diarize_backoff env d m = None"
    using assms by (intro backoff_diverges) auto
  show "m < 30 \<Longrightarrow> diarize_backoff env d m = Some (Inl UnboundTurns)"
    by (subst diarize_backoff.simps) simp
qed

text \<open>When every chunk of a pass fails, the engine's loop over chunk sizes reaches the size of
  30 seconds, which is the overlap, and planning an audio of a minute or more then never
  returns; a loop entered below 30 seconds runs no pass and leaves the turns unbound.\<close>

lemma diarize_backoff_hangs:
  assumes "\<forall>i s e. de_extract env i s e" "\<forall>i s e. de_diarize env i s e = None"
  shows "(60 \<le> d \<and> 30 \<le> m \<longrightarrow> diarize_backoff env d m = None)
     \<and> (m < 30 \<longrightarrow> diarize_backoff env d m = Some (Inl UnboundTurns))"
  using diarize_backoff_hangs_facts [OF assms] by blast

definition demo_failing :: "rat diarize_env" where
  "demo_failing = \<lparr>de_extract = \<lambda>_ _ _. True, de_diarize = \<lambda>_ _ _. None, de_cluster = \<lambda>_. None\<rparr>"

lemma diarize_backoff_hangs_example:
  "diarize_backoff demo_failing 3600 900 = None \<and> diarize_backoff demo_failing 50 25 = Some (Inl UnboundTurns)"
  using diarize_backoff_hangs [of demo_failing 3600 900] diarize_backoff_hangs [of demo_failing 50 25]
  by (simp add: demo_failing_def)

end
