(* ===== verification/MergeProps.thy ===== *)
theory MergeProps
  imports ChunkProps
begin

text \<open>
  From the chunks to one timeline: speakers of different chunks share a name exactly when the
  clustering puts them together; away from the overlaps every attribution survives the merge;
  at a seam no moment takes turns from two chunks, and speech can be lost; the overlap
  statistics count what they say.
\<close>

section \<open>Naming the clusters\<close>

definition name_cluster :: "(int \<times> string) list \<Rightarrow> int \<Rightarrow> (int \<times> string) list" where
  "name_cluster names c = (if dhas names c then names else dset c (speaker_name (length names)) names)"

definition well_named :: "(int \<times> string) list \<Rightarrow> bool" where
  "well_named names \<longleftrightarrow> distinct (map fst names)
     \<and> (\<forall>c g. dget names c = Some g \<longrightarrow> (\<exists>k < length names. g = speaker_name k))
     \<and> (\<forall>c c' g. dget names c = Some g \<longrightarrow> dget names c' = Some g \<longrightarrow> c = c')"

lemma speaker_name_inject [simp]: "speaker_name a = speaker_name b \<longleftrightarrow> a = b"
  by (simp add: speaker_name_def)

lemma dhas_keys: "dhas d k \<longleftrightarrow> k \<in> fst ` set d"
  by (simp add: dhas_def dget_def map_of_eq_None_iff)

lemma length_dset: "length (dset k v d) = (if dhas d k then length d else Suc (length d))"
  by (induction d) (auto simp: dset_def dhas_keys)

lemma well_named_step: "well_named names \<Longrightarrow> well_named (name_cluster names c)"
proof (cases "dhas names c")
  case True
  then show "well_named names \<Longrightarrow> ?thesis" by (simp add: name_cluster_def)
next
  case False
  assume wn: "well_named names"
  let ?n = "speaker_name (length names)"
  have e: "name_cluster names c = dset c ?n names" using False by (simp add: name_cluster_def)
  have fresh: "dget names a \<noteq> Some ?n" for a
    using wn unfolding well_named_def by (metis less_irrefl speaker_name_inject)
  have "\<exists>k < Suc (length names). g = speaker_name k" if "dget (dset c ?n names) a = Some g" for a g
    using that wn unfolding well_named_def by (auto split: if_splits simp: less_Suc_eq)
  moreover have "a = b" if "dget (dset c ?n names) a = Some g" "dget (dset c ?n names) b = Some g" for a b g
    using that wn fresh unfolding well_named_def by (auto split: if_splits)
  moreover have "length (dset c ?n names) = Suc (length names)" using False by (simp add: length_dset)
  moreover have "distinct (map fst (dset c ?n names))" using wn by (simp add: well_named_def distinct_dset)
  ultimately show ?thesis unfolding well_named_def e by metis
qed

lemma name_cluster_keeps: "dget names a = Some g \<Longrightarrow> dget (name_cluster names c) a = Some g"
  by (auto simp: name_cluster_def dhas_def)

lemma name_cluster_has: "dhas (name_cluster names c) c"
  by (simp add: name_cluster_def)

lemma names_keep: "dget names a = Some g \<Longrightarrow> dget (foldl name_cluster names ls) a = Some g"
  by (induction ls arbitrary: names) (simp_all add: name_cluster_keeps)

lemma well_named_all: "well_named names \<Longrightarrow> well_named (foldl name_cluster names ls)"
  by (induction ls arbitrary: names) (simp_all add: well_named_step)

lemma keys_name_cluster: "fst ` set (name_cluster names c) = insert c (fst ` set names)"
  using dkeys_dset [of c "speaker_name (length names)" names]
  by (auto simp: name_cluster_def dhas_keys)

lemma keys_all: "fst ` set (foldl name_cluster names ls) = fst ` set names \<union> set ls"
  by (induction ls arbitrary: names) (auto simp: keys_name_cluster)

lemma length_names: "well_named names \<Longrightarrow> length names = card (fst ` set names)"
  by (metis distinct_card length_map set_map well_named_def)

text \<open>Looking a speaker up in the maps: a speaker without an entry keeps its label.\<close>

definition global_of :: "label_maps \<Rightarrow> nat \<Rightarrow> string \<Rightarrow> string" where
  "global_of maps idx sp = dget_or (dget_or maps idx []) sp sp"

lemma dget_or_Nil [simp]: "dget_or [] k x = x"
  by (simp add: dget_or_def)

lemma global_of_dset:
  "global_of (dset idx (dset local g (dget_or maps idx [])) maps) i s
   = (if i = idx \<and> s = local then g else global_of maps i s)"
  by (simp add: global_of_def)

lemma assign_names_fold:
  assumes "length ls = length prov" "distinct prov"
  shows "global_of (assign_names ls prov names maps) i s
    = (case map_of (zip prov ls) (i, s) of
         None \<Rightarrow> global_of maps i s
       | Some c \<Rightarrow> dget_or (foldl name_cluster names ls) c [])"
  using assms
proof (induction ls prov arbitrary: names maps rule: list_induct2)
  case Nil
  then show ?case by simp
next
  case (Cons c ls p prov)
  obtain idx l where p: "p = (idx, l)" by (cases p)
  let ?names = "name_cluster names c"
  obtain g where g: "dget ?names c = Some g" using name_cluster_has [of names c] by (auto simp: dhas_def)
  let ?maps = "dset idx (dset l g (dget_or maps idx [])) maps"
  have step: "assign_names (c # ls) (p # prov) names maps = assign_names ls prov ?names ?maps"
    using g unfolding p by (simp add: name_cluster_def [symmetric] Let_def dget_or_def [of _ c])
  have fresh: "map_of (zip prov ls) (idx, l) = None"
    using Cons.prems Cons.hyps p by (simp add: map_of_zip_is_None)
  have kept: "dget_or (foldl name_cluster ?names ls) c [] = g"
    using names_keep [OF g] by (simp add: dget_or_def)
  have ih: "global_of (assign_names ls prov ?names ?maps) i s
    = (case map_of (zip prov ls) (i, s) of None \<Rightarrow> global_of ?maps i s
       | Some c \<Rightarrow> dget_or (foldl name_cluster ?names ls) c [])"
    using Cons.prems by (intro Cons.IH) simp
  show ?case unfolding step ih using fresh kept p by (auto simp: global_of_dset split: option.split)
qed

lemma dget_dmerge_const: "dget_or (dmerge a (map (\<lambda>c. (f c, [])) xs)) k [] = (if k \<in> f ` set xs then [] else dget_or a k [])"
  by (induction xs arbitrary: a) (auto simp: dget_or_def)

lemma provenance_length: "length (provenance crs) = length (all_centroids crs)"
  by (simp add: provenance_def all_centroids_def length_concat comp_def)

lemma set_provenance:
  "(i, s) \<in> set (provenance crs) \<longleftrightarrow> (\<exists>c \<in> set crs. ck_index c = i \<and> s \<in> fst ` set (ck_embeddings c))"
  by (force simp: provenance_def)

lemma distinct_provenance:
  assumes "distinct (map ck_index crs)" "\<forall>c \<in> set crs. distinct (map fst (ck_embeddings c))"
  shows "distinct (provenance crs)"
  using assms
proof (induction crs)
  case Nil
  then show ?case by (simp add: provenance_def)
next
  case (Cons c crs)
  have p: "provenance (c # crs) = map (\<lambda>s. (ck_index c, s)) (map fst (ck_embeddings c)) @ provenance crs"
    by (simp add: provenance_def split_def)
  have "distinct (map (\<lambda>s. (ck_index c, s)) (map fst (ck_embeddings c)))"
    using Cons.prems by (subst distinct_map) (simp add: inj_on_def)
  moreover have "\<forall>d \<in> set crs. ck_index d \<noteq> ck_index c"
    using Cons.prems(1) by (simp add: image_iff) (metis (no_types))
  ultimately show ?case using Cons p by (auto simp: set_provenance)
qed

lemma link_speakers_by_cluster_facts:
  assumes crs: "distinct (map ck_index crs)" "\<forall>c \<in> set crs. distinct (map fst (ck_embeddings c))"
    and labels: "cluster (all_centroids crs) = Some labels" "length labels = length (all_centroids crs)"
    and two: "2 \<le> length (all_centroids crs)"
  defines "name \<equiv> global_of (link_speakers cluster crs)"
  shows "\<forall>p < length labels. \<forall>q < length labels.
      (case_prod name (provenance crs ! p) = case_prod name (provenance crs ! q) \<longleftrightarrow> labels ! p = labels ! q)
      \<and> (\<exists>k < card (set labels). case_prod name (provenance crs ! p) = speaker_name k)"
    and "(i, s) \<notin> set (provenance crs) \<Longrightarrow> name i s = s"
proof -
  let ?N = "foldl name_cluster [] labels" and ?prov = "provenance crs"
  let ?maps = "dmerge [] (map (\<lambda>c. (ck_index c, [])) crs) :: label_maps"
  have len: "length labels = length ?prov" using labels(2) by (simp add: provenance_length)
  have dp: "distinct ?prov" by (rule distinct_provenance [OF crs])
  have empty: "global_of ?maps a b = b" for a b
  proof -
    have "dget_or ?maps a [] = []" using dget_dmerge_const [of "[] :: label_maps" ck_index crs a] by simp
    then show ?thesis unfolding global_of_def by simp
  qed
  have name: "name a b = (case map_of (zip ?prov labels) (a, b) of None \<Rightarrow> b | Some c \<Rightarrow> dget_or ?N c [])" for a b
    using two labels(1) assign_names_fold [OF len dp, of "[]" ?maps a b]
    by (simp add: name_def link_speakers_def empty split: option.split)
  have wn: "well_named ?N" by (rule well_named_all) (simp add: well_named_def)
  have card: "length ?N = card (set labels)"
    using length_names [OF wn] by (simp add: keys_all)
  have at: "case_prod name (?prov ! p) = dget_or ?N (labels ! p) []" if "p < length labels" for p
  proof -
    have "map_of (zip ?prov labels) (?prov ! p) = Some (labels ! p)"
      using that len dp by (simp add: map_of_zip_nth)
    then show ?thesis by (cases "?prov ! p") (simp add: name)
  qed
  have named: "\<exists>g. dget ?N (labels ! p) = Some g" if "p < length labels" for p
    using keys_all [of "[]" labels] that dhas_keys [of ?N "labels ! p"] by (auto simp: dhas_def)
  show "\<forall>p < length labels. \<forall>q < length labels.
      (case_prod name (?prov ! p) = case_prod name (?prov ! q) \<longleftrightarrow> labels ! p = labels ! q)
      \<and> (\<exists>k < card (set labels). case_prod name (?prov ! p) = speaker_name k)"
  proof (intro allI impI)
    fix p q assume pq: "p < length labels" "q < length labels"
    obtain g h where gh: "dget ?N (labels ! p) = Some g" "dget ?N (labels ! q) = Some h"
      using named pq by blast
    have "g = h \<longleftrightarrow> labels ! p = labels ! q" using wn gh unfolding well_named_def by (metis option.inject)
    moreover have "\<exists>k < card (set labels). g = speaker_name k" using wn gh(1) card unfolding well_named_def by metis
    ultimately show "(case_prod name (?prov ! p) = case_prod name (?prov ! q) \<longleftrightarrow> labels ! p = labels ! q)
      \<and> (\<exists>k < card (set labels). case_prod name (?prov ! p) = speaker_name k)"
      using gh by (simp add: at pq dget_or_def)
  qed
  show "name i s = s" if "(i, s) \<notin> set ?prov"
  proof -
    have "map_of (zip ?prov labels) (i, s) = None" using that len by (simp add: map_of_zip_is_None)
    then show ?thesis by (simp add: name)
  qed
qed

text \<open>Speakers are linked as the clustering says: two speakers with embeddings get one global
  name exactly when their centroids are in one cluster, the names are numbered below the
  number of clusters, and a speaker without an embedding keeps its local label.\<close>

lemma link_speakers_by_cluster:
  assumes crs: "distinct (map ck_index crs)" "\<forall>c \<in> set crs. distinct (map fst (ck_embeddings c))"
    and labels: "cluster (all_centroids crs) = Some labels" "length labels = length (all_centroids crs)"
    and two: "2 \<le> length (all_centroids crs)"
  defines "name \<equiv> global_of (link_speakers cluster crs)"
  shows "(\<forall>p < length labels. \<forall>q < length labels.
      (case_prod name (provenance crs ! p) = case_prod name (provenance crs ! q) \<longleftrightarrow> labels ! p = labels ! q)
      \<and> (\<exists>k < card (set labels). case_prod name (provenance crs ! p) = speaker_name k))
     \<and> (\<forall>i s. (i, s) \<notin> set (provenance crs) \<longrightarrow> name i s = s)"
  using link_speakers_by_cluster_facts [where cluster = cluster and labels = labels, OF crs labels two] unfolding name_def by blast

section \<open>Merging at the seams\<close>

text \<open>
  Chunks in order, each overlapping the next by at most \<open>ov\<close> (or leaving a gap where a chunk
  failed), with all times on the grid of milliseconds and turns within their chunk.
\<close>

definition turn_within :: "'e chunk_result \<Rightarrow> speaker_turn \<Rightarrow> bool" where
  "turn_within c t \<longleftrightarrow> on_grid ms (turn_start t) \<and> on_grid ms (turn_end t)
     \<and> 0 \<le> turn_start t \<and> turn_end t \<le> ck_end c - ck_start c"

definition well_chunked :: "'e chunk_result list \<Rightarrow> rat \<Rightarrow> bool" where
  "well_chunked crs ov \<longleftrightarrow> distinct (map ck_index crs)
     \<and> sorted_wrt (\<lambda>a b. ck_start a < ck_start b \<and> ck_end a \<le> ck_end b) crs
     \<and> (\<forall>i. Suc i < length crs \<longrightarrow> ck_end (crs ! i) \<le> ck_start (crs ! Suc i) + ov)
     \<and> (\<forall>c \<in> set crs. on_grid ms (ck_start c) \<and> on_grid ms (ck_end c) \<and> (\<forall>t \<in> set (ck_turns c). turn_within c t))"

text \<open>Who speaks at a moment, in a timeline and in a chunk; a turn holds up to its end, exclusive.\<close>

definition talks :: "speaker_turn list \<Rightarrow> string \<Rightarrow> rat \<Rightarrow> bool" where
  "talks ts sp x \<longleftrightarrow> (\<exists>t \<in> set ts. turn_speaker t = sp \<and> turn_start t \<le> x \<and> x < turn_end t)"

definition chunk_talks :: "label_maps \<Rightarrow> 'e chunk_result \<Rightarrow> string \<Rightarrow> rat \<Rightarrow> bool" where
  "chunk_talks maps c sp x \<longleftrightarrow> (\<exists>t \<in> set (ck_turns c). global_of maps (ck_index c) (turn_speaker t) = sp
     \<and> turn_start t + ck_start c \<le> x \<and> x < turn_end t + ck_start c)"

text \<open>What a turn of chunk \<open>i\<close> contributes at \<open>x\<close> once it is trimmed to the range of its chunk.\<close>

definition trimmed_at :: "'e chunk_result list \<Rightarrow> rat \<Rightarrow> nat \<Rightarrow> speaker_turn \<Rightarrow> rat \<Rightarrow> bool" where
  "trimmed_at crs ov i t x \<longleftrightarrow>
     (let s = turn_start t + ck_start (crs ! i); e = turn_end t + ck_start (crs ! i);
          (lo, hi) = chunk_range crs ov i
      in lo \<le> (s + e) / 2 \<and> (s + e) / 2 \<le> hi \<and> s \<le> x \<and> lo \<le> x \<and> x < e \<and> x < hi)"

lemma dget_chunk_range_map:
  assumes "distinct (map ck_index crs)" "i < length crs"
  shows "dget (chunk_range_map crs ov) (ck_index (crs ! i)) = Some (chunk_range crs ov i)"
proof -
  let ?kv = "map (\<lambda>i. (ck_index (crs ! i), chunk_range crs ov i)) [0..<length crs]"
  have keys: "map fst ?kv = map ck_index crs" by (rule nth_equalityI) simp_all
  have "(ck_index (crs ! i), chunk_range crs ov i) \<in> set ?kv" using assms(2) by auto
  then have "dget ?kv (ck_index (crs ! i)) = Some (chunk_range crs ov i)"
    using assms(1) keys by (simp only: dget_def map_of_eq_Some_iff)
  then show ?thesis using assms(1) keys by (simp add: chunk_range_map_def dget_dmerge)
qed

lemma seams_nth: "Suc i < length crs \<Longrightarrow> well_chunked crs ov \<Longrightarrow>
    seams crs ov ! i = round_ms ((ck_start (crs ! Suc i) + ck_end (crs ! i)) / 2)"
proof -
  assume i: "Suc i < length crs" and wc: "well_chunked crs ov"
  have "i < length crs - 1" using i by simp
  then show ?thesis using i wc by (simp add: seams_def well_chunked_def min_absorb1)
qed

lemma length_seams [simp]: "length (seams crs ov) = length crs - 1"
  by (simp add: seams_def)

lemma chunk_range_grid:
  assumes "well_chunked crs ov" "i < length crs"
  shows "on_grid ms (fst (chunk_range crs ov i))" "on_grid ms (snd (chunk_range crs ov i))"
  using assms by (auto simp: chunk_range_def seams_nth well_chunked_def)

lemma trim_turn_talks:
  assumes "well_chunked crs ov" "i < length crs" "t \<in> set (ck_turns (crs ! i))"
  shows "(\<exists>u \<in> fst ` set (trim_turn (chunk_range crs ov i) (globalise maps (crs ! i) t)).
      turn_speaker u = sp \<and> turn_start u \<le> x \<and> x < turn_end u)
    \<longleftrightarrow> global_of maps (ck_index (crs ! i)) (turn_speaker t) = sp \<and> trimmed_at crs ov i t x"
proof -
  have g: "on_grid ms (turn_start t + ck_start (crs ! i))" "on_grid ms (turn_end t + ck_start (crs ! i))"
  proof -
    have "turn_within (crs ! i) t" "on_grid ms (ck_start (crs ! i))"
      using assms nth_mem [OF assms(2)] by (auto simp: well_chunked_def)
    then show "on_grid ms (turn_start t + ck_start (crs ! i))" "on_grid ms (turn_end t + ck_start (crs ! i))"
      unfolding turn_within_def by simp_all
  qed
  obtain lo hi where r: "chunk_range crs ov i = (lo, hi)" by (cases "chunk_range crs ov i")
  have "on_grid ms lo" "on_grid ms hi" using chunk_range_grid [OF assms(1,2)] r by simp_all
  then show ?thesis using g r
    by (auto simp: trim_turn_def globalise_def trimmed_at_def global_of_def Let_def)
qed

lemma snd_globalise [simp]: "snd (globalise maps c t) = ck_index c"
  by (simp add: globalise_def)

lemma merge_talks:
  assumes wc: "well_chunked crs ov" and several: "length crs > 1" "ov > 0"
  shows "talks (snd (merge_chunks crs maps ov)) sp x
    \<longleftrightarrow> (\<exists>i < length crs. \<exists>t \<in> set (ck_turns (crs ! i)).
          global_of maps (ck_index (crs ! i)) (turn_speaker t) = sp \<and> trimmed_at crs ov i t x)"
proof -
  have d: "distinct (map ck_index crs)" using wc by (simp add: well_chunked_def)
  have all: "set crs = (!) crs ` {..<length crs}" by (auto simp: set_conv_nth)
  have "set (snd (merge_chunks crs maps ov))
    = (\<Union>c \<in> set crs. \<Union>t \<in> set (ck_turns c). fst ` set (case dget (chunk_range_map crs ov) (ck_index c) of
         None \<Rightarrow> [globalise maps c t] | Some rng \<Rightarrow> trim_turn rng (globalise maps c t)))"
    using several by (simp add: merge_chunks_def resolve_overlaps_def tagged_turns_def Let_def image_UN image_Union image_image) blast
  also have "\<dots> = (\<Union>i \<in> {..<length crs}. \<Union>t \<in> set (ck_turns (crs ! i)).
         fst ` set (trim_turn (chunk_range crs ov i) (globalise maps (crs ! i) t)))"
    unfolding all by (simp add: dget_chunk_range_map [OF d])
  finally have "set (snd (merge_chunks crs maps ov)) = \<dots>" .
  then show ?thesis unfolding talks_def
    using trim_turn_talks [OF wc, of _ _ maps sp x] by (auto 4 4)
qed

lemma merge_talks_single:
  assumes "well_chunked crs ov" "length crs = 1"
  shows "talks (snd (merge_chunks crs maps ov)) sp x \<longleftrightarrow> chunk_talks maps (crs ! 0) sp x"
proof -
  obtain c where c: "crs = [c]" using assms(2) by (cases crs) auto
  have g: "on_grid ms (turn_start t + ck_start c) \<and> on_grid ms (turn_end t + ck_start c)" if "t \<in> set (ck_turns c)" for t
  proof -
    have "turn_within c t" "on_grid ms (ck_start c)" using assms(1) that unfolding c by (auto simp: well_chunked_def)
    then show ?thesis unfolding turn_within_def by simp
  qed
  show ?thesis unfolding c using g
    by (auto simp: merge_chunks_def tagged_turns_def globalise_def talks_def chunk_talks_def global_of_def Let_def)
qed

lemma in_order:
  assumes "well_chunked crs ov" "i < j" "j < length crs"
  shows "ck_start (crs ! i) < ck_start (crs ! j)" "ck_end (crs ! i) \<le> ck_end (crs ! j)"
  using assms by (auto simp: well_chunked_def sorted_wrt_iff_nth_less)

lemma in_order_le:
  assumes "well_chunked crs ov" "i \<le> j" "j < length crs"
  shows "ck_start (crs ! i) \<le> ck_start (crs ! j)" "ck_end (crs ! i) \<le> ck_end (crs ! j)"
  using assms in_order [OF assms(1), of i j] by (cases "i = j"; simp)+

lemma seams_mono:
  assumes "well_chunked crs ov" "i \<le> j" "Suc j < length crs"
  shows "seams crs ov ! i \<le> seams crs ov ! j"
proof -
  have "ck_start (crs ! Suc i) \<le> ck_start (crs ! Suc j)" "ck_end (crs ! i) \<le> ck_end (crs ! j)"
    using in_order_le [OF assms(1), of "Suc i" "Suc j"] in_order_le [OF assms(1), of i j] assms by simp_all
  then show ?thesis using assms by (simp add: seams_nth) (intro round_ms_mono, simp)
qed

text \<open>Ranges of different chunks do not meet, so at most one chunk contributes at a moment.\<close>

lemma one_chunk_at:
  assumes wc: "well_chunked crs ov" and ij: "i < length crs" "j < length crs"
    and at: "trimmed_at crs ov i t x" "trimmed_at crs ov j u x"
  shows "i = j"
proof (rule ccontr)
  have no: False if "a < b" "b < length crs" "trimmed_at crs ov a v x" "trimmed_at crs ov b w x" for a b v w
  proof -
    have "x < seams crs ov ! a" "seams crs ov ! (b - 1) \<le> x"
      using that by (auto simp: trimmed_at_def chunk_range_def Let_def split: if_splits)
    moreover have "seams crs ov ! a \<le> seams crs ov ! (b - 1)"
      using that by (intro seams_mono [OF wc]) auto
    ultimately show False by simp
  qed
  assume "i \<noteq> j"
  then show False using no [of i j t u] no [of j i u t] ij at by (cases "i < j") auto
qed

text \<open>A moment away from the neighbours keeps every turn of its chunk.\<close>

lemma trimmed_at_alone:
  assumes wc: "well_chunked crs ov" and i: "i < length crs" and t: "t \<in> set (ck_turns (crs ! i))"
    and left: "i > 0 \<Longrightarrow> ck_end (crs ! (i - 1)) \<le> x"
    and right: "Suc i < length crs \<Longrightarrow> x < ck_start (crs ! Suc i)"
    and at: "turn_start t + ck_start (crs ! i) \<le> x" "x < turn_end t + ck_start (crs ! i)"
  shows "trimmed_at crs ov i t x"
proof -
  let ?s = "turn_start t + ck_start (crs ! i)" and ?e = "turn_end t + ck_start (crs ! i)"
  have w: "turn_within (crs ! i) t" "on_grid ms (ck_start (crs ! i))"
    using wc i t nth_mem [OF i] by (auto simp: well_chunked_def)
  have grid: "on_grid ms (ck_start (crs ! k))" "on_grid ms (ck_end (crs ! k))" if "k < length crs" for k
    using wc nth_mem [OF that] by (auto simp: well_chunked_def)
  have g: "on_grid ms ?s" "on_grid ms ?e" using w unfolding turn_within_def by simp_all
  have b: "ck_start (crs ! i) \<le> ?s" "?e \<le> ck_end (crs ! i)" using w by (simp_all add: turn_within_def)
  have lo: "fst (chunk_range crs ov i) \<le> (?s + ?e) / 2 \<and> fst (chunk_range crs ov i) \<le> x"
  proof (cases "i = 0")
    case True
    then show ?thesis using b at by (simp add: chunk_range_def)
  next
    case False
    let ?m = "(ck_start (crs ! i) + ck_end (crs ! (i - 1))) / 2"
    have e: "fst (chunk_range crs ov i) = round_ms ?m"
      using False i seams_nth [OF _ wc, of "i - 1"] by (simp add: chunk_range_def)
    have "ck_start (crs ! i) \<le> x" "ck_end (crs ! (i - 1)) \<le> x" using b at left False by auto
    then have "round_ms ?m \<le> max (ck_start (crs ! i)) (ck_end (crs ! (i - 1)))"
      using grid [OF i] grid [of "i - 1"] i by (intro round_ms_le) (auto simp: max_def)
    then have "round_ms ?m \<le> x" using \<open>ck_start (crs ! i) \<le> x\<close> \<open>ck_end (crs ! (i - 1)) \<le> x\<close> by linarith
    moreover have "round_ms ?m \<le> (?s + ?e) / 2"
      using b at \<open>ck_end (crs ! (i - 1)) \<le> x\<close> grid [OF i] grid [of "i - 1"] i
      by (intro round_ms_mid(1) [OF _ _ g]) auto
    ultimately show ?thesis using e by simp
  qed
  have hi: "(?s + ?e) / 2 \<le> snd (chunk_range crs ov i) \<and> x < snd (chunk_range crs ov i)"
  proof (cases "Suc i < length crs")
    case False
    then have "\<not> i < length crs - 1" by simp
    then show ?thesis using b at by (simp add: chunk_range_def)
  next
    case True
    let ?m = "(ck_start (crs ! Suc i) + ck_end (crs ! i)) / 2"
    have e: "snd (chunk_range crs ov i) = round_ms ?m"
      using less_diff_conv [of i "length crs" 1] True seams_nth [OF True wc] by (simp add: chunk_range_def)
    have "x < ck_start (crs ! Suc i)" "x < ck_end (crs ! i)" using b at right True by auto
    moreover have "min (ck_start (crs ! Suc i)) (ck_end (crs ! i)) \<le> round_ms ?m"
      using grid [OF i] grid [OF True] by (intro round_ms_ge) (auto simp: min_def)
    ultimately have "x < round_ms ?m" by linarith
    moreover have "(?s + ?e) / 2 \<le> round_ms ?m"
      using b at \<open>x < ck_start (crs ! Suc i)\<close> grid [OF i] grid [OF True]
      by (intro round_ms_mid(2) [OF g]) auto
    ultimately show ?thesis using e by simp
  qed
  show ?thesis using lo hi at by (cases "chunk_range crs ov i") (simp add: trimmed_at_def)
qed

lemma merge_chunks_attribution_facts:
  fixes maps :: label_maps
  assumes wc: "well_chunked crs ov" and ne: "crs \<noteq> []" and ov: "0 < ov"
  defines "out \<equiv> merge_chunks crs maps ov"
  shows "\<forall>x. \<exists>i < length crs. \<forall>sp. talks (snd out) sp x \<longrightarrow> chunk_talks maps (crs ! i) sp x"
    and "\<forall>i < length crs. \<forall>x sp. (i > 0 \<longrightarrow> ck_end (crs ! (i - 1)) \<le> x) \<longrightarrow>
      (Suc i < length crs \<longrightarrow> x < ck_start (crs ! Suc i)) \<longrightarrow>
      chunk_talks maps (crs ! i) sp x \<longrightarrow> talks (snd out) sp x"
    and "sorted (map turn_key (snd out)) \<and> sorted (fst out) \<and> distinct (fst out)
      \<and> set (fst out) = turn_speaker ` set (snd out)"
proof -
  show "\<forall>x. \<exists>i < length crs. \<forall>sp. talks (snd out) sp x \<longrightarrow> chunk_talks maps (crs ! i) sp x"
  proof (cases "length crs = 1")
    case True
    then show ?thesis using merge_talks_single [OF wc True, of maps] by (auto simp: out_def)
  next
    case False
    then have several: "length crs > 1" using ne by (cases crs) (auto simp: Suc_lessI)
    note mt = merge_talks [OF wc several ov, of maps, folded out_def]
    show ?thesis
    proof
      fix x
      show "\<exists>i < length crs. \<forall>sp. talks (snd out) sp x \<longrightarrow> chunk_talks maps (crs ! i) sp x"
      proof (cases "\<exists>i < length crs. \<exists>t \<in> set (ck_turns (crs ! i)). trimmed_at crs ov i t x")
        case True
        then obtain i t where it: "i < length crs" "trimmed_at crs ov i t x" by blast
        have "chunk_talks maps (crs ! i) sp x" if said: "talks (snd out) sp x" for sp
        proof -
          obtain j u where j: "j < length crs" "u \<in> set (ck_turns (crs ! j))"
            "global_of maps (ck_index (crs ! j)) (turn_speaker u) = sp" "trimmed_at crs ov j u x"
            using said mt by blast
          have "j = i" using one_chunk_at [OF wc j(1) it(1) j(4) it(2)] .
          then show ?thesis using j by (auto simp: chunk_talks_def trimmed_at_def Let_def split: prod.splits)
        qed
        then show ?thesis using it(1) by blast
      next
        case False
        then have "\<not> talks (snd out) sp x" for sp using mt by blast
        then show ?thesis using several by (intro exI [of _ 0]) auto
      qed
    qed
  qed
  show "\<forall>i < length crs. \<forall>x sp. (i > 0 \<longrightarrow> ck_end (crs ! (i - 1)) \<le> x) \<longrightarrow>
      (Suc i < length crs \<longrightarrow> x < ck_start (crs ! Suc i)) \<longrightarrow>
      chunk_talks maps (crs ! i) sp x \<longrightarrow> talks (snd out) sp x"
  proof (cases "length crs = 1")
    case True
    then show ?thesis using merge_talks_single [OF wc True, of maps] by (auto simp: out_def)
  next
    case False
    then have several: "length crs > 1" using ne by (cases crs) (auto simp: Suc_lessI)
    show ?thesis unfolding out_def merge_talks [OF wc several ov]
      using trimmed_at_alone [OF wc] unfolding chunk_talks_def by blast
  qed
  show "sorted (map turn_key (snd out)) \<and> sorted (fst out) \<and> distinct (fst out)
      \<and> set (fst out) = turn_speaker ` set (snd out)"
    by (simp add: out_def merge_chunks_def Let_def sorted_py_sorted)
qed

text \<open>C20: After the merge no moment takes turns from two chunks, and what it keeps was said in its
  chunk; a moment that no neighbouring chunk covers keeps exactly the attributions of its own
  chunk, under the global names; the timeline is sorted and the speakers are exactly its own,
  without repetition.\<close>

theorem merge_chunks_attribution:
  fixes maps :: label_maps
  assumes wc: "well_chunked crs ov" and ne: "crs \<noteq> []" and ov: "0 < ov"
  defines "out \<equiv> merge_chunks crs maps ov"
  shows "(\<forall>x. \<exists>i < length crs. \<forall>sp. talks (snd out) sp x \<longrightarrow> chunk_talks maps (crs ! i) sp x)
     \<and> (\<forall>i < length crs. \<forall>x sp. (i > 0 \<longrightarrow> ck_end (crs ! (i - 1)) \<le> x) \<longrightarrow>
      (Suc i < length crs \<longrightarrow> x < ck_start (crs ! Suc i)) \<longrightarrow>
      chunk_talks maps (crs ! i) sp x \<longrightarrow> talks (snd out) sp x)
     \<and> sorted (map turn_key (snd out)) \<and> sorted (fst out) \<and> distinct (fst out)
      \<and> set (fst out) = turn_speaker ` set (snd out)"
  using merge_chunks_attribution_facts [OF wc ne ov, of maps] unfolding out_def by blast

section \<open>What a seam loses\<close>

definition plain_turn :: "string \<Rightarrow> rat \<Rightarrow> rat \<Rightarrow> speaker_turn" where
  "plain_turn sp s e = \<lparr>turn_speaker = sp, turn_start = s, turn_end = e, turn_confidence = None, turn_overlapping = None\<rparr>"

lemma seam_speech_lost_facts:
  assumes wc: "well_chunked [a, b] ov" and ov: "0 < ov"
    and a: "ck_turns a = [plain_turn p (s - ck_start a) (e - ck_start a)]"
    and b: "ck_turns b = [plain_turn q 0 (e - ck_start b)]"
    and turn: "s < ck_start b" "e \<le> ck_end a"
    and seam: "seam = round_ms ((ck_start b + ck_end a) / 2)"
    and x: "seam \<le> x" "x < e" "(ck_start b + e) / 2 < seam"
  shows "\<not> talks (snd (merge_chunks [a, b] maps ov)) sp x"
    and "chunk_talks maps a (global_of maps (ck_index a) p) x"
proof -
  have s0: "seams [a, b] ov ! 0 = seam" using seams_nth [of 0 "[a, b]" ov] wc seam by simp
  have "\<not> trimmed_at [a, b] ov i t x" if "i < 2" "t \<in> set (ck_turns ([a, b] ! i))" for i t
    using that a b turn x s0
    by (cases i) (auto simp: trimmed_at_def chunk_range_def plain_turn_def Let_def)
  then show "\<not> talks (snd (merge_chunks [a, b] maps ov)) sp x"
    using merge_talks [OF wc _ ov, of maps sp x] by (auto simp: numeral_2_eq_2)
  have "s \<le> x"
  proof -
    have g: "on_grid ms (ck_start b)" "on_grid ms (ck_end a)" using wc by (auto simp: well_chunked_def)
    have "min (ck_start b) (ck_end a) \<le> seam" unfolding seam using g by (intro round_ms_ge) (auto simp: min_def)
    then show ?thesis using turn x by linarith
  qed
  then show "chunk_talks maps a (global_of maps (ck_index a) p) x"
    using x a by (simp add: chunk_talks_def plain_turn_def)
qed

text \<open>Speech at a seam can be lost: when a turn begins before the overlap of two chunks and
  ends inside it, after the seam, and both chunks find it, the part after the seam is in the
  merged timeline of neither, since the second chunk sees only the part in the overlap, whose
  midpoint lies before the seam.\<close>

lemma seam_speech_lost:
  assumes wc: "well_chunked [a, b] ov" and ov: "0 < ov"
    and a: "ck_turns a = [plain_turn p (s - ck_start a) (e - ck_start a)]"
    and b: "ck_turns b = [plain_turn q 0 (e - ck_start b)]"
    and turn: "s < ck_start b" "e \<le> ck_end a"
    and seam: "seam = round_ms ((ck_start b + ck_end a) / 2)"
    and x: "seam \<le> x" "x < e" "(ck_start b + e) / 2 < seam"
  shows "\<not> talks (snd (merge_chunks [a, b] maps ov)) sp x
     \<and> chunk_talks maps a (global_of maps (ck_index a) p) x"
  using seam_speech_lost_facts [OF assms] by blast

section \<open>Witnesses\<close>

text \<open>A long recording in two chunks: one turn runs into the overlap and ends after the seam.\<close>

definition demo_chunk_a :: "rat chunk_result" where
  "demo_chunk_a = \<lparr>ck_index = 0, ck_start = 0, ck_end = 900, ck_speakers = [''A''],
     ck_turns = [plain_turn ''A'' 860 895], ck_embeddings = [(''A'', 1), (''B'', 2)]\<rparr>"

definition demo_chunk_b :: "rat chunk_result" where
  "demo_chunk_b = \<lparr>ck_index = 1, ck_start = 870, ck_end = 1770, ck_speakers = [''B''],
     ck_turns = [plain_turn ''B'' 0 25], ck_embeddings = [(''B'', 1)]\<rparr>"

lemma on_grid_ms_numeral [simp]: "on_grid ms (numeral n)" "on_grid ms 0" "on_grid ms 1"
proof -
  show "on_grid ms (numeral n)" unfolding on_grid_ms by (rule exI [of _ "numeral n * 1000"]) simp
  show "on_grid ms 0" "on_grid ms 1" unfolding on_grid_ms
    by (rule exI [of _ 0], simp) (rule exI [of _ 1000], simp)
qed

lemma demo_chunks_ok: "well_chunked [demo_chunk_a, demo_chunk_b] 30"
  by (auto simp: well_chunked_def demo_chunk_a_def demo_chunk_b_def turn_within_def plain_turn_def less_Suc_eq)

lemma seam_speech_lost_example:
  "\<not> talks (snd (merge_chunks [demo_chunk_a, demo_chunk_b] [] 30)) ''A'' 890
   \<and> chunk_talks [] demo_chunk_a (global_of [] 0 ''A'') 890"
proof -
  have seam: "round_ms ((ck_start demo_chunk_b + ck_end demo_chunk_a) / 2) = 885"
    by (simp add: demo_chunk_a_def demo_chunk_b_def round_ms_def py_round_def)
  show ?thesis
    using seam_speech_lost [OF demo_chunks_ok, where p = "''A''" and s = 860 and e = 895 and q = "''B''" and seam = 885
        and x = 890 and maps = "[]" and sp = "''A''"] seam
    by (simp add: demo_chunk_a_def demo_chunk_b_def plain_turn_def)
qed

theorem merge_chunks_attribution_witness:
  "talks (snd (merge_chunks [demo_chunk_a, demo_chunk_b] [] 30)) ''A'' 865"
proof -
  have "chunk_talks [] ([demo_chunk_a, demo_chunk_b] ! 0) ''A'' 865"
    by (simp add: chunk_talks_def demo_chunk_a_def plain_turn_def global_of_def)
  then show ?thesis
    using conjunct1 [OF conjunct2 [OF merge_chunks_attribution [OF demo_chunks_ok, of "[]"]],
        rule_format, of 0 865 "''A''"]
    by (simp add: demo_chunk_b_def)
qed

lemma link_speakers_by_cluster_example:
  "global_of (link_speakers (\<lambda>_. Some [7, 3, 7]) [demo_chunk_a, demo_chunk_b]) 0 ''A''
   = global_of (link_speakers (\<lambda>_. Some [7, 3, 7]) [demo_chunk_a, demo_chunk_b]) 1 ''B''
   \<and> global_of (link_speakers (\<lambda>_. Some [7, 3, 7]) [demo_chunk_a, demo_chunk_b]) 1 ''SPEAKER_01'' = ''SPEAKER_01''"
proof -
  have d: "distinct (map ck_index [demo_chunk_a, demo_chunk_b])"
    "\<forall>c \<in> set [demo_chunk_a, demo_chunk_b]. distinct (map fst (ck_embeddings c))"
    "length (all_centroids [demo_chunk_a, demo_chunk_b]) = 3"
    "provenance [demo_chunk_a, demo_chunk_b] = [(0, ''A''), (0, ''B''), (1, ''B'')]"
    by (auto simp: demo_chunk_a_def demo_chunk_b_def all_centroids_def provenance_def)
  note l = link_speakers_by_cluster [OF d(1,2), of "\<lambda>_. Some [7, 3, 7]" "[7, 3, 7]"]
  show ?thesis using conjunct1 [OF l, rule_format, of 0 2] conjunct2 [OF l, rule_format, of 1 "''SPEAKER_01''"] d(3,4)
    by simp
qed

end
