(* ===== verification/OverlapProps.thy ===== *)
theory OverlapProps
  imports MergeProps
begin

text \<open>
  The sweep over the starts and ends of turns measures exactly the time with two speakers or
  more, and with one or more: it agrees with counting the cells of the grid the times lie on.
\<close>

definition level :: "rat \<Rightarrow> (rat \<times> int) list \<Rightarrow> int \<Rightarrow> int" where
  "level u es k = sum_list (map (\<lambda>(t, d). if t \<le> of_int k * u then d else 0) es)"

definition busy_cells :: "int \<Rightarrow> rat \<Rightarrow> int \<Rightarrow> (rat \<times> int) list \<Rightarrow> int \<Rightarrow> int set" where
  "busy_cells c u active es p = {k. p \<le> k \<and> c \<le> active + level u es k}"

lemma level_later:
  assumes "0 < u" "\<forall>e \<in> set es. of_int a * u \<le> fst e" "k < a"
  shows "level u es k = 0"
proof -
  have "of_int k * u < of_int a * u" using assms by simp
  then have "\<forall>e \<in> set es. \<not> fst e \<le> of_int k * u" using assms(2) by force
  then show ?thesis unfolding level_def by (induction es) auto
qed

lemma busy_cells_Cons:
  assumes "0 < u" "p \<le> a" "\<forall>e \<in> set es. of_int a * u \<le> fst e"
  shows "busy_cells c u active ((of_int a * u, d) # es) p
    = (if c \<le> active then {p..<a} else {}) \<union> busy_cells c u (active + d) es a"
proof -
  have "level u ((of_int a * u, d) # es) k = (if a \<le> k then d + level u es k else 0)" for k
    using level_later [OF assms(1,3), of k] assms(1) by (simp add: level_def)
  then show ?thesis using assms(2) by (auto simp: busy_cells_def)
qed

text \<open>The sweep adds the length of the busy cells, for both thresholds at once.\<close>

lemma sweep_counts:
  assumes "0 < u" "sorted (map fst es)" "\<forall>e \<in> set es. \<exists>a \<ge> p. fst e = of_int a * u"
    and "active + sum_list (map snd es) = 0"
  shows "finite (busy_cells 2 u active es p) \<and> finite (busy_cells 1 u active es p)
    \<and> (\<exists>n q. sweep_from (active, ov, speech, of_int p * u) es
        = (n, ov + u * of_nat (card (busy_cells 2 u active es p)),
              speech + u * of_nat (card (busy_cells 1 u active es p)), q))"
  using assms(2-)
proof (induction es arbitrary: active ov speech p)
  case Nil
  then show ?case by (simp add: busy_cells_def level_def)
next
  case (Cons e es)
  obtain a d where e: "e = (of_int a * u, d)" and pa: "p \<le> a" using Cons.prems(2) by (cases e) auto
  have later: "\<forall>x \<in> set es. of_int a * u \<le> fst x" using Cons.prems(1) e by auto
  have grid: "\<forall>x \<in> set es. \<exists>b \<ge> a. fst x = of_int b * u"
  proof
    fix x assume x: "x \<in> set es"
    then obtain b where b: "fst x = of_int b * u" using Cons.prems(2) by auto
    have "of_int a * u \<le> of_int b * u" using later x b by force
    then have "a \<le> b" using assms(1) by simp
    then show "\<exists>b \<ge> a. fst x = of_int b * u" using b by blast
  qed
  define ov' where "ov' = (if 2 \<le> active then ov + u * of_int (a - p) else ov)"
  define sp' where "sp' = (if 1 \<le> active then speech + u * of_int (a - p) else speech)"
  have sum: "(active + d) + sum_list (map snd es) = 0" using Cons.prems(3) e by simp
  have srt: "sorted (map fst es)" using Cons.prems(1) by simp
  have ih: "finite (busy_cells 2 u (active + d) es a)" "finite (busy_cells 1 u (active + d) es a)"
    "\<exists>n q. sweep_from (active + d, ov', sp', of_int a * u) es
        = (n, ov' + u * of_nat (card (busy_cells 2 u (active + d) es a)),
              sp' + u * of_nat (card (busy_cells 1 u (active + d) es a)), q)"
    using Cons.IH [OF srt grid sum, of ov' sp'] by blast+
  have step: "sweep_from (active, ov, speech, of_int p * u) (e # es) = sweep_from (active + d, ov', sp', of_int a * u) es"
    using pa assms(1) by (auto simp: e Let_def ov'_def sp'_def algebra_simps)
  have bc: "busy_cells c u active (e # es) p = (if c \<le> active then {p..<a} else {}) \<union> busy_cells c u (active + d) es a" for c
    unfolding e by (rule busy_cells_Cons [OF assms(1) pa later])
  have disj: "{p..<a} \<inter> busy_cells c u (active + d) es a = {}" for c by (auto simp: busy_cells_def)
  have card: "of_nat (card (busy_cells c u active (e # es) p)) * u
      = (if c \<le> active then u * of_int (a - p) else 0) + u * of_nat (card (busy_cells c u (active + d) es a))"
    if "finite (busy_cells c u (active + d) es a)" for c
    using that pa by (simp add: bc card_Un_disjoint disj algebra_simps)
  have c2: "ov' + u * of_nat (card (busy_cells 2 u (active + d) es a)) = ov + u * of_nat (card (busy_cells 2 u active (e # es) p))"
    using card [OF ih(1)] by (simp add: ov'_def mult.commute)
  have c1: "sp' + u * of_nat (card (busy_cells 1 u (active + d) es a)) = speech + u * of_nat (card (busy_cells 1 u active (e # es) p))"
    using card [OF ih(2)] by (simp add: sp'_def mult.commute)
  have fin: "finite (busy_cells 2 u active (e # es) p)" "finite (busy_cells 1 u active (e # es) p)"
    using ih(1,2) by (simp_all add: bc)
  show ?case unfolding step using ih(3) fin by (simp add: c2 c1)
qed

lemma level_sort [simp]: "level u (sort es) k = level u es k"
proof -
  have "level u xs k = sum_mset (image_mset (\<lambda>(t, d). if t \<le> of_int k * u then d else 0) (mset xs))" for xs
    unfolding level_def by (simp add: sum_mset_sum_list [symmetric])
  then show ?thesis by simp
qed

definition active_turns :: "rat \<Rightarrow> speaker_turn list \<Rightarrow> int \<Rightarrow> speaker_turn list" where
  "active_turns u turns k = filter (\<lambda>t. turn_start t \<le> of_int k * u \<and> of_int k * u < turn_end t) turns"

lemma level_turns:
  "\<forall>t \<in> set turns. turn_start t \<le> turn_end t \<Longrightarrow>
   level u (concat (map (\<lambda>t. [(turn_start t, 1), (turn_end t, - 1)]) turns)) k = int (length (active_turns u turns k))"
  by (induction turns) (auto simp: level_def active_turns_def)

lemma sum_deltas: "sum_list (map snd (sort es)) = sum_list (map snd (es :: (rat \<times> int) list))"
proof -
  have "sum_list (map snd xs) = sum_mset (image_mset snd (mset xs))" for xs :: "(rat \<times> int) list"
    by (simp add: sum_mset_sum_list [symmetric])
  then show ?thesis by simp
qed

lemma sorted_fst: "sorted es \<Longrightarrow> sorted (map fst (es :: (rat \<times> int) list))"
  by (induction es) (auto simp: less_eq_prod_def)

text \<open>The overlap statistics are exact: for turns on a grid, the overlap is the number of grid
  cells with two or more turns, the ratio divides it by the number of cells with any turn, and
  it lies between zero and one.\<close>

lemma overlap_stats_exact:
  assumes u: "0 < u"
    and turns: "\<forall>t \<in> set turns. on_grid u (turn_start t) \<and> on_grid u (turn_end t) \<and> 0 \<le> turn_start t \<and> turn_start t \<le> turn_end t"
  shows "overlap_stats_from_turns turns
    = (u * of_nat (card {k. 2 \<le> length (active_turns u turns k)}),
       of_nat (card {k. 2 \<le> length (active_turns u turns k)}) / of_nat (card {k. 1 \<le> length (active_turns u turns k)}))"
    and "finite {k. 1 \<le> length (active_turns u turns k)}"
    and "0 \<le> snd (overlap_stats_from_turns turns) \<and> snd (overlap_stats_from_turns turns) \<le> 1"
proof -
  let ?es = "sweep_events turns" and ?A = "\<lambda>c. {k. c \<le> length (active_turns u turns k)}"
  have deltas: "0 + sum_list (map snd ?es) = 0"
    unfolding sweep_events_def sum_deltas by (induction turns) simp_all
  have times: "\<forall>e \<in> set ?es. \<exists>a \<ge> 0. fst e = of_int a * u"
  proof
    fix e assume "e \<in> set ?es"
    then obtain t where t: "t \<in> set turns" "fst e = turn_start t \<or> fst e = turn_end t"
      by (auto simp: sweep_events_def)
    then obtain a where a: "fst e = of_int a * u" "0 \<le> fst e" using turns by (force simp: on_grid_def)
    then have "0 \<le> a" using u by (simp add: zero_le_mult_iff)
    then show "\<exists>a \<ge> 0. fst e = of_int a * u" using a by blast
  qed
  have cells: "busy_cells (int c) u 0 ?es 0 = ?A c" if "c > 0" for c
  proof -
    have "0 \<le> k" if "c \<le> length (active_turns u turns k)" for k
    proof -
      have "active_turns u turns k \<noteq> []" using that \<open>c > 0\<close> by auto
      then obtain t where "t \<in> set turns" "turn_start t \<le> of_int k * u"
        by (auto simp: active_turns_def filter_empty_conv)
      then have "0 \<le> of_int k * u" using turns by force
      then show ?thesis using u by (simp add: zero_le_mult_iff)
    qed
    then show ?thesis using turns by (auto simp: busy_cells_def sweep_events_def level_turns)
  qed
  have "sorted (map fst ?es)" by (rule sorted_fst) (simp add: sweep_events_def)
  from sweep_counts [OF u this times deltas, of 0 0] cells [of 2] cells [of 1]
  have fin: "finite (?A 2)" "finite (?A 1)"
    and sweep: "\<exists>n q. sweep_from (0, 0, 0, 0) ?es = (n, u * of_nat (card (?A 2)), u * of_nat (card (?A 1)), q)"
    by simp_all
  have le: "card (?A 2) \<le> card (?A 1)" by (rule card_mono [OF fin(2)]) auto
  show stats: "overlap_stats_from_turns turns = (u * of_nat (card (?A 2)), of_nat (card (?A 2)) / of_nat (card (?A 1)))"
  proof (cases "turns = []")
    case True
    then show ?thesis by (simp add: overlap_stats_from_turns_def active_turns_def)
  next
    case False
    then show ?thesis using sweep u le by (auto simp: overlap_stats_from_turns_def)
  qed
  show "finite (?A 1)" by (rule fin(2))
  show "0 \<le> snd (overlap_stats_from_turns turns) \<and> snd (overlap_stats_from_turns turns) \<le> 1"
    unfolding stats using le by (simp add: divide_le_eq_1) linarith
qed

lemma overlap_stats_exact_example:
  "overlap_stats_from_turns [plain_turn ''A'' 0 10, plain_turn ''B'' 8 20] = (2, 1/10)
   \<and> snd (overlap_stats_from_turns [plain_turn ''A'' 0 10, plain_turn ''B'' 8 20]) \<le> 1"
proof -
  have "sweep_events [plain_turn ''A'' 0 10, plain_turn ''B'' 8 20] = [(0, 1), (8, 1), (10, -1), (20, -1)]"
    by (simp add: sweep_events_def plain_turn_def)
  then have "overlap_stats_from_turns [plain_turn ''A'' 0 10, plain_turn ''B'' 8 20] = (2, 1/10)"
    by (simp add: overlap_stats_from_turns_def Let_def)
  moreover have "on_grid 1 0" "on_grid 1 8" "on_grid 1 10" "on_grid 1 20"
    unfolding on_grid_def by (rule exI [of _ 0], simp) (rule exI [of _ 8], simp, rule exI [of _ 10], simp, rule exI [of _ 20], simp)
  ultimately show ?thesis
    using overlap_stats_exact(3) [of 1 "[plain_turn ''A'' 0 10, plain_turn ''B'' 8 20]"] by (simp add: plain_turn_def)
qed

end
