(* ===== verification/VadChunks.thy ===== *)
theory VadChunks
  imports Rounding
begin

text \<open>
  Splitting long audio at speech boundaries (\<open>dalston/engine_sdk/vad.py\<close>): the scan that turns
  frame probabilities into speech regions, the cut of over-long speech, the grouping of
  segments under the cap, and the slices written as chunks. The model's probabilities and
  the regions of the third-party helper are parameters; a chunk stands for its file by the
  samples it holds.
\<close>

definition SAMPLE_RATE :: nat where "SAMPLE_RATE = 16000"
definition WINDOW_SAMPLES :: nat where "WINDOW_SAMPLES = 512"

record speech_segment =
  vs_start :: rat
  vs_end :: rat

record audio_chunk =
  ac_index :: nat
  ac_offset :: rat
  ac_duration :: rat
  ac_slice :: "int \<times> int"

definition seg_duration :: "speech_segment \<Rightarrow> rat" where
  "seg_duration s = vs_end s - vs_start s"

section \<open>The offline scanner\<close>

text \<open>The loop state: the region being read, if any, its silence so far, and the regions found.\<close>

type_synonym scan = "nat option \<times> nat \<times> (nat \<times> nat) list"

definition scan_frame :: "rat \<Rightarrow> nat \<Rightarrow> nat \<Rightarrow> nat \<Rightarrow> rat \<Rightarrow> scan \<Rightarrow> scan" where
  "scan_frame threshold min_speech min_silence i p st =
     (case st of (region, silence, found) \<Rightarrow>
        let frame_start = i * WINDOW_SAMPLES
        in if p \<ge> threshold then ((case region of None \<Rightarrow> Some frame_start | Some r \<Rightarrow> Some r), 0, found)
           else (case region of
                   None \<Rightarrow> (None, silence, found)
                 | Some r \<Rightarrow>
                     (let run = silence + WINDOW_SAMPLES
                      in if run \<ge> min_silence
                         then (let region_end = frame_start + WINDOW_SAMPLES - run
                               in (None, 0, if int region_end - int r \<ge> int min_speech then found @ [(r, region_end)] else found))
                         else (Some r, run, found))))"

fun scan_frames :: "rat \<Rightarrow> nat \<Rightarrow> nat \<Rightarrow> nat \<Rightarrow> rat list \<Rightarrow> scan \<Rightarrow> scan" where
  "scan_frames threshold min_speech min_silence i [] st = st"
| "scan_frames threshold min_speech min_silence i (p # ps) st =
     scan_frames threshold min_speech min_silence (Suc i) ps (scan_frame threshold min_speech min_silence i p st)"

definition speech_regions :: "rat \<Rightarrow> nat \<Rightarrow> nat \<Rightarrow> rat list \<Rightarrow> (nat \<times> nat) list" where
  "speech_regions threshold min_speech min_silence probs =
     (case scan_frames threshold min_speech min_silence 0 probs (None, 0, []) of
        (region, silence, found) \<Rightarrow>
          (case region of
             None \<Rightarrow> found
           | Some r \<Rightarrow>
               (let region_end = length probs * WINDOW_SAMPLES
                in if int region_end - int r \<ge> int min_speech then found @ [(r, region_end)] else found)))"

definition to_segments :: "(nat \<times> nat) list \<Rightarrow> speech_segment list" where
  "to_segments raw =
     filter (\<lambda>s. vs_end s > vs_start s)
       (map (\<lambda>(a, b). \<lparr>vs_start = of_nat a / of_nat SAMPLE_RATE, vs_end = of_nat b / of_nat SAMPLE_RATE\<rparr>) raw)"

section \<open>Cutting and grouping\<close>

text \<open>
  The inner loop of the forced split. The constructor refuses a cap that is not positive, so
  the first test never decides.
\<close>

function force_split :: "rat \<Rightarrow> rat \<Rightarrow> rat \<Rightarrow> speech_segment list" where
  "force_split cap cursor seg_end =
     (if cap \<le> 0 \<or> cursor \<ge> seg_end then []
      else (let next_end = min (cursor + cap) seg_end
            in \<lparr>vs_start = cursor, vs_end = next_end\<rparr> # force_split cap next_end seg_end))"
  by pat_completeness auto

termination force_split
proof (relation "measure (\<lambda>(cap, cursor, seg_end). nat \<lceil>(seg_end - cursor) / cap\<rceil>)", simp, goal_cases)
  case (1 cap cursor seg_end next_end)
  then have pos: "0 < cap" "cursor < seg_end" by auto
  have "nat \<lceil>(seg_end - next_end) / cap\<rceil> < nat \<lceil>(seg_end - cursor) / cap\<rceil>"
  proof (cases "cursor + cap \<le> seg_end")
    case True
    then have e: "(seg_end - next_end) / cap = (seg_end - cursor) / cap - 1"
      using 1 pos by (simp add: field_simps)
    have "1 \<le> (seg_end - cursor) / cap" using True pos by (simp add: field_simps)
    then show ?thesis unfolding e by linarith
  next
    case False
    then have "next_end = seg_end" using 1 by simp
    then show ?thesis using pos by simp
  qed
  then show ?case by simp
qed

declare force_split.simps [simp del]

fun cap_segments :: "rat \<Rightarrow> speech_segment list \<Rightarrow> speech_segment list" where
  "cap_segments cap [] = []"
| "cap_segments cap (s # ss) =
     (if seg_duration s \<le> cap then [s] else force_split cap (vs_start s) (vs_end s)) @ cap_segments cap ss"

fun group_from :: "rat \<Rightarrow> speech_segment list \<Rightarrow> speech_segment list \<Rightarrow> speech_segment list list" where
  "group_from cap current [] = [current]"
| "group_from cap current (s # ss) =
     (if vs_end s - vs_start (hd current) \<le> cap then group_from cap (current @ [s]) ss
      else current # group_from cap [s] ss)"

definition group_segments :: "rat \<Rightarrow> speech_segment list \<Rightarrow> speech_segment list list" where
  "group_segments cap ss = (case ss of [] \<Rightarrow> [] | s # rest \<Rightarrow> group_from cap [s] rest)"

section \<open>Writing the chunks\<close>

definition group_chunk :: "nat \<Rightarrow> rat \<Rightarrow> nat \<Rightarrow> speech_segment list \<Rightarrow> audio_chunk list" where
  "group_chunk n_samples start_offset idx g =
     (let start0 = vs_start (hd g); end_s = vs_end (last g)
      in if end_s \<le> start_offset + 1/1000 then []
         else (let start_s = (if start0 < start_offset then start_offset else start0);
                   start_sample = max 0 (py_round (start_s * of_nat SAMPLE_RATE));
                   end_sample = min (int n_samples) (py_round (end_s * of_nat SAMPLE_RATE))
               in if end_sample \<le> start_sample then []
                  else [\<lparr>ac_index = idx, ac_offset = start_s,
                         ac_duration = of_int (end_sample - start_sample) / of_nat SAMPLE_RATE,
                         ac_slice = (start_sample, end_sample)\<rparr>]))"

definition split_chunks :: "rat \<Rightarrow> nat \<Rightarrow> speech_segment list \<Rightarrow> rat \<Rightarrow> audio_chunk list" where
  "split_chunks cap n_samples segments start_offset =
     (if segments = [] then []
      else concat (map (\<lambda>(i, g). group_chunk n_samples start_offset i g)
             (enumerate 0 (group_segments cap (cap_segments cap segments)))))"

text \<open>The constructor's check and the call of \<open>split\<close>.\<close>

definition vad_split :: "rat \<Rightarrow> nat \<Rightarrow> speech_segment list \<Rightarrow> rat \<Rightarrow> exn + audio_chunk list" where
  "vad_split cap n_samples segments start_offset =
     (if cap \<le> 0 then Inl (ValueError ''max_chunk_duration_s must be positive'')
      else Inr (split_chunks cap n_samples segments start_offset))"

end
