(* ===== verification/ChunkedRun.thy ===== *)
theory ChunkedRun
  imports VadChunks Assembly
begin

text \<open>
  Transcription of long audio in chunks (\<open>dalston/engine_sdk/base_transcribe.py\<close> and
  \<open>inference/gpu_guard.py\<close>): a pass over the chunks, halving the chunk cap when the GPU runs
  out of memory and going on from the failed chunk, merging the chunk transcripts onto the
  original timeline, the cap the engine remembers, and the choice between the direct and the
  chunked path. The engine's model is a parameter; the detected speech is the same in every
  pass, since every pass reads the same file.
\<close>

definition MIN_CHUNK_FLOOR_S :: rat where "MIN_CHUNK_FLOOR_S = 60"

section \<open>Errors\<close>

text \<open>An exception by its type name and its message, or one this code raises itself.\<close>

datatype engine_error = EngineRaised string string | ChunkFloor | SplitFailed exn

definition is_oom_error :: "engine_error \<Rightarrow> bool" where
  "is_oom_error e =
     (case e of
        EngineRaised ty message \<Rightarrow>
          (let msg = str_lower message; exc_type = str_lower ty
           in str_contains ''outofmemory'' exc_type
              \<or> (list_ex (\<lambda>p. str_contains p msg) [''allocate'', ''out of memory'', ''outofmemory'']
                 \<and> list_ex (\<lambda>p. str_contains p msg) [''cuda'', ''gpu'', ''onnx'', ''bfc_arena'', ''device'']))
      | _ \<Rightarrow> False)"

section \<open>Transcripts of chunks\<close>

record batch_segment =
  bs_id :: "string option"
  bs_start :: rat
  bs_end :: rat
  bs_text :: string
  bs_words :: "transcript_word list option"
  bs_language :: "string option"
  bs_language_confidence :: "rat option"
  bs_confidence :: "rat option"
  bs_is_final :: "bool option"
  bs_is_speech :: "bool option"
  bs_metadata :: dict

record batch_transcript =
  bt_text :: string
  bt_segments :: "batch_segment list"
  bt_language :: string
  bt_language_confidence :: "rat option"
  bt_language_source :: "string option"
  bt_languages :: pyval
  bt_duration :: "rat option"
  bt_granularity :: string
  bt_method :: string
  bt_engine_id :: string
  bt_channel :: "int option"
  bt_warnings :: "string list"
  bt_metadata :: dict

text \<open>
  The builders take the metadata as keyword arguments, so a key that names a parameter is a
  \<open>TypeError\<close>; what is not a parameter keeps its default.
\<close>

definition word_params :: "string list" where
  "word_params = [''text'', ''start'', ''end'', ''confidence'', ''alignment_method'', ''characters'', ''phonemes'']"

definition segment_params :: "string list" where
  "segment_params = [''start'', ''end'', ''text'', ''words'', ''language'', ''confidence'', ''segment_id'',
     ''is_final'', ''is_speech'']"

definition shift_word :: "rat \<Rightarrow> transcript_word \<Rightarrow> exn + transcript_word" where
  "shift_word off w =
     (if list_ex (\<lambda>k. dhas (tw_metadata w) k) word_params then Inl TypeError
      else Inr (w\<lparr>tw_start := round_ms (tw_start w + off), tw_end := round_ms (tw_end w + off), tw_language := None\<rparr>))"

fun map_res :: "('a \<Rightarrow> 'e + 'b) \<Rightarrow> 'a list \<Rightarrow> 'e + 'b list" where
  "map_res f [] = Inr []"
| "map_res f (x # xs) = bind_res (f x) (\<lambda>y. bind_res (map_res f xs) (\<lambda>ys. Inr (y # ys)))"

definition shift_segment :: "rat \<Rightarrow> batch_segment \<Rightarrow> exn + batch_segment" where
  "shift_segment off s =
     bind_res (case bs_words s of None \<Rightarrow> Inr None
               | Some ws \<Rightarrow> bind_res (map_res (shift_word off) ws) (\<lambda>ws'. Inr (Some ws'))) (\<lambda>words.
       if list_ex (\<lambda>k. dhas (bs_metadata s) k) segment_params then Inl TypeError
       else Inr (s\<lparr>bs_start := round_ms (bs_start s + off), bs_end := round_ms (bs_end s + off),
                   bs_words := words, bs_language_confidence := None\<rparr>))"

definition has_words :: "batch_segment list \<Rightarrow> bool" where
  "has_words ss = list_ex (\<lambda>s. case bs_words s of None \<Rightarrow> False | Some ws \<Rightarrow> ws \<noteq> []) ss"

definition build_transcript ::
  "string \<Rightarrow> batch_segment list \<Rightarrow> string \<Rightarrow> string \<Rightarrow> rat option \<Rightarrow> string \<Rightarrow> int option \<Rightarrow> string list \<Rightarrow> batch_transcript" where
  "build_transcript txt segments language engine_id conf meth channel warnings =
     \<lparr>bt_text = txt, bt_segments = segments, bt_language = language, bt_language_confidence = conf,
      bt_language_source = None, bt_languages = PNone, bt_duration = None,
      bt_granularity = (if has_words segments then ''word'' else ''segment''),
      bt_method = meth, bt_engine_id = engine_id, bt_channel = channel, bt_warnings = warnings, bt_metadata = []\<rparr>"

fun merge_warnings :: "string list \<Rightarrow> string list \<Rightarrow> string list" where
  "merge_warnings seen [] = seen"
| "merge_warnings seen (w # ws) = merge_warnings (if w \<in> set seen then seen else seen @ [w]) ws"

definition mean_confidence :: "rat list \<Rightarrow> rat option" where
  "mean_confidence cs = (if cs = [] then None else Some (sum_list cs / of_nat (length cs)))"

definition NO_SPEECH_WARNING :: string where
  "NO_SPEECH_WARNING = ''No speech detected by VAD; transcript is empty. If the audio does contain speech, lower DALSTON_VAD_THRESHOLD (narrowband/telephony audio often needs 0.3).''"

definition merge_chunk_transcripts :: "string \<Rightarrow> (batch_transcript \<times> rat) list \<Rightarrow> exn + batch_transcript" where
  "merge_chunk_transcripts engine_id results =
     (case results of
        [] \<Rightarrow> Inr (build_transcript '''' [] ''und'' engine_id None ''unknown'' None [NO_SPEECH_WARNING])
      | (first, _) # _ \<Rightarrow>
          bind_res (map_res (\<lambda>(t, off). map_res (shift_segment off) (bt_segments t)) results) (\<lambda>segments.
            Inr (build_transcript
                  (str_strip (str_join '' '' (map (\<lambda>(t, _). str_strip (bt_text t)) (filter (\<lambda>(t, _). bt_text t \<noteq> []) results))))
                  (concat segments) (bt_language first) (bt_engine_id first)
                  (mean_confidence (List.map_filter (\<lambda>(t, _). bt_language_confidence t) results))
                  (bt_method first) (bt_channel first)
                  (merge_warnings [] (concat (map (\<lambda>(t, _). bt_warnings t) results))))))"

section \<open>A pass over the chunks\<close>

text \<open>
  The transcription of chunk \<open>i\<close> in pass \<open>p\<close> is a transcript or an exception. A pass ends
  with all chunks done, at a chunk that ran out of memory, or by an exception.
\<close>

type_synonym 't transcriber = "nat \<Rightarrow> nat \<Rightarrow> audio_chunk \<Rightarrow> engine_error + 't"

datatype 't pass_result = PassDone "('t \<times> rat) list" | PassOom "('t \<times> rat) list" nat audio_chunk | PassRaised engine_error

fun run_chunks :: "'t transcriber \<Rightarrow> nat \<Rightarrow> nat \<Rightarrow> audio_chunk list \<Rightarrow> ('t \<times> rat) list \<Rightarrow> 't pass_result" where
  "run_chunks tr p i [] acc = PassDone acc"
| "run_chunks tr p i (c # cs) acc =
     (case tr p i c of
        Inr t \<Rightarrow> run_chunks tr p (Suc i) cs (acc @ [(t, ac_offset c)])
      | Inl e \<Rightarrow> if is_oom_error e then PassOom acc i c else PassRaised e)"

record 't chunked_run =
  cr_results :: "('t \<times> rat) list"
  cr_count :: nat
  cr_final_max :: rat

section \<open>Backing off\<close>

text \<open>The result and the cap the engine remembers (\<open>_chunked_oom_cap_s\<close>), which an exception keeps.\<close>

function chunks_with_backoff ::
  "'t transcriber \<Rightarrow> nat \<Rightarrow> speech_segment list \<Rightarrow> nat \<Rightarrow> rat \<Rightarrow> rat \<Rightarrow> ('t \<times> rat) list \<Rightarrow> nat \<Rightarrow> rat option
    \<Rightarrow> rat option \<times> (engine_error + 't chunked_run)" where
  "chunks_with_backoff tr n segs p cap start acc n_done cached =
     (case vad_split cap n segs start of
        Inl x \<Rightarrow> (cached, Inl (SplitFailed x))
      | Inr chunks \<Rightarrow>
          if chunks = [] then (cached, Inr \<lparr>cr_results = acc, cr_count = n_done, cr_final_max = cap\<rparr>)
          else
            (case run_chunks tr p 0 chunks acc of
               PassRaised e \<Rightarrow> (cached, Inl e)
             | PassDone acc' \<Rightarrow>
                 (cached, Inr \<lparr>cr_results = acc', cr_count = n_done + length chunks, cr_final_max = cap\<rparr>)
             | PassOom acc' i c \<Rightarrow>
                 (let new_max = max (cap / 2) MIN_CHUNK_FLOOR_S
                  in if new_max \<ge> cap then (cached, Inl ChunkFloor)
                     else chunks_with_backoff tr n segs (Suc p) new_max (ac_offset c) acc' (n_done + i) (Some new_max))))"
  by pat_completeness auto

lemma halved_cap:
  fixes cap :: rat
  assumes "max (cap / 2) 60 < cap"
  shows "nat \<lceil>max (cap / 2) 60\<rceil> < nat \<lceil>cap\<rceil>"
proof (cases "cap \<le> 120")
  case True
  then have e: "max (cap / 2) 60 = 60" by simp
  have "60 < \<lceil>cap\<rceil>" using assms unfolding e by (simp add: less_ceiling_iff)
  then show ?thesis unfolding e by simp linarith
next
  case False
  then have e: "max (cap / 2) 60 = cap / 2" by simp
  have "\<lceil>cap / 2\<rceil> < \<lceil>cap\<rceil>" using False by linarith
  then show ?thesis unfolding e by linarith
qed

termination chunks_with_backoff
proof (relation "measure (\<lambda>(tr, n, segs, p, cap, start, acc, n_done, cached). nat \<lceil>cap\<rceil>)", simp, goal_cases)
  case (1 tr n segs p cap start acc n_done cached chunks acc' i c new_max)
  then have e: "new_max = max (cap / 2) 60" and lt: "max (cap / 2) 60 < cap"
    by (auto simp: MIN_CHUNK_FLOOR_S_def)
  have "nat \<lceil>new_max\<rceil> < nat \<lceil>cap\<rceil>" unfolding e by (rule halved_cap [OF lt])
  then show ?case by simp
qed

declare chunks_with_backoff.simps [simp del]

section \<open>The engine's process\<close>

definition effective_chunk_cap :: "rat option \<Rightarrow> rat \<Rightarrow> rat" where
  "effective_chunk_cap cached requested =
     (case cached of Some c \<Rightarrow> if c < requested then c else requested | None \<Rightarrow> requested)"

definition process_chunked ::
  "batch_transcript transcriber \<Rightarrow> string \<Rightarrow> nat \<Rightarrow> speech_segment list \<Rightarrow> rat option \<Rightarrow> rat
    \<Rightarrow> rat option \<times> (engine_error + batch_transcript)" where
  "process_chunked tr engine_id n segs cached max_chunk =
     (case chunks_with_backoff tr n segs 1 (effective_chunk_cap cached max_chunk) 0 [] 0 cached of
        (cached', Inl e) \<Rightarrow> (cached', Inl e)
      | (cached', Inr run) \<Rightarrow>
          (cached', (case merge_chunk_transcripts engine_id (cr_results run) of
                       Inl x \<Rightarrow> Inl (SplitFailed x) | Inr t \<Rightarrow> Inr t)))"

text \<open>
  \<open>process\<close>: the limit the engine declares (\<open>None\<close> when it does not chunk), the probed
  duration, if any, the direct transcription, and the chunked path.
\<close>

definition process ::
  "batch_transcript transcriber \<Rightarrow> (engine_error + batch_transcript) \<Rightarrow> string \<Rightarrow> nat \<Rightarrow> speech_segment list
    \<Rightarrow> bool \<Rightarrow> rat option \<Rightarrow> rat option \<Rightarrow> rat option \<Rightarrow> rat option \<times> (engine_error + batch_transcript)" where
  "process tr direct engine_id n segs has_audio max_s audio_duration cached =
     (case max_s of
        None \<Rightarrow> (cached, direct)
      | Some m \<Rightarrow>
          if \<not> has_audio then (cached, direct)
          else
            (case audio_duration of
               None \<Rightarrow> (cached, direct)
             | Some d \<Rightarrow>
                 if d \<le> m
                 then (case direct of
                         Inr t \<Rightarrow> (cached, Inr t)
                       | Inl e \<Rightarrow>
                           if \<not> is_oom_error e then (cached, Inl e)
                           else process_chunked tr engine_id n segs cached (max (d / 2) MIN_CHUNK_FLOOR_S))
                 else process_chunked tr engine_id n segs cached m))"

end
