(* ===== verification/VadProps.thy ===== *)
theory VadProps
  imports VadChunks
begin

text \<open>
  What the splitting of long audio promises: the regions of the offline scanner, chunks that
  respect the cap, are in order, do not overlap and hold all the speech from the resume
  boundary on.
\<close>

section \<open>Segments in order\<close>

definition in_sequence :: "speech_segment list \<Rightarrow> bool" where
  "in_sequence ss \<longleftrightarrow> (\<forall>s \<in> set ss. vs_start s < vs_end s) \<and> sorted_wrt (\<lambda>a b. vs_end a \<le> vs_start b) ss"

definition speech_at :: "speech_segment list \<Rightarrow> rat \<Rightarrow> bool" where
  "speech_at ss x \<longleftrightarrow> (\<exists>s \<in> set ss. vs_start s \<le> x \<and> x < vs_end s)"

lemma speech_at_simps [simp]:
  "\<not> speech_at [] x"
  "speech_at (s # ss) x \<longleftrightarrow> vs_start s \<le> x \<and> x < vs_end s \<or> speech_at ss x"
  "speech_at (xs @ ys) x \<longleftrightarrow> speech_at xs x \<or> speech_at ys x"
  by (auto simp: speech_at_def)

lemma in_sequence_simps [simp]:
  "in_sequence []"
  "in_sequence (s # ss) \<longleftrightarrow> vs_start s < vs_end s \<and> (\<forall>t \<in> set ss. vs_end s \<le> vs_start t) \<and> in_sequence ss"
  by (auto simp: in_sequence_def)

lemma in_sequence_append:
  "in_sequence (xs @ ys) \<longleftrightarrow> in_sequence xs \<and> in_sequence ys \<and> (\<forall>x \<in> set xs. \<forall>y \<in> set ys. vs_end x \<le> vs_start y)"
  by (induction xs) auto

text \<open>The cap and the resume boundary may be any grid times of the sample rate.\<close>

abbreviation sample :: rat where "sample \<equiv> 1/16000"

definition seg_on_grid :: "speech_segment \<Rightarrow> bool" where
  "seg_on_grid s \<longleftrightarrow> on_grid sample (vs_start s) \<and> on_grid sample (vs_end s)"

section \<open>Forced splits\<close>

lemma force_split_ok:
  assumes "0 < cap" "cursor < seg_end"
  shows "in_sequence (force_split cap cursor seg_end)
    \<and> (\<forall>s \<in> set (force_split cap cursor seg_end). cursor \<le> vs_start s \<and> vs_end s \<le> seg_end \<and> seg_duration s \<le> cap)
    \<and> (\<forall>x. speech_at (force_split cap cursor seg_end) x \<longleftrightarrow> cursor \<le> x \<and> x < seg_end)"
  using assms
proof (induction cap cursor seg_end rule: force_split.induct)
  case (1 cap cursor seg_end)
  let ?n = "min (cursor + cap) seg_end"
  have e: "force_split cap cursor seg_end = \<lparr>vs_start = cursor, vs_end = ?n\<rparr> # force_split cap ?n seg_end"
    using "1.prems" by (subst force_split.simps) (simp add: Let_def)
  show ?case
  proof (cases "cursor + cap < seg_end")
    case True
    then show ?thesis using "1.IH" [OF _ refl] "1.prems" unfolding e
      by (force simp: seg_duration_def)
  next
    case False
    then have "?n = seg_end" by simp
    then show ?thesis using "1.prems" False unfolding e
      by (simp add: force_split.simps [of cap seg_end seg_end] seg_duration_def)
  qed
qed

lemma force_split_grid:
  assumes "on_grid sample cap" "on_grid sample cursor" "on_grid sample seg_end"
  shows "\<forall>s \<in> set (force_split cap cursor seg_end). seg_on_grid s"
  using assms
proof (induction cap cursor seg_end rule: force_split.induct)
  case (1 cap cursor seg_end)
  show ?case
  proof (cases "cap \<le> 0 \<or> seg_end \<le> cursor")
    case True
    then show ?thesis by (simp add: force_split.simps)
  next
    case False
    have g: "on_grid sample (min (cursor + cap) seg_end)" using "1.prems" by simp
    then show ?thesis using "1.IH" [OF False refl "1.prems"(1) g "1.prems"(3)] "1.prems" False
      by (subst force_split.simps) (simp add: Let_def seg_on_grid_def)
  qed
qed

section \<open>Capped segments\<close>

lemma cap_segments_bounds:
  assumes "0 < cap" "in_sequence ss" "t \<in> set (cap_segments cap ss)"
  shows "\<exists>s \<in> set ss. vs_start s \<le> vs_start t \<and> vs_end t \<le> vs_end s" and "seg_duration t \<le> cap"
  using assms(2,3) force_split_ok [OF assms(1)]
  by (induction ss) (fastforce split: if_splits)+

lemma cap_segments_ok:
  assumes "0 < cap" "in_sequence ss"
  shows "in_sequence (cap_segments cap ss) \<and> (\<forall>x. speech_at (cap_segments cap ss) x \<longleftrightarrow> speech_at ss x)"
  using assms(2)
proof (induction ss)
  case Nil
  then show ?case by simp
next
  case (Cons s ss)
  let ?p = "if seg_duration s \<le> cap then [s] else force_split cap (vs_start s) (vs_end s)"
  have p: "in_sequence ?p \<and> (\<forall>t \<in> set ?p. vs_end t \<le> vs_end s) \<and> (\<forall>x. speech_at ?p x \<longleftrightarrow> vs_start s \<le> x \<and> x < vs_end s)"
    using Cons.prems force_split_ok [OF assms(1), of "vs_start s" "vs_end s"] by simp
  have later: "vs_end s \<le> vs_start t" if "t \<in> set (cap_segments cap ss)" for t
    using cap_segments_bounds(1) [OF assms(1) _ that] Cons.prems by force
  show ?case using Cons p later by (fastforce simp: in_sequence_append)
qed

lemma cap_segments_grid:
  "on_grid sample cap \<Longrightarrow> \<forall>s \<in> set ss. seg_on_grid s \<Longrightarrow> \<forall>s \<in> set (cap_segments cap ss). seg_on_grid s"
proof (induction ss)
  case Nil
  then show ?case by simp
next
  case (Cons s ss)
  then show ?case using force_split_grid [of cap "vs_start s" "vs_end s"]
    by (auto simp: seg_on_grid_def [of s])
qed

section \<open>Groups\<close>

definition group_ok :: "rat \<Rightarrow> speech_segment list \<Rightarrow> bool" where
  "group_ok cap g \<longleftrightarrow> g \<noteq> [] \<and> vs_end (last g) - vs_start (hd g) \<le> cap"

lemma group_from_ok:
  assumes "group_ok cap cur" "\<forall>s \<in> set ss. seg_duration s \<le> cap"
  shows "concat (group_from cap cur ss) = cur @ ss \<and> (\<forall>g \<in> set (group_from cap cur ss). group_ok cap g)"
  using assms by (induction cap cur ss rule: group_from.induct) (auto simp: group_ok_def seg_duration_def)

lemma group_segments_ok:
  assumes "\<forall>s \<in> set ss. seg_duration s \<le> cap"
  shows "concat (group_segments cap ss) = ss" and "\<forall>g \<in> set (group_segments cap ss). group_ok cap g"
proof -
  have "concat (group_segments cap ss) = ss \<and> (\<forall>g \<in> set (group_segments cap ss). group_ok cap g)"
  proof (cases ss)
    case Nil
    then show ?thesis by (simp add: group_segments_def)
  next
    case (Cons s rest)
    have "group_ok cap [s]" using assms Cons by (simp add: group_ok_def seg_duration_def)
    then show ?thesis using group_from_ok [of cap "[s]" rest] assms Cons by (simp add: group_segments_def)
  qed
  then show "concat (group_segments cap ss) = ss" "\<forall>g \<in> set (group_segments cap ss). group_ok cap g" by blast+
qed

lemma in_sequence_group:
  assumes "in_sequence (concat gs)" "g \<in> set gs"
  shows "in_sequence g"
  using assms by (induction gs) (auto simp: in_sequence_append)

lemma in_sequence_hd_last:
  assumes "in_sequence g" "g \<noteq> []" "s \<in> set g"
  shows "vs_start (hd g) \<le> vs_start s \<and> vs_end s \<le> vs_end (last g)"
  using assms
proof (induction g rule: rev_induct)
  case Nil
  then show ?case by simp
next
  case (snoc t g)
  show ?case
  proof (cases "g = []")
    case True
    then show ?thesis using snoc.prems by simp
  next
    case False
    then have "hd g \<in> set g" by simp
    then have "vs_end (hd g) \<le> vs_start t" "vs_start (hd g) < vs_end (hd g)" "vs_start t < vs_end t"
      "\<forall>s \<in> set g. vs_end s \<le> vs_start t"
      using snoc.prems(1) by (simp_all add: in_sequence_append) (simp add: in_sequence_def)
    moreover have "in_sequence g" "s = t \<or> s \<in> set g" using snoc.prems by (auto simp: in_sequence_append)
    ultimately show ?thesis using snoc.IH False by (fastforce simp: hd_append)
  qed
qed

lemma in_sequence_pos: "in_sequence g \<Longrightarrow> g \<noteq> [] \<Longrightarrow> vs_start (hd g) < vs_end (last g)"
  using in_sequence_hd_last [of g "hd g"] hd_in_set [of g] unfolding in_sequence_def by (meson less_le_trans)

section \<open>Chunks\<close>

lemma sample_grid: "on_grid sample x \<Longrightarrow> \<exists>k. x = of_int k / 16000 \<and> py_round (x * of_nat SAMPLE_RATE) = k"
  by (auto simp: on_grid_def SAMPLE_RATE_def)

definition chunk_end_s :: "audio_chunk \<Rightarrow> rat" where
  "chunk_end_s c = ac_offset c + ac_duration c"

text \<open>On the grid of samples a chunk is the group itself, from the resume boundary on.\<close>

lemma group_chunk_grid:
  assumes g: "g \<noteq> []" "in_sequence g" "\<forall>s \<in> set g. seg_on_grid s \<and> 0 \<le> vs_start s \<and> vs_end s \<le> of_nat n / 16000"
    and off: "on_grid sample off"
  shows "group_chunk n off i g =
    (if vs_end (last g) \<le> off + 1/1000 then []
     else [\<lparr>ac_index = i, ac_offset = max (vs_start (hd g)) off,
             ac_duration = vs_end (last g) - max (vs_start (hd g)) off,
             ac_slice = (py_round (max (vs_start (hd g)) off * 16000), py_round (vs_end (last g) * 16000))\<rparr>])"
proof (cases "vs_end (last g) \<le> off + 1/1000")
  case True
  then show ?thesis by (simp add: group_chunk_def Let_def)
next
  case False
  let ?a = "max (vs_start (hd g)) off" and ?b = "vs_end (last g)"
  have hl: "hd g \<in> set g" "last g \<in> set g" using g(1) by simp_all
  have ab: "on_grid sample ?a" "on_grid sample ?b" "0 \<le> ?a" "?b \<le> of_nat n / 16000"
    using g(3) hl off by (auto simp: seg_on_grid_def)
  obtain k l where k: "?a = of_int k / 16000" "py_round (?a * of_nat SAMPLE_RATE) = k"
    and l: "?b = of_int l / 16000" "py_round (?b * of_nat SAMPLE_RATE) = l"
    using sample_grid [OF ab(1)] sample_grid [OF ab(2)] by blast
  have "vs_start (hd g) < ?b"
    by (rule in_sequence_pos [OF g(2,1)])
  then have lt: "?a < ?b" using False by simp
  then have "k < l" using k l by (simp add: divide_less_cancel)
  moreover have "0 \<le> k" using ab(3) k by simp
  moreover have "l \<le> int n"
  proof -
    have "of_int l \<le> (of_nat n :: rat)" using ab(4) l by simp
    then show ?thesis by linarith
  qed
  moreover have "(if vs_start (hd g) < off then off else vs_start (hd g)) = ?a" by (simp add: max_def)
  ultimately show ?thesis using False k l
    by (simp add: group_chunk_def Let_def SAMPLE_RATE_def diff_divide_distrib)
qed

definition past :: "rat \<Rightarrow> speech_segment list \<Rightarrow> bool" where
  "past off g \<longleftrightarrow> off + 1/1000 < vs_end (last g)"

lemma concat_map_enumerate_filter:
  assumes "\<And>i g. g \<in> set gs \<Longrightarrow> f i g = (if P g then [h i g] else [])"
  shows "concat (map (\<lambda>(i, g). f i g) (enumerate n gs)) = map (\<lambda>(i, g). h i g) (filter (\<lambda>(i, g). P g) (enumerate n gs))"
  using assms by (induction gs arbitrary: n) auto

lemma in_sequence_concat_groups:
  "in_sequence (concat gs) \<Longrightarrow> \<forall>g \<in> set gs. g \<noteq> [] \<Longrightarrow>
   sorted_wrt (\<lambda>g h. vs_end (last g) \<le> vs_start (hd h)) gs"
  by (induction gs) (auto simp: in_sequence_append intro!: )

text \<open>What a split yields from the resume boundary on.\<close>

definition good_chunk :: "rat \<Rightarrow> nat \<Rightarrow> rat \<Rightarrow> audio_chunk \<Rightarrow> bool" where
  "good_chunk cap n off c \<longleftrightarrow> off \<le> ac_offset c \<and> 0 \<le> ac_offset c \<and> 0 < ac_duration c \<and> ac_duration c \<le> cap
     \<and> on_grid sample (ac_offset c) \<and> 0 \<le> fst (ac_slice c) \<and> snd (ac_slice c) \<le> int n
     \<and> ac_offset c = of_int (fst (ac_slice c)) / 16000
     \<and> ac_duration c = of_int (snd (ac_slice c) - fst (ac_slice c)) / 16000"

definition chunks_in_order :: "audio_chunk list \<Rightarrow> bool" where
  "chunks_in_order cs \<longleftrightarrow> sorted_wrt (\<lambda>a b. chunk_end_s a \<le> ac_offset b) cs"

definition chunk_at :: "audio_chunk list \<Rightarrow> rat \<Rightarrow> bool" where
  "chunk_at cs x \<longleftrightarrow> (\<exists>c \<in> set cs. ac_offset c \<le> x \<and> x < chunk_end_s c)"

definition good_audio :: "nat \<Rightarrow> speech_segment list \<Rightarrow> bool" where
  "good_audio n segs \<longleftrightarrow> in_sequence segs
     \<and> (\<forall>s \<in> set segs. seg_on_grid s \<and> 0 \<le> vs_start s \<and> vs_end s \<le> of_nat n / 16000)"

lemma split_chunks_groups:
  assumes audio: "good_audio n segs" and cap: "0 < cap" "on_grid sample cap" and off: "on_grid sample off"
  defines "gs \<equiv> group_segments cap (cap_segments cap segs)"
  shows "in_sequence (concat gs)" "\<forall>x. speech_at (concat gs) x \<longleftrightarrow> speech_at segs x" "\<forall>g \<in> set gs. group_ok cap g"
    and "\<forall>g \<in> set gs. in_sequence g \<and> (\<forall>s \<in> set g. seg_on_grid s \<and> 0 \<le> vs_start s \<and> vs_end s \<le> of_nat n / 16000)"
proof -
  have seq: "in_sequence segs" using audio by (simp add: good_audio_def)
  note b = cap_segments_bounds [OF cap(1) seq]
  have cg: "concat gs = cap_segments cap segs" "\<forall>g \<in> set gs. group_ok cap g"
    unfolding gs_def using group_segments_ok [of "cap_segments cap segs" cap] b(2) by simp_all
  show c: "in_sequence (concat gs)" and "\<forall>x. speech_at (concat gs) x \<longleftrightarrow> speech_at segs x"
    using cg(1) cap_segments_ok [OF cap(1) seq] by simp_all
  show "\<forall>g \<in> set gs. group_ok cap g" by (rule cg(2))
  have "\<forall>s \<in> set (concat gs). seg_on_grid s \<and> 0 \<le> vs_start s \<and> vs_end s \<le> of_nat n / 16000"
  proof
    fix t assume t: "t \<in> set (concat gs)"
    then obtain s where s: "s \<in> set segs" "vs_start s \<le> vs_start t" "vs_end t \<le> vs_end s"
      using b(1) cg(1) by auto
    moreover have "seg_on_grid t" using cap_segments_grid [OF cap(2), of segs] audio t cg(1) by (auto simp: good_audio_def)
    ultimately show "seg_on_grid t \<and> 0 \<le> vs_start t \<and> vs_end t \<le> of_nat n / 16000"
      using audio by (fastforce simp: good_audio_def)
  qed
  then show "\<forall>g \<in> set gs. in_sequence g \<and> (\<forall>s \<in> set g. seg_on_grid s \<and> 0 \<le> vs_start s \<and> vs_end s \<le> of_nat n / 16000)"
    using in_sequence_group [OF c] by auto
qed

definition whole_chunk :: "rat \<Rightarrow> nat \<Rightarrow> speech_segment list \<Rightarrow> audio_chunk" where
  "whole_chunk off i g =
     \<lparr>ac_index = i, ac_offset = max (vs_start (hd g)) off, ac_duration = vs_end (last g) - max (vs_start (hd g)) off,
       ac_slice = (py_round (max (vs_start (hd g)) off * 16000), py_round (vs_end (last g) * 16000))\<rparr>"

lemma whole_chunk_good:
  assumes g: "in_sequence g" "\<forall>s \<in> set g. seg_on_grid s \<and> 0 \<le> vs_start s \<and> vs_end s \<le> of_nat n / 16000" "group_ok cap g"
    and off: "on_grid sample off" "past off g"
  shows "good_chunk cap n off (whole_chunk off i g)"
proof -
  let ?a = "max (vs_start (hd g)) off" and ?b = "vs_end (last g)"
  have hl: "hd g \<in> set g" "last g \<in> set g" using g(3) by (simp_all add: group_ok_def)
  have ab: "on_grid sample ?a" "on_grid sample ?b" "0 \<le> ?a" "?b \<le> of_nat n / 16000"
    using g(2) hl off by (auto simp: seg_on_grid_def)
  obtain k l where k: "?a = of_int k / 16000" "py_round (?a * 16000) = k"
    and l: "?b = of_int l / 16000" "py_round (?b * 16000) = l"
    using sample_grid [OF ab(1)] sample_grid [OF ab(2)] by (auto simp: SAMPLE_RATE_def)
  have "vs_start (hd g) < ?b"
    using in_sequence_pos [OF g(1)] g(3) by (simp add: group_ok_def)
  then have lt: "?a < ?b" using off(2) by (simp add: past_def)
  have "0 \<le> k" using ab(3) k by simp
  moreover have "l \<le> int n"
  proof -
    have "of_int l \<le> (of_nat n :: rat)" using ab(4) l by simp
    then show ?thesis by linarith
  qed
  moreover have "?b - ?a \<le> cap" using g(3) by (auto simp: group_ok_def)
  moreover have "?b - ?a = of_int (l - k) / 16000" using k l by (simp add: diff_divide_distrib)
  moreover have "off \<le> ?a" "0 < ?b - ?a" using lt by simp_all
  ultimately show ?thesis using ab(1,3) k(1)
    by (simp only: good_chunk_def whole_chunk_def audio_chunk.select_convs fst_conv snd_conv k(2) l(2)) simp
qed

lemma split_chunks_ok:
  assumes audio: "good_audio n segs" and cap: "0 < cap" "on_grid sample cap" and off: "on_grid sample off"
  shows "\<forall>c \<in> set (split_chunks cap n segs off). good_chunk cap n off c"
    and "chunks_in_order (split_chunks cap n segs off)"
    and "speech_at segs x \<Longrightarrow> off + 1/1000 \<le> x \<Longrightarrow> chunk_at (split_chunks cap n segs off) x"
proof -
  define gs where "gs = group_segments cap (cap_segments cap segs)"
  note g = split_chunks_groups [OF audio cap off, folded gs_def]
  have ne: "g \<noteq> []" if "g \<in> set gs" for g using g(3) that by (auto simp: group_ok_def)
  have one: "group_chunk n off i h = (if past off h then [whole_chunk off i h] else [])" if "h \<in> set gs" for i h
    using group_chunk_grid [OF ne [OF that] _ _ off, of n i] g(4) that by (auto simp: past_def whole_chunk_def)
  have split: "split_chunks cap n segs off = map (\<lambda>(i, h). whole_chunk off i h) (filter (\<lambda>(i, h). past off h) (enumerate 0 gs))"
  proof (cases "segs = []")
    case True
    then show ?thesis by (simp add: split_chunks_def gs_def group_segments_def)
  next
    case False
    then show ?thesis using concat_map_enumerate_filter [of gs "group_chunk n off" "past off" "whole_chunk off", OF one]
      by (simp add: split_chunks_def gs_def)
  qed
  have member: "(i, h) \<in> set (enumerate 0 gs) \<Longrightarrow> h \<in> set gs" for i h
    by (auto simp: in_set_enumerate_eq)
  have good: "good_chunk cap n off (whole_chunk off i h)" if "h \<in> set gs" "past off h" for i h
    using whole_chunk_good [OF _ _ _ off that(2)] g(3,4) that(1) by blast
  show "\<forall>c \<in> set (split_chunks cap n segs off). good_chunk cap n off c"
    using good member by (auto simp: split)
  have "sorted_wrt (\<lambda>p q. vs_end (last (snd p)) \<le> vs_start (hd (snd q))) (enumerate 0 gs)"
    using in_sequence_concat_groups [OF g(1)] ne sorted_wrt_map [of _ snd "enumerate 0 gs"] by simp
  then have "sorted_wrt (\<lambda>p q. vs_end (last (snd p)) \<le> vs_start (hd (snd q))) (filter (\<lambda>(i, h). past off h) (enumerate 0 gs))"
    by (rule sorted_wrt_filter)
  then show "chunks_in_order (split_chunks cap n segs off)"
    unfolding chunks_in_order_def split sorted_wrt_map
    by (rule sorted_wrt_mono_rel [rotated]) (auto simp: whole_chunk_def chunk_end_s_def)
  assume x: "speech_at segs x" "off + 1/1000 \<le> x"
  then have "speech_at (concat gs) x" using g(2) by blast
  then obtain h s where h: "h \<in> set gs" "s \<in> set h" "vs_start s \<le> x" "x < vs_end s"
    by (auto simp: speech_at_def)
  have hl: "vs_start (hd h) \<le> x" "x < vs_end (last h)"
    using in_sequence_hd_last [OF _ ne [OF h(1)] h(2)] g(4) h by auto
  obtain i where "i < length gs" "h = gs ! i" using h(1) by (auto simp: in_set_conv_nth)
  then have "(i, h) \<in> set (enumerate 0 gs)" by (simp add: in_set_enumerate_eq)
  then show "chunk_at (split_chunks cap n segs off) x"
    using hl x(2) by (force simp: split chunk_at_def past_def whole_chunk_def chunk_end_s_def)
qed

text \<open>For speech on the grid of samples, splitting yields chunks that hold whole samples of the
  file, are in order without overlap, start no earlier than the resume boundary and never
  exceed the cap, and together hold all detected speech that is more than a millisecond past
  the boundary, however long a single stretch of speech is.\<close>

lemma vad_split_ok:
  assumes "good_audio n segs" "0 < cap" "on_grid sample cap" "on_grid sample off"
  shows "\<exists>cs. vad_split cap n segs off = Inr cs \<and> (\<forall>c \<in> set cs. good_chunk cap n off c) \<and> chunks_in_order cs
    \<and> (\<forall>x. speech_at segs x \<longrightarrow> off + 1/1000 \<le> x \<longrightarrow> chunk_at cs x)"
  using split_chunks_ok [OF assms] assms(2) by (simp add: vad_split_def)

definition demo_speech :: "speech_segment list" where
  "demo_speech = [\<lparr>vs_start = 1, vs_end = 131\<rparr>, \<lparr>vs_start = 140, vs_end = 150\<rparr>]"

lemma on_grid_sample_numeral [simp]: "on_grid sample (numeral k)" "on_grid sample 0" "on_grid sample 1"
proof -
  show "on_grid sample (numeral k)" unfolding on_grid_def by (rule exI [of _ "numeral k * 16000"]) simp
  show "on_grid sample 0" "on_grid sample 1" unfolding on_grid_def
    by (rule exI [of _ 0], simp) (rule exI [of _ 16000], simp)
qed

lemma demo_speech_ok: "good_audio 2400000 demo_speech"
  by (simp add: good_audio_def demo_speech_def seg_on_grid_def)

lemma vad_split_ok_example:
  "\<exists>cs. vad_split 60 2400000 demo_speech 0 = Inr cs \<and> chunk_at cs 70 \<and> chunk_at cs 145"
proof -
  have "speech_at demo_speech 70" "speech_at demo_speech 145" by (simp_all add: demo_speech_def)
  moreover obtain cs where "vad_split 60 2400000 demo_speech 0 = Inr cs"
    "\<forall>x. speech_at demo_speech x \<longrightarrow> 0 + 1/1000 \<le> x \<longrightarrow> chunk_at cs x"
    using vad_split_ok [OF demo_speech_ok, of 60 0] by auto
  ultimately show ?thesis by simp
qed

section \<open>The offline scanner\<close>

abbreviation W :: nat where "W \<equiv> WINDOW_SAMPLES"

definition good_region :: "rat \<Rightarrow> nat \<Rightarrow> rat list \<Rightarrow> nat \<Rightarrow> nat \<times> nat \<Rightarrow> bool" where
  "good_region thr msp probs i r \<longleftrightarrow>
     (case r of (a, b) \<Rightarrow> a < b \<and> b \<le> i * W \<and> W dvd a \<and> W dvd b \<and> a + msp \<le> b \<and> thr \<le> probs ! (a div W))"

definition frame_in :: "nat \<Rightarrow> nat \<times> nat \<Rightarrow> bool" where
  "frame_in j r \<longleftrightarrow> fst r \<le> j * W \<and> Suc j * W \<le> snd r"

definition regions_apart :: "nat \<Rightarrow> (nat \<times> nat) list \<Rightarrow> bool" where
  "regions_apart msi rs \<longleftrightarrow> sorted_wrt (\<lambda>p q. snd p + msi \<le> fst q) rs"

text \<open>What the scan has established after \<open>i\<close> frames.\<close>

definition scan_inv :: "rat \<Rightarrow> nat \<Rightarrow> nat \<Rightarrow> rat list \<Rightarrow> nat \<Rightarrow> scan \<Rightarrow> bool" where
  "scan_inv thr msp msi probs i st \<longleftrightarrow>
     (case st of (region, silence, found) \<Rightarrow>
        (\<forall>r \<in> set found. good_region thr msp probs i r) \<and> regions_apart msi found
        \<and> (case region of
             None \<Rightarrow> (\<forall>p \<in> set found. snd p + msi \<le> i * W)
               \<and> (msp \<le> W \<longrightarrow> (\<forall>j < i. thr \<le> probs ! j \<longrightarrow> (\<exists>r \<in> set found. frame_in j r)))
           | Some r \<Rightarrow> W dvd r \<and> W dvd silence \<and> thr \<le> probs ! (r div W) \<and> r + W + silence \<le> i * W
               \<and> (\<forall>p \<in> set found. snd p + msi \<le> r)
               \<and> (msp \<le> W \<longrightarrow> (\<forall>j < i. thr \<le> probs ! j \<longrightarrow>
                    (\<exists>r \<in> set found. frame_in j r) \<or> (r \<le> j * W \<and> Suc j * W + silence \<le> i * W)))))"

lemma regions_apart_snoc: "regions_apart msi (rs @ [r]) \<longleftrightarrow> regions_apart msi rs \<and> (\<forall>p \<in> set rs. snd p + msi \<le> fst r)"
  by (auto simp: regions_apart_def sorted_wrt_append)

lemma good_region_Suc: "good_region thr msp probs i r \<Longrightarrow> good_region thr msp probs (Suc i) r"
  by (auto simp: good_region_def)

lemma scan_frame_inv:
  assumes inv: "scan_inv thr msp msi probs i st"
  shows "scan_inv thr msp msi probs (Suc i) (scan_frame thr msp msi i (probs ! i) st)"
proof -
  obtain region silence found where st: "st = (region, silence, found)" by (cases st)
  have later: "\<forall>r \<in> set found. good_region thr msp probs (Suc i) r" "regions_apart msi found"
    using inv by (auto simp: st scan_inv_def good_region_Suc)
  show ?thesis
  proof (cases region)
    case None
    have old: "\<forall>p \<in> set found. snd p + msi \<le> i * W"
      "msp \<le> W \<longrightarrow> (\<forall>j < i. thr \<le> probs ! j \<longrightarrow> (\<exists>r \<in> set found. frame_in j r))"
      using inv None by (auto simp: st scan_inv_def)
    have end_later: "\<forall>p \<in> set found. snd p + msi \<le> Suc i * W" using old(1) by fastforce
    show ?thesis
    proof (cases "thr \<le> probs ! i")
      case True
      then have e: "scan_frame thr msp msi i (probs ! i) st = (Some (i * W), 0, found)"
        using None by (simp add: st scan_frame_def Let_def)
      show ?thesis unfolding e using later old True
        by (auto simp: scan_inv_def less_Suc_eq WINDOW_SAMPLES_def)
    next
      case False
      then have e: "scan_frame thr msp msi i (probs ! i) st = (None, silence, found)"
        using None by (simp add: st scan_frame_def Let_def)
      show ?thesis unfolding e using later old False end_later
        by (simp add: scan_inv_def less_Suc_eq)
    qed
  next
    case (Some r)
    have old: "W dvd r" "W dvd silence" "thr \<le> probs ! (r div W)" "r + W + silence \<le> i * W"
      "\<forall>p \<in> set found. snd p + msi \<le> r"
      "msp \<le> W \<longrightarrow> (\<forall>j < i. thr \<le> probs ! j \<longrightarrow> (\<exists>r \<in> set found. frame_in j r) \<or> (r \<le> j * W \<and> Suc j * W + silence \<le> i * W))"
      using inv Some by (auto simp: st scan_inv_def)
    consider (speech) "thr \<le> probs ! i" | (pause) "\<not> thr \<le> probs ! i" "silence + W < msi"
      | (close) "\<not> thr \<le> probs ! i" "msi \<le> silence + W" by linarith
    then show ?thesis
    proof cases
      case speech
      have e: "scan_frame thr msp msi i (probs ! i) st = (Some r, 0, found)" using speech Some by (simp add: st scan_frame_def)
      show ?thesis unfolding e using later old speech by (fastforce simp: scan_inv_def less_Suc_eq)
    next
      case pause
      have e: "scan_frame thr msp msi i (probs ! i) st = (Some r, silence + W, found)" using pause Some by (simp add: st scan_frame_def Let_def)
      show ?thesis unfolding e using later old pause by (fastforce simp: scan_inv_def less_Suc_eq)
    next
      case close
      let ?b = "i * W - silence"
      have b: "i * W + W - (silence + W) = ?b" by simp
      have rb: "r + W \<le> ?b" "?b \<le> i * W" "W dvd ?b" using old(1,2,4) by auto
      have e: "scan_frame thr msp msi i (probs ! i) st = (None, 0, if r + msp \<le> ?b then found @ [(r, ?b)] else found)"
        using close Some rb(1) unfolding st scan_frame_def prod.case Let_def b by (auto simp: of_nat_diff)
      have gap: "?b + msi \<le> Suc i * W" using old(4) close(2) by simp
      have good: "r + msp \<le> ?b \<Longrightarrow> good_region thr msp probs (Suc i) (r, ?b)"
        using rb old(1,3) by (auto simp: good_region_def WINDOW_SAMPLES_def)
      have earlier: "\<forall>p \<in> set found. snd p + msi \<le> Suc i * W" using old(5) rb by fastforce
      have cover: "(\<exists>q \<in> set found. frame_in j q) \<or> frame_in j (r, ?b)" if "msp \<le> W" "j < Suc i" "thr \<le> probs ! j" for j
      proof -
        have "j < i" using that close(1) less_antisym by blast
        then show ?thesis using old(6) that old(4) by (auto simp: frame_in_def)
      qed
      show ?thesis unfolding e
      proof (cases "r + msp \<le> ?b")
        case True
        then show "scan_inv thr msp msi probs (Suc i) (None, 0, if r + msp \<le> ?b then found @ [(r, ?b)] else found)"
          using later old(5) gap good earlier cover by (fastforce simp: scan_inv_def regions_apart_snoc)
      next
        case False
        then have "\<not> msp \<le> W" using rb by simp
        then show "scan_inv thr msp msi probs (Suc i) (None, 0, if r + msp \<le> ?b then found @ [(r, ?b)] else found)"
          using False later earlier by (simp add: scan_inv_def)
      qed
    qed
  qed
qed

lemma scan_frames_inv:
  assumes "scan_inv thr msp msi probs i st" "drop i probs = ps" "i \<le> length probs"
  shows "scan_inv thr msp msi probs (length probs) (scan_frames thr msp msi i ps st)"
  using assms
proof (induction ps arbitrary: i st)
  case Nil
  then show ?case by simp
next
  case (Cons p ps)
  then have i: "i < length probs" by (metis drop_all linorder_not_less list.distinct(1))
  then have p: "p = probs ! i" "drop (Suc i) probs = ps" using Cons.prems(2) by (simp_all add: Cons_nth_drop_Suc [symmetric])
  show ?case using Cons.IH [OF scan_frame_inv [OF Cons.prems(1)] p(2)] i p(1) by simp
qed

text \<open>The offline scanner's regions lie inside the audio on whole windows, start with a speech
  frame, are at least the minimum speech long and at least the minimum silence apart; no
  speech frame is missed when a single window is long enough to count as speech.\<close>

lemma speech_regions_ok:
  shows "\<forall>r \<in> set (speech_regions thr msp msi probs). good_region thr msp probs (length probs) r"
    and "regions_apart msi (speech_regions thr msp msi probs)"
    and "msp \<le> W \<Longrightarrow> j < length probs \<Longrightarrow> thr \<le> probs ! j \<Longrightarrow> \<exists>r \<in> set (speech_regions thr msp msi probs). frame_in j r"
proof -
  obtain region silence found where st: "scan_frames thr msp msi 0 probs (None, 0, []) = (region, silence, found)"
    by (cases "scan_frames thr msp msi 0 probs (None, 0, [])")
  have inv: "scan_inv thr msp msi probs (length probs) (region, silence, found)"
    using scan_frames_inv [of thr msp msi probs 0 "(None, 0, [])" probs] st by (simp add: scan_inv_def regions_apart_def)
  let ?n = "length probs * W"
  have regs: "speech_regions thr msp msi probs = (case region of None \<Rightarrow> found
      | Some r \<Rightarrow> if r + msp \<le> ?n then found @ [(r, ?n)] else found)"
  proof -
    have "(int msp \<le> int ?n - int r) = (r + msp \<le> ?n)" for r by linarith
    then show ?thesis by (simp only: speech_regions_def st prod.case Let_def)
  qed
  have all: "(\<forall>r \<in> set (speech_regions thr msp msi probs). good_region thr msp probs (length probs) r)
    \<and> regions_apart msi (speech_regions thr msp msi probs)
    \<and> (msp \<le> W \<longrightarrow> (\<forall>j < length probs. thr \<le> probs ! j \<longrightarrow> (\<exists>r \<in> set (speech_regions thr msp msi probs). frame_in j r)))"
  proof (cases region)
    case None
    then show ?thesis using inv by (simp add: regs scan_inv_def)
  next
    case (Some r)
    have r: "W dvd r" "thr \<le> probs ! (r div W)" "r + W + silence \<le> ?n" "\<forall>p \<in> set found. snd p + msi \<le> r"
      "\<forall>r \<in> set found. good_region thr msp probs (length probs) r" "regions_apart msi found"
      "msp \<le> W \<longrightarrow> (\<forall>j < length probs. thr \<le> probs ! j \<longrightarrow> (\<exists>r \<in> set found. frame_in j r) \<or> (r \<le> j * W \<and> Suc j * W + silence \<le> ?n))"
      using inv Some by (auto simp: scan_inv_def)
    show ?thesis
    proof (cases "r + msp \<le> ?n")
      case True
      then have e: "speech_regions thr msp msi probs = found @ [(r, ?n)]" using Some by (simp add: regs)
      have "good_region thr msp probs (length probs) (r, ?n)" using r True by (simp add: good_region_def WINDOW_SAMPLES_def)
      then show ?thesis unfolding e using r by (fastforce simp: regions_apart_snoc frame_in_def)
    next
      case False
      then have "\<not> msp \<le> W" using r(3) by simp
      moreover have "speech_regions thr msp msi probs = found" using False Some by (simp add: regs)
      ultimately show ?thesis using r by simp
    qed
  qed
  then show "\<forall>r \<in> set (speech_regions thr msp msi probs). good_region thr msp probs (length probs) r"
    "regions_apart msi (speech_regions thr msp msi probs)"
    "msp \<le> W \<Longrightarrow> j < length probs \<Longrightarrow> thr \<le> probs ! j \<Longrightarrow> \<exists>r \<in> set (speech_regions thr msp msi probs). frame_in j r"
    by blast+
qed

lemma speech_regions_ok_example:
  "speech_regions (1/2) 512 1024 [1, 0, 1, 0, 0, 0] = [(0, 1536)]
   \<and> (\<exists>r \<in> set (speech_regions (1/2) 512 1024 [1, 0, 1, 0, 0, 0]). frame_in 2 r)"
  using speech_regions_ok(3) [of 512 2 "[1, 0, 1, 0, 0, 0]" "1/2" 1024]
  by (simp add: speech_regions_def scan_frame_def WINDOW_SAMPLES_def Let_def)

end
