(* ===== verification/ChunkedRunProps.thy ===== *)
theory ChunkedRunProps
  imports ChunkedRun VadProps
begin

text \<open>
  The chunked path as a whole: a run that returns has transcribed all the speech, each part
  once and in order, however often the GPU ran out of memory; it does return when short
  chunks fit; and the merged transcript is in order on the original timeline.
\<close>

section \<open>One pass\<close>

text \<open>\<open>results\<close> are transcripts of the chunks \<open>dn\<close>, with their offsets.\<close>

definition transcribes :: "'t transcriber \<Rightarrow> ('t \<times> rat) list \<Rightarrow> audio_chunk list \<Rightarrow> bool" where
  "transcribes tr results dn \<longleftrightarrow> list_all2 (\<lambda>(t, off) c. off = ac_offset c \<and> (\<exists>p i. tr p i c = Inr t)) results dn"

lemma transcribes_snoc:
  "transcribes tr rs dn \<Longrightarrow> tr p i c = Inr t \<Longrightarrow> transcribes tr (rs @ [(t, ac_offset c)]) (dn @ [c])"
  unfolding transcribes_def by (intro list_all2_appendI) auto

lemma transcribes_length: "transcribes tr rs dn \<Longrightarrow> length rs = length dn"
  by (simp add: transcribes_def list_all2_lengthD)

lemma run_chunks_done:
  assumes "run_chunks tr p i cs acc = PassDone acc'" "transcribes tr acc dn"
  shows "transcribes tr acc' (dn @ cs)"
  using assms
proof (induction tr p i cs acc arbitrary: dn rule: run_chunks.induct)
  case (2 tr p i c cs acc)
  then obtain t where t: "tr p i c = Inr t" by (auto split: sum.splits if_splits)
  show ?case using "2.IH" [OF t, of "dn @ [c]"] "2.prems" t transcribes_snoc [of tr acc dn p i c t] by simp
qed simp

lemma run_chunks_oom:
  assumes "run_chunks tr p i cs acc = PassOom acc' k c" "transcribes tr acc dn"
  shows "\<exists>ys zs. cs = ys @ c # zs \<and> k = i + length ys \<and> transcribes tr acc' (dn @ ys) \<and> (\<exists>e. tr p k c = Inl e \<and> is_oom_error e)"
  using assms
proof (induction tr p i cs acc arbitrary: dn rule: run_chunks.induct)
  case (2 tr p i d cs acc)
  show ?case
  proof (cases "tr p i d")
    case (Inl e)
    then have "acc' = acc" "k = i" "c = d" "is_oom_error e" using "2.prems" by (auto split: if_splits)
    then show ?thesis using "2.prems" Inl by (intro exI [of _ "[]"] exI [of _ cs]) auto
  next
    case (Inr t)
    obtain ys zs where "cs = ys @ c # zs" "k = Suc i + length ys" "transcribes tr acc' ((dn @ [d]) @ ys)"
      "\<exists>e. tr p k c = Inl e \<and> is_oom_error e"
      using "2.IH" [OF Inr, of "dn @ [d]"] "2.prems" Inr transcribes_snoc [of tr acc dn p i d t] by auto
    then show ?thesis by (intro exI [of _ "d # ys"] exI [of _ zs]) auto
  qed
qed simp

lemma run_chunks_oom_at:
  "run_chunks tr p i cs acc = PassOom acc' k c \<Longrightarrow> \<exists>e. c \<in> set cs \<and> tr p k c = Inl e"
  by (induction tr p i cs acc rule: run_chunks.induct) (auto split: sum.splits if_splits)

lemma run_chunks_raised:
  "run_chunks tr p i cs acc = PassRaised e \<Longrightarrow> \<exists>k c. c \<in> set cs \<and> tr p k c = Inl e \<and> \<not> is_oom_error e"
  by (induction tr p i cs acc rule: run_chunks.induct) (auto split: sum.splits if_splits)

section \<open>The run\<close>

text \<open>Every cap the halving reaches is a time of the sample grid.\<close>

definition halving_grid :: "rat \<Rightarrow> bool" where
  "halving_grid cap \<longleftrightarrow> (\<forall>j. 60 \<le> cap / 2 ^ j \<longrightarrow> on_grid sample (cap / 2 ^ j)) \<and> on_grid sample cap"

lemma halving_grid_next:
  assumes "halving_grid cap"
  shows "halving_grid (max (cap / 2) 60)"
proof (cases "60 \<le> cap / 2")
  case True
  have "on_grid sample (cap / 2 / 2 ^ j)" if "60 \<le> cap / 2 / 2 ^ j" for j
    using assms that unfolding halving_grid_def by (metis divide_divide_eq_left power_Suc)
  moreover have "on_grid sample (cap / 2)" using assms True unfolding halving_grid_def
    by (metis power_one_right)
  moreover have "max (cap / 2) 60 = cap / 2" using True by simp
  ultimately show ?thesis unfolding halving_grid_def by simp
next
  case False
  have "j = 0" if "60 \<le> (60::rat) / 2 ^ j" for j
  proof (rule ccontr)
    assume "j \<noteq> 0"
    then have "(1::rat) < 2 ^ j" by simp
    then show False using that by (simp add: field_simps)
  qed
  then have "on_grid sample (60 / 2 ^ j)" if "60 \<le> (60::rat) / 2 ^ j" for j using that by force
  moreover have "max (cap / 2) 60 = 60" using False by simp
  ultimately show ?thesis unfolding halving_grid_def by simp
qed

text \<open>Speech before \<open>upto\<close> is in a chunk that is done, or in the millisecond after a boundary in \<open>B\<close>.\<close>

definition all_heard :: "speech_segment list \<Rightarrow> audio_chunk list \<Rightarrow> rat list \<Rightarrow> rat set \<Rightarrow> bool" where
  "all_heard segs dn B X \<longleftrightarrow> (\<forall>x \<in> X. speech_at segs x \<longrightarrow> chunk_at dn x \<or> (\<exists>b \<in> set B. b \<le> x \<and> x < b + 1/1000))"

definition run_inv ::
  "'t transcriber \<Rightarrow> speech_segment list \<Rightarrow> rat \<Rightarrow> rat \<Rightarrow> ('t \<times> rat) list \<Rightarrow> audio_chunk list \<Rightarrow> rat list \<Rightarrow> bool" where
  "run_inv tr segs cap start acc dn B \<longleftrightarrow>
     transcribes tr acc dn \<and> chunks_in_order dn \<and> (\<forall>c \<in> set dn. chunk_end_s c \<le> start \<and> ac_duration c \<le> cap)
     \<and> all_heard segs dn B {..<start}"

lemma chunks_in_order_append:
  "chunks_in_order (xs @ ys) \<longleftrightarrow> chunks_in_order xs \<and> chunks_in_order ys \<and> (\<forall>x \<in> set xs. \<forall>y \<in> set ys. chunk_end_s x \<le> ac_offset y)"
  by (auto simp: chunks_in_order_def sorted_wrt_append)

lemma chunk_at_append: "chunk_at (xs @ ys) x \<longleftrightarrow> chunk_at xs x \<or> chunk_at ys x"
  by (auto simp: chunk_at_def)

lemma pass_order:
  assumes audio: "good_audio n segs" and cap: "0 < cap" "on_grid sample cap" and start: "on_grid sample start"
    and split: "vad_split cap n segs start = Inr chunks"
  shows "chunks_in_order chunks" "\<forall>c \<in> set chunks. good_chunk cap n start c"
    "speech_at segs x \<Longrightarrow> start + 1/1000 \<le> x \<Longrightarrow> chunk_at chunks x"
proof -
  have e: "chunks = split_chunks cap n segs start" using split cap(1) by (simp add: vad_split_def)
  show "chunks_in_order chunks" "\<forall>c \<in> set chunks. good_chunk cap n start c"
    "speech_at segs x \<Longrightarrow> start + 1/1000 \<le> x \<Longrightarrow> chunk_at chunks x"
    unfolding e using split_chunks_ok [OF audio cap start] by blast+
qed

lemma pass_done:
  assumes audio: "good_audio n segs" and cap: "0 < cap" "cap \<le> cap0" "on_grid sample cap" and start: "on_grid sample start"
    and split: "vad_split cap n segs start = Inr chunks"
    and inv: "run_inv tr segs cap0 start acc dn B"
  shows "chunks_in_order (dn @ chunks) \<and> (\<forall>c \<in> set (dn @ chunks). ac_duration c \<le> cap0) \<and> all_heard segs (dn @ chunks) (start # B) UNIV"
proof -
  note po = pass_order [OF audio cap(1,3) start split]
  have "chunks_in_order (dn @ chunks)"
    using inv po(1,2) by (fastforce simp: run_inv_def chunks_in_order_append good_chunk_def)
  moreover have "\<forall>c \<in> set (dn @ chunks). ac_duration c \<le> cap0"
    using inv po(2) cap(2) by (fastforce simp: run_inv_def good_chunk_def)
  moreover have "chunk_at (dn @ chunks) x \<or> (\<exists>b \<in> set (start # B). b \<le> x \<and> x < b + 1/1000)" if "speech_at segs x" for x
  proof (cases "x < start")
    case True
    then show ?thesis using inv that by (auto simp: run_inv_def all_heard_def chunk_at_append)
  next
    case False
    then show ?thesis using po(3) [OF that] by (cases "start + 1/1000 \<le> x") (auto simp: chunk_at_append)
  qed
  ultimately show ?thesis by (simp add: all_heard_def)
qed

lemma pass_oom:
  assumes audio: "good_audio n segs" and cap: "0 < cap" "cap \<le> cap0" "on_grid sample cap" and start: "on_grid sample start"
    and split: "vad_split cap n segs start = Inr (ys @ c # zs)"
    and inv: "run_inv tr segs cap0 start acc dn B" and done': "transcribes tr acc' (dn @ ys)"
  shows "run_inv tr segs cap0 (ac_offset c) acc' (dn @ ys) (start # B) \<and> on_grid sample (ac_offset c)"
proof -
  note po = pass_order [OF audio cap(1,3) start split]
  have good: "\<forall>d \<in> set (ys @ c # zs). good_chunk cap n start d" by (rule po(2))
  have order: "\<forall>d \<in> set ys. chunk_end_s d \<le> ac_offset c" "chunks_in_order ys"
    "\<forall>d \<in> set zs. chunk_end_s c \<le> ac_offset d"
  proof -
    have a: "chunks_in_order ys" "chunks_in_order (c # zs)" "\<forall>d \<in> set ys. \<forall>e \<in> set (c # zs). chunk_end_s d \<le> ac_offset e"
      using po(1) unfolding chunks_in_order_append by blast+
    then show "\<forall>d \<in> set ys. chunk_end_s d \<le> ac_offset c" "chunks_in_order ys" by simp_all
    show "\<forall>d \<in> set zs. chunk_end_s c \<le> ac_offset d" using a(2) by (simp add: chunks_in_order_def)
  qed
  have start_le: "start \<le> ac_offset c" using good by (simp add: good_chunk_def)
  have ends: "\<forall>d \<in> set (dn @ ys). chunk_end_s d \<le> ac_offset c \<and> ac_duration d \<le> cap0"
  proof
    fix d assume "d \<in> set (dn @ ys)"
    then consider "d \<in> set dn" | "d \<in> set ys" by auto
    then show "chunk_end_s d \<le> ac_offset c \<and> ac_duration d \<le> cap0"
    proof cases
      case 1
      then have "chunk_end_s d \<le> start" "ac_duration d \<le> cap0" using inv by (auto simp: run_inv_def)
      then show ?thesis using start_le by simp
    next
      case 2
      then have "ac_duration d \<le> cap" using good by (simp add: good_chunk_def)
      then show ?thesis using order(1) 2 cap(2) by simp
    qed
  qed
  have o: "chunks_in_order (dn @ ys)"
  proof -
    have "chunk_end_s d \<le> ac_offset e" if "d \<in> set dn" "e \<in> set ys" for d e
      using inv good that by (fastforce simp: run_inv_def good_chunk_def intro: order_trans)
    then show ?thesis using inv order(2) by (simp add: run_inv_def chunks_in_order_append)
  qed
  have heard: "chunk_at (dn @ ys) x \<or> (\<exists>b \<in> set (start # B). b \<le> x \<and> x < b + 1/1000)"
    if x: "speech_at segs x" "x < ac_offset c" for x
  proof (cases "x < start")
    case True
    then show ?thesis using inv x by (auto simp: run_inv_def all_heard_def chunk_at_append)
  next
    case False
    have "chunk_at ys x" if late: "start + 1/1000 \<le> x"
    proof -
      obtain d where d: "d \<in> set (ys @ c # zs)" "ac_offset d \<le> x" "x < chunk_end_s d"
        using po(3) [OF x(1) late] by (auto simp: chunk_at_def)
      have "ac_duration c > 0" using good by (simp add: good_chunk_def)
      then have "d \<in> set ys" using d x(2) order(3) by (auto simp: chunk_end_s_def)
      then show ?thesis using d by (auto simp: chunk_at_def)
    qed
    then show ?thesis using False by (cases "start + 1/1000 \<le> x") (auto simp: chunk_at_append)
  qed
  show ?thesis using done' o ends heard good
    by (simp add: run_inv_def all_heard_def good_chunk_def)
qed

lemma backoff_inv:
  assumes "chunks_with_backoff tr n segs p cap start acc m cached = (cached', Inr run)"
    and "good_audio n segs" "0 < cap" "cap \<le> cap0" "halving_grid cap" "on_grid sample start"
    and "run_inv tr segs cap0 start acc dn B" "m = length acc"
  shows "\<exists>ys C. transcribes tr (cr_results run) ys \<and> chunks_in_order ys \<and> (\<forall>c \<in> set ys. ac_duration c \<le> cap0)
    \<and> all_heard segs ys C UNIV \<and> cr_count run = length ys
    \<and> cr_final_max run \<le> cap \<and> (cr_final_max run = cap \<and> cached' = cached \<or> 60 \<le> cr_final_max run \<and> cached' = Some (cr_final_max run))"
  using assms
proof (induction tr n segs p cap start acc m cached arbitrary: dn B rule: chunks_with_backoff.induct)
  case (1 tr n segs p cap start acc m cached)
  note audio = "1.prems"(2) and cap = "1.prems"(3,4) and start = "1.prems"(6) and inv = "1.prems"(7)
  have grid: "on_grid sample cap" using "1.prems"(5) by (simp add: halving_grid_def)
  obtain chunks where split: "vad_split cap n segs start = Inr chunks" using cap(1) by (simp add: vad_split_def)
  note finished = pass_done [OF audio cap grid start split inv]
  have tr0: "transcribes tr acc dn" using inv by (simp add: run_inv_def)
  show ?case
  proof (cases "chunks = []")
    case True
    then have "run = \<lparr>cr_results = acc, cr_count = m, cr_final_max = cap\<rparr>" "cached' = cached"
      using "1.prems"(1) split by (subst (asm) chunks_with_backoff.simps; simp)+
    then show ?thesis using finished True tr0 transcribes_length [OF tr0] "1.prems"(8)
      by (intro exI [of _ dn] exI [of _ "start # B"]) simp
  next
    case ne: False
    show ?thesis
    proof (cases "run_chunks tr p 0 chunks acc")
      case (PassDone acc')
      then have r: "run = \<lparr>cr_results = acc', cr_count = m + length chunks, cr_final_max = cap\<rparr>" "cached' = cached"
        using "1.prems"(1) split ne by (subst (asm) chunks_with_backoff.simps; simp)+
      have "transcribes tr acc' (dn @ chunks)" by (rule run_chunks_done [OF PassDone tr0])
      then show ?thesis using finished r transcribes_length [OF tr0] "1.prems"(8)
        by (intro exI [of _ "dn @ chunks"] exI [of _ "start # B"]) simp
    next
      case (PassOom acc' i c)
      obtain ys zs where yz: "chunks = ys @ c # zs" "i = length ys" "transcribes tr acc' (dn @ ys)"
        using run_chunks_oom [OF PassOom tr0] by auto
      let ?new = "max (cap / 2) MIN_CHUNK_FLOOR_S"
      have small: "\<not> cap \<le> ?new"
        using "1.prems"(1) split ne PassOom by (subst (asm) chunks_with_backoff.simps) (auto simp: Let_def)
      have goes_on: "chunks_with_backoff tr n segs (Suc p) ?new (ac_offset c) acc' (m + i) (Some ?new) = (cached', Inr run)"
        using "1.prems"(1) split ne PassOom small by (subst (asm) chunks_with_backoff.simps) (simp add: Let_def)
      have step: "run_inv tr segs cap0 (ac_offset c) acc' (dn @ ys) (start # B)" "on_grid sample (ac_offset c)"
        using pass_oom [OF audio cap grid start _ inv yz(3)] split yz(1) by simp_all
      have new: "0 < ?new" "?new \<le> cap0" "halving_grid ?new" "60 \<le> ?new" "?new \<le> cap"
        using small cap(2) halving_grid_next [OF "1.prems"(5)] by (auto simp: MIN_CHUNK_FLOOR_S_def)
      have len: "m + i = length acc'"
        using transcribes_length [OF yz(3)] transcribes_length [OF tr0] yz(2) "1.prems"(8) by simp
      from "1.IH" [OF split ne PassOom refl small goes_on audio new(1,2,3) step(2,1) len]
      show ?thesis using new(4,5) by fastforce
    next
      case (PassRaised e)
      then show ?thesis
        using "1.prems"(1) split ne by (subst (asm) chunks_with_backoff.simps) simp
    qed
  qed
qed


lemma pass_not_raised:
  assumes "\<forall>p i c e. tr p i c = Inl e \<longrightarrow> is_oom_error e"
  shows "run_chunks tr p i cs acc \<noteq> PassRaised e"
  using run_chunks_raised [of tr p i cs acc e] assms by metis

lemma backoff_returns:
  assumes "\<forall>p i c e. tr p i c = Inl e \<longrightarrow> is_oom_error e \<and> 60 < ac_duration c"
    and "good_audio n segs" "0 < cap" "halving_grid cap" "on_grid sample start"
  shows "\<exists>cached' run. chunks_with_backoff tr n segs p cap start acc m cached = (cached', Inr run)"
  using assms
proof (induction tr n segs p cap start acc m cached rule: chunks_with_backoff.induct)
  case (1 tr n segs p cap start acc m cached)
  have grid: "on_grid sample cap" using "1.prems"(4) by (simp add: halving_grid_def)
  obtain chunks where split: "vad_split cap n segs start = Inr chunks" using "1.prems"(3) by (simp add: vad_split_def)
  note po = pass_order [OF "1.prems"(2,3) grid "1.prems"(5) split]
  show ?case
  proof (cases "chunks = []")
    case True
    then show ?thesis using split by (subst chunks_with_backoff.simps) simp
  next
    case ne: False
    show ?thesis
    proof (cases "run_chunks tr p 0 chunks acc")
      case (PassDone acc')
      then show ?thesis using split ne by (subst chunks_with_backoff.simps) simp
    next
      case (PassRaised e)
      then show ?thesis using pass_not_raised [of tr p 0 chunks acc e] "1.prems"(1) by blast
    next
      case (PassOom acc' i c)
      obtain e where c: "c \<in> set chunks" "tr p i c = Inl e"
        using run_chunks_oom_at [OF PassOom] by blast
      have "60 < ac_duration c" "ac_duration c \<le> cap" using "1.prems"(1) c po(2) by (auto simp: good_chunk_def)
      then have small: "\<not> cap \<le> max (cap / 2) MIN_CHUNK_FLOOR_S" by (simp add: MIN_CHUNK_FLOOR_S_def)
      have g: "on_grid sample (ac_offset c)" using po(2) c by (simp add: good_chunk_def)
      have new: "0 < max (cap / 2) MIN_CHUNK_FLOOR_S" "halving_grid (max (cap / 2) MIN_CHUNK_FLOOR_S)"
        using halving_grid_next [OF "1.prems"(4)] by (simp_all add: MIN_CHUNK_FLOOR_S_def)
      from "1.IH" [OF split ne PassOom refl small "1.prems"(1,2) new g]
      show ?thesis using split ne PassOom small by (subst chunks_with_backoff.simps) (simp add: Let_def)
    qed
  qed
qed

text \<open>The chunked path always returns a result when the model fails only by running out of
  memory, and only on chunks longer than a minute: halving the cap gets there.\<close>

lemma chunked_run_succeeds:
  assumes "\<forall>p i c e. tr p i c = Inl e \<longrightarrow> is_oom_error e \<and> 60 < ac_duration c"
    and "good_audio n segs" "0 < cap" "halving_grid cap"
  shows "\<exists>cached' run. chunks_with_backoff tr n segs 1 cap 0 [] 0 cached = (cached', Inr run)"
  by (rule backoff_returns [OF assms]) simp

section \<open>The merged timeline\<close>

lemma map_res_all2: "map_res f xs = Inr ys \<Longrightarrow> list_all2 (\<lambda>x y. f x = Inr y) xs ys"
  by (induction xs arbitrary: ys) (auto simp: res_simps)

text \<open>A transcript with its segments in order within \<open>d\<close> seconds.\<close>

definition segments_within :: "rat \<Rightarrow> batch_segment list \<Rightarrow> bool" where
  "segments_within d ss \<longleftrightarrow> (\<forall>s \<in> set ss. 0 \<le> bs_start s \<and> bs_start s \<le> bs_end s \<and> bs_end s \<le> d)
     \<and> sorted_wrt (\<lambda>a b. bs_end a \<le> bs_start b) ss"

definition shifted :: "rat \<Rightarrow> batch_segment \<Rightarrow> batch_segment \<Rightarrow> bool" where
  "shifted off s s' \<longleftrightarrow> bs_start s' = round_ms (bs_start s + off) \<and> bs_end s' = round_ms (bs_end s + off)
     \<and> bs_text s' = bs_text s \<and> bs_id s' = bs_id s \<and> bs_language s' = bs_language s
     \<and> (case bs_words s of None \<Rightarrow> bs_words s' = None
        | Some ws \<Rightarrow> \<exists>ws'. bs_words s' = Some ws' \<and> list_all2 (\<lambda>w w'. tw_text w' = tw_text w
            \<and> tw_start w' = round_ms (tw_start w + off) \<and> tw_end w' = round_ms (tw_end w + off)
            \<and> tw_confidence w' = tw_confidence w \<and> tw_language w' = None) ws ws')"

lemma shift_segment_shifted: "shift_segment off s = Inr s' \<Longrightarrow> shifted off s s'"
  unfolding shift_segment_def shifted_def
  by (auto simp: res_simps split: option.splits if_splits dest!: map_res_all2)
    (auto simp: shift_word_def split: if_splits elim!: list_all2_mono)

lemma shifted_within:
  assumes "list_all2 (shifted off) ss ss'" "segments_within d ss"
  shows "sorted_wrt (\<lambda>a b. bs_end a \<le> bs_start b) ss'
    \<and> (\<forall>s' \<in> set ss'. round_ms off \<le> bs_start s' \<and> bs_end s' \<le> round_ms (off + d))"
  using assms
proof (induction rule: list_all2_induct)
  case Nil
  then show ?case by simp
next
  case (Cons s ss s' ss')
  have w: "segments_within d ss" using Cons.prems by (simp add: segments_within_def)
  have "bs_end s' \<le> bs_start t'" if t': "t' \<in> set ss'" for t'
  proof -
    obtain t where t: "t \<in> set ss" "shifted off t t'"
      using Cons.hyps(2) t' by (metis list_all2_conv_all_nth in_set_conv_nth)
    have "bs_end s + off \<le> bs_start t + off" using Cons.prems t by (simp add: segments_within_def)
    then show ?thesis using Cons.hyps(1) t by (simp add: shifted_def round_ms_mono)
  qed
  moreover have "round_ms off \<le> bs_start s' \<and> bs_end s' \<le> round_ms (off + d)"
    using Cons.prems Cons.hyps(1) by (auto simp: shifted_def segments_within_def intro!: round_ms_mono)
  ultimately show ?case using Cons.IH [OF w] by simp
qed

lemma merged_in_order:
  assumes "list_all2 (\<lambda>(t, off) c. off = ac_offset c \<and> segments_within (ac_duration c) (bt_segments t)) results cs"
    and "chunks_in_order cs"
    and "list_all2 (\<lambda>(t, off) ss'. list_all2 (shifted off) (bt_segments t) ss') results segss"
  shows "sorted_wrt (\<lambda>a b. bs_end a \<le> bs_start b) (concat segss)
    \<and> (\<forall>s \<in> set (concat segss). \<exists>c \<in> set cs. round_ms (ac_offset c) \<le> bs_start s \<and> bs_end s \<le> round_ms (chunk_end_s c))"
  using assms
proof (induction results cs arbitrary: segss rule: list_all2_induct)
  case Nil
  then show ?case by simp
next
  case (Cons r results c cs)
  obtain t off where r: "r = (t, off)" by (cases r)
  obtain ss' rest where segss: "segss = ss' # rest" "list_all2 (shifted off) (bt_segments t) ss'"
    "list_all2 (\<lambda>(t, off) ss'. list_all2 (shifted off) (bt_segments t) ss') results rest"
    using Cons.prems(2) r by (auto simp: list_all2_Cons1)
  have here: "sorted_wrt (\<lambda>a b. bs_end a \<le> bs_start b) ss'"
    "\<forall>s' \<in> set ss'. round_ms (ac_offset c) \<le> bs_start s' \<and> bs_end s' \<le> round_ms (chunk_end_s c)"
    using shifted_within [OF segss(2)] Cons.hyps(1) r by (auto simp: chunk_end_s_def)
  have order: "chunks_in_order cs" "\<forall>d \<in> set cs. chunk_end_s c \<le> ac_offset d"
    using Cons.prems(1) by (auto simp: chunks_in_order_def)
  note later = Cons.IH [OF order(1) segss(3)]
  have "bs_end a \<le> bs_start b" if a: "a \<in> set ss'" and b: "b \<in> set (concat rest)" for a b
  proof -
    obtain d where "d \<in> set cs" "round_ms (ac_offset d) \<le> bs_start b" using later b by blast
    moreover have "bs_end a \<le> round_ms (chunk_end_s c)" using here(2) a by blast
    ultimately show ?thesis using round_ms_mono [of "chunk_end_s c" "ac_offset d"] order(2) by force
  qed
  then show ?case using here later unfolding segss(1) by (auto simp: sorted_wrt_append)
qed

lemma merge_segments:
  assumes "merge_chunk_transcripts eid results = Inr t"
  shows "\<exists>segss. bt_segments t = concat segss
    \<and> list_all2 (\<lambda>(t, off) ss'. list_all2 (shifted off) (bt_segments t) ss') results segss"
proof (cases results)
  case Nil
  then show ?thesis using assms by (intro exI [of _ "[]"]) (auto simp: merge_chunk_transcripts_def build_transcript_def)
next
  case (Cons r rs)
  then obtain segss where s: "map_res (\<lambda>(t, off). map_res (shift_segment off) (bt_segments t)) results = Inr segss"
    "bt_segments t = concat segss"
    using assms by (cases r) (auto simp: merge_chunk_transcripts_def build_transcript_def res_simps)
  have "list_all2 (\<lambda>(t, off) ss'. list_all2 (shifted off) (bt_segments t) ss') results segss"
    using map_res_all2 [OF s(1)]
    by (rule list_all2_mono) (auto dest!: map_res_all2 elim!: list_all2_mono intro: shift_segment_shifted)
  then show ?thesis using s(2) by blast
qed

lemma chunked_transcript_in_order_facts:
  assumes "process_chunked tr eid n segs cached requested = (cached', Inr t)"
    and "good_audio n segs" "0 < effective_chunk_cap cached requested" "halving_grid (effective_chunk_cap cached requested)"
    and model: "\<forall>p i c r. tr p i c = Inr r \<longrightarrow> segments_within (ac_duration c) (bt_segments r)"
  shows "sorted_wrt (\<lambda>a b. bs_end a \<le> bs_start b) (bt_segments t)"
    and "\<forall>s' \<in> set (bt_segments t). \<exists>p i c r. \<exists>s \<in> set (bt_segments r). tr p i c = Inr r \<and> shifted (ac_offset c) s s'
      \<and> round_ms (ac_offset c) \<le> bs_start s' \<and> bs_end s' \<le> round_ms (chunk_end_s c)"
proof -
  obtain run where run: "chunks_with_backoff tr n segs 1 (effective_chunk_cap cached requested) 0 [] 0 cached = (cached', Inr run)"
    and merged: "merge_chunk_transcripts eid (cr_results run) = Inr t"
    using assms(1) by (auto simp: process_chunked_def split: prod.splits sum.splits)
  have "\<not> speech_at segs x" if "x < 0" for x
    using assms(2) that by (auto simp: good_audio_def speech_at_def)
  then have "run_inv tr segs (effective_chunk_cap cached requested) 0 [] [] []"
    by (simp add: run_inv_def transcribes_def chunks_in_order_def all_heard_def)
  then obtain cs where cs: "transcribes tr (cr_results run) cs" "chunks_in_order cs"
    using backoff_inv [OF run assms(2,3) order_refl assms(4), of "[]" "[]"] by auto
  obtain segss where segss: "bt_segments t = concat segss"
    "list_all2 (\<lambda>(t, off) ss'. list_all2 (shifted off) (bt_segments t) ss') (cr_results run) segss"
    using merge_segments [OF merged] by blast
  have within: "list_all2 (\<lambda>(t, off) c. off = ac_offset c \<and> segments_within (ac_duration c) (bt_segments t)) (cr_results run) cs"
    using cs(1) model unfolding transcribes_def by (auto elim!: list_all2_mono)
  show "sorted_wrt (\<lambda>a b. bs_end a \<le> bs_start b) (bt_segments t)"
    using merged_in_order [OF within cs(2) segss(2)] segss(1) by simp
  show "\<forall>s' \<in> set (bt_segments t). \<exists>p i c r. \<exists>s \<in> set (bt_segments r). tr p i c = Inr r \<and> shifted (ac_offset c) s s'
      \<and> round_ms (ac_offset c) \<le> bs_start s' \<and> bs_end s' \<le> round_ms (chunk_end_s c)"
  proof
    fix s' assume "s' \<in> set (bt_segments t)"
    then obtain ss' where "ss' \<in> set segss" and s': "s' \<in> set ss'" using segss(1) by auto
    then obtain k where k: "k < length segss" "segss ! k = ss'" by (auto simp: in_set_conv_nth)
    obtain r off where r: "cr_results run ! k = (r, off)" by (cases "cr_results run ! k")
    have len: "k < length (cr_results run)" using k segss(2) by (simp add: list_all2_lengthD)
    have l: "list_all2 (shifted off) (bt_segments r) ss'"
      using list_all2_nthD [OF segss(2) len] r k by simp
    obtain p i where c: "off = ac_offset (cs ! k)" "tr p i (cs ! k) = Inr r"
      using list_all2_nthD [OF cs(1) [unfolded transcribes_def] len] r by auto
    obtain s where s: "s \<in> set (bt_segments r)" "shifted off s s'"
      using l s' by (metis list_all2_conv_all_nth in_set_conv_nth)
    have "round_ms off \<le> bs_start s' \<and> bs_end s' \<le> round_ms (off + ac_duration (cs ! k))"
      using shifted_within [OF l] model c(2) s' by blast
    then show "\<exists>p i c r. \<exists>s \<in> set (bt_segments r). tr p i c = Inr r \<and> shifted (ac_offset c) s s'
        \<and> round_ms (ac_offset c) \<le> bs_start s' \<and> bs_end s' \<le> round_ms (chunk_end_s c)"
      using s c unfolding chunk_end_s_def by blast
  qed
qed

text \<open>The transcript of the chunked path is in order on the original timeline: when the model
  keeps the segments of each chunk in order within the chunk, the merged segments follow one
  another without overlap, each lies within the times of a transcribed chunk up to the rounding
  to milliseconds, and is a shifted segment of a chunk transcript; the shift drops the language
  of every word.\<close>

lemma chunked_transcript_in_order:
  assumes "process_chunked tr eid n segs cached requested = (cached', Inr t)"
    and "good_audio n segs" "0 < effective_chunk_cap cached requested" "halving_grid (effective_chunk_cap cached requested)"
    and model: "\<forall>p i c r. tr p i c = Inr r \<longrightarrow> segments_within (ac_duration c) (bt_segments r)"
  shows "sorted_wrt (\<lambda>a b. bs_end a \<le> bs_start b) (bt_segments t)
     \<and> (\<forall>s' \<in> set (bt_segments t). \<exists>p i c r. \<exists>s \<in> set (bt_segments r). tr p i c = Inr r \<and> shifted (ac_offset c) s s'
      \<and> round_ms (ac_offset c) \<le> bs_start s' \<and> bs_end s' \<le> round_ms (chunk_end_s c))"
  using chunked_transcript_in_order_facts [OF assms] by blast

section \<open>Witnesses\<close>

text \<open>A model that runs out of memory on chunks longer than a minute, on two minutes of speech.\<close>

definition demo_oom :: engine_error where
  "demo_oom = EngineRaised ''RuntimeError'' ''CUDA out of memory''"

definition demo_segment :: "rat \<Rightarrow> batch_segment" where
  "demo_segment d = \<lparr>bs_id = None, bs_start = 0, bs_end = d, bs_text = ''hello'', bs_words = None, bs_language = None,
     bs_language_confidence = None, bs_confidence = None, bs_is_final = None, bs_is_speech = None, bs_metadata = []\<rparr>"

definition demo_model :: "batch_transcript transcriber" where
  "demo_model p i c =
     (if 60 < ac_duration c then Inl demo_oom
      else Inr (build_transcript ''hello'' (if 0 \<le> ac_duration c then [demo_segment (ac_duration c)] else []) ''en'' ''demo'' None ''unknown'' None []))"

definition demo_chunk :: "nat \<Rightarrow> rat \<Rightarrow> rat \<Rightarrow> int \<Rightarrow> int \<Rightarrow> audio_chunk" where
  "demo_chunk i off d a b = \<lparr>ac_index = i, ac_offset = off, ac_duration = d, ac_slice = (a, b)\<rparr>"

lemma demo_oom_is_oom: "is_oom_error demo_oom"
  by code_simp

lemma demo_groups:
  "group_segments 120 (cap_segments 120 demo_speech)
     = [[\<lparr>vs_start = 1, vs_end = 121\<rparr>], [\<lparr>vs_start = 121, vs_end = 131\<rparr>, \<lparr>vs_start = 140, vs_end = 150\<rparr>]]"
  "group_segments 60 (cap_segments 60 demo_speech)
     = [[\<lparr>vs_start = 1, vs_end = 61\<rparr>], [\<lparr>vs_start = 61, vs_end = 121\<rparr>],
        [\<lparr>vs_start = 121, vs_end = 131\<rparr>, \<lparr>vs_start = 140, vs_end = 150\<rparr>]]"
  by (simp_all add: demo_speech_def seg_duration_def force_split.simps Let_def group_segments_def)

lemma demo_splits:
  "vad_split 120 2400000 demo_speech 0 = Inr [demo_chunk 0 1 120 16000 1936000, demo_chunk 1 121 29 1936000 2400000]"
  "vad_split 60 2400000 demo_speech 1
     = Inr [demo_chunk 0 1 60 16000 976000, demo_chunk 1 61 60 976000 1936000, demo_chunk 2 121 29 1936000 2400000]"
  by (simp_all add: vad_split_def split_chunks_def demo_groups group_chunk_def demo_chunk_def SAMPLE_RATE_def Let_def
      py_round_def, simp_all add: demo_speech_def)

lemma halving_grid_120: "halving_grid 120"
proof -
  have "j = 0 \<or> j = 1" if "60 \<le> (120::rat) / 2 ^ j" for j
  proof (rule ccontr)
    assume "\<not> (j = 0 \<or> j = 1)"
    then obtain k where k: "j = Suc (Suc k)" by (metis One_nat_def not0_implies_Suc)
    have "(1::rat) \<le> 2 ^ k" by simp
    moreover have "60 * (2 * (2 * (2::rat) ^ k)) \<le> 120" using that k by (simp add: field_simps)
    ultimately show False by linarith
  qed
  then show ?thesis unfolding halving_grid_def by fastforce
qed


lemma chunked_run_succeeds_example:
  "\<exists>cached' run. chunks_with_backoff demo_model 2400000 demo_speech 1 120 0 [] 0 None = (cached', Inr run)"
  using chunked_run_succeeds [of demo_model 2400000 demo_speech 120 None] demo_speech_ok halving_grid_120 demo_oom_is_oom
  by (auto simp: demo_model_def)

lemma chunked_transcript_in_order_example:
  "\<exists>t. process_chunked demo_model ''demo'' 2400000 demo_speech None 120 = (Some 60, Inr t)
     \<and> length (bt_segments t) = 3 \<and> sorted_wrt (\<lambda>a b. bs_end a \<le> bs_start b) (bt_segments t)"
proof -
  have cap: "effective_chunk_cap None 120 = 120" by (simp add: effective_chunk_cap_def)
  obtain t where t: "process_chunked demo_model ''demo'' 2400000 demo_speech None 120 = (Some 60, Inr t)"
    "length (bt_segments t) = 3"
    by (simp add: process_chunked_def cap chunks_with_backoff.simps [of _ _ _ _ 120] chunks_with_backoff.simps [of _ _ _ _ 60]
        demo_splits demo_model_def demo_chunk_def demo_oom_is_oom MIN_CHUNK_FLOOR_S_def Let_def
        merge_chunk_transcripts_def build_transcript_def shift_segment_def demo_segment_def segment_params_def dhas_def)
  have "\<forall>p i c r. demo_model p i c = Inr r \<longrightarrow> segments_within (ac_duration c) (bt_segments r)"
    by (auto simp: demo_model_def build_transcript_def segments_within_def demo_segment_def split: if_splits)
  then show ?thesis using chunked_transcript_in_order [OF t(1) demo_speech_ok] cap halving_grid_120 t by auto
qed

end
