(* ===== verification/ConsumerGroups.thy ===== *)
theory ConsumerGroups
  imports Prelude
begin

text \<open>
  Redis streams with one consumer group, as \<open>dalston/common/streams.py\<close>,
  \<open>dalston/common/streams_sync.py\<close> and \<open>dalston/common/durable_events.py\<close> use them. A message
  is identified by its position in the log it was appended to, which orders messages as
  Redis' generated identifiers do; a stream is read through the list of its live messages, in
  that order (a message that was deleted is not live). A group keeps how far it has delivered
  and its list of pending entries; a group that does not exist yet is one that has delivered
  nothing, because every creation starts from the beginning of the stream.
\<close>

record pending =
  p_id :: nat
  p_consumer :: string
  p_since :: time
  p_count :: nat

record group =
  delivered_to :: nat
  pel :: "pending list"

definition new_group :: group where
  "new_group = \<lparr>delivered_to = 0, pel = []\<rparr>"

definition pel_ids :: "group \<Rightarrow> nat set" where
  "pel_ids g = p_id ` set (pel g)"

section \<open>The commands\<close>

text \<open>\<open>XREADGROUP ... >\<close>: the next undelivered messages become pending for the consumer.\<close>

definition xread_new ::
  "time \<Rightarrow> string \<Rightarrow> nat \<Rightarrow> (nat \<times> 'm) list \<Rightarrow> group \<Rightarrow> group \<times> (nat \<times> 'm) list" where
  "xread_new now c k live g =
     (let fresh = take k (filter (\<lambda>(n, _). delivered_to g \<le> n) live)
      in (g\<lparr>delivered_to := (if fresh = [] then delivered_to g else Suc (fst (last fresh))),
            pel := pel g @ map (\<lambda>(n, _). \<lparr>p_id = n, p_consumer = c, p_since = now, p_count = 1\<rparr>) fresh\<rparr>,
          fresh))"

definition redeliver :: "time \<Rightarrow> string \<Rightarrow> pending \<Rightarrow> pending" where
  "redeliver now c p = p\<lparr>p_consumer := c, p_since := now, p_count := p_count p + 1\<rparr>"

text \<open>\<open>XREADGROUP ... 0\<close>: the consumer's own pending entries, a deleted message without fields.\<close>

definition xread_own ::
  "time \<Rightarrow> string \<Rightarrow> nat \<Rightarrow> (nat \<times> 'm) list \<Rightarrow> group \<Rightarrow> group \<times> (nat \<times> 'm option) list" where
  "xread_own now c k live g =
     (let own = take k (filter (\<lambda>p. p_consumer p = c) (pel g))
      in (g\<lparr>pel := map (\<lambda>p. if p \<in> set own \<and> dhas live (p_id p) then redeliver now c p else p) (pel g)\<rparr>,
          map (\<lambda>p. (p_id p, dget live (p_id p))) own))"

definition xack :: "nat \<Rightarrow> group \<Rightarrow> group" where
  "xack n g = g\<lparr>pel := filter (\<lambda>p. p_id p \<noteq> n) (pel g)\<rparr>"

text \<open>\<open>XCLAIM\<close> of one pending entry: a deleted message leaves the list instead.\<close>

definition xclaim :: "time \<Rightarrow> string \<Rightarrow> nat \<Rightarrow> (nat \<times> 'm) list \<Rightarrow> group \<Rightarrow> group \<times> (nat \<times> 'm) list" where
  "xclaim now c n live g =
     (if n \<notin> pel_ids g then (g, [])
      else (case dget live n of
              None \<Rightarrow> (xack n g, [])
            | Some m \<Rightarrow> (g\<lparr>pel := map (\<lambda>p. if p_id p = n then redeliver now c p else p) (pel g)\<rparr>, [(n, m)])))"

fun xclaim_all ::
  "time \<Rightarrow> string \<Rightarrow> nat list \<Rightarrow> (nat \<times> 'm) list \<Rightarrow> group \<Rightarrow> group \<times> (nat \<times> 'm) list" where
  "xclaim_all now c [] live g = (g, [])"
| "xclaim_all now c (n # ns) live g =
     (let (g1, ms) = xclaim now c n live g; (g2, ms') = xclaim_all now c ns live g1 in (g2, ms @ ms'))"

definition idle_ms :: "time \<Rightarrow> pending \<Rightarrow> int" where
  "idle_ms now p = \<lfloor>(now - p_since p) * 1000\<rfloor>"

text \<open>
  \<open>XAUTOCLAIM\<close>: it walks the pending entries from a cursor, looks at no more than ten times
  \<open>count\<close> of them, claims those idle long enough until it has \<open>count\<close>, and returns the cursor to
  go on from, 0 at the end of the list.
\<close>

fun autoclaim_walk ::
  "time \<Rightarrow> string \<Rightarrow> int \<Rightarrow> nat \<Rightarrow> nat \<Rightarrow> (nat \<times> 'm) list \<Rightarrow> pending list \<Rightarrow> group \<Rightarrow> nat \<times> group \<times> (nat \<times> 'm) list" where
  "autoclaim_walk now c idle attempts room live [] g = (0, g, [])"
| "autoclaim_walk now c idle attempts room live (p # ps) g =
     (if attempts = 0 \<or> room = 0 then (p_id p, g, [])
      else if dhas live (p_id p) \<and> idle_ms now p < idle
      then autoclaim_walk now c idle (attempts - 1) room live ps g
      else (let (g1, ms) = xclaim now c (p_id p) live g;
                (next_id, g2, ms') = autoclaim_walk now c idle (attempts - 1) (room - length ms) live ps g1
            in (next_id, g2, ms @ ms')))"

definition xautoclaim ::
  "time \<Rightarrow> string \<Rightarrow> int \<Rightarrow> nat \<Rightarrow> nat \<Rightarrow> (nat \<times> 'm) list \<Rightarrow> group \<Rightarrow> nat \<times> group \<times> (nat \<times> 'm) list" where
  "xautoclaim now c idle start k live g =
     autoclaim_walk now c idle (10 * k) k live (filter (\<lambda>p. start \<le> p_id p) (pel g)) g"

section \<open>What the commands keep\<close>

text \<open>Pending entries are distinct, in order, and were all delivered.\<close>

definition group_ok :: "group \<Rightarrow> bool" where
  "group_ok g \<longleftrightarrow> sorted_wrt (<) (map p_id (pel g)) \<and> (\<forall>p \<in> set (pel g). p_id p < delivered_to g)"

definition in_order :: "(nat \<times> 'm) list \<Rightarrow> bool" where
  "in_order live \<longleftrightarrow> sorted_wrt (<) (map fst live)"

lemma new_group_ok [simp]: "group_ok new_group"
  by (simp add: group_ok_def new_group_def)

lemma redeliver_id [simp]: "p_id (redeliver now c p) = p_id p"
  by (simp add: redeliver_def)

lemma sorted_wrt_append_less:
  "sorted_wrt (<) xs \<Longrightarrow> sorted_wrt (<) ys \<Longrightarrow> (\<forall>x \<in> set xs. \<forall>y \<in> set ys. x < y) \<Longrightarrow> sorted_wrt (<) (xs @ ys :: nat list)"
  by (simp add: sorted_wrt_append)

lemma sorted_wrt_take_filter: "sorted_wrt (<) (map fst xs) \<Longrightarrow> sorted_wrt (<) (map fst (take k (filter P xs)))"
  by (simp add: sorted_wrt_filter sorted_wrt_map sorted_wrt_take)

lemma last_is_max: "sorted_wrt (<) (map f xs) \<Longrightarrow> x \<in> set xs \<Longrightarrow> f x \<le> (f (last xs) :: nat)"
  by (induction xs) (auto split: if_splits dest: less_imp_le)

lemma xread_new_ok:
  assumes "group_ok g" and "in_order live" and "xread_new now c k live g = (g', ms)"
  shows "group_ok g'" "pel_ids g' = pel_ids g \<union> fst ` set ms" "delivered_to g \<le> delivered_to g'"
    "(n, m) \<in> set ms \<Longrightarrow> (n, m) \<in> set live \<and> delivered_to g \<le> n \<and> n < delivered_to g'"
proof -
  define new where "new = take k (filter (\<lambda>(n, _). delivered_to g \<le> n) live)"
  have ms: "ms = new" and d: "delivered_to g' = (if new = [] then delivered_to g else Suc (fst (last new)))"
    and p: "pel g' = pel g @ map (\<lambda>(n, _). \<lparr>p_id = n, p_consumer = c, p_since = now, p_count = 1\<rparr>) new"
    using assms(3) by (auto simp: xread_new_def Let_def new_def)
  have ids: "map p_id (map (\<lambda>(n, _). \<lparr>p_id = n, p_consumer = c, p_since = now, p_count = 1\<rparr>) new) = map fst new"
    by (simp add: comp_def case_prod_beta)
  have fresh: "x \<in> set live \<and> delivered_to g \<le> fst x" if "x \<in> set new" for x
    using in_set_takeD [OF that [unfolded new_def]] by (auto simp: case_prod_beta)
  have srt: "sorted_wrt (<) (map fst new)"
    using assms(2) by (simp add: in_order_def sorted_wrt_take_filter new_def)
  have top: "fst x < delivered_to g'" if "x \<in> set new" for x
    using last_is_max [OF srt that] that by (auto simp: d)
  show grow: "delivered_to g \<le> delivered_to g'"
    using fresh [OF last_in_set] by (auto simp: d intro: le_SucI)
  show "pel_ids g' = pel_ids g \<union> fst ` set ms"
    unfolding pel_ids_def p ms by (simp only: set_append image_Un set_map [symmetric] ids)
  have old: "p_id q < delivered_to g" if "q \<in> set (pel g)" for q
    using assms(1) that by (simp add: group_ok_def)
  have "sorted_wrt (<) (map p_id (pel g'))"
    unfolding p map_append ids
  proof (rule sorted_wrt_append_less [OF _ srt])
    show "sorted_wrt (<) (map p_id (pel g))" using assms(1) by (simp add: group_ok_def)
    show "\<forall>x \<in> set (map p_id (pel g)). \<forall>y \<in> set (map fst new). x < y"
      using old fresh by (auto intro: less_le_trans)
  qed
  moreover have "p_id q < delivered_to g'" if "q \<in> set (pel g')" for q
    using that old [of q] grow top unfolding p by auto
  ultimately show "group_ok g'" by (simp add: group_ok_def)
  show "(n, m) \<in> set ms \<Longrightarrow> (n, m) \<in> set live \<and> delivered_to g \<le> n \<and> n < delivered_to g'"
    using top [of "(n, m)"] fresh [of "(n, m)"] ms by simp
qed

text \<open>A read skips nothing: every live message it moved past is pending.\<close>

lemma take_below_last:
  assumes "sorted_wrt (<) (map f xs)" and "x \<in> set xs" and "take k xs \<noteq> []" and "f x \<le> (f (last (take k xs)) :: nat)"
  shows "x \<in> set (take k xs)"
proof (rule ccontr)
  assume "x \<notin> set (take k xs)"
  then have "x \<in> set (drop k xs)"
    using assms(2) append_take_drop_id [of k xs] by (metis UnE set_append)
  moreover have "sorted_wrt (<) (map f (take k xs) @ map f (drop k xs))"
    using assms(1) by (simp flip: map_append)
  ultimately have "f (last (take k xs)) < f x"
    using last_in_set [OF assms(3)] by (auto simp: sorted_wrt_append)
  then show False using assms(4) by simp
qed

lemma xread_new_covers:
  assumes "in_order live" and "xread_new now c k live g = (g', ms)" and "(n, m) \<in> set live"
    and "delivered_to g \<le> n" and "n < delivered_to g'"
  shows "n \<in> pel_ids g'"
proof -
  define xs where "xs = filter (\<lambda>(n, _). delivered_to g \<le> n) live"
  have d: "delivered_to g' = (if take k xs = [] then delivered_to g else Suc (fst (last (take k xs))))"
    and p: "pel g' = pel g @ map (\<lambda>(n, _). \<lparr>p_id = n, p_consumer = c, p_since = now, p_count = 1\<rparr>) (take k xs)"
    using assms(2) by (auto simp: xread_new_def Let_def xs_def)
  have ne: "take k xs \<noteq> []" using d assms(4,5) by (auto split: if_splits)
  have "sorted_wrt (<) (map fst xs)"
    using assms(1) by (simp add: in_order_def xs_def sorted_wrt_map sorted_wrt_filter)
  then have "(n, m) \<in> set (take k xs)"
    by (rule take_below_last) (use assms(3-5) d ne in \<open>simp_all add: xs_def\<close>)
  then show ?thesis unfolding pel_ids_def p by (force intro!: image_eqI)
qed

lemma group_ok_map:
  "(\<And>p. p_id (f p) = p_id p) \<Longrightarrow> group_ok (g\<lparr>pel := map f (pel g)\<rparr>) = group_ok g"
  by (simp add: group_ok_def comp_def)

lemma pel_ids_map: "(\<And>p. p_id (f p) = p_id p) \<Longrightarrow> pel_ids (g\<lparr>pel := map f (pel g)\<rparr>) = pel_ids g"
  by (simp add: pel_ids_def image_image)

lemma xread_own_ok:
  assumes "xread_own now c k live g = (g', ms)"
  shows "group_ok g' = group_ok g" "pel_ids g' = pel_ids g" "delivered_to g' = delivered_to g"
    "(n, m) \<in> set ms \<Longrightarrow> n \<in> pel_ids g \<and> m = dget live n"
proof -
  define own where "own = take k (filter (\<lambda>p. p_consumer p = c) (pel g))"
  have g': "g' = g\<lparr>pel := map (\<lambda>p. if p \<in> set own \<and> dhas live (p_id p) then redeliver now c p else p) (pel g)\<rparr>"
    and ms: "ms = map (\<lambda>p. (p_id p, dget live (p_id p))) own"
    using assms by (auto simp: xread_own_def Let_def own_def)
  show "group_ok g' = group_ok g" "pel_ids g' = pel_ids g" "delivered_to g' = delivered_to g"
    unfolding g' by (simp_all add: group_ok_map pel_ids_map)
  have "set own \<subseteq> set (pel g)" by (auto simp: own_def dest: in_set_takeD)
  then show "(n, m) \<in> set ms \<Longrightarrow> n \<in> pel_ids g \<and> m = dget live n"
    by (auto simp: ms pel_ids_def)
qed

lemma xack_simps [simp]:
  "pel_ids (xack n g) = pel_ids g - {n}" "delivered_to (xack n g) = delivered_to g"
  by (auto simp: xack_def pel_ids_def)

lemma xack_ok: "group_ok g \<Longrightarrow> group_ok (xack n g)"
  by (auto simp: group_ok_def xack_def sorted_wrt_map sorted_wrt_filter)

lemma xclaim_ok:
  assumes "xclaim now c n live g = (g', ms)"
  shows "group_ok g \<Longrightarrow> group_ok g'" "delivered_to g' = delivered_to g"
    "pel_ids g' = (if n \<in> pel_ids g \<and> dget live n = None then pel_ids g - {n} else pel_ids g)"
    "set ms \<subseteq> {(n, m) | m. n \<in> pel_ids g \<and> dget live n = Some m}"
  using assms
  by (auto simp: xclaim_def group_ok_map pel_ids_map xack_ok split: if_splits option.splits)

lemma xclaim_all_ok:
  assumes "xclaim_all now c ns live g = (g', ms)"
  shows "(group_ok g \<longrightarrow> group_ok g') \<and> delivered_to g' = delivered_to g
    \<and> pel_ids g' = {n \<in> pel_ids g. n \<in> set ns \<longrightarrow> dget live n \<noteq> None}
    \<and> (\<forall>(n, m) \<in> set ms. n \<in> pel_ids g \<and> dget live n = Some m)"
  using assms
proof (induction ns arbitrary: g g' ms)
  case Nil
  then show ?case by simp
next
  case (Cons n ns)
  obtain g1 a b where 1: "xclaim now c n live g = (g1, a)" "xclaim_all now c ns live g1 = (g', b)" "ms = a @ b"
    using Cons.prems by (auto split: prod.splits)
  from Cons.IH [OF 1(2)] xclaim_ok [OF 1(1)] show ?case
    unfolding 1(3) by (auto split: if_splits)
qed

lemma autoclaim_walk_ok:
  assumes "autoclaim_walk now c idle att room live ps g = (cur, g', ms)" and "p_id ` set ps \<subseteq> pel_ids g"
    and "distinct (map p_id ps)"
  shows "(group_ok g \<longrightarrow> group_ok g') \<and> delivered_to g' = delivered_to g
    \<and> pel_ids g - pel_ids g' \<subseteq> {n. dget live n = None} \<and> pel_ids g' \<subseteq> pel_ids g
    \<and> (\<forall>(n, m) \<in> set ms. n \<in> pel_ids g' \<and> dget live n = Some m
          \<and> (\<exists>p \<in> set ps. p_id p = n \<and> idle \<le> idle_ms now p))
    \<and> length ms \<le> room"
  using assms
proof (induction ps arbitrary: att room g g' ms)
  case Nil
  then show ?case by simp
next
  case (Cons p ps)
  show ?case
  proof (cases "att = 0 \<or> room = 0")
    case True
    then show ?thesis using Cons.prems by auto
  next
    case go: False
    show ?thesis
    proof (cases "dhas live (p_id p) \<and> idle_ms now p < idle")
      case True
      then show ?thesis using go Cons.prems Cons.IH [of "att - 1" room g g' ms] by fastforce
    next
      case old: False
      obtain g1 a g2 b where 1: "xclaim now c (p_id p) live g = (g1, a)"
        "autoclaim_walk now c idle (att - 1) (room - length a) live ps g1 = (cur, g', b)" "ms = a @ b"
        using go old Cons.prems(1) by (auto split: prod.splits)
      note X = xclaim_ok [OF 1(1)]
      have a: "length a \<le> 1" using 1(1) by (auto simp: xclaim_def split: if_splits option.splits)
      have dis: "distinct (map p_id ps)" and out: "p_id p \<notin> p_id ` set ps" using Cons.prems(3) by simp_all
      have "p_id ` set ps \<subseteq> pel_ids g - {p_id p}"
        using Cons.prems(2) out by (simp add: subset_Diff_insert)
      then have sub: "p_id ` set ps \<subseteq> pel_ids g1" using X(3) by auto
      note IH = Cons.IH [OF 1(2) sub dis]
      note I = IH [THEN conjunct2, THEN conjunct2, THEN conjunct1] IH [THEN conjunct2, THEN conjunct2, THEN conjunct2, THEN conjunct1]
        IH [THEN conjunct2, THEN conjunct2, THEN conjunct2, THEN conjunct2, THEN conjunct1]
        IH [THEN conjunct2, THEN conjunct2, THEN conjunct2, THEN conjunct2, THEN conjunct2]
      have g1: "pel_ids g1 \<subseteq> pel_ids g" "pel_ids g - pel_ids g1 \<subseteq> {n. dget live n = None}"
        unfolding X(3) by auto
      have b: "\<forall>(n, m) \<in> set b. n \<in> pel_ids g' \<and> dget live n = Some m
          \<and> (\<exists>q \<in> set (p # ps). p_id q = n \<and> idle \<le> idle_ms now q)"
        using I(3) by (auto split: prod.splits)
      have a': "\<forall>(n, m) \<in> set a. n \<in> pel_ids g' \<and> dget live n = Some m
          \<and> (\<exists>q \<in> set (p # ps). p_id q = n \<and> idle \<le> idle_ms now q)"
      proof clarify
        fix n m assume "(n, m) \<in> set a"
        then have n: "n = p_id p" "p_id p \<in> pel_ids g" "dget live (p_id p) = Some m"
          using 1(1) by (auto simp: xclaim_def split: if_splits option.splits)
        then have "n \<in> pel_ids g1" using X(3) by simp
        then have "n \<in> pel_ids g'" using I(1) n by auto
        moreover have "idle \<le> idle_ms now p" using old n by (simp add: dhas_def)
        ultimately show "n \<in> pel_ids g' \<and> dget live n = Some m
          \<and> (\<exists>q \<in> set (p # ps). p_id q = n \<and> idle \<le> idle_ms now q)" using n by auto
      qed
      have len: "length ms \<le> room" using I(4) a go unfolding 1(3) length_append by linarith
      have "\<forall>(n, m) \<in> set ms. n \<in> pel_ids g' \<and> dget live n = Some m
          \<and> (\<exists>q \<in> set (p # ps). p_id q = n \<and> idle \<le> idle_ms now q)"
        using a' b unfolding 1(3) set_append ball_Un by (rule conjI)
      moreover have "pel_ids g - pel_ids g' \<subseteq> {n. dget live n = None}" using g1 I(1) by auto
      moreover have "pel_ids g' \<subseteq> pel_ids g" using g1 I(2) by auto
      ultimately show ?thesis using IH [THEN conjunct1] IH [THEN conjunct2, THEN conjunct1] X(1,2) len by simp
    qed
  qed
qed

lemma xautoclaim_ok:
  assumes "xautoclaim now c idle start k live g = (cur, g', ms)" and "group_ok g"
  shows "group_ok g'" "delivered_to g' = delivered_to g" "pel_ids g' \<subseteq> pel_ids g"
    "pel_ids g - pel_ids g' \<subseteq> {n. dget live n = None}"
    "(n, m) \<in> set ms \<Longrightarrow> n \<in> pel_ids g' \<and> dget live n = Some m \<and> (\<exists>p \<in> set (pel g). p_id p = n \<and> idle \<le> idle_ms now p)"
    "length ms \<le> k"
proof -
  let ?ps = "filter (\<lambda>p. start \<le> p_id p) (pel g)"
  have "distinct (map p_id (pel g))"
    using assms(2) by (simp add: group_ok_def strict_sorted_iff)
  then have d: "distinct (map p_id ?ps)" by (rule distinct_map_filter)
  have s: "p_id ` set ?ps \<subseteq> pel_ids g" by (auto simp: pel_ids_def)
  note W = autoclaim_walk_ok [OF assms(1) [unfolded xautoclaim_def] s d]
  show "group_ok g'" "delivered_to g' = delivered_to g" "pel_ids g' \<subseteq> pel_ids g"
    "pel_ids g - pel_ids g' \<subseteq> {n. dget live n = None}" "length ms \<le> k"
    using W assms(2) by blast+
  assume "(n, m) \<in> set ms"
  then have "n \<in> pel_ids g' \<and> dget live n = Some m \<and> (\<exists>p \<in> set ?ps. p_id p = n \<and> idle \<le> idle_ms now p)"
    using W by blast
  then show "n \<in> pel_ids g' \<and> dget live n = Some m \<and> (\<exists>p \<in> set (pel g). p_id p = n \<and> idle \<le> idle_ms now p)"
    by auto
qed

end
