(* ===== verification/InstanceHashes.thy ===== *)
theory InstanceHashes
  imports Registry
begin

text \<open>
  The writing side of the engine registry (\<open>dalston/common/registry.py\<close>): the hash of an
  instance, which expires, the three index sets, which do not, and the two translations
  between a record and its hash. Registration, heartbeats and deregistration are the
  functions of the sync writer; its async twin has the same bodies. A JSON or ISO rendering
  inside a hash is represented by the value it renders. \<open>lapse\<close> is the expiry of a hash.
\<close>

section \<open>The record in full\<close>

record full_record = engine_record +
  er_word_timestamps :: bool
  er_includes_diarization :: bool
  er_endpoint :: "string option"
  er_stream_name :: "string option"
  er_gpu_used :: string
  er_gpu_total :: string
  er_registered_at :: "time option"
  er_loaded_model :: "string option"
  er_execution_profile :: string
  er_vocabulary :: "pyval option"
  er_schema_version :: "string option"
  er_hostname :: string
  er_node_id :: string
  er_deploy_env :: string
  er_aws_az :: "string option"
  er_aws_instance_type :: "string option"

section \<open>Capabilities as JSON\<close>

definition opt_value :: "('a \<Rightarrow> pyval) \<Rightarrow> 'a option \<Rightarrow> pyval" where
  "opt_value f x = (case x of None \<Rightarrow> PNone | Some v \<Rightarrow> f v)"

definition str_list :: "string list \<Rightarrow> pyval" where
  "str_list xs = PList (map PStr xs)"

definition dump_capabilities :: "engine_capabilities \<Rightarrow> pyval" where
  "dump_capabilities c = PDict
     [(''engine_id'', PStr (caps_engine_id c)), (''version'', PStr (caps_version c)),
      (''stages'', str_list (caps_stages c)),
      (''supports_word_timestamps'', PBool (supports_word_timestamps c)),
      (''supports_native_streaming'', PBool (supports_native_streaming c)),
      (''model_variants'', opt_value str_list (model_variants c)),
      (''gpu_required'', PBool (gpu_required c)), (''gpu_vram_mb'', opt_value PInt (gpu_vram_mb c)),
      (''supports_cpu'', PBool (supports_cpu c)), (''min_ram_gb'', opt_value PInt (min_ram_gb c)),
      (''rtf_gpu'', opt_value PFloat (rtf_gpu c)), (''rtf_cpu'', opt_value PFloat (rtf_cpu c)),
      (''max_concurrency'', opt_value PInt (max_concurrency c)),
      (''includes_diarization'', PBool (includes_diarization c)),
      (''supports_language_forcing'', PBool (supports_language_forcing c))]"

fun get_strs :: "pyval list \<Rightarrow> string list option" where
  "get_strs [] = Some []"
| "get_strs (PStr s # vs) = map_option (Cons s) (get_strs vs)"
| "get_strs _ = None"

fun get_str_list :: "pyval option \<Rightarrow> string list option" where
  "get_str_list (Some (PList vs)) = get_strs vs"
| "get_str_list _ = None"

fun get_opt :: "(pyval option \<Rightarrow> 'a option) \<Rightarrow> pyval option \<Rightarrow> 'a option option" where
  "get_opt f None = Some None"
| "get_opt f (Some PNone) = Some None"
| "get_opt f v = map_option Some (f v)"

fun get_str :: "pyval option \<Rightarrow> string option" where
  "get_str (Some (PStr s)) = Some s"
| "get_str _ = None"

fun get_int :: "pyval option \<Rightarrow> int option" where
  "get_int (Some (PInt i)) = Some i"
| "get_int _ = None"

fun get_rat :: "pyval option \<Rightarrow> rat option" where
  "get_rat (Some (PFloat r)) = Some r"
| "get_rat (Some (PInt i)) = Some (of_int i)"
| "get_rat _ = None"

text \<open>\<open>EngineCapabilities.model_validate_json\<close>: required fields, defaults, and a rejection as
  \<open>None\<close>; unknown keys are ignored.\<close>

definition parse_capabilities :: "pyval \<Rightarrow> engine_capabilities option" where
  "parse_capabilities v =
     (case v of
        PDict d \<Rightarrow>
          (case (get_str (dget d ''engine_id''), get_str (dget d ''version''), get_str_list (dget d ''stages'')) of
             (Some e, Some ver, Some st) \<Rightarrow>
               (case (parse_bool_or False (dget d ''supports_word_timestamps''),
                      parse_bool_or False (dget d ''supports_native_streaming''),
                      get_opt get_str_list (dget d ''model_variants''),
                      parse_bool_or False (dget d ''gpu_required''), get_opt get_int (dget d ''gpu_vram_mb''),
                      parse_bool_or True (dget d ''supports_cpu''), get_opt get_int (dget d ''min_ram_gb'')) of
                  (Some swt, Some sns, Some mv, Some gr, Some gv, Some sc, Some mr) \<Rightarrow>
                    (case (get_opt get_rat (dget d ''rtf_gpu''), get_opt get_rat (dget d ''rtf_cpu''),
                           get_opt get_int (dget d ''max_concurrency''),
                           parse_bool_or False (dget d ''includes_diarization''),
                           parse_bool_or True (dget d ''supports_language_forcing'')) of
                       (Some rg, Some rc, Some mc, Some idz, Some slf) \<Rightarrow>
                         Some \<lparr>caps_engine_id = e, caps_version = ver, caps_stages = st,
                           supports_word_timestamps = swt, supports_native_streaming = sns,
                           model_variants = mv, gpu_required = gr, gpu_vram_mb = gv, supports_cpu = sc,
                           min_ram_gb = mr, rtf_gpu = rg, rtf_cpu = rc, max_concurrency = mc,
                           includes_diarization = idz, supports_language_forcing = slf\<rparr>
                     | _ \<Rightarrow> None)
                | _ \<Rightarrow> None)
           | _ \<Rightarrow> None)
      | _ \<Rightarrow> None)"

lemma get_strs_map [simp]: "get_strs (map PStr xs) = Some xs"
  by (induction xs) auto

lemma get_opt_value [simp]:
  assumes "\<And>x. f (Some (g x)) = Some x" and "\<And>x. g x \<noteq> PNone"
  shows "get_opt f (Some (opt_value g y)) = Some y"
proof (cases y)
  case (Some x)
  then show ?thesis using assms [of x] by (cases "g x") (simp_all add: opt_value_def)
qed (simp add: opt_value_def)

lemma parse_dump_capabilities [simp]: "parse_capabilities (dump_capabilities c) = Some c"
proof -
  have l: "get_str_list (Some (str_list xs)) = Some xs" "str_list xs \<noteq> PNone" for xs
    by (simp_all add: str_list_def)
  show ?thesis
    by (cases c) (simp add: parse_capabilities_def dump_capabilities_def l)
qed

section \<open>Record and hash\<close>

definition opt_field :: "string \<Rightarrow> ('a \<Rightarrow> pyval) \<Rightarrow> 'a option \<Rightarrow> dict" where
  "opt_field k f x = (case x of None \<Rightarrow> [] | Some v \<Rightarrow> [(k, f v)])"

definition str_bool :: "bool \<Rightarrow> pyval" where
  "str_bool b = PStr (if b then ''true'' else ''false'')"

definition record_to_mapping :: "time \<Rightarrow> full_record \<Rightarrow> dict" where
  "record_to_mapping now r =
     [(''instance'', PStr (instance_id r)), (''engine_id'', PStr (engine_id r)),
      (''stage'', PStr (engine_stage r)), (''status'', PStr (engine_status r)),
      (''interfaces'', str_list (interfaces r)), (''capacity'', PInt (capacity r)),
      (''active_batch'', PInt (active_batch r)), (''active_realtime'', PInt (active_realtime r)),
      (''gpu_memory_used'', PStr (er_gpu_used r)), (''gpu_memory_total'', PStr (er_gpu_total r)),
      (''last_heartbeat'', PFloat (case last_heartbeat r of Some t \<Rightarrow> t | None \<Rightarrow> now)),
      (''registered_at'', PFloat (case er_registered_at r of Some t \<Rightarrow> t | None \<Rightarrow> now)),
      (''supports_word_timestamps'', str_bool (er_word_timestamps r)),
      (''includes_diarization'', str_bool (er_includes_diarization r)),
      (''execution_profile'', PStr (er_execution_profile r)), (''hostname'', PStr (er_hostname r)),
      (''node_id'', PStr (er_node_id r)), (''deploy_env'', PStr (er_deploy_env r))]
     @ opt_field ''aws_az'' PStr (er_aws_az r)
     @ opt_field ''aws_instance_type'' PStr (er_aws_instance_type r)
     @ opt_field ''models_loaded'' str_list (models_loaded r)
     @ opt_field ''endpoint'' PStr (er_endpoint r)
     @ opt_field ''stream_name'' PStr (er_stream_name r)
     @ opt_field ''capabilities'' dump_capabilities (capabilities r)
     @ opt_field ''loaded_model'' PStr (er_loaded_model r)
     @ opt_field ''vocabulary_support'' id (er_vocabulary r)
     @ opt_field ''schema_version'' PStr (er_schema_version r)"

fun str_or :: "string \<Rightarrow> pyval option \<Rightarrow> string" where
  "str_or s (Some (PStr t)) = t"
| "str_or s _ = s"

fun int_or :: "int \<Rightarrow> pyval option \<Rightarrow> int" where
  "int_or i (Some (PInt k)) = k"
| "int_or i _ = i"

fun parse_time :: "pyval option \<Rightarrow> time option" where
  "parse_time (Some (PFloat t)) = Some t"
| "parse_time _ = None"

definition mapping_to_record :: "string \<Rightarrow> dict \<Rightarrow> full_record option" where
  "mapping_to_record i d =
     (case nonempty (get_str (dget d ''engine_id'')) of
        None \<Rightarrow> None
      | Some e \<Rightarrow> Some
          \<lparr>instance_id = str_or i (dget d ''instance''), engine_id = e,
           engine_stage = str_or ''unknown'' (dget d ''stage''),
           engine_status = str_or ''offline'' (dget d ''status''),
           interfaces = (case get_str_list (dget d ''interfaces'') of Some xs \<Rightarrow> xs | None \<Rightarrow> [''batch'']),
           capacity = int_or 1 (dget d ''capacity''), active_batch = int_or 0 (dget d ''active_batch''),
           active_realtime = int_or 0 (dget d ''active_realtime''),
           models_loaded = get_str_list (dget d ''models_loaded''),
           last_heartbeat = parse_time (dget d ''last_heartbeat''),
           capabilities = Option.bind (dget d ''capabilities'') parse_capabilities,
           er_word_timestamps = (dget d ''supports_word_timestamps'' = Some (PStr ''true'')),
           er_includes_diarization = (dget d ''includes_diarization'' = Some (PStr ''true'')),
           er_endpoint = get_str (dget d ''endpoint''), er_stream_name = get_str (dget d ''stream_name''),
           er_gpu_used = str_or ''0GB'' (dget d ''gpu_memory_used''),
           er_gpu_total = str_or ''0GB'' (dget d ''gpu_memory_total''),
           er_registered_at = parse_time (dget d ''registered_at''),
           er_loaded_model = nonempty (get_str (dget d ''loaded_model'')),
           er_execution_profile = str_or ''container'' (dget d ''execution_profile''),
           er_vocabulary = dget d ''vocabulary_support'',
           er_schema_version = get_str (dget d ''schema_version''),
           er_hostname = str_or [] (dget d ''hostname''), er_node_id = str_or [] (dget d ''node_id''),
           er_deploy_env = str_or ''local'' (dget d ''deploy_env''),
           er_aws_az = get_str (dget d ''aws_az''),
           er_aws_instance_type = get_str (dget d ''aws_instance_type'')\<rparr>)"

section \<open>The store\<close>

record instance_store =
  hash :: "string \<Rightarrow> dict"
  all_set :: "string list"
  engine_sets :: "string \<Rightarrow> string list"
  stage_sets :: "string \<Rightarrow> string list"

definition sadd :: "string \<Rightarrow> string list \<Rightarrow> string list" where
  "sadd x s = (if x \<in> set s then s else s @ [x])"

definition srem :: "string \<Rightarrow> string list \<Rightarrow> string list" where
  "srem x s = filter (\<lambda>y. y \<noteq> x) s"

definition register :: "time \<Rightarrow> full_record \<Rightarrow> instance_store \<Rightarrow> instance_store" where
  "register now r s =
     s\<lparr>hash := (hash s)(instance_id r := dmerge (hash s (instance_id r)) (record_to_mapping now r)),
       all_set := sadd (instance_id r) (all_set s),
       engine_sets := (engine_sets s)(engine_id r := sadd (instance_id r) (engine_sets s (engine_id r))),
       stage_sets := (stage_sets s)(engine_stage r := sadd (instance_id r) (stage_sets s (engine_stage r)))\<rparr>"

record beat =
  hb_status :: "string option"
  hb_active_batch :: "int option"
  hb_active_realtime :: "int option"
  hb_loaded_model :: "string option"
  hb_models_loaded :: "string list option"
  hb_gpu_used :: "string option"
  hb_engine_id :: "string option"
  hb_stage :: "string option"
  hb_interfaces :: "string list option"
  hb_endpoint :: "string option"
  hb_capacity :: "int option"
  hb_hostname :: "string option"
  hb_node_id :: "string option"
  hb_deploy_env :: "string option"

definition beat_mapping :: "time \<Rightarrow> string \<Rightarrow> beat \<Rightarrow> dict" where
  "beat_mapping now i b =
     [(''last_heartbeat'', PFloat now), (''instance'', PStr i)]
     @ opt_field ''status'' PStr (hb_status b) @ opt_field ''active_batch'' PInt (hb_active_batch b)
     @ opt_field ''active_realtime'' PInt (hb_active_realtime b)
     @ opt_field ''loaded_model'' PStr (hb_loaded_model b)
     @ opt_field ''models_loaded'' str_list (hb_models_loaded b)
     @ opt_field ''gpu_memory_used'' PStr (hb_gpu_used b)
     @ opt_field ''engine_id'' PStr (hb_engine_id b) @ opt_field ''stage'' PStr (hb_stage b)
     @ opt_field ''interfaces'' str_list (hb_interfaces b) @ opt_field ''endpoint'' PStr (hb_endpoint b)
     @ opt_field ''capacity'' PInt (hb_capacity b) @ opt_field ''hostname'' PStr (hb_hostname b)
     @ opt_field ''node_id'' PStr (hb_node_id b) @ opt_field ''deploy_env'' PStr (hb_deploy_env b)"

definition heartbeat :: "time \<Rightarrow> string \<Rightarrow> beat \<Rightarrow> instance_store \<Rightarrow> instance_store" where
  "heartbeat now i b s = s\<lparr>hash := (hash s)(i := dmerge (hash s i) (beat_mapping now i b))\<rparr>"

definition deregister :: "string \<Rightarrow> instance_store \<Rightarrow> instance_store" where
  "deregister i s =
     (let e = nonempty (get_str (dget (hash s i) ''engine_id''));
          g = nonempty (get_str (dget (hash s i) ''stage''))
      in s\<lparr>hash := (hash s)(i := []), all_set := srem i (all_set s),
           engine_sets := (case e of None \<Rightarrow> engine_sets s
              | Some k \<Rightarrow> (engine_sets s)(k := srem i (engine_sets s k))),
           stage_sets := (case g of None \<Rightarrow> stage_sets s
              | Some k \<Rightarrow> (stage_sets s)(k := srem i (stage_sets s k)))\<rparr>)"

definition mark_instance_offline :: "string \<Rightarrow> instance_store \<Rightarrow> instance_store" where
  "mark_instance_offline i s = s\<lparr>hash := (hash s)(i := dset ''status'' (PStr ''offline'') (hash s i))\<rparr>"

definition lapse :: "string \<Rightarrow> instance_store \<Rightarrow> instance_store" where
  "lapse i s = s\<lparr>hash := (hash s)(i := [])\<rparr>"

text \<open>\<open>_cleanup_stale_engine_entries\<close> of \<open>orchestrator/reconciler.py\<close>.\<close>

definition cleanup_stale_engine_entries :: "instance_store \<Rightarrow> instance_store \<times> nat" where
  "cleanup_stale_engine_entries s =
     (let stale = filter (\<lambda>i. hash s i = []) (all_set s)
      in (s\<lparr>all_set := filter (\<lambda>i. hash s i \<noteq> []) (all_set s)\<rparr>, length stale))"

text \<open>The registry the readers see: \<open>get_by_instance\<close> over the index sets.\<close>

definition stored_record :: "instance_store \<Rightarrow> string \<Rightarrow> full_record option" where
  "stored_record s i = (if hash s i = [] then None else mapping_to_record i (hash s i))"

definition registry_of :: "instance_store \<Rightarrow> registry" where
  "registry_of s =
     \<lparr>reg_instance = (\<lambda>i. map_option engine_record.truncate (stored_record s i)),
      reg_all = all_set s, reg_by_engine = engine_sets s, reg_by_stage = stage_sets s\<rparr>"

section \<open>Liveness, as the stream recovery sees it\<close>

text \<open>\<open>is_engine_alive\<close> of \<open>common/streams.py\<close> and \<open>common/streams_sync.py\<close>.\<close>

definition is_engine_alive :: "time \<Rightarrow> string \<Rightarrow> instance_store \<Rightarrow> bool" where
  "is_engine_alive now i s =
     (let d = hash s i
      in if d = [] then False
         else if str_or ''offline'' (dget d ''status'') = ''offline'' then False
         else (case parse_time (dget d ''last_heartbeat'') of
                 None \<Rightarrow> False
               | Some t \<Rightarrow> now - t < HEARTBEAT_TIMEOUT_SECONDS))"

section \<open>What a batch runner sends\<close>

text \<open>The status and the fields of \<open>_heartbeat_loop\<close> in \<open>engine_sdk/runner.py\<close>.\<close>

definition runner_status :: "bool \<Rightarrow> bool \<Rightarrow> string \<Rightarrow> string" where
  "runner_status working realtime status =
     (if working then (if realtime then ''busy'' else ''processing'')
      else if status = ''idle'' \<and> realtime then ''ready'' else status)"

definition runner_beat :: "full_record \<Rightarrow> bool \<Rightarrow> bool \<Rightarrow> string \<Rightarrow> string option \<Rightarrow> string option \<Rightarrow> beat" where
  "runner_beat r working realtime status model gpu =
     \<lparr>hb_status = Some (runner_status working realtime status),
      hb_active_batch = Some (if working then 1 else 0), hb_active_realtime = None,
      hb_loaded_model = model, hb_models_loaded = None, hb_gpu_used = gpu,
      hb_engine_id = Some (engine_id r), hb_stage = Some (engine_stage r),
      hb_interfaces = Some (interfaces r), hb_endpoint = None, hb_capacity = None,
      hb_hostname = Some (er_hostname r), hb_node_id = Some (er_node_id r),
      hb_deploy_env = Some (er_deploy_env r)\<rparr>"

end
