(* ===== verification/Cluster.thy ===== *)
theory Cluster
  imports ConsumerGroups InstanceHashes Handlers
begin

text \<open>
  The state the engines, the scanner and the sweeper share, and the queue functions of
  \<open>dalston/common/streams.py\<close> and \<open>dalston/common/streams_sync.py\<close> over it: the orchestrator's
  world, whose log of messages the streams read, the consumer group of every stream, the
  deleted messages, the registry's hashes, the durable stream of task events, and the tasks
  whose \<open>response.json\<close> is stored. The async
  and the sync functions have the same bodies; each is defined once.
\<close>

datatype task_event =
    TaskStarted uuid
  | TaskCompleted uuid
  | TaskFailed uuid string
  | TaskWaitTimeout uuid string

record cluster =
  cl_world :: world
  cl_groups :: "string \<Rightarrow> group"
  cl_gone :: "nat set"
  cl_store :: instance_store
  cl_log :: "task_event list"
  cl_outputs :: "uuid set"

section \<open>Streams\<close>

text \<open>The live messages of a queue, by position in the log.\<close>

definition queue_live :: "string \<Rightarrow> cluster \<Rightarrow> (nat \<times> stream_entry) list" where
  "queue_live q c = filter (\<lambda>(n, m). msg_queue m = q \<and> n \<notin> cl_gone c)
     (enumerate 0 (stream (queues_of (cl_world c))))"

definition set_group :: "string \<Rightarrow> group \<Rightarrow> cluster \<Rightarrow> cluster" where
  "set_group q g c = c\<lparr>cl_groups := (cl_groups c)(q := g)\<rparr>"

definition map_queues :: "(queues \<Rightarrow> queues) \<Rightarrow> cluster \<Rightarrow> cluster" where
  "map_queues f c = c\<lparr>cl_world := (cl_world c)\<lparr>queues_of := f (queues_of (cl_world c))\<rparr>\<rparr>"

text \<open>A message as an engine receives it: its id, its fields and how often it was delivered.\<close>

type_synonym message = "nat \<times> stream_entry \<times> nat"

definition read_task :: "time \<Rightarrow> string \<Rightarrow> string \<Rightarrow> cluster \<Rightarrow> cluster \<times> message option" where
  "read_task now q consumer c =
     (let (g, ms) = xread_new now consumer 1 (queue_live q c) (cl_groups c q)
      in (set_group q g c, (case ms of [] \<Rightarrow> None | (n, m) # _ \<Rightarrow> Some (n, m, 1))))"

definition read_own_pending :: "time \<Rightarrow> string \<Rightarrow> string \<Rightarrow> cluster \<Rightarrow> cluster \<times> message option" where
  "read_own_pending now q consumer c =
     (let (g, ms) = xread_own now consumer 1 (queue_live q c) (cl_groups c q)
      in (set_group q g c,
          (case List.find (\<lambda>(n, f). f \<noteq> None) ms of Some (n, Some m) \<Rightarrow> Some (n, m, 2) | _ \<Rightarrow> None)))"

definition ack_task :: "string \<Rightarrow> nat \<Rightarrow> cluster \<Rightarrow> cluster" where
  "ack_task q n c = set_group q (xack n (cl_groups c q)) c"

record pending_task =
  pt_message :: nat
  pt_task :: "uuid option"
  pt_consumer :: string
  pt_idle_ms :: int
  pt_count :: nat

text \<open>\<open>get_pending\<close>: at most a thousand entries; the task of a deleted message is unknown.\<close>

definition get_pending :: "time \<Rightarrow> string \<Rightarrow> cluster \<Rightarrow> pending_task list" where
  "get_pending now q c =
     map (\<lambda>p. \<lparr>pt_message = p_id p, pt_task = map_option msg_task (dget (queue_live q c) (p_id p)),
               pt_consumer = p_consumer p, pt_idle_ms = idle_ms now p, pt_count = p_count p\<rparr>)
       (take 1000 (pel (cl_groups c q)))"

text \<open>\<open>_get_pending_entry\<close>, as the delivery count its callers read.\<close>

definition delivery_count :: "nat \<Rightarrow> group \<Rightarrow> nat" where
  "delivery_count n g = (case List.find (\<lambda>p. p_id p = n) (pel g) of Some p \<Rightarrow> p_count p | None \<Rightarrow> 1)"

definition claim_tasks_by_id :: "time \<Rightarrow> string \<Rightarrow> string \<Rightarrow> nat list \<Rightarrow> cluster \<Rightarrow> cluster \<times> message list" where
  "claim_tasks_by_id now q consumer ns c =
     (if ns = [] then (c, [])
      else (let (g, ms) = xclaim_all now consumer ns (queue_live q c) (cl_groups c q)
            in (set_group q g c, map (\<lambda>(n, m). (n, m, delivery_count n g)) ms)))"

text \<open>\<open>claim_stale_tasks\<close> claims whatever is idle, whoever owns it.\<close>

definition claim_stale_tasks :: "time \<Rightarrow> string \<Rightarrow> string \<Rightarrow> int \<Rightarrow> nat \<Rightarrow> cluster \<Rightarrow> cluster \<times> message list" where
  "claim_stale_tasks now q consumer min_idle limit c =
     (let (_, g, ms) = xautoclaim now consumer min_idle 0 limit (queue_live q c) (cl_groups c q)
      in (set_group q g c, map (\<lambda>(n, m). (n, m, delivery_count n g)) ms))"

definition STALE_THRESHOLD_MS :: int where "STALE_THRESHOLD_MS = 10 * 60 * 1000"

text \<open>\<open>claim_stale_from_dead_engines\<close>, for the \<open>count\<close> of 1 or more its callers pass.\<close>

definition claim_stale_from_dead_engines ::
  "time \<Rightarrow> string \<Rightarrow> string \<Rightarrow> int \<Rightarrow> nat \<Rightarrow> cluster \<Rightarrow> cluster \<times> message list" where
  "claim_stale_from_dead_engines now q consumer min_idle limit c =
     (let claimable = take limit (map pt_message (filter (\<lambda>p. \<not> pt_idle_ms p < min_idle
                        \<and> \<not> is_engine_alive now (pt_consumer p) (cl_store c)) (get_pending now q c)))
      in claim_tasks_by_id now q consumer claimable c)"

definition is_job_cancelled :: "uuid \<Rightarrow> cluster \<Rightarrow> bool" where
  "is_job_cancelled j c \<longleftrightarrow> j \<in> cancel_flags (cl_world c)"

definition publish :: "task_event \<Rightarrow> cluster \<Rightarrow> cluster" where
  "publish e c = c\<lparr>cl_log := cl_log c @ [e]\<rparr>"

section \<open>Waiting markers\<close>

definition waiting_fields :: "string list" where
  "waiting_fields = [''waiting_for_engine'', ''wait_deadline_at'', ''wait_timeout_s'', ''wait_enqueued_at'']"

definition hdel :: "uuid \<Rightarrow> string list \<Rightarrow> queues \<Rightarrow> queues" where
  "hdel i ks q = q\<lparr>task_metadata := (task_metadata q)(i := filter (\<lambda>(k, _). k \<notin> set ks) (task_metadata q i))\<rparr>"

text \<open>The same two commands in the runner and in the scanner.\<close>

definition clear_waiting_marker :: "uuid \<Rightarrow> cluster \<Rightarrow> cluster" where
  "clear_waiting_marker i =
     map_queues (\<lambda>q. (hdel i waiting_fields q)\<lparr>waiting_tasks := waiting_tasks q - {i}\<rparr>)"

definition metadata_of :: "uuid \<Rightarrow> cluster \<Rightarrow> dict" where
  "metadata_of i c = task_metadata (queues_of (cl_world c)) i"

section \<open>What the queue functions keep\<close>

lemma set_group_simps [simp]:
  "cl_world (set_group q g c) = cl_world c" "cl_gone (set_group q g c) = cl_gone c" "cl_outputs (set_group q g c) = cl_outputs c"
  "cl_store (set_group q g c) = cl_store c" "cl_log (set_group q g c) = cl_log c"
  "cl_groups (set_group q g c) q' = (if q' = q then g else cl_groups c q')"
  by (simp_all add: set_group_def)

lemma map_queues_simps [simp]:
  "cl_groups (map_queues f c) = cl_groups c" "cl_gone (map_queues f c) = cl_gone c" "cl_outputs (map_queues f c) = cl_outputs c"
  "cl_store (map_queues f c) = cl_store c" "cl_log (map_queues f c) = cl_log c"
  "cl_world (map_queues f c) = (cl_world c)\<lparr>queues_of := f (queues_of (cl_world c))\<rparr>"
  by (simp_all add: map_queues_def)

lemma publish_simps [simp]:
  "cl_world (publish e c) = cl_world c" "cl_groups (publish e c) = cl_groups c"
  "cl_gone (publish e c) = cl_gone c" "cl_outputs (publish e c) = cl_outputs c" "cl_store (publish e c) = cl_store c"
  "cl_log (publish e c) = cl_log c @ [e]"
  by (simp_all add: publish_def)

lemma queue_live_in_order [simp]: "in_order (queue_live q c)"
proof -
  have "sorted_wrt (<) (map fst (enumerate 0 (stream (queues_of (cl_world c)))))"
    by (simp add: strict_sorted_iff)
  then show ?thesis unfolding in_order_def queue_live_def sorted_wrt_map by (rule sorted_wrt_filter)
qed

lemma in_queue_live:
  "(n, m) \<in> set (queue_live q c) \<longleftrightarrow> n < length (stream (queues_of (cl_world c)))
     \<and> stream (queues_of (cl_world c)) ! n = m \<and> msg_queue m = q \<and> n \<notin> cl_gone c"
  by (auto simp: queue_live_def in_set_enumerate_eq)

lemma distinct_live: "distinct (map fst (queue_live q c))"
  using queue_live_in_order [of q c] by (simp add: in_order_def strict_sorted_iff)

lemma dget_queue_live: "dget (queue_live q c) n = Some m \<longleftrightarrow> (n, m) \<in> set (queue_live q c)"
  by (simp add: dget_def map_of_eq_Some_iff [OF distinct_live])

end
