(* ===== verification/Runner.thy ===== *)
theory Runner
  imports Cluster
begin

text \<open>
  The engine runner's loop (\<open>dalston/engine_sdk/runner.py\<close>): taking a message, the checks before
  processing, and processing as a machine whose states lie between the steps that other
  processes can observe, so that a crash is a run that stops in one of them. What the engine
  computes, whether its request loads and whether an event write succeeds are parameters.
\<close>

datatype run_result = Succeeded | RunFailed string | Deferred

record runner_env =
  rn_now :: time
  rn_instance :: string
  rn_queue :: string
  rn_load :: "uuid \<Rightarrow> string option"
  rn_process :: "uuid \<Rightarrow> run_result"
  rn_save :: "uuid \<Rightarrow> string option"
  rn_write :: "nat \<Rightarrow> bool"

text \<open>Where an engine is: nothing at hand, a message read, its task started, its output stored,
  its outcome reported.\<close>

datatype phase =
    Idle
  | Holding nat stream_entry
  | Working nat stream_entry
  | Produced nat stream_entry
  | Settled nat

section \<open>Durable events\<close>

definition DURABLE_EVENT_MAX_RETRIES :: nat where "DURABLE_EVENT_MAX_RETRIES = 5"

definition DURABLE_EVENT_BASE_BACKOFF_SECONDS :: rat where "DURABLE_EVENT_BASE_BACKOFF_SECONDS = 1 / 10"

text \<open>The attempts still to make, from the number of the next: whether one succeeded, and the
  waits in between.\<close>

fun durable_attempts :: "(nat \<Rightarrow> bool) \<Rightarrow> nat \<Rightarrow> nat \<Rightarrow> bool \<times> rat list" where
  "durable_attempts ok attempt 0 = (False, [])"
| "durable_attempts ok attempt (Suc n) =
     (if ok attempt then (True, [])
      else if n = 0 then (False, [])
      else (let (b, waits) = durable_attempts ok (attempt + 1) n
            in (b, DURABLE_EVENT_BASE_BACKOFF_SECONDS * 2 ^ attempt # waits)))"

definition publish_durable_event :: "runner_env \<Rightarrow> task_event \<Rightarrow> cluster \<Rightarrow> cluster" where
  "publish_durable_event env e c =
     (if fst (durable_attempts (rn_write env) 0 DURABLE_EVENT_MAX_RETRIES) then publish e c else c)"

section \<open>Time limits\<close>

definition DEFAULT_TASK_TIMEOUT :: rat where
  "DEFAULT_TASK_TIMEOUT = of_int TASK_UNKNOWN_DURATION_TIMEOUT_S"

definition get_task_timeout :: "time \<Rightarrow> dict \<Rightarrow> rat" where
  "get_task_timeout now meta =
     (case parse_time (dget meta ''timeout_at'') of
        Some t \<Rightarrow> max (t - now) 10
      | None \<Rightarrow> DEFAULT_TASK_TIMEOUT)"

section \<open>Polling\<close>

text \<open>A stale message of a dead engine, else an own deferred one, else a new one.\<close>

definition poll :: "runner_env \<Rightarrow> cluster \<Rightarrow> cluster \<times> phase" where
  "poll env c =
     (let now = rn_now env; q = rn_queue env; i = rn_instance env;
          (c1, stale) = claim_stale_from_dead_engines now q i STALE_THRESHOLD_MS 1 c
      in case stale of
           (n, m, _) # _ \<Rightarrow> (c1, Holding n m)
         | [] \<Rightarrow>
             (case read_own_pending now q i c1 of
                (c2, Some (n, m, _)) \<Rightarrow> (c2, Holding n m)
              | (c2, None) \<Rightarrow>
                  (case read_task now q i c2 of
                     (c3, Some (n, m, _)) \<Rightarrow> (c3, Holding n m)
                   | (c3, None) \<Rightarrow> (c3, Idle))))"

text \<open>
  What happens to the message at hand until the task is started: a cancelled job's message and a
  blocked one are acknowledged unprocessed, a task without metadata is reported failed, and so
  is one whose request does not load.
\<close>

definition begin_task :: "runner_env \<Rightarrow> nat \<Rightarrow> stream_entry \<Rightarrow> cluster \<Rightarrow> cluster \<times> phase" where
  "begin_task env n m c =
     (let i = msg_task m
      in if is_job_cancelled (msg_job m) c
         then (ack_task (rn_queue env) n (clear_waiting_marker i c), Idle)
         else if metadata_of i c = []
         then (publish_durable_event env (TaskFailed i ''Task metadata not found in Redis'') c, Settled n)
         else if truthy_opt (dget (metadata_of i c) ''blocked_reason'')
         then (ack_task (rn_queue env) n c, Idle)
         else (let c1 = clear_waiting_marker i c
               in case rn_load env i of
                    Some err \<Rightarrow> (publish_durable_event env (TaskFailed i err) c1, Settled n)
                  | None \<Rightarrow> (publish_durable_event env (TaskStarted i) c1, Working n m)))"

text \<open>The engine's own work; a deferral leaves the message pending.\<close>

definition work :: "runner_env \<Rightarrow> nat \<Rightarrow> stream_entry \<Rightarrow> cluster \<Rightarrow> cluster \<times> phase" where
  "work env n m c =
     (case rn_process env (msg_task m) of
        Deferred \<Rightarrow> (c, Idle)
      | RunFailed err \<Rightarrow> (publish_durable_event env (TaskFailed (msg_task m) err) c, Settled n)
      | Succeeded \<Rightarrow>
          (case rn_save env (msg_task m) of
             Some err \<Rightarrow> (publish_durable_event env (TaskFailed (msg_task m) err) c, Settled n)
           | None \<Rightarrow> (c\<lparr>cl_outputs := insert (msg_task m) (cl_outputs c)\<rparr>, Produced n m)))"

definition report :: "runner_env \<Rightarrow> nat \<Rightarrow> stream_entry \<Rightarrow> cluster \<Rightarrow> cluster \<times> phase" where
  "report env n m c = (publish_durable_event env (TaskCompleted (msg_task m)) c, Settled n)"

definition settle :: "runner_env \<Rightarrow> nat \<Rightarrow> cluster \<Rightarrow> cluster \<times> phase" where
  "settle env n c = (ack_task (rn_queue env) n c, Idle)"

text \<open>One step of the machine.\<close>

fun run_step :: "runner_env \<Rightarrow> cluster \<times> phase \<Rightarrow> cluster \<times> phase" where
  "run_step env (c, Idle) = poll env c"
| "run_step env (c, Holding n m) = begin_task env n m c"
| "run_step env (c, Working n m) = work env n m c"
| "run_step env (c, Produced n m) = report env n m c"
| "run_step env (c, Settled n) = settle env n c"

end
