(* ===== verification/Recovery.thy ===== *)
theory Recovery
  imports Cluster
begin

text \<open>
  The two background repairs of the orchestrator: the stale-task scanner
  (\<open>dalston/orchestrator/scanner.py\<close>) and the reconciliation sweeper
  (\<open>dalston/orchestrator/reconciler.py\<close>). A function that commits to the database and then
  publishes, or the other way round, is the composition of its two halves, so that what happens
  in between can be stated. The order of \<open>SCAN\<close>, of set members and of selected rows is an
  argument; the leader lock, the counts of what was repaired and the log are omitted.
\<close>

section \<open>The scanner\<close>

definition fail_text :: "bool \<Rightarrow> string \<Rightarrow> string" where
  "fail_text dead consumer =
     (if dead then ''Engine '' @ [CHR 0x27] @ consumer @ [CHR 0x27] @ '' stopped heartbeating while processing task''
      else ''Task exceeded configured timeout'')"

text \<open>\<open>_check_task_timeout\<close>: a deleted message never times out.\<close>

definition check_task_timeout :: "time \<Rightarrow> string \<Rightarrow> nat \<Rightarrow> cluster \<Rightarrow> bool" where
  "check_task_timeout now q n c =
     (case dget (queue_live q c) n of None \<Rightarrow> False | Some m \<Rightarrow> now > msg_timeout_at m)"

text \<open>\<open>_fail_task\<close>: the committed half, which refuses a task that is not running, and the event.\<close>

definition scanner_commit :: "time \<Rightarrow> uuid \<Rightarrow> string \<Rightarrow> cluster \<Rightarrow> cluster option" where
  "scanner_commit now i err c =
     (case get_task (cl_world c) i of
        None \<Rightarrow> None
      | Some t \<Rightarrow>
          if task_state t \<noteq> TRunning then None
          else Some (c\<lparr>cl_world := upd_task i (\<lambda>r. r\<lparr>task_state := TFailed, task_error := Some err,
                  task_completed_at := Some now\<rparr>) (cl_world c)\<rparr>))"

definition scanner_fail_task :: "time \<Rightarrow> uuid \<Rightarrow> string \<Rightarrow> cluster \<Rightarrow> cluster" where
  "scanner_fail_task now i err c =
     (case scanner_commit now i err c of None \<Rightarrow> c | Some c1 \<Rightarrow> publish (TaskFailed i err) c1)"

text \<open>One pending entry of \<open>_scan_stream\<close>, and the stream: the list of entries is read once.\<close>

definition scan_entry :: "time \<Rightarrow> string \<Rightarrow> pending_task \<Rightarrow> cluster \<Rightarrow> cluster" where
  "scan_entry now q p c =
     (if pt_idle_ms p < STALE_THRESHOLD_MS then c
      else if \<not> is_engine_alive now (pt_consumer p) (cl_store c)
      then (case pt_task p of None \<Rightarrow> c | Some i \<Rightarrow> scanner_fail_task now i (fail_text True (pt_consumer p)) c)
      else if check_task_timeout now q (pt_message p) c
      then (case pt_task p of None \<Rightarrow> c | Some i \<Rightarrow> scanner_fail_task now i (fail_text False []) c)
      else c)"

definition scan_stream :: "time \<Rightarrow> string \<Rightarrow> cluster \<Rightarrow> cluster" where
  "scan_stream now q c = fold (scan_entry now q) (get_pending now q c) c"

definition xdel :: "nat \<Rightarrow> cluster \<Rightarrow> cluster" where
  "xdel n c = c\<lparr>cl_gone := insert n (cl_gone c)\<rparr>"

definition message_of :: "dict \<Rightarrow> nat option" where
  "message_of meta = (case dget meta ''stream_message_id'' of Some (PInt n) \<Rightarrow> Some (nat n) | _ \<Rightarrow> None)"

text \<open>A string field that counts only when it is not empty.\<close>

definition field :: "dict \<Rightarrow> string \<Rightarrow> string option" where
  "field d k = nonempty (get_str (dget d k))"

definition wait_text :: "string \<Rightarrow> int \<Rightarrow> string" where
  "wait_text e s = ''Runtime '' @ [CHR 0x27] @ e @ [CHR 0x27] @ '' did not become available within ''
     @ str_int s @ '' seconds''"

text \<open>
  One member of the waiting set in \<open>_scan_waiting_engine_timeouts\<close>: stale markers are dropped;
  past the deadline the task is blocked first, then reported, then its message is deleted.
\<close>

definition scan_waiting :: "time \<Rightarrow> int \<Rightarrow> uuid \<Rightarrow> cluster \<Rightarrow> cluster" where
  "scan_waiting now default_wait i c =
     (let meta = metadata_of i c;
          forget = map_queues (\<lambda>q. q\<lparr>waiting_tasks := waiting_tasks q - {i}\<rparr>)
      in if meta = [] then forget c
         else if dget meta ''waiting_for_engine'' \<noteq> Some (PStr ''true'') then forget c
         else (case parse_time (dget meta ''wait_deadline_at'') of
                 None \<Rightarrow> clear_waiting_marker i c
               | Some deadline \<Rightarrow>
                   if now \<le> deadline then c
                   else (case get_task (cl_world c) i of
                           None \<Rightarrow> clear_waiting_marker i c
                         | Some t \<Rightarrow>
                             if task_state t \<noteq> TReady \<and> task_state t \<noteq> TPending then clear_waiting_marker i c
                             else
                               (let queue = (case field meta ''queue_id'' of Some q \<Rightarrow> Some q | None \<Rightarrow> field meta ''engine_id'');
                                    taken = (case (queue, message_of meta) of
                                               (Some q, Some n) \<Rightarrow> n \<in> pel_ids (cl_groups c q) | _ \<Rightarrow> False)
                                in if taken then clear_waiting_marker i c
                                   else
                                     (let wait_s = int_or default_wait (dget meta ''wait_timeout_s'');
                                          eng = (case field meta ''engine_id'' of Some e \<Rightarrow> e | None \<Rightarrow> task_engine_id t);
                                          c1 = map_queues (hset i [(''blocked_reason'', PStr ''engine_wait_timeout''),
                                                 (''blocked_at'', PFloat now)]) c;
                                          c2 = publish (TaskWaitTimeout i (wait_text eng wait_s)) c1;
                                          c3 = (case (queue, message_of meta) of (Some _, Some n) \<Rightarrow> xdel n c2 | _ \<Rightarrow> c2)
                                      in clear_waiting_marker i c3)))))"

definition scan :: "time \<Rightarrow> int \<Rightarrow> string list \<Rightarrow> uuid list \<Rightarrow> cluster \<Rightarrow> cluster" where
  "scan now default_wait streams waiting c =
     fold (scan_waiting now default_wait) waiting (fold (scan_stream now) streams c)"

section \<open>The sweeper\<close>

definition ORPHAN_THRESHOLD_SECONDS :: rat where "ORPHAN_THRESHOLD_SECONDS = 600"
definition READY_TASK_RECOVERY_THRESHOLD_SECONDS :: rat where "READY_TASK_RECOVERY_THRESHOLD_SECONDS = 120"
definition STUCK_RUNNING_JOB_THRESHOLD_SECONDS :: rat where "STUCK_RUNNING_JOB_THRESHOLD_SECONDS = 60"
definition REENQUEUE_TIMEOUT_S :: int where "REENQUEUE_TIMEOUT_S = TASK_UNKNOWN_DURATION_TIMEOUT_S"

text \<open>The tasks of all pending entries of the given streams.\<close>

definition pel_tasks :: "time \<Rightarrow> string list \<Rightarrow> cluster \<Rightarrow> uuid set" where
  "pel_tasks now qs c = {i. \<exists>q \<in> set qs. \<exists>p \<in> set (get_pending now q c). pt_task p = Some i}"

text \<open>Running rows that started long ago and are in no pending list; a row without a start time is
  not selected.\<close>

definition orphaned_tasks :: "time \<Rightarrow> uuid set \<Rightarrow> cluster \<Rightarrow> task list" where
  "orphaned_tasks now known c = filter (\<lambda>t. task_state t = TRunning
     \<and> (case task_started_at t of None \<Rightarrow> False | Some s \<Rightarrow> s < now - ORPHAN_THRESHOLD_SECONDS)
     \<and> task_id t \<notin> known) (tasks (cl_world c))"

datatype verdict = Finished | Lost

text \<open>\<open>_check_output_exists_in_s3\<close>: \<open>None\<close> on a transient error, which is the parameter.\<close>

definition check_output :: "(uuid \<Rightarrow> bool) \<Rightarrow> cluster \<Rightarrow> uuid \<Rightarrow> bool option" where
  "check_output unreachable c i = (if unreachable i then None else Some (i \<in> cl_outputs c))"

definition orphan_verdicts :: "time \<Rightarrow> (uuid \<Rightarrow> bool) \<Rightarrow> uuid set \<Rightarrow> cluster \<Rightarrow> (uuid \<times> verdict) list" where
  "orphan_verdicts now unreachable known c =
     List.map_filter (\<lambda>t. map_option (\<lambda>found. (task_id t, if found then Finished else Lost))
         (check_output unreachable c (task_id t)))
       (orphaned_tasks now known c)"

definition orphan_text :: string where
  "orphan_text = ''Task orphaned: not found in Redis PEL during reconciliation''"

fun orphan_event :: "uuid \<times> verdict \<Rightarrow> task_event" where
  "orphan_event (i, Finished) = TaskCompleted i"
| "orphan_event (i, Lost) = TaskFailed i orphan_text"

text \<open>The loop publishes as it goes; the rows it changed are written at the end, in one commit,
  by primary key and whatever they hold by then.\<close>

definition orphans_publish :: "(uuid \<times> verdict) list \<Rightarrow> cluster \<Rightarrow> cluster" where
  "orphans_publish vs c = fold (\<lambda>v. publish (orphan_event v)) vs c"

fun orphan_write :: "time \<Rightarrow> uuid \<times> verdict \<Rightarrow> world \<Rightarrow> world" where
  "orphan_write now (i, Finished) w =
     upd_task i (\<lambda>r. r\<lparr>task_state := TCompleted, task_completed_at := Some now\<rparr>) w"
| "orphan_write now (i, Lost) w =
     upd_task i (\<lambda>r. r\<lparr>task_state := TFailed, task_error := Some orphan_text, task_completed_at := Some now\<rparr>) w"

definition orphans_commit :: "time \<Rightarrow> (uuid \<times> verdict) list \<Rightarrow> cluster \<Rightarrow> cluster" where
  "orphans_commit now vs c = c\<lparr>cl_world := fold (orphan_write now) vs (cl_world c)\<rparr>"

definition reconcile_orphaned_db_tasks :: "time \<Rightarrow> (uuid \<Rightarrow> bool) \<Rightarrow> uuid set \<Rightarrow> cluster \<Rightarrow> cluster" where
  "reconcile_orphaned_db_tasks now unreachable known c =
     (let vs = orphan_verdicts now unreachable known c in orphans_commit now vs (orphans_publish vs c))"

text \<open>Acknowledging the first pending entry of a task that is finished in the database.\<close>

definition finished_states :: "task_status set" where
  "finished_states = {TCompleted, TFailed, TSkipped, TCancelled}"

definition ack_if_finished :: "time \<Rightarrow> string \<Rightarrow> uuid \<Rightarrow> cluster \<Rightarrow> cluster" where
  "ack_if_finished now q i c =
     (case get_task (cl_world c) i of
        None \<Rightarrow> c
      | Some t \<Rightarrow>
          if task_state t \<notin> finished_states then c
          else (case List.find (\<lambda>p. pt_task p = Some i) (get_pending now q c) of
                  None \<Rightarrow> c
                | Some p \<Rightarrow> ack_task q (pt_message p) c))"

definition reconcile_orphaned_pel_entries :: "time \<Rightarrow> (string \<times> uuid list) list \<Rightarrow> cluster \<Rightarrow> cluster" where
  "reconcile_orphaned_pel_entries now by_stage c =
     fold (\<lambda>(q, ids). fold (ack_if_finished now q) ids) by_stage c"

text \<open>A stale entry of a dead engine whose task never started: a new message first, then the
  acknowledgement of the old one.\<close>

definition requeue_task :: "time \<Rightarrow> string \<Rightarrow> task \<Rightarrow> cluster \<Rightarrow> cluster" where
  "requeue_task now q t =
     map_queues (\<lambda>qs. fst (add_task now q (task_id t) (task_job_id t) REENQUEUE_TIMEOUT_S qs))"

definition recover_stale_ready :: "time \<Rightarrow> string \<Rightarrow> pending_task \<Rightarrow> cluster \<Rightarrow> cluster" where
  "recover_stale_ready now q p c =
     (if pt_idle_ms p < \<lfloor>ORPHAN_THRESHOLD_SECONDS * 1000\<rfloor> then c
      else (case Option.bind (pt_task p) (get_task (cl_world c)) of
              None \<Rightarrow> c
            | Some t \<Rightarrow>
                if task_state t \<noteq> TReady \<and> task_state t \<noteq> TPending then c
                else if is_engine_alive now (pt_consumer p) (cl_store c) then c
                else ack_task q (pt_message p) (requeue_task now q t c)))"

definition reconcile_stale_ready_tasks :: "time \<Rightarrow> (string \<times> pending_task list) list \<Rightarrow> cluster \<Rightarrow> cluster" where
  "reconcile_stale_ready_tasks now by_stage c =
     fold (\<lambda>(q, ps). fold (recover_stale_ready now q) ps) by_stage c"

text \<open>A ready task whose message was delivered and is no longer pending: the stream it was on, the
  consumed message, and the new one.\<close>

definition recovery_queue :: "dict \<Rightarrow> task \<Rightarrow> string" where
  "recovery_queue meta t =
     (case field meta ''queue_id'' of Some q \<Rightarrow> q
      | None \<Rightarrow> (case field meta ''stage'' of Some q \<Rightarrow> q
      | None \<Rightarrow> (case field meta ''engine_id'' of Some q \<Rightarrow> q | None \<Rightarrow> task_engine_id t)))"

definition consumed_message :: "time \<Rightarrow> task \<Rightarrow> cluster \<Rightarrow> nat option" where
  "consumed_message now t c =
     (let meta = metadata_of (task_id t) c; q = recovery_queue meta t
      in case message_of meta of
           None \<Rightarrow> None
         | Some n \<Rightarrow>
             if (case parse_time (dget meta ''enqueued_at'') of
                   Some e \<Rightarrow> e > now - READY_TASK_RECOVERY_THRESHOLD_SECONDS | None \<Rightarrow> False) then None
             else if q = [] then None
             else if n \<in> pel_ids (cl_groups c q) then None
             else if \<not> n < delivered_to (cl_groups c q) then None
             else Some n)"

definition requeue_fields :: "time \<Rightarrow> string \<Rightarrow> nat \<Rightarrow> nat \<Rightarrow> dict" where
  "requeue_fields now q new old =
     [(''queue_id'', PStr q), (''stream_message_id'', PInt (int new)),
      (''reconciler_requeued_at'', PFloat now), (''reconciler_previous_message_id'', PInt (int old))]"

definition recover_consumed :: "time \<Rightarrow> task \<Rightarrow> cluster \<Rightarrow> cluster" where
  "recover_consumed now t c =
     (case consumed_message now t c of
        None \<Rightarrow> c
      | Some n \<Rightarrow>
          (let q = recovery_queue (metadata_of (task_id t) c) t
           in map_queues (hset (task_id t) (requeue_fields now q (length (stream (queues_of (cl_world c)))) n))
                (requeue_task now q t c)))"

definition reconcile_ready_tasks_with_consumed_messages :: "time \<Rightarrow> cluster \<Rightarrow> cluster" where
  "reconcile_ready_tasks_with_consumed_messages now c =
     fold (recover_consumed now) (filter (\<lambda>t. task_state t = TReady) (tasks (cl_world c))) c"

text \<open>Jobs that are still running although their pipeline has ended for a while: only when every
  pipeline task carries a completion time.\<close>

definition stuck_job :: "time \<Rightarrow> uuid \<Rightarrow> world \<Rightarrow> bool" where
  "stuck_job now j w =
     (let threshold = now - STUCK_RUNNING_JOB_THRESHOLD_SECONDS;
          ps = filter (\<lambda>t. \<not> is_post_processing_task t) (job_tasks w j)
      in (case jobs w j of
            None \<Rightarrow> False
          | Some r \<Rightarrow> job_state r = JRunning
              \<and> (case job_started_at r of None \<Rightarrow> False | Some s \<Rightarrow> s < threshold))
         \<and> ps \<noteq> [] \<and> (\<forall>t \<in> set ps. task_state t \<in> terminal_task_states)
         \<and> (\<forall>t \<in> set ps. task_completed_at t \<noteq> None)
         \<and> \<not> Max (set (map (\<lambda>t. the (task_completed_at t)) ps)) > threshold)"

definition recover_stuck_job :: "oenv \<Rightarrow> uuid \<Rightarrow> cluster \<Rightarrow> cluster" where
  "recover_stuck_job env j c =
     (if stuck_job (oe_now env) j (cl_world c)
      then c\<lparr>cl_world := check_job_completion env j (cl_world c)\<rparr> else c)"

definition reconcile_stuck_running_jobs :: "(uuid \<Rightarrow> oenv) \<Rightarrow> uuid list \<Rightarrow> cluster \<Rightarrow> cluster" where
  "reconcile_stuck_running_jobs envs js c = fold (\<lambda>j. recover_stuck_job (envs j) j) js c"

text \<open>
  A pass: the pending lists are read once, at the start, and kept per stream as the set of the
  tasks in them and as a dictionary from a task to its last entry.
\<close>

definition entries_by_task :: "pending_task list \<Rightarrow> (uuid \<times> pending_task) list" where
  "entries_by_task ps = fold (\<lambda>p d. case pt_task p of None \<Rightarrow> d | Some i \<Rightarrow> dset i p d) ps []"

definition pel_snapshot :: "time \<Rightarrow> string list \<Rightarrow> cluster \<Rightarrow> (string \<times> (uuid \<times> pending_task) list) list" where
  "pel_snapshot now qs c = map (\<lambda>q. (q, entries_by_task (get_pending now q c))) qs"

definition reconcile :: "time \<Rightarrow> (uuid \<Rightarrow> oenv) \<Rightarrow> (uuid \<Rightarrow> bool) \<Rightarrow> string list \<Rightarrow> uuid list \<Rightarrow> cluster \<Rightarrow> cluster" where
  "reconcile now envs unreachable qs js c =
     (let snap = pel_snapshot now qs c;
          c1 = reconcile_orphaned_db_tasks now unreachable (pel_tasks now qs c) c;
          c2 = reconcile_orphaned_pel_entries now (map (\<lambda>(q, d). (q, map fst d)) snap) c1;
          c3 = reconcile_stale_ready_tasks now (map (\<lambda>(q, d). (q, map snd d)) snap) c2;
          c4 = reconcile_ready_tasks_with_consumed_messages now c3;
          c5 = reconcile_stuck_running_jobs envs js c4
      in c5\<lparr>cl_store := fst (cleanup_stale_engine_entries (cl_store c5))\<rparr>)"

section \<open>Stream identifiers\<close>

text \<open>\<open>_stream_id_to_tuple\<close> and \<open>_stream_id_lte\<close>: text that is not two numbers reads as (0, 0);
  numbers are the unsigned decimals Redis writes.\<close>

definition split_dash :: "string \<Rightarrow> (string \<times> string) option" where
  "split_dash s = (if CHR ''-'' \<in> set s
     then Some (takeWhile (\<lambda>ch. ch \<noteq> CHR ''-'') s, tl (dropWhile (\<lambda>ch. ch \<noteq> CHR ''-'') s)) else None)"

definition parse_nat :: "string \<Rightarrow> nat option" where
  "parse_nat s = (if s \<noteq> [] \<and> list_all is_digit s then Some (digits_val s) else None)"

definition stream_id_to_tuple :: "string \<Rightarrow> nat \<times> nat" where
  "stream_id_to_tuple s =
     (case split_dash s of
        None \<Rightarrow> (0, 0)
      | Some (ms, seq) \<Rightarrow>
          (case (parse_nat ms, parse_nat seq) of (Some a, Some b) \<Rightarrow> (a, b) | _ \<Rightarrow> (0, 0)))"

definition stream_id_lte :: "string \<Rightarrow> string \<Rightarrow> bool" where
  "stream_id_lte l r \<longleftrightarrow> stream_id_to_tuple l \<le> stream_id_to_tuple r"

definition stream_id_text :: "nat \<times> nat \<Rightarrow> string" where
  "stream_id_text p = str_nat (fst p) @ ''-'' @ str_nat (snd p)"

end
