(* ===== verification/ClusterInv.thy ===== *)
theory ClusterInv
  imports Runner Recovery Invariants
begin

text \<open>
  The engines, the orchestrator's handlers, the scanner and the sweeper as one system: its step
  relation interleaves single effects of the handlers, single steps of every engine, crashes of
  engines, and the repairs; the invariant of its reachable states accounts for every message.
\<close>

section \<open>Steps\<close>

record system =
  sys :: cluster
  phases :: "string \<Rightarrow> phase"

text \<open>A runner environment in which event writes go through, for instance \<open>i\<close> on its own stream.\<close>

definition runs_as :: "(string \<Rightarrow> string) \<Rightarrow> string \<Rightarrow> runner_env \<Rightarrow> bool" where
  "runs_as home i env \<longleftrightarrow> rn_instance env = i \<and> rn_queue env = home i
     \<and> fst (durable_attempts (rn_write env) 0 DURABLE_EVENT_MAX_RETRIES)"

inductive system_step :: "(string \<Rightarrow> string) \<Rightarrow> system \<Rightarrow> system \<Rightarrow> bool" for home where
  handler: "effect (cl_world (sys s)) w \<Longrightarrow> system_step home s (s\<lparr>sys := (sys s)\<lparr>cl_world := w\<rparr>\<rparr>)"
| engine: "runs_as home i env \<Longrightarrow> run_step env (sys s, phases s i) = (c, p) \<Longrightarrow>
    system_step home s (s\<lparr>sys := c, phases := (phases s)(i := p)\<rparr>)"
| crash: "system_step home s (s\<lparr>phases := (phases s)(i := Idle)\<rparr>)"
| registry: "system_step home s (s\<lparr>sys := (sys s)\<lparr>cl_store := r\<rparr>\<rparr>)"
| scanner: "scanner_commit now i err (sys s) = Some c \<Longrightarrow> system_step home s (s\<lparr>sys := c\<rparr>)"
| announced: "system_step home s (s\<lparr>sys := publish e (sys s)\<rparr>)"
| waiting: "system_step home s (s\<lparr>sys := scan_waiting now d i (sys s)\<rparr>)"
| orphans: "system_step home s (s\<lparr>sys := reconcile_orphaned_db_tasks now unreachable known (sys s)\<rparr>)"
| finished: "system_step home s (s\<lparr>sys := ack_if_finished now q i (sys s)\<rparr>)"
| stale: "p \<in> set (get_pending now q (sys s)) \<Longrightarrow> system_step home s (s\<lparr>sys := recover_stale_ready now q p (sys s)\<rparr>)"
| consumed: "t \<in> set (tasks (cl_world (sys s))) \<Longrightarrow> task_state t = TReady \<Longrightarrow>
    system_step home s (s\<lparr>sys := recover_consumed now t (sys s)\<rparr>)"
| stuck: "fresh_ids env (cl_world (sys s)) \<Longrightarrow> system_step home s (s\<lparr>sys := recover_stuck_job env j (sys s)\<rparr>)"

section \<open>What happened to a message that is no longer pending\<close>

definition reported :: "uuid \<Rightarrow> task_event list \<Rightarrow> bool" where
  "reported i es \<longleftrightarrow> TaskCompleted i \<in> set es \<or> (\<exists>err. TaskFailed i err \<in> set es)"

definition log_of :: "cluster \<Rightarrow> stream_entry list" where
  "log_of c = stream (queues_of (cl_world c))"

definition blocked :: "uuid \<Rightarrow> cluster \<Rightarrow> bool" where
  "blocked i c \<longleftrightarrow> truthy_opt (dget (metadata_of i c) ''blocked_reason'')"

definition finished_row :: "uuid \<Rightarrow> world \<Rightarrow> bool" where
  "finished_row i w \<longleftrightarrow> (\<exists>t. get_task w i = Some t \<and> task_state t \<in> finished_states)"

definition accounted :: "cluster \<Rightarrow> nat \<Rightarrow> bool" where
  "accounted c n \<longleftrightarrow> (let m = log_of c ! n; i = msg_task m in
     n \<in> cl_gone c \<or> reported i (cl_log c) \<or> is_job_cancelled (msg_job m) c \<or> blocked i c
     \<or> finished_row i (cl_world c)
     \<or> (\<exists>k > n. k < length (log_of c) \<and> msg_task (log_of c ! k) = i))"

text \<open>The parts of the invariant.\<close>

definition messages_ok :: "world \<Rightarrow> bool" where
  "messages_ok w \<longleftrightarrow> (\<forall>m \<in> set (stream (queues_of w)). \<exists>t. get_task w (msg_task m) = Some t
     \<and> task_job_id t = msg_job m \<and> task_state t \<noteq> TPending
     \<and> set (dependencies t) \<subseteq> completed_ids (tasks w))"

definition groups_ok :: "cluster \<Rightarrow> bool" where
  "groups_ok c \<longleftrightarrow> (\<forall>q. group_ok (cl_groups c q) \<and> delivered_to (cl_groups c q) \<le> length (log_of c)
     \<and> (\<forall>n \<in> pel_ids (cl_groups c q). msg_queue (log_of c ! n) = q))"

definition all_accounted :: "cluster \<Rightarrow> bool" where
  "all_accounted c \<longleftrightarrow> (\<forall>n < length (log_of c).
     let g = cl_groups c (msg_queue (log_of c ! n))
     in n < delivered_to g \<longrightarrow> n \<in> pel_ids g \<or> accounted c n)"

fun phase_ok :: "cluster \<Rightarrow> string \<Rightarrow> phase \<Rightarrow> bool" where
  "phase_ok c q Idle = True"
| "phase_ok c q (Settled n) = (n < length (log_of c) \<and> msg_queue (log_of c ! n) = q
     \<and> reported (msg_task (log_of c ! n)) (cl_log c))"
| "phase_ok c q (Holding n m) = (n < length (log_of c) \<and> log_of c ! n = m \<and> msg_queue m = q)"
| "phase_ok c q (Working n m) = (n < length (log_of c) \<and> log_of c ! n = m \<and> msg_queue m = q)"
| "phase_ok c q (Produced n m) = (n < length (log_of c) \<and> log_of c ! n = m \<and> msg_queue m = q)"

definition system_ok :: "(string \<Rightarrow> string) \<Rightarrow> system \<Rightarrow> bool" where
  "system_ok home s \<longleftrightarrow> inv_all (cl_world (sys s)) \<and> messages_ok (cl_world (sys s)) \<and> groups_ok (sys s)
     \<and> all_accounted (sys s) \<and> (\<forall>i. phase_ok (sys s) (home i) (phases s i))"

section \<open>Growth\<close>

text \<open>
  What every step only adds to: messages, events, deletions, cancellations, blocks and finished
  rows. An accounted message stays accounted, and what an engine holds stays what it is.
\<close>

definition cluster_grows :: "cluster \<Rightarrow> cluster \<Rightarrow> bool" where
  "cluster_grows c c' \<longleftrightarrow> (\<exists>new. log_of c' = log_of c @ new) \<and> (\<exists>es. cl_log c' = cl_log c @ es)
     \<and> cl_gone c \<subseteq> cl_gone c' \<and> cancel_flags (cl_world c) \<subseteq> cancel_flags (cl_world c')
     \<and> (\<forall>i. blocked i c \<longrightarrow> blocked i c') \<and> (\<forall>i. finished_row i (cl_world c) \<longrightarrow> finished_row i (cl_world c'))"

lemma cluster_grows_refl [simp]: "cluster_grows c c"
  by (auto simp: cluster_grows_def)

lemma cluster_grows_trans: "cluster_grows a b \<Longrightarrow> cluster_grows b c \<Longrightarrow> cluster_grows a c"
  by (fastforce simp: cluster_grows_def)

lemma reported_append [simp]: "reported i (es @ es') \<longleftrightarrow> reported i es \<or> reported i es'"
  by (auto simp: reported_def)

lemma accounted_grows:
  assumes "cluster_grows c c'" and "n < length (log_of c)" and "accounted c n"
  shows "accounted c' n"
proof -
  obtain new es where g: "log_of c' = log_of c @ new" "cl_log c' = cl_log c @ es" "cl_gone c \<subseteq> cl_gone c'"
    "cancel_flags (cl_world c) \<subseteq> cancel_flags (cl_world c')" "\<forall>i. blocked i c \<longrightarrow> blocked i c'"
    "\<forall>i. finished_row i (cl_world c) \<longrightarrow> finished_row i (cl_world c')"
    using assms(1) by (auto simp: cluster_grows_def)
  have at: "log_of c' ! k = log_of c ! k" if "k < length (log_of c)" for k
    using that g(1) by (simp add: nth_append)
  have len: "length (log_of c) \<le> length (log_of c')" using g(1) by simp
  show ?thesis
    using assms(2,3) g(2-6) at len
    unfolding accounted_def Let_def is_job_cancelled_def by (auto simp: subset_iff)
qed

lemma phase_ok_grows:
  assumes "cluster_grows c c'" and "phase_ok c q p"
  shows "phase_ok c' q p"
proof -
  obtain new es where "log_of c' = log_of c @ new" "cl_log c' = cl_log c @ es"
    using assms(1) by (auto simp: cluster_grows_def)
  then show ?thesis using assms(2) by (cases p) (auto simp: nth_append)
qed

section \<open>Effects of handlers\<close>

lemma effect_queue_grows:
  "effect w w' \<Longrightarrow> queues_of w' = queues_of w \<or> (tasks w' = tasks w \<and> queue_grows w (queues_of w'))"
  by (induction rule: effect.induct) (simp_all add: submit_job_def increment_concurrent_jobs_def set_enrichments_def)

lemma effect_cancel_flags: "effect w w' \<Longrightarrow> cancel_flags w \<subseteq> cancel_flags w'"
  by (induction rule: effect.induct) (auto simp: submit_job_def increment_concurrent_jobs_def set_enrichments_def)

lemma table_step_get:
  assumes "table_step w w'" and "distinct (ids w')" and "get_task w i = Some t"
  shows "\<exists>t'. get_task w' i = Some t' \<and> legal (completed_ids (tasks w)) t t'"
  using table_step_row [OF assms(1)] get_task_Some [OF assms(3)] get_task_distinct [OF assms(2)] by metis

lemma table_step_completed: "table_step w w' \<Longrightarrow> completed_ids (tasks w) \<subseteq> completed_ids (tasks w')"
  unfolding table_step_def by (metis completed_ids_map)

lemma legal_not_pending: "legal done t t' \<Longrightarrow> task_state t \<noteq> TPending \<Longrightarrow> task_state t' \<noteq> TPending"
  by (auto simp: legal_def split: task_status.splits)

lemma legal_finished: "legal done t t' \<Longrightarrow> task_state t \<in> finished_states \<Longrightarrow> task_state t' \<in> finished_states"
  by (auto simp: legal_def finished_states_def split: task_status.splits)

lemma messages_ok_step:
  assumes "table_step w w'" and "distinct (ids w')" and "messages_ok w" and "queues_of w' = queues_of w"
  shows "messages_ok w'"
  unfolding messages_ok_def assms(4)
proof
  fix m assume "m \<in> set (stream (queues_of w))"
  then obtain t where t: "get_task w (msg_task m) = Some t" "task_job_id t = msg_job m" "task_state t \<noteq> TPending"
    "set (dependencies t) \<subseteq> completed_ids (tasks w)" using assms(3) by (auto simp: messages_ok_def)
  obtain t' where t': "get_task w' (msg_task m) = Some t'" "legal (completed_ids (tasks w)) t t'"
    using table_step_get [OF assms(1,2) t(1)] by blast
  have "task_job_id t' = task_job_id t" "dependencies t' = dependencies t"
    using legal_same_row [OF t'(2)] by (simp_all add: same_row_def)
  then show "\<exists>t. get_task w' (msg_task m) = Some t \<and> task_job_id t = msg_job m \<and> task_state t \<noteq> TPending
      \<and> set (dependencies t) \<subseteq> completed_ids (tasks w')"
    using t t'(1) legal_not_pending [OF t'(2) t(3)] subset_trans [OF t(4) table_step_completed [OF assms(1)]]
    by simp
qed

lemma messages_ok_queued:
  assumes "queue_grows w (queues_of w')" and "tasks w' = tasks w" and "messages_ok w" and "inv_tasks w"
  shows "messages_ok w'"
proof -
  obtain new where s: "stream (queues_of w') = stream (queues_of w) @ new"
    and n: "\<forall>m \<in> set new. \<exists>t. get_task w (msg_task m) = Some t \<and> task_job_id t = msg_job m \<and> task_state t = TReady"
    using assms(1) by (auto simp: queue_grows_def)
  have g: "get_task w' i = get_task w i" for i by (simp add: get_task_def assms(2))
  have "\<exists>t. get_task w (msg_task m) = Some t \<and> task_job_id t = msg_job m \<and> task_state t \<noteq> TPending
      \<and> set (dependencies t) \<subseteq> completed_ids (tasks w)" if mem: "m \<in> set new" for m
  proof -
    obtain t where t: "get_task w (msg_task m) = Some t" "task_job_id t = msg_job m" "task_state t = TReady"
      using n mem by blast
    then have "set (dependencies t) \<subseteq> completed_ids (tasks w)"
      using assms(4) get_task_Some [OF t(1)] by (auto simp: inv_tasks_def)
    then show ?thesis using t by auto
  qed
  then show ?thesis using assms(3) by (auto simp: messages_ok_def s g assms(2))
qed

lemma effect_messages:
  assumes "effect w w'" and "inv_all w" and "messages_ok w"
  shows "messages_ok w'"
proof -
  have i: "inv_all w'" by (rule inv_all_effect [OF assms(1,2)])
  show ?thesis
    using effect_queue_grows [OF assms(1)]
    using messages_ok_step [OF effect_table [OF assms(1) inv_all_distinct [OF assms(2)]] inv_all_distinct [OF i] assms(3)]
      messages_ok_queued [OF _ _ assms(3)] assms(2) by (auto simp: inv_all_def)
qed

lemma effect_grows:
  assumes "effect (cl_world c) w" and "inv_all (cl_world c)"
  shows "cluster_grows c (c\<lparr>cl_world := w\<rparr>)"
proof -
  note d = inv_all_distinct [OF inv_all_effect [OF assms]]
  note t = effect_table [OF assms(1) inv_all_distinct [OF assms(2)]]
  have "\<exists>new. stream (queues_of w) = stream (queues_of (cl_world c)) @ new"
    "dget (task_metadata (queues_of w) i) ''blocked_reason'' = dget (metadata_of i c) ''blocked_reason''" for i
    using effect_queue_grows [OF assms(1)]
    by (auto simp: queue_grows_def same_fields_def kept_fields_def metadata_of_def)
  moreover have "finished_row i w" if fin: "finished_row i (cl_world c)" for i
  proof -
    obtain r where r: "get_task (cl_world c) i = Some r" "task_state r \<in> finished_states"
      using fin by (auto simp: finished_row_def)
    then show ?thesis using table_step_get [OF t d r(1)] legal_finished by (auto simp: finished_row_def)
  qed
  ultimately show ?thesis
    using effect_cancel_flags [OF assms(1)]
    by (simp add: cluster_grows_def log_of_def blocked_def metadata_of_def)
qed

section \<open>The shared state\<close>

definition cluster_ok :: "cluster \<Rightarrow> bool" where
  "cluster_ok c \<longleftrightarrow> inv_all (cl_world c) \<and> messages_ok (cl_world c) \<and> groups_ok c \<and> all_accounted c"

text \<open>A step of the shared state: the invariant is kept, and everything only grows.\<close>

definition keeps :: "cluster \<Rightarrow> cluster \<Rightarrow> bool" where
  "keeps c c' \<longleftrightarrow> cluster_ok c \<longrightarrow> cluster_ok c' \<and> cluster_grows c c'"

lemma keeps_refl [simp]: "keeps c c"
  by (simp add: keeps_def)

lemma keeps_trans: "keeps a b \<Longrightarrow> keeps b c \<Longrightarrow> keeps a c"
  by (auto simp: keeps_def intro: cluster_grows_trans)

lemma keeps_fold: "(\<And>x c. x \<in> set xs \<Longrightarrow> keeps c (f x c)) \<Longrightarrow> keeps c (fold f xs c)"
  by (induction xs arbitrary: c) (auto intro: keeps_trans)

lemma log_of_group [simp]: "log_of (set_group q g c) = log_of c"
  by (simp add: log_of_def)

lemma accounted_group [simp]: "accounted (set_group q g c) n = accounted c n"
  by (simp add: accounted_def Let_def is_job_cancelled_def blocked_def metadata_of_def)

lemma grows_group [simp]: "cluster_grows c (set_group q g c)"
  by (simp add: cluster_grows_def log_of_def blocked_def metadata_of_def)

lemma pel_in_log:
  assumes "groups_ok c" and "n \<in> pel_ids (cl_groups c q)"
  shows "n < delivered_to (cl_groups c q)" "n < length (log_of c)" "msg_queue (log_of c ! n) = q"
proof -
  show "n < delivered_to (cl_groups c q)" using assms by (auto simp: groups_ok_def group_ok_def pel_ids_def)
  moreover have "delivered_to (cl_groups c q) \<le> length (log_of c)" using assms(1) by (simp add: groups_ok_def)
  ultimately show "n < length (log_of c)" by (rule less_le_trans)
  show "msg_queue (log_of c ! n) = q" using assms by (auto simp: groups_ok_def)
qed

lemma keeps_same_groups:
  assumes "cl_groups c' = cl_groups c"
    and "cluster_ok c \<Longrightarrow> cluster_grows c c' \<and> inv_all (cl_world c') \<and> messages_ok (cl_world c')"
  shows "keeps c c'"
  unfolding keeps_def
proof
  assume c: "cluster_ok c"
  then have g: "cluster_grows c c'" and w: "inv_all (cl_world c')" "messages_ok (cl_world c')"
    using assms(2) by blast+
  have ok: "groups_ok c" "all_accounted c" using c by (simp_all add: cluster_ok_def)
  obtain new where new: "log_of c' = log_of c @ new" using g by (auto simp: cluster_grows_def)
  have len: "delivered_to (cl_groups c q) \<le> length (log_of c)" for q using ok(1) by (simp add: groups_ok_def)
  have "groups_ok c'"
    unfolding groups_ok_def assms(1) new
    using ok(1) len pel_in_log [OF ok(1)] by (auto simp: groups_ok_def nth_append intro: trans_le_add1)
  moreover have "all_accounted c'"
    unfolding all_accounted_def Let_def assms(1)
  proof (intro allI impI)
    fix n assume n: "n < length (log_of c')" "n < delivered_to (cl_groups c (msg_queue (log_of c' ! n)))"
    then have l: "n < length (log_of c)" using len less_le_trans by blast
    then have "log_of c' ! n = log_of c ! n" by (simp add: new nth_append)
    then show "n \<in> pel_ids (cl_groups c (msg_queue (log_of c' ! n))) \<or> accounted c' n"
      using ok(2) l n(2) accounted_grows [OF g l] by (auto simp: all_accounted_def Let_def)
  qed
  ultimately show "cluster_ok c' \<and> cluster_grows c c'" using w g by (simp add: cluster_ok_def)
qed

lemma keeps_set_group:
  assumes "cluster_ok c \<Longrightarrow> group_ok g \<and> delivered_to g \<le> length (log_of c)
      \<and> (\<forall>n \<in> pel_ids g. msg_queue (log_of c ! n) = q)
      \<and> (\<forall>n < length (log_of c). msg_queue (log_of c ! n) = q \<longrightarrow> n < delivered_to g \<longrightarrow> n \<in> pel_ids g \<or> accounted c n)"
  shows "keeps c (set_group q g c)"
  unfolding keeps_def
proof
  assume c: "cluster_ok c"
  have "groups_ok (set_group q g c)"
    using c assms [OF c] by (simp add: cluster_ok_def groups_ok_def)
  moreover have "all_accounted (set_group q g c)"
    using c assms [OF c] by (simp add: cluster_ok_def all_accounted_def Let_def)
  ultimately show "cluster_ok (set_group q g c) \<and> cluster_grows c (set_group q g c)"
    using c by (simp add: cluster_ok_def)
qed

section \<open>Commands of the streams\<close>

lemma gone_accounted: "n \<in> cl_gone c \<Longrightarrow> accounted c n"
  by (simp add: accounted_def Let_def)

text \<open>A change of the group that only drops deleted messages from the pending list.\<close>

lemma keeps_pel:
  assumes "group_ok (cl_groups c q) \<Longrightarrow> group_ok g" and "delivered_to g = delivered_to (cl_groups c q)"
    and "pel_ids g \<subseteq> pel_ids (cl_groups c q)"
    and "\<And>n. cluster_ok c \<Longrightarrow> n \<in> pel_ids (cl_groups c q) \<Longrightarrow> n \<notin> pel_ids g \<Longrightarrow> accounted c n"
  shows "keeps c (set_group q g c)"
proof (rule keeps_set_group, intro conjI)
  assume c: "cluster_ok c"
  then have ok: "groups_ok c" "all_accounted c" by (simp_all add: cluster_ok_def)
  show "group_ok g" "delivered_to g \<le> length (log_of c)" "\<forall>n \<in> pel_ids g. msg_queue (log_of c ! n) = q"
    using ok(1) assms(1-3) by (auto simp: groups_ok_def)
  show "\<forall>n < length (log_of c). msg_queue (log_of c ! n) = q \<longrightarrow> n < delivered_to g \<longrightarrow> n \<in> pel_ids g \<or> accounted c n"
    using ok(2) assms(2) assms(4) [OF c] by (auto simp: all_accounted_def Let_def)
qed

lemma dead_pending_accounted:
  assumes "cluster_ok c" and "n \<in> pel_ids (cl_groups c q)" and "dget (queue_live q c) n = None"
  shows "accounted c n"
proof (rule gone_accounted, rule ccontr)
  assume "n \<notin> cl_gone c"
  moreover have "n < length (log_of c)" "msg_queue (log_of c ! n) = q"
    using pel_in_log [of c n q] assms(1,2) by (simp_all add: cluster_ok_def)
  ultimately have "(n, log_of c ! n) \<in> set (queue_live q c)" by (simp add: in_queue_live log_of_def)
  then show False using assms(3) by (simp flip: dget_queue_live)
qed

lemma read_task_keeps:
  assumes "read_task now q i c = (c', r)"
  shows "keeps c c'" and "r = Some (n, m, k) \<Longrightarrow> phase_ok c q (Holding n m)"
    and "cl_world c' = cl_world c"
proof -
  obtain g ms where x: "xread_new now i 1 (queue_live q c) (cl_groups c q) = (g, ms)"
    and c': "c' = set_group q g c" and r: "r = (case ms of [] \<Rightarrow> None | (n, m) # _ \<Rightarrow> Some (n, m, 1))"
    using assms by (auto simp: read_task_def split: prod.splits)
  show "keeps c c'"
    unfolding c'
  proof (rule keeps_set_group)
    assume c: "cluster_ok c"
    then have ok: "groups_ok c" "all_accounted c" "group_ok (cl_groups c q)" "delivered_to (cl_groups c q) \<le> length (log_of c)"
      by (simp_all add: cluster_ok_def groups_ok_def)
    note X = xread_new_ok [OF ok(3) queue_live_in_order x]
    have live: "n < length (log_of c) \<and> log_of c ! n = m \<and> msg_queue m = q" if "(n, m) \<in> set ms" for n m
      using X(4) [OF that] by (simp add: in_queue_live log_of_def)
    have old: "msg_queue (log_of c ! n) = q" if "n \<in> pel_ids (cl_groups c q)" for n
      using pel_in_log(3) [OF ok(1) that] .
    have "delivered_to g \<le> length (log_of c)"
    proof (cases "take 1 (filter (\<lambda>(n, _). delivered_to (cl_groups c q) \<le> n) (queue_live q c))")
      case Nil
      then show ?thesis using x ok(4) by (auto simp: xread_new_def Let_def)
    next
      case (Cons a as)
      obtain n m where a: "a = (n, m)" by (cases a)
      have "as = []" using Cons by (cases "filter (\<lambda>(n, _). delivered_to (cl_groups c q) \<le> n) (queue_live q c)") auto
      then have "ms = [(n, m)]" "delivered_to g = Suc n"
        using x Cons a by (auto simp: xread_new_def Let_def)
      then show ?thesis using live [of n m] by simp
    qed
    moreover have "n \<in> pel_ids g \<or> accounted c n"
      if "n < length (log_of c)" "msg_queue (log_of c ! n) = q" "n < delivered_to g" for n
    proof (cases "n < delivered_to (cl_groups c q)")
      case True
      then show ?thesis using ok(2) that(1,2) X(2) by (auto simp: all_accounted_def Let_def)
    next
      case False
      then show ?thesis
        using xread_new_covers [OF queue_live_in_order x, of n "log_of c ! n"] that gone_accounted [of n c]
        by (auto simp: in_queue_live log_of_def)
    qed
    ultimately show "group_ok g \<and> delivered_to g \<le> length (log_of c)
      \<and> (\<forall>n \<in> pel_ids g. msg_queue (log_of c ! n) = q)
      \<and> (\<forall>n < length (log_of c). msg_queue (log_of c ! n) = q \<longrightarrow> n < delivered_to g \<longrightarrow> n \<in> pel_ids g \<or> accounted c n)"
      using X(1,2) live old by (auto simp: image_iff)
  qed
  show "cl_world c' = cl_world c" by (simp add: c')
  assume "r = Some (n, m, k)"
  then have "(n, m) \<in> set ms" using r by (cases ms) (auto split: prod.splits)
  then have "(n, m) \<in> set (queue_live q c)"
    using x by (auto simp: xread_new_def Let_def dest!: in_set_takeD)
  then show "phase_ok c q (Holding n m)" by (simp add: in_queue_live log_of_def)
qed

lemma read_own_keeps:
  assumes "read_own_pending now q i c = (c', r)"
  shows "keeps c c'" and "r = Some (n, m, k) \<Longrightarrow> phase_ok c q (Holding n m)"
    and "cl_world c' = cl_world c"
proof -
  obtain g ms where x: "xread_own now i 1 (queue_live q c) (cl_groups c q) = (g, ms)"
    and c': "c' = set_group q g c"
    and r: "r = (case List.find (\<lambda>(n, f). f \<noteq> None) ms of Some (n, Some m) \<Rightarrow> Some (n, m, 2) | _ \<Rightarrow> None)"
    using assms by (auto simp: read_own_pending_def split: prod.splits)
  note X = xread_own_ok [OF x]
  show "keeps c c'" unfolding c' by (rule keeps_pel) (use X in simp_all)
  show "cl_world c' = cl_world c" by (simp add: c')
  assume "r = Some (n, m, k)"
  then have "List.find (\<lambda>(n, f). f \<noteq> None) ms = Some (n, Some m)"
    using r by (auto split: option.splits)
  then have "(n, Some m) \<in> set ms" by (auto dest: find_SomeD)
  then have "dget (queue_live q c) n = Some m" using X(4) by metis
  then show "phase_ok c q (Holding n m)" by (simp add: dget_queue_live in_queue_live log_of_def)
qed

lemma claim_dead_keeps:
  assumes "claim_stale_from_dead_engines now q i idle l c = (c', ms)"
  shows "keeps c c'" and "(n, m, k) \<in> set ms \<Longrightarrow> phase_ok c q (Holding n m)"
    and "cl_world c' = cl_world c"
proof -
  define ns where "ns = take l (map pt_message (filter (\<lambda>p. \<not> pt_idle_ms p < idle
                        \<and> \<not> is_engine_alive now (pt_consumer p) (cl_store c)) (get_pending now q c)))"
  have a: "claim_tasks_by_id now q i ns c = (c', ms)"
    using assms by (simp add: claim_stale_from_dead_engines_def ns_def)
  show "keeps c c'"
  proof (cases "ns = []")
    case False
    then obtain g xs where x: "xclaim_all now i ns (queue_live q c) (cl_groups c q) = (g, xs)" "c' = set_group q g c"
      using a by (auto simp: claim_tasks_by_id_def split: prod.splits)
    note X = xclaim_all_ok [OF x(1)]
    show ?thesis unfolding x(2)
      by (rule keeps_pel) (use X in \<open>auto intro: dead_pending_accounted\<close>)
  qed (use a in \<open>simp add: claim_tasks_by_id_def\<close>)
  show "cl_world c' = cl_world c"
    using a by (auto simp: claim_tasks_by_id_def split: if_splits prod.splits)
  assume "(n, m, k) \<in> set ms"
  then have "ns \<noteq> []" "\<exists>g xs. xclaim_all now i ns (queue_live q c) (cl_groups c q) = (g, xs) \<and> (n, m) \<in> set xs"
    using a by (auto simp: claim_tasks_by_id_def split: if_splits prod.splits)
  then have "dget (queue_live q c) n = Some m" using xclaim_all_ok by fastforce
  then show "phase_ok c q (Holding n m)" by (simp add: dget_queue_live in_queue_live log_of_def)
qed

lemma ack_keeps: "(cluster_ok c \<Longrightarrow> n \<in> pel_ids (cl_groups c q) \<Longrightarrow> accounted c n) \<Longrightarrow> keeps c (ack_task q n c)"
  unfolding ack_task_def by (rule keeps_pel) (auto intro: xack_ok)

section \<open>Changes outside the groups\<close>

lemma keeps_effect:
  assumes "effect (cl_world c) w"
  shows "keeps c (c\<lparr>cl_world := w\<rparr>)"
proof (rule keeps_same_groups)
  assume "cluster_ok c"
  then have c: "inv_all (cl_world c)" "messages_ok (cl_world c)" by (simp_all add: cluster_ok_def)
  show "cluster_grows c (c\<lparr>cl_world := w\<rparr>) \<and> inv_all (cl_world (c\<lparr>cl_world := w\<rparr>))
      \<and> messages_ok (cl_world (c\<lparr>cl_world := w\<rparr>))"
    using effect_grows [OF assms c(1)] inv_all_effect [OF assms c(1)] effect_messages [OF assms c] by simp
qed simp

lemma keeps_effects: "effects (cl_world c) w \<Longrightarrow> keeps c (c\<lparr>cl_world := w\<rparr>)"
proof (induction rule: rtranclp_induct)
  case base
  then show ?case by simp
next
  case (step w1 w2)
  have "keeps (c\<lparr>cl_world := w1\<rparr>) ((c\<lparr>cl_world := w1\<rparr>)\<lparr>cl_world := w2\<rparr>)"
    by (rule keeps_effect) (simp add: step.hyps)
  then show ?case using keeps_trans [OF step.IH] by simp
qed

lemma keeps_frame:
  assumes "cl_world c' = cl_world c" and "cl_groups c' = cl_groups c" and "cl_gone c \<subseteq> cl_gone c'"
    and "cl_log c' = cl_log c @ es"
  shows "keeps c c'"
  by (rule keeps_same_groups)
    (use assms in \<open>auto simp: cluster_ok_def cluster_grows_def log_of_def blocked_def metadata_of_def\<close>)

lemma keeps_publish [simp]: "keeps c (publish e c)"
  by (rule keeps_frame) simp_all

lemma keeps_store [simp]: "keeps c (c\<lparr>cl_store := r\<rparr>)"
  by (rule keeps_frame [where es = "[]"]) simp_all

lemma keeps_outputs [simp]: "keeps c (c\<lparr>cl_outputs := r\<rparr>)"
  by (rule keeps_frame [where es = "[]"]) simp_all

lemma keeps_xdel [simp]: "keeps c (xdel n c)"
  by (rule keeps_frame [where es = "[]"]) (auto simp: xdel_def)

lemma inv_all_queues [simp]: "inv_all (w\<lparr>queues_of := q\<rparr>) = inv_all w"
  by (simp add: inv_all_def inv_tasks_def inv_jobs_def inv_counters_def pipeline_done_same [of "w\<lparr>queues_of := q\<rparr>" w]
      unreleased_def)

lemma finished_queues [simp]: "finished_row i (w\<lparr>queues_of := q\<rparr>) = finished_row i w"
  by (simp add: finished_row_def)

text \<open>Changes of the queues that leave the messages alone and lift no block.\<close>

lemma keeps_metadata:
  assumes "stream (f (queues_of (cl_world c))) = log_of c"
    and "\<And>i. blocked i c \<Longrightarrow> blocked i (map_queues f c)"
  shows "keeps c (map_queues f c)"
proof (rule keeps_same_groups)
  assume "cluster_ok c"
  then show "cluster_grows c (map_queues f c) \<and> inv_all (cl_world (map_queues f c)) \<and> messages_ok (cl_world (map_queues f c))"
    using assms by (auto simp: cluster_ok_def cluster_grows_def messages_ok_def log_of_def)
qed simp

lemma dget_filter_keys: "dget (filter (\<lambda>(k, _). k \<notin> set ks) d) k = (if k \<in> set ks then None else dget d k)"
  by (induction d) (auto simp: dget_def)

lemma dget_hdel:
  "k \<notin> set ks \<Longrightarrow> dget (task_metadata (hdel i ks q) j) k = dget (task_metadata q j) k"
  by (simp add: hdel_def dget_filter_keys)

lemma stream_hdel [simp]: "stream (hdel i ks q) = stream q"
  by (simp add: hdel_def)

lemma clear_waiting_keeps [simp]: "keeps c (clear_waiting_marker i c)"
proof -
  have w: "''blocked_reason'' \<notin> set waiting_fields" by (simp add: waiting_fields_def)
  show ?thesis
    unfolding clear_waiting_marker_def
    by (rule keeps_metadata) (simp_all add: log_of_def blocked_def metadata_of_def dget_hdel [OF w])
qed

lemma clear_waiting_same [simp]:
  "cl_groups (clear_waiting_marker i c) = cl_groups c" "cl_log (clear_waiting_marker i c) = cl_log c"
  "log_of (clear_waiting_marker i c) = log_of c"
  by (simp_all add: clear_waiting_marker_def log_of_def hdel_def)

lemma keeps_queued:
  assumes "cluster_ok c \<Longrightarrow> queue_grows (cl_world c) (f (queues_of (cl_world c)))"
  shows "keeps c (map_queues f c)"
  unfolding keeps_def
proof
  assume c: "cluster_ok c"
  have "keeps c (c\<lparr>cl_world := (cl_world c)\<lparr>queues_of := f (queues_of (cl_world c))\<rparr>\<rparr>)"
    by (rule keeps_effect [OF queued [OF assms [OF c]]])
  then show "cluster_ok (map_queues f c) \<and> cluster_grows c (map_queues f c)"
    using c by (simp add: keeps_def map_queues_def)
qed

section \<open>The engines\<close>

lemma publish_durable_on:
  "runs_as home i env \<Longrightarrow> publish_durable_event env e c = publish e c"
  by (simp add: publish_durable_event_def runs_as_def)

lemma phase_ok_cong: "log_of c' = log_of c \<Longrightarrow> cl_log c' = cl_log c \<Longrightarrow> phase_ok c' q p = phase_ok c q p"
  by (cases p) simp_all

lemma poll_keeps:
  assumes "poll env c = (c', p)"
  shows "keeps c c'" and "phase_ok c' (rn_queue env) p"
proof -
  let ?q = "rn_queue env" and ?i = "rn_instance env" and ?now = "rn_now env"
  obtain c1 ms where 1: "claim_stale_from_dead_engines ?now ?q ?i STALE_THRESHOLD_MS 1 c = (c1, ms)"
    by (metis surj_pair)
  obtain c2 r2 where 2: "read_own_pending ?now ?q ?i c1 = (c2, r2)" by (metis surj_pair)
  obtain c3 r3 where 3: "read_task ?now ?q ?i c2 = (c3, r3)" by (metis surj_pair)
  note k1 = claim_dead_keeps [OF 1] and k2 = read_own_keeps [OF 2] and k3 = read_task_keeps [OF 3]
  have w: "log_of c1 = log_of c" "log_of c2 = log_of c" "log_of c3 = log_of c"
    using k1(3) k2(3) k3(3) by (simp_all add: log_of_def)
  have "keeps c c' \<and> phase_ok c' ?q p"
  proof (cases ms)
    case (Cons x xs)
    obtain n m k where x: "x = (n, m, k)" by (cases x)
    then have "c' = c1" "p = Holding n m" using assms 1 Cons by (simp_all add: poll_def Let_def)
    then show ?thesis using k1(1) k1(2) [of n m k] Cons x w(1) by simp
  next
    case Nil
    show ?thesis
    proof (cases r2)
      case (Some x)
      obtain n m k where x: "x = (n, m, k)" by (cases x)
      then have "c' = c2" "p = Holding n m" using assms 1 2 Nil Some by (simp_all add: poll_def Let_def)
      then show ?thesis using keeps_trans [OF k1(1) k2(1)] k2(2) [of n m k] Some x w by simp
    next
      case None
      have k: "keeps c c3" by (rule keeps_trans [OF keeps_trans [OF k1(1) k2(1)] k3(1)])
      show ?thesis
      proof (cases r3)
        case (Some x)
        obtain n m k where x: "x = (n, m, k)" by (cases x)
        then have "c' = c3" "p = Holding n m" using assms 1 2 3 Nil None Some by (simp_all add: poll_def Let_def)
        then show ?thesis using k k3(2) [of n m k] Some x w by simp
      next
        case empty: None
        then have "c' = c3" "p = Idle" using assms 1 2 3 Nil None by (simp_all add: poll_def Let_def)
        then show ?thesis using k by simp
      qed
    qed
  qed
  then show "keeps c c'" "phase_ok c' ?q p" by blast+
qed

lemma run_step_keeps:
  assumes "runs_as home i env" and "run_step env (c, p) = (c', p')" and "phase_ok c (home i) p"
  shows "keeps c c'" and "cluster_ok c \<Longrightarrow> phase_ok c' (home i) p'"
proof -
  have q: "rn_queue env = home i" using assms(1) by (simp add: runs_as_def)
  note on = publish_durable_on [OF assms(1)]
  have "keeps c c' \<and> (cluster_ok c \<longrightarrow> phase_ok c' (home i) p')"
  proof (cases p)
    case Idle
    then show ?thesis using poll_keeps [of env c c' p'] assms(2) q by simp
  next
    case (Holding n m)
    have at: "n < length (log_of c)" "log_of c ! n = m" "msg_queue m = home i" using assms(3) Holding by auto
    let ?clr = "clear_waiting_marker (msg_task m) c"
    have gone: "keeps ?clr (ack_task (home i) n ?clr)" if "is_job_cancelled (msg_job m) c"
    proof (rule ack_keeps)
      have "is_job_cancelled (msg_job m) ?clr"
        using that by (simp add: is_job_cancelled_def clear_waiting_marker_def)
      then show "accounted ?clr n" using at by (simp add: accounted_def Let_def)
    qed
    have blk: "keeps c (ack_task (home i) n c)" if "truthy_opt (dget (metadata_of (msg_task m) c) ''blocked_reason'')"
      by (rule ack_keeps) (use that at in \<open>simp add: accounted_def Let_def blocked_def\<close>)
    have at': "log_of (publish e c2) = log_of c2" for e c2 by (simp add: log_of_def)
    show ?thesis
      using assms(2) at keeps_trans [OF clear_waiting_keeps gone] blk keeps_trans [OF clear_waiting_keeps keeps_publish]
      unfolding Holding
      by (auto simp: begin_task_def Let_def q on at' reported_def split: if_splits option.splits)
  next
    case (Working n m)
    have at: "n < length (log_of c)" "log_of c ! n = m" "msg_queue m = home i" using assms(3) Working by auto
    have o: "log_of (publish e c) = log_of c" "log_of (c\<lparr>cl_outputs := x\<rparr>) = log_of c" for e x
      by (simp_all add: log_of_def)
    show ?thesis
      using assms(2) at unfolding Working
      by (auto simp: work_def on o reported_def split: run_result.splits option.splits)
  next
    case (Produced n m)
    have at: "n < length (log_of c)" "log_of c ! n = m" "msg_queue m = home i" using assms(3) Produced by auto
    have o: "log_of (publish e c) = log_of c" for e by (simp add: log_of_def)
    show ?thesis using assms(2) at unfolding Produced by (auto simp: report_def on o reported_def)
  next
    case (Settled n)
    have "keeps c (ack_task (home i) n c)"
      by (rule ack_keeps) (use assms(3) Settled in \<open>simp add: accounted_def Let_def\<close>)
    then show ?thesis using assms(2) Settled q by (auto simp: settle_def)
  qed
  then show "keeps c c'" "cluster_ok c \<Longrightarrow> phase_ok c' (home i) p'" by blast+
qed

section \<open>The repairs\<close>

lemma scanner_commit_keeps:
  assumes "scanner_commit now i err c = Some c'"
  shows "keeps c c'"
proof -
  obtain t where t: "get_task (cl_world c) i = Some t" "task_state t = TRunning"
    and c': "c' = c\<lparr>cl_world := upd_task i (\<lambda>r. r\<lparr>task_state := TFailed, task_error := Some err,
                  task_completed_at := Some now\<rparr>) (cl_world c)\<rparr>"
    using assms by (auto simp: scanner_commit_def split: option.splits if_splits)
  show ?thesis unfolding c' by (rule keeps_effect [OF failed [OF t(1)]]) (use t(2) in simp_all)
qed

lemma orphan_write_effects:
  assumes "distinct (map fst vs)" and "\<forall>(i, v) \<in> set vs. \<exists>t. get_task w i = Some t \<and> task_state t = TRunning"
  shows "effects w (fold (orphan_write now) vs w)"
  using assms
proof (induction vs arbitrary: w)
  case Nil
  then show ?case by simp
next
  case (Cons x vs)
  obtain i v where x: "x = (i, v)" by (cases x)
  obtain t where t: "get_task w i = Some t" "task_state t = TRunning" using Cons.prems(2) x by auto
  have "effect w (orphan_write now (i, v) w)"
  proof (cases v)
    case Finished
    have "moves_to TCompleted 0 (\<lambda>r. r\<lparr>task_state := TCompleted, task_completed_at := Some now\<rparr>)"
      by (simp add: moves_to_def same_row_def)
    then show ?thesis unfolding Finished orphan_write.simps by (intro completed [OF t(1)]) (simp_all add: t(2))
  next
    case Lost
    then show ?thesis by (simp add: failed [OF t(1)] t(2))
  qed
  moreover have "\<forall>(k, u) \<in> set vs. \<exists>t. get_task (orphan_write now (i, v) w) k = Some t \<and> task_state t = TRunning"
  proof clarify
    fix k u assume k: "(k, u) \<in> set vs"
    then have "k \<noteq> i" using Cons.prems(1) x by (auto simp: image_iff)
    then show "\<exists>t. get_task (orphan_write now (i, v) w) k = Some t \<and> task_state t = TRunning"
      using Cons.prems(2) k by (cases v) (auto simp: keeps_id_def)
  qed
  ultimately show ?case
    using Cons.IH [of "orphan_write now (i, v) w"] Cons.prems(1) x
    by (auto intro: converse_rtranclp_into_rtranclp)
qed

lemma orphan_verdicts_running:
  assumes "inv_all (cl_world c)"
  shows "distinct (map fst (orphan_verdicts now u known c))"
    and "(i, v) \<in> set (orphan_verdicts now u known c) \<Longrightarrow> \<exists>t. get_task (cl_world c) i = Some t \<and> task_state t = TRunning
        \<and> i \<notin> known \<and> (\<exists>s. task_started_at t = Some s \<and> s < now - ORPHAN_THRESHOLD_SECONDS)
        \<and> \<not> u i \<and> (v = Finished \<longleftrightarrow> i \<in> cl_outputs c)"
proof -
  let ?f = "\<lambda>t. map_option (\<lambda>found. (task_id t, if found then Finished else Lost)) (check_output u c (task_id t))"
  have sub: "map fst (List.map_filter ?f ts) = map task_id (filter (\<lambda>t. \<not> u (task_id t)) ts)" for ts
    by (induction ts) (auto simp: List.map_filter_simps check_output_def)
  have d: "distinct (ids (cl_world c))" by (rule inv_all_distinct [OF assms])
  have "distinct (map task_id (filter P (tasks (cl_world c))))" for P
    using d by (simp add: ids_def distinct_map_filter)
  then show "distinct (map fst (orphan_verdicts now u known c))"
    unfolding orphan_verdicts_def sub orphaned_tasks_def filter_filter .
  assume "(i, v) \<in> set (orphan_verdicts now u known c)"
  then obtain t where "t \<in> set (orphaned_tasks now known c)" "?f t = Some (i, v)"
    by (auto simp: orphan_verdicts_def List.map_filter_def)
  then show "\<exists>t. get_task (cl_world c) i = Some t \<and> task_state t = TRunning
        \<and> i \<notin> known \<and> (\<exists>s. task_started_at t = Some s \<and> s < now - ORPHAN_THRESHOLD_SECONDS)
        \<and> \<not> u i \<and> (v = Finished \<longleftrightarrow> i \<in> cl_outputs c)"
    using get_task_distinct [OF d]
    by (auto simp: orphaned_tasks_def check_output_def split: if_splits option.splits intro!: exI [of _ t])
qed

lemma orphans_publish_keeps: "keeps c (orphans_publish vs c)"
  unfolding orphans_publish_def by (rule keeps_fold) simp

lemma orphans_publish_simps [simp]:
  "cl_world (orphans_publish vs c) = cl_world c" "cl_groups (orphans_publish vs c) = cl_groups c"
  "cl_log (orphans_publish vs c) = cl_log c @ map orphan_event vs"
  "cl_outputs (orphans_publish vs c) = cl_outputs c" "cl_store (orphans_publish vs c) = cl_store c"
  by (induction vs arbitrary: c) (simp_all add: orphans_publish_def)

lemma orphans_keeps: "keeps c (reconcile_orphaned_db_tasks now u known c)"
  unfolding keeps_def
proof
  assume c: "cluster_ok c"
  let ?vs = "orphan_verdicts now u known c"
  have i: "inv_all (cl_world c)" using c by (simp add: cluster_ok_def)
  have "effects (cl_world c) (fold (orphan_write now) ?vs (cl_world c))"
    by (rule orphan_write_effects) (use orphan_verdicts_running [OF i, where now = now and u = u and known = known] in blast)+
  then have "keeps (orphans_publish ?vs c) (orphans_commit now ?vs (orphans_publish ?vs c))"
    unfolding orphans_commit_def by (intro keeps_effects) simp
  from keeps_trans [OF orphans_publish_keeps this]
  show "cluster_ok (reconcile_orphaned_db_tasks now u known c) \<and> cluster_grows c (reconcile_orphaned_db_tasks now u known c)"
    using c by (simp add: keeps_def reconcile_orphaned_db_tasks_def Let_def)
qed

lemma pending_message:
  assumes "p \<in> set (get_pending now q c)"
  shows "pt_message p \<in> pel_ids (cl_groups c q)"
    and "pt_task p = Some i \<Longrightarrow> pt_message p < length (log_of c) \<and> msg_task (log_of c ! pt_message p) = i
        \<and> msg_queue (log_of c ! pt_message p) = q"
  using assms
  by (auto simp: get_pending_def pel_ids_def dget_queue_live in_queue_live log_of_def dest!: in_set_takeD)

lemma ack_finished_keeps: "keeps c (ack_if_finished now q i c)"
proof (cases "\<exists>t p. get_task (cl_world c) i = Some t \<and> task_state t \<in> finished_states
    \<and> List.find (\<lambda>p. pt_task p = Some i) (get_pending now q c) = Some p")
  case True
  then obtain t p where t: "get_task (cl_world c) i = Some t" "task_state t \<in> finished_states"
    and p: "List.find (\<lambda>p. pt_task p = Some i) (get_pending now q c) = Some p" by blast
  note m = pending_message [of p now q c]
  have "keeps c (ack_task q (pt_message p) c)"
    by (rule ack_keeps) (use m find_SomeD [OF p] t in \<open>auto simp: accounted_def Let_def finished_row_def\<close>)
  then show ?thesis using t p by (simp add: ack_if_finished_def)
next
  case False
  then have "ack_if_finished now q i c = c"
    by (auto simp: ack_if_finished_def split: option.split)
  then show ?thesis by simp
qed

lemma requeue_grows:
  assumes "get_task (cl_world c) (task_id t) = Some t" and "task_state t = TReady"
  shows "queue_grows (cl_world c) (fst (add_task now q (task_id t) (task_job_id t) s (queues_of (cl_world c))))"
  using assms by (auto simp: queue_grows_def add_task_def same_fields_def)

lemma stale_ready_keeps:
  assumes "p \<in> set (get_pending now q c)"
  shows "keeps c (recover_stale_ready now q p c)"
proof (cases "\<exists>i t. pt_task p = Some i \<and> get_task (cl_world c) i = Some t \<and> (task_state t = TReady \<or> task_state t = TPending)
    \<and> recover_stale_ready now q p c = ack_task q (pt_message p) (requeue_task now q t c)")
  case False
  have "recover_stale_ready now q p c = c"
  proof (cases "Option.bind (pt_task p) (get_task (cl_world c))")
    case None
    then show ?thesis by (simp add: recover_stale_ready_def)
  next
    case (Some t)
    then obtain i where "pt_task p = Some i" "get_task (cl_world c) i = Some t" by (auto simp: bind_eq_Some_conv)
    then show ?thesis using False Some by (simp add: recover_stale_ready_def split: if_splits)
  qed
  then show ?thesis by simp
next
  case True
  then obtain i t where t: "pt_task p = Some i" "get_task (cl_world c) i = Some t" "task_state t = TReady \<or> task_state t = TPending"
    and r: "recover_stale_ready now q p c = ack_task q (pt_message p) (requeue_task now q t c)" by blast
  note m = pending_message [OF assms]
  let ?c1 = "requeue_task now q t c"
  have id: "task_id t = i" using get_task_Some [OF t(2)] by simp
  show ?thesis
    unfolding keeps_def
  proof
    assume c: "cluster_ok c"
    have "log_of c ! pt_message p \<in> set (log_of c)" using m(2) [OF t(1)] by simp
    then have "\<exists>u. get_task (cl_world c) i = Some u \<and> task_state u \<noteq> TPending"
      using c m(2) [OF t(1)] by (fastforce simp: cluster_ok_def messages_ok_def log_of_def)
    then have ready: "task_state t = TReady" using t by auto
    have k1: "keeps c ?c1" unfolding requeue_task_def
      by (rule keeps_queued, rule requeue_grows) (use t id ready in simp_all)
    have l: "log_of ?c1 = log_of c @ [\<lparr>msg_queue = q, msg_task = i, msg_job = task_job_id t,
        msg_enqueued_at = now, msg_timeout_at = now + of_int REENQUEUE_TIMEOUT_S\<rparr>]"
      by (simp add: requeue_task_def log_of_def add_task_def id)
    have "keeps ?c1 (ack_task q (pt_message p) ?c1)"
    proof (rule ack_keeps)
      have "pt_message p < length (log_of c)" "msg_task (log_of ?c1 ! pt_message p) = i"
        using m(2) [OF t(1)] by (simp_all add: l nth_append)
      then show "accounted ?c1 (pt_message p)"
        unfolding accounted_def Let_def by (intro disjI2 exI [of _ "length (log_of c)"]) (simp add: l)
    qed
    from keeps_trans [OF k1 this] show "cluster_ok (recover_stale_ready now q p c) \<and> cluster_grows c (recover_stale_ready now q p c)"
      using c by (simp add: keeps_def r)
  qed
qed

lemma queue_grows_hset:
  assumes "queue_grows w q" and "\<forall>k \<in> set kept_fields. dget kvs k = None"
  shows "queue_grows w (hset i kvs q)"
  using assms same_fields_hset [OF assms(2), of q i] by (auto simp: queue_grows_def intro: same_fields_trans)

lemma consumed_keeps:
  assumes "get_task (cl_world c) (task_id t) = Some t" and "task_state t = TReady"
  shows "keeps c (recover_consumed now t c)"
proof (cases "consumed_message now t c")
  case None
  then show ?thesis by (simp add: recover_consumed_def)
next
  case (Some n)
  let ?q = "recovery_queue (metadata_of (task_id t) c) t"
  let ?kvs = "requeue_fields now ?q (length (stream (queues_of (cl_world c)))) n"
  let ?f = "\<lambda>qs. hset (task_id t) ?kvs (fst (add_task now ?q (task_id t) (task_job_id t) REENQUEUE_TIMEOUT_S qs))"
  have "keeps c (map_queues ?f c)"
    by (rule keeps_queued, rule queue_grows_hset, rule requeue_grows [OF assms])
      (simp add: requeue_fields_def kept_fields_def)
  moreover have "recover_consumed now t c = map_queues ?f c"
    by (simp add: recover_consumed_def Some Let_def requeue_task_def map_queues_def)
  ultimately show ?thesis by simp
qed

lemma stuck_keeps:
  assumes "fresh_ids env (cl_world c)"
  shows "keeps c (recover_stuck_job env j c)"
  unfolding recover_stuck_job_def
  using keeps_effects [OF effects_check_completion [OF effects_refl assms]] by simp

lemma block_keeps: "keeps c (map_queues (hset i [(''blocked_reason'', PStr ''engine_wait_timeout''), (''blocked_at'', PFloat now)]) c)"
  by (rule keeps_metadata) (auto simp: log_of_def blocked_def metadata_of_def hset_def truthy_opt_def)

lemma forget_keeps: "keeps c (map_queues (\<lambda>q. q\<lparr>waiting_tasks := waiting_tasks q - {i}\<rparr>) c)"
  by (rule keeps_metadata) (simp_all add: log_of_def blocked_def metadata_of_def)

lemma waiting_keeps: "keeps c (scan_waiting now d i c)"
proof -
  let ?b = "map_queues (hset i [(''blocked_reason'', PStr ''engine_wait_timeout''), (''blocked_at'', PFloat now)]) c"
  have "keeps c (clear_waiting_marker i (publish e ?b))" "keeps c (clear_waiting_marker i (xdel n (publish e ?b)))" for e n
    by (rule keeps_trans [OF block_keeps keeps_trans [OF keeps_publish clear_waiting_keeps]],
        rule keeps_trans [OF block_keeps keeps_trans [OF keeps_publish keeps_trans [OF keeps_xdel clear_waiting_keeps]]])
  then show ?thesis
    using forget_keeps [of c i]
    by (auto simp: scan_waiting_def Let_def split: option.split)
qed

section \<open>Reachable systems\<close>

definition start_system :: system where
  "start_system = \<lparr>sys = \<lparr>cl_world = empty_world, cl_groups = (\<lambda>_. new_group), cl_gone = {},
     cl_store = \<lparr>hash = (\<lambda>_. []), all_set = [], engine_sets = (\<lambda>_. []), stage_sets = (\<lambda>_. [])\<rparr>,
     cl_log = [], cl_outputs = {}\<rparr>, phases = (\<lambda>_. Idle)\<rparr>"

abbreviation system_steps :: "(string \<Rightarrow> string) \<Rightarrow> system \<Rightarrow> system \<Rightarrow> bool" where
  "system_steps home \<equiv> (system_step home)\<^sup>*\<^sup>*"

lemma system_ok_iff:
  "system_ok home s \<longleftrightarrow> cluster_ok (sys s) \<and> (\<forall>i. phase_ok (sys s) (home i) (phases s i))"
  by (auto simp: system_ok_def cluster_ok_def)

lemma system_ok_keeps:
  assumes "system_ok home s" and "keeps (sys s) c"
  shows "system_ok home (s\<lparr>sys := c\<rparr>)"
  using assms by (auto simp: system_ok_iff keeps_def intro: phase_ok_grows)

lemma system_step_ok:
  assumes "system_step home s s'" and "system_ok home s"
  shows "system_ok home s'"
  using assms
proof (induction rule: system_step.induct)
  case (handler s w)
  then show ?case by (intro system_ok_keeps keeps_effect)
next
  case (engine i env s c p)
  have ph: "phase_ok (sys s) (home i) (phases s i)" using engine.prems by (simp add: system_ok_iff)
  note k = run_step_keeps [OF engine.hyps ph]
  show ?case using engine.prems k phase_ok_grows by (auto simp: system_ok_iff keeps_def)
next
  case (crash s i)
  then show ?case by (simp add: system_ok_iff)
next
  case (registry s r)
  then show ?case by (intro system_ok_keeps) simp_all
next
  case (scanner now i err s c)
  then show ?case by (intro system_ok_keeps scanner_commit_keeps)
next
  case (announced s e)
  then show ?case by (intro system_ok_keeps) simp_all
next
  case (waiting s now d i)
  then show ?case by (intro system_ok_keeps waiting_keeps)
next
  case (orphans s now u known)
  then show ?case by (intro system_ok_keeps orphans_keeps)
next
  case (finished s now q i)
  then show ?case by (intro system_ok_keeps ack_finished_keeps)
next
  case (stale p now q s)
  then show ?case by (intro system_ok_keeps stale_ready_keeps)
next
  case (consumed t s now)
  have "distinct (ids (cl_world (sys s)))"
    using consumed.prems by (auto simp: system_ok_def inv_all_distinct)
  then show ?case using consumed by (intro system_ok_keeps consumed_keeps) (simp_all add: get_task_distinct)
next
  case (stuck env s j)
  then show ?case by (intro system_ok_keeps stuck_keeps)
qed

lemma start_system_ok: "system_ok home start_system"
proof -
  have "stream (queues_of empty_world) = []" by (simp add: empty_world_def)
  then show ?thesis
    by (simp add: system_ok_def start_system_def inv_all_empty messages_ok_def groups_ok_def all_accounted_def
        log_of_def new_group_def pel_ids_def group_ok_def)
qed

lemma reachable_system_ok: "system_steps home start_system s \<Longrightarrow> system_ok home s"
  by (induction rule: rtranclp_induct) (auto intro: start_system_ok system_step_ok)

end
