(* ===== verification/ClusterProps.thy ===== *)
theory ClusterProps
  imports ClusterInv LifecycleProps
begin

text \<open>
  What the streams, the engines and the repairs guarantee together, and where their guarantees
  end: no message is lost, engines only work on tasks whose dependencies are completed, what a
  repair does to the rows it selects, and the failures that no repair sees.
\<close>

section \<open>A concrete run\<close>

lemma system_effects:
  assumes "effects (cl_world (sys s)) w"
  shows "system_steps home s (s\<lparr>sys := (sys s)\<lparr>cl_world := w\<rparr>\<rparr>)"
  using assms
proof (induction rule: rtranclp_induct)
  case base
  show ?case by simp
next
  case (step w1 w2)
  have "system_step home (s\<lparr>sys := (sys s)\<lparr>cl_world := w1\<rparr>\<rparr>) (s\<lparr>sys := (sys s)\<lparr>cl_world := w2\<rparr>\<rparr>)"
    using handler [of "s\<lparr>sys := (sys s)\<lparr>cl_world := w1\<rparr>\<rparr>" w2] step.hyps(2) by simp
  then show ?case using step.IH by (rule rtranclp.rtrancl_into_rtrancl [rotated])
qed

text \<open>The demo job with its prepare task queued, and the engine \<open>prep-1\<close> on the stream \<open>prep\<close>.\<close>

definition demo_home :: "string \<Rightarrow> string" where
  "demo_home i = ''prep''"

definition demo_runner :: "time \<Rightarrow> runner_env" where
  "demo_runner now = \<lparr>rn_now = now, rn_instance = ''prep-1'', rn_queue = ''prep'', rn_load = (\<lambda>_. None),
     rn_process = (\<lambda>_. Succeeded), rn_save = (\<lambda>_. None), rn_write = (\<lambda>_. True)\<rparr>"

definition demo_cluster :: "world \<Rightarrow> cluster" where
  "demo_cluster w = (sys start_system)\<lparr>cl_world := w\<rparr>"

definition demo_message :: stream_entry where
  "demo_message = hd (stream (queues_of (demo_created demo_oenv [])))"

definition demo_taken :: cluster where
  "demo_taken = fst (run_step (demo_runner 110) (demo_cluster (demo_created demo_oenv []), Idle))"


lemma demo_created_reaches:
  "system_steps demo_home start_system (start_system\<lparr>sys := demo_cluster (demo_created demo_oenv [])\<rparr>)"
proof -
  have "effect empty_world (demo_submitted [])"
    unfolding demo_submitted_def by (rule submitted) (simp_all add: empty_world_def demo_job_def)
  moreover have "effects (demo_submitted []) (demo_created demo_oenv [])"
    unfolding demo_created_def
    by (rule handle_job_created_effects [OF fresh_above [where n = 100]]) (simp, code_simp)
  ultimately have "effects (cl_world (sys start_system)) (demo_created demo_oenv [])"
    by (simp add: start_system_def converse_rtranclp_into_rtranclp)
  from system_effects [OF this] show ?thesis by (simp add: demo_cluster_def)
qed

lemma demo_runs_as: "runs_as demo_home ''prep-1'' (demo_runner now)"
  by (simp add: runs_as_def demo_home_def demo_runner_def DURABLE_EVENT_MAX_RETRIES_def eval_nat_numeral)

lemma demo_taken_reaches:
  "system_steps demo_home start_system
     (start_system\<lparr>sys := demo_taken, phases := (phases start_system)(''prep-1'' := Holding 0 demo_message)\<rparr>)"
proof (rule rtranclp.rtrancl_into_rtrancl [OF demo_created_reaches])
  let ?s = "start_system\<lparr>sys := demo_cluster (demo_created demo_oenv [])\<rparr>"
  have "snd (run_step (demo_runner 110) (demo_cluster (demo_created demo_oenv []), Idle)) = Holding 0 demo_message"
    by code_simp
  then have "run_step (demo_runner 110) (sys ?s, phases ?s ''prep-1'') = (demo_taken, Holding 0 demo_message)"
    by (simp add: prod_eq_iff demo_taken_def start_system_def)
  from engine [where home = demo_home, OF demo_runs_as this]
  show "system_step demo_home ?s
      (start_system\<lparr>sys := demo_taken, phases := (phases start_system)(''prep-1'' := Holding 0 demo_message)\<rparr>)"
    by simp
qed

section \<open>Messages and engines\<close>






section \<open>An engine settles what it takes\<close>

lemma xack_gone [simp]: "n \<notin> pel_ids (xack n g)"
  by (auto simp: xack_def pel_ids_def)

lemma ack_gone [simp]: "n \<notin> pel_ids (cl_groups (ack_task q n c) q)" "cl_log (ack_task q n c) = cl_log c"
  by (simp_all add: ack_task_def)

definition acked_in :: "string \<Rightarrow> nat \<Rightarrow> cluster \<times> phase \<Rightarrow> bool" where
  "acked_in q n r \<longleftrightarrow> snd r = Idle \<and> n \<notin> pel_ids (cl_groups (fst r) q)"

lemma settled_in_one: "acked_in (rn_queue env) n ((run_step env ^^ 1) (c, Settled n))"
  by (simp add: acked_in_def settle_def)

lemma settled_from_work:
  assumes "runs_as home i env" and "rn_process env (msg_task m) \<noteq> Deferred"
  shows "\<exists>k \<le> 3. acked_in (rn_queue env) n ((run_step env ^^ k) (c, Working n m))
    \<and> reported (msg_task m) (cl_log (fst ((run_step env ^^ k) (c, Working n m))))"
proof -
  note on = publish_durable_on [OF assms(1)]
  show ?thesis
  proof (cases "\<exists>err. work env n m c = (publish (TaskFailed (msg_task m) err) c, Settled n)")
    case True
    then show ?thesis
      by (intro exI [of _ 2]) (auto simp: numeral_2_eq_2 acked_in_def settle_def reported_def)
  next
    case False
    then have "work env n m c = (c\<lparr>cl_outputs := insert (msg_task m) (cl_outputs c)\<rparr>, Produced n m)"
      using assms(2) by (auto simp: work_def on split: run_result.splits option.splits)
    then show ?thesis
      by (intro exI [of _ 3]) (simp add: numeral_3_eq_3 acked_in_def report_def settle_def reported_def on)
  qed
qed




end
