(* ===== verification/RecoveryProps.thy ===== *)
theory RecoveryProps
  imports ClusterProps
begin

text \<open>
  What the scanner and the sweeper do to the rows and messages they select, and the failures
  they leave behind: the outcome of the orphan sweep, the requeueing of a consumed message, the
  end of stuck jobs, the order of stream identifiers, and what a scanner failure costs.
\<close>

section \<open>The orphan sweep\<close>

definition verdict_row :: "time \<Rightarrow> verdict \<Rightarrow> task \<Rightarrow> task" where
  "verdict_row now v t =
     (case v of
        Finished \<Rightarrow> t\<lparr>task_state := TCompleted, task_completed_at := Some now\<rparr>
      | Lost \<Rightarrow> t\<lparr>task_state := TFailed, task_error := Some orphan_text, task_completed_at := Some now\<rparr>)"

lemma get_orphan_write:
  "get_task (orphan_write now (i, v) w) k = (if k = i then map_option (verdict_row now v) (get_task w i) else get_task w k)"
  by (cases v) (auto simp: verdict_row_def [abs_def] keeps_id_def task_table.lookup_update task_table.lookup_other)

lemma get_orphan_writes:
  assumes "distinct (map fst vs)"
  shows "get_task (fold (orphan_write now) vs w) k
    = (case map_of vs k of None \<Rightarrow> get_task w k | Some v \<Rightarrow> map_option (verdict_row now v) (get_task w k))"
  using assms
proof (induction vs arbitrary: w)
  case (Cons x vs)
  obtain i v where x: "x = (i, v)" by (cases x)
  have "map_of vs i = None" using Cons.prems x by (simp add: map_of_eq_None_iff)
  then show ?case using Cons.IH [of "orphan_write now (i, v) w"] Cons.prems x
    by (simp add: get_orphan_write split: option.split)
qed simp

definition orphan :: "time \<Rightarrow> uuid set \<Rightarrow> task \<Rightarrow> bool" where
  "orphan now known t \<longleftrightarrow> task_state t = TRunning
     \<and> (\<exists>s. task_started_at t = Some s \<and> s < now - ORPHAN_THRESHOLD_SECONDS) \<and> task_id t \<notin> known"

lemma in_orphan_verdicts:
  "(i, v) \<in> set (orphan_verdicts now u known c) \<longleftrightarrow> (\<exists>t \<in> set (tasks (cl_world c)). task_id t = i \<and> orphan now known t
     \<and> \<not> u i \<and> v = (if i \<in> cl_outputs c then Finished else Lost))"
  by (auto simp: orphan_verdicts_def orphaned_tasks_def check_output_def map_filter_def orphan_def
      split: option.splits)


lemma orphan_event_iff:
  "orphan_event x = TaskCompleted i \<longleftrightarrow> x = (i, Finished)"
  "orphan_event x = TaskFailed i err \<longleftrightarrow> x = (i, Lost) \<and> err = orphan_text"
  by (cases x rule: orphan_event.cases; auto)+

lemma in_orphan_events:
  "TaskCompleted i \<in> set (map orphan_event vs) \<longleftrightarrow> (i, Finished) \<in> set vs"
  "(\<exists>err. TaskFailed i err \<in> set (map orphan_event vs)) \<longleftrightarrow> (i, Lost) \<in> set vs"
  unfolding set_map image_iff by (metis orphan_event_iff(1), metis orphan_event_iff(2))

text \<open>The orphan sweep repairs exactly the orphans. A row is changed only when it has been running
  for more than ten minutes, is in no pending list and its output could be looked up; it is then
  completed when the output is stored and failed when it is not, and the matching event is
  published. Every other row is left exactly as it was and gets no event.\<close>

lemma orphan_sweep_exact:
  assumes "system_steps home start_system s" and "get_task (cl_world (sys s)) i = Some t"
    and "c' = reconcile_orphaned_db_tasks now u known (sys s)"
  shows "(let found = i \<in> cl_outputs (sys s);
              due = task_state t = TRunning \<and> i \<notin> known \<and> \<not> u i
                \<and> (\<exists>s. task_started_at t = Some s \<and> s < now - ORPHAN_THRESHOLD_SECONDS)
          in get_task (cl_world c') i = Some (if \<not> due then t
                else if found then t\<lparr>task_state := TCompleted, task_completed_at := Some now\<rparr>
                else t\<lparr>task_state := TFailed, task_error := Some orphan_text, task_completed_at := Some now\<rparr>)
           \<and> (\<exists>new. cl_log c' = cl_log (sys s) @ new
                \<and> (TaskCompleted i \<in> set new \<longleftrightarrow> due \<and> found)
                \<and> ((\<exists>err. TaskFailed i err \<in> set new) \<longleftrightarrow> due \<and> \<not> found)))"
proof -
  let ?c = "sys s" and ?vs = "orphan_verdicts now u known (sys s)"
  have inv: "inv_all (cl_world ?c)" using reachable_system_ok [OF assms(1)] by (simp add: system_ok_def)
  have id: "task_id t = i" "t \<in> set (tasks (cl_world ?c))" using get_task_Some [OF assms(2)] by simp_all
  have only: "r = t" if "r \<in> set (tasks (cl_world ?c))" "task_id r = i" for r
    using get_task_distinct [OF inv_all_distinct [OF inv] that(1)] that(2) assms(2) by simp
  have vs: "(i, v) \<in> set ?vs \<longleftrightarrow> orphan now known t \<and> \<not> u i \<and> v = (if i \<in> cl_outputs ?c then Finished else Lost)" for v
    unfolding in_orphan_verdicts using only id by metis
  have d: "distinct (map fst ?vs)" by (rule orphan_verdicts_running [OF inv])
  have row: "get_task (cl_world c') i = (case map_of ?vs i of None \<Rightarrow> Some t | Some v \<Rightarrow> Some (verdict_row now v t))"
    using get_orphan_writes [OF d, of now "cl_world ?c" i] assms(2)
    by (simp add: assms(3) reconcile_orphaned_db_tasks_def orphans_commit_def Let_def split: option.split)
  have log: "cl_log c' = cl_log ?c @ map orphan_event ?vs"
    by (simp add: assms(3) reconcile_orphaned_db_tasks_def orphans_commit_def Let_def)
  note ev = in_orphan_events [where vs = ?vs and i = i]
  show ?thesis
  proof (cases "orphan now known t \<and> \<not> u i")
    case True
    then have "map_of ?vs i = Some (if i \<in> cl_outputs ?c then Finished else Lost)"
      using d vs by (simp add: map_of_eq_Some_iff)
    then show ?thesis
      using True row ev vs id(1) by (auto simp: log orphan_def verdict_row_def Let_def)
  next
    case False
    then have "map_of ?vs i = None" using vs by (auto simp: map_of_eq_None_iff image_iff)
    then show ?thesis
      using False row ev vs id(1) by (auto simp: log orphan_def Let_def)
  qed
qed


definition demo_started :: world where
  "demo_started = handle_task_started (demo_oenv 150) 100 (demo_created demo_oenv [])"

lemma demo_started_reaches:
  "system_steps demo_home start_system (start_system\<lparr>sys := demo_cluster demo_started\<rparr>)"
proof -
  have "effect (demo_created demo_oenv []) demo_started"
    unfolding demo_started_def handle_task_started_def by (rule started) simp
  then have "effects (cl_world (demo_cluster (demo_created demo_oenv []))) demo_started"
    by (simp add: demo_cluster_def)
  from rtranclp_trans [OF demo_created_reaches system_effects [of "start_system\<lparr>sys := demo_cluster (demo_created demo_oenv [])\<rparr>", simplified, OF this]]
  show ?thesis by (simp add: demo_cluster_def)
qed

lemma demo_started_row:
  obtains t where "get_task demo_started 100 = Some t" "task_state t = TRunning" "task_started_at t = Some 100"
    "task_job_id t = 7" "retries t = 0" "max_retries t = 2" "task_id t = 100"
proof -
  have "map_option (\<lambda>t. (task_state t, task_started_at t, task_job_id t, retries t, max_retries t, task_id t)) (get_task demo_started 100)
    = Some (TRunning, Some 100, 7, 0, 2, 100)" by code_simp
  then show ?thesis using that by auto
qed

lemma orphan_sweep_exact_example:
  "map_option task_state (get_task (cl_world (reconcile_orphaned_db_tasks 2000 (\<lambda>_. False) {} (demo_cluster demo_started))) 100)
     = Some TFailed"
proof -
  obtain t where t: "get_task demo_started 100 = Some t" "task_state t = TRunning" "task_started_at t = Some 100"
    by (rule demo_started_row)
  have "cl_outputs (demo_cluster demo_started) = {}" "cl_world (demo_cluster demo_started) = demo_started"
    by (simp_all add: demo_cluster_def start_system_def)
  then show ?thesis
    using orphan_sweep_exact [OF demo_started_reaches, of 100 t _ 2000 "\<lambda>_. False" "{}"] t
    by (simp add: ORPHAN_THRESHOLD_SECONDS_def)
qed

section \<open>A failure found by the scanner\<close>

lemma upd_task_get [simp]: "keeps_id i f \<Longrightarrow> get_task (upd_task i f w) i = map_option f (get_task w i)"
  by (rule task_table.lookup_update)

lemma ensure_failed_fresh:
  assumes "jobs w j = Some r" and "job_state r \<noteq> JFailed" and "job_state r \<noteq> JCancelled"
  shows "map_option job_state (jobs (ensure_job_failed_side_effects env st j err w) j) = Some JFailed"
    and "tasks (ensure_job_failed_side_effects env st j err w) = tasks w"
  using assms by (auto simp: ensure_job_failed_side_effects_def Let_def fail_job_def)

lemma retry_counts:
  assumes "get_task w i = Some t"
  shows "\<exists>t'. get_task (fst (queue_retry env i w)) i = Some t' \<and> retries t' = retries t"
proof -
  obtain q r where q: "queue_task env t (gather_previous_responses env (job_tasks w (task_job_id t)) [] (dependencies t)) None
      (Some (retry_enqueue_dedupe_key i (retries t))) (queues_of w) = (q, r)"
    by (metis surj_pair)
  have g: "get_task (w\<lparr>queues_of := q\<rparr>) i = Some t" using assms by (simp add: get_task_def)
  have e: "tasks (ensure_job_failed_side_effects env st j err w1) = tasks w1" for st j err w1
    by (simp add: ensure_job_failed_side_effects_def Let_def fail_job_def split: option.split)
  have "get_task (ensure_job_failed_side_effects env st j err w1) i = get_task w1 i" for st j err w1
    by (simp add: get_task_def e)
  then show ?thesis
    using g q assms by (cases r) (auto simp: queue_retry_def Let_def keeps_id_def)
qed

text \<open>A task that the scanner finds dead or late is not retried. Whatever the task's retries and
  whether or not it is required, the event the scanner publishes fails the whole job, even one that
  is already completed, and leaves the retry count as it was; the same error reported by an engine
  is counted as a retry.\<close>

lemma scanner_failure_is_final:
  assumes "get_task (cl_world c) i = Some t" and "task_state t = TRunning"
    and "jobs (cl_world c) (task_job_id t) = Some r" and "job_state r \<notin> {JFailed, JCancelled}"
    and "c' = scanner_fail_task now i err c"
  shows "cl_log c' = cl_log c @ [TaskFailed i err]
    \<and> (let w' = fst (handle_task_failed env i err (cl_world c'))
       in map_option job_state (jobs w' (task_job_id t)) = Some JFailed
          \<and> map_option task_state (get_task w' i) = Some TFailed
          \<and> map_option retries (get_task w' i) = Some (retries t))
    \<and> (retries t < max_retries t \<longrightarrow> \<not> is_non_retryable_task_error err \<longrightarrow>
         map_option retries (get_task (fst (handle_task_failed env i err (cl_world c))) i) = Some (retries t + 1))"
proof -
  let ?f = "\<lambda>r. r\<lparr>task_state := TFailed, task_error := Some err, task_completed_at := Some now\<rparr>"
  let ?w = "upd_task i ?f (cl_world c)"
  have c': "c' = publish (TaskFailed i err) (c\<lparr>cl_world := ?w\<rparr>)"
    using assms(1,2,5) by (simp add: scanner_fail_task_def scanner_commit_def)
  have g: "get_task ?w i = Some (?f t)" using assms(1) by (simp add: keeps_id_def)
  have h: "fst (handle_task_failed env i err ?w)
      = ensure_job_failed_side_effects env (task_stage t) (task_job_id t) (or_text (Some err) err) ?w"
    using g by (simp add: handle_task_failed_def)
  have j: "jobs ?w (task_job_id t) = Some r" using assms(3) by simp
  note F = ensure_failed_fresh [OF j]
  have "get_task (ensure_job_failed_side_effects env (task_stage t) (task_job_id t) (or_text (Some err) err) ?w) i = Some (?f t)"
    using g F(2) assms(4) by (simp add: get_task_def)
  then have "let w' = fst (handle_task_failed env i err (cl_world c'))
       in map_option job_state (jobs w' (task_job_id t)) = Some JFailed
          \<and> map_option task_state (get_task w' i) = Some TFailed
          \<and> map_option retries (get_task w' i) = Some (retries t)"
    using F(1) assms(4) by (simp add: c' h Let_def)
  moreover have "map_option retries (get_task (fst (handle_task_failed env i err (cl_world c))) i) = Some (retries t + 1)"
    if "retries t < max_retries t" "\<not> is_non_retryable_task_error err"
  proof -
    let ?g = "\<lambda>r. r\<lparr>retries := retries r + 1, task_state := TReady, ready_at := Some (oe_now env), task_error := Some err\<rparr>"
    have "get_task (upd_task i ?g (cl_world c)) i = Some (?g t)" using assms(1) by (simp add: keeps_id_def)
    from retry_counts [OF this, of env] show ?thesis
      using assms(1,2) that by (auto simp: handle_task_failed_def)
  qed
  ultimately show ?thesis by (simp add: c')
qed

lemma scanner_failure_is_final_example:
  "map_option job_state (jobs (fst (handle_task_failed (demo_oenv 200) 100 ''late''
     (cl_world (scanner_fail_task 4000 100 ''late'' (demo_cluster demo_started))))) 7) = Some JFailed"
proof -
  obtain t where t: "get_task demo_started 100 = Some t" "task_state t = TRunning" "task_job_id t = 7"
    by (rule demo_started_row)
  have "map_option job_state (jobs demo_started 7) = Some JRunning" by code_simp
  then obtain r where "jobs demo_started 7 = Some r" "job_state r = JRunning" by auto
  moreover have "cl_world (demo_cluster demo_started) = demo_started" by (simp add: demo_cluster_def)
  ultimately show ?thesis
    using scanner_failure_is_final [of "demo_cluster demo_started" 100 t r _ 4000 "''late''" "demo_oenv 200"] t
    by (simp add: Let_def)
qed


section \<open>A failure whose event was never published\<close>

text \<open>A job with a failed task that nobody was told about, and a later task that waits.\<close>

definition stranded :: "uuid \<Rightarrow> uuid \<Rightarrow> uuid \<Rightarrow> cluster \<Rightarrow> bool" where
  "stranded j i k c \<longleftrightarrow> distinct (ids (cl_world c)) \<and> \<not> reported i (cl_log c)
     \<and> map_option job_state (jobs (cl_world c) j) = Some JRunning
     \<and> map_option task_state (get_task (cl_world c) i) = Some TFailed
     \<and> (\<exists>t. get_task (cl_world c) k = Some t \<and> task_state t = TPending \<and> task_job_id t = j
          \<and> \<not> is_post_processing_task t)"

text \<open>The repairs, in any order and any number: the scanner's entries and its waiting set, and the four
  sweeps over tasks and jobs.\<close>

inductive repair :: "cluster \<Rightarrow> cluster \<Rightarrow> bool" where
  scan_one: "repair c (scan_entry now q p c)"
| scan_wait: "repair c (scan_waiting now d i c)"
| sweep_orphans: "repair c (reconcile_orphaned_db_tasks now u known c)"
| sweep_finished: "repair c (reconcile_orphaned_pel_entries now by_stage c)"
| sweep_stale: "repair c (recover_stale_ready now q p c)"
| sweep_consumed: "repair c (recover_consumed now t c)"
| sweep_stuck: "fresh_ids env (cl_world c) \<Longrightarrow> repair c (recover_stuck_job env j c)"

lemma stranded_frame:
  assumes "stranded j i k c" and "tasks (cl_world c') = tasks (cl_world c)" and "jobs (cl_world c') = jobs (cl_world c)"
    and "cl_log c' = cl_log c \<or> (\<exists>x err. cl_log c' = cl_log c @ [TaskWaitTimeout x err])"
  shows "stranded j i k c'"
  using assms by (auto simp: stranded_def get_task_def ids_def reported_def)

lemma stranded_rows:
  assumes "stranded j i k c" and "get_task (cl_world c) x = Some t" and "task_state t = TRunning"
  shows "x \<noteq> i" and "x \<noteq> k"
  using assms by (auto simp: stranded_def)

lemma ids_upd [simp]: "keeps_id i f \<Longrightarrow> ids (upd_task i f w) = ids w"
  by (simp add: ids_def upd_task_def keeps_id_def comp_def if_distrib cong: if_cong)

lemma stranded_scanner_fail:
  assumes "stranded j i k c" shows "stranded j i k (scanner_fail_task now x err c)"
proof (cases "\<exists>t. get_task (cl_world c) x = Some t \<and> task_state t = TRunning")
  case True
  then obtain t where t: "get_task (cl_world c) x = Some t" "task_state t = TRunning" by blast
  note ne = stranded_rows [OF assms t]
  show ?thesis
    using assms ne t
    by (simp add: stranded_def scanner_fail_task_def scanner_commit_def keeps_id_def reported_def
        task_table.lookup_other)
next
  case False
  then show ?thesis using assms by (auto simp: scanner_fail_task_def scanner_commit_def split: option.split)
qed

lemma stranded_orphans:
  assumes s: "stranded j i k c"
  shows "stranded j i k (reconcile_orphaned_db_tasks now u known c)"
proof -
  let ?vs = "orphan_verdicts now u known c"
  have d: "distinct (ids (cl_world c))" using s by (simp add: stranded_def)
  have run: "\<exists>t. get_task (cl_world c) x = Some t \<and> task_state t = TRunning" if "(x, v) \<in> set ?vs" for x v
    using that get_task_distinct [OF d] by (fastforce simp: in_orphan_verdicts orphan_def)
  have "i \<notin> fst ` set ?vs" "k \<notin> fst ` set ?vs" using run stranded_rows [OF s] by force+
  moreover have "get_task (fold (orphan_write now) vs w) x = get_task w x" if "x \<notin> fst ` set vs" for x vs w
    using that by (induction vs arbitrary: w) (auto simp: get_orphan_write)
  moreover have "ids (fold (orphan_write now) vs w) = ids w" for vs w
  proof (induction vs arbitrary: w)
    case (Cons x vs)
    then show ?case by (cases x rule: orphan_event.cases) (simp_all add: keeps_id_def)
  qed simp
  moreover have "jobs (fold (orphan_write now) vs w) = jobs w" for vs w
  proof (induction vs arbitrary: w)
    case (Cons x vs)
    then show ?case by (cases x rule: orphan_event.cases) simp_all
  qed simp
  moreover have "\<not> reported i (map orphan_event ?vs)"
    unfolding reported_def in_orphan_events using \<open>i \<notin> fst ` set ?vs\<close> by force
  ultimately show ?thesis
    using s by (simp add: stranded_def reconcile_orphaned_db_tasks_def orphans_commit_def Let_def)
qed


text \<open>The completion check of one job, seen from the tasks that exist and from another job.\<close>

lemma schedule_tasks:
  assumes "fresh_ids env w"
  shows "tasks (schedule_post_processing env j params w) = tasks w
    \<or> (\<exists>rows n. new_rows w j rows \<and> n \<in> task_id ` set rows \<and>
         tasks (schedule_post_processing env j params w)
           = tasks (upd_task n (\<lambda>t. t\<lparr>task_state := TReady\<rparr>) (w\<lparr>tasks := tasks w @ rows\<rparr>)))"
proof -
  let ?loaded = "if truthy_opt (dget params ''model_pii_detect'')
     then [(''pii_detect'', the (dget params ''model_pii_detect''))] else []"
  show ?thesis
  proof (cases "build_post_processing_tasks (oe_uuid env) j params ?loaded")
    case (Inl x)
    then show ?thesis by (simp add: schedule_post_processing_def Let_def)
  next
    case (Inr ts)
    let ?rows = "map enrichment_row ts"
    have new: "new_rows w j ?rows" using new_post_rows [OF Inr assms] by blast
    obtain rest where ts: "ts = pii_detect_task (oe_uuid env 0) j params ?loaded # rest"
      using build_post_cases [OF Inr] by blast
    then have hd: "task_id (hd ts) \<in> task_id ` set ?rows" by simp
    have "tasks (schedule_post_processing env j params w) = tasks w
      \<or> tasks (schedule_post_processing env j params w)
           = tasks (upd_task (task_id (hd ts)) (\<lambda>t. t\<lparr>task_state := TReady\<rparr>) (w\<lparr>tasks := tasks w @ ?rows\<rparr>))"
      unfolding schedule_post_processing_def Let_def Inr sum.case
      by (auto simp: upd_task_def split: prod.split queue_outcome.split)
    then show ?thesis using new hd by blast
  qed
qed

lemma schedule_keeps_rows:
  assumes "fresh_ids env w" and "distinct (ids w)"
  shows "get_task w x = Some t \<Longrightarrow> get_task (schedule_post_processing env j params w) x = Some t"
    and "distinct (ids (schedule_post_processing env j params w))"
proof -
  let ?w' = "schedule_post_processing env j params w"
  consider (same) "tasks ?w' = tasks w"
    | (more) rows n where "new_rows w j rows" "n \<in> task_id ` set rows"
      "tasks ?w' = tasks (upd_task n (\<lambda>t. t\<lparr>task_state := TReady\<rparr>) (w\<lparr>tasks := tasks w @ rows\<rparr>))"
    using schedule_tasks [OF assms(1)] by blast
  then have "(get_task w x = Some t \<longrightarrow> get_task ?w' x = Some t) \<and> distinct (ids ?w')"
  proof cases
    case same
    then show ?thesis using assms(2) by (simp add: get_task_def ids_def)
  next
    case more
    let ?v = "w\<lparr>tasks := tasks w @ rows\<rparr>"
    have eq: "get_task ?w' x = get_task (upd_task n (\<lambda>t. t\<lparr>task_state := TReady\<rparr>) ?v) x"
      "ids ?w' = ids ?v"
      using more(3) by (simp add: get_task_def, simp add: ids_def upd_task_def comp_def if_distrib cong: if_cong)
    have "distinct (ids ?v)" using more(1) assms(2) by (auto simp: ids_def new_rows_def)
    moreover have "get_task ?w' x = Some t" if x: "get_task w x = Some t"
    proof -
      have "x \<noteq> n" using get_task_Some [OF x] more(1,2) by (force simp: new_rows_def)
      moreover have "get_task ?v x = Some t" using x by (simp add: get_task_def find_append)
      ultimately show ?thesis by (simp add: eq(1) keeps_id_def task_table.lookup_other)
    qed
    ultimately show ?thesis by (simp add: eq)
  qed
  then show "get_task w x = Some t \<Longrightarrow> get_task ?w' x = Some t" "distinct (ids ?w')" by simp_all
qed

lemma check_completion_frame:
  assumes "fresh_ids env w" and "distinct (ids w)"
  shows "get_task w x = Some t \<Longrightarrow> get_task (check_job_completion env j w) x = Some t"
    and "distinct (ids (check_job_completion env j w))"
    and "y \<noteq> j \<Longrightarrow> jobs (check_job_completion env j w) y = jobs w y"
proof -
  have fin: "jobs (finalise_job env j job job1 tr ps w) y = jobs w y" if "y \<noteq> j" for job job1 tr ps y
    using that by (simp add: finalise_job_def Let_def split: option.split)
  have fresh: "fresh_ids env (finalise_job env j job job1 tr ps w)" for job job1 tr ps
    using assms(1) by (simp add: fresh_ids_def)
  have same: "get_task (finalise_job env j job job1 tr ps w) x = get_task w x" for job job1 tr ps
    by (simp add: get_task_def)
  have d: "distinct (ids (finalise_job env j job job1 tr ps w))" for job job1 tr ps
    using assms(2) by (simp add: ids_def)
  note sched = schedule_keeps_rows [OF fresh d]
  have sj: "jobs (schedule_post_processing env j params v) = jobs v" for params v
    by (auto simp: schedule_post_processing_def Let_def split: option.split sum.split prod.split queue_outcome.split)
  have "(get_task w x = Some t \<longrightarrow> get_task (check_job_completion env j w) x = Some t)
      \<and> distinct (ids (check_job_completion env j w)) \<and> (y \<noteq> j \<longrightarrow> jobs (check_job_completion env j w) y = jobs w y)"
  proof (cases rule: check_job_completion_cases [of env j w])
    case idle
    then show ?thesis using assms(2) by simp
  next
    case (finish job job1 tr)
    show ?thesis
      unfolding finish(5) using sched same d fin by (simp add: sj)
  qed
  then show "get_task w x = Some t \<Longrightarrow> get_task (check_job_completion env j w) x = Some t"
    "distinct (ids (check_job_completion env j w))"
    "y \<noteq> j \<Longrightarrow> jobs (check_job_completion env j w) y = jobs w y"
    by simp_all
qed

lemma stranded_stuck:
  assumes s: "stranded j i k c" and "fresh_ids env (cl_world c)"
  shows "stranded j i k (recover_stuck_job env j' c)"
proof (cases "j' = j")
  case True
  obtain t where "get_task (cl_world c) k = Some t" "task_state t = TPending" "task_job_id t = j"
      "\<not> is_post_processing_task t" using s by (auto simp: stranded_def)
  then have "t \<in> set (filter (\<lambda>t. \<not> is_post_processing_task t) (job_tasks (cl_world c) j))"
      "task_state t \<notin> terminal_task_states"
    using get_task_Some by (auto simp: job_tasks_def terminal_task_states_def)
  then have "\<not> stuck_job (oe_now env) j (cl_world c)"
    unfolding stuck_job_def Let_def by blast
  then show ?thesis using s True by (simp add: recover_stuck_job_def)
next
  case False
  have d: "distinct (ids (cl_world c))" using s by (simp add: stranded_def)
  note F = check_completion_frame [OF assms(2) d]
  obtain a where "get_task (cl_world c) i = Some a" "task_state a = TFailed"
    using s by (auto simp: stranded_def)
  then show ?thesis
    using s F False by (auto simp: stranded_def recover_stuck_job_def dest: F(1))
qed


lemma repair_stranded: "repair c c' \<Longrightarrow> stranded j i k c \<Longrightarrow> stranded j i k c'"
proof (induction rule: repair.induct)
  case (scan_one c now q p)
  then show ?case
    by (auto simp: scan_entry_def stranded_scanner_fail split: option.split)
next
  case (scan_wait c now d x)
  show ?case
    by (rule stranded_frame [OF scan_wait])
      (auto simp: scan_waiting_def Let_def clear_waiting_marker_def xdel_def split: option.split)
next
  case (sweep_orphans c now u known)
  then show ?case by (rule stranded_orphans)
next
  case (sweep_finished c now by_stage)
  have ack: "cl_world (ack_if_finished now q x c) = cl_world c \<and> cl_log (ack_if_finished now q x c) = cl_log c" for q x c
    by (simp add: ack_if_finished_def ack_task_def split: option.split)
  have acks: "cl_world (fold (ack_if_finished now q) xs c) = cl_world c
      \<and> cl_log (fold (ack_if_finished now q) xs c) = cl_log c" for q xs c
    by (induction xs arbitrary: c) (simp_all add: ack)
  have "cl_world (reconcile_orphaned_pel_entries now by_stage c) = cl_world c
      \<and> cl_log (reconcile_orphaned_pel_entries now by_stage c) = cl_log c"
    unfolding reconcile_orphaned_pel_entries_def
    by (induction by_stage arbitrary: c) (auto simp: acks)
  then show ?case by (intro stranded_frame [OF sweep_finished]) simp_all
next
  case (sweep_stale c now q p)
  show ?case
    by (rule stranded_frame [OF sweep_stale])
      (auto simp: recover_stale_ready_def ack_task_def requeue_task_def Option.bind_eq_None_conv split: option.split)
next
  case (sweep_consumed c now t)
  show ?case
    by (rule stranded_frame [OF sweep_consumed])
      (auto simp: recover_consumed_def requeue_task_def Let_def split: option.split)
next
  case (sweep_stuck env c j')
  then show ?case by (intro stranded_stuck)
qed

text \<open>C25: the scanner commits a failure before it publishes it. When it stops in between, no sequence of
  repairs ever notices: the task stays failed, no event about it is published, the tasks after it
  stay pending, and its job stays running.\<close>

theorem unpublished_failure_strands_job:
  assumes "distinct (ids (cl_world c))" and "\<not> reported i (cl_log c)"
    and "map_option job_state (jobs (cl_world c) j) = Some JRunning"
    and "get_task (cl_world c) k = Some t" and "task_state t = TPending" and "task_job_id t = j"
    and "\<not> is_post_processing_task t"
    and "scanner_commit now i err c = Some c1" and "repair\<^sup>*\<^sup>* c1 c2"
  shows "map_option job_state (jobs (cl_world c2) j) = Some JRunning
    \<and> map_option task_state (get_task (cl_world c2) i) = Some TFailed
    \<and> map_option task_state (get_task (cl_world c2) k) = Some TPending
    \<and> TaskCompleted i \<notin> set (cl_log c2) \<and> (\<forall>e. TaskFailed i e \<notin> set (cl_log c2))"
proof -
  have "stranded j i k c1"
    using assms(1-8) by (auto simp: scanner_commit_def stranded_def keeps_id_def task_table.lookup_other
        split: option.splits if_splits)
  with assms(9) have "stranded j i k c2"
    by (induction rule: rtranclp_induct) (auto intro: repair_stranded)
  then show ?thesis by (auto simp: stranded_def reported_def)
qed

theorem unpublished_failure_strands_job_witness:
  "\<exists>c1. scanner_commit 4000 100 ''late'' (demo_cluster demo_started) = Some c1
     \<and> map_option job_state (jobs (cl_world (reconcile_orphaned_db_tasks 9000 (\<lambda>_. False) {} c1)) 7) = Some JRunning
     \<and> map_option task_state (get_task (cl_world (reconcile_orphaned_db_tasks 9000 (\<lambda>_. False) {} c1)) 101) = Some TPending"
proof -
  have w: "cl_world (demo_cluster demo_started) = demo_started" "cl_log (demo_cluster demo_started) = []"
    by (simp_all add: demo_cluster_def start_system_def)
  have c1: "scanner_commit 4000 100 ''late'' (demo_cluster demo_started) \<noteq> None"
    by (rule demo_started_row) (simp add: scanner_commit_def w)
  then obtain c1 where c1: "scanner_commit 4000 100 ''late'' (demo_cluster demo_started) = Some c1" by blast
  have "map_option (\<lambda>t. (task_state t, task_job_id t, is_post_processing_task t)) (get_task demo_started 101)
      = Some (TPending, 7, False)" by code_simp
  then obtain t where t: "get_task demo_started 101 = Some t" "task_state t = TPending" "task_job_id t = 7"
      "\<not> is_post_processing_task t" by auto
  have "distinct (ids demo_started)" "map_option job_state (jobs demo_started 7) = Some JRunning" by code_simp+
  moreover have "repair\<^sup>*\<^sup>* c1 (reconcile_orphaned_db_tasks 9000 (\<lambda>_. False) {} c1)"
    by (rule r_into_rtranclp) (rule sweep_orphans)
  ultimately show ?thesis
    using unpublished_failure_strands_job [of "demo_cluster demo_started" 100 7 101 t 4000 "''late''" c1,
        OF _ _ _ _ t(2-4) c1] t(1) c1
    by (simp add: w reported_def)
qed


section \<open>Waiting too long\<close>

lemma dget_hset:
  "distinct (map fst kvs) \<Longrightarrow> dget (task_metadata (hset i kvs q) j) k
     = (if j = i \<and> dget kvs k \<noteq> None then dget kvs k else dget (task_metadata q j) k)"
  by (auto simp: hset_def dget_dmerge split: option.split)

lemma blocked_begin:
  assumes "blocked (msg_task m) c"
  shows "cl_log (fst (begin_task env n m c)) = cl_log c \<and> acked_in (rn_queue env) n (begin_task env n m c)"
proof -
  have "metadata_of (msg_task m) c \<noteq> []" using assms by (auto simp: blocked_def truthy_opt_def)
  then show ?thesis
    using assms by (simp add: begin_task_def Let_def blocked_def acked_in_def clear_waiting_marker_def)
qed

text \<open>A task whose engine did not come in time is taken out of the queue for good. Once the deadline
  of a waiting task has passed and no engine holds its message, the scanner blocks the task,
  reports the timeout, deletes the message and clears the waiting marker; an engine that still
  gets hold of a message of the task acknowledges it without starting or reporting anything.\<close>

lemma waiting_timeout_blocks:
  assumes "dget (metadata_of i c) ''waiting_for_engine'' = Some (PStr ''true'')"
    and "parse_time (dget (metadata_of i c) ''wait_deadline_at'') = Some d" and "d < now"
    and "get_task (cl_world c) i = Some t" and "task_state t = TReady \<or> task_state t = TPending"
    and "field (metadata_of i c) ''queue_id'' = Some q" and "message_of (metadata_of i c) = Some n"
    and "n \<notin> pel_ids (cl_groups c q)" and "c' = scan_waiting now wait_s i c"
  shows "n \<in> cl_gone c' \<and> i \<notin> waiting_tasks (queues_of (cl_world c')) \<and> blocked i c'
    \<and> (\<exists>text. cl_log c' = cl_log c @ [TaskWaitTimeout i text])
    \<and> (\<forall>env k m. msg_task m = i \<longrightarrow> cl_log (fst (begin_task env k m c')) = cl_log c'
          \<and> acked_in (rn_queue env) k (begin_task env k m c'))"
proof -
  have "metadata_of i c \<noteq> []" using assms(1) by auto
  then obtain c1 why where c': "c' = clear_waiting_marker i (xdel n (publish (TaskWaitTimeout i why) c1))"
    and c1: "c1 = map_queues (hset i [(''blocked_reason'', PStr ''engine_wait_timeout''), (''blocked_at'', PFloat now)]) c"
    using assms by (auto simp: scan_waiting_def Let_def)
  have "blocked i c'"
    by (simp add: c' c1 blocked_def metadata_of_def clear_waiting_marker_def xdel_def dget_hdel waiting_fields_def
        dget_hset truthy_opt_def)
  moreover from this have "\<forall>env k m. msg_task m = i \<longrightarrow> cl_log (fst (begin_task env k m c')) = cl_log c'
      \<and> acked_in (rn_queue env) k (begin_task env k m c')"
    using blocked_begin by blast
  ultimately show ?thesis by (simp add: c' c1 clear_waiting_marker_def xdel_def)
qed

definition demo_waiting :: cluster where
  "demo_waiting = map_queues (\<lambda>q. (hset 100 [(''waiting_for_engine'', PStr ''true''), (''wait_deadline_at'', PFloat 400)] q)
     \<lparr>waiting_tasks := {100}\<rparr>) (demo_cluster (demo_created demo_oenv []))"

lemma waiting_timeout_blocks_example:
  "0 \<in> cl_gone (scan_waiting 500 300 100 demo_waiting) \<and> blocked 100 (scan_waiting 500 300 100 demo_waiting)"
proof -
  have "dget (metadata_of 100 demo_waiting) ''waiting_for_engine'' = Some (PStr ''true'')"
    "parse_time (dget (metadata_of 100 demo_waiting) ''wait_deadline_at'') = Some 400"
    "field (metadata_of 100 demo_waiting) ''queue_id'' = Some ''prep''" "message_of (metadata_of 100 demo_waiting) = Some 0"
    "0 \<notin> pel_ids (cl_groups demo_waiting ''prep'')"
    by code_simp+
  moreover have "map_option task_state (get_task (cl_world demo_waiting) 100) = Some TReady" by code_simp
  then obtain t where "get_task (cl_world demo_waiting) 100 = Some t" "task_state t = TReady" by auto
  ultimately show ?thesis
    using waiting_timeout_blocks [of 100 demo_waiting 400 500 t "''prep''" 0 _ 300] by simp
qed

section \<open>The time limit of an engine\<close>

definition no_time_limits :: "cluster \<Rightarrow> bool" where
  "no_time_limits c \<longleftrightarrow> (\<forall>i. dget (metadata_of i c) ''timeout_at'' = None)"

lemma no_limits_map:
  assumes "no_time_limits c" and "\<And>i. dget (task_metadata (f (queues_of (cl_world c))) i) ''timeout_at''
      = dget (metadata_of i c) ''timeout_at''"
  shows "no_time_limits (map_queues f c)"
  using assms by (simp add: no_time_limits_def metadata_of_def)

lemma no_limits_world: "cl_world c' = cl_world c \<Longrightarrow> no_time_limits c' = no_time_limits c"
  by (simp add: no_time_limits_def metadata_of_def)

lemma no_limits_queues: "queues_of (cl_world c') = queues_of (cl_world c) \<Longrightarrow> no_time_limits c' = no_time_limits c"
  by (simp add: no_time_limits_def metadata_of_def)

lemma no_limits_clear [simp]: "no_time_limits c \<Longrightarrow> no_time_limits (clear_waiting_marker i c)"
  unfolding clear_waiting_marker_def
  by (rule no_limits_map) (simp_all add: dget_hdel waiting_fields_def metadata_of_def)

lemma no_limits_hset:
  assumes "no_time_limits c" and "''timeout_at'' \<notin> fst ` set kvs" and "distinct (map fst kvs)"
  shows "no_time_limits (map_queues (hset i kvs) c)"
proof -
  have "dget kvs ''timeout_at'' = None" using assms(2) by (simp add: dget_def map_of_eq_None_iff)
  then show ?thesis using assms by (intro no_limits_map) (simp_all add: dget_hset metadata_of_def)
qed

lemma no_limits_frame [simp]:
  "no_time_limits (set_group q g c) = no_time_limits c" "no_time_limits (publish e c) = no_time_limits c"
  "no_time_limits (xdel n c) = no_time_limits c" "no_time_limits (ack_task q n c) = no_time_limits c"
  "no_time_limits (c\<lparr>cl_store := r\<rparr>) = no_time_limits c" "no_time_limits (c\<lparr>cl_outputs := o'\<rparr>) = no_time_limits c"
  by (simp_all add: no_time_limits_def metadata_of_def xdel_def ack_task_def)


lemma no_limits_step:
  assumes "system_step home s s'" and "no_time_limits (sys s)"
  shows "no_time_limits (sys s')"
  using assms
proof (induction rule: system_step.induct)
  case (handler s w)
  then show ?case
    using effect_queue_grows [OF handler.hyps]
    by (auto simp: no_time_limits_def metadata_of_def queue_grows_def same_fields_def kept_fields_def)
next
  case (engine i env s c p)
  have "no_time_limits (fst (run_step env (sys s, ph)))" for ph
    using engine.prems
    by (cases ph) (auto simp: poll_def begin_task_def work_def report_def settle_def Let_def publish_durable_event_def
        no_limits_world [OF read_task_keeps(3)] no_limits_world [OF read_own_keeps(3)] no_limits_world [OF claim_dead_keeps(3)]
        split: option.split run_result.split prod.split list.split)
  then show ?case using engine.hyps(2) by (metis fst_conv system.select_convs(1) system.surjective system.update_convs(1,2))
next
  case (scanner now i err s c)
  then show ?case
    by (auto simp: scanner_commit_def no_time_limits_def metadata_of_def split: option.splits if_splits)
next
  case (waiting s now d i)
  have "no_time_limits (map_queues (\<lambda>q. q\<lparr>waiting_tasks := waiting_tasks q - {i}\<rparr>) (sys s))"
    using waiting by (rule no_limits_map) (simp add: metadata_of_def)
  moreover have "no_time_limits (map_queues (hset i [(''blocked_reason'', PStr ''engine_wait_timeout''), (''blocked_at'', PFloat now)]) (sys s))"
    by (rule no_limits_hset [OF waiting]) simp_all
  ultimately show ?case
    using waiting by (auto simp: scan_waiting_def Let_def split: option.split)
next
  case (orphans s now u known)
  have "queues_of (fold (orphan_write now) vs w) = queues_of w" for vs w
  proof (induction vs arbitrary: w)
    case (Cons x vs)
    then show ?case by (cases x rule: orphan_event.cases) simp_all
  qed simp
  then have "no_time_limits (reconcile_orphaned_db_tasks now u known (sys s)) = no_time_limits (sys s)"
    by (intro no_limits_queues) (simp add: reconcile_orphaned_db_tasks_def orphans_commit_def Let_def)
  then show ?case using orphans by simp
next
  case (finished s now q i)
  then show ?case by (auto simp: ack_if_finished_def split: option.split)
next
  case (stale p now q s)
  then show ?case
    by (auto simp: recover_stale_ready_def requeue_task_def add_task_def Let_def no_time_limits_def metadata_of_def
        ack_task_def split: option.split)
next
  case (consumed t s now)
  let ?q = "recovery_queue (metadata_of (task_id t) (sys s)) t"
  have "no_time_limits (requeue_task now ?q t (sys s))"
    using consumed.prems by (simp add: requeue_task_def add_task_def Let_def no_time_limits_def metadata_of_def)
  then show ?case
    using consumed.prems
    by (auto simp: recover_consumed_def Let_def requeue_fields_def split: option.split intro!: no_limits_hset)
next
  case (stuck env s j)
  have "effects (cl_world (sys s)) (check_job_completion env j (cl_world (sys s)))"
    by (rule effects_check_completion [OF effects_refl stuck.hyps])
  then have "no_time_limits ((sys s)\<lparr>cl_world := check_job_completion env j (cl_world (sys s))\<rparr>)"
  proof (induction rule: rtranclp_induct)
    case base
    show ?case using stuck.prems by simp
  next
    case (step w1 w2)
    then show ?case
      using effect_queue_grows [OF step.hyps(2)]
      by (auto simp: no_time_limits_def metadata_of_def queue_grows_def same_fields_def kept_fields_def)
  qed
  then show ?case using stuck.prems by (simp add: recover_stuck_job_def)
qed simp_all

text \<open>The time limit of a task never reaches its engine. No step of the system writes \<open>timeout_at\<close> into
  the metadata of a task, where the engine looks for it, so in every reachable system the limit an
  engine works under is the default of an hour, whatever limit the queue computed.\<close>

lemma engine_time_limit_is_default:
  assumes "system_steps home start_system s"
  shows "get_task_timeout now (metadata_of i (sys s)) = DEFAULT_TASK_TIMEOUT"
proof -
  have "no_time_limits (sys s)"
    using assms
  proof (induction rule: rtranclp_induct)
    case base
    show ?case by (simp add: start_system_def no_time_limits_def metadata_of_def empty_world_def empty_queues_def)
  next
    case (step a b)
    then show ?case by (blast intro: no_limits_step)
  qed
  then show ?thesis by (simp add: get_task_timeout_def no_time_limits_def)
qed

lemma engine_time_limit_is_default_example:
  "get_task_timeout 110 (metadata_of 100 demo_taken) = 3600"
proof -
  have "DEFAULT_TASK_TIMEOUT = 3600" by (simp add: DEFAULT_TASK_TIMEOUT_def TASK_UNKNOWN_DURATION_TIMEOUT_S_def)
  then show ?thesis
    using engine_time_limit_is_default [OF demo_taken_reaches, of 110 100] by simp
qed


section \<open>A ready task whose message is gone\<close>

text \<open>A ready task whose message was delivered and dropped is queued again, once. The sweep appends
  exactly one message for it, on the queue its metadata names, which no engine has seen yet,
  points the metadata at it, and does nothing more when it runs again, at whatever time.\<close>

lemma consumed_message_requeued_once:
  assumes "consumed_message now t c = Some n" and "c' = recover_consumed now t c"
    and "delivered_to (cl_groups c (recovery_queue (metadata_of (task_id t) c) t)) \<le> length (log_of c)"
  shows "(\<exists>m. log_of c' = log_of c @ [m] \<and> msg_task m = task_id t \<and> msg_job m = task_job_id t
        \<and> msg_queue m = recovery_queue (metadata_of (task_id t) c) t
        \<and> delivered_to (cl_groups c' (msg_queue m)) \<le> length (log_of c))
    \<and> message_of (metadata_of (task_id t) c') = Some (length (log_of c))
    \<and> recover_consumed later t c' = c'"
proof -
  let ?i = "task_id t" and ?q = "recovery_queue (metadata_of (task_id t) c) t"
  have q: "?q \<noteq> []" using assms(1) by (auto simp: consumed_message_def Let_def split: option.splits if_splits)
  have c': "c' = map_queues (hset ?i (requeue_fields now ?q (length (log_of c)) n)) (requeue_task now ?q t c)"
    using assms(1,2) by (simp add: recover_consumed_def Let_def log_of_def)
  have str: "stream (hset i kvs qs) = stream qs" for i kvs qs by (simp add: hset_def)
  have meta: "dget (metadata_of ?i c') ''queue_id'' = Some (PStr ?q)"
    "dget (metadata_of ?i c') ''stream_message_id'' = Some (PInt (int (length (log_of c))))"
    by (simp_all add: c' metadata_of_def dget_hset requeue_fields_def)
  then have m: "message_of (metadata_of ?i c') = Some (length (log_of c))" and q': "recovery_queue (metadata_of ?i c') t = ?q"
    using q by (simp_all add: message_of_def recovery_queue_def field_def nonempty_def)
  have groups: "cl_groups c' = cl_groups c" by (simp add: c' requeue_task_def)
  have "consumed_message later t c' = None"
    using assms(3) by (simp add: consumed_message_def Let_def m q' groups)
  then have "recover_consumed later t c' = c'" by (simp add: recover_consumed_def)
  moreover have "\<exists>m. log_of c' = log_of c @ [m] \<and> msg_task m = task_id t \<and> msg_job m = task_job_id t \<and> msg_queue m = ?q"
    by (simp add: c' log_of_def str requeue_task_def add_task_def Let_def)
  ultimately show ?thesis using assms(3) m by (auto simp: groups)
qed

definition demo_dropped :: cluster where
  "demo_dropped = ack_task ''prep'' 0 demo_taken"

lemma consumed_message_requeued_once_example:
  "\<exists>t. get_task (cl_world demo_dropped) 100 = Some t
     \<and> length (log_of (recover_consumed 500 t demo_dropped)) = 2
     \<and> recover_consumed 900 t (recover_consumed 500 t demo_dropped) = recover_consumed 500 t demo_dropped"
proof -
  have "map_option (\<lambda>t. (consumed_message 500 t demo_dropped, recovery_queue (metadata_of (task_id t) demo_dropped) t))
      (get_task (cl_world demo_dropped) 100) = Some (Some 0, ''prep'')" by code_simp
  then obtain t where t: "get_task (cl_world demo_dropped) 100 = Some t" "consumed_message 500 t demo_dropped = Some 0"
    "recovery_queue (metadata_of (task_id t) demo_dropped) t = ''prep''" by auto
  have "delivered_to (cl_groups demo_dropped ''prep'') = 1" "length (log_of demo_dropped) = 1"
    unfolding log_of_def by code_simp+
  then show ?thesis
    using consumed_message_requeued_once [OF t(2) refl, of 900] t by auto
qed

section \<open>Stuck jobs\<close>

text \<open>A job that the sweep finds stuck is ended by it: it becomes completed or failed and its slot is
  released, and a second sweep finds nothing.\<close>

lemma stuck_job_ended:
  assumes "stuck_job (oe_now env) j (cl_world c)" and "c' = recover_stuck_job env j c"
  shows "(\<exists>r. jobs (cl_world c') j = Some r \<and> job_state r \<in> {JCompleted, JFailed})
    \<and> j \<in> decremented (cl_world c') \<and> recover_stuck_job env' j c' = c'"
proof -
  let ?w = "cl_world c"
  obtain r where r: "jobs ?w j = Some r" "job_state r = JRunning"
    and all: "all_terminal ?w j"
    using assms(1) by (auto simp: stuck_job_def Let_def all_terminal_def pipeline_tasks_def split: option.splits)
  have sj: "jobs (schedule_post_processing env j params v) = jobs v"
    "decremented (schedule_post_processing env j params v) = decremented v" for params v
    by (auto simp: schedule_post_processing_def Let_def set_enrichments_def mark_enrichment_status_def
        split: option.split sum.split prod.split queue_outcome.split)
  obtain job1 tr where o: "job_outcome env j r (job_tasks ?w j) (any_failed ?w j) = (job1, tr)" by (metis surj_pair)
  have st: "job_state job1 \<in> {JCompleted, JFailed}" using job_outcome_cases [OF o] by auto
  let ?w' = "check_job_completion env j ?w"
  have "(\<exists>r. jobs ?w' j = Some r \<and> job_state r \<in> {JCompleted, JFailed}) \<and> j \<in> decremented ?w'"
    using all r o st by (auto simp: check_job_completion_eq Let_def sj finalise_job_def split: option.split)
  moreover have "cl_world c' = ?w'" using assms by (simp add: recover_stuck_job_def)
  ultimately have *: "(\<exists>r. jobs (cl_world c') j = Some r \<and> job_state r \<in> {JCompleted, JFailed}) \<and> j \<in> decremented (cl_world c')"
    by simp
  then have "\<not> stuck_job now j (cl_world c')" for now by (auto simp: stuck_job_def Let_def)
  then show ?thesis using * by (simp add: recover_stuck_job_def)
qed

text \<open>The demo job with both tasks completed, as a crash before the completion check leaves it.\<close>

definition demo_stuck :: cluster where
  "demo_stuck = demo_cluster (upd_tasks (\<lambda>_. True)
     (\<lambda>t. t\<lparr>task_state := TCompleted, task_completed_at := Some 500\<rparr>) (demo_created demo_oenv []))"

definition demo_later :: oenv where
  "demo_later = (demo_oenv 400)\<lparr>oe_select := (demo_env None)\<lparr>se_now := 2000\<rparr>\<rparr>"

lemma stuck_job_ended_example:
  "\<exists>r. jobs (cl_world (recover_stuck_job demo_later 7 demo_stuck)) 7 = Some r \<and> job_state r \<in> {JCompleted, JFailed}"
proof -
  have "stuck_job (oe_now demo_later) 7 (cl_world demo_stuck)" by code_simp
  from stuck_job_ended [OF this refl] show ?thesis by blast
qed

section \<open>Stream identifiers\<close>

lemma parse_nat_str [simp]: "parse_nat (str_nat n) = Some n"
  using str_nat_digits by (auto simp: parse_nat_def list_all_iff)

lemma no_dash: "CHR ''-'' \<notin> set (str_nat n)"
proof
  assume "CHR ''-'' \<in> set (str_nat n)"
  then have "is_digit (CHR ''-'')" by (rule str_nat_digits)
  then show False by (simp add: is_digit_def)
qed

lemma split_dash_text [simp]: "split_dash (str_nat a @ CHR ''-'' # s) = Some (str_nat a, s)"
proof -
  have "\<forall>c \<in> set (str_nat a). c \<noteq> CHR ''-''" using no_dash by auto
  then show ?thesis by (simp add: split_dash_def takeWhile_append2 dropWhile_append2)
qed

text \<open>The comparison of stream identifiers is the order of the identifiers: a rendered identifier
  reads back as its two numbers, and one is at most another exactly when its numbers are, in
  lexicographic order.\<close>

lemma stream_id_order:
  "stream_id_to_tuple (stream_id_text a) = a
   \<and> (stream_id_lte (stream_id_text a) (stream_id_text b) \<longleftrightarrow> fst a < fst b \<or> (fst a = fst b \<and> snd a \<le> snd b))"
proof -
  have "stream_id_to_tuple (stream_id_text p) = p" for p
    by (simp add: stream_id_to_tuple_def stream_id_text_def)
  then show ?thesis by (auto simp: stream_id_lte_def less_eq_prod_def)
qed

end
