(* ===== verification/InstanceProps.thy ===== *)
theory InstanceProps
  imports InstanceHashes
begin

text \<open>
  What the registry's writers keep: a registered record reads back, liveness follows from a
  heartbeat, and what a lapse of the hash costs an instance that goes on sending heartbeats.
\<close>

section \<open>Hashes\<close>

lemma opt_field_keys: "k' \<in> fst ` set (opt_field k f x) \<longleftrightarrow> k' = k \<and> x \<noteq> None"
  by (auto simp: opt_field_def split: option.splits)

lemma opt_field_distinct [simp]: "distinct (map fst (opt_field k f x))"
  by (simp add: opt_field_def split: option.splits)

lemma dget_opt_field [simp]: "dget (opt_field k f x) j = (if j = k then map_option f x else None)"
  by (simp add: opt_field_def split: option.splits)

lemma dget_append: "dget (a @ b) k = (case dget a k of None \<Rightarrow> dget b k | Some v \<Rightarrow> Some v)"
  by (simp add: dget_def map_add_def map_of_append split: option.splits)

lemma distinct_map_append:
  "distinct (map fst (a @ b)) \<longleftrightarrow> distinct (map fst a) \<and> distinct (map fst b) \<and> (\<forall>k \<in> fst ` set a. k \<notin> fst ` set b)"
  by auto

lemma dget_None_iff: "dget d k = None \<longleftrightarrow> k \<notin> fst ` set d"
  by (simp add: dget_def map_of_eq_None_iff)

lemma beat_mapping_distinct: "distinct (map fst (beat_mapping now i b))"
  unfolding beat_mapping_def distinct_map_append set_append image_Un Un_iff Ball_def opt_field_keys
  by simp

lemma record_mapping_distinct: "distinct (map fst (record_to_mapping now r))"
  unfolding record_to_mapping_def distinct_map_append set_append image_Un Un_iff Ball_def opt_field_keys
  by simp

lemma dget_merge_beat:
  "dget (dmerge d (beat_mapping now i b)) k = (case dget (beat_mapping now i b) k of None \<Rightarrow> dget d k | Some v \<Rightarrow> Some v)"
  by (rule dget_dmerge [OF beat_mapping_distinct])

lemma dget_merge_record:
  "dget (dmerge d (record_to_mapping now r)) k = (case dget (record_to_mapping now r) k of None \<Rightarrow> dget d k | Some v \<Rightarrow> Some v)"
  by (rule dget_dmerge [OF record_mapping_distinct])

lemma dmerge_nonempty: "a \<noteq> [] \<Longrightarrow> dmerge a b \<noteq> []"
proof (induction a b rule: dmerge.induct)
  case (2 a k v b)
  have "dset k v a \<noteq> []" by (cases a) (auto simp: dset_def)
  then show ?case using 2 by simp
qed simp

lemma dset_nonempty [simp]: "dset k v a \<noteq> []"
  by (cases a) (auto simp: dset_def)

lemma dmerge_nonempty2: "b \<noteq> [] \<Longrightarrow> dmerge a b \<noteq> []"
  by (cases b) (auto simp: dmerge_nonempty)

lemma beat_nonempty [simp]: "dmerge d (beat_mapping now i b) \<noteq> []"
  by (rule dmerge_nonempty2) (simp add: beat_mapping_def)

lemma record_nonempty [simp]: "dmerge d (record_to_mapping now r) \<noteq> []"
  by (rule dmerge_nonempty2) (simp add: record_to_mapping_def)

lemma get_str_list_value [simp]: "get_str_list (Some (str_list xs)) = Some xs"
  by (simp add: str_list_def)

lemma get_str_list_map [simp]: "get_str_list (map_option str_list x) = x"
  by (cases x) simp_all

lemma get_str_map [simp]: "get_str (map_option PStr x) = x"
  by (cases x) simp_all

section \<open>Registration\<close>

lemma dget_record:
  "dget (record_to_mapping now r) ''instance'' = Some (PStr (instance_id r))"
  "dget (record_to_mapping now r) ''engine_id'' = Some (PStr (engine_id r))"
  "dget (record_to_mapping now r) ''stage'' = Some (PStr (engine_stage r))"
  "dget (record_to_mapping now r) ''status'' = Some (PStr (engine_status r))"
  "dget (record_to_mapping now r) ''interfaces'' = Some (str_list (interfaces r))"
  "dget (record_to_mapping now r) ''capacity'' = Some (PInt (capacity r))"
  "dget (record_to_mapping now r) ''active_batch'' = Some (PInt (active_batch r))"
  "dget (record_to_mapping now r) ''active_realtime'' = Some (PInt (active_realtime r))"
  "dget (record_to_mapping now r) ''gpu_memory_used'' = Some (PStr (er_gpu_used r))"
  "dget (record_to_mapping now r) ''gpu_memory_total'' = Some (PStr (er_gpu_total r))"
  "dget (record_to_mapping now r) ''last_heartbeat'' =
     Some (PFloat (case last_heartbeat r of Some t \<Rightarrow> t | None \<Rightarrow> now))"
  "dget (record_to_mapping now r) ''registered_at'' =
     Some (PFloat (case er_registered_at r of Some t \<Rightarrow> t | None \<Rightarrow> now))"
  "dget (record_to_mapping now r) ''supports_word_timestamps'' = Some (str_bool (er_word_timestamps r))"
  "dget (record_to_mapping now r) ''includes_diarization'' = Some (str_bool (er_includes_diarization r))"
  "dget (record_to_mapping now r) ''execution_profile'' = Some (PStr (er_execution_profile r))"
  "dget (record_to_mapping now r) ''hostname'' = Some (PStr (er_hostname r))"
  "dget (record_to_mapping now r) ''node_id'' = Some (PStr (er_node_id r))"
  "dget (record_to_mapping now r) ''deploy_env'' = Some (PStr (er_deploy_env r))"
  by (simp_all add: record_to_mapping_def)

lemma dget_record_optional:
  "dget (record_to_mapping now r) ''aws_az'' = map_option PStr (er_aws_az r)"
  "dget (record_to_mapping now r) ''aws_instance_type'' = map_option PStr (er_aws_instance_type r)"
  "dget (record_to_mapping now r) ''models_loaded'' = map_option str_list (models_loaded r)"
  "dget (record_to_mapping now r) ''endpoint'' = map_option PStr (er_endpoint r)"
  "dget (record_to_mapping now r) ''stream_name'' = map_option PStr (er_stream_name r)"
  "dget (record_to_mapping now r) ''capabilities'' = map_option dump_capabilities (capabilities r)"
  "dget (record_to_mapping now r) ''loaded_model'' = map_option PStr (er_loaded_model r)"
  "dget (record_to_mapping now r) ''vocabulary_support'' = map_option id (er_vocabulary r)"
  "dget (record_to_mapping now r) ''schema_version'' = map_option PStr (er_schema_version r)"
  by (simp_all add: record_to_mapping_def dget_append split: option.split)

text \<open>A registered engine reads back as it was registered: from an instance without a hash,
  the readers find under its instance id the record with every field, its capabilities parsed
  back from their JSON, and with the time of registration where the record has no heartbeat or
  registration time of its own.\<close>

lemma registered_record_reads_back:
  assumes "hash s (instance_id r) = []" and "engine_id r \<noteq> []" and "er_loaded_model r \<noteq> Some []"
  shows "stored_record (register now r s) (instance_id r) =
     Some (r\<lparr>last_heartbeat := Some (case last_heartbeat r of Some t \<Rightarrow> t | None \<Rightarrow> now),
             er_registered_at := Some (case er_registered_at r of Some t \<Rightarrow> t | None \<Rightarrow> now)\<rparr>)"
proof -
  have h: "hash (register now r s) (instance_id r) = dmerge [] (record_to_mapping now r)"
    by (simp add: register_def assms(1))
  have g: "dget (dmerge [] (record_to_mapping now r)) k = dget (record_to_mapping now r) k" for k
    by (simp add: dget_merge_record split: option.split)
  have caps: "Option.bind (map_option dump_capabilities x) parse_capabilities = x" for x
    by (cases x) simp_all
  have ne: "nonempty (er_loaded_model r) = er_loaded_model r" "nonempty (Some (engine_id r)) = Some (engine_id r)"
    using assms(2,3) by (simp_all add: nonempty_def)
  have flag: "str_bool b = PStr ''true'' \<longleftrightarrow> b" for b
    by (simp add: str_bool_def)
  show ?thesis
    unfolding stored_record_def h mapping_to_record_def g dget_record dget_record_optional
    by (cases r) (use ne in \<open>simp add: caps flag option.map_id\<close>)
qed

section \<open>A lapse of the hash\<close>

text \<open>Everything that can happen to the registry but a new registration of instance \<open>i\<close>.\<close>

inductive without_registration :: "string \<Rightarrow> instance_store \<Rightarrow> instance_store \<Rightarrow> bool" for i where
  nothing: "without_registration i s s"
| registered: "without_registration i s s1 \<Longrightarrow> instance_id r \<noteq> i \<Longrightarrow> without_registration i s (register now r s1)"
| beating: "without_registration i s s1 \<Longrightarrow> without_registration i s (heartbeat now k b s1)"
| deregistered: "without_registration i s s1 \<Longrightarrow> without_registration i s (deregister k s1)"
| offline: "without_registration i s s1 \<Longrightarrow> without_registration i s (mark_instance_offline k s1)"
| lapsed: "without_registration i s s1 \<Longrightarrow> without_registration i s (lapse k s1)"
| cleaned: "without_registration i s s1 \<Longrightarrow> without_registration i s (fst (cleanup_stale_engine_entries s1))"

text \<open>The fields only a registration writes.\<close>

definition registered_fields :: "string list" where
  "registered_fields = [''capabilities'', ''supports_word_timestamps'', ''includes_diarization'',
     ''execution_profile'', ''stream_name'']"

lemma beat_registered_fields: "k \<in> set registered_fields \<Longrightarrow> dget (beat_mapping now i b) k = None"
  unfolding dget_None_iff beat_mapping_def set_append image_Un Un_iff opt_field_keys
  by (auto simp: registered_fields_def)

lemma fields_stay_lost:
  assumes "without_registration i s s2" and "\<forall>k \<in> set registered_fields. dget (hash s i) k = None"
  shows "\<forall>k \<in> set registered_fields. dget (hash s2 i) k = None"
  using assms
proof (induction rule: without_registration.induct)
  case (beating s s1 now k b)
  then show ?case by (cases "i = k") (simp_all add: heartbeat_def dget_merge_beat beat_registered_fields)
next
  case (offline s s1 k)
  then show ?case by (auto simp: mark_instance_offline_def registered_fields_def)
qed (auto simp: register_def deregister_def lapse_def cleanup_stale_engine_entries_def Let_def)

lemma sadd_set [simp]: "set (sadd x s) = insert x (set s)"
  by (auto simp: sadd_def)

lemma srem_set [simp]: "set (srem x s) = set s - {x}"
  by (auto simp: srem_def)

lemma stays_hidden:
  assumes "without_registration i s s2" and "i \<notin> set (all_set s)"
  shows "i \<notin> set (all_set s2)"
  using assms
  by (induction rule: without_registration.induct)
    (auto simp: register_def heartbeat_def deregister_def mark_instance_offline_def lapse_def
      cleanup_stale_engine_entries_def Let_def)

lemma dget_runner_beat:
  "dget (beat_mapping now i (runner_beat r working rt st model gpu)) ''engine_id'' = Some (PStr (engine_id r))"
  "dget (beat_mapping now i (runner_beat r working rt st model gpu)) ''status'' = Some (PStr (runner_status working rt st))"
  "dget (beat_mapping now i (runner_beat r working rt st model gpu)) ''last_heartbeat'' = Some (PFloat now)"
  "dget (beat_mapping now i (runner_beat r working rt st model gpu)) ''stage'' = Some (PStr (engine_stage r))"
  "dget (beat_mapping now i (runner_beat r working rt st model gpu)) ''interfaces'' = Some (str_list (interfaces r))"
  by (simp_all add: beat_mapping_def runner_beat_def dget_append split: option.split)

lemma runner_beat_alive:
  assumes "st \<noteq> ''offline''" and "later - now < HEARTBEAT_TIMEOUT_SECONDS"
  shows "is_engine_alive later i (heartbeat now i (runner_beat r working rt st model gpu) s)"
proof -
  have "runner_status working rt st \<noteq> ''offline''" using assms(1) by (simp add: runner_status_def)
  then show ?thesis
    using assms(2) by (simp add: is_engine_alive_def heartbeat_def dget_merge_beat dget_runner_beat Let_def)
qed

lemma stored_after_beat:
  assumes "engine_id r \<noteq> []"
  shows "\<exists>q. stored_record (heartbeat now i (runner_beat r working rt st model gpu) s) i = Some q
     \<and> engine_id q = engine_id r \<and> engine_stage q = engine_stage r \<and> interfaces q = interfaces r"
  using assms
  by (simp add: stored_record_def heartbeat_def mapping_to_record_def dget_merge_beat dget_runner_beat nonempty_def)

lemma registered_only_record:
  assumes "\<forall>k \<in> set registered_fields. dget (hash s i) k = None" and "stored_record s i = Some q"
  shows "capabilities q = None \<and> \<not> er_word_timestamps q \<and> \<not> er_includes_diarization q
    \<and> er_execution_profile q = ''container'' \<and> er_stream_name q = None"
  using assms
  by (auto simp: stored_record_def mapping_to_record_def registered_fields_def split: if_splits option.splits)

text \<open>What one expiry of its hash costs an engine that keeps sending heartbeats. Once the
  sweeper has run, no sequence of heartbeats, cleanups and changes of other instances brings the
  instance back into the set that \<open>get_all\<close> and unfiltered \<open>get_available\<close> read, and its
  capabilities, its word-timestamp and diarization flags and its execution profile stay lost,
  although the next heartbeat makes it alive again and restores its engine, stage and interfaces:
  only a new registration heals it.\<close>

lemma lapsed_instance_not_healed:
  assumes "without_registration i (fst (cleanup_stale_engine_entries (lapse i s))) s1"
    and "engine_id r \<noteq> []" and "st \<noteq> ''offline''"
    and "s2 = heartbeat now i (runner_beat r working rt st model gpu) s1"
  shows "is_engine_alive now i s2 \<and> i \<notin> set (reg_all (registry_of s2))
    \<and> (\<exists>q. stored_record s2 i = Some q \<and> engine_id q = engine_id r \<and> engine_stage q = engine_stage r
         \<and> interfaces q = interfaces r \<and> capabilities q = None \<and> \<not> er_word_timestamps q
         \<and> \<not> er_includes_diarization q \<and> er_execution_profile q = ''container'')"
proof -
  let ?s0 = "fst (cleanup_stale_engine_entries (lapse i s))"
  have w2: "without_registration i ?s0 s2" unfolding assms(4) by (rule beating [OF assms(1)])
  have "i \<notin> set (all_set ?s0)" "\<forall>k \<in> set registered_fields. dget (hash ?s0 i) k = None"
    by (simp_all add: cleanup_stale_engine_entries_def lapse_def Let_def)
  then have hidden: "i \<notin> set (all_set s2)" and lost: "\<forall>k \<in> set registered_fields. dget (hash s2 i) k = None"
    using stays_hidden [OF w2] fields_stay_lost [OF w2] by blast+
  have "is_engine_alive now i s2"
    unfolding assms(4) by (rule runner_beat_alive [OF assms(3)]) (simp add: HEARTBEAT_TIMEOUT_SECONDS_def)
  moreover obtain q where "stored_record s2 i = Some q" "engine_id q = engine_id r"
      "engine_stage q = engine_stage r" "interfaces q = interfaces r"
    using stored_after_beat [OF assms(2)] assms(4) by blast
  ultimately show ?thesis
    using hidden registered_only_record [OF lost] by (auto simp: registry_of_def)
qed

section \<open>Witnesses\<close>

definition demo_caps :: engine_capabilities where
  "demo_caps = (default_capabilities ''nemo'' ''1'' [''transcribe''])
     \<lparr>supports_word_timestamps := True, rtf_gpu := Some (1/20), model_variants := Some [''parakeet'']\<rparr>"

definition demo_worker :: full_record where
  "demo_worker = \<lparr>instance_id = ''nemo-1'', engine_id = ''nemo'', engine_stage = ''transcribe'',
     engine_status = ''ready'', interfaces = [''batch'', ''realtime''], capacity = 4, active_batch = 0,
     active_realtime = 0, models_loaded = Some [''parakeet''], last_heartbeat = None,
     capabilities = Some demo_caps, er_word_timestamps = True, er_includes_diarization = False,
     er_endpoint = Some ''ws://worker'', er_stream_name = None, er_gpu_used = ''0GB'', er_gpu_total = ''24GB'',
     er_registered_at = None, er_loaded_model = None, er_execution_profile = ''container'',
     er_vocabulary = None, er_schema_version = Some ''2'', er_hostname = ''host'', er_node_id = ''node'',
     er_deploy_env = ''local'', er_aws_az = None, er_aws_instance_type = None\<rparr>"

definition empty_store :: instance_store where
  "empty_store = \<lparr>hash = (\<lambda>_. []), all_set = [], engine_sets = (\<lambda>_. []), stage_sets = (\<lambda>_. [])\<rparr>"

lemma registered_record_reads_back_example:
  "map_option capabilities (stored_record (register 100 demo_worker empty_store) ''nemo-1'') = Some (Some demo_caps)
   \<and> map_option last_heartbeat (stored_record (register 100 demo_worker empty_store) ''nemo-1'') = Some (Some 100)"
  using registered_record_reads_back [of empty_store demo_worker 100]
  by (simp add: demo_worker_def empty_store_def)

lemma lapsed_instance_not_healed_example:
  "is_engine_alive 400 ''nemo-1'' (heartbeat 400 ''nemo-1'' (runner_beat demo_worker False True ''idle'' None None)
     (fst (cleanup_stale_engine_entries (lapse ''nemo-1'' (register 100 demo_worker empty_store)))))
   \<and> ''nemo-1'' \<in> set (all_set (register 100 demo_worker empty_store))
   \<and> ''nemo-1'' \<notin> set (reg_all (registry_of (heartbeat 400 ''nemo-1'' (runner_beat demo_worker False True ''idle'' None None)
     (fst (cleanup_stale_engine_entries (lapse ''nemo-1'' (register 100 demo_worker empty_store)))))))"
  using lapsed_instance_not_healed [where r = demo_worker and st = "''idle''" and i = "''nemo-1''"
      and s = "register 100 demo_worker empty_store", OF without_registration.nothing _ _ refl]
  by (simp add: demo_worker_def register_def)

end
