(* ===== verification/Json.thy ===== *)
theory Json
  imports Models
begin

text \<open>
  The part of Python's \<open>json\<close> and \<open>uuid\<close> modules the event streams go through: \<open>json.dumps\<close>
  with its default separators and ASCII escapes, \<open>json.loads\<close>, and the text of a UUID with the
  forms \<open>UUID(text)\<close> accepts. Text is 8-bit, as everywhere in this development, so an escape of
  a larger code point, \<open>NaN\<close> and the infinities are outside the model; a decoded float is the
  exact rational of its digits, and how a float is rendered is the argument \<open>fl\<close>.
\<close>

section \<open>Rendering\<close>

definition quote :: char where "quote = CHR 0x22"
definition backslash :: char where "backslash = CHR 0x5C"

definition hex_digit :: "nat \<Rightarrow> char" where
  "hex_digit d = (if d < 10 then char_of (48 + d) else char_of (87 + d))"

fun hex_pad :: "nat \<Rightarrow> nat \<Rightarrow> string" where
  "hex_pad 0 n = []"
| "hex_pad (Suc w) n = hex_pad w (n div 16) @ [hex_digit (n mod 16)]"

definition escape :: "char \<Rightarrow> string" where
  "escape c = (let n = of_char c :: nat in
     if c = quote \<or> c = backslash then [backslash, c]
     else if n = 10 then [backslash, CHR ''n'']
     else if n = 13 then [backslash, CHR ''r'']
     else if n = 9 then [backslash, CHR ''t'']
     else if n = 12 then [backslash, CHR ''f'']
     else if n = 8 then [backslash, CHR ''b'']
     else if 32 \<le> n \<and> n \<le> 126 then [c]
     else backslash # CHR ''u'' # hex_pad 4 n)"

definition json_string :: "string \<Rightarrow> string" where
  "json_string s = quote # concat (map escape s) @ [quote]"

fun json_dumps :: "(rat \<Rightarrow> string) \<Rightarrow> pyval \<Rightarrow> string"
  and dump_items :: "(rat \<Rightarrow> string) \<Rightarrow> pyval list \<Rightarrow> string"
  and dump_members :: "(rat \<Rightarrow> string) \<Rightarrow> (string \<times> pyval) list \<Rightarrow> string" where
  "json_dumps fl PNone = ''null''"
| "json_dumps fl (PBool b) = (if b then ''true'' else ''false'')"
| "json_dumps fl (PInt i) = str_int i"
| "json_dumps fl (PFloat r) = fl r"
| "json_dumps fl (PStr s) = json_string s"
| "json_dumps fl (PList xs) = ''['' @ dump_items fl xs @ '']''"
| "json_dumps fl (PDict d) = ''{'' @ dump_members fl d @ ''}''"
| "dump_items fl [] = []"
| "dump_items fl [x] = json_dumps fl x"
| "dump_items fl (x # y # xs) = json_dumps fl x @ '', '' @ dump_items fl (y # xs)"
| "dump_members fl [] = []"
| "dump_members fl [(k, v)] = json_string k @ '': '' @ json_dumps fl v"
| "dump_members fl ((k, v) # m # ms) = json_string k @ '': '' @ json_dumps fl v @ '', '' @ dump_members fl (m # ms)"

section \<open>Reading\<close>

definition json_space :: "char \<Rightarrow> bool" where
  "json_space c \<longleftrightarrow> (of_char c :: nat) \<in> {32, 9, 10, 13}"

definition skip :: "string \<Rightarrow> string" where
  "skip = dropWhile json_space"

definition hex_value :: "char \<Rightarrow> nat option" where
  "hex_value c = (let n = of_char c :: nat in
     if 48 \<le> n \<and> n \<le> 57 then Some (n - 48)
     else if 97 \<le> n \<and> n \<le> 102 then Some (n - 87)
     else if 65 \<le> n \<and> n \<le> 70 then Some (n - 55)
     else None)"

fun hex_from :: "nat \<Rightarrow> string \<Rightarrow> nat option" where
  "hex_from a [] = Some a"
| "hex_from a (c # cs) = (case hex_value c of None \<Rightarrow> None | Some d \<Rightarrow> hex_from (16 * a + d) cs)"

definition unescape :: "char \<Rightarrow> char option" where
  "unescape c =
     (if c = quote \<or> c = backslash \<or> c = CHR ''/'' then Some c
      else if c = CHR ''n'' then Some (char_of (10::nat))
      else if c = CHR ''r'' then Some (char_of (13::nat))
      else if c = CHR ''t'' then Some (char_of (9::nat))
      else if c = CHR ''f'' then Some (char_of (12::nat))
      else if c = CHR ''b'' then Some (char_of (8::nat))
      else None)"

text \<open>The rest of a string after its opening quote.\<close>

fun scan_string :: "string \<Rightarrow> (string \<times> string) option" where
  "scan_string [] = None"
| "scan_string (c # cs) =
     (if c = quote then Some ([], cs)
      else if c = backslash
      then (case cs of
              [] \<Rightarrow> None
            | e # cs1 \<Rightarrow>
                if e = CHR ''u''
                then (case cs1 of
                        a # b # c' # d # cs2 \<Rightarrow>
                          (case hex_from 0 [a, b, c', d] of
                             None \<Rightarrow> None
                           | Some n \<Rightarrow> if n > 255 then None
                               else map_option (map_prod (Cons (char_of n)) id) (scan_string cs2))
                      | _ \<Rightarrow> None)
                else (case unescape e of
                        None \<Rightarrow> None
                      | Some x \<Rightarrow> map_option (map_prod (Cons x) id) (scan_string cs1)))
      else if (of_char c :: nat) < 32 then None
      else map_option (map_prod (Cons c) id) (scan_string cs))"

text \<open>A number: an optional sign, digits without a leading zero, then possibly a fraction and an
  exponent, each taken only when it has a digit.\<close>

definition split_fraction :: "string \<Rightarrow> string \<times> string" where
  "split_fraction s =
     (case s of
        c # cs \<Rightarrow> (let ds = takeWhile is_digit cs in
                   if c = CHR ''.'' \<and> ds \<noteq> [] then (ds, drop (length ds) cs) else ([], s))
      | [] \<Rightarrow> ([], []))"

definition split_exponent :: "string \<Rightarrow> int option \<times> string" where
  "split_exponent s =
     (case s of
        c # cs \<Rightarrow>
          (let (neg, rest) = (case cs of
                 x # xs \<Rightarrow> if x = CHR ''-'' then (True, xs) else if x = CHR ''+'' then (False, xs) else (False, cs)
               | [] \<Rightarrow> (False, []));
               ds = takeWhile is_digit rest
           in if (c = CHR ''e'' \<or> c = CHR ''E'') \<and> ds \<noteq> []
              then (Some (if neg then - int (digits_val ds) else int (digits_val ds)), drop (length ds) rest)
              else (None, s))
      | [] \<Rightarrow> (None, []))"

definition pow_ten :: "int \<Rightarrow> rat" where
  "pow_ten e = (if e < 0 then 1 / 10 ^ nat (- e) else 10 ^ nat e)"

definition scan_number :: "string \<Rightarrow> (pyval \<times> string) option" where
  "scan_number s =
     (let (neg, s1) = (case s of c # cs \<Rightarrow> if c = CHR ''-'' then (True, cs) else (False, s) | [] \<Rightarrow> (False, []));
          ds = takeWhile is_digit s1;
          whole = (if take 1 ds = ''0'' then ''0'' else ds);
          s2 = drop (length whole) s1
      in if whole = [] then None
         else (let (frac, s3) = split_fraction s2;
                   (ex, s4) = split_exponent s3
               in if frac = [] \<and> ex = None
                  then Some (PInt (if neg then - int (digits_val whole) else int (digits_val whole)), s2)
                  else (let m = (of_nat (digits_val (whole @ frac)) / 10 ^ length frac) * pow_ten (case ex of Some e \<Rightarrow> e | None \<Rightarrow> 0)
                        in Some (PFloat (if neg then - m else m), s4))))"

definition literal :: "string \<Rightarrow> string \<Rightarrow> string option" where
  "literal w s = (if take (length w) s = w then Some (drop (length w) s) else None)"

text \<open>Values, with the nesting still allowed: no text nests deeper than it is long.\<close>

fun scan_value :: "nat \<Rightarrow> string \<Rightarrow> (pyval \<times> string) option"
  and scan_items :: "nat \<Rightarrow> pyval list \<Rightarrow> string \<Rightarrow> (pyval list \<times> string) option"
  and scan_members :: "nat \<Rightarrow> dict \<Rightarrow> string \<Rightarrow> (dict \<times> string) option" where
  "scan_value 0 s = None"
| "scan_value (Suc n) s =
     (case s of
        [] \<Rightarrow> None
      | c # cs \<Rightarrow>
          if c = quote then map_option (map_prod PStr id) (scan_string cs)
          else if c = CHR ''{''
          then (if take 1 (skip cs) = ''}'' then Some (PDict [], drop 1 (skip cs))
                else map_option (map_prod PDict id) (scan_members n [] (skip cs)))
          else if c = CHR ''[''
          then (if take 1 (skip cs) = '']'' then Some (PList [], drop 1 (skip cs))
                else map_option (map_prod PList id) (scan_items n [] (skip cs)))
          else (case literal ''null'' s of Some r \<Rightarrow> Some (PNone, r)
                | None \<Rightarrow> (case literal ''true'' s of Some r \<Rightarrow> Some (PBool True, r)
                | None \<Rightarrow> (case literal ''false'' s of Some r \<Rightarrow> Some (PBool False, r)
                | None \<Rightarrow> scan_number s))))"
| "scan_items 0 acc s = None"
| "scan_items (Suc n) acc s =
     (case scan_value n s of
        None \<Rightarrow> None
      | Some (v, r) \<Rightarrow>
          (case skip r of
             c # cs \<Rightarrow>
               if c = CHR '']'' then Some (acc @ [v], cs)
               else if c = CHR '','' then scan_items n (acc @ [v]) (skip cs)
               else None
           | [] \<Rightarrow> None))"
| "scan_members 0 acc s = None"
| "scan_members (Suc n) acc s =
     (case s of
        [] \<Rightarrow> None
      | q # cs \<Rightarrow>
          if q \<noteq> quote then None
          else (case scan_string cs of
                  None \<Rightarrow> None
                | Some (k, r) \<Rightarrow>
                    (case skip r of
                       [] \<Rightarrow> None
                     | colon # r1 \<Rightarrow>
                         if colon \<noteq> CHR '':'' then None
                         else (case scan_value n (skip r1) of
                                 None \<Rightarrow> None
                               | Some (v, r2) \<Rightarrow>
                                   (case skip r2 of
                                      c # cs' \<Rightarrow>
                                        if c = CHR ''}'' then Some (dset k v acc, cs')
                                        else if c = CHR '','' then scan_members n (dset k v acc) (skip cs')
                                        else None
                                    | [] \<Rightarrow> None)))))"

text \<open>\<open>json.loads\<close>: one value, and nothing but white space around it; \<open>None\<close> is \<open>JSONDecodeError\<close>.\<close>

definition json_loads :: "string \<Rightarrow> pyval option" where
  "json_loads s =
     (case scan_value (2 * length s + 2) (skip s) of
        Some (v, r) \<Rightarrow> if skip r = [] then Some v else None
      | None \<Rightarrow> None)"

section \<open>UUIDs\<close>

text \<open>\<open>str(UUID)\<close>: 32 hexadecimal digits in groups of 8, 4, 4, 4 and 12.\<close>

definition uuid_text :: "uuid \<Rightarrow> string" where
  "uuid_text i = (let h = hex_pad 32 i in
     take 8 h @ ''-'' @ take 4 (drop 8 h) @ ''-'' @ take 4 (drop 12 h) @ ''-'' @ take 4 (drop 16 h) @ ''-'' @ drop 20 h)"

text \<open>\<open>str.replace(w, "")\<close> for a non-empty word.\<close>

fun remove_word :: "nat \<Rightarrow> string \<Rightarrow> string \<Rightarrow> string" where
  "remove_word 0 w s = s"
| "remove_word (Suc n) w [] = []"
| "remove_word (Suc n) w (c # cs) =
     (if take (length w) (c # cs) = w then remove_word n w (drop (length w) (c # cs))
      else c # remove_word n w cs)"

definition strip_braces :: "string \<Rightarrow> string" where
  "strip_braces s = (let brace = (\<lambda>c. c = CHR ''{'' \<or> c = CHR ''}'')
     in rev (dropWhile brace (rev (dropWhile brace s))))"

text \<open>\<open>int(text, 16)\<close>: white space around it, a sign, \<open>0x\<close>, and single underscores between digits are
  allowed.\<close>

fun hex_groups :: "bool \<Rightarrow> nat \<Rightarrow> string \<Rightarrow> nat option" where
  "hex_groups ready a [] = (if ready then Some a else None)"
| "hex_groups ready a (c # cs) =
     (if c = CHR ''_'' then (if ready then (case cs of [] \<Rightarrow> None | _ \<Rightarrow> hex_groups False a cs) else None)
      else (case hex_value c of None \<Rightarrow> None | Some d \<Rightarrow> hex_groups True (16 * a + d) cs))"

definition int_base16 :: "string \<Rightarrow> int option" where
  "int_base16 text =
     (let s = str_strip text;
          (neg, s1) = (case s of c # cs \<Rightarrow> if c = CHR ''-'' then (True, cs) else if c = CHR ''+'' then (False, cs) else (False, s)
                       | [] \<Rightarrow> (False, []));
          (pre, s2) = (if take 2 s1 = ''0x'' \<or> take 2 s1 = ''0X'' then (True, drop 2 s1) else (False, s1));
          s3 = (if pre \<and> take 1 s2 = ''_'' then drop 1 s2 else s2)
      in map_option (\<lambda>n. if neg then - int n else int n) (hex_groups False 0 s3))"

definition parse_uuid :: "string \<Rightarrow> uuid option" where
  "parse_uuid s =
     (let s1 = remove_word (length s) ''urn:'' s;
          s2 = remove_word (length s1) ''uuid:'' s1;
          h = filter (\<lambda>c. c \<noteq> CHR ''-'') (strip_braces s2)
      in if length h \<noteq> 32 then None
         else (case int_base16 h of
                 None \<Rightarrow> None
               | Some n \<Rightarrow> if 0 \<le> n \<and> n < 2 ^ 128 then Some (nat n) else None))"

end
