(* ===== verification/JsonProps.thy ===== *)
theory JsonProps
  imports Json
begin

text \<open>
  Reading back what was rendered: strings, numbers, whole values and UUIDs.
\<close>

section \<open>Hexadecimal digits\<close>

lemma hex_value_digit [simp]: "d < 16 \<Longrightarrow> hex_value (hex_digit d) = Some d"
  by (auto simp: hex_value_def hex_digit_def Let_def)

lemma length_hex_pad [simp]: "length (hex_pad w n) = w"
  by (induction w arbitrary: n) simp_all

lemma hex_from_append: "hex_from a (xs @ ys) = (case hex_from a xs of None \<Rightarrow> None | Some b \<Rightarrow> hex_from b ys)"
  by (induction xs arbitrary: a) (auto split: option.split)

lemma hex_from_pad: "hex_from a (hex_pad w n) = Some (16 ^ w * a + n mod 16 ^ w)"
proof (induction w arbitrary: n)
  case (Suc w)
  have "16 * (n div 16 mod 16 ^ w) + n mod 16 = n mod (16 ^ Suc w)"
    by (simp add: mod_mult2_eq)
  then show ?case using Suc by (simp add: hex_from_append algebra_simps)
qed simp

section \<open>Strings\<close>

lemma char_cases: "P (char_of n :: char) \<Longrightarrow> (of_char c :: nat) = n \<Longrightarrow> P c"
  by (metis char_of_char)

lemma of_char_eq: "(of_char c :: nat) = n \<longleftrightarrow> n < 256 \<and> c = char_of n"
  by auto

lemma four_long: "length xs = 4 \<Longrightarrow> \<exists>a b c d. xs = [a, b, c, d]"
  by (auto simp: eval_nat_numeral length_Suc_conv)

lemma scan_escape: "scan_string (escape c @ rest) = map_option (map_prod (Cons c) id) (scan_string rest)"
proof -
  let ?n = "of_char c :: nat"
  have b: "backslash \<noteq> quote" by (simp add: backslash_def quote_def)
  consider "c = quote \<or> c = backslash" | "?n \<in> {10, 13, 9, 12, 8}" "c \<noteq> quote" "c \<noteq> backslash"
    | "32 \<le> ?n" "?n \<le> 126" "c \<noteq> quote" "c \<noteq> backslash"
    | "c \<noteq> quote" "c \<noteq> backslash" "?n \<notin> {10, 13, 9, 12, 8}" "\<not> (32 \<le> ?n \<and> ?n \<le> 126)" by auto
  then show ?thesis
  proof cases
    case 1
    then have "escape c = [backslash, c]" "unescape c = Some c" "c \<noteq> CHR ''u''"
      by (auto simp: escape_def unescape_def quote_def backslash_def)
    then show ?thesis using b by simp
  next
    case 2
    then consider "c = char_of (10::nat)" | "c = char_of (13::nat)" | "c = char_of (9::nat)"
      | "c = char_of (12::nat)" | "c = char_of (8::nat)" by (auto simp: of_char_eq)
    then have "\<exists>e. escape c = [backslash, e] \<and> unescape e = Some c \<and> e \<noteq> CHR ''u''"
    proof cases
      case 1
      then show ?thesis by (intro exI [of _ "CHR ''n''"]) (simp, code_simp)
    next
      case 2
      then show ?thesis by (intro exI [of _ "CHR ''r''"]) (simp, code_simp)
    next
      case 3
      then show ?thesis by (intro exI [of _ "CHR ''t''"]) (simp, code_simp)
    next
      case 4
      then show ?thesis by (intro exI [of _ "CHR ''f''"]) (simp, code_simp)
    next
      case 5
      then show ?thesis by (intro exI [of _ "CHR ''b''"]) (simp, code_simp)
    qed
    then show ?thesis using b by auto
  next
    case 3
    then show ?thesis by (auto simp: escape_def Let_def)
  next
    case 4
    have "?n < 256" by simp
    then have n: "?n < 256" "\<not> 255 < ?n" by linarith+
    obtain a b' c' d where h: "hex_pad 4 ?n = [a, b', c', d]"
      using four_long [OF length_hex_pad] by blast
    have "hex_from 0 [a, b', c', d] = Some ?n"
      using hex_from_pad [of 0 4 ?n] n by (simp flip: h)
    then show ?thesis using 4 b n h by (simp add: escape_def Let_def del: hex_from.simps)
  qed
qed

lemma scan_json_string: "scan_string (concat (map escape s) @ quote # rest) = Some (s, rest)"
  by (induction s) (simp_all add: scan_escape)

section \<open>Numbers\<close>

text \<open>What may follow a value inside a rendered text.\<close>

definition closes :: "string \<Rightarrow> bool" where
  "closes r \<longleftrightarrow> r = [] \<or> hd r \<in> {CHR '','', CHR '']'', CHR ''}''}"

lemma str_nat_head: "n \<noteq> 0 \<Longrightarrow> take 1 (str_nat n) \<noteq> ''0''"
proof (induction n rule: str_nat.induct)
  case (1 n)
  show ?case
  proof (cases "n < 10")
    case True
    then have "(of_char (digit_char n) :: nat) = 48 + n" by (simp add: digit_char_def)
    moreover have "(of_char (CHR ''0'') :: nat) = 48" by simp
    ultimately have "digit_char n \<noteq> CHR ''0''" using 1(2) by (metis add_eq_self_zero)
    then show ?thesis using True by (simp add: str_nat.simps [of n])
  next
    case False
    then have "take 1 (str_nat (n div 10)) \<noteq> ''0''" using 1 by simp
    moreover have "take 1 (str_nat n) = take 1 (str_nat (n div 10))"
      using False str_nat_nonempty [of "n div 10"] by (cases "str_nat (n div 10)") (simp_all add: str_nat.simps [of n])
    ultimately show ?thesis by simp
  qed
qed

lemma closes_not_digit: "closes r \<Longrightarrow> takeWhile is_digit r = []"
  by (cases r) (auto simp: closes_def is_digit_def Let_def)

lemma takeWhile_digits: "closes r \<Longrightarrow> takeWhile is_digit (str_nat n @ r) = str_nat n"
  using str_nat_digits by (subst takeWhile_append2) (auto simp: closes_not_digit)

lemma closes_plain: "closes r \<Longrightarrow> split_fraction r = ([], r) \<and> split_exponent r = (None, r)"
  by (cases r) (auto simp: closes_def split_fraction_def split_exponent_def Let_def split: list.splits)

lemma scan_nat:
  assumes "closes r"
  shows "scan_number (str_nat n @ r) = Some (PInt (int n), r)"
    and "scan_number (CHR ''-'' # str_nat n @ r) = Some (PInt (- int n), r)"
proof -
  have whole: "(if take (Suc 0) (str_nat n) = ''0'' then ''0'' else str_nat n) = str_nat n"
    using str_nat_head [of n] by (cases "n = 0") (simp_all add: str_nat.simps digit_char_def)
  have val: "digits_val (if take (Suc 0) (str_nat n) = ''0'' then ''0'' else str_nat n) = n" unfolding whole by simp
  have nd: "CHR ''-'' \<notin> set (str_nat n)"
    using str_nat_digits [of "CHR ''-''" n] by (auto simp: is_digit_def Let_def)
  obtain c cs where s: "str_nat n = c # cs" using str_nat_nonempty [of n] by (cases "str_nat n") auto
  have c: "c \<noteq> CHR ''-''" using nd s by auto
  note t = takeWhile_digits [OF assms, of n]
  show "scan_number (CHR ''-'' # str_nat n @ r) = Some (PInt (- int n), r)"
    unfolding scan_number_def Let_def list.case if_P [OF refl] prod.case t One_nat_def whole
    using closes_plain [OF assms] by simp
  have cond: "(case str_nat n @ r of c # cs \<Rightarrow> if c = CHR ''-'' then (True, cs) else (False, str_nat n @ r) | [] \<Rightarrow> (False, []))
      = (False, str_nat n @ r)" using c by (simp add: s)
  show "scan_number (str_nat n @ r) = Some (PInt (int n), r)"
    unfolding scan_number_def cond Let_def prod.case t One_nat_def whole
    using closes_plain [OF assms] by simp
qed

lemma scan_int: "closes r \<Longrightarrow> scan_number (str_int i @ r) = Some (PInt i, r)"
  using scan_nat [of r "nat (- i)"] scan_nat [of r "nat i"] by (simp add: str_int_def)


section \<open>Values\<close>

text \<open>Values without floats, whose dictionaries have distinct keys.\<close>

fun plain :: "pyval \<Rightarrow> bool" where
  "plain (PFloat _) = False"
| "plain (PList xs) = (\<forall>x \<in> set xs. plain x)"
| "plain (PDict d) = (distinct (map fst d) \<and> (\<forall>(k, v) \<in> set d. plain v))"
| "plain _ = True"

lemma skip_id: "(case s of [] \<Rightarrow> True | c # cs \<Rightarrow> \<not> json_space c) \<Longrightarrow> skip s = s"
  by (cases s) (simp_all add: skip_def)

lemma skip_space [simp]: "skip (CHR '' '' # s) = skip s"
  by (simp add: skip_def json_space_def)

lemma dset_end: "k \<notin> set (map fst d) \<Longrightarrow> dset k v d = d @ [(k, v)]"
  unfolding dset_def by (induction d) auto

text \<open>How a rendered value starts: never with white space, a closing bracket or nothing.\<close>

definition opens :: "char \<Rightarrow> bool" where
  "opens c \<longleftrightarrow> \<not> json_space c \<and> c \<notin> {CHR ''}'', CHR '']''}"

lemma digit_opens: "is_digit c \<Longrightarrow> opens c"
  by (auto simp: opens_def is_digit_def json_space_def Let_def)

lemma str_nat_opens: "\<exists>c cs. str_nat n = c # cs \<and> opens c"
  using str_nat_digits [of "hd (str_nat n)" n] digit_opens by (cases "str_nat n") auto

lemma dumps_opens: "plain v \<Longrightarrow> \<exists>c cs. json_dumps fl v = c # cs \<and> opens c"
proof (cases v)
  case (PInt i)
  show ?thesis
    using str_nat_opens [of "nat i"] by (cases "i < 0") (auto simp: PInt str_int_def opens_def json_space_def)
qed (auto simp: json_string_def opens_def json_space_def quote_def)


lemma skip_opens: "opens c \<Longrightarrow> skip (c # s) = c # s"
  by (simp add: skip_def opens_def)

lemma skip_close [simp]:
  "skip (CHR '','' # s) = CHR '','' # s" "skip (CHR '']'' # s) = CHR '']'' # s"
  "skip (CHR ''}'' # s) = CHR ''}'' # s" "skip (CHR '':'' # s) = CHR '':'' # s"
  by (simp_all add: skip_def json_space_def)

lemma quote_opens: "opens quote"
  by (simp add: opens_def json_space_def quote_def)

lemma closes_simps [simp]:
  "closes (CHR '','' # r)" "closes (CHR '']'' # r)" "closes (CHR ''}'' # r)" "closes []"
  by (simp_all add: closes_def)

lemma literal_other: "c \<noteq> d \<Longrightarrow> literal (d # w) (c # cs) = None"
  by (simp add: literal_def)

lemma scan_value_number:
  assumes "is_digit c \<or> c = CHR ''-''"
  shows "scan_value (Suc n) (c # cs) = scan_number (c # cs)"
proof -
  have "c \<notin> {quote, CHR ''{'', CHR ''['', CHR ''n'', CHR ''t'', CHR ''f''}"
    using assms by (auto simp: is_digit_def quote_def Let_def)
  then show ?thesis by (simp add: literal_other)
qed

lemma scan_value_int: "closes r \<Longrightarrow> scan_value (Suc n) (str_int i @ r) = Some (PInt i, r)"
proof -
  assume r: "closes r"
  have "\<exists>c cs. str_int i = c # cs \<and> (is_digit c \<or> c = CHR ''-'')"
  proof (cases "i < 0")
    case False
    then show ?thesis
      using str_nat_digits [of "hd (str_nat (nat i))" "nat i"] by (cases "str_nat (nat i)") (auto simp: str_int_def)
  qed (simp add: str_int_def)
  then show ?thesis using scan_int [OF r, of i] scan_value_number by fastforce
qed

lemma skip_dumps: "plain v \<Longrightarrow> skip (json_dumps fl v @ r) = json_dumps fl v @ r"
  using dumps_opens [of v fl] skip_opens by fastforce

lemma skip_items: "xs \<noteq> [] \<Longrightarrow> \<forall>x \<in> set xs. plain x \<Longrightarrow> skip (dump_items fl xs @ r) = dump_items fl xs @ r
    \<and> take 1 (dump_items fl xs @ r) \<noteq> '']''"
proof -
  assume "xs \<noteq> []" "\<forall>x \<in> set xs. plain x"
  then obtain c cs where "dump_items fl xs = c # cs" "opens c"
    using dumps_opens [of "hd xs" fl] by (cases "(fl, xs)" rule: dump_items.cases) fastforce+
  then show ?thesis using skip_opens by (auto simp: opens_def)
qed

lemma skip_members: "d \<noteq> [] \<Longrightarrow> skip (dump_members fl d @ r) = dump_members fl d @ r
    \<and> take 1 (dump_members fl d @ r) \<noteq> ''}''"
proof -
  assume "d \<noteq> []"
  then obtain cs where "dump_members fl d = quote # cs"
    by (cases "(fl, d)" rule: dump_members.cases) (auto simp: json_string_def)
  then show ?thesis using skip_opens [OF quote_opens] by (simp add: quote_def)
qed

lemma scan_dumps:
  "plain v \<Longrightarrow> closes r \<Longrightarrow> length (json_dumps fl v) \<le> n \<Longrightarrow>
     scan_value (Suc n) (json_dumps fl v @ r) = Some (v, r)"
  "xs \<noteq> [] \<Longrightarrow> \<forall>x \<in> set xs. plain x \<Longrightarrow> Suc (length (dump_items fl xs)) \<le> n \<Longrightarrow>
     scan_items (Suc n) acc (dump_items fl xs @ CHR '']'' # r) = Some (acc @ xs, r)"
  "d \<noteq> [] \<Longrightarrow> distinct (map fst (acc' @ d)) \<Longrightarrow> \<forall>(k, v) \<in> set d. plain v \<Longrightarrow> Suc (length (dump_members fl d)) \<le> n \<Longrightarrow>
     scan_members (Suc n) acc' (dump_members fl d @ CHR ''}'' # r) = Some (acc' @ d, r)"
proof (induction fl v and fl xs and fl d arbitrary: n r and n r acc and n r acc'
    rule: json_dumps_dump_items_dump_members.induct)
  case (3 fl i)
  then show ?case by (simp add: scan_value_int del: scan_value.simps)
next
  case (6 fl xs)
  show ?case
  proof (cases "xs = []")
    case True
    then show ?thesis by (simp add: quote_def)
  next
    case False
    obtain m where m: "n = Suc m" "Suc (length (dump_items fl xs)) \<le> m"
      using 6(4) by (cases n) auto
    have p: "\<forall>x \<in> set xs. plain x" using 6(2) by simp
    show ?thesis
      using 6(1) [OF False p m(2), of "[]" r] skip_items [OF False p, of fl "CHR '']'' # r"]
      by (simp add: quote_def m(1) del: scan_items.simps)
  qed
next
  case (7 fl d)
  show ?case
  proof (cases "d = []")
    case True
    then show ?thesis by (simp add: quote_def)
  next
    case False
    obtain m where m: "n = Suc m" "Suc (length (dump_members fl d)) \<le> m"
      using 7(4) by (cases n) auto
    have p: "distinct (map fst ([] @ d))" "\<forall>(k, v) \<in> set d. plain v" using 7(2) by simp_all
    show ?thesis
      using 7(1) [OF False p m(2), of r] skip_members [OF False, of fl "CHR ''}'' # r"]
      by (simp add: quote_def m(1) del: scan_members.simps)
  qed
next
  case (9 fl x)
  then obtain m where m: "n = Suc m" "length (json_dumps fl x) \<le> m" by (cases n) auto
  show ?case
    using 9(1) [of "CHR '']'' # r" m] 9(3) m by simp
next
  case (10 fl x y xs)
  then obtain m where m: "n = Suc m" "length (json_dumps fl x) \<le> m" "Suc (length (dump_items fl (y # xs))) \<le> m"
    by (cases n) auto
  have p: "plain x" "\<forall>x \<in> set (y # xs). plain x" using 10(4) by simp_all
  show ?case
    using 10(1) [OF p(1) _ m(2), of "CHR '','' # CHR '' '' # dump_items fl (y # xs) @ CHR '']'' # r"]
      10(2) [OF _ p(2) m(3), of "acc @ [x]" r] skip_items [OF _ p(2), of fl "CHR '']'' # r"]
    by (simp add: m(1) del: scan_value.simps)
next
  case (12 fl k v)
  then obtain m where m: "n = Suc m" "length (json_dumps fl v) \<le> m" by (cases n) auto
  have p: "plain v" "k \<notin> set (map fst acc')" using 12(3,4) by auto
  show ?case
    using 12(1) [OF p(1) _ m(2), of "CHR ''}'' # r"] p(2)
    by (simp add: m(1) json_string_def scan_json_string skip_dumps [OF p(1)] dset_end del: scan_value.simps)
next
  case (13 fl k v m' ms)
  then obtain m where m: "n = Suc m" "length (json_dumps fl v) \<le> m" "Suc (length (dump_members fl (m' # ms))) \<le> m"
    by (cases n) auto
  have p: "plain v" "k \<notin> set (map fst acc')" "distinct (map fst ((acc' @ [(k, v)]) @ m' # ms))"
      "\<forall>(k, v) \<in> set (m' # ms). plain v"
    using 13(4,5) by auto
  show ?case
    using 13(1) [OF p(1) _ m(2), of "CHR '','' # CHR '' '' # dump_members fl (m' # ms) @ CHR ''}'' # r"]
      13(2) [OF _ p(3,4) m(3), of r] skip_members [of "m' # ms" fl "CHR ''}'' # r"] p(2)
    by (simp add: m(1) json_string_def scan_json_string skip_dumps [OF p(1)] dset_end del: scan_value.simps)
qed (simp_all add: literal_def quote_def scan_value_int json_string_def scan_json_string [unfolded quote_def] del: scan_items.simps scan_members.simps)


lemma loads_dumps:
  assumes "plain v"
  shows "json_loads (json_dumps fl v) = Some v"
proof -
  have "scan_value (Suc (2 * length (json_dumps fl v) + 1)) (json_dumps fl v @ []) = Some (v, [])"
    by (rule scan_dumps(1) [OF assms]) simp_all
  then show ?thesis
    using skip_dumps [OF assms, of fl "[]"] by (simp add: json_loads_def skip_def del: scan_value.simps)
qed

section \<open>UUIDs\<close>

lemma hex_pad_digits: "c \<in> set (hex_pad w n) \<Longrightarrow> \<exists>d < 16. c = hex_digit d"
  by (induction w arbitrary: n) (auto intro: exI [of _ "_ mod 16"])

definition is_hex :: "char \<Rightarrow> bool" where
  "is_hex c \<longleftrightarrow> hex_value c \<noteq> None"

lemma hex_digit_is_hex [simp]: "d < 16 \<Longrightarrow> is_hex (hex_digit d)"
  by (simp add: is_hex_def)

lemma hex_groups_from: "\<forall>c \<in> set s. is_hex c \<Longrightarrow> s \<noteq> [] \<or> b \<Longrightarrow> hex_groups b a s = hex_from a s"
proof (induction s arbitrary: a b)
  case (Cons c s)
  then obtain d where d: "hex_value c = Some d" by (auto simp: is_hex_def)
  then have "c \<noteq> CHR ''_''" by (auto simp: hex_value_def)
  then show ?case using Cons d by simp
qed simp

lemma remove_word_none: "w \<noteq> [] \<Longrightarrow> hd w \<notin> set s \<Longrightarrow> remove_word n w s = s"
proof (induction n arbitrary: s)
  case (Suc n)
  then show ?case by (cases s; cases w) auto
qed simp


text \<open>A text of hexadecimal digits and dashes goes through the clean-up of \<open>UUID(text)\<close> unharmed.\<close>

lemma not_hex [simp]:
  "\<not> is_hex (CHR ''-'')" "\<not> is_hex (CHR ''+'')" "\<not> is_hex (CHR ''x'')" "\<not> is_hex (CHR ''X'')"
  "\<not> is_hex (CHR ''u'')" "\<not> is_hex (CHR ''{'')" "\<not> is_hex (CHR ''}'')"
  by code_simp+

lemma hex_not_space: "is_hex c \<Longrightarrow> \<not> is_space c"
  by (auto simp: is_hex_def hex_value_def is_space_def Let_def split: if_splits)

lemma hex_clean:
  assumes "\<forall>c \<in> set s. is_hex c \<or> c = CHR ''-''"
  shows "CHR ''u'' \<notin> set s" "\<forall>c \<in> set s. \<not> (c = CHR ''{'' \<or> c = CHR ''}'')"
proof -
  show "CHR ''u'' \<notin> set s" using assms by fastforce
  show "\<forall>c \<in> set s. \<not> (c = CHR ''{'' \<or> c = CHR ''}'')"
  proof
    fix c assume "c \<in> set s"
    then have "is_hex c \<or> c = CHR ''-''" using assms by blast
    then show "\<not> (c = CHR ''{'' \<or> c = CHR ''}'')" by (cases "c = CHR ''{''"; cases "c = CHR ''}''") simp_all
  qed
qed

lemma dropWhile_none: "\<forall>c \<in> set s. \<not> P c \<Longrightarrow> dropWhile P s = s"
  by (cases s) auto

lemma strip_braces_none:
  assumes "\<forall>c \<in> set s. \<not> (c = CHR ''{'' \<or> c = CHR ''}'')"
  shows "strip_braces s = s"
proof -
  have "dropWhile (\<lambda>c. c = CHR ''{'' \<or> c = CHR ''}'') s = s" by (rule dropWhile_none [OF assms])
  moreover have "dropWhile (\<lambda>c. c = CHR ''{'' \<or> c = CHR ''}'') (rev s) = rev s"
    by (rule dropWhile_none) (use assms in simp)
  ultimately show ?thesis by (simp add: strip_braces_def Let_def)
qed

lemma parse_uuid_clean:
  assumes "\<forall>c \<in> set s. is_hex c \<or> c = CHR ''-''"
  shows "parse_uuid s = (let h = filter (\<lambda>c. c \<noteq> CHR ''-'') s in
     if length h \<noteq> 32 then None
     else (case int_base16 h of None \<Rightarrow> None
           | Some n \<Rightarrow> if 0 \<le> n \<and> n < 2 ^ 128 then Some (nat n) else None))"
proof -
  have "remove_word n ''urn:'' s = s" "remove_word n ''uuid:'' s = s" for n
    by (rule remove_word_none; use hex_clean(1) [OF assms] in simp)+
  moreover have "strip_braces s = s" by (rule strip_braces_none [OF hex_clean(2) [OF assms]])
  ultimately show ?thesis by (simp add: parse_uuid_def)
qed

lemma int_base16_hex:
  assumes "\<forall>c \<in> set h. is_hex c" and "h \<noteq> []"
  shows "int_base16 h = map_option int (hex_from 0 h)"
proof -
  have sp: "\<forall>c \<in> set h. \<not> is_space c" using assms(1) hex_not_space by blast
  have "dropWhile is_space h = h" by (rule dropWhile_none [OF sp])
  moreover have "dropWhile is_space (rev h) = rev h" by (rule dropWhile_none) (use sp in simp)
  ultimately have strip: "str_strip h = h" by (simp add: str_strip_def)
  obtain c cs where h: "h = c # cs" using assms(2) by (cases h) auto
  have c: "c \<noteq> CHR ''-''" "c \<noteq> CHR ''+''" using assms(1) not_hex(1,2) unfolding h by (metis list.set_intros(1))+
  have "CHR ''x'' \<notin> set h" "CHR ''X'' \<notin> set h" using assms(1) not_hex(3,4) by blast+
  then have "take 2 h \<noteq> ''0x'' \<and> take 2 h \<noteq> ''0X''"
    by (metis in_set_takeD list.set_intros(1,2))
  moreover have "(case h of c # cs \<Rightarrow> if c = CHR ''-'' then (True, cs) else if c = CHR ''+'' then (False, cs) else (False, h)
      | [] \<Rightarrow> (False, [])) = (False, h)" using c by (simp add: h)
  ultimately show ?thesis
    using hex_groups_from [OF assms(1), of False 0] assms(2)
    by (simp add: int_base16_def strip Let_def option.map_comp comp_def)
qed

lemma take_drop_step: "drop m s = take n (drop m s) @ drop (n + m) s"
  by (metis append_take_drop_id drop_drop)

lemma parse_uuid_text:
  assumes "i < 2 ^ 128"
  shows "parse_uuid (uuid_text i) = Some i"
proof -
  let ?h = "hex_pad 32 i"
  have hex: "\<forall>c \<in> set ?h. is_hex c" using hex_pad_digits by fastforce
  then have part: "\<forall>c \<in> set (take n (drop m ?h)). is_hex c" for n m
    by (meson in_set_dropD in_set_takeD)
  have "CHR ''-'' \<notin> set ?h" using hex not_hex(1) by blast
  then have keep: "filter (\<lambda>c. c \<noteq> CHR ''-'') ?h = ?h" by (intro filter_True) blast
  have split: "?h = take 8 ?h @ take 4 (drop 8 ?h) @ take 4 (drop 12 ?h) @ take 4 (drop 16 ?h) @ drop 20 ?h"
    using take_drop_step [of 0 ?h 8] take_drop_step [of 8 ?h 4] take_drop_step [of 12 ?h 4] take_drop_step [of 16 ?h 4]
    by simp
  have all: "\<forall>c \<in> set (uuid_text i). is_hex c \<or> c = CHR ''-''"
    using hex by (auto simp: uuid_text_def Let_def dest: in_set_takeD in_set_dropD)
  have "filter (\<lambda>c. c \<noteq> CHR ''-'') (uuid_text i) = filter (\<lambda>c. c \<noteq> CHR ''-'')
      (take 8 ?h @ take 4 (drop 8 ?h) @ take 4 (drop 12 ?h) @ take 4 (drop 16 ?h) @ drop 20 ?h)"
    by (simp add: uuid_text_def Let_def)
  then have f: "filter (\<lambda>c. c \<noteq> CHR ''-'') (uuid_text i) = ?h" using keep by (simp only: split [symmetric])
  have "hex_from 0 ?h = Some i" using hex_from_pad [of 0 32 i] assms by simp
  moreover have "?h \<noteq> []" using length_hex_pad [of 32 i] by (metis list.size(3) zero_neq_numeral)
  ultimately have "int_base16 ?h = Some (int i)" using int_base16_hex [OF hex] by simp
  moreover have "int i < 2 ^ 128" using assms by (metis of_nat_less_numeral_power_cancel_iff)
  moreover have "length ?h = 32" by (rule length_hex_pad)
  ultimately show ?thesis by (simp only: parse_uuid_clean [OF all] f Let_def option.case) simp
qed

end
