(* ===== verification/Webhooks.thy ===== *)
theory Webhooks
  imports Handlers Json
begin

text \<open>
  Webhooks: the endpoint and delivery tables, the endpoint service
  (\<open>dalston/gateway/services/webhook_endpoints.py\<close>), payloads and one delivery over HTTP
  (\<open>dalston/gateway/services/webhook.py\<close>), creation and retrying of deliveries
  (\<open>dalston/orchestrator/delivery.py\<close>), and the handler that turns the end of a job into
  deliveries (\<open>dalston/orchestrator/distributed_main.py\<close>). The check of an address against
  private networks, the answer of a server, generated identifiers and secrets are arguments;
  signatures are not modelled. A pass of the worker runs its deliveries one after another.
\<close>

section \<open>Tables\<close>

record endpoint =
  ep_id :: uuid
  ep_tenant :: uuid
  ep_url :: string
  ep_secret :: string
  ep_description :: "string option"
  ep_active :: bool
  ep_disabled_reason :: "string option"
  ep_failures :: int
  ep_last_success :: "time option"
  ep_created :: time
  ep_owner :: "uuid option"
  ep_events :: "string list"

datatype delivery_status = DlPending | DlSuccess | DlFailed

record delivery =
  dl_id :: uuid
  dl_endpoint :: "uuid option"
  dl_job :: "uuid option"
  dl_event :: string
  dl_payload :: dict
  dl_url :: "string option"
  dl_status :: delivery_status
  dl_attempts :: nat
  dl_last_attempt :: "time option"
  dl_code :: "int option"
  dl_error :: "string option"
  dl_next :: "time option"
  dl_created :: time

record hooks =
  endpoints :: "endpoint list"
  deliveries :: "delivery list"

definition upd_endpoint :: "uuid \<Rightarrow> (endpoint \<Rightarrow> endpoint) \<Rightarrow> hooks \<Rightarrow> hooks" where
  "upd_endpoint i f h = h\<lparr>endpoints := map (\<lambda>e. if ep_id e = i then f e else e) (endpoints h)\<rparr>"

definition upd_delivery :: "uuid \<Rightarrow> (delivery \<Rightarrow> delivery) \<Rightarrow> hooks \<Rightarrow> hooks" where
  "upd_delivery i f h = h\<lparr>deliveries := map (\<lambda>d. if dl_id d = i then f d else d) (deliveries h)\<rparr>"

section \<open>The endpoint service\<close>

definition ALLOWED_EVENTS :: "string set" where
  "ALLOWED_EVENTS = {''transcription.completed'', ''transcription.failed'', ''transcription.cancelled'', ''*''}"

definition valid_events :: "string list \<Rightarrow> bool" where
  "valid_events es \<longleftrightarrow> es \<noteq> [] \<and> distinct es \<and> set es \<subseteq> ALLOWED_EVENTS"

datatype hook_error = BadUrl | BadEvents | HasHistory | NotFailed

definition create_endpoint ::
  "(string \<Rightarrow> bool) \<Rightarrow> time \<Rightarrow> uuid \<Rightarrow> string \<Rightarrow> uuid \<Rightarrow> string \<Rightarrow> string list \<Rightarrow> string option \<Rightarrow> uuid option \<Rightarrow> hooks \<Rightarrow> hook_error + hooks" where
  "create_endpoint url_ok now i secret tenant url subs descr owner h =
     (if \<not> url_ok url then Inl BadUrl
      else if \<not> valid_events subs then Inl BadEvents
      else Inr (h\<lparr>endpoints := endpoints h @
             [\<lparr>ep_id = i, ep_tenant = tenant, ep_url = url, ep_secret = ''whsec_'' @ secret, ep_description = descr,
               ep_active = True, ep_disabled_reason = None, ep_failures = 0, ep_last_success = None,
               ep_created = now, ep_owner = owner, ep_events = subs\<rparr>]\<rparr>))"

definition list_endpoints :: "uuid \<Rightarrow> bool option \<Rightarrow> uuid option \<Rightarrow> bool \<Rightarrow> hooks \<Rightarrow> endpoint list" where
  "list_endpoints tenant active key unowned h =
     rev (sort_key ep_created (filter (\<lambda>e. ep_tenant e = tenant
        \<and> (case active of None \<Rightarrow> True | Some a \<Rightarrow> ep_active e = a)
        \<and> (case key of None \<Rightarrow> True
           | Some k \<Rightarrow> ep_owner e = Some k \<or> unowned \<and> ep_owner e = None)) (endpoints h)))"

definition get_endpoint :: "hooks \<Rightarrow> uuid \<Rightarrow> uuid \<Rightarrow> endpoint option" where
  "get_endpoint h i tenant = List.find (\<lambda>e. ep_id e = i \<and> ep_tenant e = tenant) (endpoints h)"

text \<open>The fields that are given change; enabling an endpoint clears what disabled it. A bad event
  list is found only after a new address was taken over, but nothing was committed.\<close>

definition endpoint_update ::
  "string option \<Rightarrow> string list option \<Rightarrow> string option \<Rightarrow> bool option \<Rightarrow> endpoint \<Rightarrow> endpoint" where
  "endpoint_update url subs descr active e =
     (let e1 = (case url of Some u \<Rightarrow> e\<lparr>ep_url := u\<rparr> | None \<Rightarrow> e);
          e2 = (case subs of Some es \<Rightarrow> e1\<lparr>ep_events := es\<rparr> | None \<Rightarrow> e1);
          e3 = (case descr of Some t \<Rightarrow> e2\<lparr>ep_description := Some t\<rparr> | None \<Rightarrow> e2)
      in case active of
           None \<Rightarrow> e3
         | Some True \<Rightarrow> e3\<lparr>ep_active := True, ep_disabled_reason := None, ep_failures := 0\<rparr>
         | Some False \<Rightarrow> e3\<lparr>ep_active := False\<rparr>)"

definition update_endpoint ::
  "(string \<Rightarrow> bool) \<Rightarrow> uuid \<Rightarrow> uuid \<Rightarrow> string option \<Rightarrow> string list option \<Rightarrow> string option \<Rightarrow> bool option \<Rightarrow> hooks
     \<Rightarrow> hook_error + hooks option" where
  "update_endpoint url_ok i tenant url subs descr active h =
     (case get_endpoint h i tenant of
        None \<Rightarrow> Inr None
      | Some _ \<Rightarrow>
          if (case url of Some u \<Rightarrow> \<not> url_ok u | None \<Rightarrow> False) then Inl BadUrl
          else if (case subs of Some es \<Rightarrow> \<not> valid_events es | None \<Rightarrow> False) then Inl BadEvents
          else Inr (Some (upd_endpoint i (endpoint_update url subs descr active) h)))"

definition delete_endpoint :: "uuid \<Rightarrow> uuid \<Rightarrow> hooks \<Rightarrow> hook_error + (hooks \<times> bool)" where
  "delete_endpoint i tenant h =
     (case get_endpoint h i tenant of
        None \<Rightarrow> Inr (h, False)
      | Some _ \<Rightarrow>
          if \<exists>d \<in> set (deliveries h). dl_endpoint d = Some i then Inl HasHistory
          else Inr (h\<lparr>endpoints := filter (\<lambda>e. ep_id e \<noteq> i) (endpoints h)\<rparr>, True))"

definition rotate_secret :: "uuid \<Rightarrow> uuid \<Rightarrow> string \<Rightarrow> hooks \<Rightarrow> hooks" where
  "rotate_secret i tenant secret h =
     (case get_endpoint h i tenant of
        None \<Rightarrow> h | Some _ \<Rightarrow> upd_endpoint i (\<lambda>e. e\<lparr>ep_secret := ''whsec_'' @ secret\<rparr>) h)"

definition get_endpoints_for_event :: "hooks \<Rightarrow> uuid \<Rightarrow> string \<Rightarrow> endpoint list" where
  "get_endpoints_for_event h tenant event =
     filter (\<lambda>e. ep_tenant e = tenant \<and> ep_active e \<and> (event \<in> set (ep_events e) \<or> ''*'' \<in> set (ep_events e)))
       (endpoints h)"

definition retry_delivery :: "time \<Rightarrow> uuid \<Rightarrow> uuid \<Rightarrow> uuid \<Rightarrow> hooks \<Rightarrow> hook_error + hooks option" where
  "retry_delivery now i d tenant h =
     (case get_endpoint h i tenant of
        None \<Rightarrow> Inr None
      | Some _ \<Rightarrow>
          (case List.find (\<lambda>r. dl_id r = d \<and> dl_endpoint r = Some i) (deliveries h) of
             None \<Rightarrow> Inr None
           | Some r \<Rightarrow>
               if dl_status r \<noteq> DlFailed then Inl NotFailed
               else Inr (Some (upd_delivery d (\<lambda>r. r\<lparr>dl_status := DlPending, dl_next := Some now\<rparr>) h))))"

text \<open>\<open>list_deliveries\<close>: the rows after the cursor in the order asked for, one more than a page to
  see whether there are more. A cursor is the creation time and identifier of the last row
  seen, which its text encodes.\<close>

type_synonym cursor = "time \<times> uuid"

definition cursor_of :: "delivery \<Rightarrow> cursor" where
  "cursor_of d = (dl_created d, dl_id d)"

definition list_deliveries ::
  "uuid \<Rightarrow> uuid \<Rightarrow> delivery_status option \<Rightarrow> nat \<Rightarrow> cursor option \<Rightarrow> bool \<Rightarrow> hooks \<Rightarrow> delivery list \<times> bool" where
  "list_deliveries i tenant status limit cursor ascending h =
     (case get_endpoint h i tenant of
        None \<Rightarrow> ([], False)
      | Some _ \<Rightarrow>
          (let rows = filter (\<lambda>d. dl_endpoint d = Some i \<and> (case status of None \<Rightarrow> True | Some s \<Rightarrow> dl_status d = s)
                  \<and> (case cursor of None \<Rightarrow> True
                     | Some c \<Rightarrow> if ascending then cursor_of d > c else cursor_of d < c)) (deliveries h);
               ordered = (if ascending then sort_key cursor_of rows else rev (sort_key cursor_of rows));
               found = take (limit + 1) ordered;
               more = (length found > limit)
           in (if more then take limit found else found, more)))"

text \<open>A client that follows the cursors, for at most the given number of pages.\<close>

fun follow_pages :: "nat \<Rightarrow> (cursor option \<Rightarrow> delivery list \<times> bool) \<Rightarrow> cursor option \<Rightarrow> delivery list list" where
  "follow_pages 0 page c = []"
| "follow_pages (Suc n) page c =
     (let (ds, more) = page c
      in ds # (if ds \<noteq> [] \<and> more then follow_pages n page (Some (cursor_of (last ds))) else []))"

section \<open>Payloads and one delivery\<close>

definition build_payload ::
  "string \<Rightarrow> int \<Rightarrow> string \<Rightarrow> uuid \<Rightarrow> string \<Rightarrow> pyval option \<Rightarrow> string option \<Rightarrow> string option \<Rightarrow> dict option \<Rightarrow> dict" where
  "build_payload fresh now event j status duration err request metadata =
     (let data = [(''transcription_id'', PStr (uuid_text j)), (''status'', PStr status)]
            @ (case duration of None \<Rightarrow> [] | Some v \<Rightarrow> [(''duration'', v)])
            @ (case err of None \<Rightarrow> [] | Some e \<Rightarrow> [(''error'', PStr e)])
            @ (case request of None \<Rightarrow> [] | Some r \<Rightarrow> [(''request_id'', PStr r)])
            @ (case metadata of None \<Rightarrow> [] | Some m \<Rightarrow> [(''metadata'', PDict m)])
      in [(''object'', PStr ''event''), (''id'', PStr (''evt_'' @ take 24 fresh)), (''type'', PStr event),
          (''created_at'', PInt now), (''data'', PDict data)])"

text \<open>What comes of a request: refused before it is sent, an answer, or an exception.\<close>

datatype answer = Responded int | Broke string

type_synonym attempt_result = "bool \<times> int option \<times> string option"

definition DEFAULT_BACKOFF_DELAYS :: "rat list" where "DEFAULT_BACKOFF_DELAYS = [1, 2, 4]"

text \<open>The attempts of \<open>deliver\<close> from the given one, with the last code and error so far, and the
  waits in between.\<close>

fun deliver_attempts ::
  "(nat \<Rightarrow> answer) \<Rightarrow> nat \<Rightarrow> nat \<Rightarrow> int option \<Rightarrow> string option \<Rightarrow> attempt_result \<times> rat list" where
  "deliver_attempts ans retries_left attempt code err =
     (let (done, code', err') = (case ans attempt of
            Responded c \<Rightarrow> if c < 300 then (True, Some c, None) else (False, Some c, Some (''HTTP '' @ str_int c))
          | Broke e \<Rightarrow> (False, code, Some e))
      in if done then ((True, code', None), [])
         else (case retries_left of
                 0 \<Rightarrow> ((False, code', err'), [])
               | Suc n \<Rightarrow>
                   (let wait = (if attempt < length DEFAULT_BACKOFF_DELAYS then DEFAULT_BACKOFF_DELAYS ! attempt
                                else last DEFAULT_BACKOFF_DELAYS);
                        (r, waits) = deliver_attempts ans n (Suc attempt) code' err'
                    in (r, wait # waits))))"

definition deliver_webhook :: "string option \<Rightarrow> (nat \<Rightarrow> answer) \<Rightarrow> nat \<Rightarrow> attempt_result \<times> rat list" where
  "deliver_webhook refusal ans budget =
     (case refusal of
        Some e \<Rightarrow> ((False, None, Some e), [])
      | None \<Rightarrow> deliver_attempts ans budget 0 None None)"

section \<open>The delivery worker\<close>

definition RETRY_DELAYS :: "rat list" where "RETRY_DELAYS = [0, 30, 120, 600, 3600]"
definition MAX_ATTEMPTS :: nat where "MAX_ATTEMPTS = 5"
definition MAX_CONCURRENT :: nat where "MAX_CONCURRENT = 10"
definition AUTO_DISABLE_FAILURE_THRESHOLD :: int where "AUTO_DISABLE_FAILURE_THRESHOLD = 10"
definition AUTO_DISABLE_SUCCESS_WINDOW_DAYS :: rat where "AUTO_DISABLE_SUCCESS_WINDOW_DAYS = 7"

definition check_auto_disable :: "time \<Rightarrow> endpoint \<Rightarrow> endpoint" where
  "check_auto_disable now e =
     (if ep_failures e < AUTO_DISABLE_FAILURE_THRESHOLD then e
      else if (case ep_last_success e of None \<Rightarrow> False
               | Some t \<Rightarrow> t > now - AUTO_DISABLE_SUCCESS_WINDOW_DAYS * 86400) then e
      else e\<lparr>ep_active := False, ep_disabled_reason := Some ''auto_disabled''\<rparr>)"

text \<open>The row after an attempt, and what the attempt means for its endpoint.\<close>

definition after_attempt :: "time \<Rightarrow> attempt_result \<Rightarrow> delivery \<Rightarrow> delivery" where
  "after_attempt now r d =
     (let (success, code, err) = r;
          d1 = d\<lparr>dl_attempts := dl_attempts d + 1, dl_last_attempt := Some now, dl_code := code, dl_error := err\<rparr>
      in if success then d1\<lparr>dl_status := DlSuccess, dl_next := None\<rparr>
         else if dl_attempts d1 \<ge> MAX_ATTEMPTS then d1\<lparr>dl_status := DlFailed, dl_next := None\<rparr>
         else d1\<lparr>dl_next := Some (now + RETRY_DELAYS ! min (dl_attempts d1) (length RETRY_DELAYS - 1))\<rparr>)"

definition endpoint_after :: "time \<Rightarrow> attempt_result \<Rightarrow> delivery \<Rightarrow> endpoint \<Rightarrow> endpoint" where
  "endpoint_after now r d e =
     (if fst r then e\<lparr>ep_failures := 0, ep_last_success := Some now\<rparr>
      else if dl_attempts d + 1 \<ge> MAX_ATTEMPTS then check_auto_disable now (e\<lparr>ep_failures := ep_failures e + 1\<rparr>)
      else e)"

definition do_delivery :: "time \<Rightarrow> (string \<Rightarrow> attempt_result) \<Rightarrow> delivery \<Rightarrow> hooks \<Rightarrow> hooks" where
  "do_delivery now post d h =
     (case dl_endpoint d of
        Some i \<Rightarrow>
          (case List.find (\<lambda>e. ep_id e = i) (endpoints h) of
             None \<Rightarrow> upd_delivery (dl_id d) (\<lambda>r. r\<lparr>dl_status := DlFailed, dl_error := Some ''Endpoint not found''\<rparr>) h
           | Some e \<Rightarrow>
               (let r = post (ep_url e)
                in upd_endpoint i (endpoint_after now r d) (upd_delivery (dl_id d) (after_attempt now r) h)))
      | None \<Rightarrow>
          (case nonempty (dl_url d) of
             None \<Rightarrow> upd_delivery (dl_id d) (\<lambda>r. r\<lparr>dl_status := DlFailed, dl_error := Some ''No URL configured''\<rparr>) h
           | Some u \<Rightarrow> upd_delivery (dl_id d) (after_attempt now (post u)) h))"

definition due_deliveries :: "time \<Rightarrow> hooks \<Rightarrow> delivery list" where
  "due_deliveries now h = take MAX_CONCURRENT (sort_key (\<lambda>d. the (dl_next d))
     (filter (\<lambda>d. dl_status d = DlPending \<and> (case dl_next d of None \<Rightarrow> False | Some t \<Rightarrow> t \<le> now)) (deliveries h)))"

definition poll_and_deliver :: "time \<Rightarrow> (string \<Rightarrow> attempt_result) \<Rightarrow> hooks \<Rightarrow> hooks" where
  "poll_and_deliver now post h = fold (do_delivery now post) (due_deliveries now h) h"

section \<open>Creating deliveries\<close>

text \<open>The two unique constraints, under which a row with a null column never conflicts.\<close>

definition conflicts :: "delivery \<Rightarrow> delivery \<Rightarrow> bool" where
  "conflicts a b \<longleftrightarrow> dl_job a \<noteq> None \<and> dl_job a = dl_job b \<and> dl_event a = dl_event b
     \<and> (dl_endpoint a \<noteq> None \<and> dl_endpoint a = dl_endpoint b \<or> dl_url a \<noteq> None \<and> dl_url a = dl_url b)"

definition new_delivery :: "time \<Rightarrow> uuid \<Rightarrow> uuid option \<Rightarrow> uuid option \<Rightarrow> string \<Rightarrow> dict \<Rightarrow> string option \<Rightarrow> delivery" where
  "new_delivery now i ep j event payload url =
     \<lparr>dl_id = i, dl_endpoint = ep, dl_job = j, dl_event = event, dl_payload = payload, dl_url = url,
      dl_status = DlPending, dl_attempts = 0, dl_last_attempt = None, dl_code = None, dl_error = None,
      dl_next = Some now, dl_created = now\<rparr>"

text \<open>Insert or ignore; the row that is returned on a conflict is not used by any caller.\<close>

definition create_webhook_delivery ::
  "time \<Rightarrow> uuid \<Rightarrow> uuid option \<Rightarrow> uuid option \<Rightarrow> string \<Rightarrow> dict \<Rightarrow> string option \<Rightarrow> hooks \<Rightarrow> hooks" where
  "create_webhook_delivery now i ep j event payload url h =
     (let d = new_delivery now i ep j event payload url
      in if \<exists>r \<in> set (deliveries h). conflicts d r then h else h\<lparr>deliveries := deliveries h @ [d]\<rparr>)"

text \<open>The end of a job: the endpoints its parameters or its tenant name get one delivery each.\<close>

record hook_env =
  hk_now :: time
  hk_id :: "nat \<Rightarrow> uuid"
  hk_payload_id :: string

definition webhook_duration :: "world \<Rightarrow> uuid \<Rightarrow> string \<Rightarrow> pyval option" where
  "webhook_duration w j status =
     (if status \<noteq> ''completed'' then None
      else (case transcripts w j of
              None \<Rightarrow> None
            | Some tr \<Rightarrow>
                (case dget_or tr ''metadata'' (PDict []) of
                   PDict m \<Rightarrow> (case dget m ''duration'' of Some PNone \<Rightarrow> None | v \<Rightarrow> v)
                 | _ \<Rightarrow> None)))"

definition webhook_targets :: "world \<Rightarrow> hooks \<Rightarrow> job_row \<Rightarrow> string \<Rightarrow> endpoint list" where
  "webhook_targets w h job event =
     (let named = (case dget (job_parameters job) ''elevenlabs_webhook_id'' of
                     Some (PStr s) \<Rightarrow>
                       (case Option.bind (parse_uuid s) (\<lambda>i. get_endpoint h i (job_tenant job)) of
                          Some e \<Rightarrow> [e] | None \<Rightarrow> [])
                   | _ \<Rightarrow> [])
      in if named = [] then get_endpoints_for_event h (job_tenant job) event else named)"

definition job_event :: "string \<Rightarrow> string" where "job_event status = ''transcription.'' @ status"

definition handle_job_webhook ::
  "hook_env \<Rightarrow> uuid \<Rightarrow> string \<Rightarrow> string option \<Rightarrow> world \<Rightarrow> hooks \<Rightarrow> hooks" where
  "handle_job_webhook env j status err w h =
     (case jobs w j of
        None \<Rightarrow> h
      | Some job \<Rightarrow>
          (let params = job_parameters job; event = job_event status
           in if dget params ''elevenlabs_webhook_enabled'' = Some (PBool False) then h
              else
                (let request = (case dget params ''request_id'' of Some (PStr r) \<Rightarrow> Some r | _ \<Rightarrow> None);
                     metadata = (case dget params ''elevenlabs_webhook_metadata'' of Some (PDict m) \<Rightarrow> Some m | _ \<Rightarrow> None);
                     payload = build_payload (hk_payload_id env) \<lfloor>hk_now env\<rfloor> event j status
                                 (webhook_duration w j status) err request metadata
                 in fold (\<lambda>(n, e). create_webhook_delivery (hk_now env) (hk_id env n) (Some (ep_id e)) (Some j) event payload None)
                      (enumerate 0 (webhook_targets w h job event)) h)))"

end
