(* ===== verification/WebhookProps.thy ===== *)
theory WebhookProps
  imports Webhooks Demo
begin

text \<open>
  What is proved of the webhooks: replaying the end of a job adds no delivery, a pass of the
  worker uses up attempts (so that a delivery is attempted a bounded number of times), an
  endpoint is disabled only after ten exhausted deliveries without a success, following the
  cursors lists every delivery once, and the tables keep their keys and references.
\<close>

section \<open>Following the cursors\<close>

locale cursor_order =
  fixes before :: "cursor \<Rightarrow> cursor \<Rightarrow> bool"
  assumes before_trans: "before a b \<Longrightarrow> before b c \<Longrightarrow> before a c"
    and before_irrefl: "\<not> before a a"
begin

lemma after_last:
  assumes "sorted_wrt (\<lambda>x y. before (cursor_of x) (cursor_of y)) (pre @ rest)" "pre \<noteq> []"
  shows "filter (\<lambda>x. before (cursor_of (last pre)) (cursor_of x)) (pre @ rest) = rest"
proof -
  obtain as z where pre: "pre = as @ [z]" using assms(2) by (metis append_butlast_last_id)
  have "\<not> before (cursor_of z) (cursor_of x)" if "x \<in> set as" for x
  proof -
    have "before (cursor_of x) (cursor_of z)" using assms(1) that unfolding pre by (auto simp: sorted_wrt_append)
    then show ?thesis using before_trans before_irrefl by meson
  qed
  then have "filter (\<lambda>x. before (cursor_of z) (cursor_of x)) as = []" by (simp add: filter_empty_conv)
  moreover have "filter (\<lambda>x. before (cursor_of z) (cursor_of x)) rest = rest"
    using assms(1) unfolding pre filter_id_conv by (auto simp: sorted_wrt_append)
  ultimately show ?thesis unfolding pre using before_irrefl by simp
qed

end

definition page_of :: "(delivery \<Rightarrow> cursor \<Rightarrow> bool) \<Rightarrow> nat \<Rightarrow> delivery list \<Rightarrow> cursor option \<Rightarrow> delivery list \<times> bool" where
  "page_of later limit L c =
     (let rows = filter (\<lambda>x. case c of None \<Rightarrow> True | Some k \<Rightarrow> later x k) L
      in (take limit rows, length rows > limit))"

lemma follow_page_of:
  assumes order: "cursor_order (before :: cursor \<Rightarrow> cursor \<Rightarrow> bool)"
    and srt: "sorted_wrt (\<lambda>x y. before (cursor_of x) (cursor_of y)) L"
    and limit: "0 < limit"
  shows "L = pre @ rest \<Longrightarrow> c = (if pre = [] then None else Some (cursor_of (last pre))) \<Longrightarrow>
     length rest \<le> n * limit \<Longrightarrow>
     concat (follow_pages n (page_of (\<lambda>x k. before k (cursor_of x)) limit L) c) = rest"
proof (induction n arbitrary: pre rest c)
  case 0
  then show ?case by simp
next
  case (Suc n)
  have rows: "filter (\<lambda>x. case c of None \<Rightarrow> True | Some k \<Rightarrow> before k (cursor_of x)) L = rest"
  proof (cases "pre = []")
    case True
    then show ?thesis using Suc.prems(1,2) by simp
  next
    case False
    then show ?thesis
      using Suc.prems(1,2) cursor_order.after_last [OF order, of pre rest] srt by simp
  qed
  have page: "page_of (\<lambda>x k. before k (cursor_of x)) limit L c = (take limit rest, length rest > limit)"
    by (simp only: page_of_def rows Let_def)
  show ?case
  proof (cases "length rest > limit")
    case False
    then show ?thesis by (simp add: page)
  next
    case True
    define a where "a = take limit rest"
    define b where "b = drop limit rest"
    have rest: "rest = a @ b" and a: "a \<noteq> []" and b: "length b \<le> n * limit"
      using True limit Suc.prems(3) by (auto simp: a_def b_def)
    have L: "L = (pre @ a) @ b" using Suc.prems(1) rest by simp
    have "concat (follow_pages n (page_of (\<lambda>x k. before k (cursor_of x)) limit L) (Some (cursor_of (last a)))) = b"
      by (rule Suc.IH [OF L _ b]) (use a in simp)
    then show ?thesis using True a by (simp add: page a_def [symmetric]) (simp add: rest)
  qed
qed

abbreviation endpoint_deliveries :: "hooks \<Rightarrow> uuid \<Rightarrow> delivery_status option \<Rightarrow> delivery list" where
  "endpoint_deliveries h i status \<equiv> filter (\<lambda>d. dl_endpoint d = Some i
     \<and> (case status of None \<Rightarrow> True | Some s \<Rightarrow> dl_status d = s)) (deliveries h)"

lemma page_cut:
  "(let found = take (limit + 1) xs; more = (length found > limit)
    in (if more then take limit found else found, more)) = (take limit xs, length xs > limit)"
  by (auto simp: Let_def min_def)

lemma list_deliveries_page:
  assumes "get_endpoint h i tenant \<noteq> None"
  shows "list_deliveries i tenant status limit c True h =
      page_of (\<lambda>x k. k < cursor_of x) limit (sort_key cursor_of (endpoint_deliveries h i status)) c" (is ?up)
    and "list_deliveries i tenant status limit c False h =
      page_of (\<lambda>x k. cursor_of x < k) limit (rev (sort_key cursor_of (endpoint_deliveries h i status))) c" (is ?down)
proof -
  have "filter (\<lambda>x. case c of None \<Rightarrow> True | Some k \<Rightarrow> k < cursor_of x) (endpoint_deliveries h i status) =
    filter (\<lambda>d. dl_endpoint d = Some i \<and> (case status of None \<Rightarrow> True | Some s \<Rightarrow> dl_status d = s)
      \<and> (case c of None \<Rightarrow> True | Some c \<Rightarrow> if True then cursor_of d > c else cursor_of d < c)) (deliveries h)"
    by (simp only: filter_filter) (intro filter_cong refl, auto split: option.splits)
  then show ?up
    using assms unfolding list_deliveries_def page_of_def filter_sort Let_def [of "sort_key _ _"]
    by (auto simp: Let_def min_def)
  have "filter (\<lambda>x. case c of None \<Rightarrow> True | Some k \<Rightarrow> cursor_of x < k) (endpoint_deliveries h i status) =
    filter (\<lambda>d. dl_endpoint d = Some i \<and> (case status of None \<Rightarrow> True | Some s \<Rightarrow> dl_status d = s)
      \<and> (case c of None \<Rightarrow> True | Some c \<Rightarrow> if False then cursor_of d > c else cursor_of d < c)) (deliveries h)"
    by (simp only: filter_filter) (intro filter_cong refl, auto split: option.splits)
  then show ?down
    using assms unfolding list_deliveries_def page_of_def rev_filter [symmetric] filter_sort Let_def [of "rev _"]
    by (auto simp: Let_def min_def)
qed

interpretation upwards: cursor_order "(<)"
  by unfold_locales auto

interpretation downwards: cursor_order "(>)"
  by unfold_locales auto

lemma rows_strictly_sorted:
  assumes "distinct (map dl_id (deliveries h))"
  shows "sorted_wrt (\<lambda>x y. cursor_of x < cursor_of y) (sort_key cursor_of (endpoint_deliveries h i status))"
proof -
  let ?L = "endpoint_deliveries h i status"
  have "distinct (map dl_id ?L)" using assms by (rule distinct_map_filter)
  then have "distinct ?L" "inj_on cursor_of (set ?L)"
    using assms by (auto simp: distinct_map inj_on_def cursor_of_def)
  then have "distinct (map cursor_of (sort_key cursor_of ?L))" by (simp add: distinct_map)
  moreover have "sorted (map cursor_of (sort_key cursor_of ?L))" by simp
  ultimately have "sorted_wrt (<) (map cursor_of (sort_key cursor_of ?L))"
    by (simp only: strict_sorted_iff)
  then show ?thesis by (simp add: sorted_wrt_map)
qed

lemma page_rows: "p \<in> set (follow_pages n (page_of later limit L) c) \<Longrightarrow> length p \<le> limit"
  by (induction n arbitrary: c) (auto simp: page_of_def Let_def min_def split: if_splits)

text \<open>A client that follows the cursors of \<open>list_deliveries\<close> sees every delivery of the
  endpoint (with the status asked for) exactly once, oldest first or newest first as asked,
  in as many pages as are needed, and no page is longer than the limit.\<close>
lemma cursor_pages_complete:
  assumes "distinct (map dl_id (deliveries h))" "get_endpoint h i tenant \<noteq> None"
    and "0 < limit" "length (deliveries h) \<le> n * limit"
  shows "concat (follow_pages n (\<lambda>c. list_deliveries i tenant status limit c asc h) None) =
      (if asc then sort_key cursor_of (endpoint_deliveries h i status)
       else rev (sort_key cursor_of (endpoint_deliveries h i status)))
    \<and> (\<forall>p \<in> set (follow_pages n (\<lambda>c. list_deliveries i tenant status limit c asc h) None). length p \<le> limit)"
proof -
  let ?L = "endpoint_deliveries h i status"
  have n: "length ?L \<le> n * limit" using assms(4) length_filter_le le_trans by blast
  show ?thesis
  proof (cases asc)
    case True
    show ?thesis
      using follow_page_of [OF upwards.cursor_order_axioms rows_strictly_sorted [OF assms(1)] assms(3), where pre = "[]"] n
      by (auto simp: True list_deliveries_page [OF assms(2)] intro: page_rows)
  next
    case False
    have "sorted_wrt (\<lambda>x y. cursor_of x > cursor_of y) (rev (sort_key cursor_of ?L))"
      by (simp add: sorted_wrt_rev rows_strictly_sorted [OF assms(1)])
    from follow_page_of [OF downwards.cursor_order_axioms this assms(3), where pre = "[]"] show ?thesis
      using n by (auto simp: False list_deliveries_page [OF assms(2)] intro: page_rows)
  qed
qed

section \<open>Keys and references\<close>

text \<open>What neither the worker nor a manual retry changes of a row.\<close>

definition dl_key :: "delivery \<Rightarrow> uuid \<times> uuid option \<times> uuid option \<times> string \<times> string option" where
  "dl_key d = (dl_id d, dl_endpoint d, dl_job d, dl_event d, dl_url d)"

definition ep_key :: "endpoint \<Rightarrow> uuid \<times> uuid \<times> string list" where
  "ep_key e = (ep_id e, ep_tenant e, ep_events e)"

named_theorems hook_keys

lemma after_attempt_key [hook_keys, simp]: "dl_key (after_attempt now r d) = dl_key d"
  by (auto simp: after_attempt_def dl_key_def Let_def split: prod.splits)

lemma endpoint_after_key [hook_keys, simp]: "ep_key (endpoint_after now r d e) = ep_key e"
  by (auto simp: endpoint_after_def check_auto_disable_def ep_key_def)

lemma endpoint_after_active: "ep_active (endpoint_after now r d e) \<Longrightarrow> ep_active e"
  by (auto simp: endpoint_after_def check_auto_disable_def split: if_splits)

lemma map_upd_delivery:
  "(\<And>d. k (f d) = k d) \<Longrightarrow> map k (deliveries (upd_delivery i f h)) = map k (deliveries h)"
  by (simp add: upd_delivery_def comp_def if_distrib cong: if_cong)

lemma map_upd_endpoint:
  "(\<And>e. k (f e) = k e) \<Longrightarrow> map k (endpoints (upd_endpoint i f h)) = map k (endpoints h)"
  by (simp add: upd_endpoint_def comp_def if_distrib cong: if_cong)

lemma upd_other [simp]:
  "endpoints (upd_delivery i f h) = endpoints h" "deliveries (upd_endpoint i g h) = deliveries h"
  by (simp_all add: upd_delivery_def upd_endpoint_def)

lemma do_delivery_keys [hook_keys]:
  "map dl_key (deliveries (do_delivery now post d h)) = map dl_key (deliveries h)"
  by (auto simp: do_delivery_def Let_def dl_key_def [of "_\<lparr>dl_status := _, dl_error := _\<rparr>"]
      intro!: map_upd_delivery split: option.splits) (simp_all add: dl_key_def)

lemma do_delivery_endpoints:
  "\<exists>g. endpoints (do_delivery now post d h) = map g (endpoints h)
     \<and> (\<forall>e. ep_key (g e) = ep_key e \<and> (ep_active (g e) \<longrightarrow> ep_active e))"
proof -
  have "\<exists>g. endpoints h = map g (endpoints h) \<and> (\<forall>e. ep_key (g e) = ep_key e \<and> (ep_active (g e) \<longrightarrow> ep_active e))"
    by (rule exI [of _ id]) simp
  moreover have "\<exists>g. endpoints (upd_endpoint i (endpoint_after now r d) h') = map g (endpoints h)
     \<and> (\<forall>e. ep_key (g e) = ep_key e \<and> (ep_active (g e) \<longrightarrow> ep_active e))"
    if "endpoints h' = endpoints h" for i r h'
    using that endpoint_after_active
    by (intro exI [of _ "\<lambda>e. if ep_id e = i then endpoint_after now r d e else e"]) (auto simp: upd_endpoint_def)
  ultimately show ?thesis by (auto simp: do_delivery_def Let_def split: option.splits)
qed

lemma poll_keys: "map dl_key (deliveries (poll_and_deliver now post h)) = map dl_key (deliveries h)"
proof -
  have "map dl_key (deliveries (fold (do_delivery now post) ds h)) = map dl_key (deliveries h)" for ds
    by (induction ds arbitrary: h) (simp_all add: do_delivery_keys)
  then show ?thesis by (simp add: poll_and_deliver_def)
qed

lemma poll_endpoints:
  "\<exists>g. endpoints (poll_and_deliver now post h) = map g (endpoints h)
     \<and> (\<forall>e. ep_key (g e) = ep_key e \<and> (ep_active (g e) \<longrightarrow> ep_active e))"
proof -
  have "\<exists>g. endpoints (fold (do_delivery now post) ds h) = map g (endpoints h)
     \<and> (\<forall>e. ep_key (g e) = ep_key e \<and> (ep_active (g e) \<longrightarrow> ep_active e))" for ds
  proof (induction ds arbitrary: h)
    case Nil
    show ?case by (rule exI [of _ id]) simp
  next
    case (Cons d ds)
    obtain f where f: "endpoints (do_delivery now post d h) = map f (endpoints h)"
      "\<And>e. ep_key (f e) = ep_key e" "\<And>e. ep_active (f e) \<Longrightarrow> ep_active e"
      using do_delivery_endpoints [of now post d h] by blast
    obtain g where g: "endpoints (fold (do_delivery now post) ds (do_delivery now post d h)) =
        map g (endpoints (do_delivery now post d h))"
      "\<And>e. ep_key (g e) = ep_key e" "\<And>e. ep_active (g e) \<Longrightarrow> ep_active e"
      using Cons [of "do_delivery now post d h"] by blast
    have "endpoints (fold (do_delivery now post) (d # ds) h) = map (g \<circ> f) (endpoints h)"
      using f(1) g(1) by simp
    moreover have "ep_key ((g \<circ> f) e) = ep_key e \<and> (ep_active ((g \<circ> f) e) \<longrightarrow> ep_active e)" for e
      using f(2,3) g(2,3) by (metis comp_apply)
    ultimately show ?case by blast
  qed
  then show ?thesis by (simp add: poll_and_deliver_def)
qed

section \<open>Replaying the end of a job\<close>

definition has_delivery :: "hooks \<Rightarrow> uuid \<Rightarrow> string \<Rightarrow> uuid \<Rightarrow> bool" where
  "has_delivery h j event i \<longleftrightarrow> (\<exists>d \<in> set (deliveries h). dl_job d = Some j \<and> dl_event d = event \<and> dl_endpoint d = Some i)"

lemma has_delivery_keys:
  "has_delivery h j event i \<longleftrightarrow> (\<exists>(n, ep, jb, ev, u) \<in> set (map dl_key (deliveries h)). jb = Some j \<and> ev = event \<and> ep = Some i)"
  by (auto simp: has_delivery_def dl_key_def)

lemma create_delivery_noop:
  "has_delivery h j event i \<Longrightarrow> create_webhook_delivery now n (Some i) (Some j) event p None h = h"
  by (auto simp: create_webhook_delivery_def new_delivery_def conflicts_def has_delivery_def Let_def)

lemma create_delivery_has:
  "has_delivery (create_webhook_delivery now n (Some i) (Some j) event p None h) j event i"
  by (auto simp: create_webhook_delivery_def new_delivery_def conflicts_def has_delivery_def Let_def)

lemma create_delivery_mono:
  "has_delivery h j event i \<Longrightarrow> has_delivery (create_webhook_delivery now n e j' ev p u h) j event i"
  by (auto simp: create_webhook_delivery_def has_delivery_def Let_def)

lemma create_delivery_endpoints [simp]:
  "endpoints (create_webhook_delivery now n e j ev p u h) = endpoints h"
  by (simp add: create_webhook_delivery_def Let_def)

abbreviation create_all where
  "create_all env j event p es \<equiv> fold (\<lambda>(n, e). create_webhook_delivery (hk_now env) (hk_id env n) (Some (ep_id e)) (Some j) event p None) es"

lemma create_all_noop:
  "(\<And>n e. (n, e) \<in> set es \<Longrightarrow> has_delivery h j event (ep_id e)) \<Longrightarrow> create_all env j event p es h = h"
proof (induction es)
  case (Cons x es)
  obtain n e where x: "x = (n, e)" by force
  have "has_delivery h j event (ep_id e)" using Cons.prems [of n e] by (simp add: x)
  moreover have "create_all env j event p es h = h" by (rule Cons.IH) (use Cons.prems in auto)
  ultimately show ?case by (simp add: x create_delivery_noop)
qed simp

lemma create_all_mono: "has_delivery h j event i \<Longrightarrow> has_delivery (create_all env j event p es h) j event i"
  by (induction es arbitrary: h) (auto simp: create_delivery_mono)

lemma create_all_has: "(n, e) \<in> set es \<Longrightarrow> has_delivery (create_all env j event p es h) j event (ep_id e)"
  by (induction es arbitrary: h) (auto simp: create_all_mono create_delivery_has)

lemma create_all_endpoints [simp]: "endpoints (create_all env j event p es h) = endpoints h"
  by (induction es arbitrary: h) auto

lemma handle_endpoints [simp]: "endpoints (handle_job_webhook env j status err w h) = endpoints h"
  by (auto simp: handle_job_webhook_def Let_def split: option.splits)

lemma find_map_key:
  "(\<And>e. P (g e) = P e) \<Longrightarrow> List.find P (map g es) = map_option g (List.find P es)"
  by (induction es) auto

lemma handle_eq:
  assumes "jobs w j = Some job"
  obtains p where "handle_job_webhook env j status err w h =
    (if dget (job_parameters job) ''elevenlabs_webhook_enabled'' = Some (PBool False) then h
     else create_all env j (job_event status) p (enumerate 0 (webhook_targets w h job (job_event status))) h)"
  by (rule that) (simp only: handle_job_webhook_def assms option.case Let_def)

lemma in_enumerate: "i \<in> f ` set xs \<Longrightarrow> \<exists>n x. (n, x) \<in> set (enumerate 0 xs) \<and> f x = i"
  by (auto simp: in_set_conv_nth [of _ xs] in_set_enumerate_eq image_iff)

lemma targets_after:
  assumes g: "endpoints h' = map g (endpoints h)" "\<And>e. ep_key (g e) = ep_key e" "\<And>e. ep_active (g e) \<Longrightarrow> ep_active e"
    and w: "jobs w' j = jobs w j"
    and e: "e \<in> set (webhook_targets w' h' job event)"
  shows "ep_id e \<in> ep_id ` set (webhook_targets w h job event)"
proof -
  have key: "ep_id (g e) = ep_id e" "ep_tenant (g e) = ep_tenant e" "ep_events (g e) = ep_events e" for e
    using g(2) [of e] by (simp_all add: ep_key_def)
  have get: "get_endpoint h' i t = map_option g (get_endpoint h i t)" for i t
    by (simp add: get_endpoint_def g(1) find_map_key key)
  have sub: "ep_id ` set (get_endpoints_for_event h' t event) \<subseteq> ep_id ` set (get_endpoints_for_event h t event)" for t
    using g(3) by (force simp: get_endpoints_for_event_def g(1) key)
  show ?thesis
    using e sub unfolding webhook_targets_def Let_def get
    by (auto simp: key split: option.splits pyval.splits bind_splits if_splits)
qed

text \<open>C26: Replaying the end of a job is harmless: once the deliveries of its event were made,
  and even after the worker has worked on them, handling the same event again (at any time,
  with any other identifiers and any error text) changes neither table.\<close>
theorem webhook_replay_idempotent:
  assumes "jobs w' j = jobs w j" and h1_def: "h1 = handle_job_webhook env j status err w h"
  shows "handle_job_webhook env' j status err' w' h1 = h1
    \<and> handle_job_webhook env' j status err' w' (poll_and_deliver now post h1) = poll_and_deliver now post h1"
proof -
  have replay: "handle_job_webhook env' j status err' w' h2 = h2"
    if keys: "map dl_key (deliveries h2) = map dl_key (deliveries h1)"
      and g: "endpoints h2 = map g (endpoints h1)" "\<And>e. ep_key (g e) = ep_key e" "\<And>e. ep_active (g e) \<Longrightarrow> ep_active e"
    for h2 g
  proof (cases "jobs w j")
    case None
    then show ?thesis using assms(1) by (simp add: handle_job_webhook_def)
  next
    case (Some job)
    have eps: "endpoints h2 = map g (endpoints h)" using g(1) by (simp add: h1_def)
    let ?off = "dget (job_parameters job) ''elevenlabs_webhook_enabled'' = Some (PBool False)"
    obtain p where p: "h1 = (if ?off then h else
        create_all env j (job_event status) p (enumerate 0 (webhook_targets w h job (job_event status))) h)"
      using handle_eq [OF Some] h1_def by blast
    obtain p' where p': "handle_job_webhook env' j status err' w' h2 = (if ?off then h2 else
        create_all env' j (job_event status) p' (enumerate 0 (webhook_targets w' h2 job (job_event status))) h2)"
      using handle_eq [of w' j job] Some assms(1) by metis
    have "has_delivery h2 j (job_event status) (ep_id e)"
      if "\<not> ?off" "(n, e) \<in> set (enumerate 0 (webhook_targets w' h2 job (job_event status)))" for n e
    proof -
      have "e \<in> set (webhook_targets w' h2 job (job_event status))"
        using that(2) by (auto simp: in_set_enumerate_eq)
      from in_enumerate [OF targets_after [OF eps g(2,3) assms(1) this]]
      obtain m e0 where e0: "(m, e0) \<in> set (enumerate 0 (webhook_targets w h job (job_event status)))"
        "ep_id e0 = ep_id e" by blast
      have "has_delivery h1 j (job_event status) (ep_id e)"
        using create_all_has [OF e0(1)] that(1) unfolding p e0(2) by (simp only: if_False)
      then show ?thesis unfolding has_delivery_keys keys .
    qed
    then have "\<not> ?off \<Longrightarrow> create_all env' j (job_event status) p'
        (enumerate 0 (webhook_targets w' h2 job (job_event status))) h2 = h2"
      by (rule create_all_noop)
    then show ?thesis unfolding p' by simp
  qed
  have "handle_job_webhook env' j status err' w' h1 = h1"
    by (rule replay [of h1 id]) (simp_all only: list.map_id id_apply)
  moreover obtain g where g: "endpoints (poll_and_deliver now post h1) = map g (endpoints h1)"
    "\<And>e. ep_key (g e) = ep_key e" "\<And>e. ep_active (g e) \<Longrightarrow> ep_active e"
    using poll_endpoints [of now post h1] by blast
  ultimately show ?thesis using replay [OF poll_keys g] by blast
qed

section \<open>The attempts that are left\<close>

definition attempts_left :: "delivery \<Rightarrow> nat" where
  "attempts_left d = (if dl_status d = DlPending then max 1 (MAX_ATTEMPTS - dl_attempts d) else 0)"

definition budget :: "hooks \<Rightarrow> nat" where
  "budget h = sum_list (map attempts_left (deliveries h))"

text \<open>The passes of the worker's loop at the given times and with the given answers: the
  requests made, and the tables at the end.\<close>

fun worker_run :: "(time \<times> (string \<Rightarrow> attempt_result)) list \<Rightarrow> hooks \<Rightarrow> nat \<times> hooks" where
  "worker_run [] h = (0, h)"
| "worker_run ((now, post) # passes) h =
     (let (n, h') = worker_run passes (poll_and_deliver now post h) in (length (due_deliveries now h) + n, h'))"

lemma after_attempt_left: "dl_status d = DlPending \<Longrightarrow> attempts_left (after_attempt now r d) < attempts_left d"
  by (auto simp: after_attempt_def attempts_left_def MAX_ATTEMPTS_def Let_def split: prod.splits)

lemma budget_upd:
  assumes "distinct (map dl_id (deliveries h))" "d \<in> set (deliveries h)" "attempts_left (f d) < attempts_left d"
  shows "budget (upd_delivery (dl_id d) f h) < budget h"
proof -
  obtain xs ys where ds: "deliveries h = xs @ d # ys" using assms(2) by (meson split_list)
  have "map (\<lambda>x. if dl_id x = dl_id d then f x else x) zs = zs" if "dl_id d \<notin> dl_id ` set zs" for zs
    using that by (induction zs) auto
  then have "deliveries (upd_delivery (dl_id d) f h) = xs @ f d # ys"
    using assms(1) unfolding upd_delivery_def ds by auto
  then show ?thesis using assms(3) by (simp add: budget_def ds)
qed

lemma budget_upd_endpoint [simp]: "budget (upd_endpoint i g h) = budget h"
  by (simp add: budget_def)

lemma budget_do_delivery:
  assumes "distinct (map dl_id (deliveries h))" "d \<in> set (deliveries h)" "dl_status d = DlPending"
  shows "budget (do_delivery now post d h) < budget h"
proof -
  have failed: "attempts_left (d\<lparr>dl_status := DlFailed, dl_error := e\<rparr>) < attempts_left d" for e
    using assms(3) by (simp add: attempts_left_def)
  have "budget (upd_delivery (dl_id d) (after_attempt now r) h) < budget h" for r
    by (rule budget_upd [OF assms(1,2)]) (rule after_attempt_left [OF assms(3)])
  moreover have "budget (upd_delivery (dl_id d) (\<lambda>r. r\<lparr>dl_status := DlFailed, dl_error := e\<rparr>) h) < budget h" for e
    by (rule budget_upd [OF assms(1,2)]) (rule failed)
  ultimately show ?thesis
    by (simp add: do_delivery_def Let_def split: option.splits)
qed

lemma do_delivery_other:
  assumes "d' \<in> set (deliveries h)" "dl_id d' \<noteq> dl_id d"
  shows "d' \<in> set (deliveries (do_delivery now post d h))"
proof -
  have "d' \<in> set (deliveries (upd_delivery (dl_id d) f h))" for f
    using assms by (force simp: upd_delivery_def)
  then show ?thesis by (simp add: do_delivery_def Let_def split: option.splits)
qed

lemma do_delivery_others:
  assumes "set ds \<subseteq> set (deliveries h)" "dl_id d \<notin> dl_id ` set ds"
  shows "set ds \<subseteq> set (deliveries (do_delivery now post d h))"
proof
  fix x assume "x \<in> set ds"
  moreover from this have "dl_id x \<noteq> dl_id d" using assms(2) imageI by metis
  ultimately show "x \<in> set (deliveries (do_delivery now post d h))"
    using assms(1) by (auto intro: do_delivery_other)
qed

lemma ids_do_delivery: "map dl_id (deliveries (do_delivery now post d h)) = map dl_id (deliveries h)"
  using do_delivery_keys [of now post d h] map_eq_conv [of fst]
  by (metis (no_types, lifting) dl_key_def fst_conv list.map_comp map_eq_conv comp_apply)

lemma budget_pass:
  assumes "distinct (map dl_id (deliveries h))" "set ds \<subseteq> set (deliveries h)" "distinct (map dl_id ds)"
    and "\<forall>d \<in> set ds. dl_status d = DlPending"
  shows "budget (fold (do_delivery now post) ds h) + length ds \<le> budget h"
  using assms
proof (induction ds arbitrary: h)
  case (Cons d ds)
  have "set ds \<subseteq> set (deliveries (do_delivery now post d h))"
    using Cons.prems(2,3) by (intro do_delivery_others) auto
  then have "budget (fold (do_delivery now post) ds (do_delivery now post d h)) + length ds
      \<le> budget (do_delivery now post d h)"
    using Cons.prems by (intro Cons.IH) (auto simp: ids_do_delivery)
  moreover have "budget (do_delivery now post d h) < budget h"
    using Cons.prems by (intro budget_do_delivery) auto
  ultimately show ?case by simp
qed simp

lemma due_deliveries_rows:
  assumes "distinct (map dl_id (deliveries h))"
  shows "set (due_deliveries now h) \<subseteq> set (deliveries h)" "distinct (map dl_id (due_deliveries now h))"
    "\<forall>d \<in> set (due_deliveries now h). dl_status d = DlPending"
proof -
  have "distinct (deliveries h)" using assms by (simp add: distinct_map)
  then have "distinct (due_deliveries now h)" by (simp add: due_deliveries_def)
  moreover show sub: "set (due_deliveries now h) \<subseteq> set (deliveries h)"
    by (auto simp: due_deliveries_def dest: in_set_takeD)
  ultimately show "distinct (map dl_id (due_deliveries now h))"
    using assms by (auto simp: distinct_map intro: inj_on_subset)
  show "\<forall>d \<in> set (due_deliveries now h). dl_status d = DlPending"
    by (auto simp: due_deliveries_def dest: in_set_takeD)
qed

lemma ids_poll: "map dl_id (deliveries (poll_and_deliver now post h)) = map dl_id (deliveries h)"
proof -
  have "map fst (map dl_key (deliveries h)) = map dl_id (deliveries h)" for h by (simp add: dl_key_def)
  then show ?thesis using poll_keys by metis
qed


lemma failing_attempt:
  assumes "\<not> fst r"
  shows "dl_attempts (after_attempt t r d) = dl_attempts d + 1"
    and "dl_status (after_attempt t r d) = (if dl_attempts d + 1 \<ge> MAX_ATTEMPTS then DlFailed else dl_status d)"
    and "dl_next (after_attempt t r d) = (if dl_attempts d + 1 \<ge> MAX_ATTEMPTS then None
      else Some (t + RETRY_DELAYS ! min (dl_attempts d + 1) (length RETRY_DELAYS - 1)))"
  using assms by (auto simp: after_attempt_def Let_def split: prod.splits)

lemma up_to_four: "n \<le> 4 \<Longrightarrow> n \<in> {0, 1, 2, 3, 4 :: nat}"
  by (simp, presburger)

text \<open>The ladder of a delivery that always fails: it stays pending for four attempts, each
  followed by the wait the table names (30 seconds, 2 minutes, 10 minutes, 1 hour), and after
  the fifth it has failed and is never due again.\<close>
theorem delivery_ladder:
  assumes "\<forall>(t, r) \<in> set outcomes. \<not> fst r" "0 < length outcomes" "length outcomes \<le> 5"
    and d: "d = fold (\<lambda>(t, r). after_attempt t r) outcomes (new_delivery now i ep j event payload url)"
  shows "dl_attempts d = length outcomes
    \<and> (length outcomes < 5 \<longrightarrow> dl_status d = DlPending
          \<and> dl_next d = Some (fst (last outcomes) + [30, 120, 600, 3600] ! (length outcomes - 1)))
    \<and> (length outcomes = 5 \<longrightarrow> dl_status d = DlFailed \<and> dl_next d = None)"
  using assms
proof (induction outcomes arbitrary: d rule: rev_induct)
  case (snoc x outs)
  obtain t r where x: "x = (t, r)" using prod.exhaust by blast
  define d' where "d' = fold (\<lambda>(t, r). after_attempt t r) outs (new_delivery now i ep j event payload url)"
  have r: "\<not> fst r" using snoc.prems(1) by (auto simp: x)
  have d: "d = after_attempt t r d'" using snoc.prems(4) by (simp add: x d'_def)
  have d': "dl_attempts d' = length outs \<and> dl_status d' = DlPending"
  proof (cases outs)
    case Nil
    then show ?thesis by (simp add: d'_def new_delivery_def)
  next
    case Cons
    then show ?thesis using snoc.IH [OF _ _ _ d'_def] snoc.prems by auto
  qed
  have "length outs \<in> {0, 1, 2, 3, 4}" by (rule up_to_four) (use snoc.prems(3) in simp)
  then show ?case
    using d' by (auto simp: d failing_attempt [OF r] x MAX_ATTEMPTS_def RETRY_DELAYS_def numeral_eq_Suc)
qed simp

section \<open>Disabling an endpoint\<close>

text \<open>The outcomes of one endpoint's deliveries, each with its time and the row as it was read.\<close>

type_synonym outcome = "time \<times> attempt_result \<times> delivery"

definition delivered :: "outcome \<Rightarrow> bool" where
  "delivered x = fst (fst (snd x))"

definition exhausted :: "outcome \<Rightarrow> bool" where
  "exhausted x = (\<not> delivered x \<and> dl_attempts (snd (snd x)) + 1 \<ge> MAX_ATTEMPTS)"

definition endpoint_log :: "outcome list \<Rightarrow> endpoint \<Rightarrow> endpoint" where
  "endpoint_log = fold (\<lambda>(now, r, d). endpoint_after now r d)"

definition recent_failures :: "outcome list \<Rightarrow> nat" where
  "recent_failures xs = length (filter exhausted (takeWhile (\<lambda>x. \<not> delivered x) (rev xs)))"

lemma recent_failures_snoc:
  "recent_failures (xs @ [x]) = (if delivered x then 0 else recent_failures xs + (if exhausted x then 1 else 0))"
proof -
  have "rev (xs @ [x]) = x # rev xs" by simp
  then show ?thesis by (cases "delivered x"; cases "exhausted x") (simp_all only: recent_failures_def takeWhile.simps, simp_all)
qed

lemma endpoint_log_state:
  assumes "ep_failures e = 0" "sorted (map fst xs)"
  shows "ep_failures (endpoint_log xs e) = int (recent_failures xs)
    \<and> (\<forall>y \<in> set xs. delivered y \<longrightarrow> (\<exists>t. ep_last_success (endpoint_log xs e) = Some t \<and> fst y \<le> t))"
  using assms(2)
proof (induction xs rule: rev_induct)
  case Nil
  then show ?case by (simp add: endpoint_log_def recent_failures_def assms(1))
next
  case (snoc x xs)
  obtain t r d where x: "x = (t, r, d)" by (cases x)
  have IH: "ep_failures (endpoint_log xs e) = int (recent_failures xs)"
    "\<And>y. y \<in> set xs \<Longrightarrow> delivered y \<Longrightarrow> \<exists>t. ep_last_success (endpoint_log xs e) = Some t \<and> fst y \<le> t"
    and late: "\<And>y. y \<in> set xs \<Longrightarrow> fst y \<le> t"
    using snoc by (auto simp: sorted_append x)
  have log: "endpoint_log (xs @ [x]) e = endpoint_after t r d (endpoint_log xs e)"
    by (simp add: endpoint_log_def x)
  show ?case
    using IH late unfolding log recent_failures_snoc
    by (auto simp: x delivered_def exhausted_def endpoint_after_def check_auto_disable_def)
qed

text \<open>An endpoint that was active with no failures on record is disabled only by an
  exhausted delivery that is at least the tenth since its last success, and only if every
  success it ever had is seven days old or older.\<close>
lemma auto_disable_needs_ten:
  assumes "ep_active e" "ep_failures e = 0" "sorted (map fst xs)"
    and "\<not> ep_active (endpoint_log xs e)"
  shows "\<exists>ys x zs. xs = ys @ x # zs \<and> exhausted x \<and> 10 \<le> recent_failures (ys @ [x])
    \<and> (\<forall>y \<in> set ys. delivered y \<longrightarrow> fst y + 7 * 86400 \<le> fst x)"
  using assms(3,4)
proof (induction xs rule: rev_induct)
  case Nil
  then show ?case using assms(1) by (simp add: endpoint_log_def)
next
  case (snoc x xs)
  obtain t r d where x: "x = (t, r, d)" by (cases x)
  have srt: "sorted (map fst xs)" using snoc.prems(1) by (simp add: sorted_append)
  show ?case
  proof (cases "ep_active (endpoint_log xs e)")
    case False
    then obtain ys x' zs where "xs = ys @ x' # zs" "exhausted x'" "10 \<le> recent_failures (ys @ [x'])"
      "\<forall>y \<in> set ys. delivered y \<longrightarrow> fst y + 7 * 86400 \<le> fst x'"
      using snoc.IH [OF srt] by blast
    then show ?thesis by (intro exI [of _ ys] exI [of _ x'] exI [of _ "zs @ [x]"]) simp
  next
    case True
    let ?e = "endpoint_log xs e"
    have log: "endpoint_log (xs @ [x]) e = endpoint_after t r d ?e" by (simp add: endpoint_log_def x)
    have off: "exhausted x" "ep_failures ?e + 1 \<ge> 10"
      "\<And>s. ep_last_success ?e = Some s \<Longrightarrow> s + 7 * 86400 \<le> t"
      using True snoc.prems(2) unfolding log
      by (auto simp: x exhausted_def delivered_def endpoint_after_def check_auto_disable_def
          AUTO_DISABLE_FAILURE_THRESHOLD_def AUTO_DISABLE_SUCCESS_WINDOW_DAYS_def split: if_splits)
    have "delivered y \<longrightarrow> fst y + 7 * 86400 \<le> t" if "y \<in> set xs" for y
      using endpoint_log_state [OF assms(2) srt] off(3) that by fastforce
    moreover have "\<not> delivered x" using off(1) by (simp add: exhausted_def)
    ultimately show ?thesis
      using off(1,2) endpoint_log_state [OF assms(2) srt]
      by (intro exI [of _ xs] exI [of _ x] exI [of _ "[]"]) (simp add: recent_failures_snoc x)
  qed
qed

section \<open>The tables in every reachable state\<close>

text \<open>One operation of the service, of the handler or of the worker. New identifiers are new.\<close>

inductive hook_step :: "hooks \<Rightarrow> hooks \<Rightarrow> bool" where
  Create: "i \<notin> ep_id ` set (endpoints h) \<Longrightarrow>
     create_endpoint url_ok now i secret tenant url subs descr owner h = Inr h' \<Longrightarrow> hook_step h h'"
| Update: "update_endpoint url_ok i tenant url' subs' descr active h = Inr (Some h') \<Longrightarrow> hook_step h h'"
| Delete: "delete_endpoint i tenant h = Inr (h', found) \<Longrightarrow> hook_step h h'"
| Rotate: "hook_step h (rotate_secret i tenant secret h)"
| Retry: "retry_delivery now i d tenant h = Inr (Some h') \<Longrightarrow> hook_step h h'"
| Work: "hook_step h (poll_and_deliver now post h)"
| Ended: "inj (hk_id env) \<Longrightarrow> range (hk_id env) \<inter> dl_id ` set (deliveries h) = {} \<Longrightarrow>
     hook_step h (handle_job_webhook env j status err w h)"

inductive hooks_reachable :: "hooks \<Rightarrow> bool" where
  Empty: "hooks_reachable \<lparr>endpoints = [], deliveries = []\<rparr>"
| Step: "hooks_reachable h \<Longrightarrow> hook_step h h' \<Longrightarrow> hooks_reachable h'"

definition hooks_ok :: "hooks \<Rightarrow> bool" where
  "hooks_ok h \<longleftrightarrow> distinct (map ep_id (endpoints h)) \<and> distinct (map dl_id (deliveries h))
     \<and> sorted_wrt (\<lambda>a b. \<not> conflicts a b) (deliveries h)
     \<and> (\<forall>d \<in> set (deliveries h). \<exists>e \<in> set (endpoints h). dl_endpoint d = Some (ep_id e))
     \<and> (\<forall>d \<in> set (deliveries h). dl_status d = DlPending \<longleftrightarrow> dl_next d \<noteq> None)"

definition row_ok :: "delivery \<Rightarrow> bool" where
  "row_ok d \<longleftrightarrow> (dl_status d = DlPending \<longleftrightarrow> dl_next d \<noteq> None)"

definition key_conflict where
  "key_conflict = (\<lambda>(n, ep, jb, ev, u) (n', ep', jb', ev', u').
     jb \<noteq> None \<and> jb = jb' \<and> ev = ev' \<and> (ep \<noteq> None \<and> ep = ep' \<or> u \<noteq> None \<and> u = (u' :: string option)))"

definition delivery_keys_ok :: "uuid list \<Rightarrow> (uuid \<times> uuid option \<times> uuid option \<times> string \<times> string option) list \<Rightarrow> bool" where
  "delivery_keys_ok eps ks \<longleftrightarrow> distinct eps \<and> distinct (map fst ks) \<and> sorted_wrt (\<lambda>a b. \<not> key_conflict a b) ks
     \<and> (\<forall>k \<in> set ks. \<exists>i \<in> set eps. fst (snd k) = Some i)"

lemma conflicts_key: "conflicts a b = key_conflict (dl_key a) (dl_key b)"
  by (auto simp: conflicts_def key_conflict_def dl_key_def)

lemma hooks_ok_iff:
  "hooks_ok h \<longleftrightarrow> delivery_keys_ok (map ep_id (endpoints h)) (map dl_key (deliveries h)) \<and> (\<forall>d \<in> set (deliveries h). row_ok d)"
proof -
  have ids: "map fst (map dl_key (deliveries h)) = map dl_id (deliveries h)" by (simp add: dl_key_def)
  have refs: "(\<forall>k \<in> set (map dl_key (deliveries h)). \<exists>i \<in> set (map ep_id (endpoints h)). fst (snd k) = Some i) \<longleftrightarrow>
    (\<forall>d \<in> set (deliveries h). \<exists>e \<in> set (endpoints h). dl_endpoint d = Some (ep_id e))"
    by (simp add: dl_key_def)
  show ?thesis
    unfolding hooks_ok_def delivery_keys_ok_def row_ok_def conflicts_key sorted_wrt_map ids refs by blast
qed

lemma hooks_ok_keys:
  assumes "hooks_ok h" "map ep_id (endpoints h') = map ep_id (endpoints h)"
    "map dl_key (deliveries h') = map dl_key (deliveries h)" "\<forall>d \<in> set (deliveries h'). row_ok d"
  shows "hooks_ok h'"
  using assms unfolding hooks_ok_iff by simp

lemma ids_upd_endpoint [simp]:
  "(\<And>e. ep_id (f e) = ep_id e) \<Longrightarrow> map ep_id (endpoints (upd_endpoint i f h)) = map ep_id (endpoints h)"
  by (rule map_upd_endpoint)

lemma hooks_ok_upd_endpoint:
  "hooks_ok h \<Longrightarrow> (\<And>e. ep_id (f e) = ep_id e) \<Longrightarrow> hooks_ok (upd_endpoint i f h)"
  unfolding hooks_ok_iff by simp

lemma endpoint_update_id [simp]: "ep_id (endpoint_update url subs descr active e) = ep_id e"
  by (auto simp: endpoint_update_def Let_def split: option.splits bool.splits)

lemma after_attempt_row: "row_ok d \<Longrightarrow> dl_status d = DlPending \<Longrightarrow> row_ok (after_attempt now r d)"
  by (auto simp: row_ok_def after_attempt_def Let_def split: prod.splits)

lemma hooks_ok_upd_delivery:
  assumes "hooks_ok h" "\<And>d. dl_key (f d) = dl_key d"
    and "\<And>d. d \<in> set (deliveries h) \<Longrightarrow> dl_id d = i \<Longrightarrow> row_ok (f d)"
  shows "hooks_ok (upd_delivery i f h)"
proof (rule hooks_ok_keys [OF assms(1)])
  show "map dl_key (deliveries (upd_delivery i f h)) = map dl_key (deliveries h)"
    by (rule map_upd_delivery) (rule assms(2))
  show "\<forall>d \<in> set (deliveries (upd_delivery i f h)). row_ok d"
    using assms(1,3) by (auto simp: upd_delivery_def hooks_ok_iff)
qed simp

lemma hooks_ok_do_delivery:
  assumes "hooks_ok h" "d \<in> set (deliveries h)" "dl_status d = DlPending"
  shows "hooks_ok (do_delivery now post d h)"
proof -
  obtain i where i: "dl_endpoint d = Some i" "i \<in> ep_id ` set (endpoints h)"
    using assms(1,2) by (fastforce simp: hooks_ok_def)
  then obtain e where e: "List.find (\<lambda>e. ep_id e = i) (endpoints h) = Some e"
    by (cases "List.find (\<lambda>e. ep_id e = i) (endpoints h)") (auto simp: find_None_iff)
  have "distinct (map dl_id (deliveries h))" using assms(1) by (simp add: hooks_ok_def)
  then have same: "d' = d" if "d' \<in> set (deliveries h)" "dl_id d' = dl_id d" for d'
    using that assms(2) by (auto simp: distinct_map inj_on_def)
  have "hooks_ok (upd_delivery (dl_id d) (after_attempt now r) h)" for r
    by (rule hooks_ok_upd_delivery)
      (use assms same in \<open>auto simp: hooks_ok_iff intro: after_attempt_row\<close>)
  moreover have "ep_id (endpoint_after now r d e) = ep_id e" for r e
    using endpoint_after_key [of now r d e] by (simp add: ep_key_def)
  ultimately show ?thesis
    by (simp add: do_delivery_def i(1) e Let_def hooks_ok_upd_endpoint)
qed

lemma hooks_ok_poll:
  assumes "hooks_ok h"
  shows "hooks_ok (poll_and_deliver now post h)"
proof -
  have "hooks_ok (fold (do_delivery now post) ds h)"
    if "hooks_ok h" "set ds \<subseteq> set (deliveries h)" "distinct (map dl_id ds)" "\<forall>d \<in> set ds. dl_status d = DlPending" for ds h
    using that
  proof (induction ds arbitrary: h)
    case (Cons d ds)
    have "set ds \<subseteq> set (deliveries (do_delivery now post d h))"
      using Cons.prems(2,3) by (intro do_delivery_others) auto
    then show ?case using Cons by (auto intro!: Cons.IH hooks_ok_do_delivery)
  qed simp
  moreover have "distinct (map dl_id (deliveries h))" using assms by (simp add: hooks_ok_def)
  ultimately show ?thesis
    unfolding poll_and_deliver_def using assms due_deliveries_rows by blast
qed

lemma hooks_ok_create:
  assumes "hooks_ok h" "n \<notin> dl_id ` set (deliveries h)" "i \<in> ep_id ` set (endpoints h)"
  shows "hooks_ok (create_webhook_delivery now n (Some i) j event p None h)"
proof -
  have "conflicts a b \<longleftrightarrow> conflicts b a" for a b unfolding conflicts_def by metis
  then show ?thesis
    using assms by (auto simp: create_webhook_delivery_def hooks_ok_def new_delivery_def Let_def sorted_wrt_append)
qed

lemma create_ids:
  "dl_id ` set (deliveries (create_webhook_delivery now n e j ev p u h)) \<subseteq> insert n (dl_id ` set (deliveries h))"
  by (auto simp: create_webhook_delivery_def new_delivery_def Let_def)

lemma hooks_ok_create_all:
  assumes "hooks_ok h" "inj (hk_id env)" "distinct (map fst es)"
    "\<forall>(n, e) \<in> set es. hk_id env n \<notin> dl_id ` set (deliveries h) \<and> ep_id e \<in> ep_id ` set (endpoints h)"
  shows "hooks_ok (create_all env j event p es h)"
  using assms
proof (induction es arbitrary: h)
  case (Cons x es)
  obtain n e where x: "x = (n, e)" using prod.exhaust by blast
  let ?h = "create_webhook_delivery (hk_now env) (hk_id env n) (Some (ep_id e)) (Some j) event p None h"
  have "hk_id env m \<notin> dl_id ` set (deliveries ?h)" if "(m, f) \<in> set es" for m f
  proof -
    have "m \<noteq> n" using Cons.prems(3) that by (force simp: x)
    then have "hk_id env m \<noteq> hk_id env n" using Cons.prems(2) by (simp add: inj_eq)
    moreover have "hk_id env m \<notin> dl_id ` set (deliveries h)" using Cons.prems(4) that by auto
    ultimately show ?thesis using create_ids by blast
  qed
  then have "hooks_ok (create_all env j event p es ?h)"
    using Cons.prems by (intro Cons.IH hooks_ok_create) (auto simp: x)
  then show ?case by (simp add: x)
qed simp

lemma targets_endpoints: "set (webhook_targets w h job event) \<subseteq> set (endpoints h)"
  by (auto simp: webhook_targets_def get_endpoints_for_event_def get_endpoint_def Let_def find_Some_iff
      split: option.splits pyval.splits if_splits bind_splits dest!: nth_mem)

lemma hooks_ok_handle:
  assumes "hooks_ok h" "inj (hk_id env)" "range (hk_id env) \<inter> dl_id ` set (deliveries h) = {}"
  shows "hooks_ok (handle_job_webhook env j status err w h)"
proof (cases "jobs w j")
  case None
  then show ?thesis using assms(1) by (simp add: handle_job_webhook_def)
next
  case (Some job)
  let ?es = "enumerate 0 (webhook_targets w h job (job_event status))"
  have "hooks_ok (create_all env j (job_event status) p ?es h)" for p
  proof (rule hooks_ok_create_all [OF assms(1,2)])
    show "distinct (map fst ?es)" by simp
    show "\<forall>(n, e) \<in> set ?es. hk_id env n \<notin> dl_id ` set (deliveries h) \<and> ep_id e \<in> ep_id ` set (endpoints h)"
    proof clarify
      fix n e assume "(n, e) \<in> set ?es"
      then have "e \<in> set (endpoints h)" using targets_endpoints [of w h job] nth_mem
        by (fastforce simp: in_set_enumerate_eq)
      then show "hk_id env n \<notin> dl_id ` set (deliveries h) \<and> ep_id e \<in> ep_id ` set (endpoints h)"
        using assms(3) by blast
    qed
  qed
  then show ?thesis using assms(1) handle_eq [OF Some] by (metis (no_types))
qed

text \<open>In every reachable state of the tables identifiers are unique, no job has two
  deliveries of one event for one endpoint, every delivery names an endpoint that exists (so
  that the worker never finds it missing), and a delivery is pending exactly when it has a
  time at which it is due.\<close>
lemma webhook_tables_ok: "hooks_reachable h \<Longrightarrow> hooks_ok h"
proof (induction rule: hooks_reachable.induct)
  case Empty
  show ?case by (simp add: hooks_ok_def)
next
  case (Step h h')
  from Step.hyps(2) Step.IH show ?case
  proof (cases rule: hook_step.cases)
    case (Create i)
    then show ?thesis using Step.IH by (auto simp: create_endpoint_def hooks_ok_def split: if_splits)
  next
    case (Update url_ok i tenant url' subs' descr active)
    then show ?thesis
      using Step.IH by (auto simp: update_endpoint_def split: option.splits if_splits
          intro!: hooks_ok_upd_endpoint)
  next
    case (Delete i tenant found)
    then show ?thesis
      using Step.IH by (auto simp: delete_endpoint_def hooks_ok_def distinct_map_filter split: option.splits if_splits) blast
  next
    case (Rotate i tenant secret)
    then show ?thesis
      using Step.IH by (auto simp: rotate_secret_def split: option.splits intro!: hooks_ok_upd_endpoint)
  next
    case (Retry now i d tenant)
    then show ?thesis
      using Step.IH by (auto simp: retry_delivery_def split: option.splits if_splits
          intro!: hooks_ok_upd_delivery simp: dl_key_def row_ok_def)
  next
    case Work
    then show ?thesis using Step.IH by (simp add: hooks_ok_poll)
  next
    case Ended
    then show ?thesis using Step.IH by (simp add: hooks_ok_handle)
  qed
qed

section \<open>Concrete tables\<close>

text \<open>A tenant with two endpoints, and the end of its job handled for both.\<close>

definition demo_endpoint :: "uuid \<Rightarrow> endpoint" where
  "demo_endpoint i = \<lparr>ep_id = i, ep_tenant = 3, ep_url = ''https://a'', ep_secret = ''whsec_x'',
     ep_description = None, ep_active = True, ep_disabled_reason = None, ep_failures = 0,
     ep_last_success = None, ep_created = 0, ep_owner = None, ep_events = [''*'']\<rparr>"

definition demo_hook_env :: "time \<Rightarrow> uuid \<Rightarrow> hook_env" where
  "demo_hook_env t n = \<lparr>hk_now = t, hk_id = (\<lambda>i. n + i), hk_payload_id = ''0123''\<rparr>"

definition demo_hooks :: hooks where
  "demo_hooks = handle_job_webhook (demo_hook_env 5 40) 7 ''failed'' None (demo_submitted [])
     \<lparr>endpoints = [demo_endpoint 1, demo_endpoint 2], deliveries = []\<rparr>"

lemma demo_hooks_rows:
  "map (\<lambda>d. (dl_id d, dl_endpoint d)) (deliveries demo_hooks) = [(40, Some 1), (41, Some 2)]"
  "endpoints demo_hooks = [demo_endpoint 1, demo_endpoint 2]"
  by code_simp+

lemma cursor_pages_complete_example:
  "concat (follow_pages 1 (\<lambda>c. list_deliveries 1 3 None 2 c True demo_hooks) None)
     = sort_key cursor_of (endpoint_deliveries demo_hooks 1 None)"
proof -
  have "distinct (map dl_id (deliveries demo_hooks))" "get_endpoint demo_hooks 1 3 \<noteq> None"
    "length (deliveries demo_hooks) \<le> 1 * 2" by code_simp+
  from cursor_pages_complete [OF this(1,2) _ this(3), of None True] show ?thesis by simp
qed

theorem webhook_replay_idempotent_witness:
  "handle_job_webhook (demo_hook_env 9 60) 7 ''failed'' None (demo_submitted []) demo_hooks = demo_hooks
     \<and> deliveries demo_hooks \<noteq> []"
  using webhook_replay_idempotent [OF refl demo_hooks_def] demo_hooks_rows(1) by auto


theorem delivery_ladder_witness:
  "dl_next (fold (\<lambda>(t, r). after_attempt t r) [(0, False, None, Some ''timeout''), (30, False, None, Some ''timeout'')]
     (new_delivery 0 1 None None ''e'' [] (Some ''u''))) = Some 150"
  using delivery_ladder [OF _ _ _ refl, of "[(0, False, None, Some ''timeout''), (30, False, None, Some ''timeout'')]"
      0 1 None None "''e''" "[]" "Some ''u''"] by simp

lemma auto_disable_needs_ten_example:
  "\<exists>ys x zs. replicate 10 (8 :: time, (False, None, None), (new_delivery 0 1 None None ''e'' [] None)\<lparr>dl_attempts := 4\<rparr>) = ys @ x # zs
     \<and> exhausted x \<and> 10 \<le> recent_failures (ys @ [x])"
proof -
  let ?xs = "replicate 10 (8 :: time, (False, None, None), (new_delivery 0 1 None None ''e'' [] None)\<lparr>dl_attempts := 4\<rparr>)"
  have "ep_active (demo_endpoint 1)" "ep_failures (demo_endpoint 1) = 0" "sorted (map fst ?xs)"
    "\<not> ep_active (endpoint_log ?xs (demo_endpoint 1))" by code_simp+
  from auto_disable_needs_ten [OF this] show ?thesis by blast
qed

lemma webhook_tables_ok_example: "hooks_ok demo_hooks"
proof (rule webhook_tables_ok)
  have create: "hook_step h (h\<lparr>endpoints := endpoints h @ [demo_endpoint i]\<rparr>)"
    if "i \<notin> ep_id ` set (endpoints h)" for i h
    by (rule hook_step.Create [OF that, where url_ok = "\<lambda>_. True" and now = 0 and secret = "''x''" and tenant = 3
          and url = "''https://a''" and subs = "[''*'']" and descr = None and owner = None])
      (simp add: create_endpoint_def valid_events_def ALLOWED_EVENTS_def demo_endpoint_def)
  have one: "hooks_reachable \<lparr>endpoints = [demo_endpoint 1], deliveries = []\<rparr>"
    using hooks_reachable.Step [OF hooks_reachable.Empty create [of 1]] by simp
  have two: "hooks_reachable \<lparr>endpoints = [demo_endpoint 1, demo_endpoint 2], deliveries = []\<rparr>"
    using hooks_reachable.Step [OF one create [of 2]] by (simp add: demo_endpoint_def)
  show "hooks_reachable demo_hooks"
    unfolding demo_hooks_def
    by (rule hooks_reachable.Step [OF two], rule hook_step.Ended) (auto simp: demo_hook_env_def inj_def)
qed

end
