(* ===== verification/Events.thy ===== *)
theory Events
  imports Webhooks ConsumerGroups
begin

text \<open>
  The durable event stream of the orchestrator: what the publishers of
  \<open>dalston/common/events.py\<close> append, how \<open>dalston/common/durable_events.py\<close> reads, claims,
  acknowledges and quarantines it, and how \<open>dalston/orchestrator/distributed_main.py\<close>
  dispatches an event and decides what becomes of it. A message is identified by its position
  in the stream, which is never trimmed; the real-time channel, traces and metrics are left
  out, except for the trace context an event carries.
\<close>

section \<open>Publishing\<close>

type_synonym fields = "(string \<times> string) list"

datatype published =
    PubJobCreated uuid "string option"
  | PubTaskCompleted uuid uuid string
  | PubTaskFailed uuid uuid string
  | PubJobCompleted uuid
  | PubJobFailed uuid string
  | PubJobCancelRequested uuid
  | PubJobCancelled uuid
  | PubEngineNeeded string string uuid uuid "string option"

definition PUuid :: "uuid \<Rightarrow> pyval" where
  "PUuid i = PStr (uuid_text i)"

fun published_type :: "published \<Rightarrow> string" where
  "published_type (PubJobCreated _ _) = ''job.created''"
| "published_type (PubTaskCompleted _ _ _) = ''task.completed''"
| "published_type (PubTaskFailed _ _ _) = ''task.failed''"
| "published_type (PubJobCompleted _) = ''job.completed''"
| "published_type (PubJobFailed _ _) = ''job.failed''"
| "published_type (PubJobCancelRequested _) = ''job.cancel_requested''"
| "published_type (PubJobCancelled _) = ''job.cancelled''"
| "published_type (PubEngineNeeded _ _ _ _ _) = ''engine.needed''"

fun published_payload :: "published \<Rightarrow> dict" where
  "published_payload (PubJobCreated j r) = (''job_id'', PUuid j)
     # (case nonempty r of None \<Rightarrow> [] | Some s \<Rightarrow> [(''request_id'', PStr s)])"
| "published_payload (PubTaskCompleted t j stage) = [(''task_id'', PUuid t), (''job_id'', PUuid j), (''stage'', PStr stage)]"
| "published_payload (PubTaskFailed t j err) = [(''task_id'', PUuid t), (''job_id'', PUuid j), (''error'', PStr err)]"
| "published_payload (PubJobCompleted j) = [(''job_id'', PUuid j)]"
| "published_payload (PubJobFailed j err) = [(''job_id'', PUuid j), (''error'', PStr err)]"
| "published_payload (PubJobCancelRequested j) = [(''job_id'', PUuid j)]"
| "published_payload (PubJobCancelled j) = [(''job_id'', PUuid j)]"
| "published_payload (PubEngineNeeded e stage j t lang) =
     [(''engine_id'', PStr e), (''stage'', PStr stage), (''job_id'', PUuid j), (''task_id'', PUuid t)]
     @ (case nonempty lang of None \<Rightarrow> [] | Some l \<Rightarrow> [(''language'', PStr l)])"

definition DURABLE_EVENT_TYPES :: "string set" where
  "DURABLE_EVENT_TYPES = {''job.created'', ''task.started'', ''task.completed'', ''task.failed'',
     ''task.wait_timeout'', ''job.completed'', ''job.failed'', ''job.cancel_requested'',
     ''job.cancelled'', ''engine.needed''}"

text \<open>The fields \<open>add_durable_event\<close> appends, with the time as text and the trace context of the
  moment; \<open>fl\<close> renders the floats of a payload.\<close>

definition add_durable_event :: "(rat \<Rightarrow> string) \<Rightarrow> string \<Rightarrow> dict \<Rightarrow> string \<Rightarrow> dict \<Rightarrow> fields" where
  "add_durable_event fl stamp ctx etype payload =
     [(''type'', etype), (''timestamp'', stamp), (''payload'', json_dumps fl (PDict payload))]
     @ (if ctx = [] then [] else [(''_trace_context'', json_dumps fl (PDict ctx))])"

text \<open>\<open>publish_event\<close>: what it adds to the stream.\<close>

definition publish_event ::
  "(rat \<Rightarrow> string) \<Rightarrow> string \<Rightarrow> dict \<Rightarrow> string \<Rightarrow> dict \<Rightarrow> bool option \<Rightarrow> fields list \<Rightarrow> fields list" where
  "publish_event fl stamp ctx etype payload durable evs =
     (if (case durable of Some b \<Rightarrow> b | None \<Rightarrow> etype \<in> DURABLE_EVENT_TYPES)
      then evs @ [add_durable_event fl stamp ctx etype payload] else evs)"

definition publish_all :: "(rat \<Rightarrow> string) \<Rightarrow> string \<Rightarrow> dict \<Rightarrow> published \<Rightarrow> fields list \<Rightarrow> fields list" where
  "publish_all fl stamp ctx p evs = publish_event fl stamp ctx (published_type p) (published_payload p) None evs"

section \<open>Envelopes\<close>

datatype failure_reason = InvalidPayloadJson | InvalidEventSchema | UnknownEventType | HandlerException | DispatchError

fun reason_text :: "failure_reason \<Rightarrow> string" where
  "reason_text InvalidPayloadJson = ''invalid_payload_json''"
| "reason_text InvalidEventSchema = ''invalid_event_schema''"
| "reason_text UnknownEventType = ''unknown_event_type''"
| "reason_text HandlerException = ''handler_exception''"
| "reason_text DispatchError = ''dispatch_error''"

record envelope =
  en_message :: nat
  en_count :: nat
  en_raw :: fields
  en_type :: "string option"
  en_timestamp :: "string option"
  en_payload :: "dict option"
  en_raw_payload :: "string option"
  en_trace :: "dict option"
  en_failure :: "failure_reason option"
  en_error :: "string option"

definition parse_trace_context :: "string option \<Rightarrow> dict option" where
  "parse_trace_context raw =
     (case raw of None \<Rightarrow> None
      | Some s \<Rightarrow> (case json_loads s of Some (PDict d) \<Rightarrow> Some d | _ \<Rightarrow> None))"

text \<open>\<open>bad_json\<close> is the wording of the JSON error.\<close>

definition parse_envelope :: "(string \<Rightarrow> string) \<Rightarrow> nat \<Rightarrow> fields \<Rightarrow> nat \<Rightarrow> envelope" where
  "parse_envelope bad_json n fs k =
     (let e = \<lparr>en_message = n, en_count = max k 1, en_raw = fs, en_type = nonempty (dget fs ''type''),
               en_timestamp = nonempty (dget fs ''timestamp''), en_payload = None,
               en_raw_payload = dget fs ''payload'', en_trace = parse_trace_context (dget fs ''_trace_context''),
               en_failure = None, en_error = None\<rparr>
      in if en_type e = None
         then e\<lparr>en_failure := Some InvalidEventSchema, en_error := Some ''missing_or_invalid_type''\<rparr>
         else (case en_raw_payload e of
                 None \<Rightarrow> e\<lparr>en_failure := Some InvalidEventSchema, en_error := Some ''missing_payload_field''\<rparr>
               | Some raw \<Rightarrow>
                   (case json_loads raw of
                      None \<Rightarrow> e\<lparr>en_failure := Some InvalidPayloadJson, en_error := Some (bad_json raw)\<rparr>
                    | Some (PDict d) \<Rightarrow> e\<lparr>en_payload := Some d\<rparr>
                    | Some _ \<Rightarrow> e\<lparr>en_failure := Some InvalidEventSchema, en_error := Some ''payload_must_be_json_object''\<rparr>)))"

definition to_event_dict :: "envelope \<Rightarrow> dict option" where
  "to_event_dict e =
     (if en_failure e \<noteq> None then None
      else (case (en_type e, en_payload e) of
              (Some t, Some p) \<Rightarrow>
                (let d0 = dmerge [(''type'', PStr t)] p;
                     d1 = (case en_timestamp e of None \<Rightarrow> d0 | Some s \<Rightarrow> dset ''timestamp'' (PStr s) d0)
                 in Some (case en_trace e of
                            None \<Rightarrow> d1
                          | Some c \<Rightarrow> if c = [] then d1 else dset ''_trace_context'' (PDict c) d1))
            | _ \<Rightarrow> None))"

section \<open>Dispatching\<close>

datatype dispatch_error = EventSchemaError string | UnknownEventTypeError string | HandlerExecutionError exn

record dispatch_env =
  de_orch :: oenv
  de_hooks :: hook_env
  de_show :: "pyval \<Rightarrow> string"

type_synonym site = "world \<times> hooks"

type_synonym dispatched = "site \<times> dispatch_error option"

definition require_uuid_field :: "dict \<Rightarrow> string \<Rightarrow> string + uuid" where
  "require_uuid_field event key =
     (case dget_or event key PNone of
        PNone \<Rightarrow> Inl (''missing_required_field:'' @ key)
      | PStr s \<Rightarrow> (case parse_uuid s of Some i \<Rightarrow> Inr i | None \<Rightarrow> Inl (''invalid_uuid_value:'' @ key))
      | _ \<Rightarrow> Inl (''invalid_uuid_field_type:'' @ key))"

definition with_uuid :: "dict \<Rightarrow> string \<Rightarrow> site \<Rightarrow> (uuid \<Rightarrow> dispatched) \<Rightarrow> dispatched" where
  "with_uuid event key s f =
     (case require_uuid_field event key of Inl m \<Rightarrow> (s, Some (EventSchemaError m)) | Inr i \<Rightarrow> f i)"

definition ran :: "hooks \<Rightarrow> handled \<Rightarrow> dispatched" where
  "ran h r = ((fst r, h), map_option HandlerExecutionError (snd r))"

definition error_of :: "dispatch_env \<Rightarrow> dict \<Rightarrow> string \<Rightarrow> string" where
  "error_of env event dflt =
     (case dget event ''error'' of None \<Rightarrow> dflt | Some (PStr s) \<Rightarrow> s | Some v \<Rightarrow> de_show env v)"

definition dispatch_event_dict :: "dispatch_env \<Rightarrow> dict \<Rightarrow> site \<Rightarrow> dispatched" where
  "dispatch_event_dict env event s =
     (let (w, h) = s in
      case dget event ''type'' of
        Some (PStr t) \<Rightarrow>
          if t = [] then (s, Some (EventSchemaError ''missing_or_invalid_type''))
          else if t = ''job.created'' then with_uuid event ''job_id'' s (\<lambda>j. ran h (handle_job_created (de_orch env) j w))
          else if t = ''task.started'' then
            with_uuid event ''task_id'' s (\<lambda>i. ((handle_task_started (de_orch env) i w, h), None))
          else if t = ''task.completed'' then
            with_uuid event ''task_id'' s (\<lambda>i. ran h (handle_task_completed (de_orch env) i w))
          else if t = ''task.failed'' then
            with_uuid event ''task_id'' s (\<lambda>i. ran h (handle_task_failed (de_orch env) i (error_of env event ''Unknown error'') w))
          else if t = ''task.wait_timeout'' then
            with_uuid event ''task_id'' s (\<lambda>i. ran h (handle_task_wait_timeout (de_orch env) i (error_of env event ''Engine wait timeout'') w))
          else if t = ''job.completed'' then
            with_uuid event ''job_id'' s (\<lambda>j. ((w, handle_job_webhook (de_hooks env) j ''completed'' None w h), None))
          else if t = ''job.failed'' then
            with_uuid event ''job_id'' s (\<lambda>j. ((w, handle_job_webhook (de_hooks env) j ''failed'' (Some (error_of env event ''Unknown error'')) w h), None))
          else if t = ''job.cancel_requested'' then
            with_uuid event ''job_id'' s (\<lambda>j. ((handle_job_cancel_requested (de_orch env) j w, h), None))
          else if t = ''job.cancelled'' then
            with_uuid event ''job_id'' s (\<lambda>j. ((w, handle_job_webhook (de_hooks env) j ''cancelled'' None w h), None))
          else (s, Some (UnknownEventTypeError t))
      | _ \<Rightarrow> (s, Some (EventSchemaError ''missing_or_invalid_type'')))"

section \<open>The stream and its dead letters\<close>

record bus =
  bus_site :: site
  bus_log :: "fields list"
  bus_group :: group
  bus_dlq :: "fields list"

definition bus_live :: "bus \<Rightarrow> (nat \<times> fields) list" where
  "bus_live b = enumerate 0 (bus_log b)"

definition ack_event :: "nat \<Rightarrow> bus \<Rightarrow> bus" where
  "ack_event n b = b\<lparr>bus_group := xack n (bus_group b)\<rparr>"

definition EVENTS_STREAM :: string where "EVENTS_STREAM = ''dalston:events:stream''"
definition EVENTS_CONSUMER_GROUP :: string where "EVENTS_CONSUMER_GROUP = ''orchestrators''"

text \<open>\<open>id_text\<close> renders a message identifier, \<open>fl\<close> the floats of a payload.\<close>

record dlq_env =
  dq_id_text :: "nat \<Rightarrow> string"
  dq_float :: "rat \<Rightarrow> string"
  dq_iso :: string

definition build_dlq_entry :: "dlq_env \<Rightarrow> envelope \<Rightarrow> failure_reason \<Rightarrow> string option \<Rightarrow> string option \<Rightarrow> fields" where
  "build_dlq_entry q e reason err consumer =
     [(''source_stream'', EVENTS_STREAM), (''source_group'', EVENTS_CONSUMER_GROUP),
      (''source_message_id'', dq_id_text q (en_message e)),
      (''event_type'', case nonempty (en_type e) of Some t \<Rightarrow> t | None \<Rightarrow> ''unknown''),
      (''failure_reason'', reason_text reason),
      (''error'', case err of Some m \<Rightarrow> m | None \<Rightarrow> ''''),
      (''delivery_count'', str_nat (en_count e)),
      (''consumer_id'', case consumer of Some c \<Rightarrow> c | None \<Rightarrow> ''''),
      (''failed_at'', dq_iso q)]
     @ (case en_payload e of None \<Rightarrow> [] | Some p \<Rightarrow> [(''payload'', json_dumps (dq_float q) (PDict p))])
     @ (case en_raw_payload e of None \<Rightarrow> [] | Some r \<Rightarrow> [(''raw_payload'', r)])
     @ (if en_raw e = [] then []
        else [(''raw_fields'', json_dumps (dq_float q) (PDict (map (\<lambda>(k, v). (k, PStr v)) (en_raw e))))])"

definition add_event_to_dlq :: "dlq_env \<Rightarrow> envelope \<Rightarrow> failure_reason \<Rightarrow> string option \<Rightarrow> string option \<Rightarrow> bus \<Rightarrow> bus" where
  "add_event_to_dlq q e reason err consumer b = b\<lparr>bus_dlq := bus_dlq b @ [build_dlq_entry q e reason err consumer]\<rparr>"

text \<open>First the dead letter, then the acknowledgement.\<close>

definition move_event_to_dlq :: "dlq_env \<Rightarrow> envelope \<Rightarrow> failure_reason \<Rightarrow> string option \<Rightarrow> string option \<Rightarrow> bus \<Rightarrow> bus" where
  "move_event_to_dlq q e reason err consumer b = ack_event (en_message e) (add_event_to_dlq q e reason err consumer b)"

section \<open>What becomes of an event\<close>

record policy =
  po_dispatch :: dispatch_env
  po_dlq :: dlq_env
  po_max :: nat
  po_show :: "exn \<Rightarrow> string"

text \<open>The dispatch of an envelope: the site after it and, if it failed, the reason, the error text
  and whether another attempt may help.\<close>

definition attempt_event :: "policy \<Rightarrow> envelope \<Rightarrow> site \<Rightarrow> site \<times> (failure_reason \<times> string \<times> bool) option" where
  "attempt_event p e s =
     (case en_failure e of
        Some r \<Rightarrow> (s, Some (r, (case nonempty (en_error e) of Some m \<Rightarrow> m | None \<Rightarrow> ''invalid_durable_event''), False))
      | None \<Rightarrow>
          (case to_event_dict e of
             None \<Rightarrow> (s, Some (DispatchError, ''Durable event envelope is missing required dispatch fields'', True))
           | Some d \<Rightarrow>
               (let (s', err) = dispatch_event_dict (po_dispatch p) d s
                in (s', case err of
                          None \<Rightarrow> None
                        | Some (UnknownEventTypeError t) \<Rightarrow> Some (UnknownEventType, t, False)
                        | Some (EventSchemaError m) \<Rightarrow> Some (InvalidEventSchema, m, False)
                        | Some (HandlerExecutionError x) \<Rightarrow> Some (HandlerException, po_show p x, True)))))"

definition settle_event :: "policy \<Rightarrow> string \<Rightarrow> envelope \<Rightarrow> (failure_reason \<times> string \<times> bool) option \<Rightarrow> bus \<Rightarrow> bus" where
  "settle_event p consumer e failure b =
     (case failure of
        None \<Rightarrow> ack_event (en_message e) b
      | Some (reason, err, retryable) \<Rightarrow>
          if retryable \<and> en_count e < po_max p then b
          else move_event_to_dlq (po_dlq p) e reason (Some err) (Some consumer) b)"

definition process_durable_event :: "policy \<Rightarrow> string \<Rightarrow> envelope \<Rightarrow> bus \<Rightarrow> bus" where
  "process_durable_event p consumer e b =
     (let (s', failure) = attempt_event p e (bus_site b)
      in settle_event p consumer e failure (b\<lparr>bus_site := s'\<rparr>))"

section \<open>Reading and claiming\<close>

definition read_new_events :: "(string \<Rightarrow> string) \<Rightarrow> time \<Rightarrow> string \<Rightarrow> nat \<Rightarrow> bus \<Rightarrow> bus \<times> envelope list" where
  "read_new_events bad_json now consumer k b =
     (let (g, ms) = xread_new now consumer k (bus_live b) (bus_group b)
      in (b\<lparr>bus_group := g\<rparr>, map (\<lambda>(n, fs). parse_envelope bad_json n fs 1) ms))"

definition lookup_delivery_count :: "nat \<Rightarrow> bus \<Rightarrow> nat" where
  "lookup_delivery_count n b =
     (case List.find (\<lambda>p. p_id p = n) (pel (bus_group b)) of Some p \<Rightarrow> p_count p | None \<Rightarrow> 1)"

text \<open>\<open>claim_stale_pending_events\<close>: it stops at the end of the list, at an empty batch, and after
  the given number of batches.\<close>

fun claim_stale_pending_events ::
  "(string \<Rightarrow> string) \<Rightarrow> time \<Rightarrow> string \<Rightarrow> int \<Rightarrow> nat \<Rightarrow> nat \<Rightarrow> nat \<Rightarrow> bus \<Rightarrow> bus \<times> envelope list" where
  "claim_stale_pending_events bad_json now consumer idle k 0 cur b = (b, [])"
| "claim_stale_pending_events bad_json now consumer idle k (Suc n) cur b =
     (let (next_id, g, ms) = xautoclaim now consumer idle cur k (bus_live b) (bus_group b);
          b1 = b\<lparr>bus_group := g\<rparr>;
          es = map (\<lambda>(m, fs). parse_envelope bad_json m fs (lookup_delivery_count m b1)) ms
      in if ms = [] \<or> next_id = 0 then (b1, es)
         else (let (b2, es') = claim_stale_pending_events bad_json now consumer idle k n next_id b1
               in (b2, es @ es')))"

definition claim_and_replay_stale_events ::
  "policy \<Rightarrow> (string \<Rightarrow> string) \<Rightarrow> time \<Rightarrow> string \<Rightarrow> bool \<Rightarrow> bus \<Rightarrow> bus" where
  "claim_and_replay_stale_events p bad_json now consumer startup b =
     (let (b1, es) = claim_stale_pending_events bad_json now consumer (if startup then 30000 else 300000) 100
                       (if startup then 100 else 10) 0 b
      in fold (process_durable_event p consumer) es b1)"

text \<open>One turn of the event loop after a blocking read.\<close>

definition consume_turn :: "policy \<Rightarrow> (string \<Rightarrow> string) \<Rightarrow> time \<Rightarrow> string \<Rightarrow> bus \<Rightarrow> bus" where
  "consume_turn p bad_json now consumer b =
     (let (b1, es) = read_new_events bad_json now consumer 10 b
      in fold (process_durable_event p consumer) es b1)"

end
