(* ===== verification/EventProps.thy ===== *)
theory EventProps
  imports Events JsonProps Demo
begin

text \<open>
  What is proved of the durable events: a published event reaches the handler its type names,
  with the values it was published with; no delivered event is lost whatever the consumers do
  or where they crash; an event that cannot be handled ends in the dead letters, from which it
  can be read back; and an \<open>engine.needed\<close> event always does.
\<close>

section \<open>From the publisher to the handler\<close>

text \<open>What a published event asks of the orchestrator.\<close>

fun asked_for :: "dispatch_env \<Rightarrow> published \<Rightarrow> site \<Rightarrow> dispatched" where
  "asked_for env (PubJobCreated j _) (w, h) = ran h (handle_job_created (de_orch env) j w)"
| "asked_for env (PubTaskCompleted t _ _) (w, h) = ran h (handle_task_completed (de_orch env) t w)"
| "asked_for env (PubTaskFailed t _ err) (w, h) = ran h (handle_task_failed (de_orch env) t err w)"
| "asked_for env (PubJobCompleted j) (w, h) = ((w, handle_job_webhook (de_hooks env) j ''completed'' None w h), None)"
| "asked_for env (PubJobFailed j err) (w, h) = ((w, handle_job_webhook (de_hooks env) j ''failed'' (Some err) w h), None)"
| "asked_for env (PubJobCancelRequested j) (w, h) = ((handle_job_cancel_requested (de_orch env) j w, h), None)"
| "asked_for env (PubJobCancelled j) (w, h) = ((w, handle_job_webhook (de_hooks env) j ''cancelled'' None w h), None)"
| "asked_for env (PubEngineNeeded _ _ _ _ _) s = (s, Some (UnknownEventTypeError ''engine.needed''))"

fun published_ids :: "published \<Rightarrow> uuid set" where
  "published_ids (PubJobCreated j _) = {j}"
| "published_ids (PubTaskCompleted t j _) = {t, j}"
| "published_ids (PubTaskFailed t j _) = {t, j}"
| "published_ids (PubEngineNeeded _ _ j t _) = {t, j}"
| "published_ids (PubJobCompleted j) = {j}"
| "published_ids (PubJobFailed j _) = {j}"
| "published_ids (PubJobCancelRequested j) = {j}"
| "published_ids (PubJobCancelled j) = {j}"

lemma published_plain: "plain (PDict (published_payload p))"
  by (cases p) (auto simp: PUuid_def split: option.splits)

lemma published_loads: "json_loads (json_dumps fl (PDict (published_payload p))) = Some (PDict (published_payload p))"
  by (rule loads_dumps) (rule published_plain)

lemma published_type_nonempty [simp]: "nonempty (Some (published_type p)) = Some (published_type p)"
  by (cases p) (simp_all add: nonempty_def)

lemma added_fields:
  "dget (add_durable_event fl stamp ctx t d) ''type'' = Some t"
  "dget (add_durable_event fl stamp ctx t d) ''payload'' = Some (json_dumps fl (PDict d))"
  by (simp_all add: add_durable_event_def del: json_dumps.simps)

lemma published_envelope:
  assumes "fs = add_durable_event fl stamp ctx (published_type p) (published_payload p)"
  shows "en_failure (parse_envelope bad n fs k) = None"
    and "en_type (parse_envelope bad n fs k) = Some (published_type p)"
    and "en_payload (parse_envelope bad n fs k) = Some (published_payload p)"
    and "en_message (parse_envelope bad n fs k) = n"
  unfolding assms
  by (simp_all add: parse_envelope_def added_fields published_loads Let_def del: json_dumps.simps)

lemma dget_event:
  assumes "to_event_dict e = Some d" "en_type e = Some t" "en_payload e = Some p"
    and "k \<noteq> ''timestamp''" "k \<noteq> ''_trace_context''" "distinct (map fst p)"
  shows "dget d k = (case dget p k of None \<Rightarrow> if k = ''type'' then Some (PStr t) else None | Some v \<Rightarrow> Some v)"
proof -
  define core where "core = dmerge [(''type'', PStr t)] p"
  define stamped where "stamped = (case en_timestamp e of None \<Rightarrow> core | Some s \<Rightarrow> dset ''timestamp'' (PStr s) core)"
  have "(case en_trace e of None \<Rightarrow> stamped | Some c \<Rightarrow> if c = [] then stamped else dset ''_trace_context'' (PDict c) stamped) = d"
    using assms(1-3) unfolding stamped_def core_def by (simp add: to_event_dict_def Let_def split: if_split_asm)
  from this [symmetric] have "dget d k = dget stamped k"
    using assms(5) by (cases "en_trace e") (simp_all add: dget_dset)
  also have "\<dots> = dget core k"
    using assms(4) unfolding stamped_def by (cases "en_timestamp e") (simp_all add: dget_dset)
  finally show ?thesis using assms(6) by (cases "dget p k") (simp_all add: core_def dget_dmerge)
qed

lemma published_type_alone: "dget (published_payload p) ''type'' = None"
  by (cases p) (simp_all add: dget_Cons split: option.split)

lemma to_event_dict_total:
  "en_failure e = None \<Longrightarrow> en_type e = Some t \<Longrightarrow> en_payload e = Some p \<Longrightarrow> \<exists>d. to_event_dict e = Some d"
  by (simp add: to_event_dict_def Let_def)

lemma stored_event_dispatched:
  assumes "\<forall>i \<in> published_ids p. i < 2 ^ 128"
    and "publish_all fl stamp ctx p evs = evs @ [fs]"
    and "e = parse_envelope bad_json n fs k"
  shows "\<exists>d. to_event_dict e = Some d \<and> dispatch_event_dict env d s = asked_for env p s"
    and "en_failure e = None" "en_message e = n"
proof -
  obtain w h where s: "s = (w, h)" using prod.exhaust by blast
  have fs: "fs = add_durable_event fl stamp ctx (published_type p) (published_payload p)"
    using assms(2) by (cases p) (simp_all add: publish_all_def publish_event_def DURABLE_EVENT_TYPES_def)
  note en = published_envelope [OF fs, of bad_json n k, folded assms(3)]
  obtain d where d: "to_event_dict e = Some d" using to_event_dict_total [OF en(1-3)] by blast
  have "distinct (map fst (published_payload p))" using published_plain [of p] by simp
  note get = dget_event [OF d en(2,3) _ _ this]
  have named: "dget d ''type'' = Some (PStr (published_type p))" by (simp add: get published_type_alone)
  have other: "dget d k = dget (published_payload p) k"
    if "k = ''job_id'' \<or> k = ''task_id'' \<or> k = ''error''" for k
    using that by (auto simp: get split: option.split)
  have "dispatch_event_dict env d s = asked_for env p s"
    using assms(1) by (cases p) (simp_all add: s dispatch_event_dict_def named other PUuid_def with_uuid_def
        require_uuid_field_def dget_or_def parse_uuid_text error_of_def)
  then show "\<exists>d. to_event_dict e = Some d \<and> dispatch_event_dict env d s = asked_for env p s"
    using d by blast
  show "en_failure e = None" "en_message e = n" using en by simp_all
qed

text \<open>C28: An event that \<open>publish_event\<close> stored is read back and dispatched to the handler its type
  names, with the job or task it was published for and the error text it carries; only
  \<open>engine.needed\<close> has no handler.\<close>
theorem published_event_dispatched:
  assumes "\<forall>i \<in> published_ids p. i < 2 ^ 128"
    and "publish_all fl stamp ctx p evs = evs @ [fs]"
    and "e = parse_envelope bad_json n fs k"
  shows "\<exists>d. to_event_dict e = Some d \<and> dispatch_event_dict env d s = asked_for env p s"
  using stored_event_dispatched [OF assms] by blast

section \<open>Consumers that may stop anywhere\<close>

text \<open>What a consumer has in hand: an event it read, one its handler finished, one that is to be
  quarantined, one whose dead letter is written. The set of events whose handler finished is
  kept for the statement only.\<close>

datatype phase = Received envelope | Served envelope | Condemned envelope failure_reason string | Quarantined envelope

record crew =
  crew_bus :: bus
  crew_hands :: "(string \<times> phase) list"
  crew_served :: "nat set"

definition drop_hand :: "string \<times> phase \<Rightarrow> crew \<Rightarrow> crew" where
  "drop_hand x k = k\<lparr>crew_hands := filter (\<lambda>y. y \<noteq> x) (crew_hands k)\<rparr>"

definition take_hands :: "string \<Rightarrow> bus \<times> envelope list \<Rightarrow> crew \<Rightarrow> crew" where
  "take_hands c r k = k\<lparr>crew_bus := fst r, crew_hands := crew_hands k @ map (\<lambda>e. (c, Received e)) (snd r)\<rparr>"

inductive crew_step :: "policy \<Rightarrow> (string \<Rightarrow> string) \<Rightarrow> crew \<Rightarrow> crew \<Rightarrow> bool" for p bad where
  Publish: "crew_step p bad k (k\<lparr>crew_bus := (crew_bus k)\<lparr>bus_log := publish_all fl stamp ctx ev (bus_log (crew_bus k))\<rparr>\<rparr>)"
| Elsewhere: "crew_step p bad k (k\<lparr>crew_bus := (crew_bus k)\<lparr>bus_site := s\<rparr>\<rparr>)"
| Read: "crew_step p bad k (take_hands c (read_new_events bad now c n (crew_bus k)) k)"
| Claim: "crew_step p bad k (take_hands c (claim_stale_pending_events bad now c idle n rounds cur (crew_bus k)) k)"
| Serve: "(c, Received e) \<in> set (crew_hands k) \<Longrightarrow> attempt_event p e (bus_site (crew_bus k)) = (s, None) \<Longrightarrow>
    crew_step p bad k (drop_hand (c, Received e) (k\<lparr>crew_bus := (crew_bus k)\<lparr>bus_site := s\<rparr>,
      crew_hands := (c, Served e) # crew_hands k, crew_served := insert (en_message e) (crew_served k)\<rparr>))"
| Retry: "(c, Received e) \<in> set (crew_hands k) \<Longrightarrow>
    attempt_event p e (bus_site (crew_bus k)) = (s, Some (r, m, True)) \<Longrightarrow> en_count e < po_max p \<Longrightarrow>
    crew_step p bad k (drop_hand (c, Received e) (k\<lparr>crew_bus := (crew_bus k)\<lparr>bus_site := s\<rparr>\<rparr>))"
| Condemn: "(c, Received e) \<in> set (crew_hands k) \<Longrightarrow>
    attempt_event p e (bus_site (crew_bus k)) = (s, Some (r, m, again)) \<Longrightarrow> \<not> (again \<and> en_count e < po_max p) \<Longrightarrow>
    crew_step p bad k (drop_hand (c, Received e) (k\<lparr>crew_bus := (crew_bus k)\<lparr>bus_site := s\<rparr>,
      crew_hands := (c, Condemned e r m) # crew_hands k\<rparr>))"
| Quarantine: "(c, Condemned e r m) \<in> set (crew_hands k) \<Longrightarrow>
    crew_step p bad k (drop_hand (c, Condemned e r m) (k\<lparr>crew_bus := add_event_to_dlq (po_dlq p) e r (Some m) (Some c) (crew_bus k),
      crew_hands := (c, Quarantined e) # crew_hands k\<rparr>))"
| Acknowledge: "(c, h) \<in> set (crew_hands k) \<Longrightarrow> h = Served e \<or> h = Quarantined e \<Longrightarrow>
    crew_step p bad k (drop_hand (c, h) (k\<lparr>crew_bus := ack_event (en_message e) (crew_bus k)\<rparr>))"
| Crash: "crew_step p bad k (k\<lparr>crew_hands := filter (\<lambda>(c', _). c' \<noteq> c) (crew_hands k)\<rparr>)"

definition empty_crew :: "site \<Rightarrow> crew" where
  "empty_crew s = \<lparr>crew_bus = \<lparr>bus_site = s, bus_log = [], bus_group = new_group, bus_dlq = []\<rparr>,
     crew_hands = [], crew_served = {}\<rparr>"

inductive crew_reachable :: "policy \<Rightarrow> (string \<Rightarrow> string) \<Rightarrow> crew \<Rightarrow> bool" for p bad where
  Start: "crew_reachable p bad (empty_crew s)"
| Next: "crew_reachable p bad k \<Longrightarrow> crew_step p bad k k' \<Longrightarrow> crew_reachable p bad k'"

definition dead_letter :: "policy \<Rightarrow> bus \<Rightarrow> nat \<Rightarrow> bool" where
  "dead_letter p b n \<longleftrightarrow> (\<exists>x \<in> set (bus_dlq b). dget x ''source_message_id'' = Some (dq_id_text (po_dlq p) n))"

text \<open>What a hand stands for.\<close>

fun hand_ok :: "policy \<Rightarrow> crew \<Rightarrow> phase \<Rightarrow> bool" where
  "hand_ok p k (Served e) = (en_message e \<in> crew_served k)"
| "hand_ok p k (Quarantined e) = dead_letter p (crew_bus k) (en_message e)"
| "hand_ok p k _ = True"

definition bus_ok :: "bus \<Rightarrow> bool" where
  "bus_ok b \<longleftrightarrow> group_ok (bus_group b) \<and> delivered_to (bus_group b) \<le> length (bus_log b)"

definition settled :: "policy \<Rightarrow> crew \<Rightarrow> nat \<Rightarrow> bool" where
  "settled p k n \<longleftrightarrow> n \<in> pel_ids (bus_group (crew_bus k)) \<or> n \<in> crew_served k \<or> dead_letter p (crew_bus k) n"

definition crew_ok :: "policy \<Rightarrow> crew \<Rightarrow> bool" where
  "crew_ok p k \<longleftrightarrow> bus_ok (crew_bus k) \<and> (\<forall>x \<in> set (crew_hands k). hand_ok p k (snd x))
     \<and> (\<forall>n < delivered_to (bus_group (crew_bus k)). settled p k n)"

lemma in_order_live: "in_order (bus_live b)"
  by (simp add: in_order_def bus_live_def)

lemma live_position: "n < length (bus_log b) \<Longrightarrow> (n, bus_log b ! n) \<in> set (bus_live b)"
  by (simp add: bus_live_def in_set_enumerate_eq)

lemma live_bound: "(n, m) \<in> set (bus_live b) \<Longrightarrow> n < length (bus_log b)"
  by (auto simp: bus_live_def in_set_enumerate_eq)

lemma dget_live: "n < length (bus_log b) \<Longrightarrow> dget (bus_live b) n \<noteq> None"
  using live_position [of n b] unfolding dget_def by (metis domI domIff weak_map_of_SomeI)

text \<open>Reading and claiming keep the log and take nothing out of the pending list.\<close>

lemma read_new_ok:
  assumes "read_new_events bad now c k b = (b', es)" "bus_ok b"
  shows "bus_ok b'" "bus_log b' = bus_log b" "bus_dlq b' = bus_dlq b"
    "pel_ids (bus_group b) \<subseteq> pel_ids (bus_group b')"
    "n < delivered_to (bus_group b') \<Longrightarrow> n < delivered_to (bus_group b) \<or> n \<in> pel_ids (bus_group b')"
proof -
  obtain g ms where r: "xread_new now c k (bus_live b) (bus_group b) = (g, ms)" using prod.exhaust by blast
  have b': "b' = b\<lparr>bus_group := g\<rparr>" using assms(1) by (simp add: read_new_events_def r)
  have ok: "group_ok (bus_group b)" "delivered_to (bus_group b) \<le> length (bus_log b)"
    using assms(2) by (auto simp: bus_ok_def)
  note x = xread_new_ok [OF ok(1) in_order_live r]
  show "bus_log b' = bus_log b" "bus_dlq b' = bus_dlq b" by (simp_all add: b')
  show "pel_ids (bus_group b) \<subseteq> pel_ids (bus_group b')" using x(2) by (simp add: b')
  have "delivered_to g \<le> length (bus_log b)"
  proof (cases "delivered_to g = delivered_to (bus_group b)")
    case False
    have "delivered_to g = Suc (fst (last ms)) \<and> ms \<noteq> []"
      using r False by (auto simp: xread_new_def Let_def split: if_splits)
    moreover obtain n m where l: "last ms = (n, m)" using prod.exhaust by blast
    ultimately have "delivered_to g = Suc n" "(n, m) \<in> set ms" using last_in_set [of ms] by auto
    moreover from this x(4) [of n m] have "(n, m) \<in> set (bus_live b)" by blast
    ultimately show ?thesis using live_bound [of n m b] by simp
  qed (simp add: ok)
  then show "bus_ok b'" using x(1) by (simp add: bus_ok_def b')
  then show "n < delivered_to (bus_group b') \<Longrightarrow> n < delivered_to (bus_group b) \<or> n \<in> pel_ids (bus_group b')"
    using xread_new_covers [OF in_order_live r live_position, of n] by (fastforce simp: b' bus_ok_def)
qed

lemma claim_ok:
  assumes "claim_stale_pending_events bad now c idle k rounds cur b = (b', es)" "bus_ok b"
  shows "bus_ok b' \<and> bus_log b' = bus_log b \<and> bus_dlq b' = bus_dlq b
    \<and> pel_ids (bus_group b') = pel_ids (bus_group b) \<and> delivered_to (bus_group b') = delivered_to (bus_group b)"
  using assms
proof (induction rounds arbitrary: b cur b' es)
  case (Suc rounds)
  obtain i g ms where r: "xautoclaim now c idle cur k (bus_live b) (bus_group b) = (i, g, ms)"
    by (metis prod_cases3)
  have ok: "group_ok (bus_group b)" "delivered_to (bus_group b) \<le> length (bus_log b)"
    using Suc.prems(2) by (auto simp: bus_ok_def)
  note x = xautoclaim_ok [OF r ok(1)]
  have "n < length (bus_log b)" if "n \<in> pel_ids (bus_group b)" for n
    using that ok by (auto simp: group_ok_def pel_ids_def)
  then have "pel_ids g = pel_ids (bus_group b)" using x(3,4) dget_live by blast
  then have one: "bus_ok (b\<lparr>bus_group := g\<rparr>)" "pel_ids g = pel_ids (bus_group b)"
    "delivered_to g = delivered_to (bus_group b)"
    using x(1,2) ok by (auto simp: bus_ok_def)
  show ?case
  proof (cases "ms = [] \<or> i = 0")
    case True
    have "b' = b\<lparr>bus_group := g\<rparr>" using Suc.prems(1) True by (simp add: r Let_def)
    then show ?thesis using one by simp
  next
    case False
    obtain b2 es2 where c: "claim_stale_pending_events bad now c idle k rounds i (b\<lparr>bus_group := g\<rparr>) = (b2, es2)"
      using prod.exhaust by blast
    have "b' = b2" using Suc.prems(1) False by (simp add: r Let_def c split: if_split_asm)
    then show ?thesis using Suc.IH [OF c one(1)] one by simp
  qed
qed simp

lemma hand_ok_mono:
  "hand_ok p k h \<Longrightarrow> crew_served k \<subseteq> crew_served k' \<Longrightarrow>
   (\<And>n. dead_letter p (crew_bus k) n \<Longrightarrow> dead_letter p (crew_bus k') n) \<Longrightarrow> hand_ok p k' h"
  by (cases h) auto

lemma crew_ok_change:
  assumes "crew_ok p k" "bus_ok (crew_bus k')" "crew_served k \<subseteq> crew_served k'"
    and "\<And>n. dead_letter p (crew_bus k) n \<Longrightarrow> dead_letter p (crew_bus k') n"
    and "\<And>x. x \<in> set (crew_hands k') \<Longrightarrow> x \<in> set (crew_hands k) \<or> hand_ok p k' (snd x)"
    and "\<And>n. n \<in> pel_ids (bus_group (crew_bus k)) \<Longrightarrow> settled p k' n"
    and "\<And>n. n < delivered_to (bus_group (crew_bus k')) \<Longrightarrow> n < delivered_to (bus_group (crew_bus k)) \<or> settled p k' n"
  shows "crew_ok p k'"
proof -
  have "hand_ok p k' (snd x)" if "x \<in> set (crew_hands k')" for x
    using assms(1,3,4) assms(5) [OF that] hand_ok_mono unfolding crew_ok_def by metis
  moreover have "settled p k' n" if "settled p k n" for n
    using that assms(3,4,6) unfolding settled_def [of p k] by (auto simp: settled_def)
  then have "settled p k' n" if "n < delivered_to (bus_group (crew_bus k'))" for n
    using assms(1) assms(7) [OF that] unfolding crew_ok_def by blast
  ultimately show ?thesis using assms(2) unfolding crew_ok_def by blast
qed

lemma drop_hand_simps [simp]:
  "crew_bus (drop_hand x k) = crew_bus k" "crew_served (drop_hand x k) = crew_served k"
  "set (crew_hands (drop_hand x k)) = set (crew_hands k) - {x}"
  by (auto simp: drop_hand_def)

lemma dead_letter_cong: "bus_dlq b' = bus_dlq b \<Longrightarrow> dead_letter p b' n = dead_letter p b n"
  by (simp add: dead_letter_def)

lemma entry_source: "dget (build_dlq_entry q e r m c) ''source_message_id'' = Some (dq_id_text q (en_message e))"
  by (simp add: build_dlq_entry_def)

lemma add_to_dlq_letter:
  "dead_letter p (add_event_to_dlq (po_dlq p) e r m c b) n \<longleftrightarrow>
     dead_letter p b n \<or> dq_id_text (po_dlq p) (en_message e) = dq_id_text (po_dlq p) n"
  by (auto simp: dead_letter_def add_event_to_dlq_def entry_source)

lemma bus_simps [simp]:
  "bus_group (add_event_to_dlq q e r m c b) = bus_group b" "bus_log (add_event_to_dlq q e r m c b) = bus_log b"
  "bus_group (ack_event n b) = xack n (bus_group b)" "bus_dlq (ack_event n b) = bus_dlq b"
  "bus_log (ack_event n b) = bus_log b" "bus_site (ack_event n b) = bus_site b"
  "bus_site (add_event_to_dlq q e r m c b) = bus_site b"
  by (simp_all add: add_event_to_dlq_def ack_event_def)

lemma settled_pel: "n \<in> pel_ids (bus_group (crew_bus k)) \<Longrightarrow> settled p k n"
  by (simp add: settled_def)

lemma crew_ok_same:
  assumes "crew_ok p k" "bus_group (crew_bus k') = bus_group (crew_bus k)" "bus_dlq (crew_bus k') = bus_dlq (crew_bus k)"
    and "length (bus_log (crew_bus k)) \<le> length (bus_log (crew_bus k'))" "crew_served k \<subseteq> crew_served k'"
    and "\<And>x. x \<in> set (crew_hands k') \<Longrightarrow> x \<in> set (crew_hands k) \<or> hand_ok p k' (snd x)"
  shows "crew_ok p k'"
proof (rule crew_ok_change [OF assms(1) _ assms(5) _ assms(6)])
  show "bus_ok (crew_bus k')" using assms(1,2,4) by (simp add: crew_ok_def bus_ok_def)
qed (use assms(2,3) in \<open>simp_all add: dead_letter_def settled_pel\<close>)

lemma crew_ok_taken:
  assumes "crew_ok p k" "bus_ok b" "bus_dlq b = bus_dlq (crew_bus k)"
    and "pel_ids (bus_group (crew_bus k)) \<subseteq> pel_ids (bus_group b)"
    and "\<And>n. n < delivered_to (bus_group b) \<Longrightarrow> n < delivered_to (bus_group (crew_bus k)) \<or> n \<in> pel_ids (bus_group b)"
  shows "crew_ok p (take_hands c (b, es) k)"
proof (rule crew_ok_change [OF assms(1)])
  let ?k = "take_hands c (b, es) k"
  have b: "crew_bus ?k = b" "crew_served ?k = crew_served k" by (simp_all add: take_hands_def)
  show "bus_ok (crew_bus ?k)" "crew_served k \<subseteq> crew_served ?k" using assms(2) by (simp_all add: b)
  show "dead_letter p (crew_bus k) n \<Longrightarrow> dead_letter p (crew_bus ?k) n" for n
    using assms(3) by (simp add: b dead_letter_def)
  show "x \<in> set (crew_hands ?k) \<Longrightarrow> x \<in> set (crew_hands k) \<or> hand_ok p ?k (snd x)" for x
    by (auto simp: take_hands_def)
  show "n \<in> pel_ids (bus_group (crew_bus k)) \<Longrightarrow> settled p ?k n" for n
    using assms(4) by (auto simp: b settled_def)
  show "n < delivered_to (bus_group (crew_bus ?k)) \<Longrightarrow>
      n < delivered_to (bus_group (crew_bus k)) \<or> settled p ?k n" for n
    using assms(5) [of n] by (auto simp: b settled_def)
qed

lemma crew_step_ok:
  assumes "crew_step p bad k k'" "crew_ok p k"
  shows "crew_ok p k'"
proof -
  have ok: "bus_ok (crew_bus k)" using assms(2) by (simp add: crew_ok_def)
  show ?thesis
    using assms(1)
  proof cases
    case Publish
    show ?thesis unfolding Publish(1)
      by (rule crew_ok_same [OF assms(2)]) (simp_all add: publish_all_def publish_event_def)
  next
    case (Read c now n)
    obtain b es where r: "read_new_events bad now c n (crew_bus k) = (b, es)" using prod.exhaust by blast
    show ?thesis unfolding Read(1) r by (rule crew_ok_taken [OF assms(2)]) (rule read_new_ok [OF r ok], assumption?)+
  next
    case (Claim c now idle n rounds cur)
    obtain b es where r: "claim_stale_pending_events bad now c idle n rounds cur (crew_bus k) = (b, es)"
      using prod.exhaust by blast
    show ?thesis unfolding Claim(1) r by (rule crew_ok_taken [OF assms(2)]) (simp_all add: claim_ok [OF r ok])
  next
    case (Quarantine c e r m)
    show ?thesis unfolding Quarantine(1)
    proof (rule crew_ok_change [OF assms(2)], goal_cases)
      case 1
      then show ?case using ok by (simp add: bus_ok_def)
    next
      case (4 x)
      then show ?case by (auto simp: add_to_dlq_letter)
    qed (simp_all add: add_to_dlq_letter settled_pel)
  next
    case (Acknowledge c h e)
    have fin: "en_message e \<in> crew_served k \<or> dead_letter p (crew_bus k) (en_message e)"
      using Acknowledge(2,3) assms(2) unfolding crew_ok_def by force
    have b: "bus_ok (ack_event (en_message e) (crew_bus k))"
      using ok by (simp add: bus_ok_def xack_ok)
    show ?thesis unfolding Acknowledge(1)
      by (rule crew_ok_change [OF assms(2)])
        (use b fin in \<open>auto simp: dead_letter_cong [of "ack_event n b" b n' for n b n'] settled_def\<close>)
  next
    case Elsewhere
    show ?thesis unfolding Elsewhere(1) by (rule crew_ok_same [OF assms(2)]) simp_all
  next
    case Serve
    show ?thesis unfolding Serve(1) by (rule crew_ok_same [OF assms(2)]) auto
  next
    case Retry
    show ?thesis unfolding Retry(1) by (rule crew_ok_same [OF assms(2)]) auto
  next
    case Condemn
    show ?thesis unfolding Condemn(1) by (rule crew_ok_same [OF assms(2)]) auto
  next
    case Crash
    show ?thesis unfolding Crash(1) by (rule crew_ok_same [OF assms(2)]) auto
  qed
qed

lemma crew_reachable_ok: "crew_reachable p bad k \<Longrightarrow> crew_ok p k"
proof (induction rule: crew_reachable.induct)
  case (Start s)
  show ?case by (simp add: empty_crew_def crew_ok_def bus_ok_def) (simp add: new_group_def)
qed (rule crew_step_ok)


section \<open>Events that cannot be handled\<close>

lemma stored_strings_plain: "distinct (map fst fs) \<Longrightarrow> plain (PDict (map (\<lambda>(k, v). (k, PStr v)) fs))"
  by (auto simp: comp_def case_prod_unfold)

lemma entry_raw_fields:
  assumes "distinct (map fst (en_raw e))" "en_raw e \<noteq> []"
  obtains t where "dget (build_dlq_entry q e r m c) ''raw_fields'' = Some t"
    "json_loads t = Some (PDict (map (\<lambda>(k, v). (k, PStr v)) (en_raw e)))"
proof
  show "dget (build_dlq_entry q e r m c) ''raw_fields'' =
      Some (json_dumps (dq_float q) (PDict (map (\<lambda>(k, v). (k, PStr v)) (en_raw e))))"
    using assms(2) by (cases "en_payload e"; cases "en_raw_payload e") (simp_all add: build_dlq_entry_def del: json_dumps.simps)
  show "json_loads (json_dumps (dq_float q) (PDict (map (\<lambda>(k, v). (k, PStr v)) (en_raw e)))) =
      Some (PDict (map (\<lambda>(k, v). (k, PStr v)) (en_raw e)))"
    by (rule loads_dumps [OF stored_strings_plain [OF assms(1)]])
qed

text \<open>C30: What becomes of an event a consumer processes: it stays pending only when its handler
  failed and it was delivered fewer times than allowed; otherwise it leaves the pending list,
  and unless its handler finished, a dead letter was added that names the reason and from
  whose text every field of the event can be read back.\<close>
theorem processed_event_verdict:
  assumes "attempt_event p e (bus_site b) = (s, failure)" "b' = process_durable_event p consumer e b"
    and "distinct (map fst (en_raw e))" "en_raw e \<noteq> []"
  shows "bus_site b' = s
    \<and> (if failure = None then en_message e \<notin> pel_ids (bus_group b') \<and> bus_dlq b' = bus_dlq b
       else if (\<exists>r m. failure = Some (r, m, True)) \<and> en_count e < po_max p
       then bus_group b' = bus_group b \<and> bus_dlq b' = bus_dlq b
       else en_message e \<notin> pel_ids (bus_group b')
         \<and> (\<exists>x t. bus_dlq b' = bus_dlq b @ [x] \<and> dget x ''raw_fields'' = Some t
              \<and> dget x ''failure_reason'' = Some (reason_text (fst (the failure)))
              \<and> json_loads t = Some (PDict (map (\<lambda>(k, v). (k, PStr v)) (en_raw e)))))"
proof -
  have b': "b' = settle_event p consumer e failure (b\<lparr>bus_site := s\<rparr>)"
    using assms(1,2) by (simp add: process_durable_event_def)
  show ?thesis
  proof (cases failure)
    case None
    then show ?thesis by (simp add: b' settle_event_def)
  next
    case (Some f)
    obtain r m again where f: "f = (r, m, again)" by (cases f)
    obtain t where t: "dget (build_dlq_entry (po_dlq p) e r (Some m) (Some consumer)) ''raw_fields'' = Some t"
      "json_loads t = Some (PDict (map (\<lambda>(k, v). (k, PStr v)) (en_raw e)))"
      using entry_raw_fields [OF assms(3,4)] by blast
    have reason: "dget (build_dlq_entry (po_dlq p) e r (Some m) (Some consumer)) ''failure_reason'' = Some (reason_text r)"
      by (simp add: build_dlq_entry_def)
    show ?thesis
      using t reason by (auto simp: b' Some f settle_event_def move_event_to_dlq_def add_event_to_dlq_def ack_event_def)
  qed
qed

text \<open>No \<open>engine.needed\<close> event is ever handled: the first consumer that processes one writes
  it to the dead letters as an unknown type and acknowledges it, and nothing else happens.\<close>
lemma engine_needed_quarantined:
  assumes "publish_all fl stamp ctx (PubEngineNeeded engine stage j t lang) evs = evs @ [fs]"
    and "e = parse_envelope bad_json n fs k" "j < 2 ^ 128" "t < 2 ^ 128"
    and "b' = process_durable_event p consumer e b"
  shows "bus_site b' = bus_site b \<and> n \<notin> pel_ids (bus_group b')
    \<and> (\<exists>x. bus_dlq b' = bus_dlq b @ [x] \<and> dget x ''failure_reason'' = Some ''unknown_event_type'')"
proof -
  have ids: "\<forall>i \<in> published_ids (PubEngineNeeded engine stage j t lang). i < 2 ^ 128" using assms(3,4) by simp
  obtain d where d: "to_event_dict e = Some d"
    "dispatch_event_dict (po_dispatch p) d (bus_site b) = (bus_site b, Some (UnknownEventTypeError ''engine.needed''))"
    using stored_event_dispatched(1) [OF ids assms(1,2), of "po_dispatch p" "bus_site b"]
    unfolding asked_for.simps by blast
  have "attempt_event p e (bus_site b) = (bus_site b, Some (UnknownEventType, ''engine.needed'', False))"
    using d stored_event_dispatched(2) [OF ids assms(1,2)] by (simp add: attempt_event_def)
  then show ?thesis
    using stored_event_dispatched(3) [OF ids assms(1,2)]
    by (simp add: assms(5) process_durable_event_def settle_event_def move_event_to_dlq_def add_event_to_dlq_def
        build_dlq_entry_def)
qed

section \<open>Concrete events\<close>

definition demo_policy :: policy where
  "demo_policy = \<lparr>po_dispatch = \<lparr>de_orch = demo_oenv 100,
       de_hooks = \<lparr>hk_now = 0, hk_id = (\<lambda>i. i), hk_payload_id = ''0''\<rparr>, de_show = (\<lambda>_. ''value'')\<rparr>,
     po_dlq = \<lparr>dq_id_text = str_nat, dq_float = (\<lambda>_. ''0.0''), dq_iso = ''now''\<rparr>, po_max = 5, po_show = (\<lambda>_. ''error'')\<rparr>"

definition demo_fields :: "published \<Rightarrow> fields" where
  "demo_fields p = add_durable_event (\<lambda>_. ''0.0'') ''now'' [] (published_type p) (published_payload p)"

lemma demo_published: "publish_all (\<lambda>_. ''0.0'') ''now'' [] p evs = evs @ [demo_fields p]"
  by (cases p) (simp_all add: publish_all_def publish_event_def DURABLE_EVENT_TYPES_def demo_fields_def)

definition demo_bus :: "published \<Rightarrow> bus" where
  "demo_bus p = \<lparr>bus_site = (demo_submitted [], \<lparr>endpoints = [], deliveries = []\<rparr>), bus_log = [demo_fields p],
     bus_group = new_group, bus_dlq = []\<rparr>"

theorem published_event_dispatched_witness:
  "\<exists>d. to_event_dict (parse_envelope (\<lambda>_. ''bad'') 0 (demo_fields (PubJobCreated 7 None)) 1) = Some d
     \<and> dispatch_event_dict (po_dispatch demo_policy) d (bus_site (demo_bus (PubJobCreated 7 None)))
         = asked_for (po_dispatch demo_policy) (PubJobCreated 7 None) (bus_site (demo_bus (PubJobCreated 7 None)))"
  by (rule published_event_dispatched [OF _ demo_published refl]) simp


theorem processed_event_verdict_witness:
  "dget (last (bus_dlq (process_durable_event demo_policy ''c''
      (parse_envelope (\<lambda>_. ''bad'') 0 [(''type'', ''job.created''), (''payload'', ''nonsense'')] 1)
      (demo_bus (PubJobCompleted 7))))) ''failure_reason'' = Some ''invalid_payload_json''"
proof -
  define e where "e = parse_envelope (\<lambda>_. ''bad'') 0 [(''type'', ''job.created''), (''payload'', ''nonsense'')] 1"
  have e: "en_failure e = Some InvalidPayloadJson" "en_error e = Some ''bad''"
    "en_raw e = [(''type'', ''job.created''), (''payload'', ''nonsense'')]" unfolding e_def by code_simp+
  have "attempt_event demo_policy e (bus_site (demo_bus (PubJobCompleted 7))) =
      (bus_site (demo_bus (PubJobCompleted 7)), Some (InvalidPayloadJson, ''bad'', False))"
    by (simp add: attempt_event_def e nonempty_def)
  from processed_event_verdict [OF this refl, of "''c''"] show ?thesis
    unfolding e_def [symmetric] by (auto simp: e)
qed

lemma engine_needed_quarantined_example:
  "length (bus_dlq (process_durable_event demo_policy ''c''
      (parse_envelope (\<lambda>_. ''bad'') 0 (demo_fields (PubEngineNeeded ''e'' ''transcribe'' 7 100 None)) 1)
      (demo_bus (PubEngineNeeded ''e'' ''transcribe'' 7 100 None)))) = 1"
  using engine_needed_quarantined [OF demo_published refl _ _ refl,
    where j = 7 and t = 100 and p = demo_policy and consumer = "''c''" and engine = "''e''" and stage = "''transcribe''"
      and lang = None and bad_json = "\<lambda>_. ''bad''" and n = 0 and k = 1
      and b = "demo_bus (PubEngineNeeded ''e'' ''transcribe'' 7 100 None)"]
  by (auto simp: demo_bus_def)

text \<open>C38: What reading an entry of the stream gives is well typed: either an event with a non-empty type
  and a payload, which can be dispatched, or a failure with its description, which cannot, and it
  counts at least one delivery. So no processing ever ends in the error for an envelope without
  type or payload.\<close>
theorem envelope_well_typed:
  "en_count (parse_envelope bad n fs k) \<ge> 1
    \<and> (if en_failure (parse_envelope bad n fs k) = None
       then (\<exists>t d. en_type (parse_envelope bad n fs k) = Some t \<and> t \<noteq> [] \<and> en_payload (parse_envelope bad n fs k) = Some d)
         \<and> to_event_dict (parse_envelope bad n fs k) \<noteq> None
       else en_error (parse_envelope bad n fs k) \<noteq> None \<and> en_payload (parse_envelope bad n fs k) = None
         \<and> to_event_dict (parse_envelope bad n fs k) = None)
    \<and> (case snd (attempt_event p (parse_envelope bad n fs k) s) of Some (r, _) \<Rightarrow> r \<noteq> DispatchError | None \<Rightarrow> True)"
proof -
  let ?e = "parse_envelope bad n fs k"
  have count: "en_count ?e \<ge> 1" by (simp add: parse_envelope_def Let_def split: option.splits pyval.splits)
  have reasons: "en_failure ?e \<in> {None, Some InvalidEventSchema, Some InvalidPayloadJson}"
    by (simp add: parse_envelope_def Let_def split: option.splits pyval.splits)
  have type: "nonempty (dget fs ''type'') = Some t \<Longrightarrow> t \<noteq> []" for t
    by (cases "dget fs ''type''") (auto simp: nonempty_def split: if_splits)
  have fail: "en_failure ?e \<noteq> None \<Longrightarrow> en_error ?e \<noteq> None \<and> en_payload ?e = None"
    by (cases "nonempty (dget fs ''type'')") (auto simp: parse_envelope_def Let_def split: option.splits pyval.splits)
  have ok: "\<exists>t d. en_type ?e = Some t \<and> t \<noteq> [] \<and> en_payload ?e = Some d" if "en_failure ?e = None"
    using that type by (auto simp: parse_envelope_def Let_def split: option.splits pyval.splits if_splits)
  then have event: "to_event_dict ?e \<noteq> None" if "en_failure ?e = None"
    using that by (auto simp: to_event_dict_def Let_def)
  have none: "to_event_dict ?e = None" if "en_failure ?e \<noteq> None" using that by (simp add: to_event_dict_def)
  have "r \<noteq> DispatchError" if "snd (attempt_event p ?e s) = Some (r, m, b)" for r m b
  proof (cases "en_failure ?e")
    case None
    then obtain d where "to_event_dict ?e = Some d" using event by auto
    then show ?thesis using that None by (auto simp: attempt_event_def split: prod.splits option.splits dispatch_error.splits)
  next
    case (Some f)
    then show ?thesis using that reasons by (auto simp: attempt_event_def)
  qed
  then show ?thesis using count fail ok event none by (auto split: option.splits)
qed

end
