(* ===== verification/ModelManager.thy ===== *)
theory ModelManager
  imports Prelude
begin

text \<open>
  The models an engine holds in memory (\<open>dalston/engine_sdk/model_manager.py\<close>) and the admission
  of batch tasks and realtime sessions to an engine (\<open>dalston/engine_sdk/admission.py\<close>). Every
  operation holds the object's lock and is one step here. Loading a model is a function of its
  identifier that may fail; a loaded model is a token. Callbacks, metrics and the clean-up of
  the device are left out.
\<close>

section \<open>Loaded models\<close>

record loaded_model =
  lm_model :: nat
  lm_loaded_at :: time
  lm_last_used_at :: time
  lm_refs :: int

record manager =
  mm_models :: "(string \<times> loaded_model) list"
  mm_ttl :: rat
  mm_max :: int
  mm_unloaded :: "string list"

definition new_manager :: "rat \<Rightarrow> int \<Rightarrow> manager" where
  "new_manager ttl limit = \<lparr>mm_models = [], mm_ttl = ttl, mm_max = limit, mm_unloaded = []\<rparr>"

datatype load_error = NoneIdle | LoadFailed string

definition is_loaded :: "string \<Rightarrow> manager \<Rightarrow> bool" where
  "is_loaded i m = dhas (mm_models m) i"

definition loaded_models :: "manager \<Rightarrow> string list" where
  "loaded_models m = map fst (mm_models m)"

text \<open>\<open>_evict\<close>: the entry leaves the table and its model is unloaded.\<close>

definition evict :: "string \<Rightarrow> manager \<Rightarrow> manager" where
  "evict i m =
     (if dhas (mm_models m) i
      then m\<lparr>mm_models := filter (\<lambda>(j, _). j \<noteq> i) (mm_models m), mm_unloaded := mm_unloaded m @ [i]\<rparr>
      else m)"

definition maybe_evict_for_capacity :: "manager \<Rightarrow> load_error + manager" where
  "maybe_evict_for_capacity m =
     (if int (length (mm_models m)) < mm_max m then Inr m
      else (case filter (\<lambda>(_, l). lm_refs l = 0) (mm_models m) of
              [] \<Rightarrow> Inl NoneIdle
            | c # cs \<Rightarrow> Inr (evict (fst (py_min_from (\<lambda>(_, l). lm_last_used_at l) c cs)) m)))"

definition load_and_register :: "(string \<Rightarrow> string + nat) \<Rightarrow> time \<Rightarrow> string \<Rightarrow> manager \<Rightarrow> load_error + manager" where
  "load_and_register load now i m =
     (case load i of
        Inl e \<Rightarrow> Inl (LoadFailed e)
      | Inr x \<Rightarrow> Inr (m\<lparr>mm_models := dset i \<lparr>lm_model = x, lm_loaded_at = now, lm_last_used_at = now, lm_refs = 0\<rparr>
                        (mm_models m)\<rparr>))"

definition upd_model :: "string \<Rightarrow> (loaded_model \<Rightarrow> loaded_model) \<Rightarrow> manager \<Rightarrow> manager" where
  "upd_model i f m = m\<lparr>mm_models := map (\<lambda>(j, l). (j, if j = i then f l else l)) (mm_models m)\<rparr>"

text \<open>\<open>acquire\<close>: the model of the entry, or the exception; a model evicted to make room stays
  evicted when loading then fails.\<close>

definition acquire :: "(string \<Rightarrow> string + nat) \<Rightarrow> time \<Rightarrow> string \<Rightarrow> manager \<Rightarrow> manager \<times> (load_error + nat)" where
  "acquire load now i m =
     (case (if is_loaded i m then (m, Inr ())
            else (case maybe_evict_for_capacity m of
                    Inl e \<Rightarrow> (m, Inl e)
                  | Inr m1 \<Rightarrow> (case load_and_register load now i m1 of Inl e \<Rightarrow> (m1, Inl e) | Inr m2 \<Rightarrow> (m2, Inr ())))) of
        (m', Inl e) \<Rightarrow> (m', Inl e)
      | (m', Inr _) \<Rightarrow>
          (case dget (mm_models m') i of
             Some l \<Rightarrow> (upd_model i (\<lambda>l. l\<lparr>lm_refs := lm_refs l + 1, lm_last_used_at := now\<rparr>) m', Inr (lm_model l))
           | None \<Rightarrow> (m', Inl NoneIdle)))"

definition release :: "string \<Rightarrow> manager \<Rightarrow> manager" where
  "release i = upd_model i (\<lambda>l. l\<lparr>lm_refs := max 0 (lm_refs l - 1)\<rparr>)"

definition evict_expired :: "time \<Rightarrow> manager \<Rightarrow> manager" where
  "evict_expired now m =
     fold evict (map fst (filter (\<lambda>(_, l). lm_refs l = 0 \<and> now - lm_last_used_at l > mm_ttl m) (mm_models m))) m"

definition shutdown :: "manager \<Rightarrow> manager" where
  "shutdown m = fold evict (loaded_models m) m"

section \<open>Admission\<close>

record admission_config =
  rt_reservation :: int
  batch_max_inflight :: int
  total_capacity :: int

record admission =
  ad_config :: admission_config
  active_batch :: int
  active_rt :: int

definition new_admission :: "admission_config \<Rightarrow> admission" where
  "new_admission c = \<lparr>ad_config = c, active_batch = 0, active_rt = 0\<rparr>"

definition can_accept_batch :: "admission \<Rightarrow> bool" where
  "can_accept_batch a =
     (if active_batch a \<ge> batch_max_inflight (ad_config a) then False
      else (let available = total_capacity (ad_config a) - (active_batch a + active_rt a)
            in if available \<le> 0 then False
               else if active_rt a \<ge> rt_reservation (ad_config a) then True
               else available > rt_reservation (ad_config a) - active_rt a))"

definition can_accept_rt :: "admission \<Rightarrow> bool" where
  "can_accept_rt a \<longleftrightarrow> active_batch a + active_rt a < total_capacity (ad_config a)"

definition admit_batch :: "admission \<Rightarrow> admission \<times> bool" where
  "admit_batch a = (if \<not> can_accept_batch a then (a, False) else (a\<lparr>active_batch := active_batch a + 1\<rparr>, True))"

definition admit_rt :: "admission \<Rightarrow> admission \<times> bool" where
  "admit_rt a = (if \<not> can_accept_rt a then (a, False) else (a\<lparr>active_rt := active_rt a + 1\<rparr>, True))"

definition release_batch :: "admission \<Rightarrow> admission" where
  "release_batch a = a\<lparr>active_batch := max 0 (active_batch a - 1)\<rparr>"

definition release_rt :: "admission \<Rightarrow> admission" where
  "release_rt a = a\<lparr>active_rt := max 0 (active_rt a - 1)\<rparr>"

definition reconfigure :: "admission_config \<Rightarrow> admission \<Rightarrow> admission" where
  "reconfigure c a = a\<lparr>ad_config := c\<rparr>"

text \<open>\<open>get_status\<close>: total, available, and what would be accepted.\<close>

definition admission_status :: "admission \<Rightarrow> int \<times> int \<times> bool \<times> bool" where
  "admission_status a =
     (active_batch a + active_rt a, total_capacity (ad_config a) - (active_batch a + active_rt a),
      can_accept_batch a, can_accept_rt a)"

section \<open>What is kept\<close>

text \<open>The clients of a manager: each holds a list of the models it acquired and has not released.\<close>

inductive manager_step :: "manager \<times> string list \<Rightarrow> manager \<times> string list \<Rightarrow> bool" where
  Acquire: "acquire load now i m = (m', Inr x) \<Longrightarrow> manager_step (m, held) (m', i # held)"
| Refused: "acquire load now i m = (m', Inl e) \<Longrightarrow> manager_step (m, held) (m', held)"
| Release: "i \<in> set held \<Longrightarrow> manager_step (m, held) (release i m, remove1 i held)"
| Expire: "manager_step (m, held) (evict_expired now m, held)"

inductive manager_reachable :: "rat \<Rightarrow> int \<Rightarrow> manager \<times> string list \<Rightarrow> bool" for ttl limit where
  Start: "manager_reachable ttl limit (new_manager ttl limit, [])"
| Next: "manager_reachable ttl limit s \<Longrightarrow> manager_step s s' \<Longrightarrow> manager_reachable ttl limit s'"

definition manager_ok :: "manager \<times> string list \<Rightarrow> bool" where
  "manager_ok = (\<lambda>(m, held). distinct (map fst (mm_models m))
     \<and> int (length (mm_models m)) \<le> max 0 (mm_max m)
     \<and> (\<forall>(i, l) \<in> set (mm_models m). lm_refs l = int (count_list held i))
     \<and> set held \<subseteq> fst ` set (mm_models m))"

inductive admission_step :: "admission \<Rightarrow> admission \<Rightarrow> bool" where
  Batch: "admission_step a (fst (admit_batch a))"
| Realtime: "admission_step a (fst (admit_rt a))"
| BatchDone: "admission_step a (release_batch a)"
| RealtimeDone: "admission_step a (release_rt a)"

inductive admission_reachable :: "admission_config \<Rightarrow> admission \<Rightarrow> bool" for c where
  AStart: "admission_reachable c (new_admission c)"
| ANext: "admission_reachable c a \<Longrightarrow> admission_step a a' \<Longrightarrow> admission_reachable c a'"

lemma dhas_fst: "dhas d k \<longleftrightarrow> k \<in> fst ` set d"
  by (induction d) (auto simp: dhas_def dget_def)

lemma evict_models: "mm_models (evict i m) = filter (\<lambda>(j, _). j \<noteq> i) (mm_models m)"
  by (force simp: evict_def dhas_fst intro!: filter_True [symmetric])

lemma evict_config [simp]: "mm_max (evict i m) = mm_max m" "mm_ttl (evict i m) = mm_ttl m"
  by (simp_all add: evict_def)

lemma fold_evict: "mm_models (fold evict is m) = filter (\<lambda>(j, _). j \<notin> set is) (mm_models m)"
  "mm_max (fold evict is m) = mm_max m" "mm_ttl (fold evict is m) = mm_ttl m"
  by (induction "is" arbitrary: m) (auto simp: evict_models intro!: filter_cong)

lemma upd_models: "map fst (mm_models (upd_model i f m)) = map fst (mm_models m)"
  "mm_max (upd_model i f m) = mm_max m" "length (mm_models (upd_model i f m)) = length (mm_models m)"
  by (auto simp: upd_model_def comp_def case_prod_unfold)

end
