(* ===== verification/ManagerProps.thy ===== *)
theory ManagerProps
  imports ModelManager
begin

text \<open>
  What is proved of the models in memory: the reference counts are exactly the leases, nothing
  in use is unloaded, the limit holds, and a lease can be had whenever fewer models than the
  limit are in use; and of the admission: the reservation of the realtime sessions is kept
  free whatever batch tasks come.
\<close>

lemma manager_okI:
  assumes "distinct (map fst (mm_models m))" "int (length (mm_models m)) \<le> max 0 (mm_max m)"
    and "\<And>i l. (i, l) \<in> set (mm_models m) \<Longrightarrow> lm_refs l = int (count_list held i)"
    and "set held \<subseteq> fst ` set (mm_models m)"
  shows "manager_ok (m, held)"
  using assms by (auto simp: manager_ok_def)

lemma manager_okD:
  assumes "manager_ok (m, held)"
  shows "distinct (map fst (mm_models m))" "int (length (mm_models m)) \<le> max 0 (mm_max m)"
    and "(i, l) \<in> set (mm_models m) \<Longrightarrow> lm_refs l = int (count_list held i)"
    and "set held \<subseteq> fst ` set (mm_models m)"
  using assms by (auto simp: manager_ok_def)

text \<open>Taking out idle entries keeps everything.\<close>

lemma idle_not_held:
  "manager_ok (m, held) \<Longrightarrow> (i, l) \<in> set (mm_models m) \<Longrightarrow> lm_refs l = 0 \<Longrightarrow> i \<notin> set held"
  using manager_okD(3) by (metis count_list_0_iff of_nat_eq_0_iff)

lemma manager_ok_evict:
  assumes ok: "manager_ok (m, held)" and out: "mm_models m' = filter (\<lambda>(j, _). j \<notin> S) (mm_models m)"
    and cfg: "mm_max m' = mm_max m" and idle: "S \<inter> set held = {}"
  shows "manager_ok (m', held)"
proof (rule manager_okI)
  show "distinct (map fst (mm_models m'))" unfolding out by (rule distinct_map_filter) (rule manager_okD(1) [OF ok])
  have "length (mm_models m') \<le> length (mm_models m)" unfolding out by (rule length_filter_le)
  then show "int (length (mm_models m')) \<le> max 0 (mm_max m')" using manager_okD(2) [OF ok] cfg by simp
  show "lm_refs l = int (count_list held i)" if "(i, l) \<in> set (mm_models m')" for i l
    using that manager_okD(3) [OF ok] by (simp add: out)
  show "set held \<subseteq> fst ` set (mm_models m')"
    using manager_okD(4) [OF ok] idle by (force simp: out)
qed

lemma lru_candidate:
  assumes "filter (\<lambda>(_, l). lm_refs l = 0) (mm_models m) = c # cs"
  defines "v \<equiv> py_min_from (\<lambda>(_, l). lm_last_used_at l) c cs"
  shows "v \<in> set (mm_models m)" "lm_refs (snd v) = 0"
    "\<And>j k. (j, k) \<in> set (mm_models m) \<Longrightarrow> lm_refs k = 0 \<Longrightarrow> lm_last_used_at (snd v) \<le> lm_last_used_at k"
proof -
  have "v \<in> set (c # cs)" using py_min_from_in [of "\<lambda>(_, l). lm_last_used_at l" c cs] by (simp add: v_def)
  then have "v \<in> set (filter (\<lambda>(_, l). lm_refs l = 0) (mm_models m))" by (simp add: assms(1))
  then show "v \<in> set (mm_models m)" "lm_refs (snd v) = 0" by auto
  show "lm_last_used_at (snd v) \<le> lm_last_used_at k" if "(j, k) \<in> set (mm_models m)" "lm_refs k = 0" for j k
  proof -
    have "(j, k) \<in> set (c # cs)" using that by (simp flip: assms(1))
    then show ?thesis using py_min_from_le [of "(j, k)" c cs "\<lambda>(_, l). lm_last_used_at l"] by (simp add: v_def case_prod_unfold)
  qed
qed

text \<open>Making room: what it is when it succeeds.\<close>

lemma capacity_room:
  assumes "maybe_evict_for_capacity m = Inr m1" "manager_ok (m, held)"
  shows "manager_ok (m1, held)" "int (length (mm_models m1)) < mm_max m1" "mm_max m1 = mm_max m"
    "fst ` set (mm_models m1) \<subseteq> fst ` set (mm_models m)"
proof -
  have "manager_ok (m1, held) \<and> int (length (mm_models m1)) < mm_max m1 \<and> mm_max m1 = mm_max m
    \<and> fst ` set (mm_models m1) \<subseteq> fst ` set (mm_models m)"
  proof (cases "int (length (mm_models m)) < mm_max m")
    case True
    then show ?thesis using assms by (auto simp: maybe_evict_for_capacity_def)
  next
    case False
    then obtain c cs where f: "filter (\<lambda>(_, l). lm_refs l = 0) (mm_models m) = c # cs"
      using assms(1) by (auto simp: maybe_evict_for_capacity_def split: list.splits)
    let ?v = "py_min_from (\<lambda>(_, l). lm_last_used_at l) c cs"
    have m1: "m1 = evict (fst ?v) m" using assms(1) False f by (simp add: maybe_evict_for_capacity_def)
    note v = lru_candidate(1,2) [OF f]
    have out: "mm_models m1 = filter (\<lambda>(j, _). j \<notin> {fst ?v}) (mm_models m)" by (simp add: m1 evict_models)
    have "fst ?v \<notin> set held" using idle_not_held [OF assms(2), of "fst ?v" "snd ?v"] v by simp
    then have ok: "manager_ok (m1, held)" using manager_ok_evict [OF assms(2) out] by (simp add: m1)
    have "length (mm_models m1) < length (mm_models m)"
      unfolding out by (rule length_filter_less [OF v(1)]) (simp add: case_prod_unfold)
    moreover have "0 < mm_max m" using manager_okD(2) [OF assms(2)] v(1) by (cases "mm_models m") auto
    ultimately have "int (length (mm_models m1)) < mm_max m1"
      using manager_okD(2) [OF assms(2)] by (simp add: m1)
    then show ?thesis using ok out by (auto simp: m1)
  qed
  then show "manager_ok (m1, held)" "int (length (mm_models m1)) < mm_max m1" "mm_max m1 = mm_max m"
    "fst ` set (mm_models m1) \<subseteq> fst ` set (mm_models m)" by blast+
qed

lemma manager_ok_lease:
  assumes "manager_ok (m, held)" "is_loaded i m"
  shows "manager_ok (upd_model i (\<lambda>l. l\<lparr>lm_refs := lm_refs l + 1, lm_last_used_at := now\<rparr>) m, i # held)"
proof (rule manager_okI)
  let ?m = "upd_model i (\<lambda>l. l\<lparr>lm_refs := lm_refs l + 1, lm_last_used_at := now\<rparr>) m"
  show "distinct (map fst (mm_models ?m))" "int (length (mm_models ?m)) \<le> max 0 (mm_max ?m)"
    using manager_okD(1,2) [OF assms(1)] by (simp_all add: upd_models)
  show "lm_refs l = int (count_list (i # held) j)" if "(j, l) \<in> set (mm_models ?m)" for j l
    using that manager_okD(3) [OF assms(1)] by (auto simp: upd_model_def split: if_splits)
  have "fst ` set (mm_models ?m) = fst ` set (mm_models m)" by (metis set_map upd_models(1))
  then show "set (i # held) \<subseteq> fst ` set (mm_models ?m)"
    using manager_okD(4) [OF assms(1)] assms(2) by (simp add: is_loaded_def dhas_fst)
qed

lemma register_ok:
  assumes "load_and_register load now i m = Inr m'" "manager_ok (m, held)" "\<not> is_loaded i m"
    and "int (length (mm_models m)) < mm_max m"
  shows "manager_ok (m', held)" "is_loaded i m'"
proof -
  obtain l where m': "m' = m\<lparr>mm_models := dset i l (mm_models m)\<rparr>" and l: "lm_refs l = 0"
    using assms(1) by (auto simp: load_and_register_def split: sum.splits)
  have new: "i \<notin> fst ` set (mm_models m)" using assms(3) by (simp add: is_loaded_def dhas_fst)
  have app: "dset i l d = d @ [(i, l)]" if "i \<notin> fst ` set d" for d
    using that unfolding dset_def by (induction d) auto
  have held: "i \<notin> set held" using manager_okD(4) [OF assms(2)] new by blast
  show "manager_ok (m', held)"
    using manager_okD [OF assms(2)] assms(4) new held l
    by (intro manager_okI) (auto simp: m' app)
  show "is_loaded i m'" by (simp add: is_loaded_def m')
qed

lemma manager_ok_acquire:
  assumes "acquire load now i m = (m', r)" "manager_ok (m, held)"
  shows "manager_ok (m', case r of Inl _ \<Rightarrow> held | Inr _ \<Rightarrow> i # held) \<and> mm_max m' = mm_max m"
proof (cases "is_loaded i m")
  case True
  then obtain l where l: "dget (mm_models m) i = Some l" by (auto simp: is_loaded_def dhas_def)
  then have "m' = upd_model i (\<lambda>l. l\<lparr>lm_refs := lm_refs l + 1, lm_last_used_at := now\<rparr>) m" "r = Inr (lm_model l)"
    using assms(1) True by (simp_all add: acquire_def)
  then show ?thesis using manager_ok_lease [OF assms(2) True] by (simp add: upd_models)
next
  case new: False
  show ?thesis
  proof (cases "maybe_evict_for_capacity m")
    case (Inl e)
    then show ?thesis using assms new by (auto simp: acquire_def)
  next
    case (Inr m1)
    note room = capacity_room [OF Inr assms(2)]
    have new1: "\<not> is_loaded i m1" using new room(4) by (auto simp: is_loaded_def dhas_fst)
    show ?thesis
    proof (cases "load_and_register load now i m1")
      case (Inl e)
      then show ?thesis using assms(1) new Inr room by (auto simp: acquire_def)
    next
      case reg: (Inr m2)
      note ok = register_ok [OF reg room(1) new1 room(2)]
      obtain l where l: "dget (mm_models m2) i = Some l" using ok(2) by (auto simp: is_loaded_def dhas_def)
      have "m' = upd_model i (\<lambda>l. l\<lparr>lm_refs := lm_refs l + 1, lm_last_used_at := now\<rparr>) m2" "r = Inr (lm_model l)"
        using assms(1) new Inr reg l by (simp_all add: acquire_def)
      moreover have "mm_max m2 = mm_max m1" using reg by (auto simp: load_and_register_def split: sum.splits)
      ultimately show ?thesis using manager_ok_lease [OF ok] room(3) by (simp add: upd_models)
    qed
  qed
qed

lemma in_upd_model:
  "(j, l) \<in> set (mm_models (upd_model i f m)) \<Longrightarrow> \<exists>k. (j, k) \<in> set (mm_models m) \<and> l = (if j = i then f k else k)"
  by (auto simp: upd_model_def)

lemma manager_ok_release:
  assumes "manager_ok (m, held)" "i \<in> set held"
  shows "manager_ok (release i m, remove1 i held)"
proof (rule manager_okI)
  show "distinct (map fst (mm_models (release i m)))" "int (length (mm_models (release i m))) \<le> max 0 (mm_max (release i m))"
    using manager_okD(1,2) [OF assms(1)] by (simp_all add: release_def upd_models)
  have same: "count_list (remove1 i held) j = count_list held j - (if j = i then 1 else 0)" for j
    using assms(2) by (induction held) auto
  have pos: "0 < count_list held i" using assms(2) count_list_0_iff [of held i] by (cases "count_list held i") auto
  show "lm_refs l = int (count_list (remove1 i held) j)" if row: "(j, l) \<in> set (mm_models (release i m))" for j l
  proof -
    obtain k where k: "(j, k) \<in> set (mm_models m)"
      "l = (if j = i then k\<lparr>lm_refs := max 0 (lm_refs k - 1)\<rparr> else k)"
      using in_upd_model [OF row [unfolded release_def]] by blast
    have refs: "lm_refs k = int (count_list held j)" by (rule manager_okD(3) [OF assms(1) k(1)])
    show ?thesis
    proof (cases "j = i")
      case True
      then show ?thesis using refs pos by (simp add: k(2) same of_nat_diff)
    qed (simp add: k(2) same refs)
  qed
  have "fst ` set (mm_models (release i m)) = fst ` set (mm_models m)"
    unfolding release_def by (metis set_map upd_models(1))
  then show "set (remove1 i held) \<subseteq> fst ` set (mm_models (release i m))"
    by (simp only:) (rule subset_trans [OF set_remove1_subset manager_okD(4) [OF assms(1)]])
qed

lemma manager_ok_expire:
  assumes "manager_ok (m, held)"
  shows "manager_ok (evict_expired now m, held)"
proof -
  let ?S = "fst ` {(i, l) \<in> set (mm_models m). lm_refs l = 0 \<and> now - lm_last_used_at l > mm_ttl m}"
  have "mm_models (evict_expired now m) = filter (\<lambda>(j, _). j \<notin> ?S) (mm_models m)"
    unfolding evict_expired_def fold_evict by (rule filter_cong) force+
  moreover have "?S \<inter> set held = {}" using idle_not_held [OF assms] by force
  ultimately show ?thesis using manager_ok_evict [OF assms] by (simp add: evict_expired_def fold_evict)
qed

lemma manager_reachable_ok: "manager_reachable ttl limit s \<Longrightarrow> manager_ok s \<and> mm_max (fst s) = limit"
proof (induction rule: manager_reachable.induct)
  case Start
  show ?case by (simp add: manager_ok_def new_manager_def)
next
  case (Next s s')
  from Next.hyps(2) show ?case
  proof cases
    case Acquire
    then show ?thesis using manager_ok_acquire [OF Acquire(3)] Next.IH by auto
  next
    case Refused
    then show ?thesis using manager_ok_acquire [OF Refused(3)] Next.IH by auto
  next
    case Release
    then show ?thesis using Next.IH by (simp add: manager_ok_release) (simp add: release_def upd_models)
  next
    case Expire
    then show ?thesis using Next.IH by (simp add: manager_ok_expire) (simp add: evict_expired_def fold_evict)
  qed
qed

text \<open>C31: Whatever clients acquire and release and whenever idle models expire, no more models are
  in memory than the limit, the reference count of each is the number of leases on it, every
  leased model is in memory, and it survives every eviction that may come next.\<close>
theorem model_leases_exact:
  assumes "manager_reachable ttl limit (m, held)"
  shows "int (length (loaded_models m)) \<le> max 0 limit \<and> distinct (loaded_models m)
    \<and> (\<forall>(i, l) \<in> set (mm_models m). lm_refs l = int (count_list held i))
    \<and> (\<forall>i \<in> set held. is_loaded i m \<and> is_loaded i (evict_expired now m) \<and> is_loaded i (fst (acquire load now j m)))"
proof -
  have ok: "manager_ok (m, held)" "mm_max m = limit" using manager_reachable_ok [OF assms] by simp_all
  have held: "is_loaded i m'" if "manager_ok (m', h)" "i \<in> set h" for i m' h
    using manager_okD(4) [OF that(1)] that(2) by (auto simp: is_loaded_def dhas_fst)
  obtain m' r where a: "acquire load now j m = (m', r)" using prod.exhaust by blast
  have "is_loaded i m'" if "i \<in> set held" for i
    using manager_ok_acquire [OF a ok(1)] that by (cases r) (auto intro: held)
  then show ?thesis
    using manager_okD [OF ok(1)] ok held [OF ok(1)] held [OF manager_ok_expire [OF ok(1)]]
    by (auto simp: loaded_models_def a)
qed

text \<open>A model that loads can be acquired in every reachable state in which it is loaded or
  fewer different models than the limit are in use; of those in memory then at most one gives
  way, an idle one that was used least recently.\<close>
lemma acquire_succeeds:
  assumes "manager_reachable ttl limit (m, held)" "load i = Inr x"
    and "is_loaded i m \<or> int (card (set held)) < limit"
  shows "\<exists>m' y. acquire load now i m = (m', Inr y) \<and> is_loaded i m'
    \<and> (\<forall>j l. (j, l) \<in> set (mm_models m) \<longrightarrow> \<not> is_loaded j m' \<longrightarrow>
         lm_refs l = 0 \<and> \<not> is_loaded i m
         \<and> (\<forall>(k, n) \<in> set (mm_models m). lm_refs n = 0 \<longrightarrow> lm_last_used_at l \<le> lm_last_used_at n))"
proof -
  have ok: "manager_ok (m, held)" "mm_max m = limit" using manager_reachable_ok [OF assms(1)] by simp_all
  show ?thesis
  proof (cases "is_loaded i m")
    case True
    then obtain l where l: "dget (mm_models m) i = Some l" by (auto simp: is_loaded_def dhas_def)
    have keys: "is_loaded j (upd_model i f m) \<longleftrightarrow> is_loaded j m" for j f
      unfolding is_loaded_def dhas_fst by (metis set_map upd_models(1))
    have "is_loaded j m" if "(j, k) \<in> set (mm_models m)" for j k
      using that by (force simp: is_loaded_def dhas_fst)
    then show ?thesis using True l by (simp add: acquire_def keys) blast
  next
    case new: False
    then have used: "int (card (set held)) < mm_max m" using assms(3) ok(2) by simp
    have "\<exists>m1. maybe_evict_for_capacity m = Inr m1"
    proof (cases "int (length (mm_models m)) < mm_max m")
      case False
      have "filter (\<lambda>(_, l). lm_refs l = 0) (mm_models m) \<noteq> []"
      proof
        assume none: "filter (\<lambda>(_, l). lm_refs l = 0) (mm_models m) = []"
        have "fst ` set (mm_models m) \<subseteq> set held"
        proof
          fix j assume "j \<in> fst ` set (mm_models m)"
          then obtain l where l: "(j, l) \<in> set (mm_models m)" by auto
          then have "lm_refs l \<noteq> 0" using none by (auto simp: filter_empty_conv)
          then show "j \<in> set held" using manager_okD(3) [OF ok(1) l] by (metis count_list_0_iff of_nat_0)
        qed
        then have "card (fst ` set (mm_models m)) \<le> card (set held)" by (rule card_mono [rotated]) simp
        moreover have "card (fst ` set (mm_models m)) = length (mm_models m)"
          using distinct_card [OF manager_okD(1) [OF ok(1)]] by simp
        ultimately show False using used False by simp
      qed
      then show ?thesis using False by (auto simp: maybe_evict_for_capacity_def split: list.splits)
    qed (simp add: maybe_evict_for_capacity_def)
    then obtain m1 where m1: "maybe_evict_for_capacity m = Inr m1" by blast
    note room = capacity_room [OF m1 ok(1)]
    have new1: "\<not> is_loaded i m1" using new room(4) by (auto simp: is_loaded_def dhas_fst)
    obtain l where reg: "load_and_register load now i m1 = Inr (m1\<lparr>mm_models := dset i l (mm_models m1)\<rparr>)"
      using assms(2) by (auto simp: load_and_register_def)
    define m2 where "m2 = m1\<lparr>mm_models := dset i l (mm_models m1)\<rparr>"
    let ?m = "upd_model i (\<lambda>l. l\<lparr>lm_refs := lm_refs l + 1, lm_last_used_at := now\<rparr>) m2"
    have keys: "fst ` set (mm_models ?m) = insert i (fst ` set (mm_models m1))"
    proof -
      have "fst ` set (mm_models ?m) = fst ` set (mm_models m2)" by (metis set_map upd_models(1))
      also have "\<dots> = insert i (fst ` set (mm_models m1))"
        unfolding m2_def by (rule set_eqI) (simp flip: dhas_fst)
      finally show ?thesis .
    qed
    have "acquire load now i m = (?m, Inr (lm_model l))"
      using new m1 reg by (simp add: acquire_def m2_def)
    moreover have "lm_refs k = 0 \<and> (\<forall>(p, n) \<in> set (mm_models m). lm_refs n = 0 \<longrightarrow> lm_last_used_at k \<le> lm_last_used_at n)"
      if "(j, k) \<in> set (mm_models m)" "\<not> is_loaded j ?m" for j k
    proof -
      have gone: "j \<notin> fst ` set (mm_models m1)" using that(2) keys by (simp add: is_loaded_def dhas_fst)
      then have "\<not> int (length (mm_models m)) < mm_max m"
        using that(1) m1 by (force simp: maybe_evict_for_capacity_def)
      then obtain c cs where f: "filter (\<lambda>(_, l). lm_refs l = 0) (mm_models m) = c # cs"
        and e: "m1 = evict (fst (py_min_from (\<lambda>(_, l). lm_last_used_at l) c cs)) m"
        using m1 by (auto simp: maybe_evict_for_capacity_def split: list.splits)
      let ?v = "py_min_from (\<lambda>(_, l). lm_last_used_at l) c cs"
      note v = lru_candidate [OF f]
      have "j = fst ?v" using gone that(1) by (force simp: e evict_models)
      then have "k = snd ?v" using v(1) that(1) manager_okD(1) [OF ok(1)]
        by (metis eq_key_imp_eq_value prod.collapse)
      then show ?thesis using v(2,3) by auto
    qed
    ultimately show ?thesis using keys new by (auto simp: is_loaded_def dhas_fst)
  qed
qed

section \<open>Admission\<close>

lemma admission_invariant:
  assumes "admission_reachable c a" "0 \<le> rt_reservation c" "rt_reservation c \<le> total_capacity c" "0 \<le> batch_max_inflight c"
  shows "ad_config a = c \<and> 0 \<le> active_batch a \<and> active_batch a \<le> batch_max_inflight c \<and> 0 \<le> active_rt a
    \<and> active_batch a + max (active_rt a) (rt_reservation c) \<le> total_capacity c"
  using assms
proof (induction rule: admission_reachable.induct)
  case AStart
  then show ?case by (simp add: new_admission_def)
next
  case (ANext a a')
  from ANext.hyps(2) show ?case
    by cases (use ANext in \<open>auto simp: admit_batch_def admit_rt_def can_accept_batch_def can_accept_rt_def
      release_batch_def release_rt_def Let_def split: if_splits\<close>)
qed

text \<open>C32: Whatever tasks and sessions come and go, the engine never runs more than its capacity or
  more batch tasks than their limit, and as long as fewer realtime sessions run than are
  reserved the next one is admitted.\<close>
theorem realtime_reservation_kept:
  assumes "admission_reachable c a" "0 \<le> rt_reservation c" "rt_reservation c \<le> total_capacity c" "0 \<le> batch_max_inflight c"
  shows "active_batch a + active_rt a \<le> total_capacity c \<and> active_batch a \<le> batch_max_inflight c
    \<and> (active_rt a < rt_reservation c \<longrightarrow> snd (admit_rt a) \<and> active_rt (fst (admit_rt a)) = active_rt a + 1)"
  using admission_invariant [OF assms] by (auto simp: admit_rt_def can_accept_rt_def)

section \<open>Concrete runs\<close>

definition demo_manager :: manager where
  "demo_manager = fst (acquire (\<lambda>_. Inr 1) 0 ''a'' (new_manager 60 2))"

lemma demo_manager_reachable: "manager_reachable 60 2 (demo_manager, [''a''])"
proof (rule manager_reachable.Next [OF manager_reachable.Start])
  have "acquire (\<lambda>_. Inr 1) 0 ''a'' (new_manager 60 2) = (demo_manager, Inr 1)" by code_simp
  then show "manager_step (new_manager 60 2, []) (demo_manager, [''a''])" by (rule manager_step.Acquire)
qed

theorem model_leases_exact_witness:
  "loaded_models demo_manager = [''a''] \<and> is_loaded ''a'' (evict_expired 1000 demo_manager)"
proof -
  have "loaded_models demo_manager = [''a'']" by code_simp
  then show ?thesis using model_leases_exact [OF demo_manager_reachable, of 1000] by auto
qed

lemma acquire_succeeds_example:
  "\<exists>m' y. acquire (\<lambda>_. Inr 2) 5 ''b'' demo_manager = (m', Inr y) \<and> is_loaded ''b'' m'"
  using acquire_succeeds [OF demo_manager_reachable, of "\<lambda>_. Inr 2" "''b''" 2 5] by auto

theorem realtime_reservation_kept_witness:
  "snd (admit_rt (fst (admit_batch (new_admission \<lparr>rt_reservation = 2, batch_max_inflight = 4, total_capacity = 6\<rparr>))))"
proof -
  let ?c = "\<lparr>rt_reservation = 2, batch_max_inflight = 4, total_capacity = 6\<rparr>"
  have "admission_reachable ?c (fst (admit_batch (new_admission ?c)))"
    by (rule admission_reachable.ANext [OF admission_reachable.AStart admission_step.Batch])
  from realtime_reservation_kept [OF this] show ?thesis
    by (simp add: admit_batch_def can_accept_batch_def new_admission_def)
qed

end
