(* ===== verification/DiskCache.thy ===== *)
theory DiskCache
  imports ModelManager
begin

text \<open>
  The models an engine keeps on disk (\<open>dalston/engine_sdk/disk_cache.py\<close>): the names of cache
  directories, the scan of the directories, and one eviction pass by age and by size. A cache
  directory is a record of what the pass reads of it; the file system, the time and which
  models are in memory are arguments. Removing a directory always succeeds.
\<close>

section \<open>Directory names\<close>

text \<open>\<open>str.replace("/", "--")\<close> and \<open>str.replace("--", "/")\<close>.\<close>

definition slashes_to_dashes :: "string \<Rightarrow> string" where
  "slashes_to_dashes s = concat (map (\<lambda>c. if c = CHR ''/'' then ''--'' else [c]) s)"

fun dashes_to_slashes :: "string \<Rightarrow> string" where
  "dashes_to_slashes (c # d # s) =
     (if c = CHR ''-'' \<and> d = CHR ''-'' then CHR ''/'' # dashes_to_slashes s else c # dashes_to_slashes (d # s))"
| "dashes_to_slashes s = s"

definition removeprefix :: "string \<Rightarrow> string \<Rightarrow> string" where
  "removeprefix p s = (if take (length p) s = p then drop (length p) s else s)"

text \<open>The names the storage and the HuggingFace cache give a model, and \<open>_dir_to_model_id\<close>.\<close>

definition local_dir_name :: "string \<Rightarrow> string" where
  "local_dir_name i = slashes_to_dashes i"

definition hf_dir_name :: "string \<Rightarrow> string" where
  "hf_dir_name i = ''models--'' @ slashes_to_dashes i"

definition dir_to_model_id :: "string \<Rightarrow> bool \<Rightarrow> string" where
  "dir_to_model_id name is_hf =
     (if is_hf then dashes_to_slashes (removeprefix ''models--'' name) else dashes_to_slashes name)"

section \<open>Scanning\<close>

record cache_dir =
  cd_name :: string
  cd_is_dir :: bool
  cd_complete :: bool
  cd_files :: "nat list"
  cd_marker :: "rat option"
  cd_mtime :: "rat option"

record cache_entry =
  ce_model :: string
  ce_path :: "nat \<times> string"
  ce_size :: nat
  ce_accessed :: rat
  ce_hf :: bool

definition dir_size :: "cache_dir \<Rightarrow> nat" where
  "dir_size d = sum_list (cd_files d)"

definition read_access_time :: "cache_dir \<Rightarrow> rat" where
  "read_access_time d =
     (case cd_marker d of Some t \<Rightarrow> t | None \<Rightarrow> (case cd_mtime d of Some t \<Rightarrow> t | None \<Rightarrow> 0))"

text \<open>A cache root is whether it is a HuggingFace cache and what it holds; a path is the number of
  its root and its name.\<close>

definition scan_entries :: "(bool \<times> cache_dir list) list \<Rightarrow> cache_entry list" where
  "scan_entries roots = concat (map (\<lambda>(n, is_hf, ds).
     map (\<lambda>d. \<lparr>ce_model = dir_to_model_id (cd_name d) is_hf, ce_path = (n, cd_name d), ce_size = dir_size d,
               ce_accessed = read_access_time d, ce_hf = is_hf\<rparr>)
       (filter (\<lambda>d. cd_is_dir d \<and> (is_hf \<longrightarrow> take 8 (cd_name d) = ''models--'') \<and> (\<not> is_hf \<longrightarrow> cd_complete d)) ds))
     (enumerate 0 roots))"

section \<open>One pass\<close>

datatype evict_reason = ByAge | ByBudget

record eviction =
  ev_scanned :: nat
  ev_evicted :: "(cache_entry \<times> evict_reason) list"
  ev_skipped :: nat
  ev_total_after :: int

text \<open>The budget pass over the eligible entries, oldest first.\<close>

fun budget_pass :: "int \<Rightarrow> int \<Rightarrow> cache_entry list \<Rightarrow> cache_entry list \<times> int" where
  "budget_pass limit used [] = ([], used)"
| "budget_pass limit used (e # es) =
     (if used \<le> limit then ([], used)
      else (let (out, rest) = budget_pass limit (used - int (ce_size e)) es in (e # out, rest)))"

definition scan_and_evict ::
  "rat \<Rightarrow> rat \<Rightarrow> rat \<Rightarrow> (string \<Rightarrow> bool) \<Rightarrow> cache_entry list \<Rightarrow> eviction" where
  "scan_and_evict max_gb max_age_hours now loaded entries =
     (let eligible = filter (\<lambda>e. \<not> loaded (ce_model e)) entries;
          old = (\<lambda>e. max_age_hours > 0 \<and> now - ce_accessed e > max_age_hours * 3600);
          by_age = filter old eligible;
          surviving = filter (\<lambda>e. \<not> old e) eligible;
          used = int (sum_list (map ce_size (filter (\<lambda>e. ce_path e \<notin> ce_path ` set by_age) entries)));
          (by_budget, rest) =
            (if max_gb > 0 then budget_pass \<lfloor>max_gb * 1024 * 1024 * 1024\<rfloor> used (py_sorted ce_accessed surviving)
             else ([], used))
      in \<lparr>ev_scanned = length entries,
          ev_evicted = map (\<lambda>e. (e, ByAge)) by_age @ map (\<lambda>e. (e, ByBudget)) by_budget,
          ev_skipped = length entries - length eligible,
          ev_total_after = rest\<rparr>)"

text \<open>What is on disk after a pass.\<close>

definition entries_after :: "eviction \<Rightarrow> cache_entry list \<Rightarrow> cache_entry list" where
  "entries_after r entries = filter (\<lambda>e. ce_path e \<notin> ce_path ` fst ` set (ev_evicted r)) entries"

definition evictor_enabled :: "rat \<Rightarrow> rat \<Rightarrow> bool" where
  "evictor_enabled max_gb max_age_hours \<longleftrightarrow> max_gb > 0 \<or> max_age_hours > 0"

end
