(* ===== verification/RealtimeAudio.thy ===== *)
theory RealtimeAudio
  imports ChunkedRun Json Rounding "HOL-Library.Word"
begin

text \<open>
  Live audio on its way to the engine: the buffer that decodes messages and cuts them into
  chunks (\<open>AudioBuffer\<close> of \<open>dalston/realtime_sdk/session.py\<close>), the detection of utterances in the
  chunks (\<open>dalston/realtime_sdk/vad.py\<close>) and the assembly of the session's transcript
  (\<open>dalston/realtime_sdk/assembler.py\<close>). Samples are exact numbers. Parameters, fields of
  \<open>rt_env\<close>: the companded codecs, the value of a float's bits, the resampler, the speech
  probability of a window given the windows before it, and the engine.
\<close>

type_synonym sample = rat
type_synonym bytes = "8 word list"

record rt_env =
  rt_ulaw :: "8 word \<Rightarrow> 16 word"
  rt_alaw :: "8 word \<Rightarrow> 16 word"
  rt_float :: "32 word \<Rightarrow> rat"
  rt_resample :: "nat \<Rightarrow> nat \<Rightarrow> sample list \<Rightarrow> sample list"
  rt_silero :: "sample list list \<Rightarrow> nat \<Rightarrow> rat"
  rt_transcribe :: "pyval \<Rightarrow> sample list \<Rightarrow> string + batch_transcript"

section \<open>The buffer\<close>

definition SUPPORTED_ENCODINGS :: "string list" where
  "SUPPORTED_ENCODINGS = [''pcm_s16le'', ''pcm_f32le'', ''mulaw'', ''alaw'']"

definition pcm_value :: "16 word \<Rightarrow> sample" where
  "pcm_value w = of_int (sint w) / 32768"

text \<open>\<open>np.frombuffer\<close>: fixed-width little-endian elements; a message that is no whole number of
  elements is an error.\<close>

fun frombuffer16 :: "bytes \<Rightarrow> 16 word list option" where
  "frombuffer16 [] = Some []"
| "frombuffer16 (lo # hi # ds) = map_option (\<lambda>ws. word_cat hi lo # ws) (frombuffer16 ds)"
| "frombuffer16 _ = None"

fun frombuffer32 :: "bytes \<Rightarrow> 32 word list option" where
  "frombuffer32 [] = Some []"
| "frombuffer32 (a # b # c # d # ds) =
     map_option (\<lambda>ws. word_cat (word_cat d c :: 16 word) (word_cat b a :: 16 word) # ws) (frombuffer32 ds)"
| "frombuffer32 _ = None"

record audio_buffer =
  ab_rate :: nat
  ab_client_rate :: nat
  ab_encoding :: string
  ab_channels :: nat
  ab_chunk_ms :: nat
  ab_buffer :: "sample list"
  ab_total :: nat

definition new_buffer :: "nat \<Rightarrow> string \<Rightarrow> nat option \<Rightarrow> nat \<Rightarrow> nat \<Rightarrow> audio_buffer option" where
  "new_buffer rate encoding client_rate channels chunk_ms =
     (if encoding \<notin> set SUPPORTED_ENCODINGS then None
      else Some \<lparr>ab_rate = rate,
                 ab_client_rate = (case client_rate of Some r \<Rightarrow> if r = 0 then rate else r | None \<Rightarrow> rate),
                 ab_encoding = encoding, ab_channels = max 1 channels, ab_chunk_ms = chunk_ms,
                 ab_buffer = [], ab_total = 0\<rparr>)"

definition chunk_samples :: "audio_buffer \<Rightarrow> nat" where
  "chunk_samples b = ab_rate b * ab_chunk_ms b div 1000 * ab_channels b"

definition decode_audio :: "rt_env \<Rightarrow> string \<Rightarrow> bytes \<Rightarrow> sample list option" where
  "decode_audio env encoding data =
     (if encoding = ''pcm_s16le'' then map_option (map pcm_value) (frombuffer16 data)
      else if encoding = ''pcm_f32le'' then map_option (map (rt_float env)) (frombuffer32 data)
      else if encoding = ''mulaw'' then Some (map (\<lambda>b. pcm_value (rt_ulaw env b)) data)
      else if encoding = ''alaw'' then Some (map (\<lambda>b. pcm_value (rt_alaw env b)) data)
      else None)"

definition resample_if_needed :: "rt_env \<Rightarrow> audio_buffer \<Rightarrow> sample list \<Rightarrow> sample list" where
  "resample_if_needed env b xs =
     (if ab_client_rate b = ab_rate b \<or> xs = [] then xs else rt_resample env (ab_client_rate b) (ab_rate b) xs)"

definition add_audio :: "rt_env \<Rightarrow> bytes \<Rightarrow> audio_buffer \<Rightarrow> audio_buffer option" where
  "add_audio env data b =
     (case decode_audio env (ab_encoding b) data of
        None \<Rightarrow> None
      | Some ys \<Rightarrow>
          (let xs = resample_if_needed env b ys
           in Some (b\<lparr>ab_buffer := ab_buffer b @ xs, ab_total := ab_total b + length xs\<rparr>)))"

definition get_chunk :: "audio_buffer \<Rightarrow> (sample list \<times> audio_buffer) option" where
  "get_chunk b =
     (if length (ab_buffer b) < chunk_samples b then None
      else Some (take (chunk_samples b) (ab_buffer b), b\<lparr>ab_buffer := drop (chunk_samples b) (ab_buffer b)\<rparr>))"

definition flush_buffer :: "audio_buffer \<Rightarrow> (sample list \<times> audio_buffer) option" where
  "flush_buffer b = (if ab_buffer b = [] then None else Some (ab_buffer b, b\<lparr>ab_buffer := []\<rparr>))"

definition buffered_duration :: "audio_buffer \<Rightarrow> rat" where
  "buffered_duration b = of_nat (length (ab_buffer b)) / of_nat (ab_rate b * ab_channels b)"

definition total_duration :: "audio_buffer \<Rightarrow> rat" where
  "total_duration b = of_nat (ab_total b) / of_nat (ab_rate b * ab_channels b)"

definition clear_buffer :: "audio_buffer \<Rightarrow> rat \<times> audio_buffer" where
  "clear_buffer b = (buffered_duration b, b\<lparr>ab_buffer := []\<rparr>)"

section \<open>Utterances\<close>

text \<open>The threshold is what the client sent: a value that is no number cannot be compared.\<close>

record vad_config =
  vc_threshold :: pyval
  vc_min_speech :: rat
  vc_min_silence :: rat
  vc_rate :: nat
  vc_lookback :: nat

definition pynum :: "pyval \<Rightarrow> rat option" where
  "pynum v = (case v of PInt n \<Rightarrow> Some (of_int n) | PFloat x \<Rightarrow> Some x | PBool b \<Rightarrow> Some (if b then 1 else 0) | _ \<Rightarrow> None)"

record vad =
  va_config :: vad_config
  va_windows :: "sample list list"
  va_speaking :: bool
  va_speech_buffer :: "sample list list"
  va_lookback :: "sample list list"
  va_silence :: rat
  va_speech :: rat

definition new_vad :: "vad_config \<Rightarrow> vad" where
  "new_vad c = \<lparr>va_config = c, va_windows = [], va_speaking = False, va_speech_buffer = [], va_lookback = [],
     va_silence = 0, va_speech = 0\<rparr>"

text \<open>The windows of a chunk, and the probability: the largest over its windows.\<close>

definition chunk_windows :: "nat \<Rightarrow> sample list \<Rightarrow> sample list list" where
  "chunk_windows w xs =
     (let ys = (if length xs < w then xs @ replicate (w - length xs) 0 else xs)
      in map (\<lambda>k. take w (drop (k * w) ys)) [0..<length ys div w])"

fun max_prob :: "rt_env \<Rightarrow> nat \<Rightarrow> sample list list \<Rightarrow> sample list list \<Rightarrow> rat \<Rightarrow> rat" where
  "max_prob env rate seen [] p = p"
| "max_prob env rate seen (w # ws) p = max_prob env rate (seen @ [w]) ws (max p (rt_silero env (seen @ [w]) rate))"

definition get_speech_prob :: "rt_env \<Rightarrow> sample list \<Rightarrow> vad \<Rightarrow> rat \<times> vad" where
  "get_speech_prob env audio v =
     (let rate = vc_rate (va_config v);
          ws = chunk_windows (if rate = 16000 then 512 else 256) audio
      in (max_prob env rate (va_windows v) ws 0, v\<lparr>va_windows := va_windows v @ ws\<rparr>))"

datatype vad_event = Quiet | SpeechStarted | SpeechEnded "sample list option"

definition reset_speech :: "vad \<Rightarrow> vad" where
  "reset_speech v = v\<lparr>va_speaking := False, va_speech_buffer := [], va_silence := 0, va_speech := 0\<rparr>"

definition push_lookback :: "sample list \<Rightarrow> vad \<Rightarrow> vad" where
  "push_lookback audio v =
     (let l = va_lookback v @ [audio]
      in v\<lparr>va_lookback := if length l > vc_lookback (va_config v) then tl l else l\<rparr>)"

definition advance_vad :: "bool \<Rightarrow> sample list \<Rightarrow> vad \<Rightarrow> vad_event \<times> vad" where
  "advance_vad is_speech audio v1 =
     (let d = of_nat (length audio) / of_nat (vc_rate (va_config v1));
          v = push_lookback audio v1
      in if \<not> va_speaking v
         then if is_speech
              then (SpeechStarted, v\<lparr>va_speaking := True, va_speech := d, va_silence := 0, va_speech_buffer := va_lookback v\<rparr>)
              else (Quiet, v)
         else if is_speech
              then (Quiet, v\<lparr>va_speech_buffer := va_speech_buffer v @ [audio], va_speech := va_speech v + d, va_silence := 0\<rparr>)
              else (let v2 = v\<lparr>va_speech_buffer := va_speech_buffer v @ [audio], va_silence := va_silence v + d\<rparr>
                    in if va_silence v2 \<ge> vc_min_silence (va_config v2)
                       then if va_speech v2 \<ge> vc_min_speech (va_config v2)
                            then (SpeechEnded (Some (concat (va_speech_buffer v2))), reset_speech v2)
                            else (SpeechEnded None, reset_speech v2)
                       else (Quiet, v2)))"

definition vad_process :: "rt_env \<Rightarrow> sample list \<Rightarrow> vad \<Rightarrow> (vad_event \<times> vad) option" where
  "vad_process env audio v =
     (let (p, v1) = get_speech_prob env audio v
      in case pynum (vc_threshold (va_config v1)) of
           None \<Rightarrow> None
         | Some t \<Rightarrow> Some (advance_vad (p > t) audio v1))"

definition vad_flush :: "vad \<Rightarrow> sample list option \<times> vad" where
  "vad_flush v =
     (if va_speaking v \<and> va_speech_buffer v \<noteq> [] \<and> va_speech v \<ge> vc_min_speech (va_config v)
      then (Some (concat (va_speech_buffer v)), reset_speech v) else (None, reset_speech v))"

definition vad_clear :: "vad \<Rightarrow> vad" where
  "vad_clear = reset_speech"

definition vad_reset :: "vad \<Rightarrow> vad" where
  "vad_reset v = (reset_speech v)\<lparr>va_lookback := [], va_windows := []\<rparr>"

definition speech_buffer_samples :: "vad \<Rightarrow> nat" where
  "speech_buffer_samples v = sum_list (map length (va_speech_buffer v))"

definition force_endpoint :: "vad \<Rightarrow> sample list option \<times> vad" where
  "force_endpoint v =
     (if va_speech_buffer v = [] then (None, v)
      else (Some (concat (va_speech_buffer v)), v\<lparr>va_speech_buffer := [], va_speech := 0, va_silence := 0\<rparr>))"

section \<open>The transcript of a session\<close>

record live_word =
  lw_word :: string
  lw_start :: rat
  lw_end :: rat
  lw_confidence :: rat

record live_segment =
  ls_id :: string
  ls_start :: rat
  ls_end :: rat
  ls_text :: string
  ls_words :: "live_word list"
  ls_confidence :: rat

record assembler =
  as_segments :: "live_segment list"
  as_time :: rat
  as_counter :: nat

definition new_assembler :: assembler where
  "new_assembler = \<lparr>as_segments = [], as_time = 0, as_counter = 0\<rparr>"

definition adjusted_words :: "rat \<Rightarrow> batch_transcript \<Rightarrow> live_word list" where
  "adjusted_words t0 t = concat (map (\<lambda>s. case bs_words s of
       None \<Rightarrow> []
     | Some ws \<Rightarrow> map (\<lambda>w. \<lparr>lw_word = tw_text w, lw_start = t0 + tw_start w, lw_end = t0 + tw_end w,
                              lw_confidence = (case tw_confidence w of Some c \<Rightarrow> c | None \<Rightarrow> 0)\<rparr>) ws)
     (bt_segments t))"

definition overall_confidence :: "batch_transcript \<Rightarrow> rat" where
  "overall_confidence t =
     (let cs = List.map_filter bs_confidence (bt_segments t)
      in if cs \<noteq> [] then sum_list cs / of_nat (length cs)
         else case bt_language_confidence t of Some c \<Rightarrow> c | None \<Rightarrow> 0)"

definition add_transcript :: "batch_transcript \<Rightarrow> rat \<Rightarrow> assembler \<Rightarrow> live_segment \<times> assembler" where
  "add_transcript t audio_duration a =
     (let s = \<lparr>ls_id = ''seg_'' @ pad_nat 4 (as_counter a), ls_start = as_time a, ls_end = as_time a + audio_duration,
               ls_text = bt_text t, ls_words = adjusted_words (as_time a) t, ls_confidence = overall_confidence t\<rparr>
      in (s, \<lparr>as_segments = as_segments a @ [s], as_time = ls_end s, as_counter = as_counter a + 1\<rparr>))"

definition full_transcript :: "assembler \<Rightarrow> string" where
  "full_transcript a = str_join '' '' (filter (\<lambda>t. t \<noteq> '''') (map ls_text (as_segments a)))"

end
