(* ===== verification/RealtimeSession.thy ===== *)
theory RealtimeSession
  imports RealtimeAudio
begin

text \<open>
  One live session (\<open>SessionHandler\<close> of \<open>dalston/realtime_sdk/session.py\<close> and the messages of
  \<open>dalston/realtime_sdk/protocol.py\<close>): audio, control messages, transcription of the utterances,
  the accounting of lag and its policy, and the end. What the server sends is the list
  \<open>li_sent\<close>. The code handles one message at a time; the monitor of the lag is an input between
  two messages. A handler that raises is a result with \<open>True\<close>. The path of engines that decode a
  stream themselves, the recording of the audio, the spans and the metrics are not modelled.
\<close>

section \<open>Messages\<close>

datatype server_message =
    SessionBegin string
  | VadSpeechStart rat
  | VadSpeechEnd rat
  | TranscriptPartial string rat rat
  | TranscriptFinal string rat rat rat "live_word list option"
  | SessionEnd rat rat string "(rat \<times> rat \<times> string) list"
  | ErrorMessage string bool
  | LagWarning rat rat rat
  | SessionTerminated string

datatype client_message = ConfigUpdate pyval pyval pyval pyval | FlushMessage | ClearMessage | EndMessage

definition parse_client_message :: "string \<Rightarrow> client_message option" where
  "parse_client_message text =
     (case json_loads text of
        Some (PDict d) \<Rightarrow>
          (let get = dget_or d in
           if get ''type'' PNone = PStr ''config''
           then Some (ConfigUpdate (get ''language'' PNone) (get ''vad_threshold'' PNone)
                        (get ''min_silence_duration_ms'' PNone) (get ''prefix_padding_ms'' PNone))
           else if get ''type'' PNone = PStr ''flush'' then Some FlushMessage
           else if get ''type'' PNone = PStr ''clear'' then Some ClearMessage
           else if get ''type'' PNone = PStr ''end'' then Some EndMessage
           else None)
      | _ \<Rightarrow> None)"

section \<open>State\<close>

record live_config =
  lc_session_id :: string
  lc_language :: pyval
  lc_encoding :: string
  lc_client_rate :: "nat option"
  lc_rate :: nat
  lc_channels :: nat
  lc_enable_vad :: bool
  lc_interim :: bool
  lc_word_timestamps :: bool
  lc_max_utterance :: rat
  lc_threshold :: rat
  lc_min_speech_ms :: int
  lc_min_silence_ms :: int
  lc_prefix_ms :: int
  lc_lag_warning :: rat
  lc_lag_hard :: rat
  lc_lag_grace :: rat

record live =
  li_config :: live_config
  li_native_streaming :: bool
  li_buffer :: audio_buffer
  li_vad :: "vad option"
  li_assembler :: assembler
  li_error :: "string option"
  li_ended :: bool
  li_lag_terminated :: bool
  li_chunks_since_partial :: nat
  li_speech :: "sample list list"
  li_received :: rat
  li_processed :: rat
  li_discarded :: rat
  li_hard_since :: "time option"
  li_last_warning :: "time option"
  li_sent :: "server_message list"

definition LAG_WARNING_RATE_LIMIT_SECONDS :: rat where "LAG_WARNING_RATE_LIMIT_SECONDS = 1"
definition PARTIAL_RESULT_INTERVAL_CHUNKS :: nat where "PARTIAL_RESULT_INTERVAL_CHUNKS = 5"

definition lookback_of :: "rat \<Rightarrow> nat" where
  "lookback_of x = nat (max 1 (py_round x))"

definition new_session :: "live_config \<Rightarrow> bool \<Rightarrow> live option" where
  "new_session c native =
     map_option (\<lambda>b. \<lparr>li_config = c, li_native_streaming = native, li_buffer = b,
        li_vad = (if lc_enable_vad c
                  then Some (new_vad \<lparr>vc_threshold = PFloat (lc_threshold c), vc_min_speech = of_int (lc_min_speech_ms c) / 1000,
                         vc_min_silence = of_int (lc_min_silence_ms c) / 1000, vc_rate = lc_rate c,
                         vc_lookback = lookback_of (of_int (lc_prefix_ms c) / 100)\<rparr>)
                  else None),
        li_assembler = new_assembler, li_error = None, li_ended = False, li_lag_terminated = False,
        li_chunks_since_partial = 0, li_speech = [], li_received = 0, li_processed = 0, li_discarded = 0,
        li_hard_since = None, li_last_warning = None, li_sent = []\<rparr>)
     (new_buffer (lc_rate c) (lc_encoding c) (lc_client_rate c) (lc_channels c) 100)"

section \<open>Sending\<close>

definition about_end :: "server_message \<Rightarrow> bool" where
  "about_end m \<longleftrightarrow> (case m of ErrorMessage _ _ \<Rightarrow> True | SessionTerminated _ \<Rightarrow> True | _ \<Rightarrow> False)"

definition send_message :: "server_message \<Rightarrow> live \<Rightarrow> live" where
  "send_message m s = (if li_lag_terminated s \<and> \<not> about_end m then s else s\<lparr>li_sent := li_sent s @ [m]\<rparr>)"

section \<open>Lag\<close>

definition samples_to_seconds :: "live \<Rightarrow> nat \<Rightarrow> rat" where
  "samples_to_seconds s n = of_nat n / of_nat (lc_rate (li_config s) * lc_channels (li_config s))"

definition bytes_per_sample :: "string \<Rightarrow> nat" where
  "bytes_per_sample e = (if e = ''pcm_s16le'' then 2 else if e = ''pcm_f32le'' then 4
     else if e = ''mulaw'' \<or> e = ''alaw'' then 1 else 2)"

definition audio_bytes_to_seconds :: "live \<Rightarrow> nat \<Rightarrow> rat" where
  "audio_bytes_to_seconds s n =
     of_nat n / of_nat (bytes_per_sample (lc_encoding (li_config s)) * lc_rate (li_config s) * lc_channels (li_config s))"

definition record_received :: "nat \<Rightarrow> live \<Rightarrow> live" where
  "record_received n s = s\<lparr>li_received := li_received s + audio_bytes_to_seconds s n\<rparr>"

definition record_processed :: "rat \<Rightarrow> live \<Rightarrow> live" where
  "record_processed x s = (if x > 0 then s\<lparr>li_processed := li_processed s + x\<rparr> else s)"

definition record_discarded :: "rat \<Rightarrow> live \<Rightarrow> live" where
  "record_discarded x s = (if x > 0 then s\<lparr>li_discarded := li_discarded s + x\<rparr> else s)"

definition lag_seconds :: "live \<Rightarrow> rat" where
  "lag_seconds s = max 0 (li_received s - li_processed s - li_discarded s)"

definition terminate_for_lag :: "live \<Rightarrow> live" where
  "terminate_for_lag s =
     (if li_ended s then s
      else send_message (SessionTerminated ''lag_exceeded'')
             (send_message (ErrorMessage ''lag_exceeded'' False)
               (s\<lparr>li_lag_terminated := True, li_error := Some ''lag_exceeded'', li_ended := True\<rparr>)))"

definition warn_lag :: "time \<Rightarrow> live \<Rightarrow> live" where
  "warn_lag now s =
     (let c = li_config s
      in if lag_seconds s \<ge> lc_lag_warning c
            \<and> (case li_last_warning s of None \<Rightarrow> True | Some t \<Rightarrow> now - t \<ge> LAG_WARNING_RATE_LIMIT_SECONDS)
         then (send_message (LagWarning (round_ms (lag_seconds s)) (lc_lag_warning c) (lc_lag_hard c)) s)
                \<lparr>li_last_warning := Some now\<rparr>
         else s)"

definition evaluate_lag :: "time \<Rightarrow> live \<Rightarrow> live" where
  "evaluate_lag now s =
     (if li_ended s then s
      else (let s1 = warn_lag now s; c = li_config s
            in if lag_seconds s < lc_lag_hard c then s1\<lparr>li_hard_since := None\<rparr>
               else (case li_hard_since s1 of
                       None \<Rightarrow> s1\<lparr>li_hard_since := Some now\<rparr>
                     | Some t \<Rightarrow> if now - t < lc_lag_grace c then s1 else terminate_for_lag s1)))"

section \<open>Transcribing\<close>

definition transcribe_and_send :: "rt_env \<Rightarrow> sample list \<Rightarrow> live \<Rightarrow> live" where
  "transcribe_and_send env audio s =
     (if li_ended s then s
      else (case rt_transcribe env (lc_language (li_config s)) audio of
              Inl _ \<Rightarrow> send_message (ErrorMessage ''internal_error'' True) s
            | Inr t \<Rightarrow>
                if bt_text t = '''' then s
                else (let (g, a) = add_transcript t (samples_to_seconds s (length audio)) (li_assembler s)
                      in send_message (TranscriptFinal (ls_text g) (ls_start g) (ls_end g) (ls_confidence g)
                             (if lc_word_timestamps (li_config s) \<and> ls_words g \<noteq> [] then Some (ls_words g) else None))
                           (s\<lparr>li_assembler := a\<rparr>))))"

definition send_partial_result :: "rt_env \<Rightarrow> live \<Rightarrow> live" where
  "send_partial_result env s =
     (if li_ended s \<or> li_speech s = [] then s
      else (let audio = concat (li_speech s)
            in case rt_transcribe env (lc_language (li_config s)) audio of
                 Inl _ \<Rightarrow> s
               | Inr t \<Rightarrow>
                   if bt_text t = '''' then s
                   else send_message (TranscriptPartial (bt_text t) (as_time (li_assembler s))
                          (as_time (li_assembler s) + samples_to_seconds s (length audio))) s))"

section \<open>Audio\<close>

definition clear_partial :: "live \<Rightarrow> live" where
  "clear_partial s = s\<lparr>li_speech := [], li_chunks_since_partial := 0\<rparr>"

definition count_partial :: "rt_env \<Rightarrow> live \<Rightarrow> live" where
  "count_partial env s =
     (if li_chunks_since_partial s \<ge> PARTIAL_RESULT_INTERVAL_CHUNKS
      then (send_partial_result env s)\<lparr>li_chunks_since_partial := 0\<rparr> else s)"

definition count_chunk :: "sample list \<Rightarrow> live \<Rightarrow> live" where
  "count_chunk audio s = s\<lparr>li_speech := li_speech s @ [audio], li_chunks_since_partial := li_chunks_since_partial s + 1\<rparr>"

text \<open>Without detection of speech the audio is cut by its length.\<close>

definition time_based_chunk :: "rt_env \<Rightarrow> live \<Rightarrow> live" where
  "time_based_chunk env s =
     (if lc_max_utterance (li_config s) > 0
         \<and> samples_to_seconds s (sum_list (map length (li_speech s))) \<ge> lc_max_utterance (li_config s)
      then clear_partial (transcribe_and_send env (concat (li_speech s)) s)
      else s)"

definition process_chunk_no_vad :: "rt_env \<Rightarrow> sample list \<Rightarrow> live \<Rightarrow> live" where
  "process_chunk_no_vad env audio s =
     (if li_ended s then s
      else time_based_chunk env
             (if li_native_streaming s \<and> lc_interim (li_config s) then count_partial env (count_chunk audio s)
              else count_chunk audio s))"

definition transcribe_utterance :: "rt_env \<Rightarrow> sample list option \<Rightarrow> live \<Rightarrow> live" where
  "transcribe_utterance env audio s =
     (case audio of None \<Rightarrow> s | Some a \<Rightarrow> if a = [] then s else transcribe_and_send env a s)"

definition announce :: "(rat \<Rightarrow> server_message) \<Rightarrow> live \<Rightarrow> live" where
  "announce m s = (if lc_enable_vad (li_config s) then send_message (m (as_time (li_assembler s))) s else s)"

definition check_max_utterance_duration :: "rt_env \<Rightarrow> vad \<Rightarrow> live \<Rightarrow> live" where
  "check_max_utterance_duration env v s =
     (if samples_to_seconds s (speech_buffer_samples v) \<ge> lc_max_utterance (li_config s)
      then (case force_endpoint v of
              (audio, v1) \<Rightarrow>
                announce VadSpeechStart
                  (clear_partial (transcribe_utterance env audio ((announce VadSpeechEnd s)\<lparr>li_vad := Some v1\<rparr>))))
      else s)"

definition on_vad_event :: "rt_env \<Rightarrow> sample list \<Rightarrow> vad_event \<Rightarrow> vad \<Rightarrow> live \<Rightarrow> live" where
  "on_vad_event env audio e v s =
     (case e of
        SpeechStarted \<Rightarrow> send_message (VadSpeechStart (as_time (li_assembler s))) (clear_partial s)
      | SpeechEnded a \<Rightarrow>
          transcribe_utterance env a (clear_partial (send_message (VadSpeechEnd (as_time (li_assembler s))) s))
      | Quiet \<Rightarrow>
          if va_speaking v \<and> li_native_streaming s \<and> lc_interim (li_config s)
          then count_partial env (count_chunk audio s) else s)"

definition process_chunk :: "rt_env \<Rightarrow> sample list \<Rightarrow> live \<Rightarrow> bool \<times> live" where
  "process_chunk env audio s =
     (if li_ended s then (False, s)
      else (case li_vad s of
              None \<Rightarrow> (False, process_chunk_no_vad env audio s)
            | Some v0 \<Rightarrow>
                (case vad_process env audio v0 of
                   None \<Rightarrow> (True, s)
                 | Some (e, v) \<Rightarrow>
                     (let s1 = on_vad_event env audio e v (s\<lparr>li_vad := Some v\<rparr>)
                      in (False, if va_speaking v \<and> lc_max_utterance (li_config s1) > 0
                                 then check_max_utterance_duration env v s1 else s1)))))"

text \<open>The loop over the chunks of a message; the clock gives the time of each evaluation of the lag.\<close>

partial_function (option) process_chunks :: "rt_env \<Rightarrow> (nat \<Rightarrow> time) \<Rightarrow> nat \<Rightarrow> live \<Rightarrow> (bool \<times> live) option" where
  "process_chunks env clock k s =
     (if li_ended s then Some (False, s)
      else (case get_chunk (li_buffer s) of
              None \<Rightarrow> Some (False, s)
            | Some (chunk, b) \<Rightarrow>
                (case process_chunk env chunk (s\<lparr>li_buffer := b\<rparr>) of
                   (raised, s1) \<Rightarrow>
                     if raised then Some (True, s1)
                     else process_chunks env clock (Suc k)
                            (evaluate_lag (clock (Suc k)) (record_processed (samples_to_seconds s1 (length chunk)) s1)))))"

declare process_chunks.simps [code]

definition handle_audio :: "rt_env \<Rightarrow> (nat \<Rightarrow> time) \<Rightarrow> bytes \<Rightarrow> live \<Rightarrow> (bool \<times> live) option" where
  "handle_audio env clock data s =
     (if li_ended s then Some (False, s)
      else (case add_audio env data (li_buffer s) of
              None \<Rightarrow> Some (True, s)
            | Some b \<Rightarrow> process_chunks env clock 0
                (evaluate_lag (clock 0) (record_received (length data) (s\<lparr>li_buffer := b\<rparr>)))))"

section \<open>Control\<close>

definition set_vad :: "(vad_config \<Rightarrow> vad_config) \<Rightarrow> live \<Rightarrow> live" where
  "set_vad f s = s\<lparr>li_vad := map_option (\<lambda>v. v\<lparr>va_config := f (va_config v)\<rparr>) (li_vad s)\<rparr>"

text \<open>A value that is no number raises where it is divided.\<close>

definition update_config :: "pyval \<Rightarrow> pyval \<Rightarrow> pyval \<Rightarrow> pyval \<Rightarrow> live \<Rightarrow> bool \<times> live" where
  "update_config language threshold silence padding s =
     (let s1 = (if truthy language then s\<lparr>li_config := (li_config s)\<lparr>lc_language := language\<rparr>\<rparr> else s);
          s2 = (if threshold = PNone then s1 else set_vad (\<lambda>c. c\<lparr>vc_threshold := threshold\<rparr>) s1)
      in if silence \<noteq> PNone \<and> li_vad s2 \<noteq> None \<and> pynum silence = None then (True, s2)
         else (let s3 = (case pynum silence of
                           Some x \<Rightarrow> set_vad (\<lambda>c. c\<lparr>vc_min_silence := x / 1000\<rparr>) s2 | None \<Rightarrow> s2)
               in if padding \<noteq> PNone \<and> li_vad s3 \<noteq> None \<and> pynum padding = None then (True, s3)
                  else (False, (case pynum padding of
                           Some x \<Rightarrow> set_vad (\<lambda>c. c\<lparr>vc_lookback := lookback_of (x / of_nat (ab_chunk_ms (li_buffer s3)))\<rparr>) s3
                         | None \<Rightarrow> s3))))"

definition flush_vad :: "rt_env \<Rightarrow> live \<Rightarrow> live" where
  "flush_vad env s =
     (case li_vad s of
        None \<Rightarrow> s
      | Some v \<Rightarrow> (case vad_flush v of (a, v1) \<Rightarrow> transcribe_utterance env a (s\<lparr>li_vad := Some v1\<rparr>)))"

definition flush_audio :: "rt_env \<Rightarrow> live \<Rightarrow> live" where
  "flush_audio env s =
     (case flush_buffer (li_buffer s) of
        None \<Rightarrow> s
      | Some (a, b) \<Rightarrow>
          (let s2 = s\<lparr>li_buffer := b\<rparr>; d = samples_to_seconds s2 (length a)
           in if d > 1 / 10 then record_processed d (transcribe_and_send env a s2)
              else record_discarded d s2))"

definition flush_session :: "rt_env \<Rightarrow> live \<Rightarrow> live" where
  "flush_session env s = flush_audio env (flush_vad env s)"

definition clear_session :: "live \<Rightarrow> live" where
  "clear_session s =
     (let s1 = s\<lparr>li_vad := map_option vad_clear (li_vad s)\<rparr>;
          (d, b) = clear_buffer (li_buffer s1)
      in clear_partial (record_discarded d (s1\<lparr>li_buffer := b\<rparr>)))"

definition last_utterance :: "rt_env \<Rightarrow> live \<Rightarrow> live" where
  "last_utterance env s =
     (if li_vad s \<noteq> None then flush_vad env s
      else if li_speech s \<noteq> [] then (transcribe_and_send env (concat (li_speech s)) s)\<lparr>li_speech := []\<rparr>
      else s)"

definition end_message :: "live \<Rightarrow> server_message" where
  "end_message s =
     (let a = li_assembler s
      in SessionEnd (total_duration (li_buffer s)) (as_time a) (full_transcript a)
           (map (\<lambda>g. (ls_start g, ls_end g, ls_text g)) (as_segments a)))"

definition send_session_end :: "rt_env \<Rightarrow> live \<Rightarrow> live" where
  "send_session_end env s =
     (let s1 = last_utterance env s in (send_message (end_message s1) s1)\<lparr>li_ended := True\<rparr>)"

definition handle_control :: "rt_env \<Rightarrow> time \<Rightarrow> string \<Rightarrow> live \<Rightarrow> bool \<times> live" where
  "handle_control env now text s =
     (if li_ended s then (False, s)
      else (case parse_client_message text of
              None \<Rightarrow> (False, send_message (ErrorMessage ''invalid_message'' True) s)
            | Some (ConfigUpdate l t m p) \<Rightarrow>
                (case update_config l t m p s of
                   (raised, s1) \<Rightarrow> if raised then (True, s1) else (False, evaluate_lag now s1))
            | Some FlushMessage \<Rightarrow> (False, evaluate_lag now (flush_session env s))
            | Some ClearMessage \<Rightarrow> (False, evaluate_lag now (clear_session s))
            | Some EndMessage \<Rightarrow> (False, evaluate_lag now (send_session_end env s))))"

section \<open>The session\<close>

datatype live_input = AudioIn "nat \<Rightarrow> time" bytes | ControlIn time string | MonitorTick time

definition handle_input :: "rt_env \<Rightarrow> live_input \<Rightarrow> live \<Rightarrow> (bool \<times> live) option" where
  "handle_input env i s =
     (case i of
        AudioIn clock data \<Rightarrow> handle_audio env clock data s
      | ControlIn now text \<Rightarrow> Some (handle_control env now text s)
      | MonitorTick now \<Rightarrow> Some (False, evaluate_lag now s))"

fun take_inputs :: "rt_env \<Rightarrow> live_input list \<Rightarrow> live \<Rightarrow> (bool \<times> live) option" where
  "take_inputs env [] s = Some (False, s)"
| "take_inputs env (i # is) s =
     (case handle_input env i s of
        None \<Rightarrow> None
      | Some (raised, s1) \<Rightarrow> if raised \<or> li_ended s1 then Some (raised, s1) else take_inputs env is s1)"

definition finish_session :: "rt_env \<Rightarrow> bool \<Rightarrow> live \<Rightarrow> live" where
  "finish_session env raised s =
     (let s1 = (if raised \<and> \<not> li_lag_terminated s
                then send_message (ErrorMessage ''internal_error'' False) (s\<lparr>li_error := Some ''internal_error''\<rparr>) else s)
      in if li_ended s1 then s1 else send_session_end env s1)"

definition run_session :: "rt_env \<Rightarrow> live_input list \<Rightarrow> live \<Rightarrow> live option" where
  "run_session env is s =
     map_option (\<lambda>(raised, s1). finish_session env raised s1)
       (take_inputs env is (send_message (SessionBegin (lc_session_id (li_config s))) s))"

definition session_status :: "live \<Rightarrow> string" where
  "session_status s = (if li_error s \<noteq> None then ''error'' else ''completed'')"

end
