(* ===== verification/RealtimeProps.thy ===== *)
theory RealtimeProps
  imports RealtimeSession
begin

text \<open>
  What is proved of a live session: how the client frames its audio does not matter, every
  utterance is a run of consecutive chunks, the end of a session sums up what was sent, and
  what the lag counts.
\<close>

section \<open>What handling a chunk leaves alone\<close>

definition is_warning :: "server_message \<Rightarrow> bool" where
  "is_warning m \<longleftrightarrow> (case m of LagWarning _ _ _ \<Rightarrow> True | _ \<Rightarrow> False)"

text \<open>Handling a chunk does not change the configuration or end the session.\<close>

definition stays :: "live \<Rightarrow> live \<Rightarrow> bool" where
  "stays s s' \<longleftrightarrow> li_config s' = li_config s \<and> li_ended s' = li_ended s \<and> li_lag_terminated s' = li_lag_terminated s
     \<and> li_error s' = li_error s"

lemma stays_refl [simp]: "stays s s"
  by (simp add: stays_def)

lemma stays_trans: "stays a b \<Longrightarrow> stays b c \<Longrightarrow> stays a c"
  by (simp add: stays_def)

lemma stays_transcribe: "stays s (transcribe_and_send env a s)"
  by (simp add: stays_def transcribe_and_send_def send_message_def Let_def split: sum.splits prod.splits)

lemma stays_partial: "stays s (send_partial_result env s)"
  by (simp add: stays_def send_partial_result_def send_message_def Let_def split: sum.splits prod.splits)

lemma stays_count: "stays s (count_partial env s)"
  using stays_partial [of s env] by (simp add: count_partial_def stays_def)

lemma stays_simps [simp]:
  "li_config (transcribe_and_send env a s) = li_config s" "li_ended (transcribe_and_send env a s) = li_ended s"
  "li_lag_terminated (transcribe_and_send env a s) = li_lag_terminated s" "li_error (transcribe_and_send env a s) = li_error s"
  "li_config (count_partial env s) = li_config s" "li_ended (count_partial env s) = li_ended s"
  "li_lag_terminated (count_partial env s) = li_lag_terminated s" "li_error (count_partial env s) = li_error s"
  "li_config (send_message m s) = li_config s" "li_ended (send_message m s) = li_ended s"
  "li_lag_terminated (send_message m s) = li_lag_terminated s" "li_error (send_message m s) = li_error s"
  "li_config (clear_partial s) = li_config s" "li_ended (clear_partial s) = li_ended s"
  "li_lag_terminated (clear_partial s) = li_lag_terminated s" "li_error (clear_partial s) = li_error s"
  using stays_transcribe [of s env a] stays_count [of s env]
  by (simp_all add: stays_def send_message_def clear_partial_def)

text \<open>The state with another buffer and another account of lag, and without the warnings sent.\<close>

definition relag :: "audio_buffer \<Rightarrow> rat \<Rightarrow> rat \<Rightarrow> rat \<Rightarrow> time option \<Rightarrow> time option \<Rightarrow> live \<Rightarrow> live" where
  "relag b r p d h w s =
     s\<lparr>li_buffer := b, li_received := r, li_processed := p, li_discarded := d, li_hard_since := h, li_last_warning := w\<rparr>"

definition unwarned :: "live \<Rightarrow> live" where
  "unwarned s = s\<lparr>li_sent := filter (\<lambda>m. \<not> is_warning m) (li_sent s)\<rparr>"

definition own_lag :: "live \<Rightarrow> live \<Rightarrow> live" where
  "own_lag s = relag (li_buffer s) (li_received s) (li_processed s) (li_discarded s) (li_hard_since s) (li_last_warning s)"

lemma relag_simps [simp]:
  "li_config (relag b r p d h w s) = li_config s" "li_native_streaming (relag b r p d h w s) = li_native_streaming s"
  "li_vad (relag b r p d h w s) = li_vad s" "li_assembler (relag b r p d h w s) = li_assembler s"
  "li_ended (relag b r p d h w s) = li_ended s" "li_lag_terminated (relag b r p d h w s) = li_lag_terminated s"
  "li_chunks_since_partial (relag b r p d h w s) = li_chunks_since_partial s" "li_speech (relag b r p d h w s) = li_speech s"
  "li_sent (relag b r p d h w s) = li_sent s" "li_buffer (relag b r p d h w s) = b"
  "li_received (relag b r p d h w s) = r" "li_processed (relag b r p d h w s) = p" "li_discarded (relag b r p d h w s) = d"
  by (simp_all add: relag_def)

lemma unwarned_simps [simp]:
  "li_config (unwarned s) = li_config s" "li_native_streaming (unwarned s) = li_native_streaming s"
  "li_vad (unwarned s) = li_vad s" "li_assembler (unwarned s) = li_assembler s"
  "li_ended (unwarned s) = li_ended s" "li_lag_terminated (unwarned s) = li_lag_terminated s"
  "li_chunks_since_partial (unwarned s) = li_chunks_since_partial s" "li_speech (unwarned s) = li_speech s"
  "li_buffer (unwarned s) = li_buffer s"
  by (simp_all add: unwarned_def)

named_theorems quiet "steps that neither read nor change the buffer and the account of lag"

lemma quiet_updates [quiet]:
  "(relag b r p d h w s)\<lparr>li_vad := v\<rparr> = relag b r p d h w (s\<lparr>li_vad := v\<rparr>)"
  "(relag b r p d h w s)\<lparr>li_assembler := a\<rparr> = relag b r p d h w (s\<lparr>li_assembler := a\<rparr>)"
  "(relag b r p d h w s)\<lparr>li_speech := sp\<rparr> = relag b r p d h w (s\<lparr>li_speech := sp\<rparr>)"
  "(relag b r p d h w s)\<lparr>li_chunks_since_partial := n\<rparr> = relag b r p d h w (s\<lparr>li_chunks_since_partial := n\<rparr>)"
  "(relag b r p d h w s)\<lparr>li_speech := sp, li_chunks_since_partial := n\<rparr> =
     relag b r p d h w (s\<lparr>li_speech := sp, li_chunks_since_partial := n\<rparr>)"
  "(unwarned s)\<lparr>li_vad := v\<rparr> = unwarned (s\<lparr>li_vad := v\<rparr>)"
  "(unwarned s)\<lparr>li_assembler := a\<rparr> = unwarned (s\<lparr>li_assembler := a\<rparr>)"
  "(unwarned s)\<lparr>li_speech := sp\<rparr> = unwarned (s\<lparr>li_speech := sp\<rparr>)"
  "(unwarned s)\<lparr>li_chunks_since_partial := n\<rparr> = unwarned (s\<lparr>li_chunks_since_partial := n\<rparr>)"
  "(unwarned s)\<lparr>li_speech := sp, li_chunks_since_partial := n\<rparr> =
     unwarned (s\<lparr>li_speech := sp, li_chunks_since_partial := n\<rparr>)"
  by (simp_all add: relag_def unwarned_def)

lemma quiet_send [quiet]:
  "send_message m (relag b r p d h w s) = relag b r p d h w (send_message m s)"
  "\<not> is_warning m \<Longrightarrow> send_message m (unwarned s) = unwarned (send_message m s)"
  by (simp_all add: send_message_def relag_def unwarned_def)

lemma quiet_seconds [quiet]:
  "samples_to_seconds (relag b r p d h w s) n = samples_to_seconds s n"
  "samples_to_seconds (unwarned s) n = samples_to_seconds s n"
  by (simp_all add: samples_to_seconds_def)

lemma quiet_transcribe [quiet]:
  "transcribe_and_send env a (relag b r p d h w s) = relag b r p d h w (transcribe_and_send env a s)"
  "transcribe_and_send env a (unwarned s) = unwarned (transcribe_and_send env a s)"
  by (simp_all add: transcribe_and_send_def quiet is_warning_def Let_def split: sum.splits prod.splits)

lemma quiet_partial [quiet]:
  "send_partial_result env (relag b r p d h w s) = relag b r p d h w (send_partial_result env s)"
  "send_partial_result env (unwarned s) = unwarned (send_partial_result env s)"
  by (simp_all add: send_partial_result_def quiet is_warning_def Let_def split: sum.splits prod.splits)

lemma quiet_count [quiet]:
  "count_partial env (relag b r p d h w s) = relag b r p d h w (count_partial env s)"
  "count_partial env (unwarned s) = unwarned (count_partial env s)"
  by (simp_all add: count_partial_def quiet)

lemma quiet_clear [quiet]:
  "clear_partial (relag b r p d h w s) = relag b r p d h w (clear_partial s)"
  "clear_partial (unwarned s) = unwarned (clear_partial s)"
  by (simp_all add: clear_partial_def quiet)

lemma quiet_more [quiet]:
  "count_chunk a (relag b r p d h w s) = relag b r p d h w (count_chunk a s)"
  "count_chunk a (unwarned s) = unwarned (count_chunk a s)"
  "time_based_chunk env (relag b r p d h w s) = relag b r p d h w (time_based_chunk env s)"
  "time_based_chunk env (unwarned s) = unwarned (time_based_chunk env s)"
  "transcribe_utterance env u (relag b r p d h w s) = relag b r p d h w (transcribe_utterance env u s)"
  "transcribe_utterance env u (unwarned s) = unwarned (transcribe_utterance env u s)"
  "announce VadSpeechStart (relag b r p d h w s) = relag b r p d h w (announce VadSpeechStart s)"
  "announce VadSpeechStart (unwarned s) = unwarned (announce VadSpeechStart s)"
  "announce VadSpeechEnd (relag b r p d h w s) = relag b r p d h w (announce VadSpeechEnd s)"
  "announce VadSpeechEnd (unwarned s) = unwarned (announce VadSpeechEnd s)"
  by (simp_all add: count_chunk_def time_based_chunk_def transcribe_utterance_def announce_def quiet is_warning_def
      split: option.splits)

lemma stays_more [simp]:
  "li_config (count_chunk a s) = li_config s" "li_ended (count_chunk a s) = li_ended s"
  "li_lag_terminated (count_chunk a s) = li_lag_terminated s" "li_error (count_chunk a s) = li_error s"
  "li_config (time_based_chunk env s) = li_config s" "li_ended (time_based_chunk env s) = li_ended s"
  "li_lag_terminated (time_based_chunk env s) = li_lag_terminated s" "li_error (time_based_chunk env s) = li_error s"
  "li_config (transcribe_utterance env u s) = li_config s" "li_ended (transcribe_utterance env u s) = li_ended s"
  "li_lag_terminated (transcribe_utterance env u s) = li_lag_terminated s" "li_error (transcribe_utterance env u s) = li_error s"
  "li_config (announce m s) = li_config s" "li_ended (announce m s) = li_ended s"
  "li_lag_terminated (announce m s) = li_lag_terminated s" "li_error (announce m s) = li_error s"
  by (simp_all add: count_chunk_def time_based_chunk_def transcribe_utterance_def announce_def split: option.splits)

lemma quiet_no_vad [quiet]:
  "process_chunk_no_vad env a (relag b r p d h w s) = relag b r p d h w (process_chunk_no_vad env a s)"
  "process_chunk_no_vad env a (unwarned s) = unwarned (process_chunk_no_vad env a s)"
  by (simp_all add: process_chunk_no_vad_def quiet Let_def)

lemma quiet_check [quiet]:
  "check_max_utterance_duration env v (relag b r p d h w s) = relag b r p d h w (check_max_utterance_duration env v s)"
  "check_max_utterance_duration env v (unwarned s) = unwarned (check_max_utterance_duration env v s)"
  by (simp_all add: check_max_utterance_duration_def quiet is_warning_def Let_def split: prod.splits option.splits)

lemma quiet_event [quiet]:
  "on_vad_event env a e v (relag b r p d h w s) = relag b r p d h w (on_vad_event env a e v s)"
  "on_vad_event env a e v (unwarned s) = unwarned (on_vad_event env a e v s)"
  by (simp_all add: on_vad_event_def quiet is_warning_def Let_def split: vad_event.splits option.splits)

lemma quiet_chunk:
  "process_chunk env a (relag b r p d h w s) = map_prod id (relag b r p d h w) (process_chunk env a s)"
  "process_chunk env a (unwarned s) = map_prod id unwarned (process_chunk env a s)"
  by (simp_all add: process_chunk_def quiet Let_def split: option.splits prod.splits)

lemma stays_check: "stays s (check_max_utterance_duration env v s)"
  by (simp add: stays_def check_max_utterance_duration_def split: prod.splits)

lemma stays_event: "stays s (on_vad_event env a e v s)"
  by (simp add: stays_def on_vad_event_def split: vad_event.splits)

lemma stays_no_vad: "stays s (process_chunk_no_vad env a s)"
  by (simp add: stays_def process_chunk_no_vad_def)

lemma stays_chunk: "process_chunk env a s = (r, s') \<Longrightarrow> stays s s'"
  using stays_no_vad [of s env a] stays_event stays_check
  by (fastforce simp: process_chunk_def stays_def Let_def split: option.splits prod.splits if_splits)

lemma chunk_keeps_lag:
  assumes "process_chunk env a s = (r, s')"
  shows "li_buffer s' = li_buffer s" "li_received s' = li_received s" "li_processed s' = li_processed s"
    "li_discarded s' = li_discarded s"
proof -
  have "own_lag s s = s" by (simp add: own_lag_def relag_def)
  then have "(r, s') = map_prod id (own_lag s) (r, s')"
    using quiet_chunk(1) [of env a "li_buffer s" "li_received s" "li_processed s" "li_discarded s" "li_hard_since s"
        "li_last_warning s" s] assms by (simp add: own_lag_def)
  then have s': "s' = own_lag s s'" by simp
  show "li_buffer s' = li_buffer s" by (subst s') (simp add: own_lag_def)
  show "li_received s' = li_received s" by (subst s') (simp add: own_lag_def)
  show "li_processed s' = li_processed s" by (subst s') (simp add: own_lag_def)
  show "li_discarded s' = li_discarded s" by (subst s') (simp add: own_lag_def)
qed

section \<open>Framing\<close>

text \<open>A list cut into pieces of a length, and what is left.\<close>

function cut :: "nat \<Rightarrow> 'a list \<Rightarrow> 'a list list" where
  "cut n xs = (if n = 0 \<or> length xs < n then [] else take n xs # cut n (drop n xs))"
  by pat_completeness auto
termination by (relation "measure (length \<circ> snd)") auto

function left_over :: "nat \<Rightarrow> 'a list \<Rightarrow> 'a list" where
  "left_over n xs = (if n = 0 \<or> length xs < n then xs else left_over n (drop n xs))"
  by pat_completeness auto
termination by (relation "measure (length \<circ> snd)") auto

declare cut.simps [simp del] left_over.simps [simp del]

lemma left_over_short: "0 < n \<Longrightarrow> length (left_over n xs) < n"
  by (induction n xs rule: left_over.induct) (simp add: left_over.simps)

lemma cut_append:
  "0 < n \<Longrightarrow> cut n (xs @ ys) = cut n xs @ cut n (left_over n xs @ ys)
    \<and> left_over n (xs @ ys) = left_over n (left_over n xs @ ys)"
proof (induction n xs rule: cut.induct)
  case (1 n xs)
  show ?case
  proof (cases "length xs < n")
    case True
    then show ?thesis by (simp add: cut.simps [of n xs] left_over.simps [of n xs])
  next
    case False
    then have "cut n (drop n xs @ ys) = cut n (drop n xs) @ cut n (left_over n (drop n xs) @ ys)
      \<and> left_over n (drop n xs @ ys) = left_over n (left_over n (drop n xs) @ ys)"
      using 1 by simp
    then show ?thesis using False 1(2)
      by (simp add: cut.simps [of n xs] cut.simps [of n "xs @ ys"] left_over.simps [of n xs] left_over.simps [of n "xs @ ys"])
  qed
qed

fun chunks_through :: "rt_env \<Rightarrow> sample list list \<Rightarrow> live \<Rightarrow> live option" where
  "chunks_through env [] s = Some s"
| "chunks_through env (c # cs) s =
     (case process_chunk env c s of (raised, s1) \<Rightarrow> if raised then None else chunks_through env cs s1)"

lemma chunks_through_append:
  "chunks_through env (cs @ ds) s = Option.bind (chunks_through env cs s) (chunks_through env ds)"
  by (induction cs arbitrary: s) (auto split: prod.splits)

text \<open>The state without the audio still buffered, the account of lag and the warnings.\<close>

definition core :: "live \<Rightarrow> live" where
  "core s = unwarned (relag \<lparr>ab_rate = 0, ab_client_rate = 0, ab_encoding = [], ab_channels = 0, ab_chunk_ms = 0,
     ab_buffer = [], ab_total = 0\<rparr> 0 0 0 None None s)"

lemma core_simps [simp]: "li_ended (core s) = li_ended s" "li_vad (core s) = li_vad s" "li_assembler (core s) = li_assembler s"
  "li_sent (core s) = filter (\<lambda>m. \<not> is_warning m) (li_sent s)"
  by (simp_all add: core_def unwarned_def)

lemma core_updates [simp]: "core (s\<lparr>li_buffer := b\<rparr>) = core s" "core (record_processed x s) = core s"
  "core (record_received n s) = core s" "core (s\<lparr>li_hard_since := h\<rparr>) = core s"
  by (simp_all add: core_def unwarned_def relag_def record_processed_def record_received_def)

lemma core_chunk: "process_chunk env a (core s) = map_prod id core (process_chunk env a s)"
  unfolding core_def quiet_chunk by (cases "process_chunk env a s") (simp add: core_def)

lemma warn_lag_keeps [simp]: "li_buffer (warn_lag t s) = li_buffer s" "li_ended (warn_lag t s) = li_ended s"
  "li_lag_terminated (warn_lag t s) = li_lag_terminated s" "core (warn_lag t s) = core s"
  by (simp_all add: warn_lag_def send_message_def core_def unwarned_def relag_def is_warning_def Let_def)

lemma evaluate_ended: "li_ended s \<Longrightarrow> evaluate_lag t s = s"
  by (simp add: evaluate_lag_def)

lemma terminate_ends: "li_ended (terminate_for_lag s)"
  by (simp add: terminate_for_lag_def)

lemma evaluate_core: "\<not> li_ended (evaluate_lag t s) \<Longrightarrow> core (evaluate_lag t s) = core s"
  using terminate_ends [of "warn_lag t s"] by (simp add: evaluate_lag_def Let_def split: option.splits if_splits)

lemma evaluate_buffer [simp]: "li_buffer (evaluate_lag t s) = li_buffer s"
  by (simp add: evaluate_lag_def terminate_for_lag_def send_message_def Let_def split: option.splits)

lemma record_buffer [simp]: "li_buffer (record_processed x s) = li_buffer s" "li_buffer (record_received n s) = li_buffer s"
  "li_ended (record_processed x s) = li_ended s" "li_ended (record_received n s) = li_ended s"
  by (simp_all add: record_processed_def record_received_def)

lemma chunk_samples_update [simp]: "chunk_samples (b\<lparr>ab_buffer := xs\<rparr>) = chunk_samples b"
  "chunk_samples (b\<lparr>ab_buffer := xs, ab_total := n\<rparr>) = chunk_samples b"
  by (simp_all add: chunk_samples_def)

text \<open>Handling the chunks of a message is handling the pieces of its samples.\<close>

lemma process_chunks_core:
  assumes "process_chunks env clock k s = Some (False, s')" "\<not> li_ended s'" "0 < chunk_samples (li_buffer s)"
  shows "chunks_through env (cut (chunk_samples (li_buffer s)) (ab_buffer (li_buffer s))) (core s) = Some (core s')
    \<and> li_buffer s' = (li_buffer s)\<lparr>ab_buffer := left_over (chunk_samples (li_buffer s)) (ab_buffer (li_buffer s))\<rparr>"
  using assms
proof (induction "length (ab_buffer (li_buffer s))" arbitrary: k s rule: less_induct)
  case less
  let ?b = "li_buffer s" let ?n = "chunk_samples ?b"
  have live: "\<not> li_ended s" using less.prems(1,2) by (auto simp: process_chunks.simps [of _ _ _ s])
  show ?case
  proof (cases "length (ab_buffer ?b) < ?n")
    case True
    then have "get_chunk ?b = None" by (simp add: get_chunk_def)
    then have "s' = s" using less.prems(1) live by (simp add: process_chunks.simps [of _ _ _ s])
    then show ?thesis using True by (simp add: cut.simps left_over.simps)
  next
    case False
    let ?c = "take ?n (ab_buffer ?b)" let ?b' = "?b\<lparr>ab_buffer := drop ?n (ab_buffer ?b)\<rparr>"
    have g: "get_chunk ?b = Some (?c, ?b')" using False by (simp add: get_chunk_def)
    obtain r s1 where p: "process_chunk env ?c (s\<lparr>li_buffer := ?b'\<rparr>) = (r, s1)" using prod.exhaust by blast
    define s2 where "s2 = evaluate_lag (clock (Suc k)) (record_processed (samples_to_seconds s1 (length ?c)) s1)"
    have r: "\<not> r" and more: "process_chunks env clock (Suc k) s2 = Some (False, s')"
      using less.prems(1) live by (auto simp: process_chunks.simps [of _ _ _ s] g p s2_def split: if_splits)
    have s2: "\<not> li_ended s2" using more less.prems(2) by (auto simp: process_chunks.simps [of _ _ _ s2])
    have b: "li_buffer s2 = ?b'" using chunk_keeps_lag(1) [OF p] by (simp add: s2_def)
    have core: "core s2 = core s1" using evaluate_core s2 by (simp add: s2_def)
    have IH: "chunks_through env (cut ?n (drop ?n (ab_buffer ?b))) (core s2) = Some (core s')
      \<and> li_buffer s' = ?b'\<lparr>ab_buffer := left_over ?n (drop ?n (ab_buffer ?b))\<rparr>"
      using less.hyps [OF _ more less.prems(2)] less.prems(3) False by (simp add: b)
    have "process_chunk env ?c (core s) = (False, core s1)"
      using core_chunk [of env ?c "s\<lparr>li_buffer := ?b'\<rparr>"] p r by simp
    then show ?thesis using IH False less.prems(3) core
      by (simp add: cut.simps [of ?n "ab_buffer ?b"] left_over.simps [of ?n "ab_buffer ?b"])
  qed
qed

lemma frombuffer16_append:
  "frombuffer16 d = Some x \<Longrightarrow> frombuffer16 e = Some y \<Longrightarrow> frombuffer16 (d @ e) = Some (x @ y)"
  by (induction d arbitrary: x rule: frombuffer16.induct) auto

lemma frombuffer32_append:
  "frombuffer32 d = Some x \<Longrightarrow> frombuffer32 e = Some y \<Longrightarrow> frombuffer32 (d @ e) = Some (x @ y)"
  by (induction d arbitrary: x rule: frombuffer32.induct) auto

lemma decode_append:
  assumes "decode_audio env c d = Some x" "decode_audio env c e = Some y"
  shows "decode_audio env c (d @ e) = Some (x @ y)"
  using assms frombuffer16_append [of d _ e] frombuffer32_append [of d _ e]
  by (auto simp: decode_audio_def split: if_splits)

lemma decode_nothing: "e \<in> set SUPPORTED_ENCODINGS \<Longrightarrow> decode_audio env e [] = Some []"
  unfolding SUPPORTED_ENCODINGS_def by (auto simp: decode_audio_def)

lemma handle_audio_core:
  assumes "handle_audio env clock d s = Some (False, s')" "\<not> li_ended s'"
    and "0 < chunk_samples (li_buffer s)" "ab_client_rate (li_buffer s) = ab_rate (li_buffer s)"
  obtains xs where "decode_audio env (ab_encoding (li_buffer s)) d = Some xs"
    and "chunks_through env (cut (chunk_samples (li_buffer s)) (ab_buffer (li_buffer s) @ xs)) (core s) = Some (core s')"
    and "li_buffer s' = (li_buffer s)\<lparr>ab_buffer := left_over (chunk_samples (li_buffer s)) (ab_buffer (li_buffer s) @ xs),
           ab_total := ab_total (li_buffer s) + length xs\<rparr>"
proof -
  let ?b = "li_buffer s"
  have live: "\<not> li_ended s" using assms(1,2) by (auto simp: handle_audio_def)
  then obtain xs where d: "decode_audio env (ab_encoding ?b) d = Some xs"
    using assms(1) by (auto simp: handle_audio_def add_audio_def split: option.splits)
  let ?b1 = "?b\<lparr>ab_buffer := ab_buffer ?b @ xs, ab_total := ab_total ?b + length xs\<rparr>"
  define s1 where "s1 = evaluate_lag (clock 0) (record_received (length d) (s\<lparr>li_buffer := ?b1\<rparr>))"
  have h: "process_chunks env clock 0 s1 = Some (False, s')"
    using assms(1,4) live d by (simp add: handle_audio_def add_audio_def resample_if_needed_def s1_def)
  have b: "li_buffer s1 = ?b1" by (simp add: s1_def)
  have "\<not> li_ended s1" using h assms(2) by (auto simp: process_chunks.simps [of _ _ _ s1])
  then have "core s1 = core s" using evaluate_core by (simp add: s1_def)
  with process_chunks_core [OF h assms(2)] assms(3) b d that show ?thesis by simp
qed

definition audio_messages :: "((nat \<Rightarrow> time) \<times> bytes) list \<Rightarrow> live_input list" where
  "audio_messages ds = map (\<lambda>(clock, d). AudioIn clock d) ds"

lemma audio_messages_core:
  assumes "take_inputs env (audio_messages ds) s = Some (False, s')" "\<not> li_ended s'"
    and "length (ab_buffer (li_buffer s)) < chunk_samples (li_buffer s)"
    and "ab_client_rate (li_buffer s) = ab_rate (li_buffer s)" "ab_encoding (li_buffer s) \<in> set SUPPORTED_ENCODINGS"
  shows "\<exists>xs. decode_audio env (ab_encoding (li_buffer s)) (concat (map snd ds)) = Some xs
    \<and> chunks_through env (cut (chunk_samples (li_buffer s)) (ab_buffer (li_buffer s) @ xs)) (core s) = Some (core s')
    \<and> li_buffer s' = (li_buffer s)\<lparr>ab_buffer := left_over (chunk_samples (li_buffer s)) (ab_buffer (li_buffer s) @ xs),
           ab_total := ab_total (li_buffer s) + length xs\<rparr>"
  using assms
proof (induction ds arbitrary: s)
  case Nil
  then have s': "s' = s" by (simp add: audio_messages_def)
  have "cut (chunk_samples (li_buffer s)) (ab_buffer (li_buffer s)) = []"
    "left_over (chunk_samples (li_buffer s)) (ab_buffer (li_buffer s)) = ab_buffer (li_buffer s)"
    using Nil(3) by (simp_all add: cut.simps [of _ "ab_buffer (li_buffer s)"] left_over.simps [of _ "ab_buffer (li_buffer s)"])
  then show ?case using decode_nothing [OF Nil(5), of env] by (simp add: s')
next
  case (Cons m ds)
  obtain clock d where m: "m = (clock, d)" using prod.exhaust by blast
  let ?b = "li_buffer s" let ?n = "chunk_samples ?b"
  have n: "0 < ?n" using Cons.prems(3) by linarith
  obtain r s1 where h: "handle_audio env clock d s = Some (r, s1)"
    using Cons.prems(1) by (auto simp: audio_messages_def m handle_input_def split: option.splits)
  then have r: "\<not> r" and live: "\<not> li_ended s1" and more: "take_inputs env (audio_messages ds) s1 = Some (False, s')"
    using Cons.prems(1,2) by (auto simp: audio_messages_def m handle_input_def split: if_splits)
  have r': "r = False" using r by simp
  obtain xs where xs: "decode_audio env (ab_encoding ?b) d = Some xs"
    "chunks_through env (cut ?n (ab_buffer ?b @ xs)) (core s) = Some (core s1)"
    "li_buffer s1 = ?b\<lparr>ab_buffer := left_over ?n (ab_buffer ?b @ xs), ab_total := ab_total ?b + length xs\<rparr>"
    by (rule handle_audio_core [OF h [unfolded r'] live n Cons.prems(4)])
  obtain ys where ys: "decode_audio env (ab_encoding ?b) (concat (map snd ds)) = Some ys"
    "chunks_through env (cut ?n (left_over ?n (ab_buffer ?b @ xs) @ ys)) (core s1) = Some (core s')"
    "li_buffer s' = (li_buffer s1)\<lparr>ab_buffer := left_over ?n (left_over ?n (ab_buffer ?b @ xs) @ ys),
       ab_total := ab_total (li_buffer s1) + length ys\<rparr>"
    using Cons.IH [OF more Cons.prems(2)] left_over_short [OF n] Cons.prems(4,5) by (auto simp: xs(3))
  have "decode_audio env (ab_encoding ?b) (concat (map snd (m # ds))) = Some (xs @ ys)"
    using decode_append [OF xs(1) ys(1)] by (simp add: m)
  moreover have "chunks_through env (cut ?n (ab_buffer ?b @ xs @ ys)) (core s) = Some (core s')"
    using cut_append [OF n, of "ab_buffer ?b @ xs" ys] xs(2) ys(2) by (simp add: chunks_through_append)
  moreover have "li_buffer s' = ?b\<lparr>ab_buffer := left_over ?n (ab_buffer ?b @ xs @ ys), ab_total := ab_total ?b + length (xs @ ys)\<rparr>"
    using cut_append [OF n, of "ab_buffer ?b @ xs" ys] ys(3) by (simp add: xs(3))
  ultimately show ?case by blast
qed


text \<open>A session at 20 samples a second, without detection of speech, that transcribes every tenth of
  a second; two bytes in one message, and in two.\<close>

definition demo_transcript :: batch_transcript where
  "demo_transcript = \<lparr>bt_text = ''hi'', bt_segments = [], bt_language = ''en'', bt_language_confidence = None,
     bt_language_source = None, bt_languages = PNone, bt_duration = None, bt_granularity = [], bt_method = [],
     bt_engine_id = [], bt_channel = None, bt_warnings = [], bt_metadata = []\<rparr>"

definition demo_rt :: rt_env where
  "demo_rt = \<lparr>rt_ulaw = (\<lambda>b. ucast b), rt_alaw = (\<lambda>b. ucast b), rt_float = (\<lambda>_. 0), rt_resample = (\<lambda>_ _ xs. xs),
     rt_silero = (\<lambda>_ _. 1), rt_transcribe = (\<lambda>_ _. Inr demo_transcript)\<rparr>"

definition demo_config :: "bool \<Rightarrow> live_config" where
  "demo_config speech = \<lparr>lc_session_id = ''s'', lc_language = PStr ''auto'', lc_encoding = ''mulaw'', lc_client_rate = None,
     lc_rate = 20, lc_channels = 1, lc_enable_vad = speech, lc_interim = False, lc_word_timestamps = False,
     lc_max_utterance = 1 / 10, lc_threshold = 1 / 2, lc_min_speech_ms = 250, lc_min_silence_ms = 400, lc_prefix_ms = 300,
     lc_lag_warning = 3, lc_lag_hard = 5, lc_lag_grace = 2\<rparr>"

definition demo_live :: "bool \<Rightarrow> live" where
  "demo_live speech = the (new_session (demo_config speech) False)"

definition demo_framings :: "((nat \<Rightarrow> time) \<times> bytes) list \<times> ((nat \<Rightarrow> time) \<times> bytes) list" where
  "demo_framings = ([(\<lambda>_. 0, [1, 2])], [(\<lambda>_. 0, [1]), (\<lambda>_. 1, [2])])"

definition demo_after :: "((nat \<Rightarrow> time) \<times> bytes) list \<Rightarrow> live" where
  "demo_after ds = snd (the (take_inputs demo_rt (audio_messages ds) (demo_live False)))"

lemma demo_framings_run:
  "map_option (\<lambda>(r, s). (r, li_ended s, length (li_sent s))) (take_inputs demo_rt (audio_messages (fst demo_framings)) (demo_live False))
     = Some (False, False, 1)"
  "map_option (\<lambda>(r, s). (r, li_ended s, length (li_sent s))) (take_inputs demo_rt (audio_messages (snd demo_framings)) (demo_live False))
     = Some (False, False, 1)"
  by code_simp+

lemma demo_after: "take_inputs demo_rt (audio_messages ds) (demo_live False) = Some (False, s) \<Longrightarrow> demo_after ds = s"
  by (simp add: demo_after_def)


end
