(* ===== verification/RealtimeLag.thy ===== *)
theory RealtimeLag
  imports RealtimeProps
begin

text \<open>
  What the lag of a live session is. The code adds the length of a message when it handles it,
  and handles one message at a time, so the lag is the audio of the message at hand and of the
  part of a chunk that waits: it never shows how far the engine is behind. And it measures
  messages with the rate of the engine, so a session whose client has another rate drifts.
\<close>

section \<open>The account\<close>

definition matched :: "live \<Rightarrow> bool" where
  "matched s \<longleftrightarrow> lc_rate (li_config s) = ab_rate (li_buffer s) \<and> lc_channels (li_config s) = ab_channels (li_buffer s)
     \<and> lc_encoding (li_config s) = ab_encoding (li_buffer s) \<and> ab_encoding (li_buffer s) \<in> set SUPPORTED_ENCODINGS
     \<and> 0 < ab_rate (li_buffer s) * ab_channels (li_buffer s)"

definition accounted :: "live \<Rightarrow> bool" where
  "accounted s \<longleftrightarrow> li_processed s + li_discarded s + buffered_duration (li_buffer s) = total_duration (li_buffer s)"

text \<open>The ratio of the client's rate to the engine's.\<close>

definition rate_ratio :: "live \<Rightarrow> rat" where
  "rate_ratio s = of_nat (ab_client_rate (li_buffer s)) / of_nat (ab_rate (li_buffer s))"

definition received_ok :: "live \<Rightarrow> bool" where
  "received_ok s \<longleftrightarrow> li_received s = rate_ratio s * total_duration (li_buffer s)"

definition live_account :: "live \<Rightarrow> bool" where
  "live_account s \<longleftrightarrow> matched s \<and> accounted s \<and> received_ok s"

lemma lag_of_account:
  assumes "live_account s"
  shows "lag_seconds s = max 0 ((rate_ratio s - 1) * total_duration (li_buffer s) + buffered_duration (li_buffer s))"
proof -
  have "li_received s - li_processed s - li_discarded s
      = (rate_ratio s - 1) * total_duration (li_buffer s) + buffered_duration (li_buffer s)"
    using assms by (simp add: live_account_def accounted_def received_ok_def left_diff_distrib)
  then show ?thesis by (simp add: lag_seconds_def)
qed

text \<open>Two states with the same buffer, configuration of audio and account.\<close>

definition same_account :: "live \<Rightarrow> live \<Rightarrow> bool" where
  "same_account s s' \<longleftrightarrow> li_buffer s' = li_buffer s \<and> lc_rate (li_config s') = lc_rate (li_config s)
     \<and> lc_channels (li_config s') = lc_channels (li_config s) \<and> lc_encoding (li_config s') = lc_encoding (li_config s)
     \<and> lc_lag_hard (li_config s') = lc_lag_hard (li_config s)
     \<and> li_received s' = li_received s \<and> li_processed s' = li_processed s \<and> li_discarded s' = li_discarded s"

lemma same_account_refl [simp]: "same_account s s"
  by (simp add: same_account_def)

lemma same_account_trans: "same_account a b \<Longrightarrow> same_account b c \<Longrightarrow> same_account a c"
  by (simp add: same_account_def)

lemma same_account_live: "same_account s s' \<Longrightarrow> live_account s \<Longrightarrow> live_account s'"
  unfolding same_account_def live_account_def matched_def accounted_def received_ok_def rate_ratio_def by metis

lemma same_account_chunk: "process_chunk env a s = (r, s') \<Longrightarrow> same_account s s'"
  using chunk_keeps_lag [of env a s r s'] stays_chunk [of env a s r s'] by (simp add: same_account_def stays_def)

lemma same_account_send: "same_account s (send_message m s)"
  by (simp add: same_account_def send_message_def)

lemma same_account_transcribe: "same_account s (transcribe_and_send env a s)"
  by (simp add: same_account_def transcribe_and_send_def send_message_def Let_def split: sum.splits prod.splits)

lemma same_account_utterance: "same_account s (transcribe_utterance env u s)"
  by (simp add: transcribe_utterance_def same_account_transcribe split: option.splits)

lemma same_account_vad: "same_account s (s\<lparr>li_vad := v\<rparr>)" "same_account s (clear_partial s)"
  by (simp_all add: same_account_def clear_partial_def)

lemma same_account_warn: "same_account s (warn_lag t s)"
  by (simp add: same_account_def warn_lag_def send_message_def Let_def)

lemma same_account_terminate: "same_account s (terminate_for_lag s)"
  by (simp add: same_account_def terminate_for_lag_def send_message_def)

lemma same_account_hard: "same_account s (s\<lparr>li_hard_since := h\<rparr>)"
  by (simp add: same_account_def)

lemma same_account_evaluate: "same_account s (evaluate_lag t s)"
  using same_account_trans [OF same_account_warn same_account_terminate] same_account_trans [OF same_account_warn same_account_hard]
    same_account_warn
  by (simp add: evaluate_lag_def Let_def split: option.split)

lemma set_vad_simps [simp]:
  "li_buffer (set_vad f s) = li_buffer s" "li_config (set_vad f s) = li_config s" "li_received (set_vad f s) = li_received s"
  "li_processed (set_vad f s) = li_processed s" "li_discarded (set_vad f s) = li_discarded s"
  "li_ended (set_vad f s) = li_ended s" "li_lag_terminated (set_vad f s) = li_lag_terminated s" "li_error (set_vad f s) = li_error s"
  "li_sent (set_vad f s) = li_sent s" "li_assembler (set_vad f s) = li_assembler s"
  by (simp_all add: set_vad_def)

text \<open>A change of the configuration touches the language and the detection of speech.\<close>

lemma update_config_cases:
  assumes "update_config l t m p s = (r, s')"
  shows "\<exists>v c. s' = s\<lparr>li_vad := v, li_config := (li_config s)\<lparr>lc_language := c\<rparr>\<rparr>"
proof -
  have set: "\<exists>v' c'. set_vad f (s\<lparr>li_vad := v, li_config := (li_config s)\<lparr>lc_language := c\<rparr>\<rparr>)
      = s\<lparr>li_vad := v', li_config := (li_config s)\<lparr>lc_language := c'\<rparr>\<rparr>" for f v c
    by (intro exI [of _ "map_option (\<lambda>v. v\<lparr>va_config := f (va_config v)\<rparr>) v"] exI [of _ c]) (simp add: set_vad_def)
  let ?Q = "\<lambda>s'. \<exists>v c. s' = s\<lparr>li_vad := v, li_config := (li_config s)\<lparr>lc_language := c\<rparr>\<rparr>"
  have Q: "?Q x \<Longrightarrow> ?Q (set_vad f x)" for f x using set by blast
  define s1 where "s1 = (if truthy l then s\<lparr>li_config := (li_config s)\<lparr>lc_language := l\<rparr>\<rparr> else s)"
  have "s1 = s\<lparr>li_vad := li_vad s, li_config := (li_config s)\<lparr>lc_language := lc_language (li_config s1)\<rparr>\<rparr>"
    by (simp add: s1_def)
  then have 1: "?Q s1" by blast
  define s2 where "s2 = (if t = PNone then s1 else set_vad (\<lambda>c. c\<lparr>vc_threshold := t\<rparr>) s1)"
  define s3 where "s3 = (case pynum m of Some x \<Rightarrow> set_vad (\<lambda>c. c\<lparr>vc_min_silence := x / 1000\<rparr>) s2 | None \<Rightarrow> s2)"
  define s4 where "s4 = (case pynum p of
      Some x \<Rightarrow> set_vad (\<lambda>c. c\<lparr>vc_lookback := lookback_of (x / of_nat (ab_chunk_ms (li_buffer s3)))\<rparr>) s3 | None \<Rightarrow> s3)"
  have 2: "?Q s2" unfolding s2_def by (simp only: split: if_split) (use 1 Q in blast)
  have 3: "?Q s3" unfolding s3_def by (simp only: split: option.split) (use 2 Q in blast)
  have 4: "?Q s4" unfolding s4_def by (simp only: split: option.split) (use 3 Q in blast)
  have "s' = s2 \<or> s' = s3 \<or> s' = s4"
    using assms unfolding update_config_def s1_def [symmetric] Let_def s2_def [symmetric] s3_def [symmetric] s4_def [symmetric]
    by (simp split: if_splits)
  then show ?thesis using 2 3 4 by (elim disjE) simp_all
qed

lemma same_account_config:
  "update_config l t m p s = (r, s') \<Longrightarrow> same_account s s' \<and> li_ended s' = li_ended s \<and> li_lag_terminated s' = li_lag_terminated s"
  by (drule update_config_cases) (auto simp: same_account_def)

lemma below_hard:
  "lag_seconds s < lc_lag_hard (li_config s) \<Longrightarrow>
     li_ended (evaluate_lag t s) = li_ended s \<and> li_lag_terminated (evaluate_lag t s) = li_lag_terminated s"
  by (simp add: evaluate_lag_def Let_def)

section \<open>Audio\<close>

lemma frombuffer16_length: "frombuffer16 d = Some x \<Longrightarrow> length d = 2 * length x"
  by (induction d arbitrary: x rule: frombuffer16.induct) auto

lemma frombuffer32_length: "frombuffer32 d = Some x \<Longrightarrow> length d = 4 * length x"
  by (induction d arbitrary: x rule: frombuffer32.induct) auto

lemma decode_length: "decode_audio env e d = Some xs \<Longrightarrow> length d = bytes_per_sample e * length xs"
  using frombuffer16_length [of d] frombuffer32_length [of d]
  by (auto simp: decode_audio_def bytes_per_sample_def split: if_splits)

text \<open>The resampler keeps the duration of a message that is a whole number of samples at both rates.\<close>

definition keeps_duration :: "rt_env \<Rightarrow> audio_buffer \<Rightarrow> bool" where
  "keeps_duration env b \<longleftrightarrow> (\<forall>xs. ab_client_rate b \<noteq> ab_rate b \<longrightarrow> ab_client_rate b dvd length xs * ab_rate b \<longrightarrow>
     length (rt_resample env (ab_client_rate b) (ab_rate b) xs) * ab_client_rate b = length xs * ab_rate b)"

definition whole :: "audio_buffer \<Rightarrow> live_input \<Rightarrow> bool" where
  "whole b i \<longleftrightarrow> (case i of
     AudioIn _ d \<Rightarrow> ab_client_rate b dvd (length d div bytes_per_sample (ab_encoding b)) * ab_rate b | _ \<Rightarrow> True)"

lemma resampled_length:
  assumes "keeps_duration env b" "ab_client_rate b dvd length xs * ab_rate b"
  shows "length (resample_if_needed env b xs) * ab_client_rate b = length xs * ab_rate b"
  using assms by (auto simp: keeps_duration_def resample_if_needed_def)

text \<open>What a message leaves as it is.\<close>

definition audio_frame :: "live \<Rightarrow> live \<Rightarrow> bool" where
  "audio_frame s s' \<longleftrightarrow> li_buffer s' = (li_buffer s)\<lparr>ab_buffer := ab_buffer (li_buffer s')\<rparr> \<and> lc_rate (li_config s') = lc_rate (li_config s)
     \<and> lc_channels (li_config s') = lc_channels (li_config s) \<and> lc_encoding (li_config s') = lc_encoding (li_config s)
     \<and> lc_lag_hard (li_config s') = lc_lag_hard (li_config s) \<and> li_received s' = li_received s"

lemma audio_frame_trans: "audio_frame a b \<Longrightarrow> audio_frame b c \<Longrightarrow> audio_frame a c"
  unfolding audio_frame_def by (metis audio_buffer.update_convs(6) audio_buffer.select_convs(6) audio_buffer.surjective)

lemma process_chunks_account:
  assumes "live_account s" "0 < chunk_samples (li_buffer s)"
  shows "\<exists>r s'. process_chunks env clock k s = Some (r, s') \<and> audio_frame s s' \<and> (\<not> r \<longrightarrow> live_account s')
      \<and> (r \<or> li_ended s' \<or> length (ab_buffer (li_buffer s')) < chunk_samples (li_buffer s))
      \<and> (lag_seconds s < lc_lag_hard (li_config s) \<and> 0 < lc_lag_hard (li_config s)
           \<longrightarrow> li_ended s' = li_ended s \<and> li_lag_terminated s' = li_lag_terminated s)"
  using assms
proof (induction "length (ab_buffer (li_buffer s))" arbitrary: k s rule: less_induct)
  case less
  let ?b = "li_buffer s" let ?n = "chunk_samples ?b"
  show ?case
  proof (cases "li_ended s \<or> length (ab_buffer ?b) < ?n")
    case True
    then have "process_chunks env clock k s = Some (False, s)" by (auto simp: process_chunks.simps [of _ _ _ s] get_chunk_def)
    then show ?thesis using True less.prems(1) by (auto simp: audio_frame_def)
  next
    case False
    let ?c = "take ?n (ab_buffer ?b)" let ?b' = "?b\<lparr>ab_buffer := drop ?n (ab_buffer ?b)\<rparr>"
    have g: "get_chunk ?b = Some (?c, ?b')" using False by (simp add: get_chunk_def)
    obtain r s1 where p: "process_chunk env ?c (s\<lparr>li_buffer := ?b'\<rparr>) = (r, s1)" using prod.exhaust by blast
    note same = same_account_chunk [OF p]
    have ends: "li_ended s1 = li_ended s" "li_lag_terminated s1 = li_lag_terminated s" using stays_chunk [OF p] by (simp_all add: stays_def)
    have frame1: "audio_frame s s1" using same by (simp add: same_account_def audio_frame_def)
    show ?thesis
    proof (cases r)
      case True
      then have "process_chunks env clock k s = Some (True, s1)" using False by (simp add: process_chunks.simps [of _ _ _ s] g p)
      then show ?thesis using frame1 ends by auto
    next
      case r: False
      define d where "d = samples_to_seconds s1 (length ?c)"
      define s2 where "s2 = record_processed d s1"
      define s3 where "s3 = evaluate_lag (clock (Suc k)) s2"
      have step: "process_chunks env clock k s = process_chunks env clock (Suc k) s3"
        using False r by (simp add: process_chunks.simps [of _ _ _ s] g p s3_def s2_def d_def)
      have R: "0 < rat_of_nat (lc_rate (li_config s) * lc_channels (li_config s))"
        using less.prems(1) unfolding live_account_def matched_def of_nat_0_less_iff by metis
      have d: "d = of_nat ?n / of_nat (lc_rate (li_config s) * lc_channels (li_config s))"
        using False same by (simp add: d_def samples_to_seconds_def same_account_def)
      have "0 < d" using R less.prems(2) unfolding d by (metis divide_pos_pos of_nat_0_less_iff)
      then have s2: "s2 = s1\<lparr>li_processed := li_processed s + d\<rparr>" using same by (simp add: s2_def record_processed_def same_account_def)
      have buf: "buffered_duration ?b' = buffered_duration ?b - d"
        using False less.prems(1)
        by (simp add: buffered_duration_def d live_account_def matched_def of_nat_diff diff_divide_distrib)
      have s1: "li_buffer s2 = ?b'" "li_config s2 = li_config s1" "li_received s2 = li_received s" "li_discarded s2 = li_discarded s"
        "li_processed s2 = li_processed s + d" "lc_rate (li_config s1) = lc_rate (li_config s)"
        "lc_channels (li_config s1) = lc_channels (li_config s)" "lc_encoding (li_config s1) = lc_encoding (li_config s)"
        using same by (simp_all add: s2 same_account_def)
      have acc: "matched s" "accounted s" "received_ok s" using less.prems(1) by (simp_all add: live_account_def)
      have "total_duration ?b' = total_duration ?b" by (simp add: total_duration_def)
      then have "matched s2" "accounted s2" "received_ok s2"
        using acc buf unfolding matched_def accounted_def received_ok_def rate_ratio_def by (simp_all add: s1)
      then have acc2: "live_account s2" by (simp add: live_account_def)
      have frame2: "audio_frame s s2" using frame1 by (simp add: audio_frame_def s2)
      have frame3: "audio_frame s s3" using frame2 same_account_evaluate [of s2 "clock (Suc k)"]
        by (simp add: audio_frame_def same_account_def s3_def)
      have acc3: "live_account s3" using same_account_live [OF same_account_evaluate acc2] by (simp add: s3_def)
      have b3: "li_buffer s3 = ?b'" using same by (simp add: s3_def s2 same_account_def)
      have lag: "lag_seconds s3 \<le> lag_seconds s" "lag_seconds s2 \<le> lag_seconds s"
        using \<open>0 < d\<close> same same_account_evaluate [of s2 "clock (Suc k)"]
        by (simp_all add: lag_seconds_def s3_def same_account_def s2)
      have smaller: "length (ab_buffer (li_buffer s3)) < length (ab_buffer ?b)" using less.prems(2) False by (simp add: b3) linarith
      obtain r' s' where IH: "process_chunks env clock (Suc k) s3 = Some (r', s')" "audio_frame s3 s'" "\<not> r' \<longrightarrow> live_account s'"
        "r' \<or> li_ended s' \<or> length (ab_buffer (li_buffer s')) < ?n"
        "lag_seconds s3 < lc_lag_hard (li_config s3) \<and> 0 < lc_lag_hard (li_config s3)
           \<longrightarrow> li_ended s' = li_ended s3 \<and> li_lag_terminated s' = li_lag_terminated s3"
        using less.hyps [OF smaller acc3, of "Suc k", unfolded b3 chunk_samples_update, OF less.prems(2)] by blast
      have "li_ended s' = li_ended s \<and> li_lag_terminated s' = li_lag_terminated s"
        if "lag_seconds s < lc_lag_hard (li_config s)" "0 < lc_lag_hard (li_config s)"
      proof -
        have hard: "lc_lag_hard (li_config s3) = lc_lag_hard (li_config s)" "lc_lag_hard (li_config s2) = lc_lag_hard (li_config s)"
          using frame3 frame2 by (simp_all add: audio_frame_def)
        have "li_ended s3 = li_ended s2 \<and> li_lag_terminated s3 = li_lag_terminated s2"
          unfolding s3_def by (rule below_hard) (use lag that hard in linarith)
        then show ?thesis using IH(5) lag that hard ends by (simp add: s2)
      qed
      then show ?thesis using IH step audio_frame_trans [OF frame3 IH(2)] by auto
    qed
  qed
qed

section \<open>Messages\<close>

definition live_ok :: "live \<Rightarrow> bool" where
  "live_ok s \<longleftrightarrow> live_account s \<and> ab_chunk_ms (li_buffer s) = 100 \<and> 0 < chunk_samples (li_buffer s)
     \<and> (li_ended s \<or> length (ab_buffer (li_buffer s)) < chunk_samples (li_buffer s))"

text \<open>The parameters that stay for the whole session.\<close>

definition same_rig :: "live \<Rightarrow> live \<Rightarrow> bool" where
  "same_rig s s' \<longleftrightarrow> ab_rate (li_buffer s') = ab_rate (li_buffer s) \<and> ab_client_rate (li_buffer s') = ab_client_rate (li_buffer s)
     \<and> ab_channels (li_buffer s') = ab_channels (li_buffer s) \<and> ab_encoding (li_buffer s') = ab_encoding (li_buffer s)
     \<and> ab_chunk_ms (li_buffer s') = ab_chunk_ms (li_buffer s)
     \<and> lc_rate (li_config s') = lc_rate (li_config s) \<and> lc_channels (li_config s') = lc_channels (li_config s)
     \<and> lc_encoding (li_config s') = lc_encoding (li_config s) \<and> lc_lag_hard (li_config s') = lc_lag_hard (li_config s)"

lemma same_rig_refl [simp]: "same_rig s s"
  by (simp add: same_rig_def)

lemma same_rig_trans: "same_rig a b \<Longrightarrow> same_rig b c \<Longrightarrow> same_rig a c"
  by (simp add: same_rig_def)

lemma same_rig_account: "same_account s s' \<Longrightarrow> same_rig s s'"
  by (simp add: same_rig_def same_account_def)

lemma same_rig_simps:
  assumes "same_rig s s'"
  shows "rate_ratio s' = rate_ratio s" "lc_lag_hard (li_config s') = lc_lag_hard (li_config s)"
    "keeps_duration env (li_buffer s') = keeps_duration env (li_buffer s)" "whole (li_buffer s') i = whole (li_buffer s) i"
    "audio_bytes_to_seconds s' n = audio_bytes_to_seconds s n"
  using assms by (simp_all add: same_rig_def rate_ratio_def keeps_duration_def whole_def audio_bytes_to_seconds_def
      split: live_input.splits)

lemma same_rig_frame:
  assumes "audio_frame s s'" shows "same_rig s s'"
proof -
  obtain xs where "li_buffer s' = (li_buffer s)\<lparr>ab_buffer := xs\<rparr>" using assms unfolding audio_frame_def by blast
  then show ?thesis using assms by (simp add: audio_frame_def same_rig_def)
qed

lemma buffered_short:
  assumes "live_ok s" "\<not> li_ended s"
  shows "buffered_duration (li_buffer s) < 1 / 10"
proof -
  let ?b = "li_buffer s"
  have R: "0 < ab_rate ?b * ab_channels ?b" using assms(1) by (simp add: live_ok_def live_account_def matched_def)
  have "chunk_samples ?b * 10 \<le> ab_rate ?b * ab_channels ?b"
  proof -
    have "ab_rate ?b * 100 div 1000 * 10 \<le> ab_rate ?b" by linarith
    then have "ab_rate ?b * 100 div 1000 * 10 * ab_channels ?b \<le> ab_rate ?b * ab_channels ?b" by (rule mult_le_mono1)
    then show ?thesis using assms(1) by (simp add: chunk_samples_def live_ok_def ac_simps)
  qed
  moreover have "length (ab_buffer ?b) < chunk_samples ?b" using assms by (simp add: live_ok_def)
  ultimately have "length (ab_buffer ?b) * 10 < ab_rate ?b * ab_channels ?b" by linarith
  then have "rat_of_nat (length (ab_buffer ?b)) * 10 < rat_of_nat (ab_rate ?b * ab_channels ?b)"
    by (metis of_nat_less_iff of_nat_mult of_nat_numeral)
  then show ?thesis using R by (simp only: buffered_duration_def divide_less_eq of_nat_0_less_iff if_True)
qed

lemma handle_audio_account:
  assumes ok: "live_ok s" and keep: "keeps_duration env (li_buffer s)" and whole: "whole (li_buffer s) (AudioIn clock d)"
  shows "\<exists>r s'. handle_audio env clock d s = Some (r, s') \<and> same_rig s s' \<and> (\<not> r \<longrightarrow> live_ok s')
     \<and> (rate_ratio s = 1 \<and> audio_bytes_to_seconds s (length d) + 1 / 10 \<le> lc_lag_hard (li_config s)
          \<longrightarrow> li_ended s' = li_ended s \<and> li_lag_terminated s' = li_lag_terminated s)"
proof (cases "li_ended s \<or> decode_audio env (ab_encoding (li_buffer s)) d = None")
  case True
  then have "handle_audio env clock d s = Some (\<not> li_ended s, s)" by (auto simp: handle_audio_def add_audio_def)
  then show ?thesis using ok by simp
next
  case False
  let ?b = "li_buffer s"
  obtain ys where ys: "decode_audio env (ab_encoding ?b) d = Some ys" using False by auto
  define xs where "xs = resample_if_needed env ?b ys"
  let ?b1 = "?b\<lparr>ab_buffer := ab_buffer ?b @ xs, ab_total := ab_total ?b + length xs\<rparr>"
  define s1 where "s1 = record_received (length d) (s\<lparr>li_buffer := ?b1\<rparr>)"
  define s2 where "s2 = evaluate_lag (clock 0) s1"
  have h: "handle_audio env clock d s = process_chunks env clock 0 s2"
    using False ys by (simp add: handle_audio_def add_audio_def s2_def s1_def xs_def Let_def)
  have acc: "live_account s" and n: "0 < chunk_samples ?b" using ok by (simp_all add: live_ok_def)
  have R: "0 < ab_rate ?b" "0 < ab_channels ?b" using acc by (simp_all add: live_account_def matched_def)
  have len: "length xs * ab_client_rate ?b = length ys * ab_rate ?b" unfolding xs_def
  proof (rule resampled_length [OF keep])
    have "0 < bytes_per_sample (ab_encoding ?b)" by (simp add: bytes_per_sample_def)
    then show "ab_client_rate ?b dvd length ys * ab_rate ?b" using whole by (simp add: whole_def decode_length [OF ys])
  qed
  have secs: "audio_bytes_to_seconds s (length d) = rate_ratio s * (of_nat (length xs) / of_nat (ab_rate ?b * ab_channels ?b))"
  proof -
    have e: "lc_encoding (li_config s) = ab_encoding ?b" "lc_rate (li_config s) = ab_rate ?b" "lc_channels (li_config s) = ab_channels ?b"
      using acc by (simp_all add: live_account_def matched_def)
    have "0 < bytes_per_sample (ab_encoding ?b)" by (simp add: bytes_per_sample_def)
    then have "audio_bytes_to_seconds s (length d) = of_nat (length ys) / of_nat (ab_rate ?b * ab_channels ?b)"
      by (simp add: audio_bytes_to_seconds_def e decode_length [OF ys])
    also have "\<dots> = of_nat (length ys * ab_rate ?b) / of_nat (ab_rate ?b * ab_channels ?b * ab_rate ?b)"
      using R by simp
    also have "\<dots> = of_nat (length xs * ab_client_rate ?b) / of_nat (ab_rate ?b * ab_channels ?b * ab_rate ?b)"
      by (simp only: len)
    finally show ?thesis by (simp add: rate_ratio_def ac_simps)
  qed
  have s1: "li_buffer s1 = ?b1" "li_config s1 = li_config s" "li_processed s1 = li_processed s" "li_discarded s1 = li_discarded s"
    "li_received s1 = li_received s + audio_bytes_to_seconds s (length d)"
    by (simp_all add: s1_def record_received_def audio_bytes_to_seconds_def)
  define x where "x = rat_of_nat (length xs) / of_nat (ab_rate ?b * ab_channels ?b)"
  have more: "buffered_duration ?b1 = buffered_duration ?b + x" "total_duration ?b1 = total_duration ?b + x"
    by (simp_all add: buffered_duration_def total_duration_def x_def add_divide_distrib)
  have secs_x: "audio_bytes_to_seconds s (length d) = rate_ratio s * x" by (simp add: secs x_def)
  have "matched s1" using acc by (simp add: live_account_def matched_def s1)
  moreover have "accounted s1" using acc by (simp add: live_account_def accounted_def s1 more)
  moreover have "received_ok s1"
  proof -
    have "rate_ratio s1 = rate_ratio s" by (simp add: rate_ratio_def s1)
    then show ?thesis using acc by (simp add: live_account_def received_ok_def s1 more secs_x distrib_left)
  qed
  ultimately have acc1: "live_account s1" by (simp add: live_account_def)
  have acc2: "live_account s2" using same_account_live [OF same_account_evaluate acc1] by (simp add: s2_def)
  have rig2: "same_rig s s2" using same_rig_account [OF same_account_evaluate [of s1 "clock 0"]]
    by (simp add: same_rig_def s2_def s1_def record_received_def)
  have b2: "li_buffer s2 = ?b1" by (simp add: s2_def s1_def)
  obtain r s' where L: "process_chunks env clock 0 s2 = Some (r, s')" "audio_frame s2 s'" "\<not> r \<longrightarrow> live_account s'"
    "r \<or> li_ended s' \<or> length (ab_buffer (li_buffer s')) < chunk_samples (li_buffer s2)"
    "lag_seconds s2 < lc_lag_hard (li_config s2) \<and> 0 < lc_lag_hard (li_config s2)
       \<longrightarrow> li_ended s' = li_ended s2 \<and> li_lag_terminated s' = li_lag_terminated s2"
    using process_chunks_account [OF acc2, of env "clock" 0] n by (auto simp: b2)
  have b': "li_buffer s' = ?b1\<lparr>ab_buffer := ab_buffer (li_buffer s')\<rparr>" using L(2) by (simp add: audio_frame_def b2)
  have "same_rig s2 s'" by (rule same_rig_frame) (rule L(2))
  then have rig: "same_rig s s'" using rig2 same_rig_trans by blast
  have "chunk_samples (li_buffer s') = chunk_samples ?b" "ab_chunk_ms (li_buffer s') = ab_chunk_ms ?b"
    "chunk_samples (li_buffer s2) = chunk_samples ?b"
    using rig rig2 by (simp_all add: same_rig_def chunk_samples_def)
  then have live: "\<not> r \<longrightarrow> live_ok s'" using L(3,4) ok by (auto simp: live_ok_def)
  have "li_ended s' = li_ended s \<and> li_lag_terminated s' = li_lag_terminated s"
    if q: "rate_ratio s = 1" and short: "audio_bytes_to_seconds s (length d) + 1 / 10 \<le> lc_lag_hard (li_config s)"
  proof -
    have buf: "buffered_duration ?b1 = buffered_duration ?b + audio_bytes_to_seconds s (length d)"
      by (simp add: buffered_duration_def secs q add_divide_distrib)
    have nonneg: "0 \<le> audio_bytes_to_seconds s (length d)" "0 \<le> buffered_duration ?b1"
      by (simp_all add: audio_bytes_to_seconds_def buffered_duration_def)
    have small: "buffered_duration ?b1 < lc_lag_hard (li_config s)" using buffered_short [OF ok] False short buf by linarith
    have hard: "lc_lag_hard (li_config s1) = lc_lag_hard (li_config s)" "lc_lag_hard (li_config s2) = lc_lag_hard (li_config s)"
      using same_rig_simps(2) [OF rig2] by (simp_all add: s1_def record_received_def)
    have "rate_ratio s1 = 1" "rate_ratio s2 = 1" using q by (simp_all add: rate_ratio_def b2 s1_def record_received_def)
    then have lag: "lag_seconds s1 = buffered_duration ?b1" "lag_seconds s2 = buffered_duration ?b1"
      using lag_of_account [OF acc1] lag_of_account [OF acc2] nonneg(2) by (simp_all add: b2 s1_def record_received_def)
    have "li_ended s2 = li_ended s1 \<and> li_lag_terminated s2 = li_lag_terminated s1"
      unfolding s2_def by (rule below_hard) (simp add: lag hard small)
    then show ?thesis using L(5) lag(2) hard(2) small nonneg(2) by (simp add: s1_def record_received_def)
  qed
  then show ?thesis using h L(1) rig live by auto
qed

lemma same_account_ok:
  assumes "same_account s s'" "live_ok s" "li_ended s \<longrightarrow> li_ended s'"
  shows "live_ok s'"
  using assms same_account_live [OF assms(1)] by (auto simp: live_ok_def same_account_def)

lemma samples_buffered: "matched s \<Longrightarrow> samples_to_seconds s (length (ab_buffer (li_buffer s))) = buffered_duration (li_buffer s)"
  by (simp add: samples_to_seconds_def buffered_duration_def matched_def)

text \<open>Emptying the buffer and counting what was in it keeps the account.\<close>

lemma emptied_account:
  assumes "live_ok s" "same_account (s\<lparr>li_buffer := (li_buffer s)\<lparr>ab_buffer := []\<rparr>\<rparr>) s'"
  shows "live_ok (record_processed (buffered_duration (li_buffer s)) s')"
    "live_ok (record_discarded (buffered_duration (li_buffer s)) s')"
    "same_rig s (record_processed x s')" "same_rig s (record_discarded x s')"
proof -
  let ?d = "buffered_duration (li_buffer s)"
  have d: "0 \<le> ?d" by (simp add: buffered_duration_def)
  have rec: "record_processed ?d s' = s'\<lparr>li_processed := li_processed s + ?d\<rparr>"
    "record_discarded ?d s' = s'\<lparr>li_discarded := li_discarded s + ?d\<rparr>"
    using d assms(2) by (auto simp: record_processed_def record_discarded_def same_account_def)
  have empty: "buffered_duration ((li_buffer s)\<lparr>ab_buffer := []\<rparr>) = 0"
    "total_duration ((li_buffer s)\<lparr>ab_buffer := []\<rparr>) = total_duration (li_buffer s)"
    by (simp_all add: buffered_duration_def total_duration_def)
  show "live_ok (record_processed ?d s')" "live_ok (record_discarded ?d s')"
    using assms unfolding rec live_ok_def live_account_def matched_def accounted_def received_ok_def rate_ratio_def same_account_def
    by (simp_all add: empty)
  show "same_rig s (record_processed x s')" "same_rig s (record_discarded x s')"
    using assms(2) by (simp_all add: same_rig_def same_account_def record_processed_def record_discarded_def)
qed

lemma record_ends [simp]: "li_ended (record_discarded x s) = li_ended s"
  "li_lag_terminated (record_discarded x s) = li_lag_terminated s" "li_lag_terminated (record_processed x s) = li_lag_terminated s"
  by (simp_all add: record_discarded_def record_processed_def)

lemma flush_vad_same: "same_account s (flush_vad env s)" "li_ended (flush_vad env s) = li_ended s"
  "li_lag_terminated (flush_vad env s) = li_lag_terminated s" "li_error (flush_vad env s) = li_error s"
  using same_account_trans [OF same_account_vad(1) same_account_utterance]
  by (simp_all add: flush_vad_def split: option.splits prod.splits)

lemma flush_audio_ok:
  assumes "live_ok s" shows "live_ok (flush_audio env s) \<and> same_rig s (flush_audio env s)
    \<and> li_ended (flush_audio env s) = li_ended s \<and> li_lag_terminated (flush_audio env s) = li_lag_terminated s"
proof (cases "ab_buffer (li_buffer s) = []")
  case True
  then show ?thesis using assms by (simp add: flush_audio_def flush_buffer_def)
next
  case False
  let ?a = "ab_buffer (li_buffer s)" and ?s2 = "s\<lparr>li_buffer := (li_buffer s)\<lparr>ab_buffer := []\<rparr>\<rparr>"
  have d: "samples_to_seconds ?s2 (length ?a) = buffered_duration (li_buffer s)"
    using samples_buffered [of s] assms by (simp add: samples_to_seconds_def live_ok_def live_account_def)
  note e1 = emptied_account [OF assms same_account_transcribe [of ?s2 env ?a]]
  note e2 = emptied_account [OF assms same_account_refl]
  show ?thesis using e1 e2 by (simp add: flush_audio_def flush_buffer_def False Let_def d)
qed

lemma flush_ok:
  assumes "live_ok s" shows "live_ok (flush_session env s) \<and> same_rig s (flush_session env s)
    \<and> li_ended (flush_session env s) = li_ended s \<and> li_lag_terminated (flush_session env s) = li_lag_terminated s"
proof -
  have ok: "live_ok (flush_vad env s)" by (rule same_account_ok [OF flush_vad_same(1) assms]) (simp add: flush_vad_same)
  have rig: "same_rig s (flush_vad env s)" by (rule same_rig_account [OF flush_vad_same(1)])
  show ?thesis
    using flush_audio_ok [OF ok, of env] same_rig_trans [OF rig] by (auto simp: flush_session_def flush_vad_same)
qed

lemma clear_ok:
  assumes "live_ok s" shows "live_ok (clear_session s) \<and> same_rig s (clear_session s)
    \<and> li_ended (clear_session s) = li_ended s \<and> li_lag_terminated (clear_session s) = li_lag_terminated s"
proof -
  let ?s1 = "s\<lparr>li_vad := map_option vad_clear (li_vad s)\<rparr>"
  have ok: "live_ok ?s1" by (rule same_account_ok [OF same_account_vad(1) assms]) simp
  note e = emptied_account [OF ok same_account_refl]
  let ?s2 = "record_discarded (buffered_duration (li_buffer ?s1)) (?s1\<lparr>li_buffer := (li_buffer ?s1)\<lparr>ab_buffer := []\<rparr>\<rparr>)"
  have c: "clear_session s = clear_partial ?s2" by (simp add: clear_session_def clear_buffer_def)
  have "live_ok (clear_partial ?s2)" by (rule same_account_ok [OF same_account_vad(2) e(2)]) simp
  moreover have "same_rig s (clear_partial ?s2)"
    using same_rig_trans [OF same_rig_account [OF same_account_vad(1)] same_rig_trans [OF e(4) same_rig_account [OF same_account_vad(2)]]] .
  ultimately show ?thesis by (simp add: c)
qed

lemma last_utterance_same: "same_account s (last_utterance env s)" "li_ended (last_utterance env s) = li_ended s"
  "li_lag_terminated (last_utterance env s) = li_lag_terminated s" "li_error (last_utterance env s) = li_error s"
  using flush_vad_same [where env = env and s = s] same_account_transcribe [of s env "concat (li_speech s)"]
  by (simp_all add: last_utterance_def same_account_def)

lemma end_ok:
  assumes "live_ok s" shows "live_ok (send_session_end env s) \<and> same_rig s (send_session_end env s)
    \<and> li_ended (send_session_end env s) \<and> li_lag_terminated (send_session_end env s) = li_lag_terminated s"
proof -
  have same: "same_account s (send_session_end env s)"
    using last_utterance_same(1) [of s env] by (simp add: send_session_end_def same_account_def send_message_def Let_def)
  have e: "li_ended (send_session_end env s)" "li_lag_terminated (send_session_end env s) = li_lag_terminated s"
    by (simp_all add: send_session_end_def Let_def last_utterance_same)
  show ?thesis using same_account_ok [OF same assms] e same_rig_account [OF same] by simp
qed

section \<open>The whole session\<close>

lemma evaluate_ok:
  assumes "live_ok s" shows "live_ok (evaluate_lag t s) \<and> same_rig s (evaluate_lag t s)"
proof -
  have "li_ended s \<longrightarrow> li_ended (evaluate_lag t s)" by (simp add: evaluate_ended)
  then show ?thesis using same_account_ok [OF same_account_evaluate assms] same_rig_account [OF same_account_evaluate] by blast
qed

text \<open>With equal rates, between two messages, the lag is below a tenth of a second.\<close>

lemma evaluate_between:
  assumes "live_ok s" "rate_ratio s = 1" "1 / 10 \<le> lc_lag_hard (li_config s)"
  shows "li_ended (evaluate_lag t s) = li_ended s \<and> li_lag_terminated (evaluate_lag t s) = li_lag_terminated s"
proof (cases "li_ended s")
  case True
  then show ?thesis by (simp add: evaluate_ended)
next
  case False
  have "lag_seconds s = max 0 (buffered_duration (li_buffer s))"
    using lag_of_account [of s] assms by (simp add: live_ok_def)
  then have "lag_seconds s < 1 / 10" using buffered_short [OF assms(1) False] by simp
  then show ?thesis using below_hard assms(3) by (metis order_less_le_trans)
qed

lemma handle_control_ok:
  assumes ok: "live_ok s" and h: "handle_control env t x s = (r, s')"
  shows "same_rig s s' \<and> (\<not> r \<longrightarrow> live_ok s')
    \<and> (rate_ratio s = 1 \<and> 1 / 10 \<le> lc_lag_hard (li_config s) \<longrightarrow> li_lag_terminated s' = li_lag_terminated s)"
proof -
  have eval: "same_rig s (evaluate_lag t s1) \<and> live_ok (evaluate_lag t s1)
      \<and> (rate_ratio s = 1 \<and> 1 / 10 \<le> lc_lag_hard (li_config s) \<longrightarrow> li_lag_terminated (evaluate_lag t s1) = li_lag_terminated s)"
    if "live_ok s1" "same_rig s s1" "li_lag_terminated s1 = li_lag_terminated s" for s1
    using evaluate_ok [OF that(1), of t] evaluate_between [OF that(1), of t] that same_rig_simps [OF that(2)]
      same_rig_trans [OF that(2)] by auto
  show ?thesis
  proof (cases "li_ended s")
    case True
    then show ?thesis using h ok by (simp add: handle_control_def)
  next
    case live: False
    show ?thesis
    proof (cases "parse_client_message x")
      case None
      then have "s' = send_message (ErrorMessage ''invalid_message'' True) s" "\<not> r"
        using h live by (simp_all add: handle_control_def)
      then show ?thesis using same_account_ok [OF same_account_send ok] same_rig_account [OF same_account_send] by simp
    next
      case (Some m)
      show ?thesis
      proof (cases m)
        case (ConfigUpdate l th sil pad)
        obtain r1 s1 where u: "update_config l th sil pad s = (r1, s1)" using prod.exhaust by blast
        have same: "same_account s s1" "li_ended s1 = li_ended s" "li_lag_terminated s1 = li_lag_terminated s"
          using same_account_config [OF u] by simp_all
        have ok1: "live_ok s1" by (rule same_account_ok [OF same(1) ok]) (simp add: same)
        show ?thesis using h live Some ConfigUpdate u same eval [OF ok1 same_rig_account [OF same(1)] same(3)]
            same_rig_account [OF same(1)] by (auto simp: handle_control_def split: if_splits)
      next
        case FlushMessage
        then show ?thesis using h live Some eval flush_ok [OF ok, of env] by (auto simp: handle_control_def)
      next
        case ClearMessage
        then show ?thesis using h live Some eval clear_ok [OF ok] by (auto simp: handle_control_def)
      next
        case EndMessage
        then show ?thesis using h live Some eval end_ok [OF ok, of env] by (auto simp: handle_control_def)
      qed
    qed
  qed
qed

text \<open>An input whose audio lasts at most \<open>m\<close> seconds.\<close>

definition lasts_at_most :: "live \<Rightarrow> rat \<Rightarrow> live_input \<Rightarrow> bool" where
  "lasts_at_most s m i \<longleftrightarrow> (case i of AudioIn _ d \<Rightarrow> audio_bytes_to_seconds s (length d) \<le> m | _ \<Rightarrow> True)"

lemma handle_input_ok:
  assumes "live_ok s" "keeps_duration env (li_buffer s)" "whole (li_buffer s) i"
  shows "\<exists>r s'. handle_input env i s = Some (r, s') \<and> same_rig s s' \<and> (\<not> r \<longrightarrow> live_ok s')
    \<and> (rate_ratio s = 1 \<and> 0 \<le> m \<and> m + 1 / 10 \<le> lc_lag_hard (li_config s) \<and> lasts_at_most s m i
         \<longrightarrow> li_lag_terminated s' = li_lag_terminated s)"
proof (cases i)
  case (AudioIn clock d)
  then show ?thesis using handle_audio_account [OF assms(1,2), of "clock" d] assms(3)
    by (fastforce simp: handle_input_def lasts_at_most_def)
next
  case (ControlIn t x)
  obtain r s' where h: "handle_control env t x s = (r, s')" using prod.exhaust by blast
  then show ?thesis using handle_control_ok [OF assms(1) h] ControlIn by (auto simp: handle_input_def)
next
  case (MonitorTick t)
  then show ?thesis using evaluate_ok [OF assms(1), of t] evaluate_between [OF assms(1), of t]
    by (auto simp: handle_input_def)
qed

lemma take_inputs_ok:
  assumes "live_ok s" "keeps_duration env (li_buffer s)" "\<forall>i \<in> set is. whole (li_buffer s) i"
  shows "\<exists>r s'. take_inputs env is s = Some (r, s') \<and> same_rig s s' \<and> (\<not> r \<longrightarrow> live_ok s')
    \<and> (rate_ratio s = 1 \<and> 0 \<le> m \<and> m + 1 / 10 \<le> lc_lag_hard (li_config s) \<and> (\<forall>i \<in> set is. lasts_at_most s m i)
         \<longrightarrow> li_lag_terminated s' = li_lag_terminated s)"
  using assms
proof (induction "is" arbitrary: s)
  case (Cons i "is")
  obtain r s1 where h: "handle_input env i s = Some (r, s1)" "same_rig s s1" "\<not> r \<longrightarrow> live_ok s1"
    "rate_ratio s = 1 \<and> 0 \<le> m \<and> m + 1 / 10 \<le> lc_lag_hard (li_config s) \<and> lasts_at_most s m i
         \<longrightarrow> li_lag_terminated s1 = li_lag_terminated s"
    using handle_input_ok [OF Cons.prems(1,2), of i m] Cons.prems(3) by auto
  show ?case
  proof (cases "r \<or> li_ended s1")
    case True
    then show ?thesis using h by auto
  next
    case False
    note rig = same_rig_simps [OF h(2)]
    have "keeps_duration env (li_buffer s1)" "\<forall>i \<in> set is. whole (li_buffer s1) i" using Cons.prems(2,3) rig by simp_all
    then obtain r' s' where IH: "take_inputs env is s1 = Some (r', s')" "same_rig s1 s'" "\<not> r' \<longrightarrow> live_ok s'"
      "rate_ratio s1 = 1 \<and> 0 \<le> m \<and> m + 1 / 10 \<le> lc_lag_hard (li_config s1) \<and> (\<forall>i \<in> set is. lasts_at_most s1 m i)
         \<longrightarrow> li_lag_terminated s' = li_lag_terminated s1"
      using Cons.IH [of s1] h(3) False by blast
    have "lasts_at_most s1 m i = lasts_at_most s m i" for i
      by (cases i) (simp_all add: lasts_at_most_def rig)
    then show ?thesis using IH h same_rig_trans [OF h(2) IH(2)] False rig by auto
  qed
qed auto

definition MIN_SAMPLE_RATE :: nat where "MIN_SAMPLE_RATE = 8000"

definition valid_config :: "live_config \<Rightarrow> bool" where
  "valid_config c \<longleftrightarrow> MIN_SAMPLE_RATE \<le> lc_rate c \<and> 1 \<le> lc_channels c"

definition client_rate :: "live_config \<Rightarrow> nat" where
  "client_rate c = (case lc_client_rate c of Some r \<Rightarrow> if r = 0 then lc_rate c else r | None \<Rightarrow> lc_rate c)"

lemma new_session_buffer:
  assumes "new_session c native = Some s"
  shows "li_buffer s = \<lparr>ab_rate = lc_rate c, ab_client_rate = client_rate c, ab_encoding = lc_encoding c,
      ab_channels = max 1 (lc_channels c), ab_chunk_ms = 100, ab_buffer = [], ab_total = 0\<rparr>"
    and "lc_encoding c \<in> set SUPPORTED_ENCODINGS" "li_config s = c" "li_received s = 0" "li_processed s = 0" "li_discarded s = 0"
    "\<not> li_ended s" "\<not> li_lag_terminated s" "li_sent s = []" "li_assembler s = new_assembler" "li_error s = None"
  using assms by (auto simp: new_session_def new_buffer_def client_rate_def split: if_splits)

lemma new_session_ok:
  assumes "new_session c native = Some s" "valid_config c"
  shows "live_ok s" "rate_ratio s = of_nat (client_rate c) / of_nat (lc_rate c)"
proof -
  have "8000 * 100 div 1000 \<le> lc_rate c * 100 div 1000"
    using assms(2) by (intro div_le_mono mult_le_mono1) (simp add: valid_config_def MIN_SAMPLE_RATE_def)
  then have "0 < lc_rate c * 100 div 1000" by simp
  then have "0 < chunk_samples (li_buffer s)" by (simp add: chunk_samples_def new_session_buffer [OF assms(1)])
  then show "live_ok s" using assms(2)
    by (simp add: live_ok_def live_account_def matched_def accounted_def received_ok_def buffered_duration_def total_duration_def
        new_session_buffer [OF assms(1)] valid_config_def MIN_SAMPLE_RATE_def)
  show "rate_ratio s = of_nat (client_rate c) / of_nat (lc_rate c)"
    by (simp add: rate_ratio_def new_session_buffer [OF assms(1)])
qed

lemma finish_lag: "li_lag_terminated (finish_session env r s) = li_lag_terminated s" "li_ended (finish_session env r s)"
  by (simp_all add: finish_session_def send_session_end_def last_utterance_same Let_def)


text \<open>A session whose client has the engine's rate always runs to its end, and it is never
  terminated for lag when no message is longer than the hard limit less a tenth of a second,
  whatever the times are: the engine may be arbitrarily far behind.\<close>
lemma lag_counts_one_message:
  assumes "new_session c native = Some s0" "valid_config c" "client_rate c = lc_rate c"
    and "0 \<le> m" "m + 1 / 10 \<le> lc_lag_hard c" "\<forall>i \<in> set is. lasts_at_most s0 m i"
  shows "\<exists>s. run_session env is s0 = Some s \<and> li_ended s \<and> \<not> li_lag_terminated s"
proof -
  let ?s = "send_message (SessionBegin (lc_session_id (li_config s0))) s0"
  note b = new_session_buffer [OF assms(1)]
  have same: "same_account s0 ?s" by (rule same_account_send)
  have ok: "live_ok ?s" by (rule same_account_ok [OF same new_session_ok(1) [OF assms(1,2)]]) simp
  have rig: "same_rig s0 ?s" by (rule same_rig_account [OF same])
  have keep: "keeps_duration env (li_buffer ?s)"
    unfolding same_rig_simps(3) [OF rig] by (simp add: keeps_duration_def b(1) assms(3))
  have whole: "\<forall>i \<in> set is. whole (li_buffer ?s) i"
    unfolding same_rig_simps(4) [OF rig] by (simp add: whole_def b(1) assms(3) split: live_input.splits)
  have "lc_rate c \<noteq> 0" using assms(2) by (simp add: valid_config_def MIN_SAMPLE_RATE_def)
  then have ratio: "rate_ratio ?s = 1" using new_session_ok(2) [OF assms(1,2)] assms(3) same_rig_simps(1) [OF rig] by simp
  have short: "\<forall>i \<in> set is. lasts_at_most ?s m i"
    using assms(6) same_rig_simps(5) [OF rig] by (auto simp: lasts_at_most_def split: live_input.splits)
  obtain r s' where "take_inputs env is ?s = Some (r, s')" "li_lag_terminated s' = li_lag_terminated ?s"
    using take_inputs_ok [OF ok keep whole, of m] ratio assms(4,5) short b by auto
  then show ?thesis using b by (simp add: run_session_def finish_lag)
qed

text \<open>A client at 16 kHz and an engine at 8 kHz; four bytes of companded audio.\<close>

definition lag_rt :: rt_env where
  "lag_rt = demo_rt\<lparr>rt_resample := (\<lambda>a b xs. replicate (length xs * b div a) 0)\<rparr>"

definition lag_config :: "nat option \<Rightarrow> live_config" where
  "lag_config r = (demo_config False)\<lparr>lc_client_rate := r, lc_rate := 8000\<rparr>"

definition lag_session :: "nat option \<Rightarrow> live" where
  "lag_session r = the (new_session (lag_config r) False)"

definition lag_inputs :: "live_input list" where
  "lag_inputs = [AudioIn (\<lambda>_. 0) [1, 2, 3, 4], MonitorTick 1]"

lemma lag_session_new: "new_session (lag_config r) False = Some (lag_session r)"
  by (simp add: lag_session_def new_session_def new_buffer_def lag_config_def demo_config_def SUPPORTED_ENCODINGS_def)

lemma lag_config_valid: "valid_config (lag_config r)" "client_rate (lag_config (Some 16000)) = 16000"
  "client_rate (lag_config None) = 8000" "lc_rate (lag_config r) = 8000" "lc_lag_hard (lag_config r) = 5"
  by (simp_all add: valid_config_def client_rate_def lag_config_def demo_config_def MIN_SAMPLE_RATE_def)

lemma lag_rt_keeps: "keeps_duration lag_rt b"
  by (simp add: keeps_duration_def lag_rt_def)


lemma lag_counts_one_message_example:
  "\<exists>s. run_session lag_rt lag_inputs (lag_session None) = Some s \<and> li_ended s \<and> \<not> li_lag_terminated s"
proof (rule lag_counts_one_message [OF lag_session_new lag_config_valid(1)])
  show "client_rate (lag_config None) = lc_rate (lag_config None)" by (simp add: lag_config_valid)
  show "(1::rat) + 1 / 10 \<le> lc_lag_hard (lag_config None)" by (simp add: lag_config_valid)
  show "\<forall>i \<in> set lag_inputs. lasts_at_most (lag_session None) 1 i"
    by (simp add: lag_inputs_def lasts_at_most_def audio_bytes_to_seconds_def new_session_buffer(3) [OF lag_session_new])
      (simp add: lag_config_def demo_config_def bytes_per_sample_def)
qed simp

end
