(* ===== verification/RealtimeEnd.thy ===== *)
theory RealtimeEnd
  imports RealtimeLag
begin

text \<open>
  How a live session ends: with one summary, the last message, that lists exactly the final
  transcripts that were sent, in order and one after the other on the session's timeline; or
  terminated for lag, with no summary.
\<close>

section \<open>What is said\<close>

definition final_of :: "server_message \<Rightarrow> (rat \<times> rat \<times> string) option" where
  "final_of m = (case m of TranscriptFinal t a b _ _ \<Rightarrow> Some (a, b, t) | _ \<Rightarrow> None)"

definition is_end :: "server_message \<Rightarrow> bool" where
  "is_end m \<longleftrightarrow> (case m of SessionEnd _ _ _ _ \<Rightarrow> True | _ \<Rightarrow> False)"

definition segment_key :: "live_segment \<Rightarrow> rat \<times> rat \<times> string" where
  "segment_key g = (ls_start g, ls_end g, ls_text g)"

text \<open>The segments follow one another from one time to another.\<close>

fun tiles :: "rat \<Rightarrow> live_segment list \<Rightarrow> rat \<Rightarrow> bool" where
  "tiles a [] b \<longleftrightarrow> a = b"
| "tiles a (g # gs) b \<longleftrightarrow> ls_start g = a \<and> tiles (ls_end g) gs b"

lemma tiles_append: "tiles a gs b \<Longrightarrow> tiles b hs c \<Longrightarrow> tiles a (gs @ hs) c"
  by (induction gs arbitrary: a) auto

text \<open>A part of a session that sends messages and adds a segment with every final transcript.\<close>

definition says :: "live \<Rightarrow> live \<Rightarrow> bool" where
  "says s s' \<longleftrightarrow> (\<exists>ms gs. li_sent s' = li_sent s @ ms \<and> (\<forall>m \<in> set ms. \<not> is_end m)
     \<and> as_segments (li_assembler s') = as_segments (li_assembler s) @ gs
     \<and> map segment_key gs = List.map_filter final_of ms
     \<and> tiles (as_time (li_assembler s)) gs (as_time (li_assembler s')))
     \<and> li_ended s' = li_ended s \<and> li_lag_terminated s' = li_lag_terminated s"

lemma says_same:
  "li_sent s' = li_sent s \<Longrightarrow> li_assembler s' = li_assembler s \<Longrightarrow> li_ended s' = li_ended s \<Longrightarrow>
     li_lag_terminated s' = li_lag_terminated s \<Longrightarrow> says s s'"
  by (simp add: says_def)

lemma says_refl [simp]: "says s s"
  by (rule says_same) simp_all

lemma says_trans:
  assumes "says a b" "says b c" shows "says a c"
proof -
  obtain ms gs where 1: "li_sent b = li_sent a @ ms" "\<forall>m \<in> set ms. \<not> is_end m"
    "as_segments (li_assembler b) = as_segments (li_assembler a) @ gs" "map segment_key gs = List.map_filter final_of ms"
    "tiles (as_time (li_assembler a)) gs (as_time (li_assembler b))" using assms(1) by (auto simp: says_def)
  obtain ns hs where 2: "li_sent c = li_sent b @ ns" "\<forall>m \<in> set ns. \<not> is_end m"
    "as_segments (li_assembler c) = as_segments (li_assembler b) @ hs" "map segment_key hs = List.map_filter final_of ns"
    "tiles (as_time (li_assembler b)) hs (as_time (li_assembler c))" using assms(2) by (auto simp: says_def)
  have "map segment_key (gs @ hs) = List.map_filter final_of (ms @ ns)" using 1(4) 2(4) by (simp add: map_filter_def)
  then show ?thesis
    using 1 2 tiles_append [OF 1(5) 2(5)] assms unfolding says_def
    by (intro conjI exI [of _ "ms @ ns"] exI [of _ "gs @ hs"]) auto
qed

lemma says_send: "final_of m = None \<Longrightarrow> \<not> is_end m \<Longrightarrow> says s (send_message m s)"
  by (auto simp: says_def send_message_def map_filter_def)

lemma says_transcribe:
  assumes "\<not> li_lag_terminated s" shows "says s (transcribe_and_send env a s)"
proof (cases "li_ended s")
  case False
  show ?thesis
  proof (cases "rt_transcribe env (lc_language (li_config s)) a")
    case (Inl e)
    then show ?thesis using False by (simp add: transcribe_and_send_def says_send final_of_def is_end_def)
  next
    case (Inr t)
    let ?d = "samples_to_seconds s (length a)"
    obtain g a' where g: "add_transcript t ?d (li_assembler s) = (g, a')" using prod.exhaust by blast
    then have "as_segments a' = as_segments (li_assembler s) @ [g]" "as_time a' = ls_end g" "ls_start g = as_time (li_assembler s)"
      by (auto simp: add_transcript_def Let_def)
    then have "says s (send_message (TranscriptFinal (ls_text g) (ls_start g) (ls_end g) (ls_confidence g) w) (s\<lparr>li_assembler := a'\<rparr>))" for w
      using assms unfolding says_def
      by (intro conjI exI [of _ "[TranscriptFinal (ls_text g) (ls_start g) (ls_end g) (ls_confidence g) w]"] exI [of _ "[g]"])
        (simp_all add: send_message_def is_end_def final_of_def segment_key_def map_filter_def)
    then show ?thesis using Inr False by (simp add: transcribe_and_send_def g)
  qed
qed (simp add: transcribe_and_send_def)

lemma says_partial: "says s (send_partial_result env s)"
  by (simp add: send_partial_result_def says_send final_of_def is_end_def Let_def split: sum.split)

lemma says_clear: "says s (clear_partial s)"
  by (rule says_same) (simp_all add: clear_partial_def)

lemma says_count_chunk: "says s (count_chunk a s)"
  by (rule says_same) (simp_all add: count_chunk_def)

lemma says_count: "says s (count_partial env s)"
proof -
  have "says (send_partial_result env s) ((send_partial_result env s)\<lparr>li_chunks_since_partial := 0\<rparr>)" by (rule says_same) simp_all
  then show ?thesis using says_trans [OF says_partial] by (simp add: count_partial_def)
qed

lemma says_utterance: "\<not> li_lag_terminated s \<Longrightarrow> says s (transcribe_utterance env u s)"
  by (simp add: transcribe_utterance_def says_transcribe split: option.split)

lemma says_announce: "says s (announce VadSpeechStart s)" "says s (announce VadSpeechEnd s)"
  by (simp_all add: announce_def says_send final_of_def is_end_def)

lemma says_vad: "says s (s\<lparr>li_vad := v\<rparr>)"
  by (rule says_same) simp_all

lemma says_no_vad:
  assumes "\<not> li_lag_terminated s" shows "says s (process_chunk_no_vad env a s)"
proof -
  have tb: "says s' (time_based_chunk env s')" if "\<not> li_lag_terminated s'" for s'
    using says_trans [OF says_transcribe [OF that] says_clear] by (simp add: time_based_chunk_def)
  have "says s (time_based_chunk env (count_partial env (count_chunk a s)))"
    using says_trans [OF says_trans [OF says_count_chunk says_count] tb] assms by simp
  moreover have "says s (time_based_chunk env (count_chunk a s))"
    using says_trans [OF says_count_chunk tb] assms by simp
  ultimately show ?thesis by (simp add: process_chunk_no_vad_def)
qed

lemma says_check:
  assumes "\<not> li_lag_terminated s" shows "says s (check_max_utterance_duration env v s)"
proof (cases "force_endpoint v")
  case (Pair u v1)
  let ?s1 = "(announce VadSpeechEnd s)\<lparr>li_vad := Some v1\<rparr>"
  have "says s ?s1" by (rule says_trans [OF says_announce(2) says_vad])
  moreover have "says ?s1 (transcribe_utterance env u ?s1)" by (rule says_utterance) (simp add: assms)
  ultimately show ?thesis
    using says_trans [OF _ says_trans [OF says_clear says_announce(1)]] says_trans
    by (simp add: check_max_utterance_duration_def Pair)
qed

lemma says_event:
  assumes "\<not> li_lag_terminated s" shows "says s (on_vad_event env a e v s)"
proof (cases e)
  case Quiet
  then show ?thesis using says_trans [OF says_count_chunk says_count] by (simp add: on_vad_event_def)
next
  case SpeechStarted
  then show ?thesis using says_trans [OF says_clear says_send] by (simp add: on_vad_event_def final_of_def is_end_def)
next
  case (SpeechEnded u)
  let ?s1 = "clear_partial (send_message (VadSpeechEnd (as_time (li_assembler s))) s)"
  have "says s ?s1" using says_trans [OF says_send says_clear] by (simp add: final_of_def is_end_def)
  moreover have "says ?s1 (transcribe_utterance env u ?s1)" by (rule says_utterance) (simp add: assms)
  ultimately show ?thesis using says_trans SpeechEnded by (simp add: on_vad_event_def)
qed

lemma says_chunk:
  assumes "\<not> li_lag_terminated s" "process_chunk env a s = (r, s')" shows "says s s'"
proof (cases "li_ended s")
  case True
  then show ?thesis using assms(2) by (simp add: process_chunk_def)
next
  case live: False
  show ?thesis
  proof (cases "li_vad s")
    case None
    then show ?thesis using assms live says_no_vad by (simp add: process_chunk_def) blast
  next
    case (Some v0)
    show ?thesis
    proof (cases "vad_process env a v0")
      case None
      then show ?thesis using assms live Some by (simp add: process_chunk_def)
    next
      case p: (Some ev)
      obtain e v where ev: "ev = (e, v)" using prod.exhaust by blast
      let ?s1 = "on_vad_event env a e v (s\<lparr>li_vad := Some v\<rparr>)"
      have 1: "says s ?s1" by (rule says_trans [OF says_vad says_event]) (simp add: assms(1))
      then have "\<not> li_lag_terminated ?s1" using assms(1) by (simp add: says_def)
      then have "says ?s1 (check_max_utterance_duration env v ?s1)" by (rule says_check)
      then have "says s (check_max_utterance_duration env v ?s1)" by (rule says_trans [OF 1])
      then show ?thesis using assms(2) live Some p ev 1 by (auto simp: process_chunk_def Let_def split: if_splits)
    qed
  qed
qed

lemma says_record: "says s (record_processed x s)" "says s (record_discarded x s)" "says s (record_received n s)"
  by (rule says_same; simp add: record_processed_def record_discarded_def record_received_def)+

lemma says_warn: "says s (warn_lag t s)"
proof -
  let ?s1 = "send_message (LagWarning (round_ms (lag_seconds s)) (lc_lag_warning (li_config s)) (lc_lag_hard (li_config s))) s"
  have "says s ?s1" by (rule says_send) (simp_all add: final_of_def is_end_def)
  moreover have "says ?s1 (?s1\<lparr>li_last_warning := Some t\<rparr>)" by (rule says_same) simp_all
  ultimately show ?thesis using says_trans by (simp add: warn_lag_def Let_def)
qed

section \<open>Phases\<close>

definition told :: "live \<Rightarrow> bool" where
  "told s \<longleftrightarrow> map segment_key (as_segments (li_assembler s)) = List.map_filter final_of (li_sent s)
     \<and> tiles 0 (as_segments (li_assembler s)) (as_time (li_assembler s)) \<and> (\<forall>m \<in> set (li_sent s). \<not> is_end m)"

definition is_open :: "live \<Rightarrow> bool" where
  "is_open s \<longleftrightarrow> \<not> li_ended s \<and> \<not> li_lag_terminated s \<and> told s"

definition lag_ended :: "live \<Rightarrow> bool" where
  "lag_ended s \<longleftrightarrow> li_ended s \<and> li_lag_terminated s \<and> told s
     \<and> (\<exists>pre. li_sent s = pre @ [ErrorMessage ''lag_exceeded'' False, SessionTerminated ''lag_exceeded''])"

definition summed_up :: "live \<Rightarrow> bool" where
  "summed_up s \<longleftrightarrow> li_ended s \<and> \<not> li_lag_terminated s
     \<and> (\<exists>pre. li_sent s = pre @ [end_message s] \<and> told (s\<lparr>li_sent := pre\<rparr>))"

lemma says_told: "says s s' \<Longrightarrow> told s \<Longrightarrow> told s'"
  unfolding says_def told_def using tiles_append by (auto simp: map_filter_def)

lemma says_open: "says s s' \<Longrightarrow> is_open s \<Longrightarrow> is_open s'"
  using says_told by (auto simp: is_open_def says_def)

lemma evaluate_phase:
  assumes "is_open s" shows "is_open (evaluate_lag t s) \<or> lag_ended (evaluate_lag t s)"
proof -
  let ?w = "warn_lag t s"
  have w: "is_open ?w" by (rule says_open [OF says_warn assms])
  have hard: "is_open (?w\<lparr>li_hard_since := h\<rparr>)" for h using w by (simp add: is_open_def told_def)
  have "lag_ended (terminate_for_lag ?w)"
    using w by (simp add: lag_ended_def terminate_for_lag_def is_open_def send_message_def about_end_def told_def
        map_filter_def final_of_def is_end_def)
  then show ?thesis using assms w hard
    by (auto simp: evaluate_lag_def Let_def is_open_def [of s] split: option.split)
qed

lemma process_chunks_phase:
  assumes "process_chunks env clock k s = Some y"
  shows "is_open s \<or> lag_ended s \<longrightarrow>
     (is_open (snd y) \<or> lag_ended (snd y)) \<and> (fst y \<longrightarrow> is_open (snd y))"
proof (rule process_chunks.raw_induct [OF _ assms, where P = "\<lambda>env clock k s y. is_open s \<or> lag_ended s \<longrightarrow>
     (is_open (snd y) \<or> lag_ended (snd y)) \<and> (fst y \<longrightarrow> is_open (snd y))"], goal_cases)
  case (1 pc env clock k s y)
  show ?case
  proof
    assume start: "is_open s \<or> lag_ended s"
    show "(is_open (snd y) \<or> lag_ended (snd y)) \<and> (fst y \<longrightarrow> is_open (snd y))"
    proof (cases "li_ended s")
      case True
      then have "y = (False, s)" using 1(2) by simp
      then show ?thesis using start by simp
    next
      case live: False
      then have op: "is_open s" using start by (simp add: lag_ended_def)
      show ?thesis
      proof (cases "get_chunk (li_buffer s)")
        case None
        then have "y = (False, s)" using 1(2) live by simp
        then show ?thesis using start by simp
      next
        case (Some cb)
        obtain chunk b where cb: "cb = (chunk, b)" using prod.exhaust by blast
        obtain r s1 where p: "process_chunk env chunk (s\<lparr>li_buffer := b\<rparr>) = (r, s1)" using prod.exhaust by blast
        have "says s (s\<lparr>li_buffer := b\<rparr>)" by (rule says_same) simp_all
        moreover have "says (s\<lparr>li_buffer := b\<rparr>) s1" using op p by (intro says_chunk) (simp_all add: is_open_def)
        ultimately have s1: "is_open s1" using says_trans says_open op by blast
        show ?thesis
        proof (cases r)
          case True
          then have "y = (True, s1)" using 1(2) live Some cb p by simp
          then show ?thesis using s1 by simp
        next
          case False
          let ?s2 = "evaluate_lag (clock (Suc k)) (record_processed (samples_to_seconds s1 (length chunk)) s1)"
          have "is_open ?s2 \<or> lag_ended ?s2" by (rule evaluate_phase [OF says_open [OF says_record(1) s1]])
          moreover have "pc env clock (Suc k) ?s2 = Some y" using 1(2) live Some cb p False by simp
          ultimately show ?thesis using 1(1) by blast
        qed
      qed
    qed
  qed
qed

lemma handle_audio_phase:
  assumes "is_open s" "handle_audio env clock d s = Some (r, s')"
  shows "(is_open s' \<or> lag_ended s') \<and> (r \<longrightarrow> is_open s')"
proof (cases "add_audio env d (li_buffer s)")
  case None
  then show ?thesis using assms by (simp add: handle_audio_def is_open_def)
next
  case (Some b)
  have "says s (record_received (length d) (s\<lparr>li_buffer := b\<rparr>))"
    by (rule says_trans [OF _ says_record(3)]) (rule says_same, simp_all)
  then have "is_open (record_received (length d) (s\<lparr>li_buffer := b\<rparr>))" using says_open assms(1) by blast
  note e = evaluate_phase [OF this, of "clock 0"]
  have "process_chunks env clock 0 (evaluate_lag (clock 0) (record_received (length d) (s\<lparr>li_buffer := b\<rparr>))) = Some (r, s')"
    using assms Some by (simp add: handle_audio_def is_open_def)
  from process_chunks_phase [OF this] e show ?thesis by simp
qed

lemma says_flush_vad: "\<not> li_lag_terminated s \<Longrightarrow> says s (flush_vad env s)"
  using says_trans [OF says_vad says_utterance] by (simp add: flush_vad_def split: option.split prod.split)

lemma says_flush:
  assumes "\<not> li_lag_terminated s" shows "says s (flush_session env s)"
proof -
  let ?s = "flush_vad env s"
  have b: "says ?s (?s\<lparr>li_buffer := b\<rparr>)" for b by (rule says_same) simp_all
  have t: "says ?s (transcribe_and_send env a (?s\<lparr>li_buffer := b\<rparr>))" for a b
    by (rule says_trans [OF b says_transcribe]) (simp add: flush_vad_same assms)
  have "says ?s (flush_audio env ?s)"
    using says_trans [OF t says_record(1)] says_trans [OF b says_record(2)]
    by (simp add: flush_audio_def Let_def split: option.split prod.split)
  then show ?thesis using says_trans [OF says_flush_vad [OF assms]] by (simp add: flush_session_def)
qed

lemma says_clear_session: "says s (clear_session s)"
proof -
  have "says s (s\<lparr>li_vad := v, li_buffer := b\<rparr>)" for v b by (rule says_same) simp_all
  then show ?thesis using says_trans [OF says_trans [OF _ says_record(2)] says_clear]
    by (simp add: clear_session_def clear_buffer_def)
qed

lemma says_last:
  assumes "\<not> li_lag_terminated s" shows "says s (last_utterance env s)"
proof -
  have "says (transcribe_and_send env a s) ((transcribe_and_send env a s)\<lparr>li_speech := []\<rparr>)" for a by (rule says_same) simp_all
  then have "says s ((transcribe_and_send env a s)\<lparr>li_speech := []\<rparr>)" for a by (rule says_trans [OF says_transcribe [OF assms]])
  then show ?thesis using says_flush_vad [OF assms] by (simp add: last_utterance_def)
qed

lemma end_sums_up:
  assumes "is_open s" shows "summed_up (send_session_end env s)"
proof -
  have "is_open (last_utterance env s)" using says_open [OF says_last assms] assms by (simp add: is_open_def)
  then show ?thesis
    by (auto simp: summed_up_def send_session_end_def Let_def send_message_def is_open_def told_def end_message_def)
qed

lemma handle_control_phase:
  assumes op: "is_open s" and h: "handle_control env t x s = (r, s')"
  shows "(is_open s' \<or> lag_ended s' \<or> summed_up s') \<and> (r \<longrightarrow> is_open s')"
proof -
  have live: "\<not> li_ended s" "\<not> li_lag_terminated s" using op by (simp_all add: is_open_def)
  have eval: "is_open (evaluate_lag t s1) \<or> lag_ended (evaluate_lag t s1)" if "says s s1" for s1
    by (rule evaluate_phase [OF says_open [OF that op]])
  show ?thesis
  proof (cases "parse_client_message x")
    case None
    then have s': "s' = send_message (ErrorMessage ''invalid_message'' True) s" "\<not> r" using h live by (simp_all add: handle_control_def)
    have "says s (send_message (ErrorMessage ''invalid_message'' True) s)" by (rule says_send) (simp_all add: final_of_def is_end_def)
    then show ?thesis using says_open op s' by blast
  next
    case (Some m)
    show ?thesis
    proof (cases m)
      case (ConfigUpdate l th sil pad)
      obtain r1 s1 where u: "update_config l th sil pad s = (r1, s1)" using prod.exhaust by blast
      have "says s s1" using update_config_cases [OF u] by (auto intro: says_same)
      then show ?thesis using h live Some ConfigUpdate u eval says_open op by (auto simp: handle_control_def split: if_splits)
    next
      case FlushMessage
      then show ?thesis using h live Some eval [OF says_flush] by (auto simp: handle_control_def)
    next
      case ClearMessage
      then show ?thesis using h live Some eval [OF says_clear_session] by (auto simp: handle_control_def)
    next
      case EndMessage
      moreover have "li_ended (send_session_end env s)" by (simp add: send_session_end_def Let_def)
      ultimately show ?thesis using h live Some end_sums_up [OF op] by (auto simp: handle_control_def evaluate_ended)
    qed
  qed
qed

lemma take_inputs_phase:
  assumes "is_open s" "take_inputs env is s = Some (r, s')"
  shows "(is_open s' \<or> lag_ended s' \<or> summed_up s') \<and> (r \<longrightarrow> is_open s')"
  using assms
proof (induction "is" arbitrary: s)
  case (Cons i "is")
  obtain r1 s1 where h: "handle_input env i s = Some (r1, s1)"
    using Cons.prems(2) by (auto split: option.splits)
  have "(is_open s1 \<or> lag_ended s1 \<or> summed_up s1) \<and> (r1 \<longrightarrow> is_open s1)"
  proof (cases i)
    case (AudioIn clock d)
    then show ?thesis using h handle_audio_phase [OF Cons.prems(1), of env "clock" d r1 s1] by (auto simp: handle_input_def)
  next
    case (ControlIn t x)
    then show ?thesis using h handle_control_phase [OF Cons.prems(1)] by (simp add: handle_input_def)
  next
    case (MonitorTick t)
    then show ?thesis using h evaluate_phase [OF Cons.prems(1), of t] by (auto simp: handle_input_def)
  qed
  then show ?case
    using Cons.IH [of s1] Cons.prems(2) h by (auto simp: lag_ended_def summed_up_def split: if_splits)
qed simp

text \<open>C35: A session that ends was either terminated for lag, its last messages then saying so, with
  no summary, or its last message is its one summary, which lists exactly the final transcripts
  sent, in their order, joined into the text, each starting where the one before ended.\<close>
theorem session_end_exact:
  assumes "new_session c native = Some s0" "run_session env is s0 = Some s"
  shows "li_ended s \<and> tiles 0 (as_segments (li_assembler s)) (as_time (li_assembler s))
    \<and> map segment_key (as_segments (li_assembler s)) = List.map_filter final_of (li_sent s)
    \<and> (if li_lag_terminated s
       then (\<forall>m \<in> set (li_sent s). \<not> is_end m)
         \<and> (\<exists>pre. li_sent s = pre @ [ErrorMessage ''lag_exceeded'' False, SessionTerminated ''lag_exceeded''])
       else (\<exists>pre. li_sent s = pre @ [end_message s] \<and> (\<forall>m \<in> set pre. \<not> is_end m)))"
proof -
  let ?s = "send_message (SessionBegin (lc_session_id (li_config s0))) s0"
  have "told s0" by (simp add: told_def new_session_buffer [OF assms(1)] new_assembler_def map_filter_def)
  then have "is_open s0" by (simp add: is_open_def new_session_buffer [OF assms(1)])
  moreover have "says s0 ?s" by (rule says_send) (simp_all add: final_of_def is_end_def)
  ultimately have op: "is_open ?s" using says_open by blast
  obtain r s1 where t: "take_inputs env is ?s = Some (r, s1)" "s = finish_session env r s1"
    using assms(2) by (auto simp: run_session_def)
  note phase = take_inputs_phase [OF op t(1)]
  let ?e = "send_message (ErrorMessage ''internal_error'' False) (s1\<lparr>li_error := Some ''internal_error''\<rparr>)"
  have "lag_ended s \<or> summed_up s"
  proof (cases "is_open s1")
    case True
    have "says s1 (s1\<lparr>li_error := Some ''internal_error''\<rparr>)" by (rule says_same) simp_all
    then have "says s1 ?e" by (rule says_trans) (rule says_send, simp_all add: final_of_def is_end_def)
    then have "is_open ?e" using says_open True by blast
    then show ?thesis using end_sums_up True by (auto simp: t(2) finish_session_def is_open_def)
  next
    case False
    then show ?thesis using phase by (auto simp: t(2) finish_session_def lag_ended_def summed_up_def)
  qed
  moreover have "told s" if "lag_ended s" using that by (simp add: lag_ended_def)
  moreover have "final_of (end_message s) = None" by (simp add: final_of_def end_message_def Let_def)
  ultimately show ?thesis by (auto simp: lag_ended_def summed_up_def told_def map_filter_def)
qed

text \<open>A client that ends the session at once.\<close>

definition end_inputs :: "live_input list" where
  "end_inputs = [ControlIn 0 (json_dumps (\<lambda>_. []) (PDict [(''type'', PStr ''end'')]))]"

lemma demo_live_new: "new_session (demo_config False) False = Some (demo_live False)"
  by (simp add: demo_live_def new_session_def new_buffer_def demo_config_def SUPPORTED_ENCODINGS_def)

theorem session_end_exact_witness:
  "\<exists>s pre. run_session demo_rt end_inputs (demo_live False) = Some s \<and> li_ended s \<and> li_sent s = pre @ [end_message s]"
proof -
  have "map_option li_lag_terminated (run_session demo_rt end_inputs (demo_live False)) = Some False"
    by code_simp
  then obtain s where s: "run_session demo_rt end_inputs (demo_live False) = Some s" "\<not> li_lag_terminated s" by auto
  from session_end_exact [OF demo_live_new s(1)] s show ?thesis by auto
qed

end
