(* ===== verification/RealtimeVad.thy ===== *)
theory RealtimeVad
  imports RealtimeAudio
begin

text \<open>
  What the detection of utterances hands on: each utterance is a run of consecutive chunks that
  starts at most the lookback before the first chunk of speech and ends with the silence that
  closed it.
\<close>

text \<open>Feeding chunks, with a note for each of whether it was speech and what came of it.\<close>

definition hears :: "rt_env \<Rightarrow> sample list \<Rightarrow> vad \<Rightarrow> bool" where
  "hears env audio v \<longleftrightarrow> fst (get_speech_prob env audio v) > the (pynum (vc_threshold (va_config v)))"

fun vad_feed :: "rt_env \<Rightarrow> sample list list \<Rightarrow> (bool \<times> vad_event) list \<Rightarrow> vad \<Rightarrow> ((bool \<times> vad_event) list \<times> vad) option" where
  "vad_feed env [] es v = Some (es, v)"
| "vad_feed env (c # cs) es v =
     (case vad_process env c v of
        None \<Rightarrow> None
      | Some (e, v1) \<Rightarrow> vad_feed env cs (es @ [(hears env c v, e)]) v1)"

definition seconds :: "vad_config \<Rightarrow> sample list list \<Rightarrow> nat set \<Rightarrow> rat" where
  "seconds c cs K = (\<Sum>k \<in> K. of_nat (length (cs ! k)) / of_nat (vc_rate c))"

text \<open>Speech began at \<open>m\<close>, and \<open>p\<close> is the last chunk of speech before \<open>n\<close>.\<close>

definition speech_from :: "(bool \<times> vad_event) list \<Rightarrow> nat \<Rightarrow> nat \<Rightarrow> nat \<Rightarrow> bool" where
  "speech_from es m p n \<longleftrightarrow> m \<le> p \<and> p < n \<and> es ! m = (True, SpeechStarted) \<and> fst (es ! p)
     \<and> (\<forall>k. m < k \<and> k < n \<longrightarrow> snd (es ! k) = Quiet) \<and> (\<forall>k. p < k \<and> k < n \<longrightarrow> \<not> fst (es ! k))"

definition utterance_ok :: "vad_config \<Rightarrow> sample list list \<Rightarrow> (bool \<times> vad_event) list \<Rightarrow> nat \<Rightarrow> sample list option \<Rightarrow> bool" where
  "utterance_ok c cs es n x \<longleftrightarrow> (\<exists>m p. speech_from es m p n \<and> \<not> fst (es ! n)
     \<and> vc_min_silence c \<le> seconds c cs {p<..n} \<and> (Suc p = n \<or> seconds c cs {p<..<n} < vc_min_silence c)
     \<and> x = (if vc_min_speech c \<le> seconds c cs {k \<in> {m..<n}. fst (es ! k)}
            then Some (concat (take (Suc n - (Suc m - vc_lookback c)) (drop (Suc m - vc_lookback c) cs))) else None))"

definition feed_ok :: "vad_config \<Rightarrow> sample list list \<Rightarrow> (bool \<times> vad_event) list \<Rightarrow> vad \<Rightarrow> bool" where
  "feed_ok c cs es v \<longleftrightarrow> va_config v = c \<and> length es = length cs \<and> va_lookback v = drop (length cs - vc_lookback c) cs
     \<and> (va_speaking v \<longrightarrow> (\<exists>m p. speech_from es m p (length cs) \<and> va_speech_buffer v = drop (Suc m - vc_lookback c) cs
          \<and> va_silence v = seconds c cs {p<..<length cs} \<and> (Suc p = length cs \<or> va_silence v < vc_min_silence c)
          \<and> va_speech v = seconds c cs {k \<in> {m..<length cs}. fst (es ! k)}))
     \<and> (\<forall>n < length es. \<forall>x. snd (es ! n) = SpeechEnded x \<longrightarrow> utterance_ok c cs es n x)"

lemma seconds_append: "K \<subseteq> {..<length cs} \<Longrightarrow> seconds c (cs @ ds) K = seconds c cs K"
  unfolding seconds_def by (rule sum.cong) (auto simp: nth_append)

lemma seconds_none: "seconds c cs {n<..<Suc n} = 0"
proof -
  have "{n<..<Suc n} = {}" by auto
  then show ?thesis by (simp add: seconds_def)
qed

lemma seconds_snoc:
  assumes "K \<subseteq> {..<length cs}"
  shows "seconds c (cs @ [a]) (insert (length cs) K) = seconds c cs K + of_nat (length a) / of_nat (vc_rate c)"
proof -
  have "finite K" "length cs \<notin> K" using assms finite_subset by auto
  then show ?thesis using seconds_append [OF assms, of c "[a]"] by (simp add: seconds_def)
qed

lemma speech_from_append:
  "n \<le> length es \<Longrightarrow> speech_from (es @ fs) m p n = speech_from es m p n"
  unfolding speech_from_def by (auto simp: nth_append)

lemma utterance_ok_append:
  assumes "n < length es" "length es = length cs" shows "utterance_ok c (cs @ ds) (es @ fs) n x = utterance_ok c cs es n x"
proof -
  have s: "seconds c (cs @ ds) {p<..n} = seconds c cs {p<..n}" "seconds c (cs @ ds) {p<..<n} = seconds c cs {p<..<n}" for p
    using assms by (auto intro!: seconds_append)
  have flags: "{k \<in> {m..<n}. fst ((es @ fs) ! k)} = {k \<in> {m..<n}. fst (es ! k)}" for m
    using assms by (auto simp: nth_append)
  have h: "seconds c (cs @ ds) {k \<in> {m..<n}. fst (es ! k)} = seconds c cs {k \<in> {m..<n}. fst (es ! k)}" for m
    using assms by (auto intro!: seconds_append)
  have t: "take (Suc n - i) (drop i (cs @ ds)) = take (Suc n - i) (drop i cs)" for i
    using assms by (cases "i \<le> length cs") auto
  have f: "fst ((es @ fs) ! n) = fst (es ! n)" using assms by (simp add: nth_append)
  show ?thesis unfolding utterance_ok_def using assms by (simp only: s flags h t f speech_from_append [OF less_imp_le [OF assms(1)]])
qed

text \<open>One chunk.\<close>

definition speaking_ok :: "vad_config \<Rightarrow> sample list list \<Rightarrow> (bool \<times> vad_event) list \<Rightarrow> vad \<Rightarrow> nat \<Rightarrow> nat \<Rightarrow> bool" where
  "speaking_ok c cs es v m p \<longleftrightarrow> speech_from es m p (length cs) \<and> va_speech_buffer v = drop (Suc m - vc_lookback c) cs
     \<and> va_silence v = seconds c cs {p<..<length cs} \<and> (Suc p = length cs \<or> va_silence v < vc_min_silence c)
     \<and> va_speech v = seconds c cs {k \<in> {m..<length cs}. fst (es ! k)}"

lemma feed_okI:
  assumes "va_config v = c" "length es = length cs" "va_lookback v = drop (length cs - vc_lookback c) cs"
    and "va_speaking v \<longrightarrow> (\<exists>m p. speaking_ok c cs es v m p)"
    and "\<And>n x. n < length es \<Longrightarrow> snd (es ! n) = SpeechEnded x \<Longrightarrow> utterance_ok c cs es n x"
  shows "feed_ok c cs es v"
  using assms unfolding feed_ok_def speaking_ok_def by blast

lemma push_lookback_look:
  "va_lookback (push_lookback a v) = (let q = va_lookback v @ [a] in if length q > vc_lookback (va_config v) then tl q else q)"
  by (simp add: push_lookback_def Let_def)

lemma lookback_step: "1 \<le> l \<Longrightarrow> (let q = drop (length cs - l) cs @ [a] in if length q > l then tl q else q) = drop (Suc (length cs) - l) (cs @ [a])"
  by (cases "l \<le> length cs") (auto simp: Let_def Suc_diff_le tl_drop drop_Suc [symmetric] simp flip: drop_drop)

lemma feed_step:
  assumes ok: "feed_ok c cs es v" and L: "1 \<le> vc_lookback c" and step: "advance_vad f a v = (e, v')"
  shows "feed_ok c (cs @ [a]) (es @ [(f, e)]) v'"
proof -
  let ?n = "length cs" let ?cs = "cs @ [a]" let ?es = "es @ [(f, e)]" let ?l = "vc_lookback c"
  let ?d = "rat_of_nat (length a) / of_nat (vc_rate c)"
  let ?v = "push_lookback a v"
  have len: "length es = ?n" and conf: "va_config v = c" using ok by (simp_all add: feed_ok_def)
  have look: "va_lookback ?v = drop (Suc ?n - ?l) ?cs"
  proof -
    have "va_lookback v = drop (?n - ?l) cs" using ok by (simp add: feed_ok_def)
    then have "va_lookback ?v = (let q = drop (?n - ?l) cs @ [a] in if length q > ?l then tl q else q)"
      by (simp only: push_lookback_look conf)
    then show ?thesis by (simp only: lookback_step [OF L])
  qed
  have keep: "va_config ?v = c" "va_speaking ?v = va_speaking v" "va_speech_buffer ?v = va_speech_buffer v"
    "va_silence ?v = va_silence v" "va_speech ?v = va_speech v"
    by (simp_all add: push_lookback_def conf Let_def)
  have old: "utterance_ok c ?cs ?es k x" if "k < ?n" "snd (?es ! k) = SpeechEnded x" for k x
    using that ok utterance_ok_append [of k es cs c "[a]" "[(f, e)]" x] len by (simp add: feed_ok_def nth_append)
  have flags: "{k \<in> {m..<Suc ?n}. fst (?es ! k)} = (if f then insert ?n else id) {k \<in> {m..<?n}. fst (es ! k)}" if "m \<le> ?n" for m
    using that len by (auto simp: nth_append less_Suc_eq)
  have ival: "{p<..<Suc ?n} = insert ?n {p<..<?n}" if "p < ?n" for p using that by auto
  have events: "utterance_ok c ?cs ?es k x"
    if "k < length ?es" "snd (?es ! k) = SpeechEnded x" "\<And>x. e = SpeechEnded x \<Longrightarrow> utterance_ok c ?cs ?es ?n x" for k x
    using that old [of k x] len by (cases "k = ?n") (auto simp: nth_append)
  have len': "length ?es = length ?cs" using len by simp
  have look': "va_lookback ?v = drop (length ?cs - ?l) ?cs" by (simp only: look length_append_singleton)
  show ?thesis
  proof (cases "va_speaking v")
    case silent: False
    show ?thesis
    proof (cases f)
      case True
      have e: "e = SpeechStarted" "v' = ?v\<lparr>va_speaking := True, va_speech := ?d, va_silence := 0, va_speech_buffer := va_lookback ?v\<rparr>"
        using step silent True by (auto simp: advance_vad_def Let_def keep conf)
      have fr: "speech_from ?es ?n ?n (Suc ?n)" using len by (auto simp: speech_from_def nth_append e True)
      have "{k \<in> {?n..<Suc ?n}. fst (?es ! k)} = insert ?n {}" using flags [of ?n] True by simp
      then have secs: "seconds c ?cs {k \<in> {?n..<Suc ?n}. fst (?es ! k)} = ?d" using seconds_snoc [of "{}" cs c a] by (simp add: seconds_def)
      have "speaking_ok c ?cs ?es v' ?n ?n"
        unfolding speaking_ok_def length_append_singleton using fr secs seconds_none [of c ?cs ?n] by (simp only: e look vad.simps) simp
      then show ?thesis using events len' look' keep(1) by (intro feed_okI) (auto simp: e simp del: length_append drop_append)
    next
      case nf: False
      then have e: "e = Quiet" "v' = ?v" using step silent by (auto simp: advance_vad_def Let_def keep)
      show ?thesis using events len' look' keep(1,2) silent by (intro feed_okI) (auto simp: e simp del: length_append drop_append)
    qed
  next
    case speaking: True
    then obtain m p where S: "speech_from es m p ?n" "va_speech_buffer v = drop (Suc m - ?l) cs"
      "va_silence v = seconds c cs {p<..<?n}" "Suc p = ?n \<or> va_silence v < vc_min_silence c"
      "va_speech v = seconds c cs {k \<in> {m..<?n}. fst (es ! k)}"
      using ok by (auto simp: feed_ok_def)
    have mp: "m \<le> p" "p < ?n" using S(1) by (simp_all add: speech_from_def)
    have buf: "va_speech_buffer v @ [a] = drop (Suc m - ?l) ?cs" using mp by (simp add: S(2))
    have sil: "seconds c ?cs {p<..<Suc ?n} = va_silence v + ?d"
      using seconds_snoc [of "{p<..<?n}" cs c a] mp by (simp add: ival S(3) subset_iff)
    have more: "speech_from ?es m p ?n" using speech_from_append [of ?n es] S(1) len by simp
    have flagged: "{k \<in> {m..<?n}. fst (?es ! k)} = {k \<in> {m..<?n}. fst (es ! k)}" using len by (auto simp: nth_append)
    have speech: "seconds c ?cs {k \<in> {m..<?n}. fst (?es ! k)} = va_speech v"
      unfolding flagged S(5) by (rule seconds_append) auto
    show ?thesis
    proof (cases f)
      case True
      have e: "e = Quiet" "v' = ?v\<lparr>va_speech_buffer := va_speech_buffer v @ [a], va_speech := va_speech v + ?d, va_silence := 0\<rparr>"
        using step True speaking by (auto simp: advance_vad_def Let_def keep conf)
      have fr: "speech_from ?es m ?n (Suc ?n)" using more mp len e True by (auto simp: speech_from_def nth_append less_Suc_eq)
      have secs: "seconds c ?cs {k \<in> {m..<Suc ?n}. fst (?es ! k)} = va_speech v + ?d"
        using flags [of m] mp True seconds_snoc [of "{k \<in> {m..<?n}. fst (es ! k)}" cs c a] by (simp add: S(5) subset_iff)
      have "speaking_ok c ?cs ?es v' m ?n"
        unfolding speaking_ok_def length_append_singleton using fr secs seconds_none [of c ?cs ?n] by (simp only: e buf vad.simps) simp
      then show ?thesis using events len' look' keep(1) by (intro feed_okI) (auto simp: e simp del: length_append drop_append)
    next
      case nf: False
      define v2 where "v2 = ?v\<lparr>va_speech_buffer := va_speech_buffer v @ [a], va_silence := va_silence v + ?d\<rparr>"
      have v2: "va_config v2 = c" "va_lookback v2 = va_lookback ?v" by (simp_all add: v2_def keep)
      show ?thesis
      proof (cases "vc_min_silence c \<le> va_silence v + ?d")
        case True
        let ?x = "if vc_min_speech c \<le> va_speech v then Some (concat (va_speech_buffer v @ [a])) else None"
        have e: "e = SpeechEnded ?x" "v' = reset_speech v2"
          using step nf speaking True by (auto simp: advance_vad_def Let_def keep conf v2_def split: if_splits)
        have "utterance_ok c ?cs ?es ?n ?x"
          unfolding utterance_ok_def
        proof (intro exI conjI)
          show "speech_from ?es m p ?n" by (rule more)
          show "\<not> fst (?es ! ?n)" using len nf by (simp add: nth_append)
          have "{p<..?n} = {p<..<Suc ?n}" by auto
          then show "vc_min_silence c \<le> seconds c ?cs {p<..?n}" using sil True by simp
          show "Suc p = ?n \<or> seconds c ?cs {p<..<?n} < vc_min_silence c"
            using S(3,4) seconds_append [of "{p<..<?n}" cs c "[a]"] by (auto simp: subset_iff)
          show "?x = (if vc_min_speech c \<le> seconds c ?cs {k \<in> {m..<?n}. fst (?es ! k)}
               then Some (concat (take (Suc ?n - (Suc m - ?l)) (drop (Suc m - ?l) ?cs))) else None)"
            by (simp only: speech buf) simp
        qed
        then show ?thesis using events len' look' v2
          by (intro feed_okI) (auto simp: e reset_speech_def simp del: length_append drop_append)
      next
        case False
        have e: "e = Quiet" "v' = v2"
          using step nf speaking False by (auto simp: advance_vad_def Let_def keep conf v2_def)
        have fr: "speech_from ?es m p (Suc ?n)" using more mp len e nf by (auto simp: speech_from_def nth_append less_Suc_eq)
        have "seconds c ?cs {k \<in> {m..<Suc ?n}. fst (?es ! k)} = va_speech v"
          using flags [of m] mp nf speech flagged by simp
        then have "speaking_ok c ?cs ?es v' m p"
          unfolding speaking_ok_def length_append_singleton using fr sil False by (simp add: e v2_def buf keep del: drop_append)
        then show ?thesis using events len' look' v2 by (intro feed_okI) (auto simp: e simp del: length_append drop_append)
      qed
    qed
  qed
qed

lemma feed_all:
  assumes "feed_ok c cs es v" "1 \<le> vc_lookback c" "vad_feed env ds es v = Some (fs, v')"
  shows "feed_ok c (cs @ ds) fs v'"
  using assms
proof (induction ds arbitrary: cs es v)
  case (Cons a ds)
  obtain e v1 where p: "vad_process env a v = Some (e, v1)" using Cons.prems(3) by (auto split: option.splits)
  define w where "w = va_windows (snd (get_speech_prob env a v))"
  have g: "snd (get_speech_prob env a v) = v\<lparr>va_windows := w\<rparr>" by (simp add: w_def get_speech_prob_def Let_def)
  have adv: "advance_vad (hears env a v) a (v\<lparr>va_windows := w\<rparr>) = (e, v1)"
    using p g by (auto simp: vad_process_def hears_def split: prod.splits option.splits)
  have "feed_ok c cs es (v\<lparr>va_windows := w\<rparr>)" using Cons.prems(1) by (simp add: feed_ok_def)
  from Cons.IH [OF feed_step [OF this Cons.prems(2) adv] Cons.prems(2)]
  have "feed_ok c ((cs @ [a]) @ ds) fs v'" using Cons.prems(3) p by simp
  then show ?case by simp
qed simp

text \<open>C37: Whatever the chunks, the detection ends an utterance only at a chunk where the silence since
  the last chunk of speech has just reached its minimum; the utterance then is, if it has enough
  speech, all audio from the lookback before its first chunk of speech to that chunk, without a
  gap, and nothing otherwise.\<close>
theorem vad_utterances_contiguous:
  assumes "1 \<le> vc_lookback c" "vad_feed env cs [] (new_vad c) = Some (es, v)"
    and "n < length es" "snd (es ! n) = SpeechEnded x"
  shows "utterance_ok c cs es n x"
proof -
  have "feed_ok c [] [] (new_vad c)" by (simp add: feed_ok_def new_vad_def)
  from feed_all [OF this assms(1,2)] show ?thesis using assms(3,4) by (simp add: feed_ok_def)
qed

text \<open>A chunk of speech and a chunk of silence, a tenth of a second each.\<close>

definition vad_demo_rt :: rt_env where
  "vad_demo_rt = \<lparr>rt_ulaw = (\<lambda>b. ucast b), rt_alaw = (\<lambda>b. ucast b), rt_float = (\<lambda>_. 0), rt_resample = (\<lambda>_ _ xs. xs),
     rt_silero = (\<lambda>ws _. hd (last ws)), rt_transcribe = (\<lambda>_ _. Inl [])\<rparr>"

definition vad_demo_config :: vad_config where
  "vad_demo_config = \<lparr>vc_threshold = PFloat (1 / 2), vc_min_speech = 1 / 10, vc_min_silence = 1 / 10, vc_rate = 20, vc_lookback = 3\<rparr>"

lemma vad_demo_probs:
  "chunk_windows 256 [a, b] = [a # b # replicate 254 0]"
proof -
  define ys where "ys = [a, b] @ replicate (256 - length [a, b]) 0"
  have l: "length ys = 256" by (simp add: ys_def)
  have "chunk_windows 256 [a, b] = map (\<lambda>k. take 256 (drop (k * 256) ys)) [0..<length ys div 256]"
    by (simp add: chunk_windows_def ys_def)
  also have "\<dots> = [ys]" unfolding l by (simp add: l)
  finally show ?thesis by (simp add: ys_def)
qed

lemma vad_demo_run:
  "\<exists>v. vad_feed vad_demo_rt [[1, 1], [0, 0]] [] (new_vad vad_demo_config)
     = Some ([(True, SpeechStarted), (False, SpeechEnded (Some [1, 1, 0, 0]))], v)"
  by (simp add: vad_process_def hears_def get_speech_prob_def vad_demo_config_def new_vad_def vad_demo_probs vad_demo_rt_def
      pynum_def advance_vad_def push_lookback_def Let_def reset_speech_def)

theorem vad_utterances_contiguous_witness:
  "utterance_ok vad_demo_config [[1, 1], [0, 0]] [(True, SpeechStarted), (False, SpeechEnded (Some [1, 1, 0, 0]))] 1 (Some [1, 1, 0, 0])"
proof -
  obtain v where v: "vad_feed vad_demo_rt [[1, 1], [0, 0]] [] (new_vad vad_demo_config)
     = Some ([(True, SpeechStarted), (False, SpeechEnded (Some [1, 1, 0, 0]))], v)" using vad_demo_run by blast
  show ?thesis by (rule vad_utterances_contiguous [OF _ v]) (simp_all add: vad_demo_config_def)
qed

end
