(* ===== verification/RateLimiter.thy ===== *)
theory RateLimiter
  imports Prelude
begin

text \<open>
  The limits of a tenant (\<open>dalston/gateway/services/rate_limiter.py\<close>): the sliding window over
  requests, which is one script run by Redis, and the counters of concurrent jobs and sessions.
  The counter of jobs as the orchestrator moves it is part of the theory \<open>World\<close>; here are the
  questions asked of it. The text Lua makes of a time is a parameter. Keys do not expire.
\<close>

section \<open>Requests\<close>

text \<open>A sorted set: members with their scores, each member once.\<close>

type_synonym zset = "(string \<times> rat) list"

definition zremrangebyscore :: "rat \<Rightarrow> rat \<Rightarrow> zset \<Rightarrow> zset" where
  "zremrangebyscore a b z = filter (\<lambda>(_, x). \<not> (a \<le> x \<and> x \<le> b)) z"

definition zadd :: "rat \<Rightarrow> string \<Rightarrow> zset \<Rightarrow> zset" where
  "zadd x m z = filter (\<lambda>(m', _). m' \<noteq> m) z @ [(m, x)]"

definition WINDOW_SECONDS :: rat where "WINDOW_SECONDS = 60"

record limit_result =
  lr_allowed :: bool
  lr_limit :: int
  lr_remaining :: int
  lr_reset :: "rat option"

text \<open>\<open>SLIDING_WINDOW_SCRIPT\<close>: whether the request is allowed, the count and what remains.\<close>

definition sliding_window :: "(rat \<Rightarrow> string) \<Rightarrow> rat \<Rightarrow> rat \<Rightarrow> int \<Rightarrow> zset \<Rightarrow> (bool \<times> int \<times> int) \<times> zset" where
  "sliding_window tostring now window_start limit z =
     (let z1 = zremrangebyscore 0 window_start z; n = int (length z1)
      in if n < limit then ((True, n + 1, limit - n - 1), zadd now (tostring now) z1) else ((False, n, 0), z1))"

definition check_request_rate :: "(rat \<Rightarrow> string) \<Rightarrow> rat \<Rightarrow> int \<Rightarrow> zset \<Rightarrow> limit_result \<times> zset" where
  "check_request_rate tostring now limit z =
     (let ((allowed, _, remaining), z1) = sliding_window tostring now (now - WINDOW_SECONDS) limit z
      in (\<lparr>lr_allowed = allowed, lr_limit = limit, lr_remaining = remaining, lr_reset = Some WINDOW_SECONDS\<rparr>, z1))"

section \<open>Concurrency\<close>

text \<open>A counter that may be absent.\<close>

definition check_concurrent :: "int \<Rightarrow> int option \<Rightarrow> limit_result" where
  "check_concurrent limit counter =
     (let n = (case counter of Some n \<Rightarrow> n | None \<Rightarrow> 0)
      in \<lparr>lr_allowed = (n < limit), lr_limit = limit, lr_remaining = max 0 (limit - n), lr_reset = None\<rparr>)"

definition increment_sessions :: "int option \<Rightarrow> int option" where
  "increment_sessions counter = Some ((case counter of Some n \<Rightarrow> n | None \<Rightarrow> 0) + 1)"

definition decrement_sessions :: "int option \<Rightarrow> int option" where
  "decrement_sessions counter =
     (let n = (case counter of Some n \<Rightarrow> n | None \<Rightarrow> 0) - 1 in Some (if n < 0 then 0 else n))"

section \<open>The window is exact\<close>

text \<open>What a run of requests at given times is answered: by the script, and by counting the requests
  allowed in the last window.\<close>

fun rate_run :: "(rat \<Rightarrow> string) \<Rightarrow> int \<Rightarrow> rat list \<Rightarrow> zset \<Rightarrow> limit_result list" where
  "rate_run tostring limit [] z = []"
| "rate_run tostring limit (t # ts) z =
     (case check_request_rate tostring t limit z of (r, z1) \<Rightarrow> r # rate_run tostring limit ts z1)"

fun rate_spec :: "int \<Rightarrow> rat list \<Rightarrow> rat list \<Rightarrow> limit_result list" where
  "rate_spec limit [] granted = []"
| "rate_spec limit (t # ts) granted =
     (let n = int (length (filter (\<lambda>x. t - WINDOW_SECONDS < x) granted)); ok = n < limit
      in \<lparr>lr_allowed = ok, lr_limit = limit, lr_remaining = (if ok then limit - n - 1 else 0), lr_reset = Some WINDOW_SECONDS\<rparr>
         # rate_spec limit ts (if ok then granted @ [t] else granted))"

definition window_set :: "(rat \<Rightarrow> string) \<Rightarrow> rat \<Rightarrow> rat list \<Rightarrow> zset" where
  "window_set tostring w granted = map (\<lambda>x. (tostring x, x)) (filter (\<lambda>x. w < x) granted)"

lemma prune_window:
  assumes "\<forall>x \<in> set granted. 0 \<le> x" "w \<le> w'"
  shows "zremrangebyscore 0 w' (window_set tostring w granted) = window_set tostring w' granted"
proof -
  have "filter (\<lambda>x. w < x \<and> \<not> (0 \<le> x \<and> x \<le> w')) granted = filter (\<lambda>x. w' < x) granted"
    using assms by (intro filter_cong) auto
  then show ?thesis by (simp add: zremrangebyscore_def window_set_def filter_map comp_def conj_commute)
qed

lemma rate_run_spec:
  assumes "sorted_wrt (<) (granted @ ts)" "\<forall>x \<in> set (granted @ ts). 0 \<le> x" "inj_on tostring (set (granted @ ts))"
    and "\<forall>t \<in> set ts. w \<le> t - WINDOW_SECONDS"
  shows "rate_run tostring limit ts (window_set tostring w granted) = rate_spec limit ts granted"
  using assms
proof (induction ts arbitrary: granted w)
  case (Cons t ts)
  let ?w = "t - WINDOW_SECONDS" let ?n = "int (length (filter (\<lambda>x. ?w < x) granted))"
  let ?g = "if ?n < limit then granted @ [t] else granted"
  have prune: "zremrangebyscore 0 ?w (window_set tostring w granted) = window_set tostring ?w granted"
    using Cons.prems(2,4) by (intro prune_window) auto
  have new: "filter (\<lambda>(m', _). m' \<noteq> tostring t) (window_set tostring ?w granted) = window_set tostring ?w granted"
  proof (rule filter_True)
    have "tostring x \<noteq> tostring t" if "x \<in> set granted" for x
    proof
      assume "tostring x = tostring t"
      then have "x = t" by (rule inj_onD [OF Cons.prems(3)]) (use that in auto)
      then show False using Cons.prems(1) that by (auto simp: sorted_wrt_append)
    qed
    then show "\<forall>y \<in> set (window_set tostring ?w granted). case y of (m', _) \<Rightarrow> m' \<noteq> tostring t"
      by (auto simp: window_set_def)
  qed
  have len: "int (length (window_set tostring ?w granted)) = ?n" by (simp add: window_set_def)
  have add: "zadd t (tostring t) (window_set tostring ?w granted) = window_set tostring ?w (granted @ [t])"
    unfolding zadd_def new by (simp add: window_set_def WINDOW_SECONDS_def)
  have step: "check_request_rate tostring t limit (window_set tostring w granted) =
    (\<lparr>lr_allowed = (?n < limit), lr_limit = limit, lr_remaining = (if ?n < limit then limit - ?n - 1 else 0), lr_reset = Some WINDOW_SECONDS\<rparr>,
     window_set tostring ?w ?g)"
    by (simp add: check_request_rate_def sliding_window_def prune len add Let_def)
  have "rate_run tostring limit ts (window_set tostring ?w ?g) = rate_spec limit ts ?g"
  proof (rule Cons.IH)
    show "sorted_wrt (<) (?g @ ts)" using Cons.prems(1) by (auto simp: sorted_wrt_append)
    show "\<forall>x \<in> set (?g @ ts). 0 \<le> x" using Cons.prems(2) by auto
    show "inj_on tostring (set (?g @ ts))" using Cons.prems(3) by (auto intro: inj_on_subset)
    show "\<forall>s \<in> set ts. ?w \<le> s - WINDOW_SECONDS" using Cons.prems(1) by (auto simp: sorted_wrt_append less_imp_le)
  qed
  then show ?case by (simp add: step Let_def)
qed simp

text \<open>The script's answers are those of counting: a request is allowed exactly when fewer requests
  than the limit were allowed in the minute before it, and what remains is reported right, as
  long as no two requests have the same text for their time.\<close>
lemma sliding_window_exact:
  assumes "sorted_wrt (<) ts" "\<forall>t \<in> set ts. 0 \<le> t" "inj_on tostring (set ts)"
  shows "rate_run tostring limit ts [] = rate_spec limit ts []"
proof (cases ts)
  case (Cons t us)
  have "\<forall>s \<in> set ts. t - WINDOW_SECONDS \<le> s - WINDOW_SECONDS" using assms(1) Cons by auto
  then show ?thesis using rate_run_spec [of "[]" ts tostring "t - WINDOW_SECONDS" limit] assms by (simp add: window_set_def)
qed simp

lemma sliding_window_exact_example:
  "map lr_allowed (rate_run (\<lambda>t. replicate (nat \<lfloor>t\<rfloor>) (CHR ''1'')) 2 [1, 2, 3, 62] []) = [True, True, False, True]"
proof -
  have "inj_on (\<lambda>t :: rat. replicate (nat \<lfloor>t\<rfloor>) (CHR ''1'')) (set [1, 2, 3, 62])"
    by (auto simp: inj_on_def dest: arg_cong [of _ _ length])
  from sliding_window_exact [OF _ _ this, of 2] show ?thesis
    by (simp add: WINDOW_SECONDS_def)
qed

text \<open>Two requests whose times have the same text are counted once, so more than the limit pass.\<close>

lemma same_text_counts_once:
  "map lr_allowed (rate_run (\<lambda>_. ''1.7e+09'') 1 [1, 2] []) = [True, False]"
  "map lr_allowed (rate_run (\<lambda>_. ''1.7e+09'') 2 [1, 2, 3, 4] []) = [True, True, True, True]"
  by (simp_all add: check_request_rate_def sliding_window_def zremrangebyscore_def zadd_def WINDOW_SECONDS_def)

section \<open>Counting\<close>

text \<open>Sessions opened and closed in an order where each is closed after it was opened: the counter is the
  number of open ones, and the clamp at zero is never reached.\<close>

fun session_count :: "bool list \<Rightarrow> int option \<Rightarrow> int option" where
  "session_count [] c = c"
| "session_count (True # es) c = session_count es (increment_sessions c)"
| "session_count (False # es) c = session_count es (decrement_sessions c)"

lemma session_count_exact:
  assumes "0 \<le> n" "\<forall>k \<le> length es. length (filter Not (take k es)) \<le> nat n + length (filter (\<lambda>e. e) (take k es))"
  shows "session_count es (Some n) = Some (n + int (length (filter (\<lambda>e. e) es)) - int (length (filter Not es)))"
  using assms
proof (induction es arbitrary: n)
  case (Cons e es)
  have tail: "\<forall>k \<le> length es. length (filter Not (take k es)) \<le> nat m + length (filter (\<lambda>e. e) (take k es))"
    if "int (length (filter Not [e])) + m = n + int (length (filter (\<lambda>e. e) [e]))" "0 \<le> m" for m
  proof (intro allI impI)
    fix k assume "k \<le> length es"
    then show "length (filter Not (take k es)) \<le> nat m + length (filter (\<lambda>e. e) (take k es))"
      using Cons.prems(2) [rule_format, of "Suc k"] that Cons.prems(1) by (cases e) auto
  qed
  show ?case
  proof (cases e)
    case True
    then show ?thesis using Cons.IH [of "n + 1"] tail [of "n + 1"] Cons.prems(1) by (simp add: increment_sessions_def)
  next
    case False
    then have "0 \<le> n - 1" using Cons.prems(1) Cons.prems(2) [rule_format, of 1] by simp
    with False show ?thesis using Cons.IH [of "n - 1"] tail [of "n - 1"] by (simp add: decrement_sessions_def Let_def)
  qed
qed simp

end
