(* ===== verification/Retention.thy ===== *)
theory Retention
  imports Models Json
begin

text \<open>
  How long recordings and transcripts are kept: the deadline of a live session
  (\<open>dalston/gateway/services/realtime_sessions.py\<close>), the artifact rows of an owner
  (\<open>dalston/gateway/services/artifacts.py\<close>), the keys under which jobs and sessions store their
  objects, and the cleanup worker (\<open>dalston/orchestrator/cleanup.py\<close>) with the deletion by
  prefix it uses. A sweep runs without interruption at one reading of the clock; the order of
  rows is the order in which the database returns rows of one deadline.
\<close>

section \<open>Rows\<close>

datatype owner_kind = JobOwner | SessionOwner

text \<open>The columns of \<open>jobs\<close> and \<open>realtime_sessions\<close> that retention uses.\<close>

record owned =
  ow_id :: uuid
  ow_retention :: "int option"
  ow_ended :: "time option"
  ow_purge_after :: "time option"
  ow_purged_at :: "time option"

record artifact_row =
  ar_owner :: "owner_kind \<times> uuid"
  ar_ttl :: "int option"
  ar_available :: time
  ar_purge_after :: "time option"

text \<open>The tables, the keys in the bucket, the purge locks in Redis and the audit log of purged jobs.\<close>

record keep =
  kp_jobs :: "owned list"
  kp_sessions :: "owned list"
  kp_artifacts :: "artifact_row list"
  kp_objects :: "string list"
  kp_locks :: "(owner_kind \<times> uuid) list"
  kp_audit :: "uuid list"

definition empty_keep :: keep where
  "empty_keep = \<lparr>kp_jobs = [], kp_sessions = [], kp_artifacts = [], kp_objects = [], kp_locks = [], kp_audit = []\<rparr>"

definition rows_of :: "owner_kind \<Rightarrow> keep \<Rightarrow> owned list" where
  "rows_of kind k = (case kind of JobOwner \<Rightarrow> kp_jobs k | SessionOwner \<Rightarrow> kp_sessions k)"

definition set_rows :: "owner_kind \<Rightarrow> owned list \<Rightarrow> keep \<Rightarrow> keep" where
  "set_rows kind rs k = (case kind of JobOwner \<Rightarrow> k\<lparr>kp_jobs := rs\<rparr> | SessionOwner \<Rightarrow> k\<lparr>kp_sessions := rs\<rparr>)"

section \<open>Creating and ending\<close>

definition RETENTION_DEFAULT_DAYS :: int where "RETENTION_DEFAULT_DAYS = 30"

definition new_row :: "uuid \<Rightarrow> int option \<Rightarrow> owned" where
  "new_row i days = \<lparr>ow_id = i, ow_retention = days, ow_ended = None, ow_purge_after = None, ow_purged_at = None\<rparr>"

text \<open>\<open>JobsService.create_job\<close>; the primary key refuses a second row.\<close>

definition create_job :: "uuid \<Rightarrow> int \<Rightarrow> keep \<Rightarrow> keep" where
  "create_job i days k =
     (if i \<in> ow_id ` set (kp_jobs k) then k else k\<lparr>kp_jobs := kp_jobs k @ [new_row i (Some days)]\<rparr>)"

definition mark_owner_artifacts_available :: "owner_kind \<Rightarrow> uuid \<Rightarrow> time \<Rightarrow> keep \<Rightarrow> keep" where
  "mark_owner_artifacts_available kind i available k =
     k\<lparr>kp_artifacts := map (\<lambda>a.
        if ar_owner a = (kind, i) \<and> ar_purge_after a = None
        then a\<lparr>ar_available := available,
               ar_purge_after := (case ar_ttl a of None \<Rightarrow> None | Some s \<Rightarrow> Some (available + of_int s))\<rparr>
        else a) (kp_artifacts k)\<rparr>"

text \<open>The end of a job, as far as it touches these rows: the last part of \<open>_check_job_completion\<close>.\<close>

definition complete_job :: "uuid \<Rightarrow> time \<Rightarrow> keep \<Rightarrow> keep" where
  "complete_job i now k =
     mark_owner_artifacts_available JobOwner i now
       (k\<lparr>kp_jobs := map (\<lambda>r. if ow_id r = i then r\<lparr>ow_ended := Some now\<rparr> else r) (kp_jobs k)\<rparr>)"

text \<open>\<open>parse_session_id\<close>: \<open>sess_\<close> and hexadecimal digits, filled up with zeros, or a UUID.\<close>

definition parse_session_id :: "string \<Rightarrow> uuid option" where
  "parse_session_id s =
     (if take 5 s = ''sess_''
      then (let hex = drop 5 s in if hex = [] then None else parse_uuid (hex @ replicate (32 - length hex) (CHR ''0'')))
      else parse_uuid s)"

definition create_session_row :: "string \<Rightarrow> int \<Rightarrow> keep \<Rightarrow> keep" where
  "create_session_row sid days k =
     (case parse_session_id sid of
        None \<Rightarrow> k
      | Some i \<Rightarrow>
          if i \<in> ow_id ` set (kp_sessions k) then k
          else k\<lparr>kp_sessions := kp_sessions k @ [new_row i (Some days)]\<rparr>)"

definition compute_purge_after :: "int option \<Rightarrow> time \<Rightarrow> time option" where
  "compute_purge_after days ended =
     (case retention_to_ttl_seconds (case days of Some d \<Rightarrow> d | None \<Rightarrow> RETENTION_DEFAULT_DAYS) of
        None \<Rightarrow> None
      | Some ttl \<Rightarrow> if ttl = 0 then Some ended else Some (ended + of_int ttl))"

definition finalize_session :: "string \<Rightarrow> time \<Rightarrow> keep \<Rightarrow> keep" where
  "finalize_session sid now k =
     (case parse_session_id sid of
        None \<Rightarrow> k
      | Some i \<Rightarrow>
          (case List.find (\<lambda>r. ow_id r = i) (kp_sessions k) of
             None \<Rightarrow> k
           | Some existing \<Rightarrow>
               mark_owner_artifacts_available SessionOwner i now
                 (k\<lparr>kp_sessions := map (\<lambda>r. if ow_id r = i
                      then r\<lparr>ow_ended := Some now,
                             ow_purge_after := (case compute_purge_after (ow_retention existing) now of
                                                  Some t \<Rightarrow> Some t | None \<Rightarrow> ow_purge_after r)\<rparr>
                      else r) (kp_sessions k)\<rparr>)))"

section \<open>Keys\<close>

text \<open>What a job stores under, and what \<open>AudioRecorder\<close> and \<open>TranscriptRecorder\<close> write for a session.\<close>

definition job_key :: "uuid \<Rightarrow> string \<Rightarrow> string" where
  "job_key i name = ''jobs/'' @ uuid_text i @ ''/'' @ name"

definition session_key :: "string \<Rightarrow> string \<Rightarrow> string" where
  "session_key sid name = ''sessions/'' @ sid @ ''/'' @ name"

definition store_object :: "string \<Rightarrow> keep \<Rightarrow> keep" where
  "store_object key k = (if key \<in> set (kp_objects k) then k else k\<lparr>kp_objects := kp_objects k @ [key]\<rparr>)"

text \<open>\<open>delete_job_artifacts\<close> and \<open>delete_session_artifacts\<close>: the prefix they delete.\<close>

definition owner_prefix :: "owner_kind \<Rightarrow> uuid \<Rightarrow> string" where
  "owner_prefix kind i = (case kind of JobOwner \<Rightarrow> ''jobs/'' | SessionOwner \<Rightarrow> ''sessions/'') @ uuid_text i @ ''/''"

definition has_prefix :: "string \<Rightarrow> string \<Rightarrow> bool" where
  "has_prefix p key \<longleftrightarrow> take (length p) key = p"

section \<open>The cleanup worker\<close>

text \<open>What a sweep meets: the clock, the sizes of a batch and of a listing page, the page of a prefix
  whose request raises, the keys whose deletion the store reports as failed, and the commits that
  go through.\<close>

record purge_env =
  pe_now :: time
  pe_batch :: nat
  pe_page :: nat
  pe_raises :: "string \<Rightarrow> nat option"
  pe_refused :: "string \<Rightarrow> bool"
  pe_commits :: "uuid \<Rightarrow> bool"

text \<open>\<open>delete_prefix\<close>: page by page, without looking at the errors reported for single keys; whether
  it ran to its end, and what is left.\<close>

definition delete_prefix :: "purge_env \<Rightarrow> string \<Rightarrow> string list \<Rightarrow> bool \<times> string list" where
  "delete_prefix env p objs =
     (let found = filter (has_prefix p) objs
      in case pe_raises env p of
           None \<Rightarrow> (True, filter (\<lambda>x. has_prefix p x \<longrightarrow> pe_refused env x) objs)
         | Some n \<Rightarrow>
             (let gone = filter (\<lambda>x. \<not> pe_refused env x) (take (n * pe_page env) found)
              in (\<not> (n = 0 \<or> n * pe_page env < length found), filter (\<lambda>x. x \<notin> set gone) objs)))"

definition due_row :: "time \<Rightarrow> owned \<Rightarrow> bool" where
  "due_row now r \<longleftrightarrow> (case ow_purge_after r of None \<Rightarrow> False | Some t \<Rightarrow> t \<le> now) \<and> ow_purged_at r = None"

definition due_rows :: "time \<Rightarrow> owned list \<Rightarrow> owned list" where
  "due_rows now rs = sort_key (\<lambda>r. case ow_purge_after r of None \<Rightarrow> 0 | Some t \<Rightarrow> t) (filter (due_row now) rs)"

text \<open>The second phase: the row is read again, marked unless it already is, and counted.\<close>

definition mark_purged :: "purge_env \<Rightarrow> owner_kind \<Rightarrow> uuid \<Rightarrow> keep \<times> nat \<Rightarrow> keep \<times> nat" where
  "mark_purged env kind i = (\<lambda>(k, n).
     case List.find (\<lambda>r. ow_id r = i) (rows_of kind k) of
       None \<Rightarrow> (k, n)
     | Some r \<Rightarrow>
         if ow_purged_at r \<noteq> None \<or> \<not> pe_commits env i then (k, n)
         else (let k1 = set_rows kind (map (\<lambda>x. if ow_id x = i then x\<lparr>ow_purged_at := Some (pe_now env)\<rparr> else x) (rows_of kind k)) k
               in (if kind = JobOwner then k1\<lparr>kp_audit := kp_audit k1 @ [i]\<rparr> else k1, Suc n)))"

text \<open>One row of the batch: lock, delete, mark, and release the lock whatever happened.\<close>

definition purge_one :: "purge_env \<Rightarrow> owner_kind \<Rightarrow> owned \<Rightarrow> keep \<times> nat \<Rightarrow> keep \<times> nat" where
  "purge_one env kind r = (\<lambda>(k, n).
     let i = ow_id r; lock = (kind, i)
     in if lock \<in> set (kp_locks k) then (k, n)
        else (let (finished, objs) = delete_prefix env (owner_prefix kind i) (kp_objects k);
                  k1 = k\<lparr>kp_locks := lock # kp_locks k, kp_objects := objs\<rparr>;
                  (k2, n2) = (if finished then mark_purged env kind i (k1, n) else (k1, n))
              in (k2\<lparr>kp_locks := removeAll lock (kp_locks k2)\<rparr>, n2)))"

definition purge_expired :: "purge_env \<Rightarrow> owner_kind \<Rightarrow> keep \<Rightarrow> keep \<times> nat" where
  "purge_expired env kind k = fold (purge_one env kind) (take (pe_batch env) (due_rows (pe_now env) (rows_of kind k))) (k, 0)"

definition sweep :: "purge_env \<Rightarrow> keep \<Rightarrow> keep \<times> nat \<times> nat" where
  "sweep env k =
     (let (k1, jobs_purged) = purge_expired env JobOwner k;
          (k2, sessions_purged) = purge_expired env SessionOwner k1
      in (k2, jobs_purged, sessions_purged))"

end
