(* ===== verification/RetentionProps.thy ===== *)
theory RetentionProps
  imports Retention JsonProps
begin

text \<open>
  What retention promises and what it does: sweeps without failures purge the expired owners
  oldest first, a batch at a time, and remove exactly what is under their prefixes; a purge that
  fails keeps its place at the head of every batch; deadlines are those of the retention asked
  for. But jobs never get a deadline and sessions store their objects under another prefix,
  so no sweep removes anything jobs and sessions store.
\<close>

section \<open>Single purges\<close>

named_theorems retention_simps

lemma rows_of_set_rows [retention_simps, simp]:
  "rows_of kind (set_rows kind rs k) = rs"
  "kind \<noteq> kind' \<Longrightarrow> rows_of kind' (set_rows kind rs k) = rows_of kind' k"
  "kp_objects (set_rows kind rs k) = kp_objects k" "kp_locks (set_rows kind rs k) = kp_locks k"
  "kp_artifacts (set_rows kind rs k) = kp_artifacts k"
  by (cases kind; cases kind'; simp add: rows_of_def set_rows_def)+

lemma rows_of_updates [retention_simps, simp]:
  "rows_of kind (k\<lparr>kp_locks := l\<rparr>) = rows_of kind k" "rows_of kind (k\<lparr>kp_objects := os\<rparr>) = rows_of kind k"
  "rows_of kind (k\<lparr>kp_audit := au\<rparr>) = rows_of kind k"
  by (cases kind; simp add: rows_of_def)+

definition mark_row :: "time \<Rightarrow> owned \<Rightarrow> owned" where
  "mark_row now r = r\<lparr>ow_purged_at := Some now\<rparr>"

lemma mark_row_simps [simp]:
  "ow_id (mark_row now r) = ow_id r" "ow_purge_after (mark_row now r) = ow_purge_after r"
  "\<not> due_row t (mark_row now r)" "mark_row now (mark_row now r) = mark_row now r"
  by (simp_all add: mark_row_def due_row_def)

definition mark_ids :: "time \<Rightarrow> uuid set \<Rightarrow> owned list \<Rightarrow> owned list" where
  "mark_ids now ids rs = map (\<lambda>r. if ow_id r \<in> ids then mark_row now r else r) rs"

lemma mark_ids_simps [simp]:
  "map ow_id (mark_ids now ids rs) = map ow_id rs" "mark_ids now {} rs = rs"
  "mark_ids now A (mark_ids now B rs) = mark_ids now (A \<union> B) rs"
  by (auto simp: mark_ids_def)

text \<open>A sweep in which everything succeeds.\<close>

definition no_failures :: "purge_env \<Rightarrow> bool" where
  "no_failures env \<longleftrightarrow> (\<forall>p. pe_raises env p = None) \<and> (\<forall>x. \<not> pe_refused env x) \<and> (\<forall>i. pe_commits env i)"

definition not_under :: "owner_kind \<Rightarrow> owned list \<Rightarrow> string \<Rightarrow> bool" where
  "not_under kind rs x \<longleftrightarrow> (\<forall>r \<in> set rs. \<not> has_prefix (owner_prefix kind (ow_id r)) x)"

lemma not_under_simps [simp]:
  "not_under kind [] x" "not_under kind (r # rs) x \<longleftrightarrow> \<not> has_prefix (owner_prefix kind (ow_id r)) x \<and> not_under kind rs x"
  "not_under kind (rs @ qs) x \<longleftrightarrow> not_under kind rs x \<and> not_under kind qs x"
  by (auto simp: not_under_def)

lemma find_by_id:
  assumes "distinct (map ow_id rs)" "r \<in> set rs"
  shows "List.find (\<lambda>x. ow_id x = ow_id r) rs = Some r"
  using assms by (induction rs) auto

lemma purge_one_clean:
  assumes "no_failures env" "(kind, ow_id r) \<notin> set (kp_locks k)" "distinct (map ow_id (rows_of kind k))"
    and "x \<in> set (rows_of kind k)" "ow_id x = ow_id r" "ow_purged_at x = None"
    and "purge_one env kind r (k, n) = (k', n')"
  shows "rows_of kind k' = mark_ids (pe_now env) {ow_id r} (rows_of kind k)" "n' = Suc n"
    "kp_objects k' = filter (not_under kind [r]) (kp_objects k)" "kp_locks k' = kp_locks k"
proof -
  have f: "List.find (\<lambda>y. ow_id y = ow_id r) (rows_of kind k) = Some x"
    using find_by_id [OF assms(3,4)] assms(5) by simp
  have d: "delete_prefix env p objs = (True, filter (\<lambda>y. \<not> has_prefix p y) objs)" for p objs
    using assms(1) by (simp add: delete_prefix_def no_failures_def)
  note r = assms(7) [unfolded purge_one_def, simplified, unfolded Let_def, simplified, unfolded d]
  show "rows_of kind k' = mark_ids (pe_now env) {ow_id r} (rows_of kind k)" "n' = Suc n"
    "kp_objects k' = filter (not_under kind [r]) (kp_objects k)" "kp_locks k' = kp_locks k"
    using r assms(1,2,6) f
    by (auto simp: mark_purged_def Let_def no_failures_def mark_ids_def mark_row_def removeAll_id split: if_splits
        intro!: filter_cong)
qed

lemma purge_batch_clean:
  assumes "no_failures env" "\<forall>r \<in> set bs. (kind, ow_id r) \<notin> set (kp_locks k)"
    and "distinct (map ow_id (rows_of kind k))" "distinct (map ow_id bs)"
    and "\<forall>r \<in> set bs. \<exists>x \<in> set (rows_of kind k). ow_id x = ow_id r \<and> ow_purged_at x = None"
    and "fold (purge_one env kind) bs (k, n) = (k', n')"
  shows "rows_of kind k' = mark_ids (pe_now env) (ow_id ` set bs) (rows_of kind k) \<and> n' = n + length bs
    \<and> kp_objects k' = filter (not_under kind bs) (kp_objects k) \<and> kp_locks k' = kp_locks k"
  using assms(2-)
proof (induction bs arbitrary: k n)
  case (Cons r bs)
  obtain k1 n1 where one: "purge_one env kind r (k, n) = (k1, n1)" by fastforce
  obtain x where x: "x \<in> set (rows_of kind k)" "ow_id x = ow_id r" "ow_purged_at x = None" using Cons.prems(4) by auto
  note c = purge_one_clean [OF assms(1) _ Cons.prems(2) x one]
  have c: "rows_of kind k1 = mark_ids (pe_now env) {ow_id r} (rows_of kind k)" "n1 = Suc n"
    "kp_objects k1 = filter (not_under kind [r]) (kp_objects k)" "kp_locks k1 = kp_locks k"
    using c Cons.prems(1) by auto
  have here: "\<forall>q \<in> set bs. \<exists>y \<in> set (rows_of kind k1). ow_id y = ow_id q \<and> ow_purged_at y = None"
  proof
    fix q assume q: "q \<in> set bs"
    then obtain y where "y \<in> set (rows_of kind k)" "ow_id y = ow_id q" "ow_purged_at y = None" using Cons.prems(4) by auto
    moreover have "ow_id q \<noteq> ow_id r" using Cons.prems(3) imageI [OF q, of ow_id] by auto
    ultimately show "\<exists>y \<in> set (rows_of kind k1). ow_id y = ow_id q \<and> ow_purged_at y = None"
      unfolding c(1) mark_ids_def by (intro bexI [of _ y]) (auto simp: image_iff intro!: bexI [of _ y])
  qed
  have "rows_of kind k' = mark_ids (pe_now env) (ow_id ` set bs) (rows_of kind k1) \<and> n' = n1 + length bs
    \<and> kp_objects k' = filter (not_under kind bs) (kp_objects k1) \<and> kp_locks k' = kp_locks k1"
    using Cons.prems here by (intro Cons.IH) (auto simp: c one)
  then show ?case by (simp add: c conj_commute insert_commute)
qed auto

section \<open>Sweeps\<close>

lemma due_rows_of: "r \<in> set (due_rows now rs) \<longleftrightarrow> r \<in> set rs \<and> due_row now r"
  by (auto simp: due_rows_def)

lemma due_rows_after:
  assumes "distinct (map ow_id rs)"
  shows "due_rows now (mark_ids now (ow_id ` set (take b (due_rows now rs))) rs) = drop b (due_rows now rs)"
proof -
  let ?D = "due_rows now rs" let ?B = "set (take b ?D)"
  have sub: "?B \<subseteq> set rs" using set_take_subset [of b ?D] by (auto simp: due_rows_of)
  have "filter (due_row now) (mark_ids now (ow_id ` ?B) qs) = filter (\<lambda>r. r \<notin> ?B) (filter (due_row now) qs)"
    if "set qs \<subseteq> set rs" for qs
    using that
  proof (induction qs)
    case (Cons q qs)
    have "ow_id q \<in> ow_id ` ?B \<longleftrightarrow> q \<in> ?B"
      using assms sub Cons.prems by (auto simp: distinct_map dest!: inj_onD)
    with Cons show ?case by (simp add: mark_ids_def)
  qed (simp add: mark_ids_def)
  then have "due_rows now (mark_ids now (ow_id ` ?B) rs) = filter (\<lambda>r. r \<notin> ?B) ?D"
    unfolding due_rows_def by (simp add: filter_sort)
  also have "\<dots> = drop b ?D"
  proof -
    have "distinct ?D" using assms by (simp add: due_rows_def distinct_map)
    then have dis: "set (drop b ?D) \<inter> ?B = {}" using set_take_disj_set_drop_if_distinct [of ?D b b] by auto
    have "filter (\<lambda>r. r \<notin> ?B) (take b ?D @ drop b ?D) = drop b ?D"
      unfolding filter_append using dis by (auto simp: filter_empty_conv intro!: filter_True)
    then show ?thesis by simp
  qed
  finally show ?thesis .
qed

lemma purge_expired_clean:
  assumes "no_failures env" "kp_locks k = []" "distinct (map ow_id (rows_of kind k))"
    and "purge_expired env kind k = (k', n)"
  shows "rows_of kind k' = mark_ids (pe_now env) (ow_id ` set (take (pe_batch env) (due_rows (pe_now env) (rows_of kind k)))) (rows_of kind k)
    \<and> n = min (pe_batch env) (length (due_rows (pe_now env) (rows_of kind k)))
    \<and> kp_objects k' = filter (not_under kind (take (pe_batch env) (due_rows (pe_now env) (rows_of kind k)))) (kp_objects k)
    \<and> kp_locks k' = []"
proof -
  let ?bs = "take (pe_batch env) (due_rows (pe_now env) (rows_of kind k))"
  have in_rows: "r \<in> set (rows_of kind k)" "ow_purged_at r = None" if "r \<in> set ?bs" for r
    using in_set_takeD [OF that] by (auto simp: due_rows_of due_row_def)
  have "inj_on ow_id (set (due_rows (pe_now env) (rows_of kind k)))"
    using assms(3) by (auto simp: due_rows_of distinct_map inj_on_def)
  then have "distinct (map ow_id (due_rows (pe_now env) (rows_of kind k)))"
    using assms(3) by (auto simp: due_rows_def distinct_map)
  then have "distinct (map ow_id ?bs)" by (simp add: take_map [symmetric])
  from purge_batch_clean [OF assms(1) _ assms(3) this _ assms(4) [unfolded purge_expired_def]]
  show ?thesis using assms(2) in_rows by (auto simp: min.commute)
qed

definition purge_again :: "purge_env \<Rightarrow> owner_kind \<Rightarrow> keep \<Rightarrow> keep" where
  "purge_again env kind k = fst (purge_expired env kind k)"


text \<open>The demo: three sessions, two of them expired and one to be kept for ever, with a stray object.\<close>

definition demo_keep :: keep where
  "demo_keep = empty_keep\<lparr>
     kp_sessions := [\<lparr>ow_id = 1, ow_retention = Some 0, ow_ended = Some 50, ow_purge_after = Some 50, ow_purged_at = None\<rparr>,
       \<lparr>ow_id = 2, ow_retention = Some 0, ow_ended = Some 40, ow_purge_after = Some 40, ow_purged_at = None\<rparr>,
       \<lparr>ow_id = 3, ow_retention = Some (-1), ow_ended = Some 30, ow_purge_after = None, ow_purged_at = None\<rparr>],
     kp_objects := [''sessions/00000000-0000-0000-0000-000000000002/a'', ''sessions/00000000-0000-0000-0000-000000000003/a'']\<rparr>"

definition demo_purge :: purge_env where
  "demo_purge = \<lparr>pe_now = 100, pe_batch = 1, pe_page = 1000, pe_raises = (\<lambda>_. None), pe_refused = (\<lambda>_. False), pe_commits = (\<lambda>_. True)\<rparr>"


text \<open>A purge that raises keeps its row at the head: when that is a whole batch, nothing behind it is
  ever purged.\<close>

lemma failing_purge:
  assumes "fst (delete_prefix env (owner_prefix kind (ow_id r)) (kp_objects k)) = False"
    and "purge_one env kind r (k, n) = (k', n')"
  shows "rows_of kind k' = rows_of kind k" "n' = n"
  using assms by (auto simp: purge_one_def Let_def split: if_splits prod.splits)

lemma failing_head_starves:
  assumes "\<forall>r \<in> set (take (pe_batch env) (due_rows (pe_now env) (rows_of kind k))). pe_raises env (owner_prefix kind (ow_id r)) = Some 0"
  shows "rows_of kind ((purge_again env kind ^^ n) k) = rows_of kind k"
proof -
  have step: "rows_of kind (fst (fold (purge_one env kind) bs (k, m))) = rows_of kind k"
    if "\<forall>r \<in> set bs. pe_raises env (owner_prefix kind (ow_id r)) = Some 0" for bs k m
    using that
  proof (induction bs arbitrary: k m)
    case (Cons r bs)
    obtain k1 m1 where one: "purge_one env kind r (k, m) = (k1, m1)" by fastforce
    have "rows_of kind k1 = rows_of kind k"
      using Cons.prems by (intro failing_purge [OF _ one]) (simp add: delete_prefix_def)
    with Cons.IH [of k1 m1] Cons.prems one show ?case by simp
  qed simp
  show ?thesis
    using assms
  proof (induction n arbitrary: k)
    case (Suc n)
    have "rows_of kind (purge_again env kind k) = rows_of kind k"
      unfolding purge_again_def purge_expired_def using step [OF Suc.prems] by simp
    with Suc show ?case by (simp add: funpow_swap1)
  qed simp
qed

text \<open>The deadline of a session that was given a valid retention.\<close>

lemma compute_purge_after_days:
  assumes "validate_retention d = Inr ()"
  shows "compute_purge_after (Some d) t = (if d = -1 then None else Some (t + of_int (d * 86400)))"
    and "compute_purge_after None t = Some (t + of_int (30 * 86400))"
  using assms
  by (auto simp: validate_retention_def compute_purge_after_def retention_to_ttl_seconds_def RETENTION_TRANSIENT_def
    RETENTION_PERMANENT_def RETENTION_MIN_DAYS_def RETENTION_DEFAULT_DAYS_def SECONDS_PER_DAY_def split: if_splits)

text \<open>Keys that the store reports as not deleted stay, and the purge goes on as if they had gone.\<close>

lemma refused_keys_stay:
  assumes "pe_raises env p = None"
  shows "delete_prefix env p objs = (True, filter (\<lambda>x. has_prefix p x \<longrightarrow> pe_refused env x) objs)"
  using assms by (simp add: delete_prefix_def)

section \<open>What retention comes to\<close>

text \<open>Jobs and sessions come and end, engines and recorders store objects, the sessions' identifiers
  are those of the allocator, locks come and go, and sweeps run in whatever environment.\<close>

inductive keep_step :: "keep \<Rightarrow> keep \<Rightarrow> bool" where
  Job: "keep_step k (create_job i days k)"
| JobEnds: "keep_step k (complete_job i now k)"
| JobStores: "keep_step k (store_object (job_key i name) k)"
| Session: "keep_step k (create_session_row sid days k)"
| SessionEnds: "keep_step k (finalize_session sid now k)"
| SessionStores: "take 5 sid = ''sess_'' \<Longrightarrow> keep_step k (store_object (session_key sid name) k)"
| Locks: "keep_step k (k\<lparr>kp_locks := ls\<rparr>)"
| Sweep: "sweep env k = (k', p, q) \<Longrightarrow> keep_step k k'"

inductive keep_reachable :: "keep \<Rightarrow> bool" where
  Empty: "keep_reachable empty_keep"
| Step: "keep_reachable k \<Longrightarrow> keep_step k k' \<Longrightarrow> keep_reachable k'"

definition keep_inv :: "keep \<Rightarrow> bool" where
  "keep_inv k \<longleftrightarrow> (\<forall>r \<in> set (kp_jobs k). ow_purge_after r = None \<and> ow_purged_at r = None) \<and> kp_artifacts k = []
     \<and> (\<forall>x \<in> set (kp_objects k). take 5 x = ''jobs/'' \<or> take 14 x = ''sessions/sess_'')"

lemma uuid_text_first: "\<exists>d < 16. hd (uuid_text i) = hex_digit d" "uuid_text i \<noteq> []"
proof -
  obtain c cs where h: "take 8 (hex_pad 32 i) = c # cs" "c \<in> set (hex_pad 32 i)"
  proof (cases "hex_pad 32 i")
    case Nil
    then have "length (hex_pad 32 i) = 0" by simp
    then show ?thesis by simp
  next
    case (Cons c cs)
    then show ?thesis using that [of c "take 7 cs"] by simp
  qed
  show "\<exists>d < 16. hd (uuid_text i) = hex_digit d" "uuid_text i \<noteq> []"
    using hex_pad_digits [OF h(2)] h(1) by (auto simp: uuid_text_def Let_def)
qed

text \<open>No prefix of a session row is one of the keys in the bucket: a UUID does not begin with an s.\<close>

lemma session_prefix_misses:
  assumes "take 5 x = ''jobs/'' \<or> take 14 x = ''sessions/sess_''"
  shows "\<not> has_prefix (owner_prefix SessionOwner i) x"
proof
  assume p: "has_prefix (owner_prefix SessionOwner i) x"
  obtain d cs where u: "uuid_text i = hex_digit d # cs" "d < 16"
    using uuid_text_first [of i] by (cases "uuid_text i") auto
  have "take 10 x = ''sessions/'' @ [hex_digit d]"
    using arg_cong [OF p [unfolded has_prefix_def], of "take 10"] by (simp add: owner_prefix_def u min_def)
  then have "x = ''sessions/'' @ hex_digit d # drop 10 x" using append_take_drop_id [of 10 x] by simp
  then obtain y where x: "x = ''sessions/'' @ hex_digit d # y" by blast
  have "hex_digit d \<noteq> CHR ''s''" using hex_digit_is_hex [OF u(2)] by (auto simp: is_hex_def hex_value_def)
  with assms show False unfolding x by simp
qed

lemma purge_one_nothing:
  assumes "\<forall>x \<in> set (kp_objects k). take 5 x = ''jobs/'' \<or> take 14 x = ''sessions/sess_''"
    and "purge_one env SessionOwner r (k, n) = (k', n')"
  shows "kp_objects k' = kp_objects k" "kp_jobs k' = kp_jobs k" "kp_artifacts k' = kp_artifacts k"
proof -
  have none: "\<forall>x \<in> set (kp_objects k). \<not> has_prefix (owner_prefix SessionOwner i) x" for i
    using assms(1) session_prefix_misses by blast
  then have "snd (delete_prefix env (owner_prefix SessionOwner i) (kp_objects k)) = kp_objects k" for i
    by (auto simp: delete_prefix_def Let_def filter_False split: option.splits intro!: filter_True dest!: in_set_takeD)
  then obtain b where d: "delete_prefix env (owner_prefix SessionOwner (ow_id r)) (kp_objects k) = (b, kp_objects k)"
    by (metis prod.collapse)
  show "kp_objects k' = kp_objects k" "kp_jobs k' = kp_jobs k" "kp_artifacts k' = kp_artifacts k"
    using assms(2)
    by (auto simp: d purge_one_def mark_purged_def set_rows_def Let_def split: prod.splits if_splits option.splits)
qed

lemma fold_purge_nothing:
  assumes "\<forall>x \<in> set (kp_objects k). take 5 x = ''jobs/'' \<or> take 14 x = ''sessions/sess_''"
    and "fold (purge_one env SessionOwner) bs (k, n) = (k', n')"
  shows "kp_objects k' = kp_objects k \<and> kp_jobs k' = kp_jobs k \<and> kp_artifacts k' = kp_artifacts k"
  using assms
proof (induction bs arbitrary: k n)
  case (Cons r bs)
  obtain k1 n1 where one: "purge_one env SessionOwner r (k, n) = (k1, n1)" by fastforce
  from purge_one_nothing [OF Cons.prems(1) one] Cons.IH [of k1 n1] Cons.prems one show ?case by simp
qed simp

lemma sweep_nothing:
  assumes "keep_inv k" "sweep env k = (k', p, q)"
  shows "kp_objects k' = kp_objects k" "kp_jobs k' = kp_jobs k" "kp_artifacts k' = kp_artifacts k" "p = 0"
proof -
  have "due_rows (pe_now env) (kp_jobs k) = []"
    using assms(1) by (auto simp: keep_inv_def due_rows_def due_row_def filter_empty_conv)
  then have "purge_expired env JobOwner k = (k, 0)" by (simp add: purge_expired_def rows_of_def)
  then have s: "purge_expired env SessionOwner k = (k', q)" "p = 0"
    using assms(2) by (auto simp: sweep_def split: prod.splits)
  have "\<forall>x \<in> set (kp_objects k). take 5 x = ''jobs/'' \<or> take 14 x = ''sessions/sess_''"
    using assms(1) by (simp add: keep_inv_def)
  note n = fold_purge_nothing [OF this s(1) [unfolded purge_expired_def]]
  show "kp_objects k' = kp_objects k" "kp_jobs k' = kp_jobs k" "kp_artifacts k' = kp_artifacts k" "p = 0"
    using n s(2) by blast+
qed

lemma keep_inv_step: "keep_step k k' \<Longrightarrow> keep_inv k \<Longrightarrow> keep_inv k'"
proof (induction rule: keep_step.induct)
  case (SessionStores sid k name)
  moreover have "5 \<le> length sid" using arg_cong [OF SessionStores(1), of length] by simp
  ultimately have "take 14 (session_key sid name) = ''sessions/sess_''"
    by (simp add: session_key_def)
  with SessionStores show ?case by (simp add: keep_inv_def store_object_def)
next
  case (Sweep env k k' p q)
  from sweep_nothing [OF Sweep(2,1)] Sweep(2) show ?case by (simp add: keep_inv_def)
qed (auto simp: keep_inv_def create_job_def complete_job_def mark_owner_artifacts_available_def store_object_def job_key_def
  create_session_row_def finalize_session_def new_row_def split: option.splits)

text \<open>C39: Whatever retention is asked for, no sweep removes anything that jobs or sessions store: in
  every reachable state no job has a deadline or is marked, there is no artifact row that could
  carry one, and a sweep leaves every object where it is and counts no purged job, whatever it
  meets. It may still mark sessions as purged.\<close>
theorem retention_removes_nothing:
  assumes "keep_reachable k" "sweep env k = (k', jobs_purged, sessions_purged)"
  shows "kp_objects k' = kp_objects k \<and> jobs_purged = 0 \<and> kp_artifacts k' = []
    \<and> (\<forall>r \<in> set (kp_jobs k'). ow_purge_after r = None \<and> ow_purged_at r = None)"
proof -
  have "keep_inv k" using assms(1)
    by induction (auto simp: keep_inv_step, simp add: keep_inv_def empty_keep_def)
  with sweep_nothing [OF this assms(2)] show ?thesis by (simp add: keep_inv_def)
qed

text \<open>A job to be kept for a week and a session to be kept not at all, a month after they ended: the
  sweep marks the session as purged and leaves its recording and everything of the job.\<close>

definition demo_stores :: "(keep \<Rightarrow> keep) list" where
  "demo_stores =
    [create_job 7 7, store_object (job_key 7 ''transcript.json''), complete_job 7 100,
     create_session_row ''sess_0000000000000000'' 0, store_object (session_key ''sess_0000000000000000'' ''audio.wav''),
     finalize_session ''sess_0000000000000000'' 100]"

lemma stores_reachable:
  assumes "\<forall>f \<in> set fs. \<forall>k. keep_step k (f k)" "keep_reachable k"
  shows "keep_reachable (fold (\<lambda>f. f) fs k)"
  using assms by (induction fs arbitrary: k) (auto intro: keep_reachable.Step)

lemma key_differs [simp]: "session_key sid a \<noteq> job_key i b"
  by (simp add: session_key_def job_key_def)

lemma demo_session_id: "parse_session_id ''sess_0000000000000000'' = Some 0"
  by code_simp

theorem retention_removes_nothing_witness:
  "\<exists>k k'. k = fold (\<lambda>f. f) demo_stores empty_keep \<and> sweep (demo_purge\<lparr>pe_now := 2592100\<rparr>) k = (k', 0, 1)
     \<and> kp_objects k' = [job_key 7 ''transcript.json'', session_key ''sess_0000000000000000'' ''audio.wav'']
     \<and> map ow_purged_at (kp_sessions k') = [Some 2592100]"
proof -
  let ?k = "fold (\<lambda>f. f) demo_stores empty_keep"
  have r: "keep_reachable ?k"
    by (rule stores_reachable [OF _ keep_reachable.Empty])
      (simp add: demo_stores_def keep_step.Job keep_step.JobStores keep_step.JobEnds keep_step.Session
        keep_step.SessionStores keep_step.SessionEnds)
  have objects: "kp_objects ?k = [job_key 7 ''transcript.json'', session_key ''sess_0000000000000000'' ''audio.wav'']"
    by (simp add: demo_stores_def store_object_def empty_keep_def create_job_def complete_job_def create_session_row_def
      finalize_session_def mark_owner_artifacts_available_def demo_session_id new_row_def)
  obtain k' p q where s: "sweep (demo_purge\<lparr>pe_now := 2592100\<rparr>) ?k = (k', p, q)" by (cases "sweep (demo_purge\<lparr>pe_now := 2592100\<rparr>) ?k")
  have "q = 1 \<and> map ow_purged_at (kp_sessions k') = [Some 2592100]"
    using s [symmetric]
    by (simp add: demo_stores_def store_object_def empty_keep_def create_job_def complete_job_def create_session_row_def
      finalize_session_def mark_owner_artifacts_available_def demo_session_id new_row_def sweep_def purge_expired_def rows_of_def
      due_rows_def due_row_def compute_purge_after_def retention_to_ttl_seconds_def RETENTION_TRANSIENT_def demo_purge_def
      purge_one_def mark_purged_def set_rows_def delete_prefix_def Let_def)
  with retention_removes_nothing [OF r s] objects s show ?thesis by auto
qed

end
