(* ===== verification/Spec2Isabelle.thy ===== *)
theory Spec2Isabelle
  imports SelectorProps DagProps SchedulerProps LifecycleProps SlotProps HandlerProps CompletionProps
    EnrichmentProps AssemblyProps SessionProps
    OverlapProps ChunkedRunProps RecoveryProps InstanceProps JsonProps WebhookProps EventProps ManagerProps DiskProps RealtimeEnd RealtimeVad RateLimiter RetentionProps
begin

text \<open>
  Dalston transcribes speech. Its gateway accepts batch jobs and live sessions; its
  orchestrator turns a job into a graph of tasks, queues each task on the Redis stream of an
  engine, advances the graph as engines report, assembles the transcript and tells the client;
  engine processes take tasks from the streams, or audio from a live connection. This
  development models that core and proves what makes it correct. The definitions read as the
  Python they model and evaluate on concrete inputs; each names the functions it stands for.

  \<^bold>\<open>Data.\<close> \<open>Prelude\<close> has dynamic Python values (\<open>pyval\<close>, with \<open>dict\<close> as an association list in
  insertion order), truth tests, exceptions as values (\<open>exn + 'a\<close>) and stable sorting; \<open>Rounding\<close> has
  Python's \<open>round\<close>. \<open>Models\<close> has jobs, tasks, artifact selectors and retention periods
  (\<open>common/models.py\<close>, \<open>common/artifacts.py\<close>); \<open>Registry\<close> engine capabilities, instance records and
  the catalog as the orchestrator reads them; \<open>InstanceHashes\<close> the writing side
  (\<open>common/registry.py\<close>); \<open>Json\<close> the parts of \<open>json\<close> and \<open>uuid\<close> the streams go through.

  \<^bold>\<open>Planning a job.\<close> \<open>EngineSelector\<close> (\<open>orchestrator/engine_selector.py\<close>) chooses engines and
  models, \<open>Dag\<close> (\<open>orchestrator/dag.py\<close>) builds the task graph, \<open>Scheduler\<close>
  (\<open>orchestrator/scheduler.py\<close>) queues a task or explains why it cannot. \<open>SelectorProps\<close>,
  \<open>DagProps\<close> and \<open>SchedulerProps\<close> show that a selection can be served, that a graph is acyclic and
  wired as the pipeline is, that graph and selection agree, and what queueing does on each exit.

  \<^bold>\<open>Running a job.\<close> \<open>World\<close> is the state of the orchestrator: the tables of jobs and tasks, the
  Redis keys, the objects stored, the log of events. \<open>Handlers\<close> (\<open>orchestrator/handlers.py\<close>, with
  the gateway's submission and cancellation) and \<open>PostProcessor\<close> (\<open>orchestrator/post_processor.py\<close>,
  \<open>orchestrator/stats.py\<close>) are functions on it. \<open>QueueGrowth\<close> and \<open>Effects\<close> show that every handler is a
  finite sequence of guarded atomic effects, whichever exit it takes; \<open>Invariants\<close> proves, for
  every state these effects reach, crash points included, the lifecycle of tasks, readiness only
  after dependencies, what a completed job guarantees and the exact concurrency counter.
  \<open>LifecycleProps\<close>, \<open>HandlerProps\<close>, \<open>CompletionProps\<close>, \<open>SlotProps\<close> and \<open>EnrichmentProps\<close> state these
  and the behaviour of single handlers; \<open>Demo\<close> has the concrete jobs of the witnesses.

  \<^bold>\<open>Engines and repairs.\<close> \<open>ConsumerGroups\<close> models a Redis stream with its consumer group
  (\<open>common/streams.py\<close>, \<open>common/streams_sync.py\<close>), \<open>Cluster\<close> the streams over the orchestrator's
  state, \<open>Runner\<close> the loop of an engine (\<open>engine_sdk/runner.py\<close>) as a machine that may crash between
  any two steps, \<open>Recovery\<close> the stale-task scanner and the reconciliation sweeper
  (\<open>orchestrator/scanner.py\<close>, \<open>orchestrator/reconciler.py\<close>). \<open>ClusterInv\<close> interleaves them all;
  \<open>ClusterProps\<close> and \<open>RecoveryProps\<close> show that no message is lost, that engines work on due tasks
  only, how each repair acts, and which failure no repair notices. \<open>InstanceProps\<close> has what a
  lapsed registration costs. \<open>ModelManager\<close> and \<open>DiskCache\<close> (\<open>engine_sdk/model_manager.py\<close>,
  \<open>engine_sdk/admission.py\<close>, \<open>engine_sdk/disk_cache.py\<close>) are the models an engine holds in memory and
  on disk and the admission of work; \<open>ManagerProps\<close> and \<open>DiskProps\<close> show that reference counts are
  the leases, that reservations are kept, and what a pass of eviction removes.

  \<^bold>\<open>Events and webhooks.\<close> \<open>Events\<close> is the durable event stream with its dead letters
  (\<open>common/events.py\<close>, \<open>common/durable_events.py\<close>, the loop of \<open>orchestrator/distributed_main.py\<close>);
  \<open>Webhooks\<close> the endpoint service and the delivery worker (\<open>gateway/services/webhook_endpoints.py\<close>,
  \<open>gateway/services/webhook.py\<close>, \<open>orchestrator/delivery.py\<close>). \<open>JsonProps\<close> has the round trips of
  values and identifiers; \<open>EventProps\<close> and \<open>WebhookProps\<close> that a published event is dispatched with
  its values, that none is lost whatever consumers do, that replays create nothing twice, and
  that a delivery gets a bounded number of attempts.

  \<^bold>\<open>Transcripts.\<close> \<open>Turns\<close>, \<open>Splitting\<close> and \<open>Assembly\<close> are \<open>common/transcript.py\<close>: smoothing speaker
  turns, splitting segments by speaker, assembling mono and per-channel transcripts. \<open>Chunking\<close>
  (\<open>engine_sdk/diarize_chunking.py\<close>, the pyannote engine) and \<open>VadChunks\<close>, \<open>ChunkedRun\<close>
  (\<open>engine_sdk/vad.py\<close>, \<open>engine_sdk/base_transcribe.py\<close>) handle long audio. \<open>TurnProps\<close>, \<open>SplitProps\<close>,
  \<open>AssemblyProps\<close>, \<open>ChunkProps\<close>, \<open>MergeProps\<close>, \<open>OverlapProps\<close>, \<open>VadProps\<close> and \<open>ChunkedRunProps\<close> show that no
  speech, word or attribution is lost on the way, and exactly when planning chunks returns.

  \<^bold>\<open>Live sessions.\<close> \<open>Sessions\<close> (\<open>orchestrator/session_allocator.py\<close> and its neighbours) gives sessions
  to workers; \<open>SessionProps\<close> shows that no interleaving overcommits one. \<open>RealtimeAudio\<close> and
  \<open>RealtimeSession\<close> (\<open>realtime_sdk/session.py\<close>, \<open>vad.py\<close>, \<open>assembler.py\<close>) are one session from its
  messages to its end; \<open>RealtimeProps\<close>, \<open>RealtimeVad\<close>, \<open>RealtimeLag\<close> and \<open>RealtimeEnd\<close> show that framing
  does not matter, what an utterance holds, what the lag measures, and how a session ends.

  \<^bold>\<open>Limits and retention.\<close> \<open>RateLimiter\<close> (\<open>gateway/services/rate_limiter.py\<close>) has the limits of a
  tenant. \<open>Retention\<close> (\<open>orchestrator/cleanup.py\<close>, the deadlines of sessions and artifacts, the keys of
  stored objects) and \<open>RetentionProps\<close> show how sweeps purge what has expired, and that they
  remove nothing of what jobs and sessions store.

  \<^bold>\<open>Interfaces.\<close> \<open>best_first\<close> is what a ranking promises, for engines and for models;
  \<open>once_only\<close> a guarded operation, for the release of a concurrency slot; \<open>keyed_table\<close> reading a
  row after an update, for both tables; \<open>cursor_order\<close> listing by cursor, for both directions.

  \<^bold>\<open>Termination and bounds.\<close> Recursion is structural or has a measure: the length of what is left for
  the loops over parts and windows, the size of chunks for backing off (it halves down to a floor).
  Loops that need not end in the code are partial functions whose value \<open>None\<close> means that they do
  not return: planning and diarizing chunks, and cutting live audio; where the code does return
  this is proved, for planning with an exact condition. The reader of JSON takes fuel from the
  length of its input, two more than twice of it, which the round trip shows to be enough.

  \<^bold>\<open>Idealisations.\<close> Times and scores are exact rationals and not floats; \<open>round\<close> is exact on them.
  Text is a list of 8-bit characters. A handler reads the outside world and the clock once, through
  a record of its environment; such records hold everything that is not under \<open>src/\<close>: engines, speech
  models, codecs, the resampler, HTTP, the text of floats and of errors, identifiers drawn at random,
  and the order in which Redis and the database return unordered answers. Message identifiers are
  positions in a log, streams are not trimmed, and keys do not expire unless a step says so. Calls
  to Redis, the database and the object store succeed, but for writing events, deleting objects
  and the crash points of the effects and steps. Handlers run one after the other, interleaved by
  effects in \<open>Effects\<close> and \<open>ClusterInv\<close>.

  \<^bold>\<open>Not modelled.\<close> HTTP routes, schemas, authentication and address checks; the servers around engines and
  sessions, and engines that decode a stream themselves; leader locks, logging, metrics and traces;
  settings read from the environment; start-up and shutdown; the lite mode; clients and tools.
\<close>

end
